(* ===== verification/Go_Prelude.thy ===== *)
theory Go_Prelude
  imports Main "HOL-Library.Finite_Map" "HOL-Library.Monad_Syntax" "HOL-Library.Char_ord"
begin

text \<open>
  Shared vocabulary of the development: the Go types the packages use and how each is
  represented, the generic lemmas on lists, options and finite maps that the component
  theories rest on, and the named collections their proofs draw from.

  \<^item> \<open>gotime\<close>: an instant of the monotonic clock, in nanoseconds, as an integer. The
    zero value of Go's \<^verbatim>\<open>time.Time\<close> is \<open>0\<close>; every reading of the clock is later than it.
  \<^item> \<open>duration\<close>: \<^verbatim>\<open>time.Duration\<close>, a signed number of nanoseconds.
  \<^item> a Go \<^verbatim>\<open>map[K]V\<close> is a finite map \<open>('k, 'v) fmap\<close>; \<open>maplen\<close> is \<^verbatim>\<open>len(m)\<close>.
  \<^item> a Go \<^verbatim>\<open>[]byte\<close> or \<^verbatim>\<open>string\<close> is a list of 8-bit characters, \<open>bytes\<close>.
  \<^item> a run-time panic is \<open>None\<close> in an \<open>option\<close> result.
\<close>

type_synonym gotime = int
type_synonym duration = int
type_synonym bytes = "char list"

text \<open>Integer division truncates; a difference of instants saturates at the range of a duration.\<close>

definition go_div :: "int \<Rightarrow> int \<Rightarrow> int" where
  "go_div a b = sgn a * sgn b * (\<bar>a\<bar> div \<bar>b\<bar>)"

lemma go_div_nonneg [simp]: "0 \<le> a \<Longrightarrow> 0 < b \<Longrightarrow> go_div a b = a div b"
  by (simp add: go_div_def sgn_if)

definition time_Sub :: "gotime \<Rightarrow> gotime \<Rightarrow> duration" where
  "time_Sub t u = max (- (2 ^ 63)) (min (2 ^ 63 - 1) (t - u))"

named_theorems frame_simps \<open>fields an operation leaves alone\<close>
named_theorems scan_bounds \<open>where a scanner's result lies\<close>

section \<open>Finite maps as Go maps\<close>

definition maplen :: "('k, 'v) fmap \<Rightarrow> nat" where
  "maplen m = fcard (fmdom m)"

lemma maplen_empty [simp]: "maplen fmempty = 0"
  by (simp add: maplen_def)

lemma maplen_upd:
  "maplen (fmupd k v m) = (if fmlookup m k = None then Suc (maplen m) else maplen m)"
  by (auto simp: maplen_def fcard_finsert_if fmdom_notI fmlookup_dom_iff)

lemma maplen_drop:
  "maplen (fmdrop k m) = (if fmlookup m k = None then maplen m else maplen m - 1)"
  by (auto simp: maplen_def fcard_fminus_fsingleton_if fmlookup_dom_iff fmdom_notI)

lemma maplen_drop_less: "fmlookup m k = Some v \<Longrightarrow> maplen (fmdrop k m) < maplen m"
  by (metis fcard_fminus1_less fmdom_drop fmdomI maplen_def)

lemma maplen_pos: "fmlookup m k = Some v \<Longrightarrow> 0 < maplen m"
  using maplen_drop_less by fastforce

section \<open>Lists updated by position\<close>

lemma nth_swap:
  "i < length xs \<Longrightarrow> j < length xs \<Longrightarrow> k < length xs \<Longrightarrow>
     xs[i := xs ! j, j := xs ! i] ! k = (if k = j then xs ! i else if k = i then xs ! j else xs ! k)"
  by (auto simp: nth_list_update)

lemma distinct_map_swap:
  "i < length xs \<Longrightarrow> j < length xs \<Longrightarrow>
     distinct (map f (xs[i := xs ! j, j := xs ! i])) = distinct (map f xs)"
  using distinct_swap [of i "map f xs" j] by (simp add: map_update)

section \<open>Errors\<close>

text \<open>\<^verbatim>\<open>if err != nil { return err }\<close> before the rest of a function.\<close>

fun ok_then :: "'e + 'a \<Rightarrow> ('a \<Rightarrow> 'e + 'b) \<Rightarrow> 'e + 'b" where
  "ok_then (Inl e) f = Inl e"
| "ok_then (Inr v) f = f v"

lemma ok_then_Inr: "ok_then r f = Inr y \<longleftrightarrow> (\<exists>v. r = Inr v \<and> f v = Inr y)"
  by (cases r) auto

lemma ok_then_Inl: "ok_then r f = Inl e \<longleftrightarrow> r = Inl e \<or> (\<exists>v. r = Inr v \<and> f v = Inl e)"
  by (cases r) auto

text \<open>A result whose error is dropped, \<^verbatim>\<open>v, _ := f()\<close> with the zero value on failure.\<close>

fun or_zero :: "'e + 'a :: zero \<Rightarrow> 'a" where
  "or_zero (Inl e) = 0"
| "or_zero (Inr v) = v"

fun map_ok :: "('a \<Rightarrow> 'e + 'b) \<Rightarrow> 'a list \<Rightarrow> 'e + 'b list" where
  "map_ok f [] = Inr []"
| "map_ok f (x # xs) = ok_then (f x) (\<lambda>y. ok_then (map_ok f xs) (\<lambda>ys. Inr (y # ys)))"

lemma map_ok_all: "(\<And>x. x \<in> set xs \<Longrightarrow> f x = Inr (g x)) \<Longrightarrow> map_ok f xs = Inr (map g xs)"
  by (induction xs) auto

section \<open>Counting loops\<close>

text \<open>\<^verbatim>\<open>for k := lo; k < hi; k++\<close> keeps what its body keeps.\<close>

lemma foldl_upt_inv:
  assumes "P lo s" "lo \<le> hi" "\<And>k s. lo \<le> k \<Longrightarrow> k < hi \<Longrightarrow> P k s \<Longrightarrow> P (Suc k) (f s k)"
  shows "P hi (foldl f s [lo ..< hi])"
  using assms(2,3)
proof (induction hi)
  case (Suc hi)
  show ?case
  proof (cases "lo = Suc hi")
    case False
    then have "P hi (foldl f s [lo ..< hi])" using Suc by (meson le_SucE less_SucI)
    then show ?thesis using Suc.prems False by simp
  qed (use assms(1) in simp)
qed (use assms(1) in simp)

end
