(* ===== verification/SF_Pqueue.thy ===== *)
theory SF_Pqueue
  imports Go_Prelude "HOL-Library.Multiset"
begin

text \<open>
  The completed entries of \<^verbatim>\<open>pkg/sfcache\<close> and the indexed min-heap that orders them
  (\<^verbatim>\<open>entry.go\<close>, \<^verbatim>\<open>pqueue.go\<close>).

  An entry is reached by pointer from the cache's key map and from exactly one queue, and
  each queue writes the entry's own position into it, so the entries live in an explicit
  store from addresses to records. A queue is the list of its nodes. The functions follow
  the Go methods statement by statement; the one slice access that can go out of range,
  in \<^verbatim>\<open>pqueue.remove\<close>, yields \<open>None\<close>.

  The lemmas show that every operation keeps the heap order, the recorded positions and
  the outcome of every entry, and what it does to the set of queued entries. They are
  packaged as the locale \<open>deadline_queue\<close>, interpreted on the functions of this theory,
  which is all the eviction policy relies on.
\<close>

section \<open>Entries\<close>

type_synonym addr = nat

record ('v, 'e) entry =
  err :: "'e option"
  expireAt :: gotime
  staleUntil :: gotime
  val :: 'v
  idx :: nat

type_synonym ('v, 'e) store = "addr \<Rightarrow> ('v, 'e) entry"

definition usable :: "gotime \<Rightarrow> ('v, 'e) entry \<Rightarrow> bool \<Rightarrow> bool" where
  "usable now e waited \<longleftrightarrow> waited \<or> now < expireAt e"

definition expired :: "('v, 'e) entry \<Rightarrow> gotime \<Rightarrow> bool" where
  "expired e now \<longleftrightarrow> \<not> now < expireAt e"

definition revived :: "('v, 'e) entry \<Rightarrow> bool" where
  "revived e \<longleftrightarrow> staleUntil e \<noteq> 0"

definition deadline :: "('v, 'e) entry \<Rightarrow> gotime" where
  "deadline e = (if revived e then staleUntil e else expireAt e)"

definition set_idx :: "('v, 'e) store \<Rightarrow> addr \<Rightarrow> nat \<Rightarrow> ('v, 'e) store" where
  "set_idx h a i = h(a := (h a)\<lparr>idx := i\<rparr>)"

section \<open>The queue\<close>

record 'k pnode =
  item :: addr
  key :: 'k

type_synonym 'k pqueue = "'k pnode list"

definition pq_place ::
    "('v, 'e) store \<Rightarrow> 'k pqueue \<Rightarrow> nat \<Rightarrow> 'k pnode \<Rightarrow> ('v, 'e) store \<times> 'k pqueue" where
  "pq_place h ns i node = (set_idx h (item node) i, ns[i := node])"

definition pq_swap ::
    "('v, 'e) store \<Rightarrow> 'k pqueue \<Rightarrow> nat \<Rightarrow> nat \<Rightarrow> ('v, 'e) store \<times> 'k pqueue" where
  "pq_swap h ns i j =
     (let ns' = ns[i := ns ! j, j := ns ! i]
      in (set_idx (set_idx h (item (ns' ! i)) i) (item (ns' ! j)) j, ns'))"

lemma length_pq_swap [simp]: "length (snd (pq_swap h ns i j)) = length ns"
  by (simp add: pq_swap_def Let_def)

function pq_up ::
    "('v, 'e) store \<Rightarrow> 'k pqueue \<Rightarrow> nat \<Rightarrow> ('v, 'e) store \<times> 'k pqueue" where
  "pq_up h ns i =
     (if 0 < i then
        (let parent = (i - 1) div 2
         in if \<not> deadline (h (item (ns ! i))) < deadline (h (item (ns ! parent))) then (h, ns)
            else (let q = pq_swap h ns i parent in pq_up (fst q) (snd q) parent))
      else (h, ns))"
  by pat_completeness auto
termination
  by (relation "measure (\<lambda>(h, ns, i). i)") auto

declare pq_up.simps [simp del]

function pq_down_loop ::
    "('v, 'e) store \<Rightarrow> 'k pqueue \<Rightarrow> nat \<Rightarrow> ('v, 'e) store \<times> 'k pqueue \<times> nat" where
  "pq_down_loop h ns i =
     (let left = 2 * i + 1; right = 2 * i + 2
      in if length ns \<le> left then (h, ns, i)
         else (let first = (if right < length ns
                     \<and> deadline (h (item (ns ! right))) < deadline (h (item (ns ! left)))
                   then right else left)
               in if \<not> deadline (h (item (ns ! first))) < deadline (h (item (ns ! i)))
                  then (h, ns, i)
                  else (let q = pq_swap h ns i first in pq_down_loop (fst q) (snd q) first)))"
  by pat_completeness auto
termination
  by (relation "measure (\<lambda>(h, ns, i). length ns - i)") (auto split: if_splits)

declare pq_down_loop.simps [simp del]

definition pq_down ::
    "('v, 'e) store \<Rightarrow> 'k pqueue \<Rightarrow> nat \<Rightarrow> ('v, 'e) store \<times> 'k pqueue \<times> bool" where
  "pq_down h ns start = (case pq_down_loop h ns start of (h', ns', i) \<Rightarrow> (h', ns', start < i))"

definition pq_push ::
    "('v, 'e) store \<Rightarrow> 'k pqueue \<Rightarrow> 'k \<Rightarrow> addr \<Rightarrow> ('v, 'e) store \<times> 'k pqueue" where
  "pq_push h ns k a =
     (let ns' = ns @ [\<lparr>item = a, key = k\<rparr>];
          h' = set_idx h a (length ns' - 1)
      in pq_up h' ns' (idx (h' a)))"

text \<open>\<^verbatim>\<open>pqueue.remove\<close>: a recorded position outside the slice panics.\<close>

definition pq_remove ::
    "('v, 'e) store \<Rightarrow> 'k pqueue \<Rightarrow> addr \<Rightarrow> (('v, 'e) store \<times> 'k pqueue) option" where
  "pq_remove h ns a =
     (let i = idx (h a); last = length ns - 1
      in if length ns \<le> i then None
         else if i \<noteq> last then
           (let (h1, ns1) = pq_place h ns i (ns ! last);
                (h2, ns2, moved) = pq_down h1 (take last ns1) i
            in Some (if \<not> moved then pq_up h2 ns2 i else (h2, ns2)))
         else Some (h, take last ns))"

definition pq_top :: "'k pqueue \<Rightarrow> ('k \<times> addr) option" where
  "pq_top ns = (case ns of [] \<Rightarrow> None | n # _ \<Rightarrow> Some (key n, item n))"

text \<open>
  \<^verbatim>\<open>drain\<close> and \<^verbatim>\<open>partition\<close> hand entries to a callback; its effect is a state
  \<open>'s\<close> threaded through the calls in the order the code makes them.
\<close>

definition pq_drain :: "('k \<Rightarrow> addr \<Rightarrow> 's \<Rightarrow> 's) \<Rightarrow> 'k pqueue \<Rightarrow> 's \<Rightarrow> 's \<times> 'k pqueue" where
  "pq_drain remove ns s = (fold (\<lambda>n. remove (key n) (item n)) ns s, [])"

definition pq_heapify :: "('v, 'e) store \<Rightarrow> 'k pqueue \<Rightarrow> ('v, 'e) store \<times> 'k pqueue" where
  "pq_heapify h ns =
     (let h' = fold (\<lambda>i h. set_idx h (item (ns ! i)) i) [0..<length ns] h
      in fold (\<lambda>i (h, ns). case pq_down h ns i of (h', ns', _) \<Rightarrow> (h', ns'))
           (rev [0..<length ns div 2]) (h', ns))"

fun partition_loop ::
    "(addr \<Rightarrow> bool) \<Rightarrow> ('k \<Rightarrow> addr \<Rightarrow> 's \<Rightarrow> 's) \<Rightarrow> 'k pqueue \<Rightarrow> 'k pqueue \<Rightarrow> 's \<Rightarrow> 's \<times> 'k pqueue"
  where
    "partition_loop expendable remove [] kept s = (s, kept)"
  | "partition_loop expendable remove (n # ns) kept s =
       (if expendable (item n)
        then partition_loop expendable remove ns kept (remove (key n) (item n) s)
        else partition_loop expendable remove ns (kept @ [n]) s)"

definition pq_partition ::
    "(('v, 'e) entry \<Rightarrow> bool) \<Rightarrow> ('k \<Rightarrow> addr \<Rightarrow> 's \<Rightarrow> 's) \<Rightarrow> ('v, 'e) store \<Rightarrow> 'k pqueue \<Rightarrow> 's
       \<Rightarrow> 's \<times> ('v, 'e) store \<times> 'k pqueue" where
  "pq_partition expendable remove h ns s =
     (let (s', kept) = partition_loop (\<lambda>a. expendable (h a)) remove ns [] s
      in (s', pq_heapify h kept))"

section \<open>What the queue promises\<close>

abbreviation items :: "'k pqueue \<Rightarrow> addr set" where
  "items ns \<equiv> item ` set ns"

abbreviation dls :: "('v, 'e) store \<Rightarrow> 'k pqueue \<Rightarrow> gotime list" where
  "dls h ns \<equiv> map (\<lambda>n. deadline (h (item n))) ns"

abbreviation par :: "nat \<Rightarrow> nat" where
  "par i \<equiv> (i - 1) div 2"

text \<open>The heap order from position \<open>lo\<close> on; the whole queue is ordered when \<open>lo = 0\<close>.\<close>

definition heap_from :: "nat \<Rightarrow> gotime list \<Rightarrow> bool" where
  "heap_from lo xs \<longleftrightarrow> (\<forall>j. 0 < j \<and> j < length xs \<and> lo \<le> par j \<longrightarrow> xs ! par j \<le> xs ! j)"

definition idx_ok :: "('v, 'e) store \<Rightarrow> 'k pqueue \<Rightarrow> bool" where
  "idx_ok h ns \<longleftrightarrow> (\<forall>i < length ns. idx (h (item (ns ! i))) = i)"

definition pq_ok :: "('v, 'e) store \<Rightarrow> 'k pqueue \<Rightarrow> bool" where
  "pq_ok h ns \<longleftrightarrow> heap_from 0 (dls h ns) \<and> idx_ok h ns \<and> distinct (map item ns)"

text \<open>Two stores that agree on every outcome, and on everything outside a set of addresses.\<close>

definition same_outcome :: "addr set \<Rightarrow> ('v, 'e) store \<Rightarrow> ('v, 'e) store \<Rightarrow> bool" where
  "same_outcome A h h' \<longleftrightarrow>
     (\<forall>a. err (h' a) = err (h a) \<and> expireAt (h' a) = expireAt (h a)
        \<and> staleUntil (h' a) = staleUntil (h a) \<and> val (h' a) = val (h a)
        \<and> (a \<notin> A \<longrightarrow> h' a = h a))"

lemma same_outcome_refl [simp, intro]: "same_outcome A h h"
  by (simp add: same_outcome_def)

lemma same_outcome_trans:
  "same_outcome A h h' \<Longrightarrow> same_outcome A h' h'' \<Longrightarrow> same_outcome A h h''"
  by (simp add: same_outcome_def)

lemma same_outcome_mono: "same_outcome A h h' \<Longrightarrow> A \<subseteq> B \<Longrightarrow> same_outcome B h h'"
  by (auto simp: same_outcome_def)

lemma same_outcome_set_idx: "a \<in> A \<Longrightarrow> same_outcome A h (set_idx h a i)"
  by (auto simp: same_outcome_def set_idx_def)

lemma same_outcome_preds:
  assumes "same_outcome A h h'"
  shows "deadline (h' a) = deadline (h a)" and "expired (h' a) = expired (h a)"
    and "revived (h' a) = revived (h a)" and "usable now (h' a) = usable now (h a)"
  using assms by (auto simp: same_outcome_def deadline_def expired_def revived_def usable_def fun_eq_iff)

lemma same_outcome_dls: "same_outcome A h h' \<Longrightarrow> dls h' ns = dls h ns"
  by (simp add: same_outcome_preds)


section \<open>Rearranging a queue\<close>

text \<open>
  Every sifting step rearranges the nodes, rewrites only positions, and keeps the recorded
  positions right.
\<close>

definition rearr ::
    "('v, 'e) store \<Rightarrow> 'k pqueue \<Rightarrow> ('v, 'e) store \<Rightarrow> 'k pqueue \<Rightarrow> bool" where
  "rearr h ns h' ns' \<longleftrightarrow>
     mset ns' = mset ns \<and> same_outcome (items ns) h h'
     \<and> (idx_ok h ns \<and> distinct (map item ns) \<longrightarrow> idx_ok h' ns')"

lemma rearr_refl [simp, intro]: "rearr h ns h ns"
  by (simp add: rearr_def)

lemma rearr_set: "rearr h ns h' ns' \<Longrightarrow> set ns' = set ns"
  unfolding rearr_def by (metis set_mset_mset)

lemma rearr_length: "rearr h ns h' ns' \<Longrightarrow> length ns' = length ns"
  unfolding rearr_def by (metis size_mset)

lemma rearr_distinct: "rearr h ns h' ns' \<Longrightarrow> distinct (map item ns') = distinct (map item ns)"
  unfolding rearr_def by (metis distinct_count_atmost_1 mset_map mset_eq_imp_distinct_iff)

lemma rearr_trans:
  assumes "rearr h ns h' ns'" and "rearr h' ns' h'' ns''"
  shows "rearr h ns h'' ns''"
proof -
  have "items ns' = items ns" using rearr_set [OF assms(1)] by simp
  then show ?thesis
    using assms rearr_distinct [OF assms(1)]
    unfolding rearr_def by (metis same_outcome_trans)
qed

lemma rearr_swap:
  assumes "i < length ns" and "j < length ns" and "i \<noteq> j"
  shows "rearr h ns (fst (pq_swap h ns i j)) (snd (pq_swap h ns i j))"
proof -
  let ?ns = "ns[i := ns ! j, j := ns ! i]"
  let ?h = "set_idx (set_idx h (item (ns ! j)) i) (item (ns ! i)) j"
  have q: "pq_swap h ns i j = (?h, ?ns)"
    using assms by (simp add: pq_swap_def Let_def)
  have "same_outcome (items ns) h ?h"
    using assms by (intro same_outcome_trans [OF same_outcome_set_idx same_outcome_set_idx]) auto
  moreover have "idx_ok ?h ?ns" if "idx_ok h ns" and d: "distinct (map item ns)"
    unfolding idx_ok_def
  proof (intro allI impI)
    fix k assume k: "k < length ?ns"
    have inj: "item (ns ! x) = item (ns ! y) \<longleftrightarrow> x = y" if "x < length ns" "y < length ns" for x y
      using nth_eq_iff_index_eq [OF d, of x y] that by simp
    show "idx (?h (item (?ns ! k))) = k"
      using assms k that(1) inj [of i j] inj [of i k] inj [of j k]
      by (auto simp: set_idx_def idx_ok_def nth_list_update)
  qed
  ultimately show ?thesis
    using assms by (simp add: q rearr_def mset_swap)
qed

lemma dls_swap:
  assumes "i < length ns" and "j < length ns" and "i \<noteq> j"
  shows "dls (fst (pq_swap h ns i j)) (snd (pq_swap h ns i j))
       = (dls h ns)[i := dls h ns ! j, j := dls h ns ! i]"
proof -
  have "dls (fst (pq_swap h ns i j)) (snd (pq_swap h ns i j)) = dls h (snd (pq_swap h ns i j))"
    using rearr_swap [OF assms] unfolding rearr_def by (intro same_outcome_dls) blast
  then show ?thesis using assms by (simp add: pq_swap_def Let_def map_update)
qed

section \<open>Sifting up\<close>

text \<open>One defect that sifting up repairs: the node at \<open>i\<close> may be earlier than its parent.\<close>

definition up_inv :: "gotime list \<Rightarrow> nat \<Rightarrow> bool" where
  "up_inv xs i \<longleftrightarrow> i < length xs
     \<and> (\<forall>j. 0 < j \<and> j < length xs \<and> j \<noteq> i \<longrightarrow> xs ! par j \<le> xs ! j)
     \<and> (\<forall>j. 0 < i \<and> 0 < j \<and> j < length xs \<and> par j = i \<longrightarrow> xs ! par i \<le> xs ! j)"

lemma up_inv_heap: "heap_from 0 xs \<Longrightarrow> i < length xs \<Longrightarrow> up_inv xs i"
  unfolding up_inv_def heap_from_def by (metis le0 order.trans order_less_trans)

lemma up_inv_exit: "up_inv xs i \<Longrightarrow> i = 0 \<or> xs ! par i \<le> xs ! i \<Longrightarrow> heap_from 0 xs"
  unfolding up_inv_def heap_from_def by (metis less_irrefl)

lemma up_inv_step:
  assumes inv: "up_inv xs i" and pos: "0 < i" and bad: "xs ! i < xs ! par i"
  shows "up_inv (xs[i := xs ! par i, par i := xs ! i]) (par i)"
proof -
  define p where "p = par i"
  define ys where "ys = xs[i := xs ! p, p := xs ! i]"
  have lt: "p < i" using pos unfolding p_def by linarith
  have il: "i < length xs" using inv by (simp add: up_inv_def)
  have nth: "ys ! k = (if k = p then xs ! i else if k = i then xs ! p else xs ! k)"
    if "k < length xs" for k
    using that il lt by (simp add: ys_def nth_list_update)
  have edge: "xs ! par j \<le> xs ! j" if "0 < j" "j < length xs" "j \<noteq> i" for j
    using inv that by (simp add: up_inv_def)
  have grand: "xs ! p \<le> xs ! j" if "0 < j" "j < length xs" "par j = i" for j
    using inv that pos by (simp add: up_inv_def p_def)
  have pl: "par j < length xs" if "j < length xs" for j
    using that by linarith
  have bad': "xs ! i < xs ! p" using bad by (simp add: p_def)
  have c1: "ys ! par j \<le> ys ! j" if j: "0 < j" "j < length xs" "j \<noteq> p" for j
  proof (cases "j = i")
    case True
    then show ?thesis using nth [OF j(2)] nth [OF pl [OF j(2)]] bad' j(3) by (simp add: p_def)
  next
    case False
    define q where "q = par j"
    have "xs ! q \<le> xs ! j" using edge [OF j(1,2) False] by (simp add: q_def)
    moreover have "q = i \<Longrightarrow> xs ! p \<le> xs ! j" using grand [OF j(1,2)] by (simp add: q_def)
    moreover have "ys ! q = (if q = p then xs ! i else if q = i then xs ! p else xs ! q)"
      using nth [OF pl [OF j(2)]] by (simp add: q_def)
    moreover have "ys ! j = xs ! j" using nth [OF j(2)] j(3) False by simp
    ultimately have "ys ! q \<le> ys ! j" using bad' by auto
    then show ?thesis by (simp add: q_def)
  qed
  have c2: "ys ! par p \<le> ys ! j" if j: "0 < p" "0 < j" "j < length xs" "par j = p" for j
  proof -
    have up: "xs ! par p \<le> xs ! p" using j(1) edge [of p] il lt by simp
    have "par p \<noteq> p" and "par p \<noteq> i" using j(1) lt by linarith+
    then have "ys ! par p = xs ! par p" using nth [OF pl [of p]] il lt by simp
    moreover have "j \<noteq> p" using j by linarith
    then have "ys ! j = (if j = i then xs ! p else xs ! j)" using nth [OF j(3)] by simp
    moreover have "xs ! p \<le> xs ! j" if "j \<noteq> i" using edge [OF j(2,3) that] j(4) by simp
    ultimately show ?thesis using up by auto
  qed
  have "length ys = length xs" by (simp add: ys_def)
  then have "up_inv ys p" unfolding up_inv_def using c1 c2 il lt by auto
  then show ?thesis by (simp add: ys_def p_def)
qed

lemma pq_up_ok:
  assumes "up_inv (dls h ns) i"
  shows "rearr h ns (fst (pq_up h ns i)) (snd (pq_up h ns i))
       \<and> heap_from 0 (dls (fst (pq_up h ns i)) (snd (pq_up h ns i)))"
  using assms
proof (induction h ns i rule: pq_up.induct)
  case (1 h ns i)
  have il: "i < length ns" using "1.prems" by (simp add: up_inv_def)
  show ?case
  proof (cases "0 < i \<and> deadline (h (item (ns ! i))) < deadline (h (item (ns ! par i)))")
    case False
    then have "pq_up h ns i = (h, ns)" by (auto simp: pq_up.simps [of h ns i] Let_def)
    moreover have "i = 0 \<or> dls h ns ! par i \<le> dls h ns ! i" using False il by auto
    ultimately show ?thesis using up_inv_exit [OF "1.prems"] by simp
  next
    case True
    let ?q = "pq_swap h ns i (par i)"
    have pl: "par i < length ns" and ne: "i \<noteq> par i" using True il by linarith+
    have eq: "pq_up h ns i = pq_up (fst ?q) (snd ?q) (par i)"
      using True by (subst pq_up.simps) (simp add: Let_def)
    have bad: "dls h ns ! i < dls h ns ! par i" using True il pl by simp
    have "up_inv (dls (fst ?q) (snd ?q)) (par i)"
      unfolding dls_swap [OF il pl ne] using "1.prems" True bad by (intro up_inv_step) auto
    then have "rearr (fst ?q) (snd ?q) (fst (pq_up h ns i)) (snd (pq_up h ns i))
       \<and> heap_from 0 (dls (fst (pq_up h ns i)) (snd (pq_up h ns i)))"
      unfolding eq using True by (intro "1.IH") auto
    then show ?thesis using rearr_trans [OF rearr_swap [OF il pl ne]] by blast
  qed
qed

section \<open>Sifting down\<close>

text \<open>
  The defect that sifting down meets: only the node at \<open>i\<close> may be out of order, towards
  its parent and towards its children; its parent is in order with its children.
\<close>

definition hole_inv :: "nat \<Rightarrow> gotime list \<Rightarrow> nat \<Rightarrow> bool" where
  "hole_inv lo xs i \<longleftrightarrow> lo \<le> i \<and> i < length xs
     \<and> (\<forall>j. 0 < j \<and> j < length xs \<and> lo \<le> par j \<and> j \<noteq> i \<and> par j \<noteq> i \<longrightarrow> xs ! par j \<le> xs ! j)
     \<and> (\<forall>j. 0 < i \<and> lo \<le> par i \<and> 0 < j \<and> j < length xs \<and> par j = i \<longrightarrow> xs ! par i \<le> xs ! j)"

definition above_children :: "gotime list \<Rightarrow> nat \<Rightarrow> bool" where
  "above_children xs i \<longleftrightarrow> (\<forall>j. 0 < j \<and> j < length xs \<and> par j = i \<longrightarrow> xs ! i \<le> xs ! j)"

lemma par_eq_iff: "0 < j \<Longrightarrow> par j = i \<longleftrightarrow> j = 2 * i + 1 \<or> j = 2 * i + 2"
  by linarith

lemma above_children_iff:
  "above_children xs i \<longleftrightarrow>
     (2 * i + 1 < length xs \<longrightarrow> xs ! i \<le> xs ! (2 * i + 1)) \<and>
     (2 * i + 2 < length xs \<longrightarrow> xs ! i \<le> xs ! (2 * i + 2))"
proof -
  have "(0 < j \<and> j < length xs \<and> par j = i) \<longleftrightarrow> (j < length xs \<and> (j = 2 * i + 1 \<or> j = 2 * i + 2))" for j
    using par_eq_iff [of j i] by auto
  then show ?thesis unfolding above_children_def by auto
qed

lemma hole_exit:
  assumes "hole_inv lo xs i" and "above_children xs i"
    and "0 < i \<Longrightarrow> lo \<le> par i \<Longrightarrow> xs ! par i \<le> xs ! i"
  shows "heap_from lo xs"
  unfolding heap_from_def
proof (intro allI impI, elim conjE)
  fix j assume j: "0 < j" "j < length xs" "lo \<le> par j"
  define q where "q = par j"
  have "j \<noteq> i \<Longrightarrow> q \<noteq> i \<Longrightarrow> xs ! q \<le> xs ! j" using assms(1) j by (simp add: hole_inv_def q_def)
  moreover have "q = i \<Longrightarrow> xs ! q \<le> xs ! j"
    using assms(2) j by (simp add: above_children_def q_def)
  moreover have "j = i \<Longrightarrow> xs ! q \<le> xs ! j" using assms(3) j by (simp add: q_def)
  ultimately show "xs ! par j \<le> xs ! j" unfolding q_def by blast
qed

lemma hole_up_inv:
  assumes "hole_inv 0 xs i" and "above_children xs i"
  shows "up_inv xs i"
  unfolding up_inv_def
proof (intro conjI allI impI; (elim conjE)?)
  show "i < length xs" using assms(1) by (simp add: hole_inv_def)
  show "xs ! par j \<le> xs ! j" if "0 < j" "j < length xs" "j \<noteq> i" for j
    using assms that unfolding hole_inv_def above_children_def by blast
  show "xs ! par i \<le> xs ! j" if "0 < i" "0 < j" "j < length xs" "par j = i" for j
    using assms(1) that unfolding hole_inv_def by blast
qed

lemma hole_step:
  assumes inv: "hole_inv lo xs i" and c: "0 < c" "c < length xs" "par c = i"
    and least: "\<And>d. 0 < d \<Longrightarrow> d < length xs \<Longrightarrow> par d = i \<Longrightarrow> xs ! c \<le> xs ! d"
    and less: "xs ! c < xs ! i"
  shows "hole_inv lo (xs[i := xs ! c, c := xs ! i]) c"
    and "(xs[i := xs ! c, c := xs ! i]) ! i \<le> (xs[i := xs ! c, c := xs ! i]) ! c"
proof -
  define ys where "ys = xs[i := xs ! c, c := xs ! i]"
  have ic: "i < c" using c by linarith
  have lo: "lo \<le> i" using inv by (simp add: hole_inv_def)
  have nth: "ys ! k = (if k = c then xs ! i else if k = i then xs ! c else xs ! k)"
    if "k < length xs" for k
    using that c ic by (simp add: ys_def nth_list_update)
  have len: "length ys = length xs" by (simp add: ys_def)
  have pl: "par j < length xs" if "j < length xs" for j
    using that by linarith
  have edge: "ys ! par j \<le> ys ! j"
    if j: "0 < j" "j < length xs" "lo \<le> par j" "j \<noteq> c" "par j \<noteq> c" for j
  proof -
    define q where "q = par j"
    have q: "ys ! q = (if q = i then xs ! c else xs ! q)"
      using nth [OF pl [OF j(2)]] j(5) by (simp add: q_def)
    have qj: "q \<noteq> j" using j(1) unfolding q_def by linarith
    have yj: "ys ! j = (if j = i then xs ! c else xs ! j)" using nth [OF j(2)] j(4) by simp
    have a: "xs ! q \<le> xs ! c" if "j = i"
      using inv j c that unfolding hole_inv_def q_def by blast
    have b: "xs ! c \<le> xs ! j" if "q = i" using least [OF j(1,2)] that by (simp add: q_def)
    have d: "xs ! q \<le> xs ! j" if "q \<noteq> i" "j \<noteq> i"
      using inv j that unfolding hole_inv_def q_def by blast
    have "ys ! q \<le> ys ! j" using q yj a b d qj by auto
    then show ?thesis by (simp add: q_def)
  qed
  have grand: "ys ! par c \<le> ys ! j" if j: "0 < j" "j < length xs" "par j = c" for j
  proof -
    have "j \<noteq> c" and "j \<noteq> i" using j ic by linarith+
    then have "ys ! j = xs ! j" using nth [OF j(2)] by simp
    moreover have "ys ! i = xs ! c" using nth [of i] ic c by simp
    moreover have "par j \<noteq> i" and "lo \<le> par j" using j(3) ic lo by simp_all
    then have "xs ! par j \<le> xs ! j" using inv j \<open>j \<noteq> i\<close> unfolding hole_inv_def by blast
    then have "xs ! c \<le> xs ! j" using j(3) by simp
    ultimately show ?thesis using c(3) by simp
  qed
  have "hole_inv lo ys c"
    unfolding hole_inv_def len using edge grand lo ic c by (intro conjI allI impI) auto
  then show "hole_inv lo (xs[i := xs ! c, c := xs ! i]) c" by (simp add: ys_def)
  have "ys ! i \<le> ys ! c" using nth [of i] nth [of c] ic c less by simp
  then show "(xs[i := xs ! c, c := xs ! i]) ! i \<le> (xs[i := xs ! c, c := xs ! i]) ! c"
    by (simp add: ys_def)
qed

text \<open>The child a sift-down step compares with: the earlier of the two.\<close>

definition first_child :: "('v, 'e) store \<Rightarrow> 'k pqueue \<Rightarrow> nat \<Rightarrow> nat" where
  "first_child h ns i =
     (if 2 * i + 2 < length ns
         \<and> deadline (h (item (ns ! (2 * i + 2)))) < deadline (h (item (ns ! (2 * i + 1))))
      then 2 * i + 2 else 2 * i + 1)"

lemma pq_down_loop_stop:
  assumes "length ns \<le> 2 * i + 1
    \<or> \<not> deadline (h (item (ns ! first_child h ns i))) < deadline (h (item (ns ! i)))"
  shows "pq_down_loop h ns i = (h, ns, i)"
  using assms by (subst pq_down_loop.simps) (auto simp: Let_def first_child_def)

lemma pq_down_loop_step:
  assumes "2 * i + 1 < length ns"
    and "deadline (h (item (ns ! first_child h ns i))) < deadline (h (item (ns ! i)))"
  shows "pq_down_loop h ns i =
    pq_down_loop (fst (pq_swap h ns i (first_child h ns i)))
      (snd (pq_swap h ns i (first_child h ns i))) (first_child h ns i)"
  using assms by (subst pq_down_loop.simps) (auto simp: Let_def first_child_def)

lemma first_child_bounds:
  assumes "2 * i + 1 < length ns"
  shows "first_child h ns i < length ns" and "par (first_child h ns i) = i"
    and "i < first_child h ns i"
  using assms by (auto simp: first_child_def)

lemma first_child_least:
  assumes "0 < d" and "d < length ns" and "par d = i"
  shows "dls h ns ! first_child h ns i \<le> dls h ns ! d"
proof -
  have "d = 2 * i + 1 \<or> d = 2 * i + 2" using assms par_eq_iff by blast
  then show ?thesis using assms(2) by (auto simp: first_child_def)
qed

lemma pq_down_loop_ok:
  assumes "hole_inv lo (dls h ns) i" and "pq_down_loop h ns i = (h', ns', k)"
  shows "rearr h ns h' ns' \<and> i \<le> k
     \<and> (if k = i then h' = h \<and> ns' = ns \<and> above_children (dls h ns) i
        else heap_from lo (dls h' ns'))"
  using assms
proof (induction h ns i rule: pq_down_loop.induct)
  case (1 h ns i)
  let ?c = "first_child h ns i"
  have il: "i < length ns" using "1.prems"(1) by (simp add: hole_inv_def)
  show ?case
  proof (cases "2 * i + 1 < length ns
      \<and> deadline (h (item (ns ! ?c))) < deadline (h (item (ns ! i)))")
    case False
    then have "pq_down_loop h ns i = (h, ns, i)" by (intro pq_down_loop_stop) auto
    moreover have "above_children (dls h ns) i"
      unfolding above_children_def
    proof (intro allI impI, elim conjE)
      fix j assume j: "0 < j" "j < length (dls h ns)" "par j = i"
      then have "2 * i + 1 < length ns" using par_eq_iff [of j i] by auto
      then have "dls h ns ! i \<le> dls h ns ! ?c"
        using False il first_child_bounds(1) [of i ns h] by simp
      also have "\<dots> \<le> dls h ns ! j" using j by (intro first_child_least) auto
      finally show "dls h ns ! i \<le> dls h ns ! j" .
    qed
    ultimately show ?thesis using "1.prems"(2) by auto
  next
    case True
    let ?q = "pq_swap h ns i ?c"
    let ?xs = "dls h ns"
    have c: "?c < length ns" "par ?c = i" "i < ?c" using True first_child_bounds by auto
    have ne: "i \<noteq> ?c" using c(3) by simp
    have less: "?xs ! ?c < ?xs ! i" using True c il by simp
    have xs': "dls (fst ?q) (snd ?q) = ?xs[i := ?xs ! ?c, ?c := ?xs ! i]"
      by (rule dls_swap [OF il c(1) ne])
    have least: "\<And>d. 0 < d \<Longrightarrow> d < length ?xs \<Longrightarrow> par d = i \<Longrightarrow> ?xs ! ?c \<le> ?xs ! d"
      by (rule first_child_least) simp_all
    have hole: "hole_inv lo (dls (fst ?q) (snd ?q)) ?c"
      unfolding xs' using "1.prems"(1) c least less by (intro hole_step) auto
    have edge: "dls (fst ?q) (snd ?q) ! i \<le> dls (fst ?q) (snd ?q) ! ?c"
      unfolding xs' using "1.prems"(1) c least less by (intro hole_step) auto
    have eq: "pq_down_loop (fst ?q) (snd ?q) ?c = (h', ns', k)"
      using "1.prems"(2) pq_down_loop_step [of i ns h] True by simp
    have ih: "rearr (fst ?q) (snd ?q) h' ns' \<and> ?c \<le> k
       \<and> (if k = ?c then h' = fst ?q \<and> ns' = snd ?q \<and> above_children (dls (fst ?q) (snd ?q)) ?c
          else heap_from lo (dls h' ns'))"
      using "1.IH" [OF refl refl _ refl _ refl, of ] True hole eq
      by (auto simp: first_child_def Let_def split: if_splits)
    have "heap_from lo (dls h' ns')"
    proof (cases "k = ?c")
      case True
      with ih have "h' = fst ?q" "ns' = snd ?q" "above_children (dls (fst ?q) (snd ?q)) ?c" by auto
      then show ?thesis using hole_exit [OF hole] edge c(2) by simp
    next
      case False
      then show ?thesis using ih by simp
    qed
    moreover have "rearr h ns h' ns'"
      using rearr_trans [OF rearr_swap [OF il c(1) ne]] ih by blast
    ultimately show ?thesis using ih c(3) by auto
  qed
qed

lemma pq_down_ok:
  assumes "hole_inv lo (dls h ns) i" and "pq_down h ns i = (h', ns', moved)"
  shows "rearr h ns h' ns'"
    and "moved \<Longrightarrow> heap_from lo (dls h' ns')"
    and "\<not> moved \<Longrightarrow> h' = h \<and> ns' = ns \<and> above_children (dls h ns) i"
  using assms pq_down_loop_ok [OF assms(1)]
  by (fastforce simp: pq_down_def split: prod.splits if_splits)+

section \<open>The operations keep the queue in order\<close>

lemma pq_ok_rearr:
  assumes "rearr h ns h' ns'" and "idx_ok h ns" and "distinct (map item ns)"
    and "heap_from 0 (dls h' ns')"
  shows "pq_ok h' ns'"
  using assms rearr_distinct [OF assms(1)] by (auto simp: pq_ok_def rearr_def)

lemma pq_ok_empty [simp, intro]: "pq_ok h []"
  by (simp add: pq_ok_def heap_from_def idx_ok_def)

lemma pq_ok_same_outcome:
  assumes "pq_ok h ns" and "same_outcome A h h'" and "A \<inter> items ns = {}"
  shows "pq_ok h' ns"
proof -
  have "h' (item n) = h (item n)" if "n \<in> set ns" for n
    using assms(2,3) that unfolding same_outcome_def by blast
  then have d: "dls h' ns = dls h ns" and i: "idx_ok h' ns = idx_ok h ns"
    by (auto simp: idx_ok_def)
  show ?thesis using assms(1) unfolding pq_ok_def d i .
qed

lemma pq_push_ok:
  assumes ok: "pq_ok h ns" and new: "a \<notin> items ns" and q: "pq_push h ns k a = (h', ns')"
  shows "pq_ok h' ns'" and "mset ns' = add_mset \<lparr>item = a, key = k\<rparr> (mset ns)"
    and "same_outcome (insert a (items ns)) h h'"
proof -
  define ns1 where "ns1 = ns @ [\<lparr>item = a, key = k\<rparr>]"
  define h1 where "h1 = set_idx h a (length ns)"
  have r: "pq_up h1 ns1 (length ns) = (h', ns')"
    using q by (simp add: pq_push_def Let_def ns1_def h1_def set_idx_def)
  have so: "same_outcome (insert a (items ns)) h h1"
    unfolding h1_def by (intro same_outcome_set_idx) simp
  have d: "dls h1 ns1 = dls h ns @ [deadline (h a)]"
    using same_outcome_dls [OF so, of ns1] by (simp add: ns1_def)
  have "up_inv (dls h1 ns1) (length ns)"
    unfolding up_inv_def d
  proof (intro conjI allI impI; (elim conjE)?)
    show "(dls h ns @ [deadline (h a)]) ! par j \<le> (dls h ns @ [deadline (h a)]) ! j"
      if "0 < j" "j < length (dls h ns @ [deadline (h a)])" "j \<noteq> length ns" for j
    proof -
      have j: "j < length ns" and "par j < length ns" using that by auto
      moreover have "dls h ns ! par j \<le> dls h ns ! j"
        using ok that(1) j unfolding pq_ok_def heap_from_def by (metis le0 length_map)
      ultimately show ?thesis by (simp add: nth_append)
    qed
  qed (use par_eq_iff in auto)
  note up = pq_up_ok [OF this, unfolded r fst_conv snd_conv]
  have idx: "idx_ok h1 ns1" and dist: "distinct (map item ns1)"
    using ok new
    by (auto simp: pq_ok_def idx_ok_def h1_def ns1_def set_idx_def nth_append)
  show "pq_ok h' ns'" using up idx dist by (blast intro: pq_ok_rearr)
  show "mset ns' = add_mset \<lparr>item = a, key = k\<rparr> (mset ns)"
    using up by (simp add: rearr_def ns1_def)
  show "same_outcome (insert a (items ns)) h h'"
    using up so by (auto simp: rearr_def ns1_def intro: same_outcome_trans)
qed

lemma heap_from_take: "heap_from lo xs \<Longrightarrow> heap_from lo (take m xs)"
  unfolding heap_from_def by auto

lemma mset_take_last:
  assumes "ns \<noteq> []"
  shows "mset (take (length ns - 1) ns) = mset ns - {#ns ! (length ns - 1)#}"
  using assms by (cases ns rule: rev_cases) auto

lemma mset_fill_hole:
  assumes "i < length ns - 1"
  shows "mset ((take (length ns - 1) ns)[i := ns ! (length ns - 1)]) = mset ns - {#ns ! i#}"
  using assms by (cases ns rule: rev_cases) (auto simp: mset_update nth_append)

lemma hole_inv_fill:
  assumes "heap_from 0 xs" and "i < m" and "m \<le> length xs"
  shows "hole_inv 0 ((take m xs)[i := v]) i"
proof -
  have len: "length ((take m xs)[i := v]) = m" using assms(3) by simp
  have nth: "((take m xs)[i := v]) ! k = xs ! k" if "k < m" "k \<noteq> i" for k
    using that by simp
  have edge: "xs ! par j \<le> xs ! j" if "0 < j" "j < m" for j
    using assms that unfolding heap_from_def by simp
  have pl: "par j < m" if "j < m" for j using that by linarith
  show ?thesis
    unfolding hole_inv_def len
  proof (intro conjI allI impI; (elim conjE)?)
    show "((take m xs)[i := v]) ! par j \<le> ((take m xs)[i := v]) ! j"
      if "0 < j" "j < m" "j \<noteq> i" "par j \<noteq> i" for j
      using nth [OF that(2,3)] nth [OF pl [OF that(2)] that(4)] edge [OF that(1,2)] by simp
    show "((take m xs)[i := v]) ! par i \<le> ((take m xs)[i := v]) ! j"
      if "0 < i" "0 < j" "j < m" "par j = i" for j
    proof -
      have "par i \<noteq> i" and "j \<noteq> i" using that by linarith+
      then show ?thesis
        using nth [of "par i"] nth [of j] pl [OF assms(2)] that edge [of i] edge [of j] assms(2)
        by simp
    qed
  qed (use assms in auto)
qed

lemma pq_remove_ok:
  assumes ok: "pq_ok h ns" and n: "n \<in> set ns" and a: "item n = a"
  obtains h' ns' where "pq_remove h ns a = Some (h', ns')" and "pq_ok h' ns'"
    and "mset ns' = mset ns - {#n#}" and "same_outcome (items ns) h h'"
proof -
  from n obtain i where i: "i < length ns" "ns ! i = n" by (auto simp: in_set_conv_nth)
  define m where "m = length ns - 1"
  have idx: "idx (h a) = i" using ok i a by (auto simp: pq_ok_def idx_ok_def)
  have dist: "distinct (map item ns)" and heap: "heap_from 0 (dls h ns)" and io: "idx_ok h ns"
    using ok by (auto simp: pq_ok_def)
  show thesis
  proof (cases "i = m")
    case True
    have "pq_remove h ns a = Some (h, take m ns)"
      using i True by (auto simp: pq_remove_def Let_def idx m_def)
    moreover have "distinct (map item (take m ns))"
      using dist by (metis distinct_take take_map)
    then have "pq_ok h (take m ns)"
      using heap_from_take [OF heap, of m] io by (simp add: pq_ok_def idx_ok_def take_map)
    moreover have "mset (take m ns) = mset ns - {#n#}"
      using mset_take_last [of ns] n i True by (cases "ns = []") (auto simp: m_def)
    ultimately show thesis using that by blast
  next
    case False
    then have im: "i < m" using i m_def by simp
    define h1 where "h1 = set_idx h (item (ns ! m)) i"
    define ns2 where "ns2 = (take m ns)[i := ns ! m]"
    have ml: "m < length ns" using im i m_def by simp
    obtain h3 ns3 moved where down: "pq_down h1 ns2 i = (h3, ns3, moved)" by (cases "pq_down h1 ns2 i")
    have rem: "pq_remove h ns a = Some (if \<not> moved then pq_up h3 ns3 i else (h3, ns3))"
      using i im down False
      by (simp add: pq_remove_def Let_def idx m_def pq_place_def h1_def ns2_def take_update_swap)
    have so: "same_outcome (items ns) h h1"
      unfolding h1_def using ml by (intro same_outcome_set_idx) simp
    have ms: "mset ns2 = mset ns - {#n#}"
      using mset_fill_hole [of i ns] im i by (simp add: ns2_def m_def)
    have d2: "dls h1 ns2 = (take m (dls h ns))[i := deadline (h (item (ns ! m)))]"
      using same_outcome_dls [OF so, of ns2] by (simp add: ns2_def map_update take_map)
    have hole: "hole_inv 0 (dls h1 ns2) i"
      unfolding d2 using heap im ml by (intro hole_inv_fill) auto
    have it: "items ns2 \<subseteq> items ns"
      using ms by (metis image_mono in_diffD set_mset_mset subsetI)
    have inj: "item (ns ! x) = item (ns ! y) \<longleftrightarrow> x = y" if "x < length ns" "y < length ns" for x y
      using nth_eq_iff_index_eq [OF dist, of x y] that by simp
    have io2: "idx_ok h1 ns2"
      unfolding idx_ok_def
    proof (intro allI impI)
      fix k assume "k < length ns2"
      then have k: "k < m" by (simp add: ns2_def)
      show "idx (h1 (item (ns2 ! k))) = k"
        using k im ml io inj [of m k] by (auto simp: ns2_def h1_def set_idx_def idx_ok_def nth_list_update)
    qed
    have dist2: "distinct (map item ns2)"
    proof -
      have "map item ns2 = (take m (map item ns))[i := map item ns ! m]"
        using ml by (simp add: ns2_def map_update take_map)
      moreover have "map item ns ! m \<notin> set (take m (map item ns))"
      proof
        assume "map item ns ! m \<in> set (take m (map item ns))"
        then obtain x where "x < m" "item (ns ! x) = item (ns ! m)"
          using ml by (auto simp: in_set_conv_nth)
        with inj [of x m] ml show False by simp
      qed
      ultimately show ?thesis using dist by (simp add: distinct_list_update)
    qed
    note dn = pq_down_ok [OF hole down]
    show thesis
    proof (cases moved)
      case True
      then have "pq_ok h3 ns3" using dn io2 dist2 by (blast intro: pq_ok_rearr)
      moreover have "mset ns3 = mset ns - {#n#}" using dn(1) ms by (simp add: rearr_def)
      moreover have "same_outcome (items ns) h h3"
        using dn(1) so it by (auto simp: rearr_def intro: same_outcome_trans same_outcome_mono)
      ultimately show thesis using that rem True by simp
    next
      case False
      then have eq: "h3 = h1" "ns3 = ns2" and "above_children (dls h1 ns2) i" using dn(3) by auto
      then have up: "up_inv (dls h1 ns2) i" using hole_up_inv [OF hole] by simp
      obtain h4 ns4 where q: "pq_up h1 ns2 i = (h4, ns4)" by (cases "pq_up h1 ns2 i")
      note r = pq_up_ok [OF up, unfolded q fst_conv snd_conv]
      have "pq_ok h4 ns4" using r io2 dist2 by (blast intro: pq_ok_rearr)
      moreover have "mset ns4 = mset ns - {#n#}" using r ms by (simp add: rearr_def)
      moreover have "same_outcome (items ns) h h4"
        using r so it by (auto simp: rearr_def intro: same_outcome_trans same_outcome_mono)
      ultimately show thesis using that rem False eq q by simp
    qed
  qed
qed

section \<open>Bulk operations\<close>

lemma partition_loop_eq:
  "partition_loop P remove ns kept s =
     (fold (\<lambda>n. remove (key n) (item n)) (filter (\<lambda>n. P (item n)) ns) s,
      kept @ filter (\<lambda>n. \<not> P (item n)) ns)"
  by (induction ns arbitrary: kept s) auto

lemma heapify_positions:
  assumes "distinct (map item ns)" and "m \<le> length ns"
    and "h' = fold (\<lambda>i h. set_idx h (item (ns ! i)) i) [0..<m] h"
  shows "(\<forall>i < m. idx (h' (item (ns ! i))) = i) \<and> same_outcome (items ns) h h'"
  using assms(2) unfolding assms(3)
proof (induction m)
  case (Suc m)
  define g where "g = fold (\<lambda>i h. set_idx h (item (ns ! i)) i) [0..<m] h"
  have ih: "(\<forall>i < m. idx (g (item (ns ! i))) = i) \<and> same_outcome (items ns) h g"
    using Suc unfolding g_def by simp
  have "item (ns ! i) \<noteq> item (ns ! m)" if "i < m" for i
    using nth_eq_iff_index_eq [OF assms(1), of i m] that Suc.prems by simp
  then have "\<forall>i < Suc m. idx (set_idx g (item (ns ! m)) m (item (ns ! i))) = i"
    using ih by (auto simp: set_idx_def less_Suc_eq)
  moreover have "same_outcome (items ns) g (set_idx g (item (ns ! m)) m)"
    using Suc.prems by (intro same_outcome_set_idx) simp
  ultimately show ?case
    using ih same_outcome_trans by (auto simp: g_def)
qed simp

abbreviation heapify_step ::
    "nat \<Rightarrow> ('v, 'e) store \<times> 'k pqueue \<Rightarrow> ('v, 'e) store \<times> 'k pqueue" where
  "heapify_step \<equiv> \<lambda>i (h, ns). case pq_down h ns i of (h', ns', _) \<Rightarrow> (h', ns')"

lemma heapify_sift:
  assumes "heap_from m (dls h ns)" and "m \<le> length ns"
    and "fold heapify_step (rev [0..<m]) (h, ns) = (h', ns')"
  shows "rearr h ns h' ns' \<and> heap_from 0 (dls h' ns')"
  using assms
proof (induction m arbitrary: h ns)
  case (Suc m)
  obtain h1 ns1 moved where down: "pq_down h ns m = (h1, ns1, moved)" by (cases "pq_down h ns m")
  have hole: "hole_inv m (dls h ns) m"
    unfolding hole_inv_def
  proof (intro conjI allI impI; (elim conjE)?)
    show "dls h ns ! par j \<le> dls h ns ! j"
      if "0 < j" "j < length (dls h ns)" "m \<le> par j" "par j \<noteq> m" for j
    proof -
      have "Suc m \<le> par j" using that(3,4) by simp
      then show ?thesis using Suc.prems(1) that(1,2) unfolding heap_from_def by blast
    qed
    show "dls h ns ! par m \<le> dls h ns ! j" if "0 < m" "m \<le> par m" for j
      using that by linarith
  qed (use Suc.prems(2) in simp_all)
  note dn = pq_down_ok [OF hole down]
  have "heap_from m (dls h1 ns1)"
    using dn hole_exit [OF hole] by (cases moved) auto
  moreover have "m \<le> length ns1" using Suc.prems(2) rearr_length [OF dn(1)] by simp
  moreover have "fold heapify_step (rev [0..<m]) (h1, ns1) = (h', ns')"
    using Suc.prems(3) by (simp add: down)
  ultimately have "rearr h1 ns1 h' ns' \<and> heap_from 0 (dls h' ns')" by (rule Suc.IH)
  then show ?case using rearr_trans [OF dn(1)] by blast
qed auto

lemma heap_from_half: "heap_from (length xs div 2) xs"
proof -
  have "\<not> (0 < j \<and> j < n \<and> n div 2 \<le> par j)" for j n :: nat by linarith
  then show ?thesis unfolding heap_from_def by blast
qed

lemma pq_heapify_ok:
  assumes "distinct (map item ns)" and q: "pq_heapify h ns = (h', ns')"
  shows "pq_ok h' ns'" and "mset ns' = mset ns" and "same_outcome (items ns) h h'"
proof -
  define h1 where "h1 = fold (\<lambda>i h. set_idx h (item (ns ! i)) i) [0..<length ns] h"
  have io: "idx_ok h1 ns" and so: "same_outcome (items ns) h h1"
    using heapify_positions [OF assms(1) le_refl refl, of h] by (simp_all add: h1_def idx_ok_def)
  have "fold heapify_step (rev [0..<length ns div 2]) (h1, ns) = (h', ns')"
    using q by (simp add: pq_heapify_def h1_def Let_def)
  with heapify_sift [of "length ns div 2" h1 ns] heap_from_half [of "dls h1 ns"]
  have r: "rearr h1 ns h' ns' \<and> heap_from 0 (dls h' ns')" by simp
  show "pq_ok h' ns'" using r io assms(1) by (blast intro: pq_ok_rearr)
  show "mset ns' = mset ns" using r by (simp add: rearr_def)
  show "same_outcome (items ns) h h'" using r so by (auto simp: rearr_def intro: same_outcome_trans)
qed

lemma pq_partition_ok:
  assumes ok: "pq_ok h ns" and q: "pq_partition P remove h ns s = (s', h', ns')"
  shows "pq_ok h' ns'" and "mset ns' = mset (filter (\<lambda>n. \<not> P (h (item n))) ns)"
    and "same_outcome (items ns) h h'"
    and "s' = fold (\<lambda>n. remove (key n) (item n)) (filter (\<lambda>n. P (h (item n))) ns) s"
proof -
  let ?kept = "filter (\<lambda>n. \<not> P (h (item n))) ns"
  have d: "distinct (map item ?kept)" using ok by (simp add: pq_ok_def distinct_map_filter)
  have hq: "pq_heapify h ?kept = (h', ns')"
    and "s' = fold (\<lambda>n. remove (key n) (item n)) (filter (\<lambda>n. P (h (item n))) ns) s"
    using q by (auto simp: pq_partition_def partition_loop_eq)
  then show "s' = fold (\<lambda>n. remove (key n) (item n)) (filter (\<lambda>n. P (h (item n))) ns) s" by simp
  note r = pq_heapify_ok [OF d hq]
  show "pq_ok h' ns'" and "mset ns' = mset ?kept" using r(1,2) .
  show "same_outcome (items ns) h h'" using r(3) by (rule same_outcome_mono) auto
qed

section \<open>The interface the eviction policy relies on\<close>

text \<open>
  A queue of entries ordered by deadline: pushing adds one entry, removing takes out the
  named one and cannot panic, and the head has the earliest deadline. Client lemmas are
  proved once from these laws.
\<close>

locale deadline_queue =
  fixes push :: "('v, 'e) store \<Rightarrow> 'q \<Rightarrow> 'k \<Rightarrow> addr \<Rightarrow> ('v, 'e) store \<times> 'q"
    and remove :: "('v, 'e) store \<Rightarrow> 'q \<Rightarrow> addr \<Rightarrow> (('v, 'e) store \<times> 'q) option"
    and top :: "'q \<Rightarrow> ('k \<times> addr) option"
    and nodes :: "'q \<Rightarrow> 'k pnode multiset"
    and ok :: "('v, 'e) store \<Rightarrow> 'q \<Rightarrow> bool"
  assumes push_ok: "ok h q \<Longrightarrow> a \<notin> item ` set_mset (nodes q) \<Longrightarrow> push h q k a = (h', q') \<Longrightarrow>
      ok h' q' \<and> nodes q' = add_mset \<lparr>item = a, key = k\<rparr> (nodes q)
      \<and> same_outcome (insert a (item ` set_mset (nodes q))) h h'"
    and remove_ok: "ok h q \<Longrightarrow> n \<in># nodes q \<Longrightarrow>
      \<exists>h' q'. remove h q (item n) = Some (h', q') \<and> ok h' q' \<and> nodes q' = nodes q - {#n#}
        \<and> same_outcome (item ` set_mset (nodes q)) h h'"
    and top_None: "top q = None \<longleftrightarrow> nodes q = {#}"
    and top_least: "ok h q \<Longrightarrow> top q = Some (k, a) \<Longrightarrow>
      \<lparr>item = a, key = k\<rparr> \<in># nodes q \<and> (\<forall>n \<in># nodes q. deadline (h a) \<le> deadline (h (item n)))"
begin

lemma head_not_due:
  assumes "ok h q" and "top q = Some (k, a)" and "now < deadline (h a)" and "n \<in># nodes q"
  shows "now < deadline (h (item n))"
  using top_least [OF assms(1,2)] assms(3,4) by (metis order_less_le_trans)

lemma push_then_remove:
  assumes "ok h q" and "a \<notin> item ` set_mset (nodes q)" and "push h q k a = (h', q')"
  shows "\<exists>h'' q''. remove h' q' a = Some (h'', q'') \<and> ok h'' q'' \<and> nodes q'' = nodes q"
  using push_ok [OF assms] remove_ok [of h' q' "\<lparr>item = a, key = k\<rparr>"] by fastforce

end

lemma pq_top_least:
  assumes ok: "pq_ok h ns" and top: "pq_top ns = Some (k, a)"
  shows "\<lparr>item = a, key = k\<rparr> \<in> set ns" and "n \<in> set ns \<Longrightarrow> deadline (h a) \<le> deadline (h (item n))"
proof -
  obtain r ns' where ns: "ns = r # ns'" and r: "key r = k" "item r = a"
    using top by (auto simp: pq_top_def split: list.splits)
  then have "r = \<lparr>item = a, key = k\<rparr>" by simp
  then show "\<lparr>item = a, key = k\<rparr> \<in> set ns" using ns by simp
  have le: "dls h ns ! 0 \<le> dls h ns ! i" if "i < length ns" for i
    using that
  proof (induction i rule: less_induct)
    case (less i)
    show ?case
    proof (cases "i = 0")
      case False
      have "dls h ns ! 0 \<le> dls h ns ! par i" using False less by (intro less.IH) linarith+
      also have "\<dots> \<le> dls h ns ! i"
        using ok False less.prems unfolding pq_ok_def heap_from_def by (metis le0 length_map neq0_conv)
      finally show ?thesis .
    qed simp
  qed
  assume "n \<in> set ns"
  then obtain i where "i < length ns" "ns ! i = n" by (auto simp: in_set_conv_nth)
  moreover have "dls h ns ! 0 = deadline (h a)" using ns r by simp
  ultimately show "deadline (h a) \<le> deadline (h (item n))"
    using le [of i] nth_map [of i ns "\<lambda>n. deadline (h (item n))"] by simp
qed

interpretation pq: deadline_queue pq_push pq_remove pq_top mset pq_ok
proof (unfold_locales, goal_cases)
  case (1 h q a k h' q')
  then show ?case using pq_push_ok [of h q a k h' q'] by simp
next
  case (2 h q n)
  then show ?case using pq_remove_ok [of h q n, OF _ _ refl] by (metis set_mset_mset)
next
  case (3 q)
  then show ?case by (simp add: pq_top_def split: list.splits)
next
  case (4 h q k a)
  then show ?case using pq_top_least [of h q k a] by simp
qed

end
