(* ===== verification/SF_Cache.thy ===== *)
theory SF_Cache
  imports SF_Pqueue
begin

text \<open>
  The sequential core of \<^verbatim>\<open>pkg/sfcache\<close>: the eviction policy (\<^verbatim>\<open>evict.go\<close>), the
  stale-if-error windows (\<^verbatim>\<open>stale.go\<close>), the capacity bookkeeping (\<^verbatim>\<open>capacity.go\<close>) and the
  operations of \<^verbatim>\<open>sfcache.go\<close> that run under the write lock.

  \<^item> A cache value holds the entry store, the key map, the registered flights, the three
    queues and the settings, as the Go struct does. A \<^verbatim>\<open>&entry{...}\<close> takes the next
    unused address.
  \<^item> \<^verbatim>\<open>time.Now()\<close> is the reading \<open>clk (ticks c)\<close>; each call advances \<open>ticks\<close>, so two
    calls in one critical section may differ. What is assumed of \<open>clk\<close> is said in each
    theorem: it never goes back and is later than the zero time.
  \<^item> \<open>None\<close> is a panic; it can only come from a queue position that is out of range.
\<close>

section \<open>The eviction policy\<close>

datatype evictLevel = evictWorthless | evictStale | evictValue

text \<open>The levels are ordered as their \<^verbatim>\<open>iota\<close> values are.\<close>

fun level_rank :: "evictLevel \<Rightarrow> nat" where
  "level_rank evictWorthless = 0"
| "level_rank evictStale = 1"
| "level_rank evictValue = 2"

instantiation evictLevel :: linorder
begin

definition less_eq_evictLevel :: "evictLevel \<Rightarrow> evictLevel \<Rightarrow> bool" where
  "less_eq_evictLevel a b \<longleftrightarrow> level_rank a \<le> level_rank b"

definition less_evictLevel :: "evictLevel \<Rightarrow> evictLevel \<Rightarrow> bool" where
  "less_evictLevel a b \<longleftrightarrow> level_rank a < level_rank b"

instance
proof
  fix x y :: evictLevel
  show "x \<le> y \<Longrightarrow> y \<le> x \<Longrightarrow> x = y"
    by (cases x; cases y) (simp_all add: less_eq_evictLevel_def)
qed (auto simp: less_eq_evictLevel_def less_evictLevel_def)

end

record 'k victims =
  "values" :: "'k pqueue"
  stale :: "'k pqueue"
  residue :: "'k pqueue"
  vMaxStale :: duration
  vMaxStaleOnFailure :: duration

definition victims_reset :: "'k victims \<Rightarrow> 'k victims" where
  "victims_reset v = v\<lparr>values := [], stale := [], residue := []\<rparr>"

definition victims_file ::
    "('v, 'e) store \<Rightarrow> 'k victims \<Rightarrow> 'k \<Rightarrow> addr \<Rightarrow> ('v, 'e) store \<times> 'k victims" where
  "victims_file h v k a =
     (if err (h a) \<noteq> None then
        (let (h', q) = pq_push h (residue v) k a in (h', v\<lparr>residue := q\<rparr>))
      else if revived (h a) then
        (let (h', q) = pq_push h (stale v) k a in (h', v\<lparr>stale := q\<rparr>))
      else
        (let (h', q) = pq_push h (values v) k a in (h', v\<lparr>values := q\<rparr>)))"

definition victims_unfile ::
    "('v, 'e) store \<Rightarrow> 'k victims \<Rightarrow> addr \<Rightarrow> (('v, 'e) store \<times> 'k victims) option" where
  "victims_unfile h v a =
     (if err (h a) \<noteq> None then
        do { (h', q) \<leftarrow> pq_remove h (residue v) a; Some (h', v\<lparr>residue := q\<rparr>) }
      else if revived (h a) then
        do { (h', q) \<leftarrow> pq_remove h (stale v) a; Some (h', v\<lparr>stale := q\<rparr>) }
      else
        do { (h', q) \<leftarrow> pq_remove h (values v) a; Some (h', v\<lparr>values := q\<rparr>) })"

text \<open>\<open>None\<close> is the Go result \<^verbatim>\<open>(time.Time{}, false)\<close>: the entry never becomes worthless.\<close>

definition worthlessAt :: "'k victims \<Rightarrow> ('v, 'e) entry \<Rightarrow> gotime option" where
  "worthlessAt v e =
     (if err e \<noteq> None then Some 0
      else if revived e then Some (staleUntil e)
      else if vMaxStaleOnFailure v > 0 then None
      else if vMaxStale v > 0 then Some (expireAt e + vMaxStale v)
      else Some (expireAt e))"

definition worthless :: "'k victims \<Rightarrow> ('v, 'e) entry \<Rightarrow> gotime \<Rightarrow> bool" where
  "worthless v e now = (case worthlessAt v e of None \<Rightarrow> False | Some at \<Rightarrow> \<not> now < at)"

definition worthlessVictim :: "('v, 'e) store \<Rightarrow> 'k victims \<Rightarrow> gotime \<Rightarrow> 'k option" where
  "worthlessVictim h v now =
     (case pq_top (residue v) of
        Some (k, _) \<Rightarrow> Some k
      | None \<Rightarrow>
         (case pq_top (stale v) of
            Some (k, a) \<Rightarrow>
              (if worthless v (h a) now then Some k
               else (case pq_top (values v) of
                       Some (k, a) \<Rightarrow> (if worthless v (h a) now then Some k else None)
                     | None \<Rightarrow> None))
          | None \<Rightarrow>
              (case pq_top (values v) of
                 Some (k, a) \<Rightarrow> (if worthless v (h a) now then Some k else None)
               | None \<Rightarrow> None)))"

definition staleVictim :: "('v, 'e) store \<Rightarrow> 'k victims \<Rightarrow> gotime \<Rightarrow> 'k option" where
  "staleVictim h v now =
     (case pq_top (values v) of
        Some (k, a) \<Rightarrow>
          (if expired (h a) now then Some k else map_option fst (pq_top (stale v)))
      | None \<Rightarrow> map_option fst (pq_top (stale v)))"

definition pick :: "('v, 'e) store \<Rightarrow> 'k victims \<Rightarrow> evictLevel \<Rightarrow> gotime \<Rightarrow> 'k option" where
  "pick h v level now =
     (case worthlessVictim h v now of
        Some k \<Rightarrow> Some k
      | None \<Rightarrow>
         (if level < evictStale then None
          else (case staleVictim h v now of
                  Some k \<Rightarrow> Some k
                | None \<Rightarrow>
                   (if level < evictValue then None
                    else map_option fst (pq_top (values v))))))"

section \<open>The cache\<close>

record ('k, 'v, 'e) cache =
  keymap :: "('k, addr) fmap"
  flights :: "('k, nat) fmap"
  ttlFn :: "('k \<Rightarrow> 'v \<Rightarrow> duration) option"
  ttl :: duration
  maxStale :: duration
  maxStaleOnFailure :: duration
  vic :: "'k victims"
  csize :: nat
  store :: "('v, 'e) store"
  nextAddr :: addr
  ticks :: nat

record config =
  Size :: int
  TTL :: duration
  MaxStale :: duration
  MaxStaleOnFailure :: duration

text \<open>
  The lookup function is not part of the state: what a lookup returns is chosen by the
  environment of the step relation. The only option, \<^verbatim>\<open>WithTTLFunc\<close>, sets \<open>ttlFn\<close>.
\<close>

definition new_cache ::
    "config \<Rightarrow> ('k \<Rightarrow> 'v \<Rightarrow> duration) option \<Rightarrow> ('v, 'e) store \<Rightarrow> ('k, 'v, 'e) cache" where
  "new_cache cfg fn h0 =
     \<lparr>keymap = fmempty, flights = fmempty, ttlFn = fn, ttl = TTL cfg,
      maxStale = MaxStale cfg, maxStaleOnFailure = MaxStaleOnFailure cfg,
      vic = \<lparr>values = [], stale = [], residue = [],
             vMaxStale = MaxStale cfg, vMaxStaleOnFailure = MaxStaleOnFailure cfg\<rparr>,
      csize = (if Size cfg \<le> 0 then 1 else nat (Size cfg)),
      store = h0, nextAddr = 0, ticks = 0\<rparr>"

definition cache_Len :: "('k, 'v, 'e) cache \<Rightarrow> nat" where
  "cache_Len c = maplen (keymap c) + maplen (flights c)"

definition tick :: "('k, 'v, 'e) cache \<Rightarrow> ('k, 'v, 'e) cache" where
  "tick c = c\<lparr>ticks := Suc (ticks c)\<rparr>"

definition cache_drop :: "'k \<Rightarrow> ('k, 'v, 'e) cache \<Rightarrow> (bool \<times> ('k, 'v, 'e) cache) option" where
  "cache_drop k c =
     (case fmlookup (keymap c) k of
        None \<Rightarrow> Some (False, c)
      | Some a \<Rightarrow>
          do { (h, v) \<leftarrow> victims_unfile (store c) (vic c) a;
               Some (True, c\<lparr>keymap := fmdrop k (keymap c), vic := v, store := h\<rparr>) })"

definition cache_store ::
    "'k \<Rightarrow> ('v, 'e) entry \<Rightarrow> ('k, 'v, 'e) cache \<Rightarrow> ('k, 'v, 'e) cache option" where
  "cache_store k e c =
     do { (_, c1) \<leftarrow> cache_drop k c;
          let a = nextAddr c1;
          let (h, v) = victims_file ((store c1)(a := e)) (vic c1) k a;
          Some (c1\<lparr>keymap := fmupd k a (keymap c1), vic := v, store := h, nextAddr := Suc a\<rparr>) }"

lemma cache_drop_maplen:
  "cache_drop k c = Some (True, c') \<Longrightarrow> maplen (keymap c') < maplen (keymap c)"
  by (auto simp: cache_drop_def maplen_drop_less split: option.splits prod.splits bind_splits)

function makeRoom_loop ::
    "(nat \<Rightarrow> gotime) \<Rightarrow> evictLevel \<Rightarrow> nat \<Rightarrow> ('k, 'v, 'e) cache \<Rightarrow> ('k, 'v, 'e) cache option" where
  "makeRoom_loop clk level target c =
     (if maplen (keymap c) > target then
        (case pick (store c) (vic c) level (clk (ticks c)) of
           None \<Rightarrow> Some (tick c)
         | Some victim \<Rightarrow>
             (case cache_drop victim (tick c) of
                None \<Rightarrow> None
              | Some (dropped, c') \<Rightarrow>
                  (if \<not> dropped then Some c' else makeRoom_loop clk level target c')))
      else Some c)"
  by pat_completeness auto
termination
  by (relation "measure (\<lambda>(clk, level, target, c). maplen (keymap c))")
    (auto simp: tick_def dest: cache_drop_maplen)

declare makeRoom_loop.simps [simp del]

definition makeRoom ::
    "(nat \<Rightarrow> gotime) \<Rightarrow> 'k \<Rightarrow> evictLevel \<Rightarrow> ('k, 'v, 'e) cache \<Rightarrow> ('k, 'v, 'e) cache option" where
  "makeRoom clk k level c =
     makeRoom_loop clk level
       (if fmlookup (keymap c) k = None then csize c - 1 else csize c) c"

definition cache_set ::
    "(nat \<Rightarrow> gotime) \<Rightarrow> 'k \<Rightarrow> 'v \<Rightarrow> 'e option \<Rightarrow> duration \<Rightarrow> ('k, 'v, 'e) cache
       \<Rightarrow> ('k, 'v, 'e) cache option" where
  "cache_set clk k v er d c =
     (let cacheable = (er = None);
          level = (if cacheable then evictValue else evictWorthless)
      in do { c1 \<leftarrow> makeRoom clk k level c;
              let (expires, c2) = (if cacheable then (clk (ticks c1) + d, tick c1) else (0, c1));
              cache_store k \<lparr>err = er, expireAt = expires, staleUntil = 0, val = v, idx = 0\<rparr> c2 })"

definition entryTTL :: "('k, 'v, 'e) cache \<Rightarrow> 'k \<Rightarrow> 'v \<Rightarrow> duration" where
  "entryTTL c k v =
     (case ttlFn c of
        Some f \<Rightarrow> (if f k v > 0 then f k v else max 0 (ttl c))
      | None \<Rightarrow> max 0 (ttl c))"

section \<open>Stale-if-error\<close>

text \<open>
  The state a refresh flight carries. \<open>None\<close> is the zero \<^verbatim>\<open>staleState\<close>, whose \<^verbatim>\<open>ok\<close> field
  is false.
\<close>

record 'v staleState =
  until :: gotime
  staleVal :: 'v
  anchored :: bool

definition staleFrom :: "('k, 'v, 'e) cache \<Rightarrow> addr option \<Rightarrow> 'v staleState option" where
  "staleFrom c old =
     (case old of
        None \<Rightarrow> None
      | Some a \<Rightarrow>
         (let e = store c a in
          if (maxStale c \<le> 0 \<and> maxStaleOnFailure c \<le> 0) \<or> err e \<noteq> None then None
          else if staleUntil e \<noteq> 0 then
            Some \<lparr>until = staleUntil e, staleVal = val e, anchored = True\<rparr>
          else
            Some \<lparr>until = (if maxStale c > 0 then expireAt e + maxStale c else 0),
                  staleVal = val e, anchored = False\<rparr>))"

text \<open>
  \<open>Some until\<close> is the Go result with \<^verbatim>\<open>revive\<close> true. The clock is read only when a stale
  value is available.
\<close>

definition staleDeadline ::
    "(nat \<Rightarrow> gotime) \<Rightarrow> 'v staleState option \<Rightarrow> ('k, 'v, 'e) cache
       \<Rightarrow> gotime option \<times> ('k, 'v, 'e) cache" where
  "staleDeadline clk st c =
     (case st of
        None \<Rightarrow> (None, c)
      | Some s \<Rightarrow>
         (let now = clk (ticks c);
              d = now + maxStaleOnFailure c;
              u = (if \<not> anchored s \<and> maxStaleOnFailure c > 0 \<and> d > until s then d else until s)
          in (if now < u then Some u else None, tick c)))"

section \<open>Reset, Remove and PurgeExpired\<close>

text \<open>\<^verbatim>\<open>resetLocked\<close> and \<^verbatim>\<open>removeLocked\<close> return the flights they deregister.\<close>

definition resetLocked :: "('k, 'v, 'e) cache \<Rightarrow> ('k, nat) fmap \<times> ('k, 'v, 'e) cache" where
  "resetLocked c =
     (flights c, c\<lparr>keymap := fmempty, flights := fmempty, vic := victims_reset (vic c)\<rparr>)"

definition removeLocked ::
    "'k \<Rightarrow> ('k, 'v, 'e) cache \<Rightarrow> (nat option \<times> ('k, 'v, 'e) cache) option" where
  "removeLocked k c =
     do { (_, c1) \<leftarrow> cache_drop k c;
          (case fmlookup (flights c1) k of
             None \<Rightarrow> Some (None, c1)
           | Some fl \<Rightarrow> Some (Some fl, c1\<lparr>flights := fmdrop k (flights c1)\<rparr>)) }"

text \<open>The callback of \<^verbatim>\<open>PurgeExpired\<close>, on the key map and the count.\<close>

definition forget :: "'k \<Rightarrow> addr \<Rightarrow> ('k, addr) fmap \<times> nat \<Rightarrow> ('k, addr) fmap \<times> nat" where
  "forget k a s =
     (if fmlookup (fst s) k = None then s else (fmdrop k (fst s), Suc (snd s)))"

abbreviation bulkPurgeRatio :: nat where
  "bulkPurgeRatio \<equiv> 12"

text \<open>
  The sifting loop of \<^verbatim>\<open>purgeValues\<close>, counting its budget down; \<open>True\<close> when it returned
  because the head is valid or the queue is empty.
\<close>

fun purge_sift ::
    "nat \<Rightarrow> gotime \<Rightarrow> ('v, 'e) store \<Rightarrow> 'k pqueue \<Rightarrow> ('k, addr) fmap \<times> nat
       \<Rightarrow> (bool \<times> ('v, 'e) store \<times> 'k pqueue \<times> ('k, addr) fmap \<times> nat) option" where
  "purge_sift 0 now h q s = Some (False, h, q, s)"
| "purge_sift (Suc n) now h q s =
     (case pq_top q of
        None \<Rightarrow> Some (True, h, q, s)
      | Some (k, a) \<Rightarrow>
         (if \<not> expired (h a) now then Some (True, h, q, s)
          else (let s' = forget k a s in
                case pq_remove h q a of
                  None \<Rightarrow> None
                | Some (h', q') \<Rightarrow> purge_sift n now h' q' s')))"

definition purgeValues ::
    "gotime \<Rightarrow> ('v, 'e) store \<Rightarrow> 'k pqueue \<Rightarrow> ('k, addr) fmap \<times> nat
       \<Rightarrow> (('v, 'e) store \<times> 'k pqueue \<times> ('k, addr) fmap \<times> nat) option" where
  "purgeValues now h q s =
     do { (finished, h1, q1, s1) \<leftarrow> purge_sift (length q div bulkPurgeRatio + 1) now h q s;
          if finished then Some (h1, q1, s1)
          else (case pq_top q1 of
                  None \<Rightarrow> Some (h1, q1, s1)
                | Some (_, a) \<Rightarrow>
                   (if \<not> expired (h1 a) now then Some (h1, q1, s1)
                    else (let (s2, h2, q2) = pq_partition (\<lambda>e. expired e now) forget h1 q1 s1
                          in Some (h2, q2, s2)))) }"

definition PurgeExpired ::
    "(nat \<Rightarrow> gotime) \<Rightarrow> ('k, 'v, 'e) cache \<Rightarrow> (nat \<times> ('k, 'v, 'e) cache) option" where
  "PurgeExpired clk c =
     (let (s1, r) = pq_drain forget (residue (vic c)) (keymap c, 0);
          (s2, st) = pq_drain forget (stale (vic c)) s1
      in do { (h, q, km, purged) \<leftarrow> purgeValues (clk (ticks c)) (store c) (values (vic c)) s2;
              Some (purged, tick (c\<lparr>keymap := km, store := h,
                      vic := (vic c)\<lparr>values := q, stale := st, residue := r\<rparr>\<rparr>)) })"

section \<open>The invariant of the cache\<close>

definition allq :: "'k victims \<Rightarrow> 'k pqueue" where
  "allq v = values v @ stale v @ residue v"

text \<open>
  The entries each queue may hold. Error residue and revived values are stored already
  expired; a value's expiration is a clock reading plus a time-to-live.
\<close>

definition is_residue :: "('v, 'e) entry \<Rightarrow> bool" where
  "is_residue e \<longleftrightarrow> err e \<noteq> None \<and> expireAt e = 0 \<and> staleUntil e = 0"

definition is_stale :: "('v, 'e) entry \<Rightarrow> bool" where
  "is_stale e \<longleftrightarrow> err e = None \<and> expireAt e = 0 \<and> 0 < staleUntil e"

definition is_value :: "('v, 'e) entry \<Rightarrow> bool" where
  "is_value e \<longleftrightarrow> err e = None \<and> 0 < expireAt e \<and> staleUntil e = 0"

text \<open>
  The invariant written in the comments of \<^verbatim>\<open>sfcache.go\<close> and \<^verbatim>\<open>evict.go\<close>: every entry of
  the key map is filed in exactly one of the three queues, by its kind, and the queues
  hold nothing else.
\<close>

definition cache_inv :: "('k, 'v, 'e) cache \<Rightarrow> bool" where
  "cache_inv c \<longleftrightarrow>
     pq_ok (store c) (values (vic c)) \<and> pq_ok (store c) (stale (vic c))
     \<and> pq_ok (store c) (residue (vic c))
     \<and> distinct (map item (allq (vic c)))
     \<and> (\<forall>k a. fmlookup (keymap c) k = Some a \<longleftrightarrow> \<lparr>item = a, key = k\<rparr> \<in> set (allq (vic c)))
     \<and> (\<forall>n \<in> set (values (vic c)). is_value (store c (item n)))
     \<and> (\<forall>n \<in> set (stale (vic c)). is_stale (store c (item n)))
     \<and> (\<forall>n \<in> set (residue (vic c)). is_residue (store c (item n)))
     \<and> (\<forall>n \<in> set (allq (vic c)). item n < nextAddr c)
     \<and> 1 \<le> csize c \<and> vMaxStale (vic c) = maxStale c
     \<and> vMaxStaleOnFailure (vic c) = maxStaleOnFailure c"

text \<open>What a caller can observe of the cache: the outcome stored under each key.\<close>

definition outcome :: "('v, 'e) entry \<Rightarrow> ('v, 'e) entry" where
  "outcome e = e\<lparr>idx := 0\<rparr>"

definition view :: "('k, 'v, 'e) cache \<Rightarrow> 'k \<Rightarrow> ('v, 'e) entry option" where
  "view c k = map_option (\<lambda>a. outcome (store c a)) (fmlookup (keymap c) k)"

section \<open>The three queues, uniformly\<close>

text \<open>The filing rule picks a queue by the kind of the entry; the proofs range over kinds.\<close>

datatype kind = ValueK | StaleK | ResidueK

fun getq :: "'k victims \<Rightarrow> kind \<Rightarrow> 'k pqueue" where
  "getq v ValueK = values v"
| "getq v StaleK = stale v"
| "getq v ResidueK = residue v"

fun putq :: "'k victims \<Rightarrow> kind \<Rightarrow> 'k pqueue \<Rightarrow> 'k victims" where
  "putq v ValueK q = v\<lparr>values := q\<rparr>"
| "putq v StaleK q = v\<lparr>stale := q\<rparr>"
| "putq v ResidueK q = v\<lparr>residue := q\<rparr>"

fun of_kind :: "kind \<Rightarrow> ('v, 'e) entry \<Rightarrow> bool" where
  "of_kind ValueK = is_value"
| "of_kind StaleK = is_stale"
| "of_kind ResidueK = is_residue"

definition kind_of :: "('v, 'e) entry \<Rightarrow> kind" where
  "kind_of e = (if err e \<noteq> None then ResidueK else if revived e then StaleK else ValueK)"

lemma of_kind_kind_of: "of_kind q e \<Longrightarrow> kind_of e = q"
  by (cases q) (auto simp: kind_of_def is_value_def is_stale_def is_residue_def revived_def)

lemma getq_putq [simp]: "getq (putq v q x) q' = (if q' = q then x else getq v q')"
  by (cases q; cases q') auto

lemma putq_settings [simp]:
  "vMaxStale (putq v q x) = vMaxStale v" "vMaxStaleOnFailure (putq v q x) = vMaxStaleOnFailure v"
  by (cases q; simp)+

lemma all_kind: "(\<forall>q. P q) \<longleftrightarrow> P ValueK \<and> P StaleK \<and> P ResidueK"
  by (metis kind.exhaust)

lemma ex_kind: "(\<exists>q. P q) \<longleftrightarrow> P ValueK \<or> P StaleK \<or> P ResidueK"
  by (metis kind.exhaust)

lemma set_allq: "n \<in> set (allq v) \<longleftrightarrow> (\<exists>q. n \<in> set (getq v q))"
  by (auto simp: allq_def ex_kind)

lemma victims_file_kind:
  "victims_file h v k a =
     (let q = kind_of (h a); r = pq_push h (getq v q) k a in (fst r, putq v q (snd r)))"
  by (simp add: victims_file_def kind_of_def Let_def split: prod.splits)

lemma victims_unfile_kind:
  "victims_unfile h v a =
     (let q = kind_of (h a) in
      map_option (\<lambda>r. (fst r, putq v q (snd r))) (pq_remove h (getq v q) a))"
  by (auto simp: victims_unfile_def kind_of_def Let_def split: bind_split)

text \<open>The invariant over kinds.\<close>

lemma cache_inv_kinds:
  "cache_inv c \<longleftrightarrow>
     (\<forall>q. pq_ok (store c) (getq (vic c) q))
     \<and> (\<forall>q. \<forall>n \<in> set (getq (vic c) q). of_kind q (store c (item n)) \<and> item n < nextAddr c)
     \<and> (\<forall>k a. fmlookup (keymap c) k = Some a \<longleftrightarrow>
              (\<exists>q. \<lparr>item = a, key = k\<rparr> \<in> set (getq (vic c) q)))
     \<and> 1 \<le> csize c \<and> vMaxStale (vic c) = maxStale c
     \<and> vMaxStaleOnFailure (vic c) = maxStaleOnFailure c" (is "?L \<longleftrightarrow> ?R")
proof
  assume ?L
  then show ?R
    unfolding cache_inv_def by (simp add: all_kind ex_kind allq_def ball_Un)
next
  assume r: ?R
  have "q = q'" if "n \<in> set (getq (vic c) q)" "m \<in> set (getq (vic c) q')" "item n = item m" for n m q q'
    using r that of_kind_kind_of by metis
  from this [of _ ValueK _ StaleK] this [of _ ValueK _ ResidueK] this [of _ StaleK _ ResidueK]
  have "distinct (map item (allq (vic c)))"
    using r unfolding allq_def pq_ok_def all_kind by (auto simp: image_iff)
  then show ?L
    using r unfolding cache_inv_def by (simp add: all_kind ex_kind allq_def ball_Un)
qed

lemma same_outcome_kind:
  assumes "same_outcome A h h'"
  shows "of_kind q (h' a) = of_kind q (h a)" and "kind_of (h' a) = kind_of (h a)"
    and "outcome (h' a) = outcome (h a)"
  using assms
  by (cases q; auto simp: same_outcome_def is_value_def is_stale_def is_residue_def kind_of_def
      revived_def outcome_def)+

lemma cache_inv_node:
  assumes "cache_inv c" and "fmlookup (keymap c) k = Some a"
  shows "\<lparr>item = a, key = k\<rparr> \<in> set (getq (vic c) (kind_of (store c a)))"
proof -
  obtain q where q: "\<lparr>item = a, key = k\<rparr> \<in> set (getq (vic c) q)"
    using assms unfolding cache_inv_kinds by metis
  then have "of_kind q (store c a)" using assms(1) unfolding cache_inv_kinds by fastforce
  with q show ?thesis using of_kind_kind_of by metis
qed

lemma cache_inv_of_kind:
  assumes "cache_inv c" and "fmlookup (keymap c) k = Some a"
  shows "of_kind (kind_of (store c a)) (store c a)"
  using assms cache_inv_node [OF assms] unfolding cache_inv_kinds by fastforce

lemma cache_inv_items:
  assumes "cache_inv c" and "n \<in> set (getq (vic c) q)" and "m \<in> set (getq (vic c) q')"
    and "item n = item m"
  shows "n = m" and "q = q'"
proof -
  show q: "q = q'" using assms of_kind_kind_of unfolding cache_inv_kinds by metis
  have "inj_on item (set (getq (vic c) q))"
    using assms(1) unfolding cache_inv_kinds pq_ok_def by (simp add: distinct_map)
  then show "n = m" using assms(2-4) q by (auto dest: inj_onD)
qed

section \<open>Dropping and storing an entry\<close>

text \<open>Everything but the entries: what \<^verbatim>\<open>drop\<close>, \<^verbatim>\<open>store\<close> and \<^verbatim>\<open>makeRoom\<close> leave alone.\<close>

definition same_frame :: "('k, 'v, 'e) cache \<Rightarrow> ('k, 'v, 'e) cache \<Rightarrow> bool" where
  "same_frame c c' \<longleftrightarrow>
     flights c' = flights c \<and> ttlFn c' = ttlFn c \<and> ttl c' = ttl c \<and> maxStale c' = maxStale c
     \<and> maxStaleOnFailure c' = maxStaleOnFailure c \<and> csize c' = csize c"

lemma same_frame_refl [simp, intro]: "same_frame c c"
  by (simp add: same_frame_def)

lemma same_frame_trans: "same_frame a b \<Longrightarrow> same_frame b c \<Longrightarrow> same_frame a c"
  by (simp add: same_frame_def)

lemma same_frame_tick [simp, intro]: "same_frame c (tick c)"
  by (simp add: same_frame_def tick_def)

definition qlen :: "('k, 'v, 'e) cache \<Rightarrow> kind \<Rightarrow> nat" where
  "qlen c q = length (getq (vic c) q)"

lemma tick_simps [simp]:
  "keymap (tick c) = keymap c" "vic (tick c) = vic c" "store (tick c) = store c"
  "nextAddr (tick c) = nextAddr c" "view (tick c) = view c" "cache_inv (tick c) = cache_inv c"
  "flights (tick c) = flights c" "ticks (tick c) = Suc (ticks c)" "qlen (tick c) = qlen c"
  "csize (tick c) = csize c" "maxStale (tick c) = maxStale c" "ttl (tick c) = ttl c"
  "maxStaleOnFailure (tick c) = maxStaleOnFailure c" "ttlFn (tick c) = ttlFn c"
  by (simp_all add: tick_def view_def fun_eq_iff cache_inv_def qlen_def)

lemma cache_drop_absent: "fmlookup (keymap c) k = None \<Longrightarrow> cache_drop k c = Some (False, c)"
  by (simp add: cache_drop_def)

lemma cache_drop_present:
  assumes inv: "cache_inv c" and k: "fmlookup (keymap c) k = Some a"
  obtains c' where "cache_drop k c = Some (True, c')" and "cache_inv c'"
    and "view c' = (view c)(k := None)" and "same_frame c c'" and "ticks c' = ticks c"
    and "nextAddr c' = nextAddr c" and "keymap c' = fmdrop k (keymap c)"
    and "qlen c' = (qlen c)(kind_of (store c a) := qlen c (kind_of (store c a)) - 1)"
    and "0 < qlen c (kind_of (store c a))"
proof -
  let ?q = "kind_of (store c a)" and ?n = "\<lparr>item = a, key = k\<rparr>" and ?v = "vic c" and ?h = "store c"
  have n: "?n \<in> set (getq ?v ?q)" by (rule cache_inv_node [OF inv k])
  have ok: "pq_ok ?h (getq ?v q)" for q using inv unfolding cache_inv_kinds by blast
  obtain h' ns' where rem: "pq_remove ?h (getq ?v ?q) a = Some (h', ns')" and ok': "pq_ok h' ns'"
    and ms: "mset ns' = mset (getq ?v ?q) - {#?n#}"
    and so: "same_outcome (items (getq ?v ?q)) ?h h'"
    using pq_remove_ok [OF ok n, of a] by auto
  define v' where "v' = putq ?v ?q ns'"
  define c' where "c' = c\<lparr>keymap := fmdrop k (keymap c), vic := v', store := h'\<rparr>"
  have dist: "distinct (getq ?v ?q)" using ok [of ?q] by (simp add: pq_ok_def distinct_map)
  have set': "set ns' = set (getq ?v ?q) - {?n}"
  proof -
    have "mset (getq ?v ?q) - {#?n#} = mset (remove1 ?n (getq ?v ?q))" by simp
    then have "set ns' = set (remove1 ?n (getq ?v ?q))" using ms by (metis set_mset_mset)
    then show ?thesis using dist by simp
  qed
  have "pq_ok h' (getq v' q)" for q
    using ok' ok [of q] so cache_inv_items(2) [OF inv]
    by (auto simp: v'_def intro!: pq_ok_same_outcome [OF _ so])
  moreover have "of_kind q (h' (item m)) \<and> item m < nextAddr c" if "m \<in> set (getq v' q)" for m q
    using that inv set' unfolding cache_inv_kinds same_outcome_kind(1) [OF so]
    by (auto simp: v'_def split: if_splits)
  moreover have "fmlookup (fmdrop k (keymap c)) k' = Some a' \<longleftrightarrow>
      (\<exists>q. \<lparr>item = a', key = k'\<rparr> \<in> set (getq v' q))" for k' a'
  proof -
    have "m \<in> set (getq v' q) \<longleftrightarrow> m \<in> set (getq ?v q) \<and> m \<noteq> ?n" for m q
    proof (cases "q = ?q")
      case True
      then show ?thesis by (simp add: v'_def set')
    next
      case False
      then have "?n \<notin> set (getq ?v q)" using cache_inv_items(2) [OF inv n, of ?n q] by blast
      then show ?thesis using False by (auto simp: v'_def)
    qed
    then have "(\<exists>q. \<lparr>item = a', key = k'\<rparr> \<in> set (getq v' q)) \<longleftrightarrow>
        fmlookup (keymap c) k' = Some a' \<and> \<lparr>item = a', key = k'\<rparr> \<noteq> ?n"
      using inv unfolding cache_inv_kinds by simp
    then show ?thesis using k by (cases "k' = k") auto
  qed
  ultimately have inv': "cache_inv c'"
    using inv unfolding cache_inv_kinds by (auto simp: c'_def v'_def)
  have drop: "cache_drop k c = Some (True, c')"
    by (simp add: cache_drop_def k victims_unfile_kind rem c'_def v'_def)
  moreover have "view c' = (view c)(k := None)"
    using same_outcome_kind(3) [OF so] by (auto simp: view_def c'_def fun_eq_iff)
  moreover have "length ns' = length (getq ?v ?q) - 1"
    using ms n by (metis set_mset_mset size_Diff_singleton size_mset)
  then have "qlen c' = (qlen c)(?q := qlen c ?q - 1)"
    by (auto simp: qlen_def c'_def v'_def fun_eq_iff)
  moreover have "0 < qlen c ?q" using n by (auto simp: qlen_def)
  ultimately show thesis using that inv' by (simp add: same_frame_def c'_def)
qed

text \<open>The kind of the entry under a key, and how an operation changes the queue lengths.\<close>

definition kindAt :: "('k, 'v, 'e) cache \<Rightarrow> 'k \<Rightarrow> kind option" where
  "kindAt c k = map_option kind_of (view c k)"

lemma kind_of_outcome [simp]: "kind_of (outcome e) = kind_of e"
  by (simp add: kind_of_def outcome_def revived_def)

lemma outcome_simps [simp]:
  "err (outcome e) = err e" "expireAt (outcome e) = expireAt e"
  "staleUntil (outcome e) = staleUntil e" "val (outcome e) = val e" "idx (outcome e) = 0"
  "expired (outcome e) = expired e" "revived (outcome e) = revived e"
  "deadline (outcome e) = deadline e" "worthless v (outcome e) = worthless v e"
  "outcome (outcome e) = outcome e"
  by (auto simp: outcome_def expired_def revived_def deadline_def worthless_def worthlessAt_def
      fun_eq_iff)

lemma cache_drop_ok:
  assumes inv: "cache_inv c"
  obtains c' where "cache_drop k c = Some (view c k \<noteq> None, c')" and "cache_inv c'"
    and "view c' = (view c)(k := None)" and "same_frame c c'" and "ticks c' = ticks c"
    and "nextAddr c' = nextAddr c"
    and "\<And>q. qlen c' q + of_bool (kindAt c k = Some q) = qlen c q"
proof (cases "fmlookup (keymap c) k")
  case None
  then have "view c k = None" by (simp add: view_def)
  then show thesis
    using that [of c] inv cache_drop_absent [OF None] by (simp add: fun_upd_idem kindAt_def)
next
  case (Some a)
  from cache_drop_present [OF inv Some] obtain c' where c': "cache_drop k c = Some (True, c')"
      "cache_inv c'" "view c' = (view c)(k := None)" "same_frame c c'" "ticks c' = ticks c"
      "nextAddr c' = nextAddr c"
    and q: "qlen c' = (qlen c)(kind_of (store c a) := qlen c (kind_of (store c a)) - 1)"
      "0 < qlen c (kind_of (store c a))" .
  have "view c k = Some (outcome (store c a))" using Some by (simp add: view_def)
  then show thesis
    using that [of c'] c' q by (auto simp: kindAt_def)
qed

lemma cache_store_ok:
  assumes inv: "cache_inv c" and kind: "of_kind (kind_of e) e"
  obtains c' where "cache_store k e c = Some c'" and "cache_inv c'"
    and "view c' = (view c)(k \<mapsto> outcome e)" and "same_frame c c'" and "ticks c' = ticks c"
    and "\<And>q. qlen c' q + of_bool (kindAt c k = Some q) = qlen c q + of_bool (q = kind_of e)"
proof -
  from cache_drop_ok [OF inv] obtain c1 where
      d: "cache_drop k c = Some (view c k \<noteq> None, c1)" and inv1: "cache_inv c1"
    and v1: "view c1 = (view c)(k := None)" and sf1: "same_frame c c1" and t1: "ticks c1 = ticks c"
    and q1: "\<And>q. qlen c1 q + of_bool (kindAt c k = Some q) = qlen c q" by metis
  let ?a = "nextAddr c1" and ?v = "vic c1" and ?q = "kind_of e"
  have nok: "fmlookup (keymap c1) k = None" using v1 by (metis fun_upd_same option.map_disc_iff view_def)
  obtain h' ns' where p: "pq_push ((store c1)(?a := e)) (getq ?v ?q) k ?a = (h', ns')" by fastforce
  have new: "?a \<notin> items (getq ?v q)" for q
    using inv1 unfolding cache_inv_kinds by (metis imageE less_irrefl)
  have ok0: "pq_ok ((store c1)(?a := e)) (getq ?v q)" for q
  proof -
    have eq: "((store c1)(?a := e)) (item n) = store c1 (item n)" if "n \<in> set (getq ?v q)" for n
      using new [of q] that by (metis fun_upd_other imageI)
    have dl: "dls ((store c1)(?a := e)) (getq ?v q) = dls (store c1) (getq ?v q)"
      using eq by (intro map_cong) (auto simp only:)
    have io: "idx_ok ((store c1)(?a := e)) (getq ?v q) = idx_ok (store c1) (getq ?v q)"
      unfolding idx_ok_def using eq nth_mem by metis
    show ?thesis using inv1 unfolding cache_inv_kinds pq_ok_def dl io by blast
  qed
  note push = pq_push_ok [OF ok0 new p]
  define c' where "c' = c1\<lparr>keymap := fmupd k ?a (keymap c1), vic := putq ?v ?q ns', store := h',
      nextAddr := Suc ?a\<rparr>"
  have st: "cache_store k e c = Some c'"
    by (simp add: cache_store_def d victims_file_kind Let_def p c'_def)
  have set': "set ns' = insert \<lparr>item = ?a, key = k\<rparr> (set (getq ?v ?q))"
    using push(2) by (metis set_mset_add_mset_insert set_mset_mset)
  have disj: "insert ?a (items (getq ?v ?q)) \<inter> items (getq ?v q) = {}" if "q \<noteq> ?q" for q
    using that new [of q] cache_inv_items(2) [OF inv1] by (auto simp del: fun_upd_apply)
  have "pq_ok h' (getq (vic c') q)" for q
    using push(1) pq_ok_same_outcome [OF ok0 push(3) disj] by (cases "q = ?q") (simp_all add: c'_def)
  moreover have "of_kind q (h' (item n)) \<and> item n < nextAddr c'" if "n \<in> set (getq (vic c') q)" for q n
  proof (cases "item n = ?a")
    case True
    then have "n \<notin> set (getq ?v q)" using new [of q] by (metis imageI)
    then have "q = ?q" "n = \<lparr>item = ?a, key = k\<rparr>"
      using that set' by (auto simp: c'_def split: if_splits)
    then show ?thesis using kind same_outcome_kind(1) [OF push(3)] by (simp add: c'_def)
  next
    case False
    then have "n \<in> set (getq ?v q)" using that set' by (auto simp: c'_def split: if_splits)
    then have "of_kind q (store c1 (item n))" "item n < ?a"
      using inv1 unfolding cache_inv_kinds by blast+
    then show ?thesis using False same_outcome_kind(1) [OF push(3)] by (simp add: c'_def)
  qed
  moreover have "fmlookup (keymap c') k' = Some a' \<longleftrightarrow>
      (\<exists>q. \<lparr>item = a', key = k'\<rparr> \<in> set (getq (vic c') q))" for k' a'
  proof -
    have "n \<in> set (getq (vic c') q) \<longleftrightarrow> n \<in> set (getq ?v q) \<or> q = ?q \<and> n = \<lparr>item = ?a, key = k\<rparr>" for n q
      using set' by (auto simp: c'_def)
    then have "(\<exists>q. \<lparr>item = a', key = k'\<rparr> \<in> set (getq (vic c') q)) \<longleftrightarrow>
        fmlookup (keymap c1) k' = Some a' \<or> a' = ?a \<and> k' = k"
      using inv1 unfolding cache_inv_kinds by auto
    then show ?thesis using nok by (auto simp: c'_def)
  qed
  ultimately have inv': "cache_inv c'"
    using inv1 unfolding cache_inv_kinds by (simp add: c'_def)
  have vw: "view c' = (view c)(k \<mapsto> outcome e)"
  proof
    fix k'
    show "view c' k' = ((view c)(k \<mapsto> outcome e)) k'"
    proof (cases "k' = k")
      case True
      then show ?thesis using same_outcome_kind(3) [OF push(3)] by (simp add: view_def c'_def)
    next
      case False
      then have "view c' k' = map_option (\<lambda>a. outcome (((store c1)(?a := e)) a)) (fmlookup (keymap c1) k')"
        using same_outcome_kind(3) [OF push(3)] by (simp add: view_def c'_def)
      also have "\<dots> = view c1 k'"
      proof -
        have "a \<noteq> ?a" if "fmlookup (keymap c1) k' = Some a" for a
          using that new cache_inv_node [OF inv1 that] by force
        then show ?thesis unfolding view_def by (cases "fmlookup (keymap c1) k'") auto
      qed
      finally show ?thesis using False v1 by simp
    qed
  qed
  have "length ns' = Suc (length (getq ?v ?q))" using push(2) by (metis size_add_mset size_mset)
  then have "qlen c' q = qlen c1 q + of_bool (q = ?q)" for q
    by (simp add: qlen_def c'_def)
  with q1 have ql: "qlen c' q + of_bool (kindAt c k = Some q) = qlen c q + of_bool (q = ?q)" for q
    by (metis add.assoc add.commute)
  show thesis
    using that [OF st inv' vw _ _ ql] sf1 t1 by (simp add: same_frame_def c'_def)
qed

lemma maplen_qlen:
  assumes "cache_inv c"
  shows "maplen (keymap c) = qlen c ValueK + qlen c StaleK + qlen c ResidueK"
proof -
  let ?A = "set (allq (vic c))"
  have look: "fmlookup (keymap c) k = Some a \<longleftrightarrow> \<lparr>item = a, key = k\<rparr> \<in> ?A" for k a
    using assms by (simp add: cache_inv_def)
  have inj: "inj_on key ?A"
  proof (rule inj_onI)
    fix x y assume "x \<in> ?A" "y \<in> ?A" "key x = key y"
    then have "fmlookup (keymap c) (key x) = Some (item x)" "fmlookup (keymap c) (key x) = Some (item y)"
      using look by (metis pnode.surjective old.unit.exhaust)+
    then show "x = y" using \<open>key x = key y\<close> by simp
  qed
  have "fset (fmdom (keymap c)) = key ` ?A"
  proof (intro equalityI subsetI)
    fix k assume "k \<in> fset (fmdom (keymap c))"
    then show "k \<in> key ` ?A" using look by (force simp: fmlookup_dom_iff)
  next
    fix k assume "k \<in> key ` ?A"
    then obtain n where "n \<in> ?A" "k = key n" by blast
    then have "fmlookup (keymap c) k = Some (item n)"
      using look by (metis pnode.surjective old.unit.exhaust)
    then show "k \<in> fset (fmdom (keymap c))" by (simp add: fmdomI)
  qed
  then have "maplen (keymap c) = card ?A"
    by (simp add: maplen_def fcard.rep_eq card_image [OF inj])
  also have "\<dots> = length (allq (vic c))"
    using assms unfolding cache_inv_def by (simp add: distinct_map distinct_card)
  finally show ?thesis by (simp add: allq_def qlen_def)
qed

section \<open>The choice of a victim\<close>

text \<open>
  What it costs to give an entry up at a given instant: nothing when nobody can ever be
  served it, a stale value when it has expired, a valid value otherwise. \<^verbatim>\<open>pick\<close> is
  specified by it over the observable map, with no mention of queues.
\<close>

definition needs :: "'k victims \<Rightarrow> ('v, 'e) entry \<Rightarrow> gotime \<Rightarrow> evictLevel" where
  "needs v e now =
     (if worthless v e now then evictWorthless
      else if expired e now then evictStale else evictValue)"

lemmas kind_defs = is_value_def is_stale_def is_residue_def kind_of_def revived_def

lemma view_kind:
  assumes "cache_inv c" and "view c k = Some e"
  shows "of_kind (kind_of e) e"
proof -
  obtain a where a: "fmlookup (keymap c) k = Some a" "e = outcome (store c a)"
    using assms(2) by (auto simp: view_def)
  have "of_kind q (outcome x) = of_kind q x" for q and x :: "('b, 'c) entry"
    by (cases q) (simp_all add: kind_defs)
  then show ?thesis using cache_inv_of_kind [OF assms(1) a(1)] a(2) by simp
qed

lemma view_kind_cases:
  assumes "cache_inv c" and "view c k = Some e"
  shows "kind_of e = ValueK \<Longrightarrow> is_value e" and "kind_of e = StaleK \<Longrightarrow> is_stale e"
    and "kind_of e = ResidueK \<Longrightarrow> is_residue e"
  using view_kind [OF assms] by simp_all

lemma top_None_view:
  assumes "cache_inv c" and "pq_top (getq (vic c) q) = None" and "view c k = Some e"
  shows "kind_of e \<noteq> q"
proof -
  obtain a where a: "fmlookup (keymap c) k = Some a" "e = outcome (store c a)"
    using assms(3) by (auto simp: view_def)
  have "getq (vic c) q = []" using assms(2) by (simp add: pq_top_def split: list.splits)
  then show ?thesis using cache_inv_node [OF assms(1) a(1)] a(2) by auto
qed

lemma top_Some_view:
  assumes inv: "cache_inv c" and top: "pq_top (getq (vic c) q) = Some (k, a)"
  shows "view c k = Some (outcome (store c a))" and "kind_of (store c a) = q"
    and "view c k' = Some e \<Longrightarrow> kind_of e = q \<Longrightarrow> deadline (store c a) \<le> deadline e"
proof -
  have ok: "pq_ok (store c) (getq (vic c) q)" using inv unfolding cache_inv_kinds by blast
  note t = pq.top_least [OF ok top, unfolded set_mset_mset]
  have "fmlookup (keymap c) k = Some a" using t inv unfolding cache_inv_kinds by blast
  then show "view c k = Some (outcome (store c a))" by (simp add: view_def)
  have "of_kind q (store c a)" using t inv unfolding cache_inv_kinds by fastforce
  then show "kind_of (store c a) = q" by (rule of_kind_kind_of)
  assume v: "view c k' = Some e" and q: "kind_of e = q"
  obtain a' where a': "fmlookup (keymap c) k' = Some a'" "e = outcome (store c a')"
    using v by (auto simp: view_def)
  have "\<lparr>item = a', key = k'\<rparr> \<in> set (getq (vic c) q)"
    using cache_inv_node [OF inv a'(1)] q a'(2) by simp
  then show "deadline (store c a) \<le> deadline e" using t a'(2) by fastforce
qed

lemma worthless_mono:
  assumes "of_kind q e" and "of_kind q e'" and "deadline e \<le> deadline e'" and "worthless v e' now"
  shows "worthless v e now"
  using assms
  by (cases q) (auto simp: kind_defs worthless_def worthlessAt_def deadline_def split: if_splits)

lemma worthless_expired:
  assumes "of_kind q e" and "0 \<le> now" and "worthless v e now"
  shows "expired e now"
  using assms
  by (cases q) (auto simp: kind_defs worthless_def worthlessAt_def expired_def split: if_splits)

lemma worthlessVictim_Some:
  assumes inv: "cache_inv c" and now: "0 \<le> now"
    and w: "worthlessVictim (store c) (vic c) now = Some k"
  shows "\<exists>e. view c k = Some e \<and> worthless (vic c) e now"
proof -
  consider (r) a where "pq_top (getq (vic c) ResidueK) = Some (k, a)"
    | (s) a where "pq_top (getq (vic c) StaleK) = Some (k, a)" "worthless (vic c) (store c a) now"
    | (v) a where "pq_top (getq (vic c) ValueK) = Some (k, a)" "worthless (vic c) (store c a) now"
    using w by (auto simp: worthlessVictim_def split: option.splits prod.splits if_splits)
  then show ?thesis
  proof cases
    case r
    note t = top_Some_view [OF inv r]
    have "worthless (vic c) (store c a) now"
      using t(2) now by (auto simp: kind_of_def worthless_def worthlessAt_def split: if_splits)
    then show ?thesis using t(1) by auto
  next
    case s
    then show ?thesis using top_Some_view(1) [OF inv s(1)] by auto
  next
    case v
    then show ?thesis using top_Some_view(1) [OF inv v(1)] by auto
  qed
qed

lemma top_not_worthless:
  assumes inv: "cache_inv c" and e: "view c k = Some e"
    and top: "\<And>k a. pq_top (getq (vic c) (kind_of e)) = Some (k, a) \<Longrightarrow> \<not> worthless (vic c) (store c a) now"
  shows "\<not> worthless (vic c) e now"
proof
  assume w: "worthless (vic c) e now"
  obtain k' a where t: "pq_top (getq (vic c) (kind_of e)) = Some (k', a)"
    using top_None_view [OF inv _ e] by fastforce
  note tv = top_Some_view [OF inv t]
  have "deadline (outcome (store c a)) \<le> deadline e" using tv(3) [OF e] by simp
  moreover have "of_kind (kind_of e) (outcome (store c a))" using view_kind [OF inv tv(1)] tv(2) by simp
  ultimately have "worthless (vic c) (outcome (store c a)) now"
    using worthless_mono view_kind [OF inv e] w by blast
  then show False using top [OF t] by simp
qed

lemma worthlessVictim_None:
  assumes inv: "cache_inv c" and w: "worthlessVictim (store c) (vic c) now = None"
    and e: "view c k = Some e"
  shows "\<not> worthless (vic c) e now"
proof (rule top_not_worthless [OF inv e])
  fix k' a assume "pq_top (getq (vic c) (kind_of e)) = Some (k', a)"
  then show "\<not> worthless (vic c) (store c a) now"
    using w by (cases "kind_of e")
      (auto simp: worthlessVictim_def split: option.splits prod.splits if_splits)
qed

lemma values_expired_head:
  assumes inv: "cache_inv c" and e: "view c k = Some e" and q: "kind_of e = ValueK"
    and t: "pq_top (values (vic c)) = Some (k', a)" and n: "\<not> expired (store c a) now"
  shows "\<not> expired e now" and "expireAt (store c a) \<le> expireAt e"
proof -
  have t': "pq_top (getq (vic c) ValueK) = Some (k', a)" using t by simp
  note tv = top_Some_view [OF inv t']
  have "deadline (store c a) = expireAt (store c a)" "deadline e = expireAt e"
    using tv(2) q by (auto simp: kind_of_def deadline_def split: if_splits)
  then show "expireAt (store c a) \<le> expireAt e" using tv(3) [OF e q] by simp
  then show "\<not> expired e now" using n by (simp add: expired_def)
qed

lemma staleVictim_Some:
  assumes inv: "cache_inv c" and now: "0 \<le> now"
    and w: "staleVictim (store c) (vic c) now = Some k"
  shows "\<exists>e. view c k = Some e \<and> expired e now
     \<and> (revived e \<longrightarrow> (\<forall>k' e'. view c k' = Some e' \<longrightarrow> err e' = None \<longrightarrow> expired e' now \<longrightarrow>
            revived e' \<and> staleUntil e \<le> staleUntil e'))"
proof -
  consider (v) a where "pq_top (getq (vic c) ValueK) = Some (k, a)" "expired (store c a) now"
    | (s) a where "pq_top (getq (vic c) StaleK) = Some (k, a)"
        "\<And>k' a. pq_top (values (vic c)) = Some (k', a) \<Longrightarrow> \<not> expired (store c a) now"
    using w by (auto simp: staleVictim_def split: option.splits prod.splits if_splits)
  then show ?thesis
  proof cases
    case v
    note t = top_Some_view [OF inv v(1)]
    have "\<not> revived (store c a)" using t(2) by (auto simp: kind_of_def split: if_splits)
    then show ?thesis using t(1) v(2) by auto
  next
    case s
    note t = top_Some_view [OF inv s(1)]
    have st: "is_stale (outcome (store c a))"
      using view_kind_cases(2) [OF inv t(1)] t(2) by simp
    then have ex: "expired (store c a) now" and dl: "deadline (store c a) = staleUntil (store c a)"
      using now by (auto simp: is_stale_def expired_def deadline_def revived_def)
    have "revived e' \<and> staleUntil (store c a) \<le> staleUntil e'"
      if e': "view c k' = Some e'" "err e' = None" "expired e' now" for k' e'
    proof -
      have "kind_of e' \<noteq> ValueK"
      proof
        assume q: "kind_of e' = ValueK"
        obtain k0 a0 where "pq_top (values (vic c)) = Some (k0, a0)"
          using top_None_view [OF inv _ e'(1), of ValueK] q by fastforce
        then show False using values_expired_head(1) [OF inv e'(1) q] s(2) e'(3) by blast
      qed
      then have q: "kind_of e' = StaleK" "revived e'"
        using e'(2) by (auto simp: kind_of_def split: if_splits)
      then show ?thesis using t(3) [OF e'(1)] dl by (simp add: deadline_def)
    qed
    then show ?thesis using t(1) ex by auto
  qed
qed

lemma staleVictim_None:
  assumes inv: "cache_inv c" and w: "staleVictim (store c) (vic c) now = None"
    and e: "view c k = Some e" and ok: "err e = None"
  shows "kind_of e = ValueK" and "\<not> expired e now"
proof -
  have "pq_top (getq (vic c) StaleK) = None"
    using w by (auto simp: staleVictim_def split: option.splits prod.splits if_splits)
  then have "kind_of e \<noteq> StaleK" using top_None_view [OF inv _ e] by blast
  then show q: "kind_of e = ValueK" using ok by (auto simp: kind_of_def split: if_splits)
  obtain k0 a0 where t: "pq_top (values (vic c)) = Some (k0, a0)"
    using top_None_view [OF inv _ e, of ValueK] q by fastforce
  then have "\<not> expired (store c a0) now"
    using w by (auto simp: staleVictim_def split: if_splits)
  then show "\<not> expired e now" using values_expired_head(1) [OF inv e q t] by blast
qed

lemma level_simps [simp]:
  "(evictWorthless :: evictLevel) \<le> x" "x \<le> evictValue"
  "evictStale \<le> evictWorthless \<longleftrightarrow> False" "evictValue \<le> evictStale \<longleftrightarrow> False"
  "evictValue \<le> evictWorthless \<longleftrightarrow> False" "x < evictWorthless \<longleftrightarrow> False"
  "evictWorthless < evictStale" "evictStale < evictValue" "evictWorthless < evictValue"
  "evictValue < x \<longleftrightarrow> False"
  by (cases x; simp add: less_eq_evictLevel_def less_evictLevel_def)+

text \<open>
  The specification of a victim over the observable map: the least costly entry, at most
  as costly as the level allows. Among valid entries it is the one closest to expiring;
  a value a failed refresh revived is given up only when every expired value is such a
  one, and then the one whose window shuts first.
\<close>

definition least_costly ::
    "'k victims \<Rightarrow> ('k \<Rightarrow> ('v, 'e) entry option) \<Rightarrow> gotime \<Rightarrow> evictLevel \<Rightarrow> 'k \<Rightarrow> bool" where
  "least_costly v m now level k \<longleftrightarrow>
     (\<exists>e. m k = Some e \<and> needs v e now \<le> level
        \<and> (\<forall>k' e'. m k' = Some e' \<longrightarrow>
             needs v e now \<le> needs v e' now
             \<and> (needs v e now = evictValue \<longrightarrow> expireAt e \<le> expireAt e')
             \<and> (needs v e now = evictStale \<and> needs v e' now = evictStale \<and> revived e \<longrightarrow>
                  revived e' \<and> staleUntil e \<le> staleUntil e')))"

lemma residue_worthless:
  assumes "cache_inv c" and "view c k = Some e" and "err e \<noteq> None" and "0 \<le> now"
  shows "worthless (vic c) e now"
  using assms by (simp add: worthless_def worthlessAt_def)

lemma pick_Some_least:
  assumes inv: "cache_inv c" and now: "0 \<le> now"
    and p: "pick (store c) (vic c) level now = Some k"
  shows "least_costly (vic c) (view c) now level k"
proof (cases "worthlessVictim (store c) (vic c) now")
  case (Some k0)
  then have "k0 = k" using p by (simp add: pick_def)
  then obtain e where "view c k = Some e" "worthless (vic c) e now"
    using worthlessVictim_Some [OF inv now] Some by blast
  then show ?thesis unfolding least_costly_def by (intro exI [of _ e]) (simp add: needs_def)
next
  case nw: None
  note now_worthless = worthlessVictim_None [OF inv nw]
  have no_err: "err e = None" if "view c k = Some e" for k e
    using now_worthless [OF that] residue_worthless [OF inv that _ now] by blast
  show ?thesis
  proof (cases "staleVictim (store c) (vic c) now")
    case (Some k0)
    then have k0: "k0 = k" "\<not> level < evictStale"
      using p nw by (auto simp: pick_def split: if_splits)
    obtain e where e: "view c k = Some e" "expired e now"
      and r: "revived e \<Longrightarrow> view c k' = Some e' \<Longrightarrow> err e' = None \<Longrightarrow> expired e' now \<Longrightarrow>
                revived e' \<and> staleUntil e \<le> staleUntil e'" for k' e'
      using staleVictim_Some [OF inv now] Some k0(1) by blast
    have ne: "needs (vic c) e now = evictStale" using e now_worthless [OF e(1)] by (simp add: needs_def)
    have "evictStale \<le> needs (vic c) e' now
        \<and> (needs (vic c) e' now = evictStale \<and> revived e \<longrightarrow> revived e' \<and> staleUntil e \<le> staleUntil e')"
      if "view c k' = Some e'" for k' e'
      using now_worthless [OF that] no_err [OF that] r [OF _ that]
      by (auto simp: needs_def less_imp_le)
    then show ?thesis unfolding least_costly_def using e(1) ne k0(2) by (auto simp: not_less)
  next
    case None
    then obtain a where t: "pq_top (getq (vic c) ValueK) = Some (k, a)" and l: "\<not> level < evictValue"
      using p nw by (auto simp: pick_def split: if_splits)
    let ?e = "outcome (store c a)"
    note tv = top_Some_view [OF inv t]
    have nv: "needs (vic c) e' now = evictValue" "expireAt ?e \<le> expireAt e'" if e': "view c k' = Some e'" for k' e'
    proof -
      have q: "kind_of e' = ValueK" and x: "\<not> expired e' now"
        using staleVictim_None [OF inv None e' no_err [OF e']] by blast+
      show "needs (vic c) e' now = evictValue" using x now_worthless [OF e'] by (simp add: needs_def)
      have "\<not> expired (store c a) now" using staleVictim_None(2) [OF inv None tv(1)] no_err [OF tv(1)] by simp
      then show "expireAt ?e \<le> expireAt e'" using values_expired_head(2) [OF inv e' q] t by simp
    qed
    then show ?thesis unfolding least_costly_def using tv(1) l by (intro exI [of _ ?e]) (simp add: not_less)
  qed
qed

lemma pick_None_iff:
  assumes inv: "cache_inv c" and now: "0 \<le> now"
  shows "pick (store c) (vic c) level now = None \<longleftrightarrow>
     (\<forall>k e. view c k = Some e \<longrightarrow> level < needs (vic c) e now)"
proof
  assume p: "pick (store c) (vic c) level now = None"
  then have nw: "worthlessVictim (store c) (vic c) now = None"
    by (auto simp: pick_def split: option.splits)
  note now_worthless = worthlessVictim_None [OF inv nw]
  show "\<forall>k e. view c k = Some e \<longrightarrow> level < needs (vic c) e now"
  proof (intro allI impI)
    fix k e assume e: "view c k = Some e"
    have ok: "err e = None"
      using now_worthless [OF e] residue_worthless [OF inv e _ now] by blast
    show "level < needs (vic c) e now"
    proof (cases level)
      case evictWorthless
      then show ?thesis using now_worthless [OF e] by (simp add: needs_def)
    next
      case evictStale
      then have "staleVictim (store c) (vic c) now = None"
        using p nw by (auto simp: pick_def split: option.splits)
      then show ?thesis
        using staleVictim_None(2) [OF inv _ e ok] now_worthless [OF e] evictStale by (simp add: needs_def)
    next
      case evictValue
      then have "staleVictim (store c) (vic c) now = None" "pq_top (getq (vic c) ValueK) = None"
        using p nw by (auto simp: pick_def split: option.splits)
      then show ?thesis
        using staleVictim_None(1) [OF inv _ e ok] top_None_view [OF inv _ e] by blast
    qed
  qed
next
  assume none: "\<forall>k e. view c k = Some e \<longrightarrow> level < needs (vic c) e now"
  show "pick (store c) (vic c) level now = None"
  proof (rule ccontr)
    assume "pick (store c) (vic c) level now \<noteq> None"
    then obtain k where "pick (store c) (vic c) level now = Some k" by blast
    from pick_Some_least [OF inv now this] none show False
      unfolding least_costly_def by (meson not_less)
  qed
qed

section \<open>Making room\<close>

text \<open>
  What is assumed of the clock: every reading is later than the zero time, and readings
  never go back (Go's monotonic clock).
\<close>

definition good_clock :: "(nat \<Rightarrow> gotime) \<Rightarrow> bool" where
  "good_clock clk \<longleftrightarrow> mono clk \<and> (\<forall>n. 0 < clk n)"

lemma good_clock_nonneg: "good_clock clk \<Longrightarrow> 0 \<le> clk n"
  by (simp add: good_clock_def less_imp_le)

lemma good_clock_mono: "good_clock clk \<Longrightarrow> m \<le> n \<Longrightarrow> clk m \<le> clk n"
  by (simp add: good_clock_def monoD)

lemma needs_antimono: "now \<le> now' \<Longrightarrow> needs v e now' \<le> needs v e now"
  by (auto simp: needs_def worthless_def expired_def less_imp_le split: option.splits)

lemma needs_frame:
  assumes "cache_inv c" and "cache_inv c'" and "same_frame c c'"
  shows "needs (vic c') = needs (vic c)"
proof -
  have "vMaxStale (vic c') = vMaxStale (vic c)" "vMaxStaleOnFailure (vic c') = vMaxStaleOnFailure (vic c)"
    using assms by (auto simp: cache_inv_def same_frame_def)
  then show ?thesis by (intro ext) (simp add: needs_def worthless_def worthlessAt_def)
qed

text \<open>
  From \<open>c\<close> to \<open>c'\<close>, every key outside \<open>K\<close> keeps its entry or loses one that costs at
  most \<open>level\<close> at the last clock reading.
\<close>

definition evicts_at_most ::
    "(nat \<Rightarrow> gotime) \<Rightarrow> evictLevel \<Rightarrow> 'k set \<Rightarrow> ('k, 'v, 'e) cache \<Rightarrow> ('k, 'v, 'e) cache \<Rightarrow> bool" where
  "evicts_at_most clk level K c c' \<longleftrightarrow>
     (\<forall>k. k \<notin> K \<longrightarrow> view c' k = view c k
        \<or> view c' k = None \<and> (\<exists>e. view c k = Some e \<and> needs (vic c) e (clk (ticks c')) \<le> level))"

lemma evicts_at_most_refl [simp, intro]: "evicts_at_most clk level K c c"
  by (simp add: evicts_at_most_def)

lemma evicts_at_most_trans:
  assumes "good_clock clk" and "cache_inv a" and "cache_inv b" and "same_frame a b"
    and "ticks b \<le> ticks c"
    and ab: "evicts_at_most clk level K a b" and bc: "evicts_at_most clk level K b c"
  shows "evicts_at_most clk level K a c"
  unfolding evicts_at_most_def
proof (intro allI impI)
  fix k assume k: "k \<notin> K"
  have nf: "needs (vic b) = needs (vic a)" using assms by (intro needs_frame)
  have "needs (vic a) e (clk (ticks c)) \<le> needs (vic a) e (clk (ticks b))" for e
    using good_clock_mono [OF assms(1,5)] by (rule needs_antimono)
  then have later: "needs (vic a) e (clk (ticks b)) \<le> level \<Longrightarrow> needs (vic a) e (clk (ticks c)) \<le> level" for e
    using order_trans by blast
  from ab bc k have 1: "view b k = view a k
        \<or> view b k = None \<and> (\<exists>e. view a k = Some e \<and> needs (vic a) e (clk (ticks b)) \<le> level)"
    and 2: "view c k = view b k
        \<or> view c k = None \<and> (\<exists>e. view b k = Some e \<and> needs (vic a) e (clk (ticks c)) \<le> level)"
    unfolding evicts_at_most_def nf by blast+
  then show "view c k = view a k
        \<or> view c k = None \<and> (\<exists>e. view a k = Some e \<and> needs (vic a) e (clk (ticks c)) \<le> level)"
    using later by (metis option.distinct(1))
qed

text \<open>The capacity target is met, or nothing the level may take was left at the last reading.\<close>

definition room_made ::
    "(nat \<Rightarrow> gotime) \<Rightarrow> evictLevel \<Rightarrow> nat \<Rightarrow> ('k, 'v, 'e) cache \<Rightarrow> bool" where
  "room_made clk level target c \<longleftrightarrow>
     maplen (keymap c) \<le> target
     \<or> (\<forall>k e. view c k = Some e \<longrightarrow> level < needs (vic c) e (clk (ticks c - 1)))"

lemma view_maplen_pos: "view c k = Some e \<Longrightarrow> 0 < maplen (keymap c)"
  by (auto simp: view_def dest: maplen_pos)

lemma maplen_view: "maplen (keymap c) = card (dom (view c))"
proof -
  have "dom (view c) = fset (fmdom (keymap c))"
    by (auto simp: view_def fmlookup_dom_iff)
  then show ?thesis by (simp add: maplen_def fcard.rep_eq)
qed

lemma makeRoom_loop_ok:
  assumes clk: "good_clock clk" and inv: "cache_inv c"
  shows "\<exists>c'. makeRoom_loop clk level target c = Some c' \<and> cache_inv c' \<and> same_frame c c'
     \<and> ticks c \<le> ticks c' \<and> evicts_at_most clk level {} c c' \<and> room_made clk level target c'
     \<and> (\<forall>q. qlen c' q \<le> qlen c q)
     \<and> (view c' = view c \<or> target \<le> maplen (keymap c'))"
  using inv
proof (induction "maplen (keymap c)" arbitrary: c rule: less_induct)
  case less
  note inv = \<open>cache_inv c\<close>
  have now: "0 \<le> clk (ticks c)" using clk by (rule good_clock_nonneg)
  show ?case
  proof (cases "maplen (keymap c) > target")
    case False
    then have "makeRoom_loop clk level target c = Some c" by (simp add: makeRoom_loop.simps)
    then show ?thesis using False inv by (simp add: room_made_def)
  next
    case over: True
    show ?thesis
    proof (cases "pick (store c) (vic c) level (clk (ticks c))")
      case None
      then have "makeRoom_loop clk level target c = Some (tick c)"
        using over by (simp add: makeRoom_loop.simps)
      moreover have "room_made clk level target (tick c)"
        using None pick_None_iff [OF inv now] by (simp add: room_made_def)
      ultimately show ?thesis using inv by (simp add: evicts_at_most_def)
    next
      case (Some victim)
      obtain e where e: "view c victim = Some e" "needs (vic c) e (clk (ticks c)) \<le> level"
        using pick_Some_least [OF inv now Some] unfolding least_costly_def by blast
      obtain c1 where d: "cache_drop victim (tick c) = Some (True, c1)" and inv1: "cache_inv c1"
        and v1: "view c1 = (view c)(victim := None)" and sf: "same_frame (tick c) c1"
        and t1: "ticks c1 = Suc (ticks c)"
        and q1: "\<And>q. qlen c1 q + of_bool (kindAt (tick c) victim = Some q) = qlen c q"
        using cache_drop_ok [of "tick c" victim] inv e(1) by auto
      have sf1: "same_frame c c1" using same_frame_trans [OF same_frame_tick sf] .
      have "needs (vic c) e (clk (ticks c1)) \<le> level"
        using order_trans [OF needs_antimono e(2)] good_clock_mono [OF clk, of "ticks c" "ticks c1"] t1
        by simp
      then have ev1: "evicts_at_most clk level {} c c1"
        unfolding evicts_at_most_def v1 using e(1) by simp
      have len1: "Suc (maplen (keymap c1)) = maplen (keymap c)"
        using cache_drop_maplen [OF d] q1 [of ValueK] q1 [of StaleK] q1 [of ResidueK]
          maplen_qlen [OF inv] maplen_qlen [OF inv1]
        by (cases "kind_of e") (auto simp: kindAt_def e(1))
      have step: "makeRoom_loop clk level target c = makeRoom_loop clk level target c1"
        using over Some d by (subst makeRoom_loop.simps) simp
      from less.hyps [OF _ inv1] len1 obtain c' where c':
          "makeRoom_loop clk level target c1 = Some c'" "cache_inv c'" "same_frame c1 c'"
          "ticks c1 \<le> ticks c'" "evicts_at_most clk level {} c1 c'" "room_made clk level target c'"
          "\<forall>q. qlen c' q \<le> qlen c1 q" "view c' = view c1 \<or> target \<le> maplen (keymap c')"
        by auto
      have "evicts_at_most clk level {} c c'"
        by (rule evicts_at_most_trans [OF clk inv inv1 sf1 c'(4) ev1 c'(5)])
      moreover have "qlen c' q \<le> qlen c q" for q using c'(7) q1 [of q] by (metis le_add1 le_trans)
      moreover have "target \<le> maplen (keymap c')"
        using c'(8) len1 over unfolding maplen_view by auto
      ultimately show ?thesis
        using c' step same_frame_trans [OF sf1 c'(3)] t1 by auto
    qed
  qed
qed

end
