(* ===== verification/SF_Capacity.thy ===== *)
theory SF_Capacity
  imports SF_Cache
begin

text \<open>
  The promises of the "Capacity" section of \<^verbatim>\<open>pkg/sfcache\<close>'s documentation, for the
  operations that run under the write lock: how many entries of each kind the cache may
  hold, what a store may evict to make room for itself, and what \<^verbatim>\<open>PurgeExpired\<close> removes.
\<close>

section \<open>The capacity bounds\<close>

text \<open>
  At most \<open>size\<close> unrevived values; one more value when a stale revive could evict nothing;
  one more entry for the residue of a failed lookup.
\<close>

definition within_capacity :: "('k, 'v, 'e) cache \<Rightarrow> bool" where
  "within_capacity c \<longleftrightarrow>
     qlen c ValueK \<le> csize c \<and> qlen c ValueK + qlen c StaleK \<le> csize c + 1
     \<and> qlen c ValueK + qlen c StaleK + qlen c ResidueK \<le> csize c + 2"

lemma within_capacity_tick [simp]: "within_capacity (tick c) = within_capacity c"
  by (simp add: within_capacity_def)

lemma within_capacity_le:
  assumes "within_capacity c" and "same_frame c c'" and "\<forall>q. qlen c' q \<le> qlen c q"
  shows "within_capacity c'"
proof -
  have "qlen c' ValueK \<le> qlen c ValueK" "qlen c' StaleK \<le> qlen c StaleK" "qlen c' ResidueK \<le> qlen c ResidueK"
    using assms(3) by blast+
  then show ?thesis using assms(1,2) by (simp add: within_capacity_def same_frame_def)
qed

fun level_of :: "kind \<Rightarrow> evictLevel" where
  "level_of ValueK = evictValue"
| "level_of StaleK = evictStale"
| "level_of ResidueK = evictWorthless"

lemma makeRoom_ok:
  assumes clk: "good_clock clk" and inv: "cache_inv c"
  obtains c' where "makeRoom clk k level c = Some c'" and "cache_inv c'" and "same_frame c c'"
    and "ticks c \<le> ticks c'" and "evicts_at_most clk level {} c c'"
    and "room_made clk level (if view c k = None then csize c - 1 else csize c) c'"
    and "\<forall>q. qlen c' q \<le> qlen c q"
    and "view c' = view c \<or> (if view c k = None then csize c - 1 else csize c) \<le> maplen (keymap c')"
proof -
  have "fmlookup (keymap c) k = None \<longleftrightarrow> view c k = None" by (simp add: view_def)
  then have mk: "makeRoom clk k level c =
      makeRoom_loop clk level (if view c k = None then csize c - 1 else csize c) c"
    by (simp add: makeRoom_def)
  show thesis
    using makeRoom_loop_ok [OF clk inv, of level "if view c k = None then csize c - 1 else csize c"]
      that unfolding mk by blast
qed

lemma qlen_pos_view:
  assumes "cache_inv c" and "0 < qlen c q"
  obtains k e where "view c k = Some e" and "kind_of e = q"
proof -
  obtain n where n: "n \<in> set (getq (vic c) q)"
    using assms(2) by (auto simp: qlen_def) (metis last_in_set)
  have nn: "n = \<lparr>item = item n, key = key n\<rparr>" by simp
  have "fmlookup (keymap c) (key n) = Some (item n)"
    using assms(1) n nn unfolding cache_inv_kinds by metis
  moreover have "kind_of (store c (item n)) = q"
    using assms(1) n of_kind_kind_of unfolding cache_inv_kinds by blast
  ultimately show thesis using that [of "key n" "outcome (store c (item n))"] by (simp add: view_def)
qed

text \<open>When a level finds no victim, the kinds it could have taken are absent.\<close>

lemma no_victim_kinds:
  assumes inv: "cache_inv c" and now: "0 \<le> now"
    and none: "\<forall>k e. view c k = Some e \<longrightarrow> level < needs (vic c) e now"
  shows "qlen c ResidueK = 0" and "level \<noteq> evictWorthless \<Longrightarrow> qlen c StaleK = 0"
    and "level = evictValue \<Longrightarrow> qlen c ValueK = 0"
proof -
  show "qlen c ResidueK = 0"
  proof (rule ccontr)
    assume "qlen c ResidueK \<noteq> 0"
    then obtain k e where e: "view c k = Some e" "kind_of e = ResidueK"
      using qlen_pos_view [OF inv, of ResidueK] by auto
    then have "worthless (vic c) e now"
      using residue_worthless [OF inv e(1) _ now] by (auto simp: kind_of_def split: if_splits)
    then show False using none e(1) by (fastforce simp: needs_def)
  qed
  show "qlen c StaleK = 0" if "level \<noteq> evictWorthless"
  proof (rule ccontr)
    assume "qlen c StaleK \<noteq> 0"
    then obtain k e where e: "view c k = Some e" "kind_of e = StaleK"
      using qlen_pos_view [OF inv, of StaleK] by auto
    then have "expired e now" using view_kind_cases(2) [OF inv e] now by (simp add: is_stale_def expired_def)
    then have "needs (vic c) e now \<le> evictStale" by (simp add: needs_def)
    then show False using none e(1) that by (cases level) (auto simp: not_less [symmetric])
  qed
  show "qlen c ValueK = 0" if "level = evictValue"
    using qlen_pos_view [OF inv, of ValueK] none that by fastforce
qed

text \<open>
  Storing an entry under a new key after making room at the level of its kind: the outcome
  is stored, the invariant and the capacity bounds are kept, and a value always fits.
\<close>

lemma store_after_room:
  assumes clk: "good_clock clk" and inv: "cache_inv c" and cap: "within_capacity c"
    and new: "view c k = None" and room: "makeRoom clk k (level_of q) c = Some c1"
    and c2: "c2 = c1 \<or> c2 = tick c1" and e: "of_kind q e"
  obtains c3 where "cache_store k e c2 = Some c3" and "cache_inv c3" and "within_capacity c3"
    and "view c3 = (view c1)(k \<mapsto> outcome e)" and "same_frame c c3" and "ticks c3 = ticks c2"
    and "q = ValueK \<Longrightarrow> maplen (keymap c3) \<le> csize c"
    and "evicts_at_most clk (level_of q) {k} c c3" and "ticks c \<le> ticks c3"
proof -
  from makeRoom_ok [OF clk inv, of k "level_of q"] room new obtain
    inv1: "cache_inv c1" and sf1: "same_frame c c1" and t1: "ticks c \<le> ticks c1"
    and ev1: "evicts_at_most clk (level_of q) {} c c1"
    and rm: "room_made clk (level_of q) (csize c - 1) c1"
    and q1: "\<forall>q. qlen c1 q \<le> qlen c q" by auto
  have k1: "of_kind (kind_of e) e" "kind_of e = q" using of_kind_kind_of [OF e] e by simp_all
  have inv2: "cache_inv c2" and v2: "view c2 = view c1" and ql2: "qlen c2 = qlen c1"
    and sf2: "same_frame c c2" and t2: "ticks c1 \<le> ticks c2"
    using c2 inv1 sf1 by (auto simp: same_frame_def)
  have new1: "view c1 k = None"
    using ev1 new unfolding evicts_at_most_def by (metis empty_iff option.distinct(1))
  then have none: "kindAt c2 k = None" using v2 by (simp add: kindAt_def)
  from cache_store_ok [OF inv2 k1(1), of k] obtain c3 where st: "cache_store k e c2 = Some c3"
    and inv3: "cache_inv c3" and v3: "view c3 = (view c1)(k \<mapsto> outcome e)" and sf3: "same_frame c2 c3"
    and t3: "ticks c3 = ticks c2" and q3: "\<And>r. qlen c3 r = qlen c1 r + of_bool (r = q)"
    unfolding k1(2) ql2 none v2 by auto
  have size: "1 \<le> csize c" "csize c3 = csize c" "csize c1 = csize c"
    using inv sf2 sf3 sf1 by (auto simp: cache_inv_def same_frame_def)
  have cap1: "within_capacity c1" by (rule within_capacity_le [OF cap sf1 q1])
  have now: "0 \<le> clk (ticks c1 - 1)" using clk by (rule good_clock_nonneg)
  have full: "maplen (keymap c1) \<le> csize c - 1
      \<or> qlen c1 ResidueK = 0 \<and> (q \<noteq> ResidueK \<longrightarrow> qlen c1 StaleK = 0)
        \<and> (q = ValueK \<longrightarrow> qlen c1 ValueK = 0)"
    using rm no_victim_kinds [OF inv1 now, of "level_of q"] unfolding room_made_def by (cases q) auto
  have cap3: "within_capacity c3" and fits: "q = ValueK \<Longrightarrow> maplen (keymap c3) \<le> csize c"
    using full cap1 size maplen_qlen [OF inv1] maplen_qlen [OF inv3]
    by (cases q; force simp: q3 within_capacity_def)+
  have "evicts_at_most clk (level_of q) {k} c c3"
    unfolding evicts_at_most_def
  proof (intro allI impI)
    fix k' assume "k' \<notin> {k}"
    moreover have "needs (vic c) e' (clk (ticks c3)) \<le> level_of q"
      if "needs (vic c) e' (clk (ticks c1)) \<le> level_of q" for e'
      using order_trans [OF needs_antimono that] good_clock_mono [OF clk, of "ticks c1" "ticks c3"] t2 t3
      by simp
    ultimately show "view c3 k' = view c k' \<or> view c3 k' = None
        \<and> (\<exists>e. view c k' = Some e \<and> needs (vic c) e (clk (ticks c3)) \<le> level_of q)"
      using ev1 unfolding evicts_at_most_def v3 by simp blast
  qed
  then show thesis
    using that [OF st inv3 cap3 v3 same_frame_trans [OF sf2 sf3] t3 fits] t1 t2 t3 by simp
qed

lemma cache_set_value:
  assumes clk: "good_clock clk" and inv: "cache_inv c" and cap: "within_capacity c"
    and new: "view c k = None" and d: "0 \<le> d"
  obtains c' n where "cache_set clk k v None d c = Some c'" and "cache_inv c'"
    and "within_capacity c'" and "same_frame c c'" and "ticks c \<le> n" and "ticks c' = Suc n"
    and "view c' k = Some \<lparr>err = None, expireAt = clk n + d, staleUntil = 0, val = v, idx = 0\<rparr>"
    and "evicts_at_most clk evictValue {k} c c'" and "maplen (keymap c') \<le> csize c"
proof -
  obtain c1 where room: "makeRoom clk k evictValue c = Some c1" and t1: "ticks c \<le> ticks c1"
    using makeRoom_ok [OF clk inv] by blast
  let ?e = "\<lparr>err = None, expireAt = clk (ticks c1) + d, staleUntil = 0, val = v, idx = 0\<rparr>"
  have e: "of_kind ValueK ?e" using clk d by (simp add: is_value_def good_clock_def add_pos_nonneg)
  have room': "makeRoom clk k (level_of ValueK) c = Some c1" using room by simp
  from store_after_room [OF clk inv cap new room' disjI2 [OF refl] e] obtain c3 where
      st: "cache_store k ?e (tick c1) = Some c3" and r: "cache_inv c3" "within_capacity c3"
      "view c3 = (view c1)(k \<mapsto> outcome ?e)" "same_frame c c3" "ticks c3 = ticks (tick c1)"
      "maplen (keymap c3) \<le> csize c" "evicts_at_most clk (level_of ValueK) {k} c c3"
    by blast
  have "cache_set clk k v None d c = Some c3" using room st by (simp add: cache_set_def)
  then show thesis
    using that [of c3 "ticks c1"] r t1 by (simp add: outcome_def)
qed

lemma cache_set_err:
  assumes clk: "good_clock clk" and inv: "cache_inv c" and cap: "within_capacity c"
    and new: "view c k = None"
  obtains c' where "cache_set clk k v (Some er) d c = Some c'" and "cache_inv c'"
    and "within_capacity c'" and "same_frame c c'" and "ticks c \<le> ticks c'"
    and "view c' k = Some \<lparr>err = Some er, expireAt = 0, staleUntil = 0, val = v, idx = 0\<rparr>"
    and "evicts_at_most clk evictWorthless {k} c c'"
proof -
  obtain c1 where room: "makeRoom clk k evictWorthless c = Some c1"
    using makeRoom_ok [OF clk inv] by blast
  let ?e = "\<lparr>err = Some er, expireAt = 0, staleUntil = 0, val = v, idx = 0\<rparr>"
  have e: "of_kind ResidueK ?e" by (simp add: is_residue_def)
  have room': "makeRoom clk k (level_of ResidueK) c = Some c1" using room by simp
  from store_after_room [OF clk inv cap new room' disjI1 [OF refl] e] obtain c3 where
      st: "cache_store k ?e c1 = Some c3" and r: "cache_inv c3" "within_capacity c3"
      "view c3 = (view c1)(k \<mapsto> outcome ?e)" "same_frame c c3"
      "evicts_at_most clk (level_of ResidueK) {k} c c3" "ticks c \<le> ticks c3"
    by blast
  have "cache_set clk k v (Some er) d c = Some c3" using room st by (simp add: cache_set_def)
  then show thesis using that [of c3] r by (simp add: outcome_def)
qed

text \<open>The revive of \<^verbatim>\<open>publish\<close>: room is made at the stale level, then the value is stored.\<close>

lemma cache_revive:
  assumes clk: "good_clock clk" and inv: "cache_inv c" and cap: "within_capacity c"
    and new: "view c k = None" and u: "0 < u"
  obtains c1 c' where "makeRoom clk k evictStale c = Some c1"
    and "cache_store k \<lparr>err = None, expireAt = 0, staleUntil = u, val = v, idx = 0\<rparr> c1 = Some c'"
    and "cache_inv c'" and "within_capacity c'" and "same_frame c c'" and "ticks c \<le> ticks c'"
    and "view c' k = Some \<lparr>err = None, expireAt = 0, staleUntil = u, val = v, idx = 0\<rparr>"
    and "evicts_at_most clk evictStale {k} c c'"
proof -
  obtain c1 where room: "makeRoom clk k evictStale c = Some c1"
    using makeRoom_ok [OF clk inv] by blast
  let ?e = "\<lparr>err = None, expireAt = 0, staleUntil = u, val = v, idx = 0\<rparr>"
  have e: "of_kind StaleK ?e" using u by (simp add: is_stale_def)
  have room': "makeRoom clk k (level_of StaleK) c = Some c1" using room by simp
  from store_after_room [OF clk inv cap new room' disjI1 [OF refl] e] obtain c3 where
      st: "cache_store k ?e c1 = Some c3" and r: "cache_inv c3" "within_capacity c3"
      "view c3 = (view c1)(k \<mapsto> outcome ?e)" "same_frame c c3"
      "evicts_at_most clk (level_of StaleK) {k} c c3" "ticks c \<le> ticks c3"
    by blast
  then show thesis using that [OF room st] by (simp add: outcome_def)
qed

section \<open>PurgeExpired\<close>

lemma fold_forget:
  assumes "distinct (map key ns)" and "\<forall>n \<in> set ns. fmlookup m (key n) \<noteq> None"
  shows "fold (\<lambda>n. forget (key n) (item n)) ns (m, j) = (fold (\<lambda>n. fmdrop (key n)) ns m, j + length ns)"
  using assms
proof (induction ns arbitrary: m j)
  case (Cons n ns)
  have "\<forall>n' \<in> set ns. fmlookup (fmdrop (key n) m) (key n') \<noteq> None"
    using Cons.prems by (auto simp: image_iff)
  then show ?case using Cons by (simp add: forget_def)
qed simp

lemma fmlookup_fold_drop:
  "fmlookup (fold (\<lambda>n. fmdrop (key n)) ns m) k = (if k \<in> key ` set ns then None else fmlookup m k)"
  by (induction ns arbitrary: m) auto

lemma purge_sift_ok:
  assumes "pq_ok h q"
  shows "\<exists>fin h' q' rs. purge_sift b now h q s = Some (fin, h', q', fold (\<lambda>n. forget (key n) (item n)) rs s)
     \<and> pq_ok h' q' \<and> mset q = mset rs + mset q' \<and> same_outcome (items q) h h'
     \<and> (\<forall>n \<in> set rs. expired (h (item n)) now)
     \<and> (fin \<longrightarrow> (\<forall>k a. pq_top q' = Some (k, a) \<longrightarrow> \<not> expired (h' a) now))"
  using assms
proof (induction b now h q s rule: purge_sift.induct)
  case (1 now h q s)
  then show ?case by (intro exI [of _ False] exI [of _ h] exI [of _ q] exI [of _ "[]"]) simp
next
  case (2 b now h q s)
  show ?case
  proof (cases "\<exists>k a. pq_top q = Some (k, a) \<and> expired (h a) now")
    case False
    then have "purge_sift (Suc b) now h q s = Some (True, h, q, s)"
      by (auto split: option.splits)
    then show ?thesis using 2(2) False
      by (intro exI [of _ True] exI [of _ h] exI [of _ q] exI [of _ "[]"]) auto
  next
    case True
    then obtain k a where t: "pq_top q = Some (k, a)" and x: "expired (h a) now" by blast
    let ?n = "\<lparr>item = a, key = k\<rparr>"
    have n: "?n \<in> set q" using pq_top_least(1) [OF 2(2) t] .
    from pq_remove_ok [OF 2(2) n, of a] obtain h1 q1 where r: "pq_remove h q a = Some (h1, q1)"
        "pq_ok h1 q1" "mset q1 = mset q - {#?n#}" "same_outcome (items q) h h1" by auto
    from "2.IH" [OF t refl _ refl r(1) refl r(2)] x obtain fin h' q' rs where ih:
        "purge_sift b now h1 q1 (forget k a s) = Some (fin, h', q', fold (\<lambda>n. forget (key n) (item n)) rs (forget k a s))"
        "pq_ok h' q'" "mset q1 = mset rs + mset q'" "same_outcome (items q1) h1 h'"
        "\<forall>n \<in> set rs. expired (h1 (item n)) now"
        "fin \<longrightarrow> (\<forall>k a. pq_top q' = Some (k, a) \<longrightarrow> \<not> expired (h' a) now)"
      by auto
    have "set q1 \<subseteq> set q" using r(3) by (metis in_diffD set_mset_mset subsetI)
    then have "same_outcome (items q) h h'"
      using same_outcome_trans [OF r(4) same_outcome_mono [OF ih(4)]] by blast
    moreover have "mset q = mset (?n # rs) + mset q'" using r(3) ih(3) n by simp
    moreover have "\<forall>n \<in> set (?n # rs). expired (h (item n)) now"
      using x ih(5) same_outcome_preds(2) [OF r(4)] by simp
    moreover have "purge_sift (Suc b) now h q s =
        Some (fin, h', q', fold (\<lambda>n. forget (key n) (item n)) (?n # rs) s)"
      using t x r(1) ih(1) by simp
    ultimately show ?thesis using ih(2,6) by blast
  qed
qed

lemma mset_filter_split: "mset (filter P xs) + mset (filter (\<lambda>x. \<not> P x) xs) = mset xs"
  by (induction xs) auto

lemma heads_not_expired:
  assumes ok: "pq_ok h q" and plain: "\<forall>n \<in> set q. \<not> revived (h (item n))"
    and top: "\<forall>k a. pq_top q = Some (k, a) \<longrightarrow> \<not> expired (h a) now" and n: "n \<in> set q"
  shows "\<not> expired (h (item n)) now"
proof -
  obtain k a where t: "pq_top q = Some (k, a)"
    using n by (cases q) (auto simp: pq_top_def)
  have a: "\<lparr>item = a, key = k\<rparr> \<in> set q" and le: "deadline (h a) \<le> deadline (h (item n))"
    using pq_top_least [OF ok t] n by blast+
  have "\<not> revived (h a)" "\<not> revived (h (item n))" using plain a n by fastforce+
  then have "expireAt (h a) \<le> expireAt (h (item n))" using le by (simp add: deadline_def)
  then show ?thesis using top t by (auto simp: expired_def)
qed

text \<open>Sifting and rebuilding remove the same entries: exactly the expired ones.\<close>

lemma purgeValues_ok:
  assumes ok: "pq_ok h q" and plain: "\<forall>n \<in> set q. \<not> revived (h (item n))"
  obtains h' q' rs where
    "purgeValues now h q s = Some (h', q', fold (\<lambda>n. forget (key n) (item n)) rs s)"
    and "pq_ok h' q'" and "mset q = mset rs + mset q'" and "same_outcome (items q) h h'"
    and "\<forall>n \<in> set rs. expired (h (item n)) now" and "\<forall>n \<in> set q'. \<not> expired (h (item n)) now"
proof -
  let ?f = "\<lambda>n. forget (key n) (item n)"
  from purge_sift_ok [OF ok, of "length q div bulkPurgeRatio + 1" now s] obtain fin h1 q1 rs1 where
    s1: "purge_sift (length q div bulkPurgeRatio + 1) now h q s = Some (fin, h1, q1, fold ?f rs1 s)"
    and ok1: "pq_ok h1 q1" and m1: "mset q = mset rs1 + mset q1" and so1: "same_outcome (items q) h h1"
    and e1: "\<forall>n \<in> set rs1. expired (h (item n)) now"
    and t1: "fin \<longrightarrow> (\<forall>k a. pq_top q1 = Some (k, a) \<longrightarrow> \<not> expired (h1 a) now)" by blast
  note pr1 = same_outcome_preds [OF so1]
  have sub: "set q1 \<subseteq> set q" using m1 by (metis set_mset_mset set_mset_union sup_ge2)
  then have plain1: "\<forall>n \<in> set q1. \<not> revived (h1 (item n))" using plain pr1(3) by auto
  show thesis
  proof (cases "\<exists>k a. pq_top q1 = Some (k, a) \<and> expired (h1 a) now")
    case False
    then have "\<forall>n \<in> set q1. \<not> expired (h (item n)) now"
      using heads_not_expired [OF ok1 plain1, unfolded pr1(2), of now]
      unfolding pr1(2) by blast
    moreover have "purgeValues now h q s = Some (h1, q1, fold ?f rs1 s)"
      using s1 False by (auto simp: purgeValues_def split: option.splits)
    ultimately show thesis using that ok1 m1 so1 e1 by blast
  next
    case True
    then obtain k a where t: "pq_top q1 = Some (k, a)" "expired (h1 a) now" and "\<not> fin"
      using t1 by blast
    obtain s2 h2 q2 where p: "pq_partition (\<lambda>e. expired e now) forget h1 q1 (fold ?f rs1 s) = (s2, h2, q2)"
      by (cases "pq_partition (\<lambda>e. expired e now) forget h1 q1 (fold ?f rs1 s)") auto
    note po = pq_partition_ok [OF ok1 p]
    let ?rs2 = "filter (\<lambda>n. expired (h1 (item n)) now) q1"
    have "purgeValues now h q s = Some (h2, q2, fold ?f (rs1 @ ?rs2) s)"
      using s1 t p \<open>\<not> fin\<close> po(4) by (simp add: purgeValues_def)
    moreover have "same_outcome (items q) h h2"
      using same_outcome_trans [OF so1 same_outcome_mono [OF po(3)]] sub by blast
    moreover have "mset q = mset (rs1 @ ?rs2) + mset q2"
      using m1 po(2) mset_filter_split [of "\<lambda>n. expired (h1 (item n)) now" q1]
      by (metis (no_types, lifting) add.assoc mset_append)
    moreover have "\<forall>n \<in> set (rs1 @ ?rs2). expired (h (item n)) now" using e1 pr1(2) by auto
    moreover have "set q2 = set (filter (\<lambda>n. \<not> expired (h1 (item n)) now) q1)"
      using po(2) by (metis set_mset_mset)
    then have "\<forall>n \<in> set q2. \<not> expired (h (item n)) now" using pr1(2) by simp
    ultimately show thesis using that po(1) by blast
  qed
qed

definition purged_view :: "gotime \<Rightarrow> ('k \<Rightarrow> ('v, 'e) entry option) \<Rightarrow> 'k \<Rightarrow> ('v, 'e) entry option" where
  "purged_view now m k =
     (case m k of None \<Rightarrow> None | Some e \<Rightarrow> if expired e now then None else Some e)"

lemma inj_key:
  assumes "cache_inv c"
  shows "inj_on key (set (allq (vic c)))" and "n \<in> set (allq (vic c)) \<Longrightarrow> fmlookup (keymap c) (key n) = Some (item n)"
proof -
  have look: "fmlookup (keymap c) (key n) = Some (item n)" if "n \<in> set (allq (vic c))" for n
  proof -
    have "n = \<lparr>item = item n, key = key n\<rparr>" by simp
    then show ?thesis using assms that unfolding cache_inv_def by metis
  qed
  then show "n \<in> set (allq (vic c)) \<Longrightarrow> fmlookup (keymap c) (key n) = Some (item n)" .
  show "inj_on key (set (allq (vic c)))"
  proof (rule inj_onI)
    fix x y assume "x \<in> set (allq (vic c))" "y \<in> set (allq (vic c))" "key x = key y"
    then have "item x = item y" using look by (metis option.inject)
    then show "x = y" using \<open>key x = key y\<close> by simp
  qed
qed

lemma PurgeExpired_ok:
  assumes clk: "good_clock clk" and inv: "cache_inv c"
  obtains n c' where "PurgeExpired clk c = Some (n, c')" and "cache_inv c'" and "same_frame c c'"
    and "view c' = purged_view (clk (ticks c)) (view c)"
    and "n + maplen (keymap c') = maplen (keymap c)"
    and "\<forall>q. qlen c' q \<le> qlen c q" and "ticks c' = Suc (ticks c)"
proof -
  let ?now = "clk (ticks c)" and ?f = "\<lambda>n. forget (key n) (item n)" and ?h = "store c" and ?v = "vic c"
  have now: "0 \<le> ?now" using clk by (rule good_clock_nonneg)
  have vals: "pq_ok ?h (values ?v)" "\<forall>n \<in> set (values ?v). is_value (?h (item n))"
    using inv by (auto simp: cache_inv_def)
  then have plain: "\<forall>n \<in> set (values ?v). \<not> revived (?h (item n))" by (auto simp: kind_defs)
  define s0 where "s0 = fold ?f (stale ?v) (fold ?f (residue ?v) (keymap c, 0))"
  obtain h' q' rs where pv: "purgeValues ?now ?h (values ?v) s0 = Some (h', q', fold ?f rs s0)"
    and ok': "pq_ok h' q'" and m: "mset (values ?v) = mset rs + mset q'"
    and so: "same_outcome (items (values ?v)) ?h h'"
    and ex: "\<forall>n \<in> set rs. expired (?h (item n)) ?now"
    and live: "\<forall>n \<in> set q'. \<not> expired (?h (item n)) ?now"
    by (rule purgeValues_ok [OF vals(1) plain])
  define gone where "gone = residue ?v @ stale ?v @ rs"
  have ms: "mset gone + mset q' = mset (allq ?v)" using m by (simp add: allq_def gone_def)
  then have sets: "set gone \<union> set q' = set (allq ?v)" by (metis set_mset_mset set_mset_union)
  have "distinct (allq ?v)" using inv by (simp add: cache_inv_def distinct_map)
  moreover have "mset (gone @ q') = mset (allq ?v)" using ms by (simp only: mset_append)
  ultimately have dist: "distinct (gone @ q')" using mset_eq_imp_distinct_iff by blast
  have keys: "distinct (map key gone)"
    using dist inj_on_subset [OF inj_key(1) [OF inv]] sets by (auto simp: distinct_map)
  have present: "\<forall>n \<in> set gone. fmlookup (keymap c) (key n) \<noteq> None"
    using inj_key(2) [OF inv] sets by (metis UnI1 option.distinct(1))
  define km where "km = fold (\<lambda>n. fmdrop (key n)) gone (keymap c)"
  define c' where "c' = tick (c\<lparr>keymap := km, store := h',
      vic := ?v\<lparr>values := q', stale := [], residue := []\<rparr>\<rparr>)"
  have "fold ?f rs s0 = (km, length gone)"
    using fold_forget [OF keys present, of 0] by (simp add: s0_def km_def gone_def)
  then have res: "PurgeExpired clk c = Some (length gone, c')"
    using pv by (simp add: PurgeExpired_def pq_drain_def c'_def s0_def Let_def)
  have expired_gone: "expired (?h (item n)) ?now" if "n \<in> set gone" for n
    using that ex now inv by (auto simp: gone_def cache_inv_def is_residue_def is_stale_def expired_def)
  have lookup: "fmlookup km k = Some a \<longleftrightarrow> \<lparr>item = a, key = k\<rparr> \<in> set q'" for k a
  proof
    assume "fmlookup km k = Some a"
    then have "k \<notin> key ` set gone" "fmlookup (keymap c) k = Some a"
      unfolding km_def fmlookup_fold_drop by (metis option.distinct(1))+
    moreover from this have "\<lparr>item = a, key = k\<rparr> \<in> set (allq ?v)"
      using inv unfolding cache_inv_def by blast
    ultimately show "\<lparr>item = a, key = k\<rparr> \<in> set q'" using sets by (metis UnE image_eqI pnode.simps(2))
  next
    assume q: "\<lparr>item = a, key = k\<rparr> \<in> set q'"
    then have n: "\<lparr>item = a, key = k\<rparr> \<in> set (allq ?v)" "\<lparr>item = a, key = k\<rparr> \<notin> set gone"
      using sets dist by auto
    have "k \<notin> key ` set gone"
    proof
      assume "k \<in> key ` set gone"
      then obtain m where m: "m \<in> set gone" "key m = k" by blast
      then have "m = \<lparr>item = a, key = k\<rparr>"
        using inj_onD [OF inj_key(1) [OF inv], of m "\<lparr>item = a, key = k\<rparr>"] n(1) sets by auto
      then show False using m n(2) by blast
    qed
    moreover have "fmlookup (keymap c) k = Some a" using n(1) inv unfolding cache_inv_def by blast
    ultimately show "fmlookup km k = Some a" unfolding km_def fmlookup_fold_drop by simp
  qed
  have inv': "cache_inv c'"
  proof -
    have "set q' \<subseteq> set (values ?v)" using m by (metis set_mset_mset set_mset_union sup_ge2)
    then have "\<forall>n \<in> set q'. of_kind ValueK (h' (item n)) \<and> item n < nextAddr c"
      using inv unfolding cache_inv_kinds same_outcome_kind(1) [OF so] by (metis getq.simps(1) subsetD)
    then show ?thesis
      using ok' lookup inv unfolding cache_inv_kinds by (simp add: c'_def all_kind ex_kind)
  qed
  have vw: "view c' k = purged_view ?now (view c) k" for k
  proof (cases "fmlookup (keymap c) k")
    case None
    then have "fmlookup km k = None" by (simp add: km_def fmlookup_fold_drop)
    then show ?thesis using None by (simp add: c'_def view_def purged_view_def)
  next
    case (Some a)
    then have n: "\<lparr>item = a, key = k\<rparr> \<in> set gone \<union> set q'" using inv sets unfolding cache_inv_def by blast
    show ?thesis
    proof (cases "\<lparr>item = a, key = k\<rparr> \<in> set q'")
      case True
      then have "fmlookup km k = Some a" "\<not> expired (?h a) ?now" using lookup live by fastforce+
      then show ?thesis
        using Some same_outcome_kind(3) [OF so] by (simp add: c'_def view_def purged_view_def)
    next
      case False
      then have "expired (?h a) ?now" "k \<in> key ` set gone"
        using n expired_gone [of "\<lparr>item = a, key = k\<rparr>"] by (simp, metis UnE image_eqI pnode.simps(2))
      then have "fmlookup km k = None" "purged_view ?now (view c) k = None"
        using Some by (simp_all add: km_def fmlookup_fold_drop view_def purged_view_def)
      then show ?thesis by (simp add: c'_def view_def)
    qed
  qed
  have len: "length gone + length q' = length (allq ?v)" using ms by (metis size_mset size_union)
  have "length q' \<le> length (values ?v)" using m by (metis le_add2 size_mset size_union)
  then have ql: "\<forall>q. qlen c' q \<le> qlen c q" by (simp add: all_kind qlen_def c'_def)
  have "length gone + maplen (keymap c') = maplen (keymap c)"
    using len maplen_qlen [OF inv] maplen_qlen [OF inv']
    by (simp add: qlen_def allq_def c'_def)
  then show thesis
    using that [OF res inv' _ _ _ ql] vw by (simp add: fun_eq_iff same_frame_def c'_def)
qed

end
