(* ===== verification/SF_Flight.thy ===== *)
theory SF_Flight
  imports SF_Capacity
begin

text \<open>
  Single flight and concurrency of \<^verbatim>\<open>pkg/sfcache\<close> (\<^verbatim>\<open>flight.go\<close>, \<^verbatim>\<open>lookup.go\<close>, and
  \<^verbatim>\<open>Remove\<close>, \<^verbatim>\<open>Reset\<close> and \<^verbatim>\<open>PurgeExpired\<close> of \<^verbatim>\<open>sfcache.go\<close> as callers see them).

  The critical sections are functions on the cache. Goroutines are program counters, and a
  step relation interleaves them: each critical section is one step, as the mutex makes
  it, and everything done outside the lock (reading the context, running the lookup
  function, closing a flight's channel) is a step of its own. What the lookup function
  returns, whether it or the TTL function panics, and when a context ends are choices of
  the environment. The lookup function is assumed not to call \<^verbatim>\<open>Lookup\<close> for its own key,
  which the documentation excludes.

  A ghost field records what lookups returned for which key, so that the values served
  can be traced to them.
\<close>

section \<open>The critical sections\<close>

definition fresh ::
    "(nat \<Rightarrow> gotime) \<Rightarrow> 'k \<Rightarrow> ('k, 'v, 'e) cache
       \<Rightarrow> ('v \<times> 'e option) option \<times> ('k, 'v, 'e) cache" where
  "fresh clk k c =
     (case fmlookup (keymap c) k of
        None \<Rightarrow> (None, c)
      | Some a \<Rightarrow>
         (let e = store c a in
          (if usable (clk (ticks c)) e False then Some (val e, err e) else None, tick c)))"

text \<open>
  \<^verbatim>\<open>startFlight\<close>, called by \<^verbatim>\<open>fetch\<close> with the write lock already held.
\<close>

definition startFlight ::
    "'k \<Rightarrow> nat \<Rightarrow> ('k, 'v, 'e) cache \<Rightarrow> ('v staleState option \<times> ('k, 'v, 'e) cache) option" where
  "startFlight k fl c =
     (let st = staleFrom c (fmlookup (keymap c) k)
      in do { (_, c1) \<leftarrow> cache_drop k c;
              Some (st, c1\<lparr>flights := fmupd k fl (flights c1)\<rparr>) })"

definition abortFlight :: "'k \<Rightarrow> nat \<Rightarrow> ('k, 'v, 'e) cache \<Rightarrow> ('k, 'v, 'e) cache" where
  "abortFlight k fl c =
     (if fmlookup (flights c) k = Some fl then c\<lparr>flights := fmdrop k (flights c)\<rparr> else c)"

text \<open>
  What the locked part of the loop in \<^verbatim>\<open>lookupSlow\<close> decides: return an entry, wait for a
  flight, or call \<^verbatim>\<open>start\<close>.
\<close>

datatype ('v, 'e) decision = Hit 'v "'e option" | Join nat | Start

definition lookupSlow ::
    "(nat \<Rightarrow> gotime) \<Rightarrow> 'k \<Rightarrow> bool \<Rightarrow> ('k, 'v, 'e) cache
       \<Rightarrow> ('v, 'e) decision \<times> ('k, 'v, 'e) cache" where
  "lookupSlow clk k waited c =
     (let otherwise = (\<lambda>c. (case fmlookup (flights c) k of Some fl \<Rightarrow> Join fl | None \<Rightarrow> Start, c))
      in case fmlookup (keymap c) k of
           None \<Rightarrow> otherwise c
         | Some a \<Rightarrow>
            (let e = store c a; c' = (if waited then c else tick c)
             in if usable (clk (ticks c)) e waited then (Hit (val e) (err e), c')
                else otherwise c'))"

definition publish ::
    "(nat \<Rightarrow> gotime) \<Rightarrow> 'k \<Rightarrow> nat \<Rightarrow> 'v \<Rightarrow> 'e option \<Rightarrow> 'v staleState option \<Rightarrow> bool \<Rightarrow> duration
       \<Rightarrow> ('k, 'v, 'e) cache \<Rightarrow> (('v \<times> 'e option) \<times> ('k, 'v, 'e) cache) option" where
  "publish clk k fl v er st ctxInduced d c =
     (if fmlookup (flights c) k \<noteq> Some fl then Some ((v, er), c)
      else
        (let c1 = c\<lparr>flights := fmdrop k (flights c)\<rparr>
         in if er = None then do { c' \<leftarrow> cache_set clk k v None d c1; Some ((v, None), c') }
            else
              (case staleDeadline clk st c1 of
                 (Some u, c2) \<Rightarrow>
                   do { c3 \<leftarrow> makeRoom clk k evictStale c2;
                        let w = staleVal (the st);
                        c4 \<leftarrow> cache_store k
                               \<lparr>err = None, expireAt = 0, staleUntil = u, val = w, idx = 0\<rparr> c3;
                        Some ((w, None), c4) }
               | (None, c2) \<Rightarrow>
                   (if ctxInduced then Some ((v, er), c2)
                    else do { c' \<leftarrow> cache_set clk k v er 0 c2; Some ((v, er), c') }))))"

section \<open>Goroutines\<close>

datatype ('v, 'e) result = Returned 'v "'e option" | Aborted 'e | InvalidKey | Panicked

text \<open>
  Where a goroutine is. \<open>Ask\<close> is before the reading of \<^verbatim>\<open>ctx.Err()\<close> in \<^verbatim>\<open>lookupSlow\<close>,
  \<open>Slow\<close> before its \<^verbatim>\<open>c.mux.Lock()\<close>; \<open>Fetching\<close> runs the lookup function; \<open>Publishing\<close> and
  \<open>Unwinding\<close> are before the lock of \<^verbatim>\<open>publish\<close> and of \<^verbatim>\<open>abortFlight\<close>; \<open>Finishing\<close> is the
  deferred \<^verbatim>\<open>fl.finish()\<close>; \<open>Invalidating\<close> is the tail of \<^verbatim>\<open>Remove\<close> and \<^verbatim>\<open>Reset\<close>.
\<close>

datatype ('k, 'v, 'e) proc =
    Idle
  | Fast 'k
  | Ask 'k bool
  | Slow 'k bool "'e option"
  | Awaiting 'k nat
  | Fetching 'k nat "'v staleState option"
  | Publishing 'k nat 'v "'e option" "'v staleState option" bool duration
  | Unwinding 'k nat
  | Finishing 'k nat "('v, 'e) result"
  | Invalidating "nat list"
  | Done 'k "('v, 'e) result"

record ('k, 'v, 'e) sys =
  cch :: "('k, 'v, 'e) cache"
  closed :: "nat set"
  nextFlight :: nat
  procs :: "nat \<Rightarrow> ('k, 'v, 'e) proc"
  ctxErr :: "nat \<Rightarrow> 'e option"
  log :: "('k \<times> 'v \<times> 'e option) set"

definition goto :: "nat \<Rightarrow> ('k, 'v, 'e) proc \<Rightarrow> ('k, 'v, 'e) sys \<Rightarrow> ('k, 'v, 'e) sys" where
  "goto p pc s = s\<lparr>procs := (procs s)(p := pc)\<rparr>"

definition at_rest :: "('k, 'v, 'e) proc \<Rightarrow> bool" where
  "at_rest pc \<longleftrightarrow> (case pc of Idle \<Rightarrow> True | Done _ _ \<Rightarrow> True | _ \<Rightarrow> False)"

text \<open>
  One step of goroutine \<open>p\<close>. \<open>nan\<close> tells the keys that are not equal to themselves;
  \<open>isErr\<close> is \<^verbatim>\<open>errors.Is\<close> on two errors. An operation that panics has no step: that none
  does is proved below.
\<close>

text \<open>
  A critical section that would panic is \<open>None\<close> and has no step. That none of them does, in any
  reachable state, is shown in \<^verbatim>\<open>SF_Props\<close> for \<^verbatim>\<open>Remove\<close>, \<^verbatim>\<open>PurgeExpired\<close>, \<^verbatim>\<open>startFlight\<close> and
  \<^verbatim>\<open>publish\<close>; the other sections cannot panic.
\<close>

inductive step ::
    "(nat \<Rightarrow> gotime) \<Rightarrow> ('k \<Rightarrow> bool) \<Rightarrow> ('e \<Rightarrow> 'e \<Rightarrow> bool) \<Rightarrow> nat
       \<Rightarrow> ('k, 'v, 'e) sys \<Rightarrow> ('k, 'v, 'e) sys \<Rightarrow> bool"
  for clk :: "nat \<Rightarrow> gotime" and nan :: "'k \<Rightarrow> bool" and isErr :: "'e \<Rightarrow> 'e \<Rightarrow> bool" and p :: nat
  where
    call: "at_rest (procs s p) \<Longrightarrow>
      step clk nan isErr p s
        (goto p (if nan k then Done k InvalidKey else Fast k) (s\<lparr>ctxErr := (ctxErr s)(p := ce)\<rparr>))"
  | ctx_ends: "ctxErr s p = None \<Longrightarrow>
      step clk nan isErr p s (s\<lparr>ctxErr := (ctxErr s)(p := Some e)\<rparr>)"
  | fast: "procs s p = Fast k \<Longrightarrow> fresh clk k (cch s) = (r, c) \<Longrightarrow>
      step clk nan isErr p s
        (goto p (case r of Some (v, er) \<Rightarrow> Done k (Returned v er) | None \<Rightarrow> Ask k False)
           (s\<lparr>cch := c\<rparr>))"
  | ask: "procs s p = Ask k waited \<Longrightarrow>
      step clk nan isErr p s (goto p (Slow k waited (ctxErr s p)) s)"
  | slow_hit: "procs s p = Slow k waited ce \<Longrightarrow> lookupSlow clk k waited (cch s) = (Hit v er, c) \<Longrightarrow>
      step clk nan isErr p s (goto p (Done k (Returned v er)) (s\<lparr>cch := c\<rparr>))"
  | slow_join: "procs s p = Slow k waited ce \<Longrightarrow> lookupSlow clk k waited (cch s) = (Join fl, c) \<Longrightarrow>
      step clk nan isErr p s (goto p (Awaiting k fl) (s\<lparr>cch := c\<rparr>))"
  | slow_abort: "procs s p = Slow k waited (Some e) \<Longrightarrow>
      lookupSlow clk k waited (cch s) = (Start, c) \<Longrightarrow>
      step clk nan isErr p s (goto p (Done k (Aborted e)) (s\<lparr>cch := c\<rparr>))"
  | slow_start: "procs s p = Slow k waited None \<Longrightarrow>
      lookupSlow clk k waited (cch s) = (Start, c) \<Longrightarrow>
      startFlight k (nextFlight s) c = Some (st, c') \<Longrightarrow>
      step clk nan isErr p s
        (goto p (Fetching k (nextFlight s) st) (s\<lparr>cch := c', nextFlight := Suc (nextFlight s)\<rparr>))"
  | await_done: "procs s p = Awaiting k fl \<Longrightarrow> fl \<in> closed s \<Longrightarrow>
      step clk nan isErr p s (goto p (Ask k True) s)"
  | await_ctx: "procs s p = Awaiting k fl \<Longrightarrow> ctxErr s p = Some e \<Longrightarrow>
      step clk nan isErr p s (goto p (Done k (Aborted e)) s)"
  | lookup_returns: "procs s p = Fetching k fl st \<Longrightarrow>
      ctxInduced = (case er of None \<Rightarrow> False
                     | Some e \<Rightarrow> (case ctxErr s p of None \<Rightarrow> False | Some t \<Rightarrow> isErr e t)) \<Longrightarrow>
      d = (if er = None then entryTTL (cch s) k v else 0) \<Longrightarrow>
      step clk nan isErr p s
        (goto p (Publishing k fl v er st ctxInduced d) (s\<lparr>log := insert (k, v, er) (log s)\<rparr>))"
  | lookup_panics: "procs s p = Fetching k fl st \<Longrightarrow>
      step clk nan isErr p s (goto p (Unwinding k fl) s)"
  | publish: "procs s p = Publishing k fl v er st ctxInduced d \<Longrightarrow>
      publish clk k fl v er st ctxInduced d (cch s) = Some ((v', er'), c) \<Longrightarrow>
      step clk nan isErr p s (goto p (Finishing k fl (Returned v' er')) (s\<lparr>cch := c\<rparr>))"
  | unwind: "procs s p = Unwinding k fl \<Longrightarrow>
      step clk nan isErr p s
        (goto p (Finishing k fl Panicked) (s\<lparr>cch := abortFlight k fl (cch s)\<rparr>))"
  | finish: "procs s p = Finishing k fl r \<Longrightarrow>
      step clk nan isErr p s (goto p (Done k r) (s\<lparr>closed := insert fl (closed s)\<rparr>))"
  | remove: "at_rest (procs s p) \<Longrightarrow> removeLocked k (cch s) = Some (fl, c) \<Longrightarrow>
      step clk nan isErr p s
        (goto p (Invalidating (case fl of None \<Rightarrow> [] | Some fl \<Rightarrow> [fl])) (s\<lparr>cch := c\<rparr>))"
  | reset: "at_rest (procs s p) \<Longrightarrow> resetLocked (cch s) = (fls, c) \<Longrightarrow>
      set xs = fset (fmran fls) \<Longrightarrow>
      step clk nan isErr p s (goto p (Invalidating xs) (s\<lparr>cch := c\<rparr>))"
  | invalidate: "procs s p = Invalidating (fl # fls) \<Longrightarrow>
      step clk nan isErr p s (goto p (Invalidating fls) (s\<lparr>closed := insert fl (closed s)\<rparr>))"
  | invalidated: "procs s p = Invalidating [] \<Longrightarrow> step clk nan isErr p s (goto p Idle s)"
  | purge: "at_rest (procs s p) \<Longrightarrow> PurgeExpired clk (cch s) = Some (n, c) \<Longrightarrow>
      step clk nan isErr p s (goto p Idle (s\<lparr>cch := c\<rparr>))"

definition init_sys ::
    "config \<Rightarrow> ('k \<Rightarrow> 'v \<Rightarrow> duration) option \<Rightarrow> ('v, 'e) store \<Rightarrow> ('k, 'v, 'e) sys" where
  "init_sys cfg fn h0 =
     \<lparr>cch = new_cache cfg fn h0, closed = {}, nextFlight = 0, procs = (\<lambda>_. Idle),
      ctxErr = (\<lambda>_. None), log = {}\<rparr>"

inductive reachable ::
    "(nat \<Rightarrow> gotime) \<Rightarrow> ('k \<Rightarrow> bool) \<Rightarrow> ('e \<Rightarrow> 'e \<Rightarrow> bool) \<Rightarrow> ('k, 'v, 'e) sys \<Rightarrow> bool"
  for clk nan isErr
  where
    init: "reachable clk nan isErr (init_sys cfg fn h0)"
  | step: "reachable clk nan isErr s \<Longrightarrow> step clk nan isErr p s s' \<Longrightarrow> reachable clk nan isErr s'"

section \<open>What the critical sections do\<close>

text \<open>The invariant of the cache with its flights: a key is never in both maps.\<close>

definition flights_ok :: "('k, 'v, 'e) cache \<Rightarrow> bool" where
  "flights_ok c \<longleftrightarrow> cache_inv c \<and> within_capacity c
     \<and> (\<forall>k. fmlookup (flights c) k \<noteq> None \<longrightarrow> view c k = None)"

lemma flights_okD:
  "flights_ok c \<Longrightarrow> cache_inv c" "flights_ok c \<Longrightarrow> within_capacity c"
  "flights_ok c \<Longrightarrow> fmlookup (flights c) k = Some fl \<Longrightarrow> view c k = None"
  by (auto simp: flights_ok_def)

lemma flights_ok_tick [simp]: "flights_ok (tick c) = flights_ok c"
  by (simp add: flights_ok_def)

lemma fl_upd_simps [simp]:
  "cache_inv (c\<lparr>flights := f\<rparr>) = cache_inv c" "within_capacity (c\<lparr>flights := f\<rparr>) = within_capacity c"
  "view (c\<lparr>flights := f\<rparr>) = view c"
  by (auto simp: cache_inv_def within_capacity_def qlen_def view_def fun_eq_iff)

lemma view_lookup: "fmlookup (keymap c) k = Some a \<Longrightarrow> view c k = Some (outcome (store c a))"
  by (simp add: view_def)

lemma fresh_ok:
  assumes "fresh clk k c = (r, c')"
  shows "c' = c \<or> c' = tick c"
    and "r = Some (v, er) \<Longrightarrow> \<exists>e. view c k = Some e \<and> v = val e \<and> er = err e \<and> clk (ticks c) < expireAt e"
  using assms by (auto simp: fresh_def Let_def usable_def view_def split: option.splits if_splits)

lemma lookupSlow_ok:
  assumes "lookupSlow clk k waited c = (r, c')"
  shows "c' = c \<or> c' = tick c"
    and "r = Hit v er \<Longrightarrow> \<exists>e. view c k = Some e \<and> v = val e \<and> er = err e
           \<and> (waited \<or> clk (ticks c) < expireAt e)"
    and "r = Join fl \<Longrightarrow> fmlookup (flights c) k = Some fl"
    and "r = Start \<Longrightarrow> fmlookup (flights c) k = None"
  using assms
  by (auto simp: lookupSlow_def Let_def usable_def view_def split: option.splits if_splits)

lemma staleFrom_ok:
  assumes "staleFrom c (fmlookup (keymap c) k) = Some s"
  shows "\<exists>e. view c k = Some e \<and> err e = None \<and> staleVal s = val e"
  using assms
  by (auto simp: staleFrom_def Let_def view_def split: option.splits if_splits)

lemma flights_ok_less:
  assumes ok: "flights_ok c" and inv: "cache_inv c'" and cap: "within_capacity c'"
    and v: "\<And>k. view c' k = view c k \<or> view c' k = None"
    and f: "\<And>k fl. fmlookup (flights c') k = Some fl \<Longrightarrow> fmlookup (flights c) k = Some fl"
  shows "flights_ok c'"
  unfolding flights_ok_def
proof (intro conjI inv cap allI impI)
  fix k assume "fmlookup (flights c') k \<noteq> None"
  then have "view c k = None" using f flights_okD(3) [OF ok] by blast
  then show "view c' k = None" using v [of k] by simp
qed

lemma drop_flights_ok:
  assumes ok: "flights_ok c"
  obtains c' where "cache_drop k c = Some (view c k \<noteq> None, c')" and "flights_ok c'"
    and "view c' = (view c)(k := None)" and "same_frame c c'"
proof -
  from cache_drop_ok [OF flights_okD(1) [OF ok], of k] obtain c' where c':
      "cache_drop k c = Some (view c k \<noteq> None, c')" "cache_inv c'" "view c' = (view c)(k := None)"
      "same_frame c c'" "\<And>q. qlen c' q + of_bool (kindAt c k = Some q) = qlen c q"
    by metis
  have "\<forall>q. qlen c' q \<le> qlen c q" using c'(5) by (metis le_add1)
  then have "within_capacity c'" using within_capacity_le [OF flights_okD(2) [OF ok] c'(4)] by blast
  moreover have "fmlookup (flights c') = fmlookup (flights c)" using c'(4) by (simp add: same_frame_def)
  ultimately have "flights_ok c'" using c'(2,3) by (intro flights_ok_less [OF ok]) auto
  then show thesis using that c' by blast
qed

lemma startFlight_ok:
  assumes ok: "flights_ok c"
  obtains st c' where "startFlight k fl c = Some (st, c')" and "flights_ok c'"
    and "view c' = (view c)(k := None)" and "flights c' = fmupd k fl (flights c)"
    and "\<And>s. st = Some s \<Longrightarrow> \<exists>e. view c k = Some e \<and> err e = None \<and> staleVal s = val e"
    and "csize c' = csize c"
proof -
  from drop_flights_ok [OF ok, of k] obtain c1 where c1: "cache_drop k c = Some (view c k \<noteq> None, c1)"
      "flights_ok c1" "view c1 = (view c)(k := None)" "same_frame c c1" by blast
  have f: "flights c1 = flights c" using c1(4) by (simp add: same_frame_def)
  let ?c = "c1\<lparr>flights := fmupd k fl (flights c1)\<rparr>"
  have "flights_ok ?c" using c1(2,3) by (auto simp: flights_ok_def f)
  then show thesis
    using that [of "staleFrom c (fmlookup (keymap c) k)" ?c] c1 f staleFrom_ok [of c k]
    by (auto simp: startFlight_def same_frame_def)
qed

lemma abortFlight_ok:
  assumes ok: "flights_ok c"
  shows "flights_ok (abortFlight k fl c)" and "view (abortFlight k fl c) = view c"
    and "fmlookup (flights (abortFlight k fl c)) k' = Some fl' \<longleftrightarrow>
           fmlookup (flights c) k' = Some fl' \<and> (k', fl') \<noteq> (k, fl)"
    and "csize (abortFlight k fl c) = csize c"
  using ok by (auto simp: abortFlight_def flights_ok_def)

lemma removeLocked_ok:
  assumes ok: "flights_ok c"
  obtains c' where "removeLocked k c = Some (fmlookup (flights c) k, c')" and "flights_ok c'"
    and "view c' = (view c)(k := None)" and "flights c' = fmdrop k (flights c)" and "csize c' = csize c"
proof -
  from drop_flights_ok [OF ok, of k] obtain c1 where c1: "cache_drop k c = Some (view c k \<noteq> None, c1)"
      "flights_ok c1" "view c1 = (view c)(k := None)" "same_frame c c1" by blast
  have f: "flights c1 = flights c" using c1(4) by (simp add: same_frame_def)
  let ?c = "c1\<lparr>flights := fmdrop k (flights c)\<rparr>"
  have fo: "flights_ok ?c" using c1(2,3) by (auto simp: flights_ok_def f)
  have idem: "c1\<lparr>flights := fmdrop k (flights c)\<rparr> = c1" if "fmlookup (flights c) k = None"
    using that f by (simp add: fmdrop_idle fmdom_notI)
  have "removeLocked k c = Some (fmlookup (flights c) k, ?c)"
    using c1(1) f idem by (auto simp: removeLocked_def split: option.splits)
  then show thesis using that [OF _ fo] c1(3,4) by (simp add: same_frame_def)
qed

lemma resetLocked_ok:
  assumes ok: "flights_ok c" and r: "resetLocked c = (fls, c')"
  shows "fls = flights c" and "flights_ok c'" and "view c' = (\<lambda>_. None)" and "flights c' = fmempty"
    and "csize c' = csize c"
  using ok r
  by (auto simp: resetLocked_def flights_ok_def cache_inv_kinds within_capacity_def qlen_def view_def
      victims_reset_def all_kind ex_kind)

lemma entryTTL_nonneg: "0 \<le> entryTTL c k v"
  by (simp add: entryTTL_def split: option.splits)

lemma staleDeadline_ok:
  assumes "staleDeadline clk st c = (r, c')"
  shows "c' = c \<or> c' = tick c"
    and "r = Some u \<Longrightarrow> \<exists>s. st = Some s \<and> clk (ticks c) < u"
    and "r = Some u \<Longrightarrow> st = Some s \<Longrightarrow> anchored s \<Longrightarrow> u = until s"
  using assms by (auto simp: staleDeadline_def Let_def split: option.splits if_splits)

lemma evicts_view:
  assumes "evicts_at_most clk level K c c'" and "k \<notin> K"
  shows "view c' k = view c k \<or> view c' k = None"
  using assms by (auto simp: evicts_at_most_def)

text \<open>The outcomes of a publish: what it stores, and what it returns to its own caller.\<close>

lemma publish_invalidated:
  "fmlookup (flights c) k \<noteq> Some fl \<Longrightarrow> publish clk k fl v er st ci d c = Some ((v, er), c)"
  by (simp add: publish_def)

lemma publish_value:
  assumes clk: "good_clock clk" and ok: "flights_ok c" and fl: "fmlookup (flights c) k = Some fl"
    and d: "0 \<le> d"
  obtains c' n where "publish clk k fl v None st ci d c = Some ((v, None), c')"
    and "cache_inv c'" and "within_capacity c'" and "csize c' = csize c"
    and "flights c' = fmdrop k (flights c)" and "ticks c \<le> n" and "n < ticks c'"
    and "view c' k = Some \<lparr>err = None, expireAt = clk n + d, staleUntil = 0, val = v, idx = 0\<rparr>"
    and "evicts_at_most clk evictValue {k} c c'" and "maplen (keymap c') \<le> csize c"
proof -
  let ?c1 = "c\<lparr>flights := fmdrop k (flights c)\<rparr>"
  have 1: "cache_inv ?c1" "within_capacity ?c1" "view ?c1 k = None"
    using ok flights_okD(3) [OF ok fl] by (auto simp: flights_ok_def)
  from cache_set_value [OF clk 1 d, of v] obtain c' n where s: "cache_set clk k v None d ?c1 = Some c'"
    and r: "cache_inv c'" "within_capacity c'" "same_frame ?c1 c'" "ticks ?c1 \<le> n" "ticks c' = Suc n"
      "view c' k = Some \<lparr>err = None, expireAt = clk n + d, staleUntil = 0, val = v, idx = 0\<rparr>"
      "evicts_at_most clk evictValue {k} ?c1 c'" "maplen (keymap c') \<le> csize ?c1" by blast
  have "evicts_at_most clk evictValue {k} c c'" using r(7) by (simp add: evicts_at_most_def)
  then show thesis
    using that [of c' n] s r fl by (simp add: publish_def same_frame_def)
qed

lemma publish_revive:
  assumes clk: "good_clock clk" and ok: "flights_ok c" and fl: "fmlookup (flights c) k = Some fl"
    and u: "fst (staleDeadline clk (Some s) c) = Some u"
  obtains c' where "publish clk k fl v (Some er) (Some s) ci d c = Some ((staleVal s, None), c')"
    and "cache_inv c'" and "within_capacity c'" and "csize c' = csize c"
    and "flights c' = fmdrop k (flights c)"
    and "view c' k = Some \<lparr>err = None, expireAt = 0, staleUntil = u, val = staleVal s, idx = 0\<rparr>"
    and "evicts_at_most clk evictStale {k} c c'"
proof -
  let ?c1 = "c\<lparr>flights := fmdrop k (flights c)\<rparr>"
  have 1: "cache_inv (tick ?c1)" "within_capacity (tick ?c1)" "view (tick ?c1) k = None"
    using ok flights_okD(3) [OF ok fl] by (auto simp: flights_ok_def)
  have sd: "staleDeadline clk (Some s) ?c1 = (Some u, tick ?c1)" and "clk (ticks c) < u"
    using u by (auto simp: staleDeadline_def Let_def split: if_splits)
  then have "0 < u" using good_clock_nonneg [OF clk] by (meson order_le_less_trans)
  from cache_revive [OF clk 1 this, of "staleVal s"] obtain c3 c' where
      m: "makeRoom clk k evictStale (tick ?c1) = Some c3"
      "cache_store k \<lparr>err = None, expireAt = 0, staleUntil = u, val = staleVal s, idx = 0\<rparr> c3 = Some c'"
    and r: "cache_inv c'" "within_capacity c'" "same_frame (tick ?c1) c'"
      "view c' k = Some \<lparr>err = None, expireAt = 0, staleUntil = u, val = staleVal s, idx = 0\<rparr>"
      "evicts_at_most clk evictStale {k} (tick ?c1) c'" by blast
  have "evicts_at_most clk evictStale {k} c c'" using r(5) by (simp add: evicts_at_most_def)
  moreover have "publish clk k fl v (Some er) (Some s) ci d c = Some ((staleVal s, None), c')"
    using m fl sd by (simp add: publish_def)
  ultimately show thesis using that r by (simp add: same_frame_def)
qed

lemma publish_failure:
  assumes clk: "good_clock clk" and ok: "flights_ok c" and fl: "fmlookup (flights c) k = Some fl"
    and u: "fst (staleDeadline clk st c) = None"
  obtains c' where "publish clk k fl v (Some er) st ci d c = Some ((v, Some er), c')"
    and "cache_inv c'" and "within_capacity c'" and "csize c' = csize c"
    and "flights c' = fmdrop k (flights c)"
    and "view c' k = (if ci then None
           else Some \<lparr>err = Some er, expireAt = 0, staleUntil = 0, val = v, idx = 0\<rparr>)"
    and "evicts_at_most clk evictWorthless {k} c c'" and "ci \<Longrightarrow> view c' = view c"
proof -
  let ?c1 = "c\<lparr>flights := fmdrop k (flights c)\<rparr>"
  obtain c2 where sd: "staleDeadline clk st ?c1 = (None, c2)" and c2: "c2 = ?c1 \<or> c2 = tick ?c1"
    using u by (auto simp: staleDeadline_def Let_def split: if_splits option.splits)
  have 1: "cache_inv c2" "within_capacity c2" "view c2 k = None" and sf2: "same_frame ?c1 c2" "view c2 = view c"
    and v2: "vic c2 = vic c"
    using ok flights_okD(3) [OF ok fl] c2 by (auto simp: flights_ok_def)
  show thesis
  proof (cases ci)
    case True
    have p: "publish clk k fl v (Some er) st ci d c = Some ((v, Some er), c2)"
      using True fl sd by (simp add: publish_def)
    show thesis using that [OF p 1(1,2)] sf2 1(3) True by (simp add: same_frame_def evicts_at_most_def)
  next
    case False
    from cache_set_err [OF clk 1, of v er 0] obtain c' where s: "cache_set clk k v (Some er) 0 c2 = Some c'"
      and r: "cache_inv c'" "within_capacity c'" "same_frame c2 c'"
        "view c' k = Some \<lparr>err = Some er, expireAt = 0, staleUntil = 0, val = v, idx = 0\<rparr>"
        "evicts_at_most clk evictWorthless {k} c2 c'" by blast
    have "evicts_at_most clk evictWorthless {k} c c'" using r(5) sf2 v2 by (simp add: evicts_at_most_def)
    moreover have "publish clk k fl v (Some er) st ci d c = Some ((v, Some er), c')"
      using False fl sd s by (simp add: publish_def)
    ultimately show thesis using that r False sf2 by (simp add: same_frame_def)
  qed
qed

lemma publish_ok:
  assumes clk: "good_clock clk" and ok: "flights_ok c" and d: "er = None \<longrightarrow> 0 \<le> d"
  obtains v' er' c' where "publish clk k fl v er st ci d c = Some ((v', er'), c')" and "flights_ok c'"
    and "csize c' = csize c"
    and "\<And>k' fl'. fmlookup (flights c') k' = Some fl' \<longleftrightarrow>
           fmlookup (flights c) k' = Some fl' \<and> (k', fl') \<noteq> (k, fl)"
    and "\<And>k' e. view c' k' = Some e \<Longrightarrow> view c k' = Some e \<or> k' = k \<and> val e = v' \<and> err e = er'"
    and "v' = v \<and> er' = er \<or> (\<exists>s. st = Some s \<and> v' = staleVal s \<and> er' = None)"
proof (cases "fmlookup (flights c) k = Some fl")
  case False
  then show thesis
    using that [of v er c] ok publish_invalidated [OF False] by auto
next
  case True
  note result = that
  have main: thesis if p: "publish clk k fl v er st ci d c = Some ((v', er'), c')"
    and c': "cache_inv c'" "within_capacity c'" "csize c' = csize c" "flights c' = fmdrop k (flights c)"
    and vk: "\<And>e. view c' k = Some e \<Longrightarrow> val e = v' \<and> err e = er'"
    and ev: "evicts_at_most clk level {k} c c'"
    and r: "v' = v \<and> er' = er \<or> (\<exists>s. st = Some s \<and> v' = staleVal s \<and> er' = None)" for v' er' c' level
  proof -
    have f: "fmlookup (flights c') k' = Some fl' \<longleftrightarrow> fmlookup (flights c) k' = Some fl' \<and> (k', fl') \<noteq> (k, fl)" for k' fl'
      using True c'(4) by auto
    have vw: "view c' k' = view c k' \<or> view c' k' = None" if "k' \<noteq> k" for k'
      using evicts_view [OF ev] that by simp
    have "flights_ok c'"
      unfolding flights_ok_def
    proof (intro conjI c' allI impI)
      fix k' assume n: "fmlookup (flights c') k' \<noteq> None"
      then have "k' \<noteq> k" using c'(4) by auto
      obtain fl' where "fmlookup (flights c') k' = Some fl'" using n by blast
      then have "view c k' = None" using flights_okD(3) [OF ok] f [of k' fl'] by simp
      then show "view c' k' = None" using vw [OF \<open>k' \<noteq> k\<close>] by auto
    qed
    moreover have "view c k' = Some e \<or> k' = k \<and> val e = v' \<and> err e = er'"
      if "view c' k' = Some e" for k' e
      using that vk [of e] vw [of k'] by (cases "k' = k") auto
    ultimately show thesis by (rule result [OF p _ c'(3) f _ r])
  qed
  consider (v) "er = None" | (r) e s u where "er = Some e" "st = Some s" "fst (staleDeadline clk (Some s) c) = Some u"
    | (f) e where "er = Some e" "fst (staleDeadline clk st c) = None"
    by (cases er; cases st; cases "fst (staleDeadline clk st c)") (auto simp: staleDeadline_def)
  then show thesis
  proof cases
    case v
    obtain c' n where r: "publish clk k fl v None st ci d c = Some ((v, None), c')" "cache_inv c'"
        "within_capacity c'" "csize c' = csize c" "flights c' = fmdrop k (flights c)"
        "view c' k = Some \<lparr>err = None, expireAt = clk n + d, staleUntil = 0, val = v, idx = 0\<rparr>"
        "evicts_at_most clk evictValue {k} c c'"
      by (rule publish_value [OF clk ok True d [rule_format, OF v], of v st ci])
    show thesis by (rule main [OF r(1) [folded v] r(2-5) _ r(7)]) (simp_all add: r(6) v)
  next
    case r
    obtain c' where p: "publish clk k fl v (Some e) (Some s) ci d c = Some ((staleVal s, None), c')"
        "cache_inv c'" "within_capacity c'" "csize c' = csize c" "flights c' = fmdrop k (flights c)"
        "view c' k = Some \<lparr>err = None, expireAt = 0, staleUntil = u, val = staleVal s, idx = 0\<rparr>"
        "evicts_at_most clk evictStale {k} c c'"
      by (rule publish_revive [OF clk ok True r(3), of v e ci d])
    show thesis by (rule main [OF p(1) [folded r(1,2)] p(2-5) _ p(7)]) (simp_all add: p(6) r(2))
  next
    case f
    obtain c' where p: "publish clk k fl v (Some e) st ci d c = Some ((v, Some e), c')"
        "cache_inv c'" "within_capacity c'" "csize c' = csize c" "flights c' = fmdrop k (flights c)"
        "view c' k = (if ci then None
           else Some \<lparr>err = Some e, expireAt = 0, staleUntil = 0, val = v, idx = 0\<rparr>)"
        "evicts_at_most clk evictWorthless {k} c c'"
      by (rule publish_failure [OF clk ok True f(2), of v e ci d])
    show thesis
      by (rule main [OF p(1) [folded f(1)] p(2-5) _ p(7)]) (auto simp: p(6) f(1) split: if_splits)
  qed
qed

section \<open>Flights and their owners\<close>

text \<open>
  The goroutine that runs a lookup: it produces its flight until the critical section that
  ends it, and owns it, bound to close its channel, until it has done so.
\<close>

fun produces :: "('k, 'v, 'e) proc \<Rightarrow> ('k \<times> nat) option" where
  "produces (Fetching k fl _) = Some (k, fl)"
| "produces (Publishing k fl _ _ _ _ _) = Some (k, fl)"
| "produces (Unwinding k fl) = Some (k, fl)"
| "produces _ = None"

fun owns :: "('k, 'v, 'e) proc \<Rightarrow> nat option" where
  "owns (Finishing k fl _) = Some fl"
| "owns pc = map_option snd (produces pc)"

lemma produces_owns: "produces pc = Some (k, fl) \<Longrightarrow> owns pc = Some fl"
  by (cases pc) auto

lemma at_rest_simps:
  assumes "at_rest pc"
  shows "produces pc = None" and "owns pc = None"
  using assms by (cases pc; simp add: at_rest_def)+

text \<open>
  The invariant on the registered flights \<open>f\<close>, the goroutines \<open>P\<close>, the closed flights \<open>C\<close>
  and the next unused flight \<open>n\<close>.
\<close>

definition flight_inv ::
    "('k \<Rightarrow> nat option) \<Rightarrow> (nat \<Rightarrow> ('k, 'v, 'e) proc) \<Rightarrow> nat set \<Rightarrow> nat \<Rightarrow> bool" where
  "flight_inv f P C n \<longleftrightarrow>
     (\<forall>k fl. f k = Some fl \<longrightarrow> fl \<notin> C \<and> (\<exists>p. produces (P p) = Some (k, fl)))
     \<and> (\<forall>p fl. owns (P p) = Some fl \<longrightarrow> fl < n \<and> (\<forall>q. owns (P q) = Some fl \<longrightarrow> q = p))
     \<and> (\<forall>fl < n. fl \<in> C \<or> (\<exists>p. owns (P p) = Some fl))
     \<and> (\<forall>fl \<in> C. fl < n)
     \<and> (\<forall>p xs fl. P p = Invalidating xs \<longrightarrow> fl \<in> set xs \<longrightarrow> fl < n \<and> (\<forall>k. f k \<noteq> Some fl))
     \<and> (\<forall>p k fl. P p = Awaiting k fl \<longrightarrow> fl < n)"

lemma flight_invD:
  assumes "flight_inv f P C n"
  shows registered: "f k = Some fl \<Longrightarrow> fl \<notin> C \<and> (\<exists>p. produces (P p) = Some (k, fl))"
    and owned: "owns (P p) = Some fl \<Longrightarrow> fl < n"
    and owner_unique: "owns (P p) = Some fl \<Longrightarrow> owns (P q) = Some fl \<Longrightarrow> q = p"
    and open_owned: "fl < n \<Longrightarrow> fl \<notin> C \<Longrightarrow> \<exists>p. owns (P p) = Some fl"
    and closed_old: "fl \<in> C \<Longrightarrow> fl < n"
    and invalidating: "P p = Invalidating xs \<Longrightarrow> fl \<in> set xs \<Longrightarrow> fl < n \<and> (\<forall>k. f k \<noteq> Some fl)"
    and awaiting: "P p = Awaiting k fl \<Longrightarrow> fl < n"
  using assms unfolding flight_inv_def by blast+

lemma flight_invI:
  assumes "\<And>k fl. f k = Some fl \<Longrightarrow> fl \<notin> C"
    and "\<And>k fl. f k = Some fl \<Longrightarrow> \<exists>p. produces (P p) = Some (k, fl)"
    and "\<And>p fl. owns (P p) = Some fl \<Longrightarrow> fl < n"
    and "\<And>p q fl. owns (P p) = Some fl \<Longrightarrow> owns (P q) = Some fl \<Longrightarrow> q = p"
    and "\<And>fl. fl < n \<Longrightarrow> fl \<notin> C \<Longrightarrow> \<exists>p. owns (P p) = Some fl"
    and "\<And>fl. fl \<in> C \<Longrightarrow> fl < n"
    and "\<And>p xs fl. P p = Invalidating xs \<Longrightarrow> fl \<in> set xs \<Longrightarrow> fl < n"
    and "\<And>p xs fl k. P p = Invalidating xs \<Longrightarrow> fl \<in> set xs \<Longrightarrow> f k \<noteq> Some fl"
    and "\<And>p k fl. P p = Awaiting k fl \<Longrightarrow> fl < n"
  shows "flight_inv f P C n"
  unfolding flight_inv_def using assms by (intro conjI allI impI ballI) (assumption | blast)+

lemma registered_old: "flight_inv f P C n \<Longrightarrow> f k = Some fl \<Longrightarrow> fl < n"
  using registered owned produces_owns by metis

lemma registered_inj:
  assumes "flight_inv f P C n" and "f k = Some fl" and "f k' = Some fl"
  shows "k = k'"
proof -
  obtain p q where "produces (P p) = Some (k, fl)" "produces (P q) = Some (k', fl)"
    using registered [OF assms(1)] assms(2,3) by blast
  moreover from this have "q = p" using owner_unique [OF assms(1)] produces_owns by metis
  ultimately show ?thesis by simp
qed

lemma flight_inv_quiet:
  assumes i: "flight_inv f P C n" and pr: "produces pc = produces (P p)" and ow: "owns pc = owns (P p)"
    and inv: "\<And>xs. pc = Invalidating xs \<Longrightarrow> \<forall>fl \<in> set xs. fl < n \<and> (\<forall>k. f k \<noteq> Some fl)"
    and aw: "\<And>k fl. pc = Awaiting k fl \<Longrightarrow> fl < n"
  shows "flight_inv f (P(p := pc)) C n"
proof -
  have p: "produces ((P(p := pc)) q) = produces (P q)" and o: "owns ((P(p := pc)) q) = owns (P q)" for q
    using pr ow by auto
  show ?thesis
    unfolding flight_inv_def p o
  proof (intro conjI)
    show "\<forall>q xs fl. (P(p := pc)) q = Invalidating xs \<longrightarrow> fl \<in> set xs \<longrightarrow> fl < n \<and> (\<forall>k. f k \<noteq> Some fl)"
      using inv invalidating [OF i] by simp
    show "\<forall>q k fl. (P(p := pc)) q = Awaiting k fl \<longrightarrow> fl < n" using aw awaiting [OF i] by simp
  qed (use i in \<open>unfold flight_inv_def, blast+\<close>)
qed

lemma flight_inv_start:
  assumes i: "flight_inv f P C n" and ow: "owns (P p) = None"
    and f': "f' = f(k \<mapsto> n)" and new: "f k = None"
  shows "flight_inv f' (P(p := Fetching k n st)) C (Suc n)"
proof (rule flight_invI)
  let ?P = "P(p := Fetching k n st)"
  have pr: "produces (P p) = None" using ow by (cases "P p") auto
  have o: "owns (?P q) = Some fl \<longleftrightarrow> owns (P q) = Some fl \<and> q \<noteq> p \<or> q = p \<and> fl = n" for q fl by auto
  show "fl \<notin> C" "\<exists>q. produces (?P q) = Some (k', fl)" if r: "f' k' = Some fl" for k' fl
  proof -
    have "fl \<notin> C \<and> (\<exists>q. produces (?P q) = Some (k', fl))"
    proof (cases "k' = k")
      case True
      then have "fl = n" using r by (simp add: f')
      then have "fl \<notin> C" "produces (?P p) = Some (k', fl)" using closed_old [OF i, of n] True by auto
      then show ?thesis by blast
    next
      case False
      then obtain q where q: "fl \<notin> C" "produces (P q) = Some (k', fl)"
        using r registered [OF i, of k' fl] by (auto simp: f')
      then have "produces (?P q) = Some (k', fl)" using pr by (cases "q = p") auto
      then show ?thesis using q(1) by blast
    qed
    then show "fl \<notin> C" "\<exists>q. produces (?P q) = Some (k', fl)" by blast+
  qed
  show "fl < Suc n" if "owns (?P q) = Some fl" for q fl
    using that owned [OF i, of q fl] unfolding o by auto
  show "r = q" if "owns (?P q) = Some fl" "owns (?P r) = Some fl" for q r fl
    using that owned [OF i, of q fl] owned [OF i, of r fl] owner_unique [OF i, of q fl r] unfolding o by auto
  show "\<exists>q. owns (?P q) = Some fl" if lt: "fl < Suc n" "fl \<notin> C" for fl
  proof (cases "fl = n")
    case True
    then have "owns (?P p) = Some fl" by simp
    then show ?thesis by blast
  next
    case False
    then obtain q where "owns (P q) = Some fl" using lt open_owned [OF i, of fl] by auto
    then have "owns (?P q) = Some fl" using ow by (cases "q = p") auto
    then show ?thesis by blast
  qed
  show "fl < Suc n" if "fl \<in> C" for fl using closed_old [OF i that] by simp
  show "fl < Suc n" if "?P q = Invalidating xs" "fl \<in> set xs" for q xs fl
    using that invalidating [OF i, of q xs fl] by (cases "q = p") auto
  show "f' k' \<noteq> Some fl" if "?P q = Invalidating xs" "fl \<in> set xs" for q xs fl k'
    using that invalidating [OF i, of q xs fl] by (cases "q = p") (auto simp: f')
  show "fl < Suc n" if "?P q = Awaiting k' fl" for q k' fl
    using that awaiting [OF i, of q k' fl] by (cases "q = p") auto
qed

lemma flight_inv_dereg:
  assumes i: "flight_inv f P C n" and pr: "produces (P p) = Some (k, fl)"
    and f': "\<And>k' fl'. f' k' = Some fl' \<longleftrightarrow> f k' = Some fl' \<and> (k', fl') \<noteq> (k, fl)"
  shows "flight_inv f' (P(p := Finishing k fl r)) C n"
proof -
  let ?P = "P(p := Finishing k fl r)"
  have o: "owns (?P q) = owns (P q)" for q using produces_owns [OF pr] by simp
  show ?thesis
    unfolding flight_inv_def o
  proof (intro conjI)
    show "\<forall>k' fl'. f' k' = Some fl' \<longrightarrow> fl' \<notin> C \<and> (\<exists>q. produces (?P q) = Some (k', fl'))"
    proof (intro allI impI)
      fix k' fl' assume "f' k' = Some fl'"
      then have a: "f k' = Some fl'" "(k', fl') \<noteq> (k, fl)" using f' by auto
      then obtain q where q: "fl' \<notin> C" "produces (P q) = Some (k', fl')" using registered [OF i] by blast
      then have "q \<noteq> p" using pr a(2) by auto
      then show "fl' \<notin> C \<and> (\<exists>q. produces (?P q) = Some (k', fl'))" using q by (metis fun_upd_other)
    qed
    show "\<forall>q xs fl. ?P q = Invalidating xs \<longrightarrow> fl \<in> set xs \<longrightarrow> fl < n \<and> (\<forall>k. f' k \<noteq> Some fl)"
      using invalidating [OF i] f' by simp
    show "\<forall>q k fl. ?P q = Awaiting k fl \<longrightarrow> fl < n" using awaiting [OF i] by simp
  qed (use i in \<open>unfold flight_inv_def, blast+\<close>)
qed

lemma flight_inv_finish:
  assumes i: "flight_inv f P C n" and p: "P p = Finishing k fl r"
  shows "flight_inv f (P(p := Done k r)) (insert fl C) n"
proof (rule flight_invI)
  let ?P = "P(p := Done k r)"
  have pr: "produces (?P q) = produces (P q)" for q using p by simp
  have o: "owns (?P q) = Some fl' \<longleftrightarrow> owns (P q) = Some fl' \<and> q \<noteq> p" for q fl' by simp
  have nreg: "f k' \<noteq> Some fl" for k'
  proof
    assume "f k' = Some fl"
    then obtain q where q: "produces (P q) = Some (k', fl)" using registered [OF i] by blast
    then have "q = p" using owner_unique [OF i, of p fl q] produces_owns [OF q] p by simp
    then show False using q p by simp
  qed
  show "fl' \<notin> insert fl C" if "f k' = Some fl'" for k' fl'
    using that nreg registered [OF i that] by auto
  show "\<exists>q. produces (?P q) = Some (k', fl')" if "f k' = Some fl'" for k' fl'
    using registered [OF i that] unfolding pr by blast
  show "fl' < n" if "owns (?P q) = Some fl'" for q fl' using that owned [OF i] unfolding o by blast
  show "r' = q" if "owns (?P q) = Some fl'" "owns (?P r') = Some fl'" for q r' fl'
    using that owner_unique [OF i] unfolding o by blast
  show "\<exists>q. owns (?P q) = Some fl'" if lt: "fl' < n" "fl' \<notin> insert fl C" for fl'
  proof -
    obtain q where q: "owns (P q) = Some fl'" using lt open_owned [OF i, of fl'] by blast
    then have "q \<noteq> p" using p q lt(2) by auto
    then show ?thesis unfolding o using q by blast
  qed
  show "fl' < n" if "fl' \<in> insert fl C" for fl'
    using that closed_old [OF i, of fl'] owned [OF i, of p fl] p by auto
  show "fl' < n" if "?P q = Invalidating xs" "fl' \<in> set xs" for q xs fl'
    using that invalidating [OF i, of q xs fl'] by (cases "q = p") auto
  show "f k' \<noteq> Some fl'" if "?P q = Invalidating xs" "fl' \<in> set xs" for q xs fl' k'
    using that invalidating [OF i, of q xs fl'] by (cases "q = p") auto
  show "fl' < n" if "?P q = Awaiting k' fl'" for q k' fl'
    using that awaiting [OF i, of q k' fl'] by (cases "q = p") auto
qed

lemma flight_inv_drop:
  assumes i: "flight_inv f P C n" and ow: "owns (P p) = None"
    and f': "\<And>k fl. f' k = Some fl \<Longrightarrow> f k = Some fl"
    and xs: "\<And>fl. fl \<in> set xs \<Longrightarrow> fl < n \<and> (\<forall>k. f' k \<noteq> Some fl)"
  shows "flight_inv f' (P(p := Invalidating xs)) C n"
proof -
  have pr: "produces (P p) = None" using ow by (cases "P p") auto
  have "flight_inv f' P C n"
  proof (rule flight_invI)
    show "f' k \<noteq> Some fl" if "P q = Invalidating ys" "fl \<in> set ys" for q ys fl k
      using invalidating [OF i that] f' by blast
  qed (use i f' flight_invD [OF i] in blast)+
  then show ?thesis using pr ow xs by (intro flight_inv_quiet) auto
qed

lemma flight_inv_invalidate:
  assumes i: "flight_inv f P C n" and p: "P p = Invalidating (fl # fls)"
  shows "flight_inv f (P(p := Invalidating fls)) (insert fl C) n"
proof -
  have fl: "fl < n" "\<And>k. f k \<noteq> Some fl" using invalidating [OF i p] by auto
  have "flight_inv f P (insert fl C) n"
  proof (rule flight_invI)
    show "fl' \<notin> insert fl C" if "f k = Some fl'" for k fl' using registered [OF i that] fl(2) that by auto
    show "fl' < n" if "fl' \<in> insert fl C" for fl' using that fl(1) closed_old [OF i, of fl'] by auto
  qed (use flight_invD [OF i] in blast)+
  then show ?thesis using p invalidating [OF i p] by (intro flight_inv_quiet) auto
qed

end
