(* ===== verification/SF_System.thy ===== *)
theory SF_System
  imports SF_Flight
begin

text \<open>
  The invariant of every reachable state of the cache and the goroutines using it, by rule
  induction on the steps, and the theorems on \<^verbatim>\<open>pkg/sfcache\<close> that follow from it and from
  the lemmas of the component theories.
\<close>

section \<open>The invariant of a running system\<close>

text \<open>What a goroutine carries was returned by a lookup of its own key.\<close>

fun traced :: "('k \<times> 'v \<times> 'e option) set \<Rightarrow> ('k, 'v, 'e) proc \<Rightarrow> bool" where
  "traced L (Fetching k fl st) = (\<forall>s. st = Some s \<longrightarrow> (k, staleVal s, None) \<in> L)"
| "traced L (Publishing k fl v er st ci d) =
     ((\<forall>s. st = Some s \<longrightarrow> (k, staleVal s, None) \<in> L) \<and> (k, v, er) \<in> L \<and> (er = None \<longrightarrow> 0 \<le> d))"
| "traced L (Finishing k fl (Returned v er)) = ((k, v, er) \<in> L)"
| "traced L (Done k (Returned v er)) = ((k, v, er) \<in> L)"
| "traced L _ = True"

lemma traced_mono: "traced L pc \<Longrightarrow> L \<subseteq> L' \<Longrightarrow> traced L' pc"
  by (induction L pc rule: traced.induct) auto

fun lookup_key :: "('k, 'v, 'e) proc \<Rightarrow> 'k option" where
  "lookup_key (Fast k) = Some k"
| "lookup_key (Ask k _) = Some k"
| "lookup_key (Slow k _ _) = Some k"
| "lookup_key (Awaiting k _) = Some k"
| "lookup_key (Fetching k _ _) = Some k"
| "lookup_key (Publishing k _ _ _ _ _ _) = Some k"
| "lookup_key (Unwinding k _) = Some k"
| "lookup_key _ = None"

abbreviation reg :: "('k, 'v, 'e) sys \<Rightarrow> 'k \<Rightarrow> nat option" where
  "reg s \<equiv> fmlookup (flights (cch s))"

definition values_ok :: "('k \<Rightarrow> bool) \<Rightarrow> ('k, 'v, 'e) sys \<Rightarrow> bool" where
  "values_ok nan s \<longleftrightarrow>
     (\<forall>p. traced (log s) (procs s p))
     \<and> (\<forall>p k. lookup_key (procs s p) = Some k \<longrightarrow> \<not> nan k)
     \<and> (\<forall>k e. view (cch s) k = Some e \<longrightarrow> (k, val e, err e) \<in> log s \<and> \<not> nan k)
     \<and> (\<forall>k fl. reg s k = Some fl \<longrightarrow> \<not> nan k)"

definition sys_inv :: "('k \<Rightarrow> bool) \<Rightarrow> ('k, 'v, 'e) sys \<Rightarrow> bool" where
  "sys_inv nan s \<longleftrightarrow> flights_ok (cch s)
     \<and> flight_inv (reg s) (procs s) (closed s) (nextFlight s) \<and> values_ok nan s"

lemma goto_simps [simp]:
  "cch (goto p pc s) = cch s" "closed (goto p pc s) = closed s" "log (goto p pc s) = log s"
  "nextFlight (goto p pc s) = nextFlight s" "procs (goto p pc s) = (procs s)(p := pc)"
  "ctxErr (goto p pc s) = ctxErr s"
  by (simp_all add: goto_def)

lemma values_ok_goto:
  assumes "values_ok nan s" and "log s \<subseteq> log s'" and "traced (log s') pc"
    and "\<And>k. lookup_key pc = Some k \<Longrightarrow> \<not> nan k"
    and "\<And>k e. view (cch s') k = Some e \<Longrightarrow>
           view (cch s) k = Some e \<or> (k, val e, err e) \<in> log s' \<and> \<not> nan k"
    and "\<And>k fl. reg s' k = Some fl \<Longrightarrow> reg s k = Some fl \<or> \<not> nan k"
    and "procs s' = (procs s)(p := pc)"
  shows "values_ok nan s'"
  using assms unfolding values_ok_def
  by (auto intro: traced_mono) (meson subsetD)+

lemma same_cache:
  assumes "c' = c \<or> c' = tick c"
  shows "view c' = view c" "flights c' = flights c" "flights_ok c' = flights_ok c" "csize c' = csize c"
  using assms by auto

lemma init_inv: "sys_inv nan (init_sys cfg fn h0)"
proof -
  have "flights_ok (new_cache cfg fn h0)"
    by (auto simp: flights_ok_def cache_inv_kinds new_cache_def all_kind ex_kind within_capacity_def
        qlen_def)
  moreover have "view (new_cache cfg fn h0) = (\<lambda>_. None)" "flights (new_cache cfg fn h0) = fmempty"
    by (auto simp: view_def new_cache_def fun_eq_iff)
  ultimately show ?thesis
    by (simp add: sys_inv_def init_sys_def flight_inv_def values_ok_def)
qed

lemma step_flights_ok:
  assumes clk: "good_clock clk" and inv: "sys_inv nan s" and st: "step clk nan isErr p s s'"
  shows "flights_ok (cch s')" and "csize (cch s') = csize (cch s)"
proof -
  have ok: "flights_ok (cch s)" and vo: "values_ok nan s" using inv by (auto simp: sys_inv_def)
  from st have "flights_ok (cch s') \<and> csize (cch s') = csize (cch s)"
  proof cases
    case (fast k r c)
    then show ?thesis using same_cache [OF fresh_ok(1) [OF fast(3)]] ok by simp
  next
    case (slow_hit k waited ce v er c)
    then show ?thesis using same_cache [OF lookupSlow_ok(1) [OF slow_hit(3)]] ok by simp
  next
    case (slow_join k waited ce fl c)
    then show ?thesis using same_cache [OF lookupSlow_ok(1) [OF slow_join(3)]] ok by simp
  next
    case (slow_abort k waited e c)
    then show ?thesis using same_cache [OF lookupSlow_ok(1) [OF slow_abort(3)]] ok by simp
  next
    case (slow_start k waited c st c')
    note sc = same_cache [OF lookupSlow_ok(1) [OF slow_start(3)]]
    have "flights_ok c" using ok sc by simp
    from startFlight_ok [OF this, of k "nextFlight s"] slow_start(1,4) sc show ?thesis by auto
  next
    case (publish k fl v er st ci d v' er' c)
    have "er = None \<longrightarrow> 0 \<le> d" using vo publish(2) unfolding values_ok_def by (metis traced.simps(2))
    from publish_ok [OF clk ok this, of k fl v st ci] publish(1,3) show ?thesis by auto
  next
    case (unwind k fl)
    then show ?thesis using abortFlight_ok(1,4) [OF ok] by simp
  next
    case (remove k fl c)
    from removeLocked_ok [OF ok, of k] remove(1,3) show ?thesis by auto
  next
    case (reset fls c xs)
    then show ?thesis using resetLocked_ok [OF ok reset(3)] by simp
  next
    case (purge n c)
    from PurgeExpired_ok [OF clk flights_okD(1) [OF ok]] purge(3) obtain
      c: "cache_inv c" "same_frame (cch s) c" "view c = purged_view (clk (ticks (cch s))) (view (cch s))"
      "\<forall>q. qlen c q \<le> qlen (cch s) q" by auto
    have "view c k = view (cch s) k \<or> view c k = None" for k
      by (auto simp: c(3) purged_view_def split: option.splits)
    moreover have "within_capacity c" by (rule within_capacity_le [OF flights_okD(2) [OF ok] c(2,4)])
    ultimately have "flights_ok c"
      using c(1,2) by (intro flights_ok_less [OF ok]) (auto simp: same_frame_def)
    then show ?thesis using purge(1) c(2) by (simp add: same_frame_def)
  qed (use ok in \<open>simp_all\<close>)
  then show "flights_ok (cch s')" "csize (cch s') = csize (cch s)" by blast+
qed

lemma step_flight_inv:
  assumes clk: "good_clock clk" and inv: "sys_inv nan s" and st: "step clk nan isErr p s s'"
  shows "flight_inv (reg s') (procs s') (closed s') (nextFlight s')"
proof -
  have ok: "flights_ok (cch s)" and fi: "flight_inv (reg s) (procs s) (closed s) (nextFlight s)"
    and vo: "values_ok nan s" using inv by (auto simp: sys_inv_def)
  note quiet = flight_inv_quiet [OF fi]
  from st show ?thesis
  proof cases
    case (call k ce)
    then show ?thesis using at_rest_simps [OF call(2)] by (auto intro: quiet)
  next
    case (fast k r c)
    then show ?thesis
      using same_cache(2) [OF fresh_ok(1) [OF fast(3)]] by (auto intro!: quiet split: option.splits)
  next
    case (ask k waited)
    then show ?thesis by (auto intro: quiet)
  next
    case (slow_hit k waited ce v er c)
    then show ?thesis using same_cache(2) [OF lookupSlow_ok(1) [OF slow_hit(3)]] by (auto intro!: quiet)
  next
    case (slow_join k waited ce fl c)
    have "fl < nextFlight s"
      using lookupSlow_ok(3) [OF slow_join(3) refl] registered_old [OF fi] by blast
    then show ?thesis
      using slow_join same_cache(2) [OF lookupSlow_ok(1) [OF slow_join(3)]] by (auto intro!: quiet)
  next
    case (slow_abort k waited e c)
    then show ?thesis using same_cache(2) [OF lookupSlow_ok(1) [OF slow_abort(3)]] by (auto intro!: quiet)
  next
    case (slow_start k waited c st c')
    note sc = same_cache [OF lookupSlow_ok(1) [OF slow_start(3)]]
    have "flights_ok c" using ok sc by simp
    from startFlight_ok [OF this, of k "nextFlight s"] slow_start(4) sc
    have "flights c' = fmupd k (nextFlight s) (flights (cch s))" by auto
    then have "reg s' = (reg s)(k \<mapsto> nextFlight s)" using slow_start(1) by (simp add: fun_eq_iff)
    then have "flight_inv (reg s') ((procs s)(p := Fetching k (nextFlight s) st)) (closed s) (Suc (nextFlight s))"
      using lookupSlow_ok(4) [OF slow_start(3) refl] slow_start(2) by (intro flight_inv_start [OF fi]) auto
    then show ?thesis using slow_start(1) by simp
  next
    case (publish k fl v er st ci d v' er' c)
    have "er = None \<longrightarrow> 0 \<le> d" using vo publish(2) unfolding values_ok_def by (metis traced.simps(2))
    from publish_ok [OF clk ok this, of k fl v st ci] publish(3)
    have "fmlookup (flights c) k' = Some fl' \<longleftrightarrow> reg s k' = Some fl' \<and> (k', fl') \<noteq> (k, fl)" for k' fl'
      by auto
    then show ?thesis using publish(1,2) by (auto intro!: flight_inv_dereg [OF fi])
  next
    case (unwind k fl)
    then show ?thesis
      using abortFlight_ok(3) [OF ok] by (auto intro!: flight_inv_dereg [OF fi])
  next
    case (finish k fl r)
    then show ?thesis using flight_inv_finish [OF fi finish(2)] by simp
  next
    case (remove k fl c)
    from removeLocked_ok [OF ok, of k] remove(3)
    have fl: "fl = reg s k" and c: "flights c = fmdrop k (flights (cch s))" by auto
    have "flight_inv (fmlookup (flights c))
        ((procs s)(p := Invalidating (case fl of None \<Rightarrow> [] | Some fl \<Rightarrow> [fl]))) (closed s) (nextFlight s)"
    proof (rule flight_inv_drop [OF fi at_rest_simps(2) [OF remove(2)]])
      show "reg s k' = Some fl'" if "fmlookup (flights c) k' = Some fl'" for k' fl'
        using that c by (auto split: if_splits)
      show "fl' < nextFlight s \<and> (\<forall>k. fmlookup (flights c) k \<noteq> Some fl')"
        if "fl' \<in> set (case fl of None \<Rightarrow> [] | Some fl \<Rightarrow> [fl])" for fl'
      proof -
        have "reg s k = Some fl'" using that fl by (auto split: option.splits)
        then show ?thesis using registered_old [OF fi] registered_inj [OF fi] c by auto
      qed
    qed
    then show ?thesis using remove(1) by simp
  next
    case (reset fls c xs)
    note r = resetLocked_ok [OF ok reset(3)]
    have "fl < nextFlight s" if "fl \<in> set xs" for fl
      using that reset(4) r(1) registered_old [OF fi] by (auto simp: fmlookup_ran_iff)
    then have "flight_inv (fmlookup (flights c)) ((procs s)(p := Invalidating xs)) (closed s) (nextFlight s)"
      by (intro flight_inv_drop [OF fi at_rest_simps(2) [OF reset(2)]]) (auto simp: r(4))
    then show ?thesis using reset(1) by simp
  next
    case (invalidate fl fls)
    then show ?thesis using flight_inv_invalidate [OF fi invalidate(2)] by simp
  next
    case (purge n c)
    from PurgeExpired_ok [OF clk flights_okD(1) [OF ok]] purge(3)
    have "flights c = flights (cch s)" by (auto simp: same_frame_def)
    then show ?thesis using purge(1) at_rest_simps [OF purge(2)] by (auto intro!: quiet)
  qed (use fi in \<open>auto intro!: quiet\<close>)
qed

lemma values_okD:
  assumes "values_ok nan s"
  shows "traced (log s) (procs s p)" and "lookup_key (procs s p) = Some k \<Longrightarrow> \<not> nan k"
    and "view (cch s) k = Some e \<Longrightarrow> (k, val e, err e) \<in> log s \<and> \<not> nan k"
    and "reg s k = Some fl \<Longrightarrow> \<not> nan k"
  using assms by (auto simp: values_ok_def)

lemma step_values_ok:
  assumes clk: "good_clock clk" and inv: "sys_inv nan s" and st: "step clk nan isErr p s s'"
  shows "values_ok nan s'"
proof -
  have ok: "flights_ok (cch s)" and vo: "values_ok nan s" using inv by (auto simp: sys_inv_def)
  note D = values_okD [OF vo] and T = values_okD(1) [OF vo, of p] and K = values_okD(2) [OF vo, of p]
    and goto = values_ok_goto [OF vo, where p = p]
  from st show ?thesis
  proof cases
    case (call k ce)
    then show ?thesis by (intro goto) (auto split: if_splits)
  next
    case (ctx_ends e)
    then show ?thesis using vo by (simp add: values_ok_def)
  next
    case (fast k r c)
    note sc = same_cache [OF fresh_ok(1) [OF fast(3)]]
    have "traced (log s) (case r of Some (v, er) \<Rightarrow> Done k (Returned v er) | None \<Rightarrow> Ask k False)"
      using fresh_ok(2) [OF fast(3)] D(3) by (fastforce split: option.splits)
    then show ?thesis using fast(1,2) sc K by (intro goto) (auto split: option.splits)
  next
    case (ask k waited)
    then show ?thesis using K by (intro goto) auto
  next
    case (slow_hit k waited ce v er c)
    note sc = same_cache [OF lookupSlow_ok(1) [OF slow_hit(3)]]
    have "(k, v, er) \<in> log s" using lookupSlow_ok(2) [OF slow_hit(3) refl] D(3) by blast
    then show ?thesis using slow_hit(1,2) sc by (intro goto) auto
  next
    case (slow_join k waited ce fl c)
    then show ?thesis using K same_cache [OF lookupSlow_ok(1) [OF slow_join(3)]] by (intro goto) auto
  next
    case (slow_abort k waited e c)
    then show ?thesis using same_cache [OF lookupSlow_ok(1) [OF slow_abort(3)]] by (intro goto) auto
  next
    case (slow_start k waited c st c')
    note sc = same_cache [OF lookupSlow_ok(1) [OF slow_start(3)]]
    have "flights_ok c" using ok sc by simp
    from startFlight_ok [OF this, of k "nextFlight s"] slow_start(4) sc
    have r: "view c' = (view (cch s))(k := None)" "flights c' = fmupd k (nextFlight s) (flights (cch s))"
      "\<And>s'. st = Some s' \<Longrightarrow> \<exists>e. view (cch s) k = Some e \<and> err e = None \<and> staleVal s' = val e" by auto
    have "traced (log s) (Fetching k (nextFlight s) st)" using r(3) D(3) by fastforce
    then show ?thesis using slow_start(1,2) r(1,2) K by (intro goto) (auto split: if_splits)
  next
    case (await_done k fl)
    then show ?thesis using K by (intro goto) auto
  next
    case (await_ctx k fl e)
    then show ?thesis by (intro goto) auto
  next
    case (lookup_returns k fl st ci er d v)
    then show ?thesis using T K entryTTL_nonneg by (intro goto) auto
  next
    case (lookup_panics k fl st)
    then show ?thesis using K by (intro goto) auto
  next
    case (publish k fl v er st ci d v' er' c)
    have t: "er = None \<longrightarrow> 0 \<le> d" "(k, v, er) \<in> log s" "\<forall>s'. st = Some s' \<longrightarrow> (k, staleVal s', None) \<in> log s"
      and nk: "\<not> nan k" using T K publish(2) by auto
    from publish_ok [OF clk ok t(1), of k fl v st ci] publish(3)
    have r: "\<And>k' fl'. fmlookup (flights c) k' = Some fl' \<Longrightarrow> reg s k' = Some fl'"
      "\<And>k' e. view c k' = Some e \<Longrightarrow> view (cch s) k' = Some e \<or> k' = k \<and> val e = v' \<and> err e = er'"
      "v' = v \<and> er' = er \<or> (\<exists>s. st = Some s \<and> v' = staleVal s \<and> er' = None)" by auto
    have "(k, v', er') \<in> log s" using r(3) t by auto
    then show ?thesis using publish(1) r(1,2) nk by (intro goto) auto
  next
    case (unwind k fl)
    then show ?thesis using abortFlight_ok(2,3) [OF ok] by (intro goto) auto
  next
    case (finish k fl r)
    then have "traced (log s) (Done k r)" using T by (cases r) auto
    then show ?thesis using finish(1) by (intro goto) auto
  next
    case (remove k fl c)
    from removeLocked_ok [OF ok, of k] remove(3)
    have "view c = (view (cch s))(k := None)" "flights c = fmdrop k (flights (cch s))" by auto
    then show ?thesis using remove(1) by (intro goto) (auto split: if_splits)
  next
    case (reset fls c xs)
    then show ?thesis using resetLocked_ok [OF ok reset(3)] by (intro goto) auto
  next
    case (invalidate fl fls)
    then show ?thesis by (intro goto) auto
  next
    case invalidated
    then show ?thesis by (intro goto) auto
  next
    case (purge n c)
    from PurgeExpired_ok [OF clk flights_okD(1) [OF ok]] purge(3)
    have r: "flights c = flights (cch s)" "view c = purged_view (clk (ticks (cch s))) (view (cch s))"
      by (auto simp: same_frame_def)
    then show ?thesis
      using purge(1) by (intro goto) (auto simp: purged_view_def split: option.splits if_splits)
  qed
qed

theorem reachable_inv:
  assumes "good_clock clk" and "reachable clk nan isErr s"
  shows "sys_inv nan s"
  using assms(2)
proof (induction rule: reachable.induct)
  case (init cfg fn h0)
  show ?case by (rule init_inv)
next
  case (step s p s')
  then show ?case
    using step_flights_ok(1) [OF assms(1)] step_flight_inv [OF assms(1)] step_values_ok [OF assms(1)]
    unfolding sys_inv_def [of nan s'] by blast
qed

section \<open>Every goroutine gets on\<close>

text \<open>The goroutine can leave the point it is at.\<close>

definition moves ::
    "(nat \<Rightarrow> gotime) \<Rightarrow> ('k \<Rightarrow> bool) \<Rightarrow> ('e \<Rightarrow> 'e \<Rightarrow> bool) \<Rightarrow> ('k, 'v, 'e) sys \<Rightarrow> nat \<Rightarrow> bool" where
  "moves clk nan isErr s p \<longleftrightarrow> (\<exists>s'. step clk nan isErr p s s' \<and> procs s' p \<noteq> procs s p)"

lemma movesI: "step clk nan isErr p s s' \<Longrightarrow> procs s' p \<noteq> procs s p \<Longrightarrow> moves clk nan isErr s p"
  by (auto simp: moves_def)

lemma owner_moves:
  assumes clk: "good_clock clk" and inv: "sys_inv nan s" and o: "owns (procs s q) = Some fl"
  shows "moves clk nan isErr s q"
proof (cases "procs s q")
  case (Fetching k fl' st)
  then show ?thesis by (intro movesI [OF step.lookup_panics]) auto
next
  case (Publishing k fl' v er st ci d)
  have ok: "flights_ok (cch s)" and vo: "values_ok nan s" using inv by (auto simp: sys_inv_def)
  have d: "er = None \<longrightarrow> 0 \<le> d" using values_okD(1) [OF vo, of q] Publishing by simp
  obtain v' er' c where "publish clk k fl' v er st ci d (cch s) = Some ((v', er'), c)"
    by (rule publish_ok [OF clk ok d, of k fl' v st ci])
  then show ?thesis using Publishing by (intro movesI [OF step.publish]) auto
next
  case (Unwinding k fl')
  then show ?thesis by (intro movesI [OF step.unwind]) auto
next
  case (Finishing k fl' r)
  then show ?thesis by (intro movesI [OF step.finish]) auto
qed (use o in simp_all)

lemma slow_moves:
  assumes inv: "sys_inv nan s" and p: "procs s p = Slow k waited ce"
  shows "moves clk nan isErr s p"
proof -
  obtain r c where l: "lookupSlow clk k waited (cch s) = (r, c)" by fastforce
  show ?thesis
  proof (cases r)
    case (Hit v er)
    then show ?thesis using p l by (intro movesI [OF step.slow_hit]) auto
  next
    case (Join fl)
    then show ?thesis using p l by (intro movesI [OF step.slow_join]) auto
  next
    case Start
    show ?thesis
    proof (cases ce)
      case None
      have "flights_ok c"
        using inv same_cache(3) [OF lookupSlow_ok(1) [OF l]] by (simp add: sys_inv_def)
      then obtain st c' where "startFlight k (nextFlight s) c = Some (st, c')"
        using startFlight_ok by metis
      then show ?thesis using p l Start None by (intro movesI [OF step.slow_start]) auto
    next
      case (Some e)
      then show ?thesis using p l Start by (intro movesI [OF step.slow_abort]) auto
    qed
  qed
qed

lemma progress_inv:
  assumes clk: "good_clock clk" and inv: "sys_inv nan s" and busy: "\<not> at_rest (procs s p)"
  shows "moves clk nan isErr s p
     \<or> (\<exists>k fl q. procs s p = Awaiting k fl \<and> fl \<notin> closed s \<and> q \<noteq> p
          \<and> owns (procs s q) = Some fl \<and> moves clk nan isErr s q)"
proof (cases "procs s p")
  case (Fast k)
  obtain r c where "fresh clk k (cch s) = (r, c)" by fastforce
  then show ?thesis
    using Fast by (intro disjI1 movesI [OF step.fast]) (auto split: option.splits)
next
  case (Ask k waited)
  then show ?thesis by (intro disjI1 movesI [OF step.ask]) auto
next
  case (Slow k waited ce)
  then show ?thesis using slow_moves [OF inv] by blast
next
  case (Awaiting k fl)
  have fi: "flight_inv (reg s) (procs s) (closed s) (nextFlight s)" using inv by (simp add: sys_inv_def)
  show ?thesis
  proof (cases "fl \<in> closed s")
    case True
    then show ?thesis using Awaiting by (intro disjI1 movesI [OF step.await_done]) auto
  next
    case False
    then obtain q where q: "owns (procs s q) = Some fl"
      using open_owned [OF fi awaiting [OF fi Awaiting]] by blast
    moreover from this have "q \<noteq> p" using Awaiting by auto
    ultimately show ?thesis using Awaiting False owner_moves [OF clk inv q] by blast
  qed
next
  case (Invalidating xs)
  show ?thesis
  proof (cases xs)
    case Nil
    then show ?thesis using Invalidating by (intro disjI1 movesI [OF step.invalidated]) auto
  next
    case (Cons fl fls)
    then show ?thesis using Invalidating by (intro disjI1 movesI [OF step.invalidate]) auto
  qed
qed (use busy owner_moves [OF clk inv] in \<open>auto simp: at_rest_def\<close>)

section \<open>The cost of a failed lookup\<close>

lemma publish_failed_evicts:
  assumes clk: "good_clock clk" and ok: "flights_ok c"
    and p: "publish clk k fl v (Some er) st ci d c = Some (r, c')"
  shows "\<exists>level. level \<noteq> evictValue \<and> evicts_at_most clk level {k} c c'"
proof (cases "fmlookup (flights c) k = Some fl")
  case False
  then have "c' = c" using p publish_invalidated [OF False, of clk v "Some er" st ci d] by simp
  then show ?thesis by (intro exI [of _ evictStale]) simp
next
  case True
  show ?thesis
  proof (cases "fst (staleDeadline clk st c)")
    case None
    from publish_failure [OF clk ok True None, of v er ci d] p
    show ?thesis by (intro exI [of _ evictWorthless]) auto
  next
    case (Some u)
    then obtain s where s: "st = Some s" by (auto simp: staleDeadline_def split: option.splits)
    from publish_revive [OF clk ok True Some [unfolded s], of v er ci d] p s
    show ?thesis by (intro exI [of _ evictStale]) auto
  qed
qed

end
