(* ===== verification/SF_Props.thy ===== *)
theory SF_Props
  imports SF_System
begin

text \<open>
  The theorems on \<^verbatim>\<open>pkg/sfcache\<close>, each followed by an instance on a concrete run. The run
  used throughout is a cache of one value in which goroutine 0 looks up key 7, goroutine 1
  joins its flight, the lookup returns 42, and both are served it.
\<close>

section \<open>A concrete run\<close>

definition demo_clk :: "nat \<Rightarrow> gotime" where
  "demo_clk n = int n + 1"

lemma demo_clock [simp]: "good_clock demo_clk"
  by (auto simp: good_clock_def demo_clk_def mono_def)

definition demo_entry :: "(nat, nat) entry" where
  "demo_entry = \<lparr>err = None, expireAt = 0, staleUntil = 0, val = 0, idx = 0\<rparr>"

definition demo_cfg :: config where
  "demo_cfg = \<lparr>Size = 1, TTL = 100, MaxStale = 0, MaxStaleOnFailure = 0\<rparr>"

type_synonym demo_sys = "(nat, nat, nat) sys"

definition d0 :: demo_sys where
  "d0 = init_sys demo_cfg None (\<lambda>_. demo_entry)"

abbreviation dstep :: "nat \<Rightarrow> demo_sys \<Rightarrow> demo_sys \<Rightarrow> bool" where
  "dstep \<equiv> step demo_clk (\<lambda>_. False) (\<lambda>_ _. False)"

abbreviation dreach :: "demo_sys \<Rightarrow> bool" where
  "dreach \<equiv> reachable demo_clk (\<lambda>_. False) (\<lambda>_ _. False)"

definition d1 :: demo_sys where "d1 = goto 0 (Fast 7) d0"
definition d2 :: demo_sys where "d2 = goto 1 (Fast 7) d1"
definition d3 :: demo_sys where "d3 = goto 0 (Ask 7 False) d2"
definition d4 :: demo_sys where "d4 = goto 1 (Ask 7 False) d3"
definition d5 :: demo_sys where "d5 = goto 0 (Slow 7 False None) d4"
definition d6 :: demo_sys where "d6 = goto 1 (Slow 7 False None) d5"
definition d7 :: demo_sys where
  "d7 = goto 0 (Fetching 7 0 None)
     (d6\<lparr>cch := (cch d6)\<lparr>flights := fmupd 7 0 fmempty\<rparr>, nextFlight := 1\<rparr>)"
definition d8 :: demo_sys where "d8 = goto 1 (Awaiting 7 0) d7"
definition d9 :: demo_sys where
  "d9 = goto 0 (Publishing 7 0 42 None None False 100) (d8\<lparr>log := {(7, 42, None)}\<rparr>)"
definition d10 :: demo_sys where
  "d10 = goto 0 (Finishing 7 0 (Returned 42 None))
     (d9\<lparr>cch := snd (the (publish demo_clk 7 0 42 None None False 100 (cch d9)))\<rparr>)"
definition d11 :: demo_sys where
  "d11 = goto 0 (Done 7 (Returned 42 None)) (d10\<lparr>closed := {0}\<rparr>)"

lemmas demo_defs = d0_def d1_def d2_def d3_def d4_def d5_def d6_def d7_def d8_def d9_def d10_def
  d11_def init_sys_def new_cache_def demo_cfg_def

lemma dreach_step: "dreach s \<Longrightarrow> dstep p s s' \<Longrightarrow> dreach s'"
  by (rule reachable.step)

lemma d2_reach: "dreach d2"
proof -
  have s: "dstep 0 d0 d1" "dstep 1 d1 d2"
    using step.call [of d0 0 demo_clk "\<lambda>_. False" "\<lambda>_ _. False" 7 None]
      step.call [of d1 1 demo_clk "\<lambda>_. False" "\<lambda>_ _. False" 7 None]
    by (simp_all add: demo_defs at_rest_def goto_def fun_upd_idem)
  have "dreach d0" unfolding d0_def by (rule reachable.init)
  then show ?thesis using s dreach_step by blast
qed

lemma d6_reach: "dreach d6"
proof -
  have f: "fresh demo_clk 7 (cch d2) = (None, cch d2)" "fresh demo_clk 7 (cch d3) = (None, cch d3)"
    by (simp_all add: demo_defs fresh_def)
  have "dstep 0 d2 d3" "dstep 1 d3 d4" "dstep 0 d4 d5" "dstep 1 d5 d6"
    using step.fast [OF _ f(1), where p = 0] step.fast [OF _ f(2), where p = 1]
      step.ask [of d4 0 7 False] step.ask [of d5 1 7 False]
    by (simp_all add: demo_defs goto_def)
  then show ?thesis using d2_reach dreach_step by blast
qed

lemma d8_reach: "dreach d8"
proof -
  have l: "lookupSlow demo_clk 7 False (cch d6) = (Start, cch d6)"
    "lookupSlow demo_clk 7 False (cch d7) = (Join 0, cch d7)"
    by (simp_all add: demo_defs lookupSlow_def)
  have st: "startFlight 7 (nextFlight d6) (cch d6) = Some (None, (cch d6)\<lparr>flights := fmupd 7 0 fmempty\<rparr>)"
    by (simp add: demo_defs startFlight_def staleFrom_def cache_drop_def)
  have "dstep 0 d6 d7" "dstep 1 d7 d8"
    using step.slow_start [OF _ l(1) st, where p = 0] step.slow_join [OF _ l(2), where p = 1]
    by (simp_all add: demo_defs goto_def)
  then show ?thesis using d6_reach dreach_step by blast
qed

lemma fmdrop_only: "fmdrop k (fmupd k v fmempty) = fmempty"
  by (rule fmap_ext) simp

lemma d10_cache:
  "publish demo_clk 7 0 42 None None False 100 (cch d9) =
     Some ((42, None), (cch d9)\<lparr>keymap := fmupd 7 0 fmempty, flights := fmempty,
       vic := (vic (cch d9))\<lparr>values := [\<lparr>item = 0, key = 7\<rparr>]\<rparr>,
       store := (store (cch d9))(0 := \<lparr>err = None, expireAt = 101, staleUntil = 0, val = 42, idx = 0\<rparr>),
       nextAddr := 1, ticks := 1\<rparr>)"
  by (simp add: demo_defs publish_def cache_set_def makeRoom_def makeRoom_loop.simps cache_store_def
      cache_drop_def victims_file_def revived_def pq_push_def set_idx_def pq_up.simps tick_def
      demo_clk_def demo_entry_def fmdrop_only)

lemma d8_facts:
  "procs d8 0 = Fetching 7 0 None" "procs d8 1 = Awaiting 7 0" "log d8 = {}" "closed d8 = {}"
  "entryTTL (cch d8) 7 42 = 100" "csize (cch d8) = 1" "reg d8 7 = Some 0"
  by (simp_all add: demo_defs entryTTL_def)

lemma d11_reach: "dreach d11"
proof -
  have "dstep 0 d8 d9"
    using step.lookup_returns [where s = d8 and p = 0 and k = 7 and fl = 0 and st = None
        and ctxInduced = False and er = None and d = 100 and v = 42 and isErr = "\<lambda>_ _. False"]
    by (simp add: d9_def d8_facts)
  moreover have "procs d9 0 = Publishing 7 0 42 None None False 100" by (simp add: d9_def)
  then have "dstep 0 d9 d10" using step.publish [OF _ d10_cache] by (simp add: d10_def d10_cache)
  moreover have "closed d10 = {}" by (simp add: d10_def d9_def d8_facts)
  then have "dstep 0 d10 d11"
    using step.finish [of d10 0 7 0 "Returned 42 None"] by (simp add: d11_def) (simp add: d10_def)
  ultimately show ?thesis using d8_reach dreach_step by blast
qed

lemma d11_facts:
  "procs d11 0 = Done 7 (Returned 42 None)" "procs d11 1 = Awaiting 7 0" "log d11 = {(7, 42, None)}"
  "csize (cch d11) = 1" "flights (cch d11) = fmempty" "keymap (cch d11) = fmupd 7 0 fmempty"
  "view (cch d11) 7 = Some \<lparr>err = None, expireAt = 101, staleUntil = 0, val = 42, idx = 0\<rparr>"
  "ticks (cch d11) = 1" "values (vic (cch d11)) = [\<lparr>item = 0, key = 7\<rparr>]"
  "stale (vic (cch d11)) = []" "residue (vic (cch d11)) = []"
proof -
  have c9: "cch d9 = cch d8" by (simp add: d9_def)
  have c8: "csize (cch d8) = 1" "stale (vic (cch d8)) = []" "residue (vic (cch d8)) = []"
    by (simp_all add: demo_defs)
  show "procs d11 0 = Done 7 (Returned 42 None)" "procs d11 1 = Awaiting 7 0" "log d11 = {(7, 42, None)}"
    using d8_facts(2) by (simp_all add: d11_def d10_def d9_def d8_facts)
  show "csize (cch d11) = 1" "flights (cch d11) = fmempty" "keymap (cch d11) = fmupd 7 0 fmempty"
    "view (cch d11) 7 = Some \<lparr>err = None, expireAt = 101, staleUntil = 0, val = 42, idx = 0\<rparr>"
    "ticks (cch d11) = 1" "values (vic (cch d11)) = [\<lparr>item = 0, key = 7\<rparr>]"
    "stale (vic (cch d11)) = []" "residue (vic (cch d11)) = []"
    by (simp_all add: d11_def d10_def d10_cache [unfolded c9] c9 c8 view_def outcome_def)
qed

text \<open>The run goes on: goroutine 0 looks up key 8, which fails while key 7 is cached.\<close>

definition dcache :: "(nat, nat, nat) cache" where
  "dcache =
     \<lparr>keymap = fmupd 7 0 fmempty, flights = fmempty, ttlFn = None, ttl = 100, maxStale = 0,
      maxStaleOnFailure = 0,
      vic = \<lparr>values = [\<lparr>item = 0, key = 7\<rparr>], stale = [], residue = [], vMaxStale = 0,
             vMaxStaleOnFailure = 0\<rparr>,
      csize = 1,
      store = (\<lambda>_. demo_entry)(0 := \<lparr>err = None, expireAt = 101, staleUntil = 0, val = 42, idx = 0\<rparr>),
      nextAddr = 1, ticks = 1\<rparr>"

lemma d11_cache: "cch d11 = dcache"
proof -
  have c9: "cch d9 = cch d8" by (simp add: d9_def)
  show ?thesis
    by (simp add: d11_def d10_def d10_cache [unfolded c9] c9 dcache_def) (simp add: demo_defs)
qed

definition d12 :: demo_sys where "d12 = goto 0 (Fast 8) d11"
definition d13 :: demo_sys where "d13 = goto 0 (Ask 8 False) d12"
definition d14 :: demo_sys where "d14 = goto 0 (Slow 8 False None) d13"
definition d15 :: demo_sys where
  "d15 = goto 0 (Fetching 8 (Suc 0) None) (d14\<lparr>cch := dcache\<lparr>flights := fmupd 8 (Suc 0) fmempty\<rparr>, nextFlight := 2\<rparr>)"
definition d16 :: demo_sys where
  "d16 = goto 0 (Publishing 8 (Suc 0) 0 (Some 5) None False 0) (d15\<lparr>log := insert (8, 0, Some 5) (log d15)\<rparr>)"
definition d17 :: demo_sys where
  "d17 = goto 0 (Finishing 8 (Suc 0) (Returned 0 (Some 5)))
     (d16\<lparr>cch := snd (the (publish demo_clk 8 (Suc 0) 0 (Some 5) None False 0 (cch d16)))\<rparr>)"

lemma d16_reach: "dreach d16"
proof -
  have c: "cch d12 = dcache" "cch d14 = dcache" and n: "nextFlight d14 = 1" and x: "ctxErr d11 0 = None" "ctxErr d13 0 = None"
    by (simp_all add: d14_def d13_def d12_def d11_cache)
      (simp_all add: d11_def d10_def d9_def demo_defs)
  have "fresh demo_clk 8 (cch d12) = (None, cch d12)" by (simp add: fresh_def c dcache_def)
  from step.fast [OF _ this, where p = 0] have "dstep 0 d12 d13" by (simp add: d13_def) (simp add: d12_def)
  moreover have "dstep 0 d11 d12"
    using step.call [of d11 0 demo_clk "\<lambda>_. False" "\<lambda>_ _. False" 8 None] d11_facts(1) x(1)
    by (simp add: d12_def at_rest_def goto_def fun_upd_idem)
  moreover have "dstep 0 d13 d14" using step.ask [of d13 0 8 False] x(2) by (simp add: d14_def) (simp add: d13_def)
  moreover have l: "lookupSlow demo_clk 8 False (cch d14) = (Start, dcache)"
    and "startFlight 8 (nextFlight d14) dcache = Some (None, dcache\<lparr>flights := fmupd 8 (Suc 0) fmempty\<rparr>)"
    by (simp_all add: lookupSlow_def c n startFlight_def staleFrom_def cache_drop_def dcache_def)
  from step.slow_start [OF _ this, where p = 0] n have "dstep 0 d14 d15"
    by (simp add: d15_def numeral_2_eq_2) (simp add: d14_def)
  moreover have "dstep 0 d15 d16"
    using step.lookup_returns [where s = d15 and p = 0 and k = 8 and fl = "Suc 0" and st = None
        and ctxInduced = False and er = "Some 5" and d = 0 and v = 0 and isErr = "\<lambda>_ _. False"]
    by (simp only: d16_def) (simp add: d15_def split: option.splits)
  ultimately show ?thesis using d11_reach dreach_step by blast
qed

lemma d17_cache:
  "publish demo_clk 8 (Suc 0) 0 (Some 5) None False 0 (cch d16) =
     Some ((0, Some 5), dcache\<lparr>keymap := fmupd 8 (Suc 0) (fmupd 7 0 fmempty),
       vic := (vic dcache)\<lparr>residue := [\<lparr>item = Suc 0, key = 8\<rparr>]\<rparr>,
       store := (store dcache)(Suc 0 := \<lparr>err = Some 5, expireAt = 0, staleUntil = 0, val = 0, idx = 0\<rparr>),
       nextAddr := 2, ticks := 2\<rparr>)"
  by (simp add: d16_def d15_def dcache_def publish_def staleDeadline_def cache_set_def makeRoom_def
      makeRoom_loop.simps maplen_upd pick_def worthlessVictim_def worthless_def worthlessAt_def
      pq_top_def cache_store_def cache_drop_def victims_file_def revived_def pq_push_def set_idx_def
      pq_up.simps tick_def demo_clk_def fmdrop_only numeral_2_eq_2)

lemma d17_step: "dstep 0 d16 d17"
proof -
  have "procs d16 0 = Publishing 8 (Suc 0) 0 (Some 5) None False 0" by (simp add: d16_def)
  then show ?thesis using step.publish [OF _ d17_cache] by (simp add: d17_def d17_cache)
qed

section \<open>Single flight\<close>

text \<open>
  C1: in every reachable state, a key with a registered lookup in flight has no entry, its
  flight's channel is open, and exactly one goroutine is producing it. So a key is never in
  both maps, concurrent lookups of a key coalesce onto one, and a woken waiter that reads
  the cache again cannot find the flight it left.
\<close>

theorem single_flight:
  assumes "good_clock clk" and "reachable clk nan isErr s" and "fmlookup (flights (cch s)) k = Some fl"
  shows "fmlookup (keymap (cch s)) k = None \<and> fl \<notin> closed s
     \<and> (\<exists>!p. produces (procs s p) = Some (k, fl))"
proof -
  have inv: "flights_ok (cch s)" "flight_inv (reg s) (procs s) (closed s) (nextFlight s)"
    using reachable_inv [OF assms(1,2)] by (auto simp: sys_inv_def)
  have "fmlookup (keymap (cch s)) k = None"
    using flights_okD(3) [OF inv(1) assms(3)] by (simp add: view_def)
  moreover obtain p where "fl \<notin> closed s" and p: "produces (procs s p) = Some (k, fl)"
    using registered [OF inv(2) assms(3)] by blast
  moreover have "q = p" if "produces (procs s q) = Some (k, fl)" for q
    using owner_unique [OF inv(2) produces_owns [OF p] produces_owns [OF that]] .
  ultimately show ?thesis by blast
qed

theorem single_flight_witness:
  "fmlookup (flights (cch d8)) 7 = Some 0 \<and> fmlookup (keymap (cch d8)) 7 = None \<and> 0 \<notin> closed d8
     \<and> (\<exists>!p. produces (procs d8 p) = Some (7, 0))"
  using single_flight [OF demo_clock d8_reach, of 7 0] d8_facts(7) by simp

text \<open>
  C2: no caller is ever handed anything but what a lookup of its own key returned. Every
  outcome a \<^verbatim>\<open>Lookup\<close> returns (fresh, shared by a flight, left by a failure, or served stale)
  was returned, as that value with that error, by an external lookup of that key; and so was
  every entry the cache holds. A key that is not equal to itself is never stored.
\<close>

theorem served_outcomes:
  assumes "good_clock clk" and "reachable clk nan isErr s"
  shows "(\<forall>p k v er. procs s p = Done k (Returned v er) \<longrightarrow> (k, v, er) \<in> log s)
     \<and> (\<forall>k e. view (cch s) k = Some e \<longrightarrow> (k, val e, err e) \<in> log s \<and> \<not> nan k)"
proof -
  have vo: "values_ok nan s" using reachable_inv [OF assms] by (simp add: sys_inv_def)
  have "(k, v, er) \<in> log s" if "procs s p = Done k (Returned v er)" for p k v er
    using values_okD(1) [OF vo, of p] that by simp
  then show ?thesis using values_okD(3) [OF vo] by blast
qed

theorem served_outcomes_witness:
  "procs d11 0 = Done 7 (Returned 42 None) \<and> (7, 42, None) \<in> log d11
     \<and> view (cch d11) 7 \<noteq> None"
  using served_outcomes [OF demo_clock d11_reach] d11_facts(1,7) by simp

text \<open>
  C3: the capacity bounds of the package documentation, in every reachable state. The cache
  holds at most \<open>size\<close> values no failure revived, at most one more when a stale revive could
  evict nothing, and at most one more entry for the residue of a failed lookup; \<^verbatim>\<open>Len\<close> exceeds
  that only by the lookups in flight.
\<close>

theorem capacity_bounds:
  assumes "good_clock clk" and "reachable clk nan isErr s"
  shows "length (values (vic (cch s))) \<le> csize (cch s)
     \<and> length (values (vic (cch s))) + length (stale (vic (cch s))) \<le> csize (cch s) + 1
     \<and> maplen (keymap (cch s)) \<le> csize (cch s) + 2
     \<and> cache_Len (cch s) \<le> csize (cch s) + 2 + maplen (flights (cch s))"
proof -
  have ok: "flights_ok (cch s)" using reachable_inv [OF assms] by (simp add: sys_inv_def)
  show ?thesis
    using flights_okD(2) [OF ok] maplen_qlen [OF flights_okD(1) [OF ok]]
    by (simp add: within_capacity_def qlen_def cache_Len_def)
qed

theorem capacity_bounds_witness:
  "length (values (vic (cch d11))) = 1 \<and> csize (cch d11) = 1 \<and> cache_Len (cch d11) \<le> 1 + 2"
  using capacity_bounds [OF demo_clock d11_reach] d11_facts by simp



section \<open>What a store may cost\<close>

text \<open>
  C5: a lookup that fails never costs the cache a live value. When the outcome of a failed
  lookup is published, whatever becomes of it (residue, a stale revive, or nothing), the
  entry of every other key that has not expired is still there, unchanged.
\<close>

theorem failure_keeps_live_values:
  assumes clk: "good_clock clk" and r: "reachable clk nan isErr s"
    and p: "procs s p = Publishing k fl v (Some er) st ci d" and st: "step clk nan isErr p s s'"
    and x: "k' \<noteq> k" "view (cch s) k' = Some x" "\<not> expired x (clk (ticks (cch s')))"
  shows "view (cch s') k' = Some x"
proof -
  have ok: "flights_ok (cch s)" using reachable_inv [OF clk r] by (simp add: sys_inv_def)
  from st p consider "cch s' = cch s"
    | v' er' where "publish clk k fl v (Some er) st ci d (cch s) = Some ((v', er'), cch s')"
    by cases (auto simp: at_rest_def)
  then show ?thesis
  proof cases
    case 2
    have "\<exists>level. level \<noteq> evictValue \<and> evicts_at_most clk level {k} (cch s) (cch s')"
      by (rule publish_failed_evicts [OF clk ok 2])
    then obtain level where "level \<noteq> evictValue" and ev: "evicts_at_most clk level {k} (cch s) (cch s')"
      by blast
    then have "level < evictValue" by (cases level) auto
    have "needs (vic (cch s)) x (clk (ticks (cch s'))) = evictValue"
    proof -
      have "of_kind (kind_of x) x" using view_kind [OF flights_okD(1) [OF ok] x(2)] .
      then show ?thesis
        using worthless_expired [OF _ good_clock_nonneg [OF clk], of _ x] x(3) unfolding needs_def by auto
    qed
    then show ?thesis
      using ev x(1,2) \<open>level < evictValue\<close> unfolding evicts_at_most_def
      by (metis insertE empty_iff not_less option.inject)
  qed (use x in simp)
qed

theorem failure_keeps_live_values_witness:
  "procs d16 0 = Publishing 8 (Suc 0) 0 (Some 5) None False 0
     \<and> view (cch d16) 7 = Some \<lparr>err = None, expireAt = 101, staleUntil = 0, val = 42, idx = 0\<rparr>
     \<and> view (cch d17) 7 = Some \<lparr>err = None, expireAt = 101, staleUntil = 0, val = 42, idx = 0\<rparr>"
proof -
  let ?x = "\<lparr>err = None, expireAt = 101, staleUntil = 0, val = 42, idx = 0\<rparr>"
  have 1: "procs d16 0 = Publishing 8 (Suc 0) 0 (Some 5) None False 0" by (simp add: d16_def)
  have 2: "view (cch d16) 7 = Some ?x"
    by (simp add: d16_def d15_def dcache_def view_def outcome_def)
  have "\<not> expired ?x (demo_clk (ticks (cch d17)))"
    by (simp add: d17_def d17_cache expired_def demo_clk_def)
  then show ?thesis
    using failure_keeps_live_values [OF demo_clock d16_reach 1 d17_step _ 2] 1 2 by simp
qed


lemma dcache_inv: "cache_inv (dcache\<lparr>flights := f\<rparr>)"
proof -
  have "flights_ok (cch d11)" using reachable_inv [OF demo_clock d11_reach] by (simp add: sys_inv_def)
  then show ?thesis using flights_okD(1) by (simp add: d11_cache)
qed


text \<open>
  C7: publishing a successful lookup. A registered flight's value is stored under its key
  with the time-to-live counted from a clock reading of that critical section, the cache
  then holds at most \<open>size\<close> entries in all, the invariant and the capacity bounds are kept,
  the flight is deregistered, and the caller is returned the value. A flight that was
  invalidated leaves the cache as it is and returns the value all the same.
\<close>

theorem publish_success:
  assumes clk: "good_clock clk" and ok: "flights_ok c" and d: "0 \<le> d"
  shows "\<exists>c'. publish clk k fl v None st ci d c = Some ((v, None), c') \<and> flights_ok c'
     \<and> (if fmlookup (flights c) k = Some fl
        then (\<exists>n. ticks c \<le> n \<and> n < ticks c'
               \<and> view c' k = Some \<lparr>err = None, expireAt = clk n + d, staleUntil = 0, val = v, idx = 0\<rparr>)
             \<and> maplen (keymap c') \<le> csize c \<and> flights c' = fmdrop k (flights c)
        else c' = c)"
proof (cases "fmlookup (flights c) k = Some fl")
  case True
  have d': "(None :: 'c option) = None \<longrightarrow> 0 \<le> d" using d by simp
  obtain c' n where r: "publish clk k fl v None st ci d c = Some ((v, None), c')"
      "flights c' = fmdrop k (flights c)" "ticks c \<le> n" "n < ticks c'"
      "view c' k = Some \<lparr>err = None, expireAt = clk n + d, staleUntil = 0, val = v, idx = 0\<rparr>"
      "maplen (keymap c') \<le> csize c"
    by (rule publish_value [OF clk ok True d, of v st ci])
  have "flights_ok c'" using publish_ok [OF clk ok d', of k fl v st ci] r(1) by auto
  then show ?thesis using r True by auto
next
  case False
  then show ?thesis using publish_invalidated [OF False] ok by auto
qed

theorem publish_success_witness:
  "\<exists>c'. publish demo_clk 8 (Suc 0) 9 None None False 100 (cch d16) = Some ((9, None), c')
     \<and> maplen (keymap c') \<le> 1 \<and> (\<exists>n. view c' 8 = Some \<lparr>err = None, expireAt = demo_clk n + 100,
          staleUntil = 0, val = 9, idx = 0\<rparr>)"
proof -
  have "flights_ok (cch d16)" using reachable_inv [OF demo_clock d16_reach] by (simp add: sys_inv_def)
  moreover have "fmlookup (flights (cch d16)) 8 = Some (Suc 0)" "csize (cch d16) = 1"
    by (simp_all add: d16_def d15_def dcache_def)
  ultimately show ?thesis
    using publish_success [OF demo_clock, of "cch d16" 100 8 "Suc 0" 9 None False] by auto
qed

text \<open>
  \<^verbatim>\<open>PurgeExpired\<close> removes exactly the expired entries and returns how many there were,
  whether it sifted them out one by one or rebuilt the heap around the survivors; flights
  are untouched and the invariant is kept.
\<close>

theorem purge_expired:
  assumes clk: "good_clock clk" and inv: "cache_inv c"
  shows "\<exists>n c'. PurgeExpired clk c = Some (n, c') \<and> cache_inv c' \<and> flights c' = flights c
     \<and> (\<forall>k. view c' k = (case view c k of None \<Rightarrow> None
                          | Some e \<Rightarrow> if expired e (clk (ticks c)) then None else Some e))
     \<and> n + maplen (keymap c') = maplen (keymap c)"
proof -
  obtain n c' where "PurgeExpired clk c = Some (n, c')" "cache_inv c'" "same_frame c c'"
      "view c' = purged_view (clk (ticks c)) (view c)" "n + maplen (keymap c') = maplen (keymap c)"
    by (rule PurgeExpired_ok [OF clk inv])
  then show ?thesis by (auto simp: same_frame_def purged_view_def)
qed

theorem purge_expired_witness:
  "\<exists>n c'. PurgeExpired (\<lambda>n. int n + 500) dcache = Some (n, c') \<and> view c' 7 = None"
proof -
  have "good_clock (\<lambda>n. int n + 500)" by (auto simp: good_clock_def mono_def)
  moreover have "cache_inv dcache" using dcache_inv [of "flights dcache"] by simp
  moreover have "view dcache 7 = Some \<lparr>err = None, expireAt = 101, staleUntil = 0, val = 42, idx = 0\<rparr>"
    "ticks dcache = 1" by (simp_all add: dcache_def view_def outcome_def)
  ultimately show ?thesis
    using purge_expired [of "\<lambda>n. int n + 500" dcache] by (auto simp: expired_def)
qed

section \<open>Serving stale and fresh values\<close>

text \<open>
  What a failure at time \<open>now\<close> may serve for a key, with the deadline until which it does: the
  last known good value, never the residue of an error, while one of the windows is enabled
  and open. A value an earlier failure revived keeps the deadline that failure anchored.
\<close>

definition stale_offer :: "('k, 'v, 'e) cache \<Rightarrow> gotime \<Rightarrow> 'k \<Rightarrow> ('v \<times> gotime) option" where
  "stale_offer c now k =
     (case view c k of
        None \<Rightarrow> None
      | Some e \<Rightarrow>
         (let a = (if 0 < maxStale c then expireAt e + maxStale c else 0);
              u = (if revived e then staleUntil e
                   else if 0 < maxStaleOnFailure c then max a (now + maxStaleOnFailure c) else a)
          in if err e = None \<and> (0 < maxStale c \<or> 0 < maxStaleOnFailure c) \<and> now < u
             then Some (val e, u) else None))"

lemma stale_offer_deadline:
  assumes "startFlight k fl c = Some (st, c1)"
    and "maxStale c2 = maxStale c" and "maxStaleOnFailure c2 = maxStaleOnFailure c"
  shows "stale_offer c (clk (ticks c2)) k =
     (case fst (staleDeadline clk st c2) of None \<Rightarrow> None | Some u \<Rightarrow> Some (staleVal (the st), u))"
proof -
  have "st = staleFrom c (fmlookup (keymap c) k)"
    using assms(1) by (auto simp: startFlight_def split: bind_splits)
  then show ?thesis
    using assms(2,3)
    by (auto simp: stale_offer_def staleDeadline_def staleFrom_def view_def outcome_def revived_def Let_def max_def
        split: option.splits)
qed

text \<open>
  C15: stale if error. A refresh flight is started on one state of the cache and its lookup
  fails on a later one in which the flight is still registered. Publishing the failure never
  panics; when the value the key had at the start may still be served at the time of the
  failure (it was no error, a stale window is enabled, and the window is open: the deadline
  an earlier failure anchored, or else the later of the expiration plus \<open>maxStale\<close> and the
  failure plus \<open>maxStaleOnFailure\<close>), the caller gets that value without an error and it is
  stored with that deadline; otherwise the caller gets the failed outcome, which is stored as
  residue unless the caller's own context caused the error. The flight is deregistered and
  the invariant kept either way.
\<close>

theorem stale_if_error:
  assumes clk: "good_clock clk" and st: "startFlight k fl c = Some (st, c1)" and ok: "flights_ok c2"
    and fl: "fmlookup (flights c2) k = Some fl"
    and same: "maxStale c2 = maxStale c" "maxStaleOnFailure c2 = maxStaleOnFailure c"
  shows "\<exists>r c3. publish clk k fl v (Some er) st ci d c2 = Some (r, c3) \<and> flights_ok c3
     \<and> flights c3 = fmdrop k (flights c2)
     \<and> (case stale_offer c (clk (ticks c2)) k of
          Some (w, u) \<Rightarrow> r = (w, None)
            \<and> view c3 k = Some \<lparr>err = None, expireAt = 0, staleUntil = u, val = w, idx = 0\<rparr>
        | None \<Rightarrow> r = (v, Some er)
            \<and> view c3 k = (if ci then None
                           else Some \<lparr>err = Some er, expireAt = 0, staleUntil = 0, val = v, idx = 0\<rparr>))"
proof -
  have inv: "flights_ok c3" if "publish clk k fl v (Some er) st ci d c2 = Some (r, c3)" for r c3
    using publish_ok [OF clk ok, of "Some er" d k fl v st ci] that by auto
  note offer = stale_offer_deadline [OF st same, of clk]
  show ?thesis
  proof (cases "fst (staleDeadline clk st c2)")
    case None
    obtain c3 where "publish clk k fl v (Some er) st ci d c2 = Some ((v, Some er), c3)"
      "flights c3 = fmdrop k (flights c2)"
      "view c3 k = (if ci then None else Some \<lparr>err = Some er, expireAt = 0, staleUntil = 0, val = v, idx = 0\<rparr>)"
      by (rule publish_failure [OF clk ok fl None, of v er ci d])
    then show ?thesis using inv offer None by auto
  next
    case (Some u)
    then obtain s where s: "st = Some s" by (auto simp: staleDeadline_def split: option.splits)
    obtain c3 where "publish clk k fl v (Some er) st ci d c2 = Some ((staleVal s, None), c3)"
      "flights c3 = fmdrop k (flights c2)"
      "view c3 k = Some \<lparr>err = None, expireAt = 0, staleUntil = u, val = staleVal s, idx = 0\<rparr>"
      unfolding s by (rule publish_revive [OF clk ok fl Some [unfolded s], of v er ci d])
    then show ?thesis using inv offer s Some by auto
  qed
qed

definition stale_cache :: "(nat, nat, nat) cache" where
  "stale_cache = dcache\<lparr>maxStaleOnFailure := 50, vic := (vic dcache)\<lparr>vMaxStaleOnFailure := 50\<rparr>, ticks := 200\<rparr>"

theorem stale_if_error_witness:
  "\<exists>st c1 c3. startFlight 7 3 stale_cache = Some (st, c1)
     \<and> publish demo_clk 7 3 0 (Some 5) st False 0 c1 = Some ((42, None), c3)
     \<and> view c3 7 = Some \<lparr>err = None, expireAt = 0, staleUntil = 251, val = 42, idx = 0\<rparr>"
proof -
  let ?c1 = "stale_cache\<lparr>keymap := fmempty, vic := (vic stale_cache)\<lparr>values := []\<rparr>, flights := fmupd 7 3 fmempty\<rparr>"
  have s: "startFlight 7 3 stale_cache = Some (Some \<lparr>until = 0, staleVal = 42, anchored = False\<rparr>, ?c1)"
    by (simp add: stale_cache_def dcache_def startFlight_def staleFrom_def cache_drop_def
        victims_unfile_def revived_def pq_remove_def fmdrop_only)
  have o: "stale_offer stale_cache (demo_clk (ticks ?c1)) 7 = Some (42, 251)"
    by (simp add: stale_offer_def stale_cache_def dcache_def view_def outcome_def revived_def demo_clk_def)
  have ok: "flights_ok ?c1"
    by (auto simp: flights_ok_def cache_inv_def within_capacity_def stale_cache_def dcache_def view_def qlen_def allq_def)
  show ?thesis
    using stale_if_error [OF demo_clock s ok, of 0 5 False 0] s o by auto
qed

text \<open>
  The fast path serves only fresh values. In every reachable state, what \<^verbatim>\<open>fresh\<close> hands
  out is the entry stored under the key, it has not expired at the clock reading taken, and
  its error is nil: neither the residue of a failure nor a revived value is ever served
  without attempting a refresh.
\<close>

theorem fast_path_fresh:
  assumes clk: "good_clock clk" and r: "reachable clk nan isErr s"
    and f: "fresh clk k (cch s) = (Some (v, er), c)"
  shows "er = None \<and> (\<exists>e. view (cch s) k = Some e \<and> v = val e \<and> \<not> revived e
           \<and> \<not> expired e (clk (ticks (cch s))))"
proof -
  have inv: "cache_inv (cch s)" using reachable_inv [OF clk r] flights_okD(1) by (auto simp: sys_inv_def)
  obtain e where e: "view (cch s) k = Some e" "v = val e" "er = err e" "clk (ticks (cch s)) < expireAt e"
    using fresh_ok(2) [OF f refl] by blast
  have "0 < expireAt e" using e(4) good_clock_nonneg [OF clk] by (meson order_le_less_trans)
  then have "kind_of e = ValueK"
    using view_kind [OF inv e(1)] by (cases "kind_of e") (auto simp: kind_defs)
  then show ?thesis
    using e by (auto simp: kind_of_def expired_def split: if_splits)
qed

theorem fast_path_fresh_witness:
  "\<exists>c. fresh demo_clk 7 (cch d11) = (Some (42, None), c) \<and>
     (\<exists>e. view (cch d11) 7 = Some e \<and> 42 = val e \<and> \<not> expired e (demo_clk (ticks (cch d11))))"
proof -
  have "fresh demo_clk 7 (cch d11) = (Some (42, None), tick (cch d11))"
    by (simp add: d11_cache dcache_def fresh_def usable_def demo_clk_def)
  from fast_path_fresh [OF demo_clock d11_reach this] this show ?thesis by blast
qed

section \<open>The data structures underneath\<close>

text \<open>
  C11: the indexed heap implements a priority queue of entries. From a well-formed queue,
  pushing an entry adds exactly that node; removing any queued entry, wherever it sits,
  does not panic and takes out exactly that node; both keep the heap order and every
  entry's record of its own position; and the head has the earliest deadline.
\<close>

theorem pqueue_refines:
  assumes ok: "pq_ok h q"
  shows "(a \<notin> items q \<longrightarrow> (case pq_push h q k a of (h', q') \<Rightarrow>
            pq_ok h' q' \<and> mset q' = add_mset \<lparr>item = a, key = k\<rparr> (mset q)))
     \<and> (\<forall>n \<in> set q. \<exists>h' q'. pq_remove h q (item n) = Some (h', q') \<and> pq_ok h' q'
            \<and> mset q' = mset q - {#n#} \<and> (\<forall>a. outcome (h' a) = outcome (h a)))
     \<and> (case pq_top q of None \<Rightarrow> q = []
        | Some (k, a) \<Rightarrow> \<lparr>item = a, key = k\<rparr> \<in> set q
            \<and> (\<forall>n \<in> set q. deadline (h a) \<le> deadline (h (item n))))"
proof (intro conjI)
  show "a \<notin> items q \<longrightarrow> (case pq_push h q k a of (h', q') \<Rightarrow>
            pq_ok h' q' \<and> mset q' = add_mset \<lparr>item = a, key = k\<rparr> (mset q))"
    using pq.push_ok [OF ok] by (auto split: prod.splits)
  show "\<forall>n \<in> set q. \<exists>h' q'. pq_remove h q (item n) = Some (h', q') \<and> pq_ok h' q'
            \<and> mset q' = mset q - {#n#} \<and> (\<forall>a. outcome (h' a) = outcome (h a))"
    using pq.remove_ok [OF ok] same_outcome_kind(3) by (metis set_mset_mset)
  show "case pq_top q of None \<Rightarrow> q = []
        | Some (k, a) \<Rightarrow> \<lparr>item = a, key = k\<rparr> \<in> set q
            \<and> (\<forall>n \<in> set q. deadline (h a) \<le> deadline (h (item n)))"
    using pq.top_None [of q] pq.top_least [OF ok] by (auto split: option.splits)
qed

theorem pqueue_refines_witness:
  "pq_ok (store dcache) (values (vic dcache))
     \<and> (\<exists>h' q'. pq_remove (store dcache) (values (vic dcache)) 0 = Some (h', q') \<and> mset q' = {#})"
proof -
  have ok: "pq_ok (store dcache) (values (vic dcache))"
    using dcache_inv [of "flights dcache"] by (simp add: cache_inv_def)
  then show ?thesis
    using pqueue_refines [OF ok, of 5 3] by (auto simp: dcache_def)
qed

text \<open>
  Under the invariant, dropping and storing an entry act on the observable map as
  deleting and updating a key do, report whether there was an entry, keep the invariant and
  never panic.
\<close>

theorem cache_refines_map:
  assumes "cache_inv c" and "of_kind (kind_of e) e"
  shows "\<exists>c1 c2. cache_drop k c = Some (view c k \<noteq> None, c1) \<and> cache_inv c1
     \<and> view c1 = (view c)(k := None)
     \<and> cache_store k e c = Some c2 \<and> cache_inv c2 \<and> view c2 = (view c)(k \<mapsto> outcome e)"
  using cache_drop_ok [OF assms(1), of k] cache_store_ok [OF assms, of k] by metis

theorem cache_refines_map_witness:
  "\<exists>c2. cache_store 7 \<lparr>err = Some 1, expireAt = 0, staleUntil = 0, val = 0, idx = 0\<rparr> dcache = Some c2
     \<and> view c2 7 = Some \<lparr>err = Some 1, expireAt = 0, staleUntil = 0, val = 0, idx = 0\<rparr>"
proof -
  have "cache_inv dcache" using dcache_inv [of "flights dcache"] by simp
  then show ?thesis
    using cache_refines_map [of dcache "\<lparr>err = Some 1, expireAt = 0, staleUntil = 0, val = 0, idx = 0\<rparr>" 7]
    by (auto simp: kind_of_def is_residue_def outcome_def)
qed

end
