(* ===== verification/RD_Scan.thy ===== *)
theory RD_Scan
  imports Go_Prelude "HOL-Library.Word" "HOL-Library.Sublist"
begin

text \<open>
  Bytes, slices and scanning loops shared by the rules of \<^verbatim>\<open>pkg/redact\<close>: the byte classes and
  scans of \<^verbatim>\<open>scan.go\<close>, the literal and marker tests, and the small scanners of
  \<^verbatim>\<open>header.go\<close>, \<^verbatim>\<open>jwt.go\<close> and \<^verbatim>\<open>json.go\<close> that several rules call.

  A Go scanning loop \<^verbatim>\<open>for i < len(src) && p(src[i]) { i++ }\<close> is \<open>scan_while p src i\<close>. Slices
  \<^verbatim>\<open>src[i:j]\<close> are \<open>slice src i j\<close>, used with \<open>i \<le> j \<le> length src\<close> only. Positions are
  naturals. Slicing and \<open>src ! i\<close> are total here: the guards of the code are kept as
  conditions, but an access out of range is not represented as a panic, except the one of
  \<^verbatim>\<open>json.go:110\<close> (see \<^verbatim>\<open>RD_Json\<close>). The lemmas in \<open>scan_bounds\<close> say where a scan ends; they
  carry the termination proof of the engine.
\<close>

section \<open>Bytes\<close>

abbreviation NL :: char where "NL \<equiv> CHR 0x0A"
abbreviation CR :: char where "CR \<equiv> CHR 0x0D"
abbreviation TAB :: char where "TAB \<equiv> CHR 0x09"
abbreviation BSL :: char where "BSL \<equiv> CHR 0x5C"
abbreviation DQ :: char where "DQ \<equiv> CHR 0x22"
abbreviation SQ :: char where "SQ \<equiv> CHR 0x27"

definition isDigitByte :: "char \<Rightarrow> bool" where
  "isDigitByte c \<longleftrightarrow> CHR ''0'' \<le> c \<and> c \<le> CHR ''9''"

definition isWordChar :: "char \<Rightarrow> bool" where
  "isWordChar c \<longleftrightarrow> c = CHR ''_'' \<or> (CHR ''0'' \<le> c \<and> c \<le> CHR ''9'')
     \<or> (CHR ''A'' \<le> c \<and> c \<le> CHR ''Z'') \<or> (CHR ''a'' \<le> c \<and> c \<le> CHR ''z'')"

definition isASCIIAlphaNum :: "char \<Rightarrow> bool" where
  "isASCIIAlphaNum c \<longleftrightarrow> (CHR ''a'' \<le> c \<and> c \<le> CHR ''z'') \<or> (CHR ''A'' \<le> c \<and> c \<le> CHR ''Z'')
     \<or> (CHR ''0'' \<le> c \<and> c \<le> CHR ''9'')"

definition isASCIIAlpha :: "char \<Rightarrow> bool" where
  "isASCIIAlpha c \<longleftrightarrow> (CHR ''a'' \<le> c \<and> c \<le> CHR ''z'') \<or> (CHR ''A'' \<le> c \<and> c \<le> CHR ''Z'')"

definition isHeaderNameByte :: "char \<Rightarrow> bool" where
  "isHeaderNameByte c \<longleftrightarrow> isASCIIAlphaNum c \<or> c = CHR ''-'' \<or> c = CHR ''_''"

definition isXMLNameByte :: "char \<Rightarrow> bool" where
  "isXMLNameByte c \<longleftrightarrow> isHeaderNameByte c \<or> c = CHR '':'' \<or> c = CHR ''.''"

definition isBase64URLByte :: "char \<Rightarrow> bool" where
  "isBase64URLByte c \<longleftrightarrow> isASCIIAlphaNum c \<or> c = CHR ''-'' \<or> c = CHR ''_''"

definition lowerASCIIByte :: "char \<Rightarrow> char" where
  "lowerASCIIByte c =
     (if CHR ''A'' \<le> c \<and> c \<le> CHR ''Z'' then char_of (of_char c + (32 :: nat)) else c)"

definition equalsASCIIFold :: "bytes \<Rightarrow> bytes \<Rightarrow> bool" where
  "equalsASCIIFold tok lit \<longleftrightarrow> length tok = length lit \<and> map lowerASCIIByte tok = lit"

section \<open>Slices and scans\<close>

definition slice :: "bytes \<Rightarrow> nat \<Rightarrow> nat \<Rightarrow> bytes" where
  "slice src i j = take (j - i) (drop i src)"

function scan_while :: "(char \<Rightarrow> bool) \<Rightarrow> bytes \<Rightarrow> nat \<Rightarrow> nat" where
  "scan_while p src i = (if i < length src \<and> p (src ! i) then scan_while p src (Suc i) else i)"
  by pat_completeness auto
termination
  by (relation "measure (\<lambda>(p, src, i). length src - i)") auto

declare scan_while.simps [simp del]

definition scanDigits :: "bytes \<Rightarrow> nat \<Rightarrow> nat" where
  "scanDigits src i = scan_while isDigitByte src i"

definition scanBase64URL :: "bytes \<Rightarrow> nat \<Rightarrow> nat" where
  "scanBase64URL src i = scan_while isBase64URLByte src i"

definition skipInlineSpaces :: "bytes \<Rightarrow> nat \<Rightarrow> nat" where
  "skipInlineSpaces src i = scan_while (\<lambda>c. c = CHR '' '' \<or> c = TAB) src i"

definition skipJSONWhitespace :: "bytes \<Rightarrow> nat \<Rightarrow> nat" where
  "skipJSONWhitespace src i =
     scan_while (\<lambda>c. c = CHR '' '' \<or> c = TAB \<or> c = NL \<or> c = CR) src i"

definition scanToLineFeed :: "bytes \<Rightarrow> nat \<Rightarrow> nat" where
  "scanToLineFeed src i = scan_while (\<lambda>c. c \<noteq> NL) src i"

definition hasPrefixAt :: "bytes \<Rightarrow> nat \<Rightarrow> bytes \<Rightarrow> bool" where
  "hasPrefixAt src i lit \<longleftrightarrow>
     \<not> length src < i + length lit \<and> (\<forall>j < length lit. src ! (i + j) = lit ! j)"

text \<open>\<^verbatim>\<open>bytes.Index\<close>: the first position at which the needle occurs.\<close>

fun bytes_Index :: "bytes \<Rightarrow> bytes \<Rightarrow> nat option" where
  "bytes_Index s pat =
     (if take (length pat) s = pat then Some 0
      else (case s of [] \<Rightarrow> None | _ # s' \<Rightarrow> map_option Suc (bytes_Index s' pat)))"

declare bytes_Index.simps [simp del]

subsection \<open>Where a scan ends\<close>

lemma slice_simps [simp]:
  "slice src i i = []" "length (slice src i j) = min (j - i) (length src - i)"
  by (auto simp: slice_def)

lemma nth_slice: "i + k < j \<Longrightarrow> j \<le> length src \<Longrightarrow> slice src i j ! k = src ! (i + k)"
  by (simp add: slice_def)

lemma slice_append_drop: "i \<le> j \<Longrightarrow> slice src i j @ drop j src = drop i src"
  by (metis append_take_drop_id drop_drop le_add_diff_inverse2 slice_def)

lemma slice_trans:
  "i \<le> j \<Longrightarrow> j \<le> k \<Longrightarrow> slice src i j @ slice src j k = slice src i k"
proof -
  assume "i \<le> j" "j \<le> k"
  then have "k - i = (j - i) + (k - j)" "drop j src = drop (j - i) (drop i src)" by simp_all
  then show ?thesis by (simp add: slice_def take_add)
qed

lemma slice_Suc: "i < length src \<Longrightarrow> slice src i (Suc i) = [src ! i]"
  by (simp add: slice_def Suc_diff_le take_Suc_conv_app_nth)

lemma slice_all: "slice src 0 (length src) = src"
  by (simp add: slice_def)

lemma scan_while_eq:
  "i \<le> length src \<Longrightarrow> scan_while p src i = i + length (takeWhile p (drop i src))"
proof (induction p src i rule: scan_while.induct)
  case (1 p src i)
  show ?case
  proof (cases "i < length src \<and> p (src ! i)")
    case True
    then have d: "drop i src = src ! i # drop (Suc i) src" by (simp add: Cons_nth_drop_Suc)
    have "scan_while p src i = scan_while p src (Suc i)" using True by (simp add: scan_while.simps)
    also have "\<dots> = Suc i + length (takeWhile p (drop (Suc i) src))" using 1 True by simp
    finally show ?thesis using True by (simp add: d)
  next
    case False
    then have "scan_while p src i = i" by (simp add: scan_while.simps)
    moreover have "takeWhile p (drop i src) = []"
      using False 1(2) by (cases "i < length src") (auto simp flip: Cons_nth_drop_Suc)
    ultimately show ?thesis by simp
  qed
qed

lemma scan_while_ge [scan_bounds]: "i \<le> scan_while p src i"
  by (induction p src i rule: scan_while.induct) (subst scan_while.simps, auto)

lemma scan_while_le [scan_bounds]: "i \<le> length src \<Longrightarrow> scan_while p src i \<le> length src"
  by (induction p src i rule: scan_while.induct) (subst scan_while.simps, auto)

lemma scan_while_end: "scan_while p src i < length src \<Longrightarrow> \<not> p (src ! scan_while p src i)"
  by (induction p src i rule: scan_while.induct) (subst scan_while.simps, subst (asm) scan_while.simps, auto)

lemma scan_while_in: "i \<le> k \<Longrightarrow> k < scan_while p src i \<Longrightarrow> k < length src \<and> p (src ! k)"
proof (induction p src i rule: scan_while.induct)
  case (1 p src i)
  then show ?case
    by (cases "i < length src \<and> p (src ! i)"; cases "k = i") (auto simp: scan_while.simps [of p src i])
qed

lemma scan_while_stop:
  assumes "i \<le> j" and "\<And>k. i \<le> k \<Longrightarrow> k < j \<Longrightarrow> k < length src \<and> p (src ! k)"
    and "j < length src \<Longrightarrow> \<not> p (src ! j)"
  shows "scan_while p src i = j"
proof (rule antisym)
  show "scan_while p src i \<le> j"
  proof (rule ccontr)
    assume "\<not> scan_while p src i \<le> j"
    then have "j < length src \<and> p (src ! j)" using scan_while_in [OF assms(1), of p src] by simp
    then show False using assms(3) by blast
  qed
  show "j \<le> scan_while p src i"
  proof (rule ccontr)
    let ?m = "scan_while p src i"
    assume "\<not> j \<le> ?m"
    then have "?m < length src \<and> p (src ! ?m)" using assms(2) [of ?m] scan_while_ge by simp
    then show False using scan_while_end by blast
  qed
qed

lemmas scan_defs = scanDigits_def scanBase64URL_def skipInlineSpaces_def skipJSONWhitespace_def
  scanToLineFeed_def

lemma scans_ge [scan_bounds]:
  "i \<le> scanDigits src i" "i \<le> scanBase64URL src i" "i \<le> skipInlineSpaces src i"
  "i \<le> skipJSONWhitespace src i" "i \<le> scanToLineFeed src i"
  by (simp_all add: scan_defs scan_while_ge)

lemma scans_le [scan_bounds]:
  assumes "i \<le> length src"
  shows "scanDigits src i \<le> length src" "scanBase64URL src i \<le> length src"
    "skipInlineSpaces src i \<le> length src" "skipJSONWhitespace src i \<le> length src"
    "scanToLineFeed src i \<le> length src"
  using assms by (simp_all add: scan_defs scan_while_le)

lemma hasPrefixAt_eq:
  assumes "lit \<noteq> []"
  shows "hasPrefixAt src i lit \<longleftrightarrow> take (length lit) (drop i src) = lit"
proof
  assume "hasPrefixAt src i lit"
  then show "take (length lit) (drop i src) = lit"
    unfolding hasPrefixAt_def by (intro nth_equalityI) auto
next
  assume eq: "take (length lit) (drop i src) = lit"
  have len: "length lit \<le> length src - i" using arg_cong [OF eq, of length] by simp
  then have "i + length lit \<le> length src" using assms by (cases "i \<le> length src") auto
  moreover have "src ! (i + j) = lit ! j" if "j < length lit" for j
    using that len nth_take [OF that, of "drop i src"] eq by simp
  ultimately show "hasPrefixAt src i lit" by (simp add: hasPrefixAt_def)
qed

lemma hasPrefixAt_nth: "hasPrefixAt src i lit \<Longrightarrow> j < length lit \<Longrightarrow> i + j < length src \<and> src ! (i + j) = lit ! j"
  by (auto simp: hasPrefixAt_def)

lemma bytes_Index_bound: "bytes_Index s pat = Some n \<Longrightarrow> n + length pat \<le> length s"
proof (induction s arbitrary: n)
  case Nil
  then show ?case by (auto simp: bytes_Index.simps [of "[]"] split: if_splits)
next
  case (Cons c s)
  show ?case
  proof (cases "take (length pat) (c # s) = pat")
    case True
    then have "n = 0" using Cons.prems by (simp add: bytes_Index.simps [of "c # s"])
    moreover have "length pat \<le> length (c # s)" using True by (metis length_take min.cobounded1)
    ultimately show ?thesis by simp
  next
    case False
    then show ?thesis using Cons by (auto simp: bytes_Index.simps [of "c # s"])
  qed
qed

end
