(* ===== verification/Go_Utf8.thy ===== *)
theory Go_Utf8
  imports Go_Prelude
begin

text \<open>
  UTF-8 as the language has it: what \<^verbatim>\<open>for _, r := range s\<close> and \<^verbatim>\<open>[]rune(s)\<close> decode
  (\<open>runes\<close>), an invalid byte becoming U+FFFD on its own, and what \<^verbatim>\<open>WriteRune\<close> encodes.
\<close>

abbreviation byte_val :: "char \<Rightarrow> nat" where
  "byte_val c \<equiv> of_char c"

definition in_range :: "nat \<Rightarrow> nat \<Rightarrow> char \<Rightarrow> bool" where
  "in_range lo hi c \<longleftrightarrow> lo \<le> byte_val c \<and> byte_val c \<le> hi"

definition cont :: "char \<Rightarrow> nat" where
  "cont c = byte_val c mod 64"

text \<open>
  One step of decoding: the rune and how many bytes it takes; an invalid sequence is
  U+FFFD and one byte. The second byte of some lead bytes has a restricted range.
\<close>

fun DecodeRune :: "bytes \<Rightarrow> nat \<times> nat" where
  "DecodeRune [] = (0xFFFD, 0)"
| "DecodeRune (a # s) =
     (let x = byte_val a;
          lo = (if x = 0xE0 then 0xA0 else if x = 0xF0 then 0x90 else 0x80);
          hi = (if x = 0xED then 0x9F else if x = 0xF4 then 0x8F else 0xBF)
      in if x < 0x80 then (x, 1)
         else if x < 0xC2 \<or> 0xF4 < x then (0xFFFD, 1)
         else if x < 0xE0 then
           (case s of b # _ \<Rightarrow> if in_range 0x80 0xBF b then (x mod 32 * 64 + cont b, 2) else (0xFFFD, 1)
            | [] \<Rightarrow> (0xFFFD, 1))
         else if x < 0xF0 then
           (case s of b # c # _ \<Rightarrow>
                if in_range lo hi b \<and> in_range 0x80 0xBF c
                then (x mod 16 * 4096 + cont b * 64 + cont c, 3) else (0xFFFD, 1)
            | _ \<Rightarrow> (0xFFFD, 1))
         else
           (case s of b # c # d # _ \<Rightarrow>
                if in_range lo hi b \<and> in_range 0x80 0xBF c \<and> in_range 0x80 0xBF d
                then (x mod 8 * 262144 + cont b * 4096 + cont c * 64 + cont d, 4) else (0xFFFD, 1)
            | _ \<Rightarrow> (0xFFFD, 1)))"

lemma DecodeRune_size: "s \<noteq> [] \<Longrightarrow> 1 \<le> snd (DecodeRune s)"
  by (cases s) (auto simp: Let_def split: list.splits)

function runes :: "bytes \<Rightarrow> nat list" where
  "runes s = (if s = [] then [] else fst (DecodeRune s) # runes (drop (snd (DecodeRune s)) s))"
  by pat_completeness auto
termination
  by (relation "measure length") (use DecodeRune_size in \<open>fastforce\<close>)+

declare runes.simps [simp del]

definition EncodeRune :: "nat \<Rightarrow> bytes" where
  "EncodeRune r0 =
     (let r = (if 0x10FFFF < r0 \<or> (0xD800 \<le> r0 \<and> r0 \<le> 0xDFFF) then 0xFFFD else r0)
      in if r < 0x80 then [char_of r]
         else if r < 0x800 then [char_of (0xC0 + r div 64), char_of (0x80 + r mod 64)]
         else if r < 0x10000 then
           [char_of (0xE0 + r div 4096), char_of (0x80 + r div 64 mod 64), char_of (0x80 + r mod 64)]
         else
           [char_of (0xF0 + r div 262144), char_of (0x80 + r div 4096 mod 64),
            char_of (0x80 + r div 64 mod 64), char_of (0x80 + r mod 64)])"

end
