(* ===== verification/RD_Keys.thy ===== *)
theory RD_Keys
  imports RD_Scan Go_Utf8
begin

text \<open>
  Which key names are sensitive (\<^verbatim>\<open>keycache.go\<close>, \<^verbatim>\<open>options.go\<close> and the instance of
  \<^verbatim>\<open>redactor.go\<close>): the token tables, key normalization, the allocation-free ASCII
  classifier, the classifier on normalized keys, and the bounded memo in front of it.

  \<^item> The Unicode tables of Go's \<^verbatim>\<open>unicode\<close> package are the argument \<open>u\<close>; what is used of
    them is that they agree with ASCII below 128. Decoding and encoding of UTF-8 are those of
    \<open>Go_Utf8\<close>.
  \<^item> The slices \<^verbatim>\<open>key[start:i]\<close> of the two tokenizing loops are the bytes of the token being
    read, empty when no token is open.
  \<^item> A nil set of extra or dropped tokens is the empty set; a nil marker is the empty one.
\<close>

section \<open>Configuration\<close>

record unicode =
  IsLetter :: "nat \<Rightarrow> bool"
  IsDigit :: "nat \<Rightarrow> bool"
  IsUpper :: "nat \<Rightarrow> bool"
  IsLower :: "nat \<Rightarrow> bool"
  ToLower :: "nat \<Rightarrow> nat"

type_synonym Rule = "16 word"

definition RuleHeaders :: Rule where "RuleHeaders = 1"
definition RuleJSON :: Rule where "RuleJSON = 2"
definition RuleURLEncoded :: Rule where "RuleURLEncoded = 4"
definition RuleXML :: Rule where "RuleXML = 8"
definition RuleUserinfo :: Rule where "RuleUserinfo = 16"
definition RuleJWT :: Rule where "RuleJWT = 32"
definition RuleVendorTokens :: Rule where "RuleVendorTokens = 64"
definition RulePEM :: Rule where "RulePEM = 128"
definition RuleCards :: Rule where "RuleCards = 256"

record redactor =
  marker :: bytes
  disabled :: Rule
  luhn :: bool
  extraTokens :: "bytes set"
  dropTokens :: "bytes set"
  keyMemo :: "(bytes, bool) fmap option"

definition RedactionMarker :: bytes where
  "RedactionMarker = ''***''"

definition enabled :: "redactor \<Rightarrow> Rule \<Rightarrow> bool" where
  "enabled re r \<longleftrightarrow> and (disabled re) r = 0"

definition usableRedactor :: "redactor \<Rightarrow> redactor" where
  "usableRedactor re =
     (if marker re \<noteq> [] \<and> keyMemo re \<noteq> None then re
      else re\<lparr>marker := (if marker re = [] then RedactionMarker else marker re),
              keyMemo := (if keyMemo re = None then Some fmempty else keyMemo re)\<rparr>)"

text \<open>An option of \<^verbatim>\<open>New\<close>; a nil one is skipped.\<close>

type_synonym option_fn = "(redactor \<Rightarrow> redactor) option"

definition new_redactor :: "option_fn list \<Rightarrow> redactor" where
  "new_redactor opts =
     fold (\<lambda>opt re. case opt of None \<Rightarrow> re | Some f \<Rightarrow> f re) opts
       \<lparr>marker = RedactionMarker, disabled = 0, luhn = False, extraTokens = {}, dropTokens = {},
        keyMemo = Some fmempty\<rparr>"

abbreviation maxSensitiveTokenLen :: nat where
  "maxSensitiveTokenLen \<equiv> 32"

definition normalizeConfigToken :: "bytes \<Rightarrow> bytes option" where
  "normalizeConfigToken tok =
     (if tok = [] \<or> maxSensitiveTokenLen < length tok then None
      else if \<forall>c \<in> set tok. isASCIIAlphaNum (lowerASCIIByte c) then Some (map lowerASCIIByte tok)
      else None)"

definition WithMarker :: "bytes \<Rightarrow> redactor \<Rightarrow> redactor" where
  "WithMarker m re = (if m \<noteq> [] then re\<lparr>marker := m\<rparr> else re)"

definition WithLuhnCheck :: "bool \<Rightarrow> redactor \<Rightarrow> redactor" where
  "WithLuhnCheck b re = re\<lparr>luhn := b\<rparr>"

definition WithExtraTokens :: "bytes list \<Rightarrow> redactor \<Rightarrow> redactor" where
  "WithExtraTokens toks re =
     fold (\<lambda>tok re. case normalizeConfigToken tok of
             None \<Rightarrow> re | Some l \<Rightarrow> re\<lparr>extraTokens := insert l (extraTokens re)\<rparr>) toks re"

definition WithoutTokens :: "bytes list \<Rightarrow> redactor \<Rightarrow> redactor" where
  "WithoutTokens toks re =
     fold (\<lambda>tok re. case normalizeConfigToken tok of
             None \<Rightarrow> re | Some l \<Rightarrow> re\<lparr>dropTokens := insert l (dropTokens re)\<rparr>) toks re"

definition WithoutRules :: "Rule list \<Rightarrow> redactor \<Rightarrow> redactor" where
  "WithoutRules rs re = fold (\<lambda>r re. re\<lparr>disabled := or (disabled re) r\<rparr>) rs re"

section \<open>The token tables\<close>

definition sensitiveTokens :: "bytes list" where
  "sensitiveTokens = [
     ''acc'', ''accesskey'', ''accesstoken'', ''account'', ''address'', ''amount'',
     ''apikey'', ''apisecret'', ''appsecret'', ''attestation'', ''auth'', ''authcookie'',
     ''authenticate'', ''authkey'', ''authorization'', ''authtoken'', ''autograph'', ''bal'',
     ''balance'', ''bearer'', ''bearertoken'', ''bill'', ''birth'', ''card'', ''cardnumber'',
     ''cc'', ''cell'', ''cert'', ''checksum'', ''clientsecret'', ''connectionstring'',
     ''cookie'', ''cred'', ''credential'', ''credentials'', ''creditcard'', ''csc'', ''csrf'',
     ''csrftoken'', ''cv2'', ''cvc'', ''cvn'', ''cvv'', ''dbpassword'', ''debitcard'',
     ''deploykey'', ''dob'', ''dsa'', ''dsn'', ''ecdsa'', ''email'', ''encryptionkey'',
     ''endorse'', ''expiry'', ''fingerprint'', ''gpgkey'', ''hash'', ''hmac'', ''holder'',
     ''hostkey'', ''htpasswd'', ''iban'', ''idtoken'', ''jsessionid'', ''jwt'', ''key'',
     ''login'', ''mail'', ''masterkey'', ''mfa'', ''nationalid'', ''nonce'', ''otp'',
     ''pass'', ''passcode'', ''passphrase'', ''passport'', ''passportnumber'', ''passwd'',
     ''password'', ''pay'', ''payment'', ''pgpassword'', ''phone'', ''phpsessid'', ''pin'',
     ''pkcs'', ''pkcs12'', ''postal'', ''privatekey'', ''privkey'', ''proof'', ''pwd'',
     ''refreshtoken'', ''rootkey'', ''rsa'', ''salt'', ''seal'', ''secret'', ''secretkey'',
     ''security'', ''sess'', ''session'', ''sessioncookie'', ''sessionid'', ''sessionkey'',
     ''sessiontoken'', ''sgn'', ''sid'', ''sig'', ''signature'', ''signingkey'', ''signkey'',
     ''social'', ''sshkey'', ''ssn'', ''swift'', ''tax'', ''tel'', ''telephone'', ''token'',
     ''totp'', ''xsrf'', ''xsrftoken'']"

definition nonSensitiveKeys :: "bytes list" where
  "nonSensitiveKeys = [
     ''content_security_policy'', ''content_security_policy_report_only'',
     ''x_content_security_policy'', ''strict_transport_security'',
     ''access_control_allow_credentials'', ''www_authenticate'', ''proxy_authenticate'',
     ''security_context'', ''security_group'', ''security_groups'']"

definition strongSecretTokens :: "bytes list" where
  "strongSecretTokens = [
     ''apikey'', ''apisecret'', ''appsecret'', ''accesskey'', ''accesstoken'', ''authkey'',
     ''authorization'', ''authtoken'', ''bearer'', ''bearertoken'', ''clientsecret'',
     ''connectionstring'', ''cred'', ''credential'', ''credentials'', ''csrf'', ''csrftoken'',
     ''dbpassword'', ''deploykey'', ''encryptionkey'', ''gpgkey'', ''hmac'', ''hostkey'',
     ''htpasswd'', ''idtoken'', ''jsessionid'', ''jwt'', ''key'', ''masterkey'', ''mfa'',
     ''otp'', ''pass'', ''passcode'', ''passphrase'', ''passwd'', ''password'',
     ''pgpassword'', ''phpsessid'', ''pkcs'', ''pkcs12'', ''privatekey'', ''privkey'',
     ''pwd'', ''refreshtoken'', ''rootkey'', ''secret'', ''secretkey'', ''session'',
     ''sessionid'', ''sessionkey'', ''sessiontoken'', ''signature'', ''signingkey'',
     ''signkey'', ''sshkey'', ''token'', ''totp'', ''xsrf'', ''xsrftoken'']"

definition sensitiveRoots :: "bytes list" where
  "sensitiveRoots = [
     ''accesskey'', ''apikey'', ''authkey'', ''cardnumber'', ''credential'', ''creditcard'',
     ''debitcard'', ''encryptionkey'', ''passcode'', ''passphrase'', ''passwd'', ''password'',
     ''privatekey'', ''privkey'', ''pwd'', ''secret'', ''secretkey'', ''sessionkey'',
     ''signature'', ''signingkey'', ''sshkey'', ''token'']"

abbreviation minGluedCompoundLen :: nat where
  "minGluedCompoundLen \<equiv> 5"

text \<open>\<^verbatim>\<open>newSensitiveRootIndex\<close>: the roots bucketed by their final byte.\<close>

definition sensitiveRootsByLastByte :: "char \<Rightarrow> bytes list" where
  "sensitiveRootsByLastByte c = filter (\<lambda>root. last root = c) sensitiveRoots"

section \<open>Sensitive tokens\<close>

text \<open>\<^verbatim>\<open>strings.HasSuffix\<close>.\<close>

definition HasSuffix :: "bytes \<Rightarrow> bytes \<Rightarrow> bool" where
  "HasSuffix s suf \<longleftrightarrow> length suf \<le> length s \<and> drop (length s - length suf) s = suf"

definition hasSensitiveRootSuffix :: "redactor \<Rightarrow> bytes \<Rightarrow> bool" where
  "hasSensitiveRootSuffix re tok \<longleftrightarrow>
     (\<exists>root \<in> set (sensitiveRootsByLastByte (last tok)).
        \<not> (length tok \<le> length root \<or> \<not> HasSuffix tok root) \<and> root \<notin> dropTokens re)"

definition matchesTokenOrRoot :: "redactor \<Rightarrow> bytes \<Rightarrow> bool" where
  "matchesTokenOrRoot re tok \<longleftrightarrow>
     (if tok \<in> dropTokens re then False
      else if tok \<in> set sensitiveTokens then True
      else if tok \<in> extraTokens re then True
      else minGluedCompoundLen \<le> length tok \<and> hasSensitiveRootSuffix re tok)"

definition matchesRoot :: "redactor \<Rightarrow> bytes \<Rightarrow> bool" where
  "matchesRoot re tok \<longleftrightarrow>
     (if tok = [] then False
      else if tok \<in> dropTokens re then False
      else if tok \<in> set sensitiveRoots then True
      else minGluedCompoundLen \<le> length tok \<and> hasSensitiveRootSuffix re tok)"

text \<open>The loop that strips the trailing digit run.\<close>

definition stripDigits :: "bytes \<Rightarrow> bytes" where
  "stripDigits base = rev (dropWhile isDigitByte (rev base))"

definition sensitiveTokenSuffix :: "redactor \<Rightarrow> bytes \<Rightarrow> bool" where
  "sensitiveTokenSuffix re lowered \<longleftrightarrow>
     (if last lowered = CHR ''s'' then matchesRoot re (butlast lowered)
      else (let base = stripDigits lowered in base \<noteq> [] \<and> matchesTokenOrRoot re base))"

definition sensitiveToken :: "redactor \<Rightarrow> bytes \<Rightarrow> bool" where
  "sensitiveToken re lowered \<longleftrightarrow>
     (let n = length lowered in
      if n = 0 then False
      else if lowered \<in> dropTokens re then False
      else if lowered \<in> set sensitiveTokens then True
      else if lowered \<in> extraTokens re then True
      else if minGluedCompoundLen \<le> n \<and> hasSensitiveRootSuffix re lowered then True
      else (let c = last lowered in
            if isDigitByte c \<or> (c = CHR ''s'' \<and> 2 \<le> n) then sensitiveTokenSuffix re lowered
            else False))"

text \<open>
  Both the stack buffer and, past 32 bytes, \<^verbatim>\<open>strings.ToLower\<close> lower the token byte by byte:
  the token is ASCII.
\<close>

definition sensitiveTokenASCII :: "redactor \<Rightarrow> bytes \<Rightarrow> bool" where
  "sensitiveTokenASCII re tok \<longleftrightarrow>
     (if length tok = 0 then False else sensitiveToken re (map lowerASCIIByte tok))"

section \<open>Two-word pairs\<close>

datatype pairKind = pairNone | pairFirstLastName | pairNationalID | pairConnectionStr

definition pairHeadKind :: "bytes \<Rightarrow> pairKind" where
  "pairHeadKind tok =
     (if length tok = 4 \<and> equalsASCIIFold tok ''last'' then pairFirstLastName
      else if length tok = 5 \<and> equalsASCIIFold tok ''first'' then pairFirstLastName
      else if length tok = 8 \<and> equalsASCIIFold tok ''national'' then pairNationalID
      else if length tok = 10 \<and> equalsASCIIFold tok ''connection'' then pairConnectionStr
      else pairNone)"

fun matchesPairTail :: "pairKind \<Rightarrow> bytes \<Rightarrow> bool" where
  "matchesPairTail pairFirstLastName tok = equalsASCIIFold tok ''name''"
| "matchesPairTail pairNationalID tok = equalsASCIIFold tok ''id''"
| "matchesPairTail pairConnectionStr tok = equalsASCIIFold tok ''string''"
| "matchesPairTail pairNone tok = False"

definition matchesPairString :: "bytes \<Rightarrow> bytes \<Rightarrow> bool" where
  "matchesPairString prev tok \<longleftrightarrow>
     (if prev = ''first'' \<or> prev = ''last'' then tok = ''name''
      else if prev = ''national'' then tok = ''id''
      else if prev = ''connection'' then tok = ''string''
      else False)"

definition closeSensitiveToken :: "redactor \<Rightarrow> bytes \<Rightarrow> pairKind \<Rightarrow> bool \<times> pairKind" where
  "closeSensitiveToken re tok prevPairHead =
     (if sensitiveTokenASCII re tok then (True, pairNone)
      else if matchesPairTail prevPairHead tok then (True, pairNone)
      else (False, pairHeadKind tok))"

section \<open>The ASCII classifier\<close>

definition isUpperByte :: "char \<Rightarrow> bool" where
  "isUpperByte c \<longleftrightarrow> CHR ''A'' \<le> c \<and> c \<le> CHR ''Z''"

definition isLowerByte :: "char \<Rightarrow> bool" where
  "isLowerByte c \<longleftrightarrow> CHR ''a'' \<le> c \<and> c \<le> CHR ''z''"

text \<open>
  The loop over the key, with \<open>cur\<close> the open token \<^verbatim>\<open>key[start:i]\<close> (empty for
  \<^verbatim>\<open>start = -1\<close>), the three flags and the primed pair head. \<open>None\<close> is the result
  \<^verbatim>\<open>(false, false)\<close> on a non-ASCII byte; \<open>Some b\<close> is \<^verbatim>\<open>(b, true)\<close>.
\<close>

fun asciiFast_loop ::
    "redactor \<Rightarrow> bytes \<Rightarrow> bytes \<Rightarrow> bool \<Rightarrow> bool \<Rightarrow> bool \<Rightarrow> pairKind \<Rightarrow> bool option" where
  "asciiFast_loop re [] cur prevLD prevU prevUs ph =
     (if cur \<noteq> [] then Some (fst (closeSensitiveToken re cur ph)) else Some False)"
| "asciiFast_loop re (c # cs) cur prevLD prevU prevUs ph =
     (if CHR 0x80 \<le> c then None
      else if isASCIIAlphaNum c then
        (let up = isUpperByte c; lo = isLowerByte c; ld = lo \<or> isDigitByte c
         in if up \<and> prevLD \<and> \<not> prevUs \<and> cur \<noteq> [] then
              (case closeSensitiveToken re cur ph of
                 (sens, ph') \<Rightarrow>
                   if sens then Some True else asciiFast_loop re cs [c] ld up False ph')
            else if lo \<and> prevU \<and> cur \<noteq> [] \<and> 1 < length cur then
              (case closeSensitiveToken re (butlast cur) ph of
                 (sens, ph') \<Rightarrow>
                   if sens then Some True
                   else asciiFast_loop re cs [last cur, c] ld up False ph')
            else asciiFast_loop re cs (cur @ [c]) ld up False ph)
      else if cur \<noteq> [] then
        (case closeSensitiveToken re cur ph of
           (sens, ph') \<Rightarrow>
             if sens then Some True else asciiFast_loop re cs [] False False True ph')
      else asciiFast_loop re cs [] False False True ph)"

definition sensitiveKeyASCIIFast :: "redactor \<Rightarrow> bytes \<Rightarrow> bool option" where
  "sensitiveKeyASCIIFast re key = asciiFast_loop re key [] False False True pairNone"

section \<open>Normalized keys\<close>

subsection \<open>Normalization\<close>

fun normalize_loop :: "unicode \<Rightarrow> nat list \<Rightarrow> bool \<Rightarrow> bool \<Rightarrow> bool \<Rightarrow> bytes" where
  "normalize_loop u [] prevLD prevU prevUs = []"
| "normalize_loop u (r # rs) prevLD prevU prevUs =
     (if IsLetter u r \<or> IsDigit u r then
        (let up = IsUpper u r;
             nextLo = (case rs of [] \<Rightarrow> False | r' # _ \<Rightarrow> IsLower u r')
         in (if up \<and> \<not> prevUs \<and> (prevLD \<or> prevU \<and> nextLo) then [CHR ''_''] else [])
            @ EncodeRune (ToLower u r)
            @ normalize_loop u rs (IsLower u r \<or> IsDigit u r) up False)
      else (if \<not> prevUs then [CHR ''_''] else []) @ normalize_loop u rs False False True)"

text \<open>\<^verbatim>\<open>strings.Trim(s, "_")\<close>.\<close>

definition trim_underscores :: "bytes \<Rightarrow> bytes" where
  "trim_underscores s =
     rev (dropWhile (\<lambda>c. c = CHR ''_'') (rev (dropWhile (\<lambda>c. c = CHR ''_'') s)))"

definition normalizeKey :: "unicode \<Rightarrow> bytes \<Rightarrow> bytes" where
  "normalizeKey u s = trim_underscores (normalize_loop u (runes s) False False True)"

subsection \<open>Classification of normalized keys\<close>

text \<open>
  The loops that split a normalized key at its underscores: \<open>cur\<close> is the token read so far
  and \<open>prev\<close> the one before it.
\<close>

fun normalized_loop :: "redactor \<Rightarrow> bytes \<Rightarrow> bytes \<Rightarrow> bytes option \<Rightarrow> bool" where
  "normalized_loop re [] cur prev =
     (cur \<noteq> [] \<and> (sensitiveToken re cur
                   \<or> (case prev of None \<Rightarrow> False | Some p \<Rightarrow> matchesPairString p cur)))"
| "normalized_loop re (c # cs) cur prev =
     (if c \<noteq> CHR ''_'' then normalized_loop re cs (cur @ [c]) prev
      else if cur \<noteq> [] then
        (if sensitiveToken re cur then True
         else if (case prev of None \<Rightarrow> False | Some p \<Rightarrow> matchesPairString p cur) then True
         else normalized_loop re cs [] (Some cur))
      else normalized_loop re cs [] prev)"

definition isSensitiveNormalizedKeyTokens :: "redactor \<Rightarrow> bytes \<Rightarrow> bool" where
  "isSensitiveNormalizedKeyTokens re normalized \<longleftrightarrow>
     (if normalized = [] then False else normalized_loop re normalized [] None)"

definition isNonSensitiveNormalizedKey :: "bytes \<Rightarrow> bool" where
  "isNonSensitiveNormalizedKey normalized \<longleftrightarrow> normalized \<in> set nonSensitiveKeys"

fun containsFold :: "bytes \<Rightarrow> bytes \<Rightarrow> bool" where
  "containsFold [] sub = (sub = [])"
| "containsFold (c # cs) sub =
     (map lowerASCIIByte (take (length sub) (c # cs)) = sub \<or> containsFold cs sub)"

definition mightBeNonSensitiveKey :: "bytes \<Rightarrow> bool" where
  "mightBeNonSensitiveKey key \<longleftrightarrow>
     containsFold key ''secur'' \<or> containsFold key ''authenticat'' \<or> containsFold key ''credential''"

definition isNonSensitiveKey :: "unicode \<Rightarrow> bytes \<Rightarrow> bool" where
  "isNonSensitiveKey u key \<longleftrightarrow>
     (if \<not> mightBeNonSensitiveKey key then False
      else isNonSensitiveNormalizedKey (normalizeKey u key))"

definition isStrongSecretToken :: "redactor \<Rightarrow> bytes \<Rightarrow> bool" where
  "isStrongSecretToken re tok \<longleftrightarrow>
     (if tok \<in> dropTokens re then False
      else if tok \<in> set strongSecretTokens then True
      else minGluedCompoundLen \<le> length tok \<and> hasSensitiveRootSuffix re tok)"

fun strong_loop :: "redactor \<Rightarrow> bytes \<Rightarrow> bytes \<Rightarrow> bool" where
  "strong_loop re [] cur = (cur \<noteq> [] \<and> isStrongSecretToken re cur)"
| "strong_loop re (c # cs) cur =
     (if c \<noteq> CHR ''_'' then strong_loop re cs (cur @ [c])
      else if cur \<noteq> [] \<and> isStrongSecretToken re cur then True
      else strong_loop re cs [])"

definition isStrongSecretName :: "unicode \<Rightarrow> redactor \<Rightarrow> bytes \<Rightarrow> bool" where
  "isStrongSecretName u re key \<longleftrightarrow> strong_loop re (normalizeKey u key) []"

section \<open>isSensitiveKey and its memo\<close>

text \<open>
  The classification itself, without the memo, as the rules use it; that the memo changes
  nothing is proved below.
\<close>

definition isSensitiveKey :: "unicode \<Rightarrow> redactor \<Rightarrow> bytes \<Rightarrow> bool" where
  "isSensitiveKey u re key \<longleftrightarrow>
     (case sensitiveKeyASCIIFast re key of
        Some result \<Rightarrow> result \<and> \<not> isNonSensitiveKey u key
      | None \<Rightarrow>
         (let normalized = normalizeKey u key
          in isSensitiveNormalizedKeyTokens re normalized \<and> \<not> isNonSensitiveNormalizedKey normalized))"

abbreviation sensitiveKeyCacheMaxEntries :: nat where
  "sensitiveKeyCacheMaxEntries \<equiv> 4096"

abbreviation sensitiveKeyCacheEvictBatch :: nat where
  "sensitiveKeyCacheEvictBatch \<equiv> 512"

text \<open>
  \<^verbatim>\<open>sensitiveKeyMemo.set\<close>: \<open>order\<close> is the order in which the runtime ranges over the map.
\<close>

definition memo_set ::
    "bytes list \<Rightarrow> bytes \<Rightarrow> bool \<Rightarrow> (bytes, bool) fmap \<Rightarrow> (bytes, bool) fmap" where
  "memo_set order k v data =
     fmupd k v
       (if sensitiveKeyCacheMaxEntries \<le> maplen data
        then fold fmdrop (take sensitiveKeyCacheEvictBatch order) data else data)"

definition isSensitiveKey_memo ::
    "unicode \<Rightarrow> redactor \<Rightarrow> bytes list \<Rightarrow> bytes \<Rightarrow> (bytes, bool) fmap \<Rightarrow> bool \<times> (bytes, bool) fmap" where
  "isSensitiveKey_memo u re order key data =
     (case sensitiveKeyASCIIFast re key of
        Some result \<Rightarrow> (result \<and> \<not> isNonSensitiveKey u key, data)
      | None \<Rightarrow>
         (case fmlookup data key of
            Some v \<Rightarrow> (v, data)
          | None \<Rightarrow>
             (let normalized = normalizeKey u key;
                  result = isSensitiveNormalizedKeyTokens re normalized
                           \<and> \<not> isNonSensitiveNormalizedKey normalized
              in (result, memo_set order key result data))))"

end
