(* ===== verification/RD_Rules.thy ===== *)
theory RD_Rules
  imports RD_Keys
begin

text \<open>
  The redaction rules of \<^verbatim>\<open>pkg/redact\<close> other than JSON: headers, JWTs, vendor tokens, URL
  userinfo, URL-encoded pairs and labelled attributes, XML elements, PEM blocks and card
  numbers, one group of definitions per source file.

  A Go rule has the shape \<^verbatim>\<open>(src, i, dst) -> (next, dst', ok)\<close> and only ever appends to
  \<open>dst\<close>. Here it returns \<open>NoMatch\<close> for \<^verbatim>\<open>ok == false\<close> and \<open>Match next out\<close> with the bytes it
  appends; \<open>Panic\<close> is the index out of range of \<^verbatim>\<open>json.go:110\<close>, the one run-time panic
  represented. Indexes that are \<^verbatim>\<open>-1\<close> in Go are \<open>None\<close>.
\<close>

datatype rule_result = NoMatch | Match nat bytes | Panic

section \<open>The marker\<close>

definition markerEndsAt :: "redactor \<Rightarrow> bytes \<Rightarrow> nat \<Rightarrow> bool" where
  "markerEndsAt re src j \<longleftrightarrow>
     (let n = length (marker re) in
      \<not> (j + 1 < n \<or> src ! j \<noteq> last (marker re))
      \<and> (\<forall>k < n. src ! (j + 1 - n + k) = marker re ! k))"

definition markerAt :: "redactor \<Rightarrow> bytes \<Rightarrow> nat \<Rightarrow> bool" where
  "markerAt re src i \<longleftrightarrow>
     \<not> length src < i + length (marker re)
     \<and> (\<forall>k < length (marker re). src ! (i + k) = marker re ! k)"

section \<open>Headers\<close>

definition sensitiveHeaderValueStart :: "unicode \<Rightarrow> redactor \<Rightarrow> bytes \<Rightarrow> nat \<Rightarrow> nat option" where
  "sensitiveHeaderValueStart u re src i =
     (let nameEnd = scan_while isHeaderNameByte src i in
      if nameEnd = i then None
      else let colon = skipInlineSpaces src nameEnd in
           if length src \<le> colon \<or> src ! colon \<noteq> CHR '':'' then None
           else if \<not> isSensitiveKey u re (slice src i nameEnd) then None
           else Some (skipInlineSpaces src (colon + 1)))"

definition skipHeaderLinePrefix :: "bytes \<Rightarrow> nat \<Rightarrow> nat" where
  "skipHeaderLinePrefix src i =
     (let j = skipInlineSpaces src i in
      if j < length src \<and> (src ! j = CHR ''>'' \<or> src ! j = CHR ''<'')
      then skipInlineSpaces src (j + 1) else j)"

definition headerValueEnd :: "bytes \<Rightarrow> nat \<Rightarrow> nat" where
  "headerValueEnd src valueStart =
     (let end = scan_while (\<lambda>c. c \<noteq> NL) src valueStart in
      if end < length src \<and> valueStart < end \<and> src ! (end - 1) = CR then end - 1 else end)"

section \<open>JWT\<close>

abbreviation minJWTHeaderLen :: nat where "minJWTHeaderLen \<equiv> 12"
abbreviation minJWTSegmentLen :: nat where "minJWTSegmentLen \<equiv> 3"

function jwt_segments :: "bytes \<Rightarrow> nat \<Rightarrow> nat" where
  "jwt_segments src end =
     (if end < length src \<and> src ! end = CHR ''.'' \<and> end + 1 < length src
         \<and> isBase64URLByte (src ! (end + 1))
      then jwt_segments src (scanBase64URL src (end + 1)) else end)"
  by pat_completeness auto
termination
proof (relation "measure (\<lambda>(src, end). length src - end)")
  fix src :: bytes and "end" :: nat
  assume "end < length src \<and> src ! end = CHR ''.'' \<and> end + 1 < length src
    \<and> isBase64URLByte (src ! (end + 1))"
  then show "((src, scanBase64URL src (end + 1)), (src, end)) \<in> measure (\<lambda>(src, end). length src - end)"
    using scans_ge(2) [of "end + 1" src] by (auto simp: diff_less_mono2)
qed simp

declare jwt_segments.simps [simp del]

definition jwtTokenEnd :: "bytes \<Rightarrow> nat \<Rightarrow> nat" where
  "jwtTokenEnd src i =
     (if \<not> hasPrefixAt src i ''eyJ'' then 0
      else let seg1End = scanBase64URL src i in
           if seg1End - i < minJWTHeaderLen \<or> length src \<le> seg1End \<or> src ! seg1End \<noteq> CHR ''.'' then 0
           else let seg2End = scanBase64URL src (seg1End + 1);
                    seg2Len = seg2End - (seg1End + 1);
                    hasNextSegment = (seg2End < length src \<and> src ! seg2End = CHR ''.''
                      \<and> seg2End + 1 < length src \<and> isBase64URLByte (src ! (seg2End + 1)));
                    seg2OK = (minJWTSegmentLen \<le> seg2Len \<or> (seg2Len = 0 \<and> hasNextSegment))
                in if \<not> seg2OK then 0 else jwt_segments src seg2End)"

definition appendRedactedJWTAt :: "redactor \<Rightarrow> bytes \<Rightarrow> nat \<Rightarrow> rule_result" where
  "appendRedactedJWTAt re src i =
     (if 0 < i \<and> isWordChar (src ! (i - 1)) then NoMatch
      else let end = jwtTokenEnd src i in
           if end = 0 then NoMatch else Match end (marker re))"

section \<open>Vendor tokens\<close>

record vendorPrefix =
  vprefix :: bytes
  minTail :: nat
  dotBody :: bool
  noDash :: bool

abbreviation vp :: "bytes \<Rightarrow> nat \<Rightarrow> vendorPrefix" where
  "vp p n \<equiv> \<lparr>vprefix = p, minTail = n, dotBody = False, noDash = False\<rparr>"

definition vendorTokenPrefixes :: "char \<Rightarrow> vendorPrefix list" where
  "vendorTokenPrefixes c =
     (if c = CHR ''g'' then
        [vp ''github_pat_'' 20, vp ''ghp_'' 20, vp ''gho_'' 20, vp ''ghu_'' 20, vp ''ghs_'' 20,
         vp ''ghr_'' 20, vp ''glpat-'' 16]
      else if c = CHR ''x'' then
        [vp ''xoxb-'' 10, vp ''xoxp-'' 10, vp ''xoxa-'' 10, vp ''xoxs-'' 10, vp ''xoxe-'' 10]
      else if c = CHR ''s'' then
        [vp ''sk_live_'' 16, vp ''sk_test_'' 16, vp ''sk-proj-'' 16, vp ''sk-ant-'' 16,
         \<lparr>vprefix = ''sk-'', minTail = 20, dotBody = False, noDash = True\<rparr>,
         vp ''shpat_'' 24, vp ''shpss_'' 24]
      else if c = CHR ''S'' then [\<lparr>vprefix = ''SG.'', minTail = 16, dotBody = True, noDash = False\<rparr>]
      else if c = CHR ''h'' then [vp ''hf_'' 20]
      else if c = CHR ''r'' then [vp ''rk_live_'' 16, vp ''rk_test_'' 16]
      else if c = CHR ''w'' then [vp ''whsec_'' 16]
      else if c = CHR ''d'' then [vp ''dop_v1_'' 32, vp ''dckr_pat_'' 20]
      else if c = CHR ''A'' then [vp ''AKIA'' 16, vp ''ASIA'' 16, vp ''AIza'' 30]
      else [])"

definition isVendorTokenStart :: "bytes \<Rightarrow> nat \<Rightarrow> bool" where
  "isVendorTokenStart src i \<longleftrightarrow>
     (if length src \<le> i + 2 then False
      else slice src i (i + 3) \<in> set [''ghp'', ''gho'', ''ghu'', ''ghs'', ''ghr'', ''git'', ''glp'',
             ''xox'', ''sk_'', ''sk-'', ''shp'', ''SG.'', ''hf_'', ''rk_'', ''whs'', ''dop'', ''dck'',
             ''AKI'', ''ASI'', ''AIz''])"

fun trim_dots :: "bytes \<Rightarrow> nat \<Rightarrow> nat" where
  "trim_dots src 0 = 0"
| "trim_dots src (Suc i) = (if src ! i = CHR ''.'' then trim_dots src i else Suc i)"

definition scanVendorTokenBody :: "bytes \<Rightarrow> nat \<Rightarrow> vendorPrefix \<Rightarrow> nat" where
  "scanVendorTokenBody src i v =
     (let j = scan_while (\<lambda>c. isWordChar c \<or> (dotBody v \<and> c = CHR ''.'')
                            \<or> (\<not> noDash v \<and> c = CHR ''-'')) src i
      in if dotBody v then trim_dots src j else j)"

fun vendor_loop :: "redactor \<Rightarrow> bytes \<Rightarrow> nat \<Rightarrow> vendorPrefix list \<Rightarrow> rule_result" where
  "vendor_loop re src i [] = NoMatch"
| "vendor_loop re src i (v # vs) =
     (if \<not> hasPrefixAt src i (vprefix v) then vendor_loop re src i vs
      else let end = scanVendorTokenBody src (i + length (vprefix v)) v in
           if end < i + length (vprefix v) + minTail v then vendor_loop re src i vs
           else Match end (marker re))"

definition appendRedactedVendorTokenAt :: "redactor \<Rightarrow> bytes \<Rightarrow> nat \<Rightarrow> rule_result" where
  "appendRedactedVendorTokenAt re src i =
     (if 0 < i \<and> isWordChar (src ! (i - 1)) then NoMatch
      else vendor_loop re src i (vendorTokenPrefixes (src ! i)))"

section \<open>URL userinfo\<close>

abbreviation maxUserinfoScan :: nat where "maxUserinfoScan \<equiv> 256"

definition isUserinfoBoundary :: "char \<Rightarrow> bool" where
  "isUserinfoBoundary c \<longleftrightarrow> c \<in> set [CHR ''/'', CHR ''?'', CHR ''#'', CHR '' '', TAB, NL, CR, DQ, SQ,
     CHR ''<'', CHR ''>'']"

definition userinfoResult :: "nat option \<Rightarrow> nat option \<Rightarrow> nat option \<times> nat option" where
  "userinfoResult pwColon lastAt =
     (case pwColon of
        None \<Rightarrow> (None, lastAt)
      | Some p \<Rightarrow>
         (case lastAt of None \<Rightarrow> (None, None)
          | Some a \<Rightarrow> if a < p then (None, Some a) else (Some p, Some a)))"

function userinfo_loop ::
    "bytes \<Rightarrow> nat \<Rightarrow> nat \<Rightarrow> nat option \<Rightarrow> nat option \<Rightarrow> nat option \<times> nat option" where
  "userinfo_loop src limit j pwColon lastAt =
     (if j < limit then
        (let c = src ! j in
         if c = CHR ''@'' then userinfo_loop src limit (j + 1) pwColon (Some j)
         else if isUserinfoBoundary c then userinfoResult pwColon lastAt
         else if c = CHR '':'' \<and> pwColon = None then userinfo_loop src limit (j + 1) (Some j) lastAt
         else userinfo_loop src limit (j + 1) pwColon lastAt)
      else if limit < length src then (None, None)
      else userinfoResult pwColon lastAt)"
  by pat_completeness auto
termination
  by (relation "measure (\<lambda>(src, limit, j, p, a). limit - j)") auto

declare userinfo_loop.simps [simp del]

definition findUserinfoPassword :: "bytes \<Rightarrow> nat \<Rightarrow> nat option \<times> nat option" where
  "findUserinfoPassword src uiStart =
     userinfo_loop src (min (length src) (uiStart + maxUserinfoScan)) uiStart None None"

definition appendRedactedURLPasswordAt :: "redactor \<Rightarrow> bytes \<Rightarrow> nat \<Rightarrow> rule_result" where
  "appendRedactedURLPasswordAt re src colon =
     (if length src \<le> colon + 2 \<or> src ! (colon + 1) \<noteq> CHR ''/'' \<or> src ! (colon + 2) \<noteq> CHR ''/''
      then NoMatch
      else (case findUserinfoPassword src (colon + 3) of
              (Some pwColon, Some at) \<Rightarrow> Match at (slice src colon (pwColon + 1) @ marker re)
            | _ \<Rightarrow> NoMatch))"

section \<open>URL-encoded pairs and labelled attributes\<close>

definition isURLKeyBoundary :: "char \<Rightarrow> bool" where
  "isURLKeyBoundary c \<longleftrightarrow> c \<in> set [CHR ''&'', CHR ''?'', CHR ''#'', NL, CHR '' '', TAB, CHR '';'', CHR '','',
     DQ, CHR ''='', CHR ''<'', CHR ''>'', CR]"

definition isURLValueBoundary :: "char \<Rightarrow> bool" where
  "isURLValueBoundary c \<longleftrightarrow> c \<in> set [CHR ''&'', DQ, CR, NL, CHR ''<'', CHR ''>'', CHR '','', CHR '';'']"

text \<open>The backward scan for the start of the key.\<close>

fun url_key_start :: "bytes \<Rightarrow> nat \<Rightarrow> nat" where
  "url_key_start src 0 = 0"
| "url_key_start src (Suc k) = (if isURLKeyBoundary (src ! k) then Suc k else url_key_start src k)"

definition quotedValueEnd :: "bytes \<Rightarrow> nat \<Rightarrow> nat" where
  "quotedValueEnd src i =
     (let j = scan_while (\<lambda>c. c \<noteq> DQ \<and> c \<noteq> CR \<and> c \<noteq> NL) src (i + 1) in
      if j < length src \<and> src ! j = DQ then scan_while isWordChar src (j + 1) else j)"

definition redactedMarkerEnd :: "redactor \<Rightarrow> bytes \<Rightarrow> nat \<Rightarrow> nat" where
  "redactedMarkerEnd re src i =
     (let end = i + length (marker re) in
      if \<not> markerAt re src i \<or> (end < length src \<and> isWordChar (src ! end)) then 0 else end)"

definition urlEncodedValueEnd :: "redactor \<Rightarrow> bytes \<Rightarrow> nat \<Rightarrow> nat" where
  "urlEncodedValueEnd re src i =
     (if i < length src \<and> src ! i = DQ then quotedValueEnd src i
      else let end = redactedMarkerEnd re src i in
           if 0 < end then end else scan_while (\<lambda>c. \<not> isURLValueBoundary c) src i)"

definition isAttrQuote :: "char \<Rightarrow> bool" where
  "isAttrQuote c \<longleftrightarrow> c = DQ \<or> c = SQ"

definition isAttrValueName :: "bytes \<Rightarrow> bool" where
  "isAttrValueName name \<longleftrightarrow> equalsASCIIFold name ''value'' \<or> equalsASCIIFold name ''val''"

function attr_quote_loop :: "bytes \<Rightarrow> char \<Rightarrow> nat \<Rightarrow> nat option" where
  "attr_quote_loop src quote j =
     (if j < length src then
        (if src ! j = quote then Some j
         else if src ! j \<in> set [NL, CR, CHR ''<'', CHR ''>''] then None
         else attr_quote_loop src quote (j + 1))
      else None)"
  by pat_completeness auto
termination
  by (relation "measure (\<lambda>(src, q, j). length src - j)") auto

declare attr_quote_loop.simps [simp del]

definition attrQuotedValueEnd :: "bytes \<Rightarrow> nat \<Rightarrow> nat option" where
  "attrQuotedValueEnd src q = attr_quote_loop src (src ! q) (q + 1)"

definition siblingValueAttrQuote :: "bytes \<Rightarrow> nat \<Rightarrow> nat option" where
  "siblingValueAttrQuote src from =
     (let nameStart = skipInlineSpaces src from in
      if nameStart = from then None
      else let j = scan_while isHeaderNameByte src nameStart in
           if \<not> isAttrValueName (slice src nameStart j) then None
           else let j = skipInlineSpaces src j in
                if length src \<le> j \<or> src ! j \<noteq> CHR ''='' then None
                else let j = skipInlineSpaces src (j + 1) in
                     if length src \<le> j \<or> \<not> isAttrQuote (src ! j) then None else Some j)"

definition findSiblingAttrValue :: "bytes \<Rightarrow> nat \<Rightarrow> (nat \<times> nat) option" where
  "findSiblingAttrValue src from =
     (case siblingValueAttrQuote src from of
        None \<Rightarrow> None
      | Some open \<Rightarrow> map_option (\<lambda>closeQuote. (open, closeQuote)) (attrQuotedValueEnd src open))"

definition appendLabeledSecretAttr :: "unicode \<Rightarrow> redactor \<Rightarrow> bytes \<Rightarrow> nat \<Rightarrow> rule_result" where
  "appendLabeledSecretAttr u re src eq =
     (let labelOpen = eq + 1 in
      if length src \<le> labelOpen \<or> \<not> isAttrQuote (src ! labelOpen) then NoMatch
      else (case attrQuotedValueEnd src labelOpen of
              None \<Rightarrow> NoMatch
            | Some labelClose \<Rightarrow>
               (if \<not> isStrongSecretName u re (slice src (labelOpen + 1) labelClose) then NoMatch
                else (case findSiblingAttrValue src (labelClose + 1) of
                        None \<Rightarrow> NoMatch
                      | Some (sibOpen, sibClose) \<Rightarrow>
                          Match (sibClose + 1)
                            (slice src eq (sibOpen + 1) @ marker re @ [src ! sibClose])))))"

definition appendRedactedURLEncodedValueAt :: "unicode \<Rightarrow> redactor \<Rightarrow> bytes \<Rightarrow> nat \<Rightarrow> rule_result" where
  "appendRedactedURLEncodedValueAt u re src eq =
     (let rawKey = slice src (url_key_start src eq) eq in
      if CHR ''/'' \<in> set rawKey then NoMatch
      else if isSensitiveKey u re rawKey then
        Match (urlEncodedValueEnd re src (eq + 1)) (CHR ''='' # marker re)
      else if equalsASCIIFold rawKey ''name'' then appendLabeledSecretAttr u re src eq
      else NoMatch)"

section \<open>XML elements\<close>

abbreviation maxXMLContentScan :: nat where "maxXMLContentScan \<equiv> 8192"
abbreviation xmlCDATAPrefix :: bytes where "xmlCDATAPrefix \<equiv> ''<![CDATA[''"

definition skipToXMLTerminator :: "bytes \<Rightarrow> nat \<Rightarrow> bytes \<Rightarrow> nat" where
  "skipToXMLTerminator src start term =
     (let limit = min (length src) (start + maxXMLContentScan) in
      case bytes_Index (slice src start limit) term of
        Some idx \<Rightarrow> start + idx + length term
      | None \<Rightarrow> length src)"

text \<open>\<open>None\<close> is the result \<^verbatim>\<open>(i, false)\<close>.\<close>

definition skipXMLCommentOrCDATA :: "bytes \<Rightarrow> nat \<Rightarrow> nat option" where
  "skipXMLCommentOrCDATA src i =
     (if hasPrefixAt src i ''<!--'' then Some (skipToXMLTerminator src (i + 4) ''-->'')
      else if hasPrefixAt src i xmlCDATAPrefix then
        Some (skipToXMLTerminator src (i + length xmlCDATAPrefix) '']]>'')
      else None)"

lemma skipToXMLTerminator_gt:
  "i < start \<Longrightarrow> i < length src \<Longrightarrow> i < skipToXMLTerminator src start term"
  by (auto simp: skipToXMLTerminator_def Let_def split: option.splits)

lemma skipXML_gt: "skipXMLCommentOrCDATA src i = Some k \<Longrightarrow> i < length src \<Longrightarrow> i < k"
  by (auto simp: skipXMLCommentOrCDATA_def skipToXMLTerminator_gt split: if_splits)

function xml_content :: "bytes \<Rightarrow> nat \<Rightarrow> nat" where
  "xml_content src j =
     (if j < length src then
        (if src ! j \<noteq> CHR ''<'' then xml_content src (j + 1)
         else (case skipXMLCommentOrCDATA src j of Some k \<Rightarrow> xml_content src k | None \<Rightarrow> j))
      else j)"
  by pat_completeness auto
termination
  by (relation "measure (\<lambda>(src, j). length src - j)") (auto dest: skipXML_gt)

declare xml_content.simps [simp del]

definition isMatchingXMLClosingTag :: "bytes \<Rightarrow> nat \<Rightarrow> bytes \<Rightarrow> bool" where
  "isMatchingXMLClosingTag src i name \<longleftrightarrow>
     (if \<not> hasPrefixAt src i ''</'' then False
      else let nameStart = i + 2 in
           if length src < nameStart + length name then False
           else if \<exists>j < length name. lowerASCIIByte (src ! (nameStart + j)) \<noteq> lowerASCIIByte (name ! j)
           then False
           else let gt = skipInlineSpaces src (nameStart + length name)
                in gt < length src \<and> src ! gt = CHR ''>'')"

definition xmlFlatContentEnd :: "bytes \<Rightarrow> nat \<Rightarrow> bytes \<Rightarrow> nat" where
  "xmlFlatContentEnd src contentStart name =
     (let contentEnd = xml_content src contentStart in
      if contentEnd = contentStart \<or> length src \<le> contentEnd
         \<or> \<not> isMatchingXMLClosingTag src contentEnd name
      then 0 else contentEnd)"

definition xmlOpenTagClose :: "bytes \<Rightarrow> nat \<Rightarrow> nat" where
  "xmlOpenTagClose src nameEnd =
     (let gt = scan_while (\<lambda>c. c \<noteq> CHR ''>'' \<and> c \<noteq> NL \<and> c \<noteq> CHR ''<'') src nameEnd in
      if length src \<le> gt \<or> src ! gt \<noteq> CHR ''>'' \<or> src ! (gt - 1) = CHR ''/'' then 0 else gt)"

definition appendRedactedXMLValueAt :: "unicode \<Rightarrow> redactor \<Rightarrow> bytes \<Rightarrow> nat \<Rightarrow> rule_result" where
  "appendRedactedXMLValueAt u re src i =
     (let nameStart = i + 1 in
      if length src \<le> nameStart \<or> \<not> isASCIIAlpha (src ! nameStart) then NoMatch
      else let nameEnd = scan_while isXMLNameByte src nameStart;
               gt = xmlOpenTagClose src nameEnd
           in if gt = 0 then NoMatch
              else let name = slice src nameStart nameEnd in
                   if \<not> isSensitiveKey u re name then NoMatch
                   else let contentStart = gt + 1;
                            contentEnd = xmlFlatContentEnd src contentStart name
                        in if contentEnd = 0 then NoMatch
                           else Match contentEnd (slice src i contentStart @ marker re))"

section \<open>PEM private keys\<close>

abbreviation pemBeginPrefix :: bytes where "pemBeginPrefix \<equiv> ''-----BEGIN ''"
abbreviation pemEndPrefix :: bytes where "pemEndPrefix \<equiv> ''-----END ''"
abbreviation maxPEMBeginScan :: nat where "maxPEMBeginScan \<equiv> 64"
abbreviation maxPEMBodyScan :: nat where "maxPEMBodyScan \<equiv> 16384"

definition pemPrivateKeyLabels :: "bytes list" where
  "pemPrivateKeyLabels = [''PRIVATE KEY-----'', ''PRIVATE KEY BLOCK-----'']"

definition pemBeginLineIsPrivateKey :: "bytes \<Rightarrow> bool" where
  "pemBeginLineIsPrivateKey line \<longleftrightarrow>
     (\<exists>label \<in> set pemPrivateKeyLabels.
        case bytes_Index line label of Some idx \<Rightarrow> idx + length label = length line | None \<Rightarrow> False)"

definition inlinePEMPrivateKeyLabelEnd :: "bytes \<Rightarrow> nat \<Rightarrow> nat option" where
  "inlinePEMPrivateKeyLabelEnd src i =
     (let window = slice src i (min (length src) (i + maxPEMBeginScan)) in
      fold (\<lambda>label best.
              case bytes_Index window label of
                None \<Rightarrow> best
              | Some idx \<Rightarrow>
                 (let end = i + idx + length label in
                  case best of None \<Rightarrow> Some end | Some b \<Rightarrow> if end < b then Some end else best))
        pemPrivateKeyLabels None)"

function findPEMEndLine :: "bytes \<Rightarrow> nat \<Rightarrow> nat" where
  "findPEMEndLine src endLine =
     (if endLine < length src \<and> \<not> hasPrefixAt src endLine pemEndPrefix then
        (let nl = scanToLineFeed src endLine in
         if length src \<le> nl then length src else findPEMEndLine src (nl + 1))
      else endLine)"
  by pat_completeness auto
termination
proof (relation "measure (\<lambda>(src, i). length src - i)", goal_cases)
  case (2 src endLine nl)
  then show ?case using scans_ge(5) [of endLine src] by auto
qed simp

declare findPEMEndLine.simps [simp del]

definition appendPEMBodyTerminator :: "bytes \<Rightarrow> nat \<Rightarrow> bytes" where
  "appendPEMBodyTerminator src endLine =
     (if endLine = 0 \<or> length src < endLine \<or> src ! (endLine - 1) \<noteq> NL then []
      else if 2 \<le> endLine \<and> src ! (endLine - 2) = CR then [CR, NL] else [NL])"

definition appendRedactedPEMKeyAt :: "redactor \<Rightarrow> bytes \<Rightarrow> nat \<Rightarrow> rule_result" where
  "appendRedactedPEMKeyAt re src i =
     (if \<not> hasPrefixAt src i pemBeginPrefix then NoMatch
      else let lineEnd = scanToLineFeed src i;
               line0 = slice src i lineEnd;
               line = (if line0 \<noteq> [] \<and> last line0 = CR then butlast line0 else line0)
           in if \<not> pemBeginLineIsPrivateKey line then NoMatch
              else let bodyStart = (if lineEnd < length src then lineEnd + 1 else lineEnd);
                       endLine = findPEMEndLine src bodyStart
                   in if endLine = bodyStart then NoMatch
                      else Match endLine
                             (slice src i bodyStart @ marker re @ appendPEMBodyTerminator src endLine))"

definition isWhitespaceOnly :: "bytes \<Rightarrow> bool" where
  "isWhitespaceOnly b \<longleftrightarrow> (\<forall>c \<in> set b. c = CHR '' '' \<or> c = TAB \<or> c = CR \<or> c = NL)"

definition inlinePEMBodyEnd :: "bytes \<Rightarrow> nat \<Rightarrow> nat" where
  "inlinePEMBodyEnd src markerEnd =
     (let limit = min (length src) (markerEnd + maxPEMBodyScan) in
      case bytes_Index (slice src markerEnd limit) pemEndPrefix of
        Some idx \<Rightarrow> markerEnd + idx
      | None \<Rightarrow> scan_while (\<lambda>c. c \<noteq> DQ \<and> c \<noteq> NL) src markerEnd)"

definition appendRedactedInlinePEMKeyAt :: "redactor \<Rightarrow> bytes \<Rightarrow> nat \<Rightarrow> rule_result" where
  "appendRedactedInlinePEMKeyAt re src i =
     (if \<not> hasPrefixAt src i pemBeginPrefix then NoMatch
      else (case inlinePEMPrivateKeyLabelEnd src i of
              None \<Rightarrow> NoMatch
            | Some markerEnd \<Rightarrow>
               (let end = inlinePEMBodyEnd src markerEnd in
                if isWhitespaceOnly (slice src markerEnd end) then NoMatch
                else Match end (slice src i markerEnd @ marker re))))"

section \<open>Card numbers\<close>

abbreviation maxCardDigits :: nat where "maxCardDigits \<equiv> 19"
abbreviation minShortMaestroDigits :: nat where "minShortMaestroDigits \<equiv> 12"

text \<open>\<^verbatim>\<open>int(c - '0')\<close>, with the wrap-around of the byte subtraction.\<close>

definition digit_val :: "char \<Rightarrow> nat" where
  "digit_val c = (byte_val c + 208) mod 256"

definition matchesCard15 :: "bytes \<Rightarrow> bool" where
  "matchesCard15 d \<longleftrightarrow>
     (if d ! 0 = CHR ''3'' then d ! 1 = CHR ''4'' \<or> d ! 1 = CHR ''7''
      else if d ! 0 = CHR ''2'' then d ! 1 = CHR ''1'' \<and> d ! 2 = CHR ''3'' \<and> d ! 3 = CHR ''1''
      else if d ! 0 = CHR ''1'' then d ! 1 = CHR ''8'' \<and> d ! 2 = CHR ''0'' \<and> d ! 3 = CHR ''0''
      else False)"

definition matchesCard14 :: "bytes \<Rightarrow> bool" where
  "matchesCard14 d \<longleftrightarrow> d ! 0 = CHR ''3''
     \<and> ((d ! 1 = CHR ''0'' \<and> CHR ''0'' \<le> d ! 2 \<and> d ! 2 \<le> CHR ''5'')
        \<or> d ! 1 = CHR ''6'' \<or> d ! 1 = CHR ''8'')"

definition matchesMaestroIIN :: "bytes \<Rightarrow> bool" where
  "matchesMaestroIIN d \<longleftrightarrow>
     (let iin = digit_val (d ! 0) * 1000 + digit_val (d ! 1) * 100 + digit_val (d ! 2) * 10
                + digit_val (d ! 3)
      in iin \<in> set [5018, 5020, 5038, 5893, 6304, 6759, 6761, 6762, 6763])"

definition matchesCard6Series :: "bytes \<Rightarrow> bool" where
  "matchesCard6Series d \<longleftrightarrow> d ! 1 = CHR ''2'' \<or> d ! 1 = CHR ''5''
     \<or> (d ! 1 = CHR ''0'' \<and> d ! 2 = CHR ''1'' \<and> d ! 3 = CHR ''1'')
     \<or> (d ! 1 = CHR ''4'' \<and> CHR ''4'' \<le> d ! 2 \<and> d ! 2 \<le> CHR ''9'')"

definition matchesCard16To19 :: "bytes \<Rightarrow> nat \<Rightarrow> bool" where
  "matchesCard16To19 d n \<longleftrightarrow>
     (if n = 16 \<and> (d ! 0 = CHR ''2'' \<or> d ! 0 = CHR ''5'') \<and> CHR ''1'' \<le> d ! 1 \<and> d ! 1 \<le> CHR ''7''
      then True
      else if d ! 0 = CHR ''3'' then d ! 1 = CHR ''5''
      else if matchesMaestroIIN d then True
      else d ! 0 = CHR ''6'' \<and> matchesCard6Series d)"

definition matchesCardPattern :: "bytes \<Rightarrow> bool" where
  "matchesCardPattern d \<longleftrightarrow>
     (let n = length d in
      if n < 13 \<or> maxCardDigits < n then False
      else if d ! 0 = CHR ''4'' then n = 13 \<or> n = 16 \<or> n = 19
      else if 16 \<le> n then matchesCard16To19 d n
      else if n = 15 then matchesCard15 d
      else if n = 14 then matchesCard14 d
      else False)"

text \<open>The loop of \<^verbatim>\<open>passesLuhn\<close>, over the digits from the last to the first.\<close>

fun luhn_loop :: "bytes \<Rightarrow> bool \<Rightarrow> nat \<Rightarrow> nat" where
  "luhn_loop [] dbl acc = acc"
| "luhn_loop (c # cs) dbl acc =
     (let d = digit_val c;
          d' = (if dbl then (if 9 < d * 2 then d * 2 - 9 else d * 2) else d)
      in luhn_loop cs (\<not> dbl) (acc + d'))"

definition passesLuhn :: "bytes \<Rightarrow> bool" where
  "passesLuhn digits \<longleftrightarrow> luhn_loop (rev digits) False 0 mod 10 = 0"

definition isCreditCard :: "redactor \<Rightarrow> bytes \<Rightarrow> bool" where
  "isCreditCard re digits \<longleftrightarrow>
     (if matchesCardPattern digits then \<not> luhn re \<or> passesLuhn digits
      else if luhn re \<and> minShortMaestroDigits \<le> length digits \<and> length digits < 16
              \<and> matchesMaestroIIN digits
      then passesLuhn digits
      else False)"

definition hasSeparatedDigit :: "bytes \<Rightarrow> nat \<Rightarrow> bool" where
  "hasSeparatedDigit src i \<longleftrightarrow> i + 1 < length src \<and> (src ! i = CHR '' '' \<or> src ! i = CHR ''-'')
     \<and> isDigitByte (src ! (i + 1))"

definition isGroupedCardCandidate :: "redactor \<Rightarrow> bytes \<Rightarrow> bool" where
  "isGroupedCardCandidate re digits \<longleftrightarrow>
     (let n = length digits in
      if n = 14 \<or> (n = 15 \<and> digits ! 0 \<noteq> CHR ''3'') then False else isCreditCard re digits)"

text \<open>
  \<^verbatim>\<open>copyDigits\<close> and \<^verbatim>\<open>appendDigits\<close> on the 19-byte array: the digits held so far, \<open>None\<close> for
  the result \<^verbatim>\<open>-1\<close>.
\<close>

definition copyDigits :: "bytes \<Rightarrow> bytes option" where
  "copyDigits s = (if maxCardDigits < length s then None else Some s)"

definition appendDigits :: "bytes \<Rightarrow> bytes \<Rightarrow> bytes option" where
  "appendDigits digits grp =
     (if maxCardDigits - length digits < length grp then None else Some (digits @ grp))"

function grouped_loop :: "redactor \<Rightarrow> bytes \<Rightarrow> bytes \<Rightarrow> nat \<Rightarrow> nat \<Rightarrow> nat" where
  "grouped_loop re src digits end best =
     (if hasSeparatedDigit src end then
        (let groupEnd = scanDigits src (end + 1) in
         case appendDigits digits (slice src (end + 1) groupEnd) of
           None \<Rightarrow> best
         | Some digits' \<Rightarrow>
             grouped_loop re src digits' groupEnd
               (if (length src \<le> groupEnd \<or> \<not> isWordChar (src ! groupEnd))
                   \<and> isGroupedCardCandidate re digits'
                then groupEnd else best))
      else best)"
  by pat_completeness auto
termination
proof (relation "measure (\<lambda>(re, src, ds, i, b). length src - i)", goal_cases)
  case (2 re src digits "end" best groupEnd digits')
  then show ?case using scans_ge(1) [of "end + 1" src] by (auto simp: hasSeparatedDigit_def)
qed simp

declare grouped_loop.simps [simp del]

definition scanGroupedCardSpan :: "redactor \<Rightarrow> bytes \<Rightarrow> nat \<Rightarrow> nat \<Rightarrow> nat option" where
  "scanGroupedCardSpan re src start firstGroupEnd =
     (case copyDigits (slice src start firstGroupEnd) of
        None \<Rightarrow> None
      | Some digits \<Rightarrow>
         (let best = grouped_loop re src digits firstGroupEnd 0 in
          if best = 0 then None else Some best))"

end
