(* ===== verification/RD_Json.thy ===== *)
theory RD_Json
  imports RD_Rules
begin

text \<open>
  The JSON rules of \<^verbatim>\<open>pkg/redact\<close> (\<^verbatim>\<open>json.go\<close>): plain keys, the labelled-secret shape
  \<^verbatim>\<open>{"name": ..., "value": ...}\<close>, and keys of a document escaped inside a string. The
  access that is represented as a panic is \<^verbatim>\<open>src[labelValEnd-1]\<close> in
  \<^verbatim>\<open>appendLabeledSecretJSON\<close>: \<^verbatim>\<open>parseJSONStringEnd\<close> steps over the byte after a backslash
  even when there is none. The other accesses stand behind guards of the code and are total.
\<close>

section \<open>JSON scanners\<close>

function findJSONStringClosingQuote :: "bytes \<Rightarrow> nat \<Rightarrow> nat option" where
  "findJSONStringClosingQuote src i =
     (if i < length src then
        (if src ! i = BSL then findJSONStringClosingQuote src (i + 2)
         else if src ! i = DQ then Some i
         else if src ! i = NL \<or> src ! i = CR then None
         else findJSONStringClosingQuote src (i + 1))
      else None)"
  by pat_completeness auto
termination
  by (relation "measure (\<lambda>(src, i). length src - i)") auto

function json_string_loop :: "bytes \<Rightarrow> nat \<Rightarrow> nat" where
  "json_string_loop src vEnd =
     (if vEnd < length src then
        (if src ! vEnd = BSL then json_string_loop src (vEnd + 2)
         else if src ! vEnd = DQ then vEnd + 1
         else json_string_loop src (vEnd + 1))
      else vEnd)"
  by pat_completeness auto
termination
  by (relation "measure (\<lambda>(src, i). length src - i)") auto

declare findJSONStringClosingQuote.simps [simp del] json_string_loop.simps [simp del]

definition parseJSONStringEnd :: "bytes \<Rightarrow> nat \<Rightarrow> nat" where
  "parseJSONStringEnd src j = json_string_loop src (j + 1)"

lemma json_string_loop_ge [scan_bounds]: "i \<le> json_string_loop src i"
  by (induction src i rule: json_string_loop.induct) (subst json_string_loop.simps, auto)

lemma parseJSONStringEnd_gt [scan_bounds]: "j < parseJSONStringEnd src j"
  using json_string_loop_ge [of "j + 1" src] by (simp add: parseJSONStringEnd_def)

function json_container_loop :: "bytes \<Rightarrow> nat \<Rightarrow> int \<Rightarrow> nat" where
  "json_container_loop src j depth =
     (if j < length src then
        (if src ! j = CHR ''{'' \<or> src ! j = CHR ''['' then json_container_loop src (j + 1) (depth + 1)
         else if src ! j = CHR ''}'' \<or> src ! j = CHR '']'' then
           (if depth - 1 = 0 then j + 1 else json_container_loop src (j + 1) (depth - 1))
         else if src ! j = DQ then json_container_loop src (parseJSONStringEnd src j) depth
         else json_container_loop src (j + 1) depth)
      else length src)"
  by pat_completeness auto
termination
proof (relation "measure (\<lambda>(src, j, d). length src - j)", goal_cases)
  case (4 src j depth)
  then show ?case using parseJSONStringEnd_gt [of j src] by auto
qed auto

declare json_container_loop.simps [simp del]

definition parseJSONContainerEnd :: "bytes \<Rightarrow> nat \<Rightarrow> nat" where
  "parseJSONContainerEnd src j = json_container_loop src j 0"

definition jsonLiteralEnd :: "bytes \<Rightarrow> nat \<Rightarrow> nat" where
  "jsonLiteralEnd src j =
     (if hasPrefixAt src j ''true'' then j + 4
      else if hasPrefixAt src j ''false'' then j + 5
      else if hasPrefixAt src j ''null'' then j + 4
      else 0)"

definition parseJSONNumberEnd :: "bytes \<Rightarrow> nat \<Rightarrow> nat" where
  "parseJSONNumberEnd src j =
     scan_while (\<lambda>c. c = CHR ''-'' \<or> c = CHR ''+'' \<or> c = CHR ''.'' \<or> c = CHR ''e'' \<or> c = CHR ''E''
                     \<or> (CHR ''0'' \<le> c \<and> c \<le> CHR ''9'')) src j"

definition isJSONValueDelimiter :: "char \<Rightarrow> bool" where
  "isJSONValueDelimiter c \<longleftrightarrow> c \<in> set [CHR '','', CHR ''}'', CHR '']'', CHR '' '', TAB, NL, CR]"

definition delimitedValueEnd :: "bytes \<Rightarrow> nat \<Rightarrow> nat" where
  "delimitedValueEnd src end =
     (if end < length src \<and> \<not> isJSONValueDelimiter (src ! end) then 0 else end)"

definition jsonValueEnd :: "bytes \<Rightarrow> nat \<Rightarrow> nat" where
  "jsonValueEnd src j =
     (if src ! j = DQ then parseJSONStringEnd src j
      else if src ! j = CHR ''{'' \<or> src ! j = CHR ''['' then parseJSONContainerEnd src j
      else let literalEnd = jsonLiteralEnd src j in
           if 0 < literalEnd then delimitedValueEnd src literalEnd
           else if src ! j = CHR ''-'' \<or> (CHR ''0'' \<le> src ! j \<and> src ! j \<le> CHR ''9'')
           then delimitedValueEnd src (parseJSONNumberEnd src j)
           else 0)"

text \<open>
  The result \<^verbatim>\<open>(valueStart, hasKV, done)\<close>; both callers only tell \<^verbatim>\<open>(_, true, false)\<close> from the
  rest, so the others are \<open>None\<close>.
\<close>

definition findJSONValueStart :: "bytes \<Rightarrow> nat \<Rightarrow> nat option" where
  "findJSONValueStart src q2 =
     (let j = skipJSONWhitespace src (q2 + 1) in
      if length src \<le> j then None
      else if src ! j \<noteq> CHR '':'' then None
      else let valueStart = skipJSONWhitespace src (j + 1) in
           if length src \<le> valueStart then None else Some valueStart)"

section \<open>Sensitive keys\<close>

fun key_start_loop :: "redactor \<Rightarrow> bytes \<Rightarrow> nat \<Rightarrow> bool" where
  "key_start_loop re src 0 = True"
| "key_start_loop re src (Suc j) =
     (if src ! j \<in> set [CHR '' '', TAB, NL, CR] then key_start_loop re src j
      else if src ! j = CHR ''{'' \<or> src ! j = CHR '','' then True
      else markerEndsAt re src j)"

definition likelyJSONKeyStart :: "redactor \<Rightarrow> bytes \<Rightarrow> nat \<Rightarrow> bool" where
  "likelyJSONKeyStart re src i = key_start_loop re src i"

definition isJSONLabelKey :: "bytes \<Rightarrow> bool" where
  "isJSONLabelKey key \<longleftrightarrow>
     equalsASCIIFold key ''name'' \<or> equalsASCIIFold key ''key'' \<or> equalsASCIIFold key ''id''"

definition isJSONValueKey :: "bytes \<Rightarrow> bool" where
  "isJSONValueKey key \<longleftrightarrow> equalsASCIIFold key ''value'' \<or> equalsASCIIFold key ''val''"

definition appendQuotedMarker :: "bytes \<Rightarrow> bytes" where
  "appendQuotedMarker m = DQ # m @ [DQ]"

definition findSiblingValueMember :: "bytes \<Rightarrow> nat \<Rightarrow> (nat \<times> nat) option" where
  "findSiblingValueMember src labelValEnd =
     (let j = skipJSONWhitespace src labelValEnd in
      if length src \<le> j \<or> src ! j \<noteq> CHR '','' then None
      else let j = skipJSONWhitespace src (j + 1) in
           if length src \<le> j \<or> src ! j \<noteq> DQ then None
           else (case findJSONStringClosingQuote src (j + 1) of
                   None \<Rightarrow> None
                 | Some vq2 \<Rightarrow>
                    (if \<not> isJSONValueKey (slice src (j + 1) vq2) then None
                     else (case findJSONValueStart src vq2 of
                             None \<Rightarrow> None
                           | Some sibValStart \<Rightarrow>
                              (let sibValEnd = jsonValueEnd src sibValStart in
                               if sibValEnd = 0 then None else Some (sibValStart, sibValEnd))))))"

definition appendLabeledSecretJSON ::
    "unicode \<Rightarrow> redactor \<Rightarrow> bytes \<Rightarrow> nat \<Rightarrow> bytes \<Rightarrow> nat \<Rightarrow> rule_result" where
  "appendLabeledSecretJSON u re src i labelKey labelValStart =
     (if src ! labelValStart \<noteq> DQ then NoMatch
      else let labelValEnd = parseJSONStringEnd src labelValStart in
           if labelValEnd \<le> labelValStart + 1 then NoMatch
           else if length src \<le> labelValEnd - 1 then Panic
           else if src ! (labelValEnd - 1) \<noteq> DQ then NoMatch
           else if \<not> isStrongSecretName u re (slice src (labelValStart + 1) (labelValEnd - 1))
           then NoMatch
           else (case findSiblingValueMember src labelValEnd of
                   None \<Rightarrow> NoMatch
                 | Some (sibValStart, sibValEnd) \<Rightarrow>
                     Match sibValEnd
                       (slice src i labelValStart
                        @ (if isSensitiveKey u re labelKey then appendQuotedMarker (marker re)
                           else slice src labelValStart labelValEnd)
                        @ slice src labelValEnd sibValStart @ appendQuotedMarker (marker re))))"

definition appendRedactedSensitiveJSONAt ::
    "unicode \<Rightarrow> redactor \<Rightarrow> bytes \<Rightarrow> nat \<Rightarrow> rule_result" where
  "appendRedactedSensitiveJSONAt u re src i =
     (case findJSONStringClosingQuote src (i + 1) of
        None \<Rightarrow> NoMatch
      | Some q2 \<Rightarrow>
         (let key = slice src (i + 1) q2 in
          if CHR ''='' \<in> set key then NoMatch
          else (case findJSONValueStart src q2 of
                  None \<Rightarrow> NoMatch
                | Some valueStart \<Rightarrow>
                   (case (if isJSONLabelKey key
                          then appendLabeledSecretJSON u re src i key valueStart else NoMatch) of
                      Panic \<Rightarrow> Panic
                    | Match next out \<Rightarrow> Match next out
                    | NoMatch \<Rightarrow>
                       (if \<not> isSensitiveKey u re key then NoMatch
                        else let valueEnd = jsonValueEnd src valueStart in
                             if valueEnd = 0 then NoMatch
                             else Match valueEnd
                                    (DQ # key @ [DQ] @ slice src (q2 + 1) valueStart
                                     @ DQ # marker re @ [DQ]))))))"

section \<open>Escaped keys\<close>

text \<open>
  \<^verbatim>\<open>escapedJSONKeyContext\<close> takes \<^verbatim>\<open>p\<close>, possibly \<^verbatim>\<open>-1\<close>, and returns \<^verbatim>\<open>-1\<close> off the start: here
  the argument is \<^verbatim>\<open>p + 1\<close> and \<open>None\<close> is \<^verbatim>\<open>-1\<close>.
\<close>

fun escapedJSONKeyContext :: "bytes \<Rightarrow> nat \<Rightarrow> nat option" where
  "escapedJSONKeyContext src 0 = None"
| "escapedJSONKeyContext src (Suc 0) =
     (if src ! 0 = CHR '' '' \<or> src ! 0 = TAB then None else Some 0)"
| "escapedJSONKeyContext src (Suc (Suc q)) =
     (let p = Suc q in
      if src ! p = CHR '' '' \<or> src ! p = TAB then escapedJSONKeyContext src (Suc q)
      else if (src ! p = CHR ''n'' \<or> src ! p = CHR ''t'' \<or> src ! p = CHR ''r'') \<and> src ! q = BSL
      then escapedJSONKeyContext src q
      else Some p)"

function simpleEscapedStringEnd :: "bytes \<Rightarrow> nat \<Rightarrow> nat option" where
  "simpleEscapedStringEnd src p =
     (if p + 1 < length src then
        (if src ! p = BSL then (if src ! (p + 1) = DQ then Some p else None)
         else if src ! p = DQ \<or> src ! p = NL \<or> src ! p = CR then None
         else simpleEscapedStringEnd src (p + 1))
      else None)"
  by pat_completeness auto
termination
  by (relation "measure (\<lambda>(src, i). length src - i)") auto

declare simpleEscapedStringEnd.simps [simp del]

definition appendRedactedEscapedJSONAt ::
    "unicode \<Rightarrow> redactor \<Rightarrow> bytes \<Rightarrow> nat \<Rightarrow> rule_result" where
  "appendRedactedEscapedJSONAt u re src i =
     (if (case escapedJSONKeyContext src (i - 1) of
            None \<Rightarrow> False | Some p \<Rightarrow> src ! p \<noteq> CHR ''{'' \<and> src ! p \<noteq> CHR '','')
      then NoMatch
      else let keyStart = i + 1 in
           (case simpleEscapedStringEnd src keyStart of
              None \<Rightarrow> NoMatch
            | Some keyClose \<Rightarrow>
               (let j = skipJSONWhitespace src (keyClose + 2) in
                if length src \<le> j \<or> src ! j \<noteq> CHR '':'' then NoMatch
                else let valStart = skipJSONWhitespace src (j + 1) in
                     if length src \<le> valStart + 1 \<or> src ! valStart \<noteq> BSL \<or> src ! (valStart + 1) \<noteq> DQ
                     then NoMatch
                     else (case simpleEscapedStringEnd src (valStart + 2) of
                             None \<Rightarrow> NoMatch
                           | Some valClose \<Rightarrow>
                              (if \<not> isSensitiveKey u re (slice src keyStart keyClose) then NoMatch
                               else Match (valClose + 2)
                                      (slice src i valStart @ [BSL, DQ] @ marker re @ [BSL, DQ]))))))"

end
