(* ===== verification/RD_Engine.thy ===== *)
theory RD_Engine
  imports RD_Json
begin

text \<open>
  The engine of \<^verbatim>\<open>pkg/redact\<close> (\<^verbatim>\<open>engine.go\<close>, the bulk-copy scan of \<^verbatim>\<open>scan.go\<close> and the entry
  points of \<^verbatim>\<open>redactor.go\<close>): one pass over the input that applies the first rule matching at
  each position and copies the rest. Every rule that matches moves forward, so the pass
  ends; the result is \<open>None\<close> when the labelled JSON rule panics.
\<close>

section \<open>Every rule moves forward\<close>

lemma header_start_gt:
  "sensitiveHeaderValueStart u re src i = Some v \<Longrightarrow> i < v"
  using scan_while_ge [of i isHeaderNameByte src]
    scans_ge(3) [of "scan_while isHeaderNameByte src i" src]
    scans_ge(3) [of "skipInlineSpaces src (scan_while isHeaderNameByte src i) + 1" src]
  by (auto simp: sensitiveHeaderValueStart_def Let_def split: if_splits)

lemma skipHeaderLinePrefix_ge: "i \<le> skipHeaderLinePrefix src i"
  using scans_ge(3) [of i src] scans_ge(3) [of "skipInlineSpaces src i + 1" src]
  by (auto simp: skipHeaderLinePrefix_def Let_def)

lemma headerValueEnd_ge: "v \<le> headerValueEnd src v"
  using scan_while_ge [of v "\<lambda>c. c \<noteq> NL" src] by (auto simp: headerValueEnd_def Let_def)

lemma jwt_segments_ge [scan_bounds]: "end \<le> jwt_segments src end"
proof (induction src "end" rule: jwt_segments.induct)
  case (1 src "end")
  then show ?case
    using scans_ge(2) [of "end + 1" src] by (subst jwt_segments.simps) force
qed

lemma jwt_gt: "appendRedactedJWTAt re src i = Match n out \<Longrightarrow> i < n"
proof -
  let ?s1 = "scanBase64URL src i"
  let ?s2 = "scanBase64URL src (?s1 + 1)"
  assume "appendRedactedJWTAt re src i = Match n out"
  then have "n = jwt_segments src ?s2"
    by (auto simp: appendRedactedJWTAt_def jwtTokenEnd_def Let_def split: if_splits)
  then show "i < n"
    using scans_ge(2) [of i src] scans_ge(2) [of "?s1 + 1" src] jwt_segments_ge [of ?s2 src] by linarith
qed

lemma vendor_minTail: "v \<in> set (vendorTokenPrefixes c) \<Longrightarrow> 0 < minTail v"
  by (auto simp: vendorTokenPrefixes_def split: if_splits)

lemma vendor_loop_gt:
  "vendor_loop re src i vs = Match n out \<Longrightarrow> \<forall>v \<in> set vs. 0 < minTail v \<Longrightarrow> i < n"
  by (induction vs) (auto simp: Let_def split: if_splits)

lemma vendor_gt: "appendRedactedVendorTokenAt re src i = Match n out \<Longrightarrow> i < n"
  using vendor_loop_gt vendor_minTail
  by (auto simp: appendRedactedVendorTokenAt_def split: if_splits)

lemma userinfo_loop_at:
  "userinfo_loop src limit j pw at = (Some p, Some a) \<Longrightarrow> (\<And>x. at = Some x \<Longrightarrow> k \<le> x) \<Longrightarrow> k \<le> j \<Longrightarrow> k \<le> a"
proof (induction src limit j pw at rule: userinfo_loop.induct)
  case (1 src limit j pw at)
  show ?case
  proof (cases "j < limit")
    case False
    then show ?thesis
      using 1(4,5) by (auto simp: userinfo_loop.simps [of src limit j] userinfoResult_def split: if_splits option.splits)
  next
    case True
    consider "src ! j = CHR ''@''" | "src ! j \<noteq> CHR ''@''" "isUserinfoBoundary (src ! j)"
      | "src ! j \<noteq> CHR ''@''" "\<not> isUserinfoBoundary (src ! j)" "src ! j = CHR '':'' \<and> pw = None"
      | "src ! j \<noteq> CHR ''@''" "\<not> isUserinfoBoundary (src ! j)" "\<not> (src ! j = CHR '':'' \<and> pw = None)"
      by blast
    then show ?thesis
    proof cases
      case 1
      then have "userinfo_loop src limit (j + 1) pw (Some j) = (Some p, Some a)"
        using True "1.prems"(1) by (simp add: userinfo_loop.simps [of src limit j])
      then show ?thesis using "1.IH"(1) [OF True refl 1] "1.prems"(3) by force
    next
      case 2
      then show ?thesis
        using True "1.prems" by (auto simp: userinfo_loop.simps [of src limit j] userinfoResult_def split: if_splits option.splits)
    next
      case 3
      then have "userinfo_loop src limit (j + 1) (Some j) at = (Some p, Some a)"
        using True "1.prems"(1) by (simp add: userinfo_loop.simps [of src limit j])
      then show ?thesis using "1.IH"(2) [OF True refl 3] "1.prems"(2,3) by force
    next
      case 4
      then have "userinfo_loop src limit (j + 1) pw at = (Some p, Some a)"
        using True "1.prems"(1) by (auto simp: userinfo_loop.simps [of src limit j])
      then show ?thesis using "1.IH"(3) [OF True refl 4] "1.prems"(2,3) by force
    qed
  qed
qed

lemma userinfo_gt:
  assumes "appendRedactedURLPasswordAt re src colon = Match n out"
  shows "colon < n"
proof -
  obtain p where "findUserinfoPassword src (colon + 3) = (Some p, Some n)"
    using assms by (auto simp: appendRedactedURLPasswordAt_def split: if_splits prod.splits option.splits)
  then have "colon + 3 \<le> n"
    unfolding findUserinfoPassword_def by (rule userinfo_loop_at) auto
  then show ?thesis by simp
qed

lemma urlEncodedValueEnd_ge [scan_bounds]: "i \<le> urlEncodedValueEnd re src i"
proof -
  let ?j = "scan_while (\<lambda>c. c \<noteq> DQ \<and> c \<noteq> CR \<and> c \<noteq> NL) src (i + 1)"
  have "i \<le> quotedValueEnd src i"
    using scan_while_ge [of "i + 1" "\<lambda>c. c \<noteq> DQ \<and> c \<noteq> CR \<and> c \<noteq> NL" src]
      scan_while_ge [of "?j + 1" isWordChar src]
    by (simp add: quotedValueEnd_def Let_def)
  moreover have "redactedMarkerEnd re src i = 0 \<or> i \<le> redactedMarkerEnd re src i"
    by (simp add: redactedMarkerEnd_def Let_def)
  ultimately show ?thesis
    using scan_while_ge [of i "\<lambda>c. \<not> isURLValueBoundary c" src]
    by (auto simp: urlEncodedValueEnd_def Let_def)
qed

lemma attr_quote_ge: "attr_quote_loop src q j = Some k \<Longrightarrow> j \<le> k \<and> k < length src \<and> src ! k = q"
proof (induction src q j rule: attr_quote_loop.induct)
  case (1 src q j)
  then show ?case by (simp add: attr_quote_loop.simps [of src q j] split: if_splits)
qed

lemma attrQuotedValueEnd_gt: "attrQuotedValueEnd src q = Some k \<Longrightarrow> q < k \<and> k < length src"
  using attr_quote_ge [of src "src ! q" "q + 1" k] by (auto simp: attrQuotedValueEnd_def)

lemma siblingValueAttrQuote_gt:
  assumes "siblingValueAttrQuote src from = Some j"
  shows "from \<le> j \<and> j < length src"
proof -
  let ?a = "skipInlineSpaces src from"
  let ?b = "scan_while isHeaderNameByte src ?a"
  let ?c = "skipInlineSpaces src ?b"
  have "j = skipInlineSpaces src (?c + 1)" "j < length src"
    using assms by (auto simp: siblingValueAttrQuote_def Let_def split: if_splits)
  then show ?thesis
    using scans_ge(3) [of "from" src] scan_while_ge [of ?a isHeaderNameByte src]
      scans_ge(3) [of ?b src] scans_ge(3) [of "?c + 1" src] by linarith
qed

lemma findSiblingAttrValue_gt:
  "findSiblingAttrValue src from = Some (a, b) \<Longrightarrow> from \<le> a \<and> a < b \<and> b < length src"
  using siblingValueAttrQuote_gt attrQuotedValueEnd_gt
  by (fastforce simp: findSiblingAttrValue_def split: option.splits)

lemma url_gt: "appendRedactedURLEncodedValueAt u re src eq = Match n out \<Longrightarrow> eq < n"
proof -
  assume m: "appendRedactedURLEncodedValueAt u re src eq = Match n out"
  then consider "n = urlEncodedValueEnd re src (eq + 1)" | "appendLabeledSecretAttr u re src eq = Match n out"
    by (auto simp: appendRedactedURLEncodedValueAt_def Let_def split: if_splits)
  then show ?thesis
  proof cases
    case 1
    then show ?thesis using urlEncodedValueEnd_ge [of "eq + 1" re src] by simp
  next
    case 2
    then obtain lc a b where lc: "attrQuotedValueEnd src (eq + 1) = Some lc"
        "findSiblingAttrValue src (lc + 1) = Some (a, b)" "n = b + 1"
      by (auto simp: appendLabeledSecretAttr_def Let_def split: if_splits option.splits)
    then show ?thesis using attrQuotedValueEnd_gt [OF lc(1)] findSiblingAttrValue_gt [OF lc(2)] by simp
  qed
qed

lemma xml_content_ge [scan_bounds]: "j \<le> xml_content src j"
proof (induction src j rule: xml_content.induct)
  case (1 src j)
  show ?case
  proof (cases "j < length src")
    case True
    then show ?thesis
      using 1 skipXML_gt [of src j] by (subst xml_content.simps) (fastforce split: option.splits)
  qed (simp add: xml_content.simps)
qed

lemma xml_gt: "appendRedactedXMLValueAt u re src i = Match n out \<Longrightarrow> i < n"
proof -
  let ?ne = "scan_while isXMLNameByte src (i + 1)"
  let ?gt = "scan_while (\<lambda>c. c \<noteq> CHR ''>'' \<and> c \<noteq> NL \<and> c \<noteq> CHR ''<'') src ?ne"
  assume "appendRedactedXMLValueAt u re src i = Match n out"
  then have "n = xml_content src (?gt + 1)"
    by (auto simp: appendRedactedXMLValueAt_def xmlOpenTagClose_def xmlFlatContentEnd_def Let_def
        split: if_splits)
  then show ?thesis
    using scan_while_ge [of "i + 1" isXMLNameByte src]
      scan_while_ge [of ?ne "\<lambda>c. c \<noteq> CHR ''>'' \<and> c \<noteq> NL \<and> c \<noteq> CHR ''<''" src]
      xml_content_ge [of "?gt + 1" src] by linarith
qed

lemma findPEMEndLine_ge [scan_bounds]: "i \<le> length src \<Longrightarrow> i \<le> findPEMEndLine src i \<and> findPEMEndLine src i \<le> length src"
proof (induction src i rule: findPEMEndLine.induct)
  case (1 src i)
  show ?case
  proof (cases "i < length src \<and> \<not> hasPrefixAt src i pemEndPrefix")
    case True
    then show ?thesis
      using 1 scans_ge(5) [of i src] by (subst (1 2) findPEMEndLine.simps) (auto simp: Let_def)
  qed (use 1(2) in \<open>auto simp: findPEMEndLine.simps [of src i]\<close>)
qed

lemma pem_gt:
  assumes "appendRedactedPEMKeyAt re src i = Match n out" and "i \<le> length src"
  shows "i < n"
proof -
  let ?le = "scanToLineFeed src i"
  let ?bs = "if ?le < length src then ?le + 1 else ?le"
  have n: "n = findPEMEndLine src ?bs" "n \<noteq> ?bs"
    using assms(1) by (auto simp: appendRedactedPEMKeyAt_def Let_def split: if_splits)
  have "?bs \<le> length src" using scans_le(5) [OF assms(2)] by auto
  then have "?bs < n" using findPEMEndLine_ge [of ?bs src] n by linarith
  then show ?thesis using scans_ge(5) [of i src] by (auto split: if_splits)
qed

lemma inlinePEMLabel_gt: "inlinePEMPrivateKeyLabelEnd src i = Some k \<Longrightarrow> i < k"
  by (auto simp: inlinePEMPrivateKeyLabelEnd_def pemPrivateKeyLabels_def Let_def split: option.splits if_splits)

lemma inlinePEMBodyEnd_ge [scan_bounds]: "k \<le> inlinePEMBodyEnd src k"
  using scan_while_ge [of k "\<lambda>c. c \<noteq> DQ \<and> c \<noteq> NL" src]
  by (auto simp: inlinePEMBodyEnd_def Let_def split: option.splits)

lemma inline_pem_gt: "appendRedactedInlinePEMKeyAt re src i = Match n out \<Longrightarrow> i < n"
  using inlinePEMLabel_gt inlinePEMBodyEnd_ge
  by (fastforce simp: appendRedactedInlinePEMKeyAt_def Let_def split: if_splits option.splits
      dest: order_less_le_trans)

lemma json_container_loop_ge [scan_bounds]:
  "j \<le> length src \<Longrightarrow> j \<le> json_container_loop src j d \<and> json_container_loop src j d \<le> length src"
proof (induction src j d rule: json_container_loop.induct)
  case (1 src j d)
  show ?case
  proof (cases "j < length src")
    case False
    then show ?thesis using 1(5) by (subst (1 2) json_container_loop.simps) simp
  next
    case True
    show ?thesis
    proof (cases "src ! j = DQ")
      case dq: True
      let ?k = "parseJSONStringEnd src j"
      have k: "j < ?k" by (rule parseJSONStringEnd_gt)
      have e: "json_container_loop src j d = json_container_loop src ?k d"
        using True dq by (simp add: json_container_loop.simps [of src j d])
      show ?thesis
      proof (cases "?k \<le> length src")
        case True
        then show ?thesis using 1(3) [OF \<open>j < length src\<close>] dq k e by simp
      next
        case False
        then show ?thesis using k e True by (subst (1 2) e) (simp add: json_container_loop.simps [of src ?k d])
      qed
    next
      case False
      then show ?thesis
        using True 1 by (auto simp: json_container_loop.simps [of src j d])
    qed
  qed
qed

lemma jsonValueEnd_ge [scan_bounds]:
  assumes "j < length src"
  shows "jsonValueEnd src j = 0 \<or> j \<le> jsonValueEnd src j"
proof -
  have "jsonLiteralEnd src j = 0 \<or> j \<le> jsonLiteralEnd src j" by (simp add: jsonLiteralEnd_def)
  moreover have "j \<le> parseJSONNumberEnd src j" by (simp add: parseJSONNumberEnd_def scan_while_ge)
  moreover have "j \<le> parseJSONContainerEnd src j"
    using assms json_container_loop_ge [of j src 0] by (simp add: parseJSONContainerEnd_def)
  ultimately show ?thesis
    using parseJSONStringEnd_gt [of j src] by (auto simp: jsonValueEnd_def delimitedValueEnd_def Let_def)
qed

lemma closing_quote_ge: "findJSONStringClosingQuote src i = Some q \<Longrightarrow> i \<le> q \<and> q < length src \<and> src ! q = DQ"
proof (induction src i rule: findJSONStringClosingQuote.induct)
  case (1 src i)
  then show ?case
    by (simp add: findJSONStringClosingQuote.simps [of src i] split: if_splits)
qed

lemma value_start_gt: "findJSONValueStart src q = Some v \<Longrightarrow> q < v \<and> v < length src"
  using scans_ge(4) [of "q + 1" src] scans_ge(4) [of "skipJSONWhitespace src (q + 1) + 1" src]
  by (auto simp: findJSONValueStart_def Let_def split: if_splits)

lemma sibling_gt:
  assumes "findSiblingValueMember src k = Some (a, b)"
  shows "k < a \<and> a < length src \<and> a \<le> b"
proof -
  let ?j = "skipJSONWhitespace src k"
  let ?m = "skipJSONWhitespace src (?j + 1)"
  obtain q where q: "findJSONStringClosingQuote src (?m + 1) = Some q" "findJSONValueStart src q = Some a"
      "b = jsonValueEnd src a" "b \<noteq> 0"
    using assms by (auto simp: findSiblingValueMember_def Let_def split: if_splits option.splits)
  have "?m + 1 \<le> q" "q < a" "a < length src" using closing_quote_ge [OF q(1)] value_start_gt [OF q(2)] by simp_all
  moreover have "a \<le> b" using jsonValueEnd_ge [of a src] q(3,4) calculation(3) by simp
  ultimately show ?thesis using scans_ge(4) [of k src] scans_ge(4) [of "?j + 1" src] by simp
qed

lemma labeled_gt:
  assumes "appendLabeledSecretJSON u re src i key v = Match n out" and "i < v"
  shows "i < n"
proof -
  obtain a where "findSiblingValueMember src (parseJSONStringEnd src v) = Some (a, n)"
    using assms(1) by (auto simp: appendLabeledSecretJSON_def Let_def split: if_splits option.splits)
  then show ?thesis using sibling_gt [of src "parseJSONStringEnd src v" a n] parseJSONStringEnd_gt [of v src] assms(2)
    by simp
qed

lemma json_gt:
  assumes "appendRedactedSensitiveJSONAt u re src i = Match n out"
  shows "i < n"
proof -
  obtain q v where q: "findJSONStringClosingQuote src (i + 1) = Some q" "findJSONValueStart src q = Some v"
    using assms by (auto simp: appendRedactedSensitiveJSONAt_def Let_def split: option.splits if_splits)
  have iv: "i < v" "v < length src" using closing_quote_ge [OF q(1)] value_start_gt [OF q(2)] by simp_all
  consider "appendLabeledSecretJSON u re src i (slice src (i + 1) q) v = Match n out"
    | "n = jsonValueEnd src v" "n \<noteq> 0"
    using assms q by (auto simp: appendRedactedSensitiveJSONAt_def Let_def split: if_splits rule_result.splits)
  then show ?thesis
    using labeled_gt [OF _ iv(1)] jsonValueEnd_ge [OF iv(2)] iv(1) by cases auto
qed

lemma simpleEscaped_ge: "simpleEscapedStringEnd src p = Some q \<Longrightarrow> p \<le> q \<and> q + 1 < length src"
proof (induction src p rule: simpleEscapedStringEnd.induct)
  case (1 src p)
  then show ?case by (simp add: simpleEscapedStringEnd.simps [of src p] split: if_splits)
qed

lemma escaped_gt:
  assumes "appendRedactedEscapedJSONAt u re src i = Match n out"
  shows "i < n"
proof -
  obtain k v where k: "simpleEscapedStringEnd src (i + 1) = Some k" and n: "n = v + 2"
    and v: "simpleEscapedStringEnd src (skipJSONWhitespace src (skipJSONWhitespace src (k + 2) + 1) + 2) = Some v"
    using assms by (auto simp: appendRedactedEscapedJSONAt_def Let_def split: option.splits if_splits)
  show ?thesis
    using simpleEscaped_ge [OF k] simpleEscaped_ge [OF v] scans_ge(4) [of "k + 2" src]
      scans_ge(4) [of "skipJSONWhitespace src (k + 2) + 1" src] n by linarith
qed

lemma grouped_loop_ge [scan_bounds]:
  "grouped_loop re src ds e best = best \<or> e < grouped_loop re src ds e best"
proof (induction re src ds e best rule: grouped_loop.induct)
  case (1 re src ds e best)
  let ?g = "scanDigits src (e + 1)"
  have g: "e < ?g" using scans_ge(1) [of "e + 1" src] by simp
  show ?case
  proof (cases "hasSeparatedDigit src e \<and> appendDigits ds (slice src (e + 1) ?g) \<noteq> None")
    case False
    then show ?thesis by (auto simp: grouped_loop.simps [of re src ds e best] Let_def)
  next
    case True
    then obtain ds' where ds': "appendDigits ds (slice src (e + 1) ?g) = Some ds'" by blast
    show ?thesis
      using 1 [OF conjunct1 [OF True] refl ds'] g True ds'
      by (auto simp: grouped_loop.simps [of re src ds e best] Let_def split: if_splits)
  qed
qed

lemma scanGroupedCardSpan_gt: "scanGroupedCardSpan re src i j = Some k \<Longrightarrow> j < k"
  using grouped_loop_ge [of re src "slice src i j" j 0]
  by (auto simp: scanGroupedCardSpan_def copyDigits_def Let_def split: if_splits option.splits)

section \<open>The engine\<close>

definition appendLineStartRedactionAt :: "unicode \<Rightarrow> redactor \<Rightarrow> bytes \<Rightarrow> nat \<Rightarrow> rule_result" where
  "appendLineStartRedactionAt u re src i =
     (case (if src ! i = CHR ''-'' \<and> enabled re RulePEM then appendRedactedPEMKeyAt re src i else NoMatch) of
        Match next out \<Rightarrow> Match next out
      | Panic \<Rightarrow> Panic
      | NoMatch \<Rightarrow>
         (if enabled re RuleHeaders then
            (case sensitiveHeaderValueStart u re src (skipHeaderLinePrefix src i) of
               Some valueStart \<Rightarrow> Match (headerValueEnd src valueStart) (slice src i valueStart @ marker re)
             | None \<Rightarrow> NoMatch)
          else NoMatch))"

definition vendorTriggers :: "char list" where
  "vendorTriggers = ''gxsrwdAhS''"

text \<open>\<open>None\<close> is the rule \<open>0\<close>: the byte triggers none.\<close>

definition triggerRule :: "char \<Rightarrow> Rule option" where
  "triggerRule c =
     (if c = DQ then Some RuleJSON
      else if c = CHR ''='' then Some RuleURLEncoded
      else if c = CHR '':'' then Some RuleUserinfo
      else if c = CHR ''e'' then Some RuleJWT
      else if c = CHR ''<'' then Some RuleXML
      else if c = CHR ''-'' then Some RulePEM
      else if c \<in> set vendorTriggers then Some RuleVendorTokens
      else None)"

definition appendTriggeredRedactionAt :: "unicode \<Rightarrow> redactor \<Rightarrow> bytes \<Rightarrow> nat \<Rightarrow> rule_result" where
  "appendTriggeredRedactionAt u re src i =
     (let c = src ! i in
      if (case triggerRule c of None \<Rightarrow> True | Some r \<Rightarrow> \<not> enabled re r) then NoMatch
      else if c = DQ then
        (if likelyJSONKeyStart re src i then appendRedactedSensitiveJSONAt u re src i
         else if 0 < i \<and> src ! (i - 1) = BSL then appendRedactedEscapedJSONAt u re src i
         else NoMatch)
      else if c = CHR ''='' then appendRedactedURLEncodedValueAt u re src i
      else if c = CHR '':'' then appendRedactedURLPasswordAt re src i
      else if c = CHR ''e'' then appendRedactedJWTAt re src i
      else if c = CHR ''<'' then appendRedactedXMLValueAt u re src i
      else if c = CHR ''-'' then appendRedactedInlinePEMKeyAt re src i
      else if c \<in> set vendorTriggers then appendRedactedVendorTokenAt re src i
      else NoMatch)"

definition appendDigitRunAt :: "redactor \<Rightarrow> bytes \<Rightarrow> nat \<Rightarrow> nat \<times> bytes" where
  "appendDigitRunAt re src i =
     (let j = scanDigits src i in
      if 0 < i \<and> isWordChar (src ! (i - 1)) then (j, slice src i j)
      else if \<not> enabled re RuleCards \<or> (j < length src \<and> isWordChar (src ! j)) then (j, slice src i j)
      else if isCreditCard re (slice src i j) then (j, marker re)
      else (case scanGroupedCardSpan re src i j of
              Some end \<Rightarrow> (end, marker re)
            | None \<Rightarrow> (j, slice src i j)))"

datatype trigger = trigNone | trigStop | trigColon | trigJWT | trigDash | trigVendor

definition bulkTrigger :: "char \<Rightarrow> trigger" where
  "bulkTrigger c =
     (if c \<in> set [DQ, CHR ''='', NL, CHR ''<''] \<or> c \<in> set ''0123456789'' then trigStop
      else if c = CHR '':'' then trigColon
      else if c = CHR ''e'' then trigJWT
      else if c = CHR ''-'' then trigDash
      else if c \<in> set vendorTriggers then trigVendor
      else trigNone)"

text \<open>Whether the scan of \<^verbatim>\<open>bulkTextEnd\<close> returns at \<open>j\<close>.\<close>

definition bulk_stop :: "bytes \<Rightarrow> nat \<Rightarrow> bool" where
  "bulk_stop src j \<longleftrightarrow>
     (case bulkTrigger (src ! j) of
        trigStop \<Rightarrow> True
      | trigColon \<Rightarrow> j + 2 < length src \<and> src ! (j + 1) = CHR ''/'' \<and> src ! (j + 2) = CHR ''/''
      | trigJWT \<Rightarrow> j + 2 < length src \<and> src ! (j + 1) = CHR ''y'' \<and> src ! (j + 2) = CHR ''J''
                   \<and> \<not> isWordChar (src ! (j - 1))
      | trigDash \<Rightarrow> hasPrefixAt src j ''-----B''
      | trigVendor \<Rightarrow> \<not> isWordChar (src ! (j - 1)) \<and> isVendorTokenStart src j
      | trigNone \<Rightarrow> False)"

function bulk_loop :: "bytes \<Rightarrow> nat \<Rightarrow> nat" where
  "bulk_loop src j = (if j < length src then (if bulk_stop src j then j else bulk_loop src (j + 1)) else j)"
  by pat_completeness auto
termination
  by (relation "measure (\<lambda>(src, j). length src - j)") auto

declare bulk_loop.simps [simp del]

definition bulkTextEnd :: "bytes \<Rightarrow> nat \<Rightarrow> nat" where
  "bulkTextEnd src i = bulk_loop src (i + 1)"

lemma bulk_loop_ge [scan_bounds]: "j \<le> bulk_loop src j"
  by (induction src j rule: bulk_loop.induct) (subst bulk_loop.simps, auto)

lemma line_start_gt:
  "appendLineStartRedactionAt u re src i = Match n out \<Longrightarrow> i < length src \<Longrightarrow> i < n"
proof -
  assume m: "appendLineStartRedactionAt u re src i = Match n out" and i: "i < length src"
  consider "appendRedactedPEMKeyAt re src i = Match n out"
    | v where "sensitiveHeaderValueStart u re src (skipHeaderLinePrefix src i) = Some v"
        "n = headerValueEnd src v"
    using m by (auto simp: appendLineStartRedactionAt_def split: rule_result.splits if_splits option.splits)
  then show "i < n"
  proof cases
    case 1
    then show ?thesis using pem_gt i by simp
  next
    case (2 v)
    show ?thesis
      using header_start_gt [OF 2(1)] skipHeaderLinePrefix_ge [of i src] headerValueEnd_ge [of v src] 2(2)
      by linarith
  qed
qed

lemma triggered_gt: "appendTriggeredRedactionAt u re src i = Match n out \<Longrightarrow> i < n"
  using json_gt [of u re src i n out] escaped_gt [of u re src i n out] url_gt [of u re src i n out]
    userinfo_gt [of re src i n out] jwt_gt [of re src i n out] xml_gt [of u re src i n out]
    inline_pem_gt [of re src i n out] vendor_gt [of re src i n out]
  by (simp add: appendTriggeredRedactionAt_def Let_def split: if_splits)

lemma digit_run_gt:
  assumes "isDigitByte (src ! i)" and "i < length src"
  shows "i < fst (appendDigitRunAt re src i)"
proof -
  have "scanDigits src i = scanDigits src (Suc i)"
    using assms by (simp add: scanDigits_def scan_while.simps [of isDigitByte src i])
  then have "i < scanDigits src i" using scans_ge(1) [of "Suc i" src] by simp
  then show ?thesis
    using scanGroupedCardSpan_gt [of re src i "scanDigits src i"]
    by (auto simp: appendDigitRunAt_def Let_def split: option.splits dest: order_less_trans)
qed

lemma digit_run_gt':
  "(n, out) = appendDigitRunAt re src i \<Longrightarrow> isDigitByte (src ! i) \<Longrightarrow> i < length src \<Longrightarrow> i < n"
  using digit_run_gt [of src i re] by (metis fst_conv)

lemma bulk_gt: "i < bulkTextEnd src i"
  using bulk_loop_ge [of "i + 1" src] by (simp add: bulkTextEnd_def)

function redact_loop :: "unicode \<Rightarrow> redactor \<Rightarrow> bytes \<Rightarrow> nat \<Rightarrow> bytes option" where
  "redact_loop u re src i =
     (if i < length src then
        (case (if i = 0 \<or> src ! (i - 1) = NL then appendLineStartRedactionAt u re src i else NoMatch) of
           Panic \<Rightarrow> None
         | Match next out \<Rightarrow> map_option ((@) out) (redact_loop u re src next)
         | NoMatch \<Rightarrow>
            (if isDigitByte (src ! i) then
               (case appendDigitRunAt re src i of
                  (next, out) \<Rightarrow> map_option ((@) out) (redact_loop u re src next))
             else
               (case appendTriggeredRedactionAt u re src i of
                  Panic \<Rightarrow> None
                | Match next out \<Rightarrow> map_option ((@) out) (redact_loop u re src next)
                | NoMatch \<Rightarrow>
                   (if src ! i = NL then map_option ((@) [NL]) (redact_loop u re src (i + 1))
                    else (let j = bulkTextEnd src i
                          in map_option ((@) (slice src i j)) (redact_loop u re src j))))))
      else Some [])"
  by pat_completeness auto
termination
  by (relation "measure (\<lambda>(u, re, src, i). length src - i)")
    (auto intro!: diff_less_mono2 bulk_gt dest: digit_run_gt' line_start_gt triggered_gt split: if_splits)

declare redact_loop.simps [simp del]

definition redactInto :: "unicode \<Rightarrow> redactor \<Rightarrow> bytes \<Rightarrow> bytes option" where
  "redactInto u re src =
     (let re' = (if marker re = [] \<or> keyMemo re = None then usableRedactor re else re)
      in redact_loop u re' src 0)"

end
