(* ===== verification/RD_Ref.thy ===== *)
theory RD_Ref
  imports RD_Engine
begin

text \<open>
  The engine of \<^verbatim>\<open>pkg/redact\<close> against a reference: a pass that tries the rules at every byte
  and otherwise copies one byte, with no bulk copy and no prefilters. From it follow the
  facts that are awkward on the bulk scan: disabled rules leave the input alone, and only
  one shape of input makes the engine panic.
\<close>

section \<open>The reference engine\<close>

function ref_loop :: "unicode \<Rightarrow> redactor \<Rightarrow> bytes \<Rightarrow> nat \<Rightarrow> bytes option" where
  "ref_loop u re src i =
     (if i < length src then
        (case (if i = 0 \<or> src ! (i - 1) = NL then appendLineStartRedactionAt u re src i else NoMatch) of
           Panic \<Rightarrow> None
         | Match next out \<Rightarrow> map_option ((@) out) (ref_loop u re src next)
         | NoMatch \<Rightarrow>
            (if isDigitByte (src ! i) then
               (case appendDigitRunAt re src i of
                  (next, out) \<Rightarrow> map_option ((@) out) (ref_loop u re src next))
             else
               (case appendTriggeredRedactionAt u re src i of
                  Panic \<Rightarrow> None
                | Match next out \<Rightarrow> map_option ((@) out) (ref_loop u re src next)
                | NoMatch \<Rightarrow> map_option ((@) [src ! i]) (ref_loop u re src (i + 1)))))
      else Some [])"
  by pat_completeness auto
termination
  by (relation "measure (\<lambda>(u, re, src, i). length src - i)")
    (auto intro!: diff_less_mono2 dest: digit_run_gt' line_start_gt triggered_gt split: if_splits)

declare ref_loop.simps [simp del]

section \<open>The prefilters skip nothing\<close>

lemma hasPrefixAt_take:
  assumes "hasPrefixAt src j lit" and "n \<le> length lit"
  shows "hasPrefixAt src j (take n lit)"
  using assms by (auto simp: hasPrefixAt_def)

lemma hasPrefixAt_slice:
  assumes "hasPrefixAt src j lit" and "n \<le> length lit"
  shows "slice src j (j + n) = take n lit" and "j + n \<le> length src"
proof -
  show len: "j + n \<le> length src" using assms by (simp add: hasPrefixAt_def)
  show "slice src j (j + n) = take n lit"
    using assms len by (intro nth_equalityI) (auto simp: nth_slice hasPrefixAt_def)
qed

lemma vendor_prefix_start:
  assumes "v \<in> set (vendorTokenPrefixes c)" and p: "hasPrefixAt src j (vprefix v)"
  shows "isVendorTokenStart src j"
proof -
  have t: "3 \<le> length (vprefix v)" "take 3 (vprefix v) \<in> set [''ghp'', ''gho'', ''ghu'', ''ghs'',
      ''ghr'', ''git'', ''glp'', ''xox'', ''sk_'', ''sk-'', ''shp'', ''SG.'', ''hf_'', ''rk_'', ''whs'',
      ''dop'', ''dck'', ''AKI'', ''ASI'', ''AIz'']"
    using assms(1) by (auto simp: vendorTokenPrefixes_def split: if_splits)
  show ?thesis
    using t(2) hasPrefixAt_slice [OF p t(1)] unfolding isVendorTokenStart_def by auto
qed

lemma vendor_loop_none:
  "\<not> isVendorTokenStart src j \<Longrightarrow> \<forall>v \<in> set vs. \<exists>c. v \<in> set (vendorTokenPrefixes c) \<Longrightarrow>
     vendor_loop re src j vs = NoMatch"
  using vendor_prefix_start by (induction vs) auto

lemma bulk_quiet:
  assumes j: "0 < j" "j < length src" and stop: "\<not> bulk_stop src j"
  shows "\<not> isDigitByte (src ! j)" and "src ! j \<noteq> NL"
    and "appendTriggeredRedactionAt u re src j = NoMatch"
proof -
  let ?c = "src ! j"
  have nostop: "bulkTrigger ?c \<noteq> trigStop" using stop by (auto simp: bulk_stop_def)
  have dig: "isDigitByte c \<Longrightarrow> c \<in> set ''0123456789''" for c
  proof -
    assume d: "isDigitByte c"
    have "48 \<le> (of_char c :: nat)" "(of_char c :: nat) \<le> 57"
      using d by (auto simp: isDigitByte_def less_eq_char_def)
    then have "(of_char c :: nat) \<in> {48, 49, 50, 51, 52, 53, 54, 55, 56, 57}"
      by (simp, presburger)
    then have "c \<in> char_of ` ({48, 49, 50, 51, 52, 53, 54, 55, 56, 57} :: nat set)"
      by (metis char_of_char image_eqI)
    then show "c \<in> set ''0123456789''" by (simp add: char_of_def bit_0)
  qed
  show "\<not> isDigitByte ?c" "?c \<noteq> NL" using nostop dig by (auto simp: bulkTrigger_def)
  have j0: "\<not> (0 < j \<and> isWordChar (src ! (j - 1))) \<Longrightarrow> \<not> isWordChar (src ! (j - 1))" using j by simp
  consider (colon) "?c = CHR '':''" | (jwt) "?c = CHR ''e''" | (dash) "?c = CHR ''-''"
    | (vendor) "?c \<in> set vendorTriggers"
    | (none) "triggerRule ?c = None"
    using nostop by (auto simp: triggerRule_def bulkTrigger_def split: if_splits)
  then show "appendTriggeredRedactionAt u re src j = NoMatch"
  proof cases
    case colon
    then have "\<not> (j + 2 < length src \<and> src ! (j + 1) = CHR ''/'' \<and> src ! (j + 2) = CHR ''/'')"
      using stop by (simp add: bulk_stop_def bulkTrigger_def)
    then have "appendRedactedURLPasswordAt re src j = NoMatch"
      by (auto simp: appendRedactedURLPasswordAt_def)
    then show ?thesis using colon by (simp add: appendTriggeredRedactionAt_def Let_def)
  next
    case jwt
    then have s: "\<not> (j + 2 < length src \<and> src ! (j + 1) = CHR ''y'' \<and> src ! (j + 2) = CHR ''J''
        \<and> \<not> isWordChar (src ! (j - 1)))"
      using stop by (simp add: bulk_stop_def bulkTrigger_def)
    have "appendRedactedJWTAt re src j = NoMatch"
    proof (cases "isWordChar (src ! (j - 1))")
      case True
      then show ?thesis using j by (simp add: appendRedactedJWTAt_def)
    next
      case False
      then have "\<not> hasPrefixAt src j ''eyJ''"
        using s hasPrefixAt_nth [of src j "''eyJ''" 1] hasPrefixAt_nth [of src j "''eyJ''" 2] by auto
      then show ?thesis by (simp add: appendRedactedJWTAt_def jwtTokenEnd_def)
    qed
    then show ?thesis using jwt by (simp add: appendTriggeredRedactionAt_def Let_def)
  next
    case dash
    then have "\<not> hasPrefixAt src j ''-----B''" using stop by (simp add: bulk_stop_def bulkTrigger_def)
    then have "\<not> hasPrefixAt src j pemBeginPrefix"
      using hasPrefixAt_take [of src j pemBeginPrefix 6] by auto
    then have "appendRedactedInlinePEMKeyAt re src j = NoMatch"
      by (simp add: appendRedactedInlinePEMKeyAt_def)
    then show ?thesis using dash by (simp add: appendTriggeredRedactionAt_def Let_def)
  next
    case vendor
    then have "bulkTrigger ?c = trigVendor" using nostop
      by (auto simp: vendorTriggers_def bulkTrigger_def split: if_splits)
    then have s: "\<not> (\<not> isWordChar (src ! (j - 1)) \<and> isVendorTokenStart src j)"
      using stop by (simp add: bulk_stop_def)
    have "appendRedactedVendorTokenAt re src j = NoMatch"
    proof (cases "isWordChar (src ! (j - 1))")
      case True
      then show ?thesis using j by (simp add: appendRedactedVendorTokenAt_def)
    next
      case False
      then show ?thesis
        using s vendor_loop_none [of src j "vendorTokenPrefixes ?c" re]
        by (auto simp: appendRedactedVendorTokenAt_def)
    qed
    then show ?thesis using vendor
      by (auto simp: appendTriggeredRedactionAt_def Let_def vendorTriggers_def)
  next
    case none
    then show ?thesis by (simp add: appendTriggeredRedactionAt_def Let_def)
  qed
qed

lemma ref_quiet:
  assumes "0 < j" "j < length src" "src ! (j - 1) \<noteq> NL" "\<not> bulk_stop src j"
  shows "ref_loop u re src j = map_option ((@) [src ! j]) (ref_loop u re src (j + 1))"
  using bulk_quiet [OF assms(1,2,4)] assms by (simp add: ref_loop.simps [of u re src j])

lemma map_append_append: "map_option ((@) a) (map_option ((@) b) x) = map_option ((@) (a @ b)) x"
  by (cases x) simp_all

lemma ref_bulk:
  assumes "0 < j" "src ! (j - 1) \<noteq> NL" "j \<le> length src"
  shows "ref_loop u re src j =
     map_option ((@) (slice src j (bulk_loop src j))) (ref_loop u re src (bulk_loop src j))"
  using assms
proof (induction src j rule: bulk_loop.induct)
  case (1 src j)
  show ?case
  proof (cases "j < length src \<and> \<not> bulk_stop src j")
    case False
    then have "bulk_loop src j = j" by (auto simp: bulk_loop.simps [of src j])
    then show ?thesis by (cases "ref_loop u re src j") simp_all
  next
    case True
    then have b: "bulk_loop src j = bulk_loop src (j + 1)" by (simp add: bulk_loop.simps [of src j])
    have nl: "src ! j \<noteq> NL" using bulk_quiet(2) "1.prems" True by blast
    have "ref_loop u re src j = map_option ((@) [src ! j]) (ref_loop u re src (j + 1))"
      using ref_quiet "1.prems" True by blast
    also have "ref_loop u re src (j + 1) = map_option ((@) (slice src (j + 1) (bulk_loop src j)))
        (ref_loop u re src (bulk_loop src j))"
      using 1(1) True nl b by simp
    also have "map_option ((@) [src ! j]) \<dots> =
        map_option ((@) ([src ! j] @ slice src (j + 1) (bulk_loop src j))) (ref_loop u re src (bulk_loop src j))"
      by (rule map_append_append)
    also have "[src ! j] @ slice src (j + 1) (bulk_loop src j) = slice src j (bulk_loop src j)"
      using slice_trans [of j "j + 1" "bulk_loop src j" src] slice_Suc [of j src] True
        bulk_loop_ge [of "j + 1" src] b by simp
    finally show ?thesis .
  qed
qed

lemma redact_loop_ref: "redact_loop u re src i = ref_loop u re src i"
proof (induction "length src - i" arbitrary: i rule: less_induct)
  case less
  have ih: "redact_loop u re src j = ref_loop u re src j" if "i < j" "i < length src" for j
    using less that by (simp add: diff_less_mono2)
  show ?case
  proof (cases "i < length src")
    case False
    then show ?thesis by (simp add: redact_loop.simps [of u re src i] ref_loop.simps [of u re src i])
  next
    case i: True
    define l where "l = (if i = 0 \<or> src ! (i - 1) = NL then appendLineStartRedactionAt u re src i else NoMatch)"
    have lgt: "l = Match n out \<Longrightarrow> i < n" for n out
      using line_start_gt [of u re src i n out] i by (auto simp: l_def split: if_splits)
    obtain dn dout where d: "appendDigitRunAt re src i = (dn, dout)" by fastforce
    have dgt: "isDigitByte (src ! i) \<Longrightarrow> i < dn" using digit_run_gt' [OF d [symmetric]] i by blast
    note L = redact_loop.simps [of u re src i, folded l_def] and R = ref_loop.simps [of u re src i, folded l_def]
    show ?thesis
    proof (cases "l = NoMatch \<and> \<not> isDigitByte (src ! i) \<and> appendTriggeredRedactionAt u re src i = NoMatch
        \<and> src ! i \<noteq> NL")
      case True
      let ?b = "bulkTextEnd src i"
      have "redact_loop u re src i = map_option ((@) (slice src i ?b)) (ref_loop u re src ?b)"
        using True i ih [OF bulk_gt i] by (simp add: L Let_def)
      moreover have "ref_loop u re src i = map_option ((@) [src ! i]) (ref_loop u re src (i + 1))"
        using True i by (simp add: R)
      moreover have "ref_loop u re src (i + 1) = map_option ((@) (slice src (i + 1) ?b)) (ref_loop u re src ?b)"
        using ref_bulk [of "i + 1" src u re] True i by (simp add: bulkTextEnd_def)
      moreover have "[src ! i] @ slice src (i + 1) ?b = slice src i ?b"
        using slice_trans [of i "i + 1" ?b src] slice_Suc [OF i] bulk_gt [of i src] by simp
      ultimately show ?thesis by (simp only: map_append_append)
    next
      case False
      show ?thesis
        unfolding L R
        using False i ih lgt dgt d triggered_gt [of u re src i]
        by (simp split: rule_result.split) blast
    qed
  qed
qed

section \<open>Disabled rules\<close>

definition all_rules :: "Rule list" where
  "all_rules = [RuleHeaders, RuleJSON, RuleURLEncoded, RuleXML, RuleUserinfo, RuleJWT,
     RuleVendorTokens, RulePEM, RuleCards]"

lemma ref_disabled:
  assumes off: "\<forall>r \<in> set all_rules. \<not> enabled re r" and "i \<le> length src"
  shows "ref_loop u re src i = Some (drop i src)"
  using assms(2)
proof (induction "length src - i" arbitrary: i rule: less_induct)
  case less
  have r: "\<not> enabled re RulePEM" "\<not> enabled re RuleHeaders" "\<not> enabled re RuleCards"
    using off by (auto simp: all_rules_def)
  have line: "appendLineStartRedactionAt u re src i = NoMatch"
    using r by (simp add: appendLineStartRedactionAt_def)
  have "\<forall>x. triggerRule (src ! i) = Some x \<longrightarrow> \<not> enabled re x"
    using off by (auto simp: triggerRule_def all_rules_def split: if_splits)
  then have trig: "appendTriggeredRedactionAt u re src i = NoMatch"
    by (cases "triggerRule (src ! i)") (simp_all add: appendTriggeredRedactionAt_def Let_def)
  let ?j = "scanDigits src i"
  have dig: "appendDigitRunAt re src i = (?j, slice src i ?j)"
    using r by (simp add: appendDigitRunAt_def Let_def)
  show ?case
  proof (cases "i < length src")
    case False
    then show ?thesis by (simp add: ref_loop.simps [of u re src i])
  next
    case i: True
    show ?thesis
    proof (cases "isDigitByte (src ! i)")
      case True
      have "i < ?j" using digit_run_gt [OF True i, of re] dig by simp
      moreover have "?j \<le> length src" using scans_le(1) less.prems .
      ultimately have "ref_loop u re src ?j = Some (drop ?j src)" using less.hyps i by simp
      then show ?thesis
        using True i line dig slice_append_drop [of i ?j src] \<open>i < ?j\<close>
        by (simp add: ref_loop.simps [of u re src i])
    next
      case False
      have "ref_loop u re src (i + 1) = Some (drop (i + 1) src)" using less.hyps i by simp
      then show ?thesis
        using False i line trig by (simp add: ref_loop.simps [of u re src i] Cons_nth_drop_Suc)
    qed
  qed
qed

lemma redactInto_marker:
  assumes "marker re \<noteq> []" and "keyMemo re \<noteq> None"
  shows "redactInto u re src = ref_loop u re src 0"
  using assms by (auto simp add: redactInto_def redact_loop_ref usableRedactor_def)

section \<open>Panics\<close>

text \<open>
  An input that does not end in a backslash cannot make a string scan overrun.
\<close>

definition safe_end :: "bytes \<Rightarrow> bool" where
  "safe_end src \<longleftrightarrow> src = [] \<or> last src \<noteq> BSL"

lemma json_string_loop_le:
  assumes "safe_end src" and "i \<le> length src"
  shows "json_string_loop src i \<le> length src"
  using assms
proof (induction src i rule: json_string_loop.induct)
  case (1 src i)
  show ?case
  proof (cases "i < length src")
    case False
    then show ?thesis using 1(4) by (subst json_string_loop.simps) simp
  next
    case i: True
    show ?thesis
    proof (cases "src ! i = BSL")
      case True
      have "i \<noteq> length src - 1"
      proof
        assume "i = length src - 1"
        then have "last src = BSL" using True i last_conv_nth [of src] by fastforce
        then show False using 1(3) i by (auto simp: safe_end_def)
      qed
      then have "json_string_loop src (i + 2) \<le> length src" using 1 i True by simp
      then show ?thesis using True i by (simp add: json_string_loop.simps [of src i])
    next
      case False
      then show ?thesis
        using i 1 by (subst json_string_loop.simps) auto
    qed
  qed
qed

lemma labeled_no_panic:
  assumes "safe_end src" and "v < length src"
  shows "appendLabeledSecretJSON u re src i key v \<noteq> Panic"
proof -
  have "parseJSONStringEnd src v \<le> length src"
    using json_string_loop_le [OF assms(1), of "v + 1"] assms(2) by (simp add: parseJSONStringEnd_def)
  then have "\<not> length src \<le> parseJSONStringEnd src v - 1"
    using parseJSONStringEnd_gt [of v src] by linarith
  then show ?thesis
    by (auto simp: appendLabeledSecretJSON_def Let_def split: option.splits)
qed

lemma json_no_panic:
  assumes "safe_end src"
  shows "appendRedactedSensitiveJSONAt u re src i \<noteq> Panic"
  using labeled_no_panic [OF assms] value_start_gt
  by (fastforce simp: appendRedactedSensitiveJSONAt_def Let_def split: option.splits rule_result.splits if_splits)

lemma vendor_loop_no_panic: "vendor_loop re src i vs \<noteq> Panic"
  by (induction vs) (auto simp: Let_def)

lemma triggered_no_panic:
  assumes "safe_end src"
  shows "appendTriggeredRedactionAt u re src i \<noteq> Panic"
proof -
  have "appendRedactedEscapedJSONAt u re src i \<noteq> Panic" "appendRedactedURLEncodedValueAt u re src i \<noteq> Panic"
    "appendRedactedURLPasswordAt re src i \<noteq> Panic" "appendRedactedJWTAt re src i \<noteq> Panic"
    "appendRedactedXMLValueAt u re src i \<noteq> Panic" "appendRedactedInlinePEMKeyAt re src i \<noteq> Panic"
    "appendRedactedVendorTokenAt re src i \<noteq> Panic"
    by (auto simp: appendRedactedEscapedJSONAt_def appendRedactedURLEncodedValueAt_def Let_def
        appendLabeledSecretAttr_def appendRedactedURLPasswordAt_def appendRedactedJWTAt_def
        appendRedactedXMLValueAt_def appendRedactedInlinePEMKeyAt_def appendRedactedVendorTokenAt_def
        vendor_loop_no_panic split: option.splits prod.splits)
  then show ?thesis
    using json_no_panic [OF assms] by (simp add: appendTriggeredRedactionAt_def Let_def)
qed

lemma line_start_no_panic: "appendLineStartRedactionAt u re src i \<noteq> Panic"
  by (auto simp: appendLineStartRedactionAt_def appendRedactedPEMKeyAt_def Let_def
      split: rule_result.splits option.splits if_splits)

lemma ref_no_panic:
  assumes "safe_end src"
  shows "ref_loop u re src i \<noteq> None"
proof (induction "length src - i" arbitrary: i rule: less_induct)
  case less
  have ih: "ref_loop u re src j \<noteq> None" if "i < j" "i < length src" for j
    using less that by (simp add: diff_less_mono2)
  define l where "l = (if i = 0 \<or> src ! (i - 1) = NL then appendLineStartRedactionAt u re src i else NoMatch)"
  have lgt: "l = Match n out \<Longrightarrow> i < length src \<Longrightarrow> i < n" for n out
    using line_start_gt [of u re src i n out] by (auto simp: l_def split: if_splits)
  have lp: "l \<noteq> Panic" using line_start_no_panic by (simp add: l_def)
  obtain dn dout where d: "appendDigitRunAt re src i = (dn, dout)" by fastforce
  have dgt: "isDigitByte (src ! i) \<Longrightarrow> i < length src \<Longrightarrow> i < dn" using digit_run_gt' [OF d [symmetric]] by blast
  show ?case
    unfolding ref_loop.simps [of u re src i, folded l_def]
    using ih lgt lp dgt d triggered_gt [of u re src i] triggered_no_panic [OF assms, of u re i]
    by (simp split: rule_result.split)
qed

end
