(* ===== verification/RD_Fast.thy ===== *)
theory RD_Fast
  imports RD_Ref
begin

text \<open>
  The ASCII classifier of key names against the classifier on normalized keys, the one the
  package falls back to on any non-ASCII byte: whenever \<^verbatim>\<open>sensitiveKeyASCIIFast\<close> decides, the
  two agree. The simulation follows both loops over the key; the fast loop notices the split
  \<^verbatim>\<open>HTTPServer -> HTTP, Server\<close> one byte later than the normalizer, so while an upper-case
  run is open the normalizer is kept one rune behind (\<open>pending\<close>). The memo in front of the
  slow path is shown to be transparent and bounded.
\<close>

section \<open>Unicode tables on ASCII\<close>

definition ascii_tables :: "unicode \<Rightarrow> bool" where
  "ascii_tables u \<longleftrightarrow>
     (\<forall>r < 128. IsUpper u r = (65 \<le> r \<and> r \<le> 90) \<and> IsLower u r = (97 \<le> r \<and> r \<le> 122)
        \<and> IsDigit u r = (48 \<le> r \<and> r \<le> 57) \<and> IsLetter u r = (IsUpper u r \<or> IsLower u r)
        \<and> ToLower u r = (if IsUpper u r then r + 32 else r))"

definition is_ascii :: "char \<Rightarrow> bool" where
  "is_ascii c \<longleftrightarrow> byte_val c < 128"

lemma is_ascii_iff: "is_ascii c \<longleftrightarrow> \<not> CHR 0x80 \<le> c"
  by (auto simp: is_ascii_def less_eq_char_def)

lemma ascii_classes:
  assumes "ascii_tables u" and "is_ascii c"
  shows "IsUpper u (byte_val c) = isUpperByte c" "IsLower u (byte_val c) = isLowerByte c"
    "IsDigit u (byte_val c) = isDigitByte c"
    "(IsLetter u (byte_val c) \<or> IsDigit u (byte_val c)) = isASCIIAlphaNum c"
    "EncodeRune (ToLower u (byte_val c)) = [lowerASCIIByte c]"
  using assms
  by (auto simp: ascii_tables_def is_ascii_def isUpperByte_def isLowerByte_def isDigitByte_def
      isASCIIAlphaNum_def less_eq_char_def EncodeRune_def lowerASCIIByte_def Let_def)

lemma runes_ascii: "is_ascii c \<Longrightarrow> runes (c # cs) = byte_val c # runes cs"
  by (simp add: runes.simps [of "c # cs"] is_ascii_def Let_def)

lemma alnum_ascii: "isASCIIAlphaNum c \<Longrightarrow> is_ascii c"
  by (auto simp: isASCIIAlphaNum_def is_ascii_def less_eq_char_def)

lemma alnum_lower:
  "isASCIIAlphaNum c \<Longrightarrow> lowerASCIIByte c \<noteq> CHR ''_''"
proof -
  assume a: "isASCIIAlphaNum c"
  have "byte_val (lowerASCIIByte c) \<noteq> 95"
    using a by (auto simp: isASCIIAlphaNum_def lowerASCIIByte_def less_eq_char_def of_char_of)
  then show ?thesis by (intro notI) simp
qed

section \<open>The classifier on normalized keys\<close>

lemma normalized_loop_skip:
  "normalized_loop re (CHR ''_'' # s) [] prev = normalized_loop re s [] prev"
  by simp

lemma normalized_loop_trail:
  "normalized_loop re (s @ [CHR ''_'']) cur prev = normalized_loop re s cur prev"
  by (induction re s cur prev rule: normalized_loop.induct) auto

lemma normalized_loop_trim:
  "normalized_loop re (trim_underscores s) [] None = normalized_loop re s [] None"
proof -
  have lead: "normalized_loop re (dropWhile (\<lambda>c. c = CHR ''_'') s) [] None = normalized_loop re s [] None" for s
    by (induction s) auto
  have trail: "normalized_loop re (rev (dropWhile (\<lambda>c. c = CHR ''_'') t)) cur prev
      = normalized_loop re (rev t) cur prev" for t cur prev
    by (induction t) (auto simp: normalized_loop_trail)
  show ?thesis by (simp add: trim_underscores_def trail lead)
qed

lemma tokens_eq:
  "isSensitiveNormalizedKeyTokens re (normalizeKey u key)
     = normalized_loop re (normalize_loop u (runes key) False False True) [] None"
  using normalized_loop_trim [of re "normalize_loop u (runes key) False False True"]
  by (auto simp: isSensitiveNormalizedKeyTokens_def normalizeKey_def)

section \<open>Closing a token\<close>

abbreviation lower :: "bytes \<Rightarrow> bytes" where
  "lower s \<equiv> map lowerASCIIByte s"

definition pair_rel :: "pairKind \<Rightarrow> bytes option \<Rightarrow> bool" where
  "pair_rel ph prev \<longleftrightarrow>
     (\<forall>tok. matchesPairTail ph tok = (case prev of None \<Rightarrow> False | Some p \<Rightarrow> matchesPairString p (lower tok)))"

lemma pair_rel_init: "pair_rel pairNone None"
  by (simp add: pair_rel_def)

lemma fold_eq: "equalsASCIIFold tok lit \<longleftrightarrow> lower tok = lit"
  by (auto simp: equalsASCIIFold_def)

lemma pairHeadKind_eq:
  "pairHeadKind tok =
     (if lower tok = ''last'' \<or> lower tok = ''first'' then pairFirstLastName
      else if lower tok = ''national'' then pairNationalID
      else if lower tok = ''connection'' then pairConnectionStr
      else pairNone)"
proof -
  have n: "(length tok = n \<and> lower tok = lit) = (lower tok = lit)" if "length lit = n" for lit n
    using that by auto
  have "lower tok = ''first'' \<Longrightarrow> length tok = 5" by (drule arg_cong [of _ _ length]) simp
  then show ?thesis by (auto simp add: pairHeadKind_def fold_eq n)
qed

lemma pair_rel_head: "pair_rel (pairHeadKind tok) (Some (lower tok))"
  by (simp add: pair_rel_def pairHeadKind_eq fold_eq matchesPairString_def)

lemma token_close:
  assumes "pair_rel ph prev" and "tok \<noteq> []"
  shows "fst (closeSensitiveToken re tok ph)
      = (sensitiveToken re (lower tok) \<or> (case prev of None \<Rightarrow> False | Some p \<Rightarrow> matchesPairString p (lower tok)))"
    and "\<not> fst (closeSensitiveToken re tok ph) \<Longrightarrow>
      pair_rel (snd (closeSensitiveToken re tok ph)) (Some (lower tok))"
  using assms pair_rel_head [of tok]
  by (auto simp: closeSensitiveToken_def sensitiveTokenASCII_def pair_rel_def split: if_splits)

text \<open>The normalized loop reads a run of token bytes, and closes the token at an underscore.\<close>

lemma normalized_loop_token:
  "CHR ''_'' \<notin> set s \<Longrightarrow> normalized_loop re (s @ t) cur prev = normalized_loop re t (cur @ s) prev"
  by (induction s arbitrary: cur) auto

lemma normalized_loop_close:
  assumes "pair_rel ph prev" and "tok \<noteq> []"
  shows "normalized_loop re (CHR ''_'' # t) (lower tok) prev =
     (fst (closeSensitiveToken re tok ph) \<or> normalized_loop re t [] (Some (lower tok)))"
  using token_close(1) [OF assms] assms(2) by auto

lemma normalized_loop_end:
  assumes "pair_rel ph prev" and "tok \<noteq> []"
  shows "normalized_loop re [] (lower tok) prev = fst (closeSensitiveToken re tok ph)"
  using token_close(1) [OF assms] assms(2) by auto

section \<open>The simulation\<close>

definition fast_inv :: "bytes \<Rightarrow> bool \<Rightarrow> bool \<Rightarrow> bool \<Rightarrow> bool" where
  "fast_inv cur ld up us \<longleftrightarrow>
     (if cur = [] then \<not> ld \<and> \<not> up \<and> us
      else \<not> us \<and> ld \<noteq> up \<and> up = isUpperByte (last cur)) \<and> (\<forall>c \<in> set cur. isASCIIAlphaNum c)"

definition pending :: "bytes \<Rightarrow> bool \<Rightarrow> bool" where
  "pending cur up \<longleftrightarrow> up \<and> 2 \<le> length cur"

text \<open>The state of the classifier on the normalized key that a state of the fast loop stands for.\<close>

definition slow :: "unicode \<Rightarrow> redactor \<Rightarrow> nat list \<Rightarrow> bytes \<Rightarrow> bool \<Rightarrow> bool \<Rightarrow> bool \<Rightarrow> bytes option \<Rightarrow> bool" where
  "slow u re rs cur ld up us prev =
     (if pending cur up
      then normalized_loop re (normalize_loop u (byte_val (last cur) # rs) False True False)
             (lower (butlast cur)) prev
      else normalized_loop re (normalize_loop u rs ld up us) (lower cur) prev)"

definition next_lower :: "unicode \<Rightarrow> nat list \<Rightarrow> bool" where
  "next_lower u rs \<longleftrightarrow> (case rs of [] \<Rightarrow> False | r # _ \<Rightarrow> IsLower u r)"

lemma byte_classes:
  "isUpperByte c \<Longrightarrow> isASCIIAlphaNum c" "isLowerByte c \<Longrightarrow> isASCIIAlphaNum c"
  "isDigitByte c \<Longrightarrow> isASCIIAlphaNum c" "isLowerByte c \<Longrightarrow> \<not> isUpperByte c"
  "isDigitByte c \<Longrightarrow> \<not> isUpperByte c"
  "isASCIIAlphaNum c \<Longrightarrow> (isLowerByte c \<or> isDigitByte c) \<noteq> isUpperByte c"
  by (auto simp: isUpperByte_def isLowerByte_def isDigitByte_def isASCIIAlphaNum_def less_eq_char_def)

lemma lower_app: "cur \<noteq> [] \<Longrightarrow> lower (butlast cur) @ [lowerASCIIByte (last cur)] = lower cur"
  by (metis append_butlast_last_id list.map(1,2) map_append)

lemma normalize_alnum:
  assumes "ascii_tables u" and "isASCIIAlphaNum c"
  shows "normalize_loop u (byte_val c # rs) ld up us =
     (if isUpperByte c \<and> \<not> us \<and> (ld \<or> up \<and> next_lower u rs) then [CHR ''_''] else [])
     @ lowerASCIIByte c # normalize_loop u rs (isLowerByte c \<or> isDigitByte c) (isUpperByte c) False"
  using ascii_classes [OF assms(1) alnum_ascii [OF assms(2)]] assms(2)
  by (simp add: next_lower_def Let_def)

lemma slow_flush:
  assumes "ascii_tables u" and "fast_inv cur ld up us" and "\<not> (pending cur up \<and> next_lower u rs)"
  shows "slow u re rs cur ld up us prev = normalized_loop re (normalize_loop u rs ld up us) (lower cur) prev"
proof (cases "pending cur up")
  case False
  then show ?thesis by (simp add: slow_def)
next
  case True
  then have c: "cur \<noteq> []" and up: "isUpperByte (last cur)" and f: "\<not> ld" "up" "\<not> us"
    using assms(2) by (auto simp: pending_def fast_inv_def split: if_splits)
  have "\<not> (isLowerByte (last cur) \<or> isDigitByte (last cur))" using byte_classes(4,5) up by blast
  then show ?thesis
    using normalize_alnum [OF assms(1) byte_classes(1) [OF up], of rs False True False]
      alnum_lower [OF byte_classes(1) [OF up]] True assms(3) up lower_app [OF c] f
    by (simp add: slow_def)
qed

lemma slow_alnum:
  assumes "ascii_tables u" and inv: "fast_inv cur ld up us" and a: "isASCIIAlphaNum c"
    and split: "\<not> (isUpperByte c \<and> ld \<and> \<not> us \<and> cur \<noteq> [])" "\<not> (isLowerByte c \<and> up \<and> cur \<noteq> [] \<and> 1 < length cur)"
  shows "slow u re (byte_val c # rs) cur ld up us prev
     = slow u re rs (cur @ [c]) (isLowerByte c \<or> isDigitByte c) (isUpperByte c) False prev"
proof -
  have l: "next_lower u (byte_val c # rs) = isLowerByte c"
    using ascii_classes(2) [OF assms(1) alnum_ascii [OF a]] by (simp add: next_lower_def)
  have flush: "slow u re (byte_val c # rs) cur ld up us prev
      = normalized_loop re (normalize_loop u (byte_val c # rs) ld up us) (lower cur) prev"
    using slow_flush [OF assms(1) inv] split(2) l by (auto simp: pending_def)
  show ?thesis
  proof (cases "isUpperByte c \<and> cur \<noteq> []")
    case True
    then have "pending (cur @ [c]) (isUpperByte c)" "\<not> ld" "up" "\<not> us"
      using inv split(1) by (cases cur; auto simp: pending_def fast_inv_def)+
    then show ?thesis using flush by (simp add: slow_def)
  next
    case False
    then have np: "\<not> pending (cur @ [c]) (isUpperByte c)" by (auto simp: pending_def Suc_le_eq)
    have "(isUpperByte c \<and> \<not> us \<and> (ld \<or> up \<and> next_lower u rs)) = False"
      using False inv by (auto simp: fast_inv_def)
    then show ?thesis
      using np normalize_alnum [OF assms(1) a, of rs ld up us] alnum_lower [OF a]
      unfolding flush by (simp only: slow_def if_False) simp
  qed
qed

lemma fast_inv_alnum:
  assumes "fast_inv cur ld up us" and "isASCIIAlphaNum c"
  shows "fast_inv (cur @ [c]) (isLowerByte c \<or> isDigitByte c) (isUpperByte c) False"
  using assms byte_classes(6) [of c] by (auto simp: fast_inv_def split: if_splits)

lemma slow_single:
  "slow u re rs [c] ld up us prev = normalized_loop re (normalize_loop u rs ld up us) [lowerASCIIByte c] prev"
  by (simp add: slow_def pending_def)

text \<open>The two places at which a token ends inside a word.\<close>

lemma slow_split_upper:
  assumes "ascii_tables u" and inv: "fast_inv cur ld up us" and pr: "pair_rel ph prev"
    and c: "isUpperByte c" "ld" "cur \<noteq> []"
  shows "slow u re (byte_val c # rs) cur ld up us prev =
     (fst (closeSensitiveToken re cur ph)
      \<or> slow u re rs [c] (isLowerByte c \<or> isDigitByte c) (isUpperByte c) False (Some (lower cur)))"
proof -
  have f: "\<not> us" "\<not> pending cur up" using inv c by (auto simp: fast_inv_def pending_def)
  show ?thesis
    using normalize_alnum [OF assms(1) byte_classes(1) [OF c(1)], of rs ld up us] f c
      alnum_lower [OF byte_classes(1) [OF c(1)]]
      normalized_loop_close [OF pr c(3), of re "lowerASCIIByte c # normalize_loop u rs (isLowerByte c \<or> isDigitByte c) True False"]
    unfolding slow_single by (simp add: slow_def del: normalized_loop.simps) simp
qed

lemma slow_split_lower:
  assumes "ascii_tables u" and inv: "fast_inv cur ld up us" and pr: "pair_rel ph prev"
    and c: "isLowerByte c" "up" "1 < length cur"
  shows "slow u re (byte_val c # rs) cur ld up us prev =
     (fst (closeSensitiveToken re (butlast cur) ph)
      \<or> slow u re rs [last cur, c] (isLowerByte c \<or> isDigitByte c) (isUpperByte c) False (Some (lower (butlast cur))))"
proof -
  have p: "pending cur up" and ne: "butlast cur \<noteq> []" and U: "isUpperByte (last cur)"
    using c inv by (auto simp: pending_def fast_inv_def simp flip: length_greater_0_conv split: if_splits)
  have a: "isASCIIAlphaNum c" and nu: "\<not> isUpperByte c" using byte_classes(2,4) c by blast+
  have l: "next_lower u (byte_val c # rs)"
    using ascii_classes(2) [OF assms(1) alnum_ascii [OF a]] c by (simp add: next_lower_def)
  have nl: "\<not> (isLowerByte (last cur) \<or> isDigitByte (last cur))" using byte_classes(4,5) U by blast
  let ?t = "lowerASCIIByte (last cur) # lowerASCIIByte c # normalize_loop u rs (isLowerByte c \<or> isDigitByte c) False False"
  have "normalize_loop u (byte_val (last cur) # byte_val c # rs) False True False = CHR ''_'' # ?t"
    using normalize_alnum [OF assms(1) byte_classes(1) [OF U], of "byte_val c # rs" False True False]
      normalize_alnum [OF assms(1) a, of rs False True False] U l nu nl by simp
  moreover have "normalized_loop re ?t [] (Some (lower (butlast cur)))
      = slow u re rs [last cur, c] (isLowerByte c \<or> isDigitByte c) (isUpperByte c) False (Some (lower (butlast cur)))"
    using alnum_lower [OF a] alnum_lower [OF byte_classes(1) [OF U]] nu by (simp add: slow_def pending_def)
  ultimately show ?thesis
    using p normalized_loop_close [OF pr ne, of re ?t]
    by (simp add: slow_def [of u re "byte_val c # rs"] del: normalized_loop.simps)
qed

lemma fast_inv_fresh: "isASCIIAlphaNum c \<Longrightarrow>
    fast_inv [c] (isLowerByte c \<or> isDigitByte c) (isUpperByte c) False"
  using byte_classes(6) by (auto simp: fast_inv_def)

lemma slow_sep:
  assumes "ascii_tables u" and inv: "fast_inv cur ld up us" and pr: "pair_rel ph prev"
    and a: "is_ascii c" "\<not> isASCIIAlphaNum c"
  shows "slow u re (byte_val c # rs) cur ld up us prev =
     (if cur = [] then slow u re rs [] False False True prev
      else fst (closeSensitiveToken re cur ph) \<or> slow u re rs [] False False True (Some (lower cur)))"
proof -
  have l: "\<not> next_lower u (byte_val c # rs)"
    using ascii_classes(2) [OF assms(1) a(1)] byte_classes(2) [of c] a(2) by (auto simp: next_lower_def)
  have n: "normalize_loop u (byte_val c # rs) ld up us
      = (if \<not> us then [CHR ''_''] else []) @ normalize_loop u rs False False True"
    using ascii_classes(4) [OF assms(1) a(1)] a(2) by simp
  show ?thesis
  proof (cases "cur = []")
    case True
    then have "us" "\<not> pending cur up" using inv by (auto simp: fast_inv_def pending_def)
    then show ?thesis using slow_flush [OF assms(1) inv, of "byte_val c # rs" re prev] n True
      by (simp add: slow_def pending_def)
  next
    case False
    then have "\<not> us" using inv by (auto simp: fast_inv_def)
    then have "slow u re (byte_val c # rs) cur ld up us prev
        = normalized_loop re (CHR ''_'' # normalize_loop u rs False False True) (lower cur) prev"
      using slow_flush [OF assms(1) inv, of "byte_val c # rs" re prev] n l by simp
    then show ?thesis
      using normalized_loop_close [OF pr False, of re] False
      by (simp add: slow_def pending_def del: normalized_loop.simps)
  qed
qed

lemma slow_end:
  assumes "ascii_tables u" and inv: "fast_inv cur ld up us" and pr: "pair_rel ph prev"
  shows "slow u re [] cur ld up us prev = (cur \<noteq> [] \<and> fst (closeSensitiveToken re cur ph))"
  using slow_flush [OF assms(1) inv, of "[]" re prev] normalized_loop_end [OF pr, of cur re]
  by (cases "cur = []") (simp_all add: next_lower_def)

theorem fast_sim:
  assumes "ascii_tables u" and "asciiFast_loop re cs cur ld up us ph = Some b"
    and "pair_rel ph prev" and "fast_inv cur ld up us"
  shows "slow u re (runes cs) cur ld up us prev = b"
  using assms(2-)
proof (induction cs arbitrary: cur ld up us ph prev)
  case Nil
  then show ?case using slow_end [OF assms(1) Nil(3,2)] by (auto simp: runes.simps [of "[]"] split: if_splits)
next
  case (Cons c cs)
  note inv = Cons.prems(3) and pr = Cons.prems(2)
  have asc: "is_ascii c" using Cons.prems(1) by (auto simp: is_ascii_iff split: if_splits)
  note rs = runes_ascii [OF asc, of cs]
  let ?ld = "isLowerByte c \<or> isDigitByte c" and ?up = "isUpperByte c"
  have nb: "\<not> CHR 0x80 \<le> c" using asc is_ascii_iff by blast
  note step = Cons.prems(1) [unfolded asciiFast_loop.simps Let_def if_not_P [OF nb]]
  consider (upper) "isASCIIAlphaNum c" "?up \<and> ld \<and> \<not> us \<and> cur \<noteq> []"
    | (lower) "isASCIIAlphaNum c" "\<not> (?up \<and> ld \<and> \<not> us \<and> cur \<noteq> [])" "isLowerByte c \<and> up \<and> cur \<noteq> [] \<and> 1 < length cur"
    | (grow) "isASCIIAlphaNum c" "\<not> (?up \<and> ld \<and> \<not> us \<and> cur \<noteq> [])" "\<not> (isLowerByte c \<and> up \<and> cur \<noteq> [] \<and> 1 < length cur)"
    | (sep) "\<not> isASCIIAlphaNum c" by blast
  then show ?case
  proof cases
    case upper
    obtain sens ph' where cl: "closeSensitiveToken re cur ph = (sens, ph')" by fastforce
    have eq: "slow u re (runes (c # cs)) cur ld up us prev = (sens \<or> slow u re (runes cs) [c] ?ld ?up False (Some (lower cur)))"
      using slow_split_upper [OF assms(1) inv pr, of c re "runes cs"] upper cl rs by simp
    show ?thesis
    proof (cases sens)
      case True
      then show ?thesis using step upper cl eq by (simp split: if_splits)
    next
      case False
      then have "pair_rel ph' (Some (lower cur))" using token_close(2) [OF pr, of cur re] upper cl by simp
      moreover have "asciiFast_loop re cs [c] ?ld ?up False ph' = Some b" using step upper cl False by simp
      ultimately show ?thesis using Cons.IH fast_inv_fresh [OF upper(1)] eq False by blast
    qed
  next
    case lower
    obtain sens ph' where cl: "closeSensitiveToken re (butlast cur) ph = (sens, ph')" by fastforce
    have eq: "slow u re (runes (c # cs)) cur ld up us prev
        = (sens \<or> slow u re (runes cs) [last cur, c] ?ld ?up False (Some (lower (butlast cur))))"
      using slow_split_lower [OF assms(1) inv pr, of c re "runes cs"] lower cl rs by simp
    have ne: "butlast cur \<noteq> []" using lower(3) by (cases cur rule: rev_cases) auto
    show ?thesis
    proof (cases sens)
      case True
      then show ?thesis using step lower cl eq by (simp split: if_splits)
    next
      case False
      then have "pair_rel ph' (Some (lower (butlast cur)))" using token_close(2) [OF pr ne, of re] cl by simp
      moreover have "asciiFast_loop re cs [last cur, c] ?ld ?up False ph' = Some b" using step lower cl False by (auto split: if_splits)
      moreover have "fast_inv [last cur, c] ?ld ?up False"
        using fast_inv_alnum [OF fast_inv_fresh, of "last cur" c] lower inv by (auto simp: fast_inv_def)
      ultimately show ?thesis using Cons.IH eq False by blast
    qed
  next
    case grow
    have "asciiFast_loop re cs (cur @ [c]) ?ld ?up False ph = Some b" using step grow by (simp split: if_splits)
    then show ?thesis
      using Cons.IH [OF _ pr fast_inv_alnum [OF inv grow(1)]] slow_alnum [OF assms(1) inv grow, of re "runes cs" prev] rs
      by simp
  next
    case sep
    have fresh: "fast_inv [] False False True" by (simp add: fast_inv_def)
    note eq = slow_sep [OF assms(1) inv pr asc sep, of re "runes cs", folded rs]
    obtain sens ph' where cl: "closeSensitiveToken re cur ph = (sens, ph')" by fastforce
    show ?thesis
    proof (cases "cur \<noteq> [] \<and> \<not> sens")
      case True
      then have "pair_rel ph' (Some (lower cur))" using token_close(2) [OF pr, of cur re] cl by simp
      then show ?thesis using Cons.IH [OF _ _ fresh] step sep cl True eq by simp
    next
      case False
      then show ?thesis using Cons.IH [OF _ pr fresh] step sep cl eq by (auto split: if_splits)
    qed
  qed
qed

lemma fast_agrees:
  assumes "ascii_tables u" and "sensitiveKeyASCIIFast re key = Some b"
  shows "isSensitiveNormalizedKeyTokens re (normalizeKey u key) = b"
  using fast_sim [OF assms(1) assms(2) [unfolded sensitiveKeyASCIIFast_def] pair_rel_init]
  by (simp add: tokens_eq fast_inv_def slow_def pending_def)

section \<open>The memo\<close>

definition memo_ok :: "unicode \<Rightarrow> redactor \<Rightarrow> (bytes, bool) fmap \<Rightarrow> bool" where
  "memo_ok u re data \<longleftrightarrow> maplen data \<le> sensitiveKeyCacheMaxEntries
     \<and> (\<forall>k v. fmlookup data k = Some v \<longrightarrow> sensitiveKeyASCIIFast re k = None \<and> v = isSensitiveKey u re k)"

lemma fold_fmdrop_lookup:
  "fmlookup (fold fmdrop ks m) k = (if k \<in> set ks then None else fmlookup m k)"
  by (induction ks arbitrary: m) auto

lemma fold_fmdrop_len: "maplen (fold fmdrop ks m) \<le> maplen m"
proof (induction ks arbitrary: m)
  case (Cons k ks)
  have "maplen (fmdrop k m) \<le> maplen m" by (simp add: maplen_drop)
  then show ?case using Cons [of "fmdrop k m"] by simp
qed simp

lemma memo_set_len:
  assumes "maplen data \<le> sensitiveKeyCacheMaxEntries" and "set order = fset (fmdom data)"
  shows "maplen (memo_set order k v data) \<le> sensitiveKeyCacheMaxEntries"
proof (cases "sensitiveKeyCacheMaxEntries \<le> maplen data")
  case True
  have "fmdom data \<noteq> {||}" using True by (auto simp: maplen_def fcard.rep_eq)
  then obtain o1 os where o: "order = o1 # os" using assms(2) by (cases order) (auto simp: fset_eq_iff)
  then obtain w where w: "fmlookup data o1 = Some w" using assms(2) by (metis fmdomE list.set_intros(1))
  have n: "take sensitiveKeyCacheEvictBatch order = o1 # take 511 os" using o by (simp add: take_Cons')
  have "maplen (fold fmdrop (take sensitiveKeyCacheEvictBatch order) data) < maplen data"
    using maplen_drop_less [OF w] fold_fmdrop_len [of "take 511 os" "fmdrop o1 data"] unfolding n by simp
  then show ?thesis using True assms(1) by (auto simp: memo_set_def maplen_upd)
next
  case False
  then show ?thesis by (auto simp: memo_set_def maplen_upd)
qed

lemma memo_transparent:
  assumes ok: "memo_ok u re data" and ord: "set order = fset (fmdom data)"
  shows "fst (isSensitiveKey_memo u re order key data) = isSensitiveKey u re key"
    and "memo_ok u re (snd (isSensitiveKey_memo u re order key data))"
proof -
  show "fst (isSensitiveKey_memo u re order key data) = isSensitiveKey u re key"
  proof (cases "sensitiveKeyASCIIFast re key = None \<and> fmlookup data key \<noteq> None")
    case True
    then obtain v where v: "fmlookup data key = Some v" by blast
    then have "v = isSensitiveKey u re key" using ok by (simp add: memo_ok_def)
    then show ?thesis using v True by (simp add: isSensitiveKey_memo_def)
  next
    case False
    then show ?thesis by (auto simp: isSensitiveKey_memo_def isSensitiveKey_def Let_def split: option.splits)
  qed
  have "maplen data \<le> sensitiveKeyCacheMaxEntries" using ok by (simp add: memo_ok_def)
  note len = memo_set_len [OF this ord]
  have upd: "memo_ok u re (memo_set order key (isSensitiveKey u re key) data)" if "sensitiveKeyASCIIFast re key = None"
    using that ok len by (simp add: memo_ok_def memo_set_def fold_fmdrop_lookup split: if_splits)
  have "snd (isSensitiveKey_memo u re order key data)
      \<in> {data, memo_set order key (isSensitiveKey u re key) data}"
    by (auto simp: isSensitiveKey_memo_def isSensitiveKey_def Let_def split: option.splits)
  moreover have "snd (isSensitiveKey_memo u re order key data) = data" if "sensitiveKeyASCIIFast re key \<noteq> None"
    using that by (auto simp: isSensitiveKey_memo_def)
  ultimately show "memo_ok u re (snd (isSensitiveKey_memo u re order key data))"
    using upd ok by (cases "sensitiveKeyASCIIFast re key = None") auto
qed

end
