(* ===== verification/RD_Secrecy.thy ===== *)
theory RD_Secrecy
  imports RD_Ref
begin

text \<open>
  What the engine writes for documents whose shape is known: a block of sensitive header
  lines, a flat JSON object with sensitive keys, a URL with a password. Each step lemma
  gives the exact output at a position of an arbitrary document; the values only occur on
  the left-hand sides, so nothing of them reaches the output. The last section is about the
  Luhn check.
\<close>

section \<open>Positions in concatenated documents\<close>

lemma scan_app:
  assumes "\<forall>c \<in> set s. p c" and "t = [] \<or> \<not> p (hd t)"
  shows "scan_while p (a @ s @ t) (length a) = length a + length s"
proof -
  have "takeWhile p (s @ t) = s" using assms by (cases t) (auto simp: takeWhile_append2)
  then show ?thesis using scan_while_eq [of "length a" "a @ s @ t" p] by simp
qed

lemma scan_here: "i < length src \<Longrightarrow> \<not> p (src ! i) \<Longrightarrow> scan_while p src i = i"
  by (simp add: scan_while.simps)

lemma slice_app: "slice (a @ s @ t) (length a) (length a + length s) = s"
  by (simp add: slice_def)

lemma ref_step_match:
  assumes "i < length src" and "i = 0 \<or> src ! (i - 1) = NL"
    and "appendLineStartRedactionAt u re src i = Match n out"
  shows "ref_loop u re src i = map_option ((@) out) (ref_loop u re src n)"
  using assms by (simp add: ref_loop.simps [of u re src i])

lemma ref_step_trigger:
  assumes "i < length src" and "0 < i" and "src ! (i - 1) \<noteq> NL" and "\<not> isDigitByte (src ! i)"
    and "appendTriggeredRedactionAt u re src i = Match n out"
  shows "ref_loop u re src i = map_option ((@) out) (ref_loop u re src n)"
  using assms by (simp add: ref_loop.simps [of u re src i])

lemma ref_step_plain:
  assumes "i < length src" and "0 < i" and "src ! (i - 1) \<noteq> NL" and "\<not> isDigitByte (src ! i)"
    and "triggerRule (src ! i) = None"
  shows "ref_loop u re src i = map_option ((@) [src ! i]) (ref_loop u re src (i + 1))"
proof -
  have "appendTriggeredRedactionAt u re src i = NoMatch"
    using assms(5) by (simp add: appendTriggeredRedactionAt_def Let_def)
  then show ?thesis using assms by (simp add: ref_loop.simps [of u re src i])
qed

section \<open>Header lines\<close>

definition header_name :: "bytes \<Rightarrow> bool" where
  "header_name name \<longleftrightarrow> name \<noteq> [] \<and> (\<forall>c \<in> set name. isHeaderNameByte c)"

definition header_value :: "bytes \<Rightarrow> bool" where
  "header_value v \<longleftrightarrow> (v = [] \<or> hd v \<notin> {CHR '' '', TAB}) \<and> NL \<notin> set v \<and> CR \<notin> set v"

definition header_line :: "bytes \<times> bytes \<Rightarrow> bytes" where
  "header_line l = (case l of (name, v) \<Rightarrow> name @ '': '' @ v @ [NL])"

lemma header_line_pair: "header_line (name, v) = name @ '': '' @ v @ [NL]"
  by (simp add: header_line_def)

lemma header_byte: "isHeaderNameByte c \<Longrightarrow> c \<notin> set [CHR '' '', TAB, CHR ''<'', CHR ''>'', CHR '':'', NL]"
  by (auto simp: isHeaderNameByte_def isASCIIAlphaNum_def less_eq_char_def)

lemma header_not_pem:
  assumes name: "header_name name" and src: "src = pre @ name @ CHR '':'' # t"
  shows "\<not> hasPrefixAt src (length pre) pemBeginPrefix"
proof
  assume p: "hasPrefixAt src (length pre) pemBeginPrefix"
  let ?n = "length name"
  show False
  proof (cases "10 < ?n")
    case True
    then have "name ! 10 = CHR '' ''" using hasPrefixAt_nth [OF p, of 10] by (simp add: src nth_append)
    moreover have "isHeaderNameByte (name ! 10)" using name True by (simp add: header_name_def)
    ultimately show False using header_byte by fastforce
  next
    case False
    then have "pemBeginPrefix ! ?n = CHR '':''" using hasPrefixAt_nth [OF p, of ?n] by (simp add: src nth_append)
    moreover have "pemBeginPrefix ! ?n \<in> set pemBeginPrefix" using False by (intro nth_mem) simp
    ultimately show False by simp
  qed
qed

lemma header_value_start:
  assumes name: "header_name name" and v: "header_value v" and t: "t = [] \<or> hd t = NL"
    and sens: "isSensitiveKey u re name" and src: "src = pre @ name @ '': '' @ v @ t"
  shows "sensitiveHeaderValueStart u re src (length pre) = Some (length pre + length name + 2)"
    and "skipHeaderLinePrefix src (length pre) = length pre"
    and "headerValueEnd src (length pre + length name + 2) = length pre + length name + 2 + length v"
proof -
  let ?i = "length pre" and ?e = "length pre + length name"
  have hd: "isHeaderNameByte (src ! ?i)" "?i < length src"
    using name by (cases name; simp add: header_name_def src nth_append)+
  then show "skipHeaderLinePrefix src ?i = ?i"
    using header_byte [of "src ! ?i"] by (auto simp: skipHeaderLinePrefix_def skipInlineSpaces_def scan_here)
  have nameEnd: "scan_while isHeaderNameByte src ?i = ?e"
    unfolding src using name header_byte [of "CHR '':''"] by (intro scan_app) (auto simp: header_name_def)
  have at: "src ! ?e = CHR '':''" "?e < length src" by (simp_all add: src nth_append)
  have colon: "skipInlineSpaces src ?e = ?e" using at by (simp add: skipInlineSpaces_def scan_here)
  have "skipInlineSpaces ((pre @ name @ '':'') @ '' '' @ v @ t) (length (pre @ name @ '':'')) = length (pre @ name @ '':'') + 1"
    using scan_app [of "'' ''" "\<lambda>c. c = CHR '' '' \<or> c = TAB" "v @ t" "pre @ name @ '':''"] v t
    by (cases v; cases t) (auto simp: skipInlineSpaces_def header_value_def)
  then have vs: "skipInlineSpaces src (?e + 1) = ?e + 2" by (simp add: src)
  have "slice src ?i ?e = name" unfolding src using slice_app [of pre name] by simp
  then show "sensitiveHeaderValueStart u re src ?i = Some (?e + 2)"
    using nameEnd colon at vs sens name by (simp add: sensitiveHeaderValueStart_def header_name_def Let_def)
  have "scan_while (\<lambda>c. c \<noteq> NL) ((pre @ name @ '': '') @ v @ t) (length (pre @ name @ '': ''))
      = length (pre @ name @ '': '') + length v"
    using v t by (intro scan_app) (auto simp: header_value_def)
  then have e: "scan_while (\<lambda>c. c \<noteq> NL) src (?e + 2) = ?e + 2 + length v" by (simp add: src add.assoc)
  have "src ! (?e + 2 + length v - 1) = last v" if "v \<noteq> []"
    using that by (simp add: src nth_append last_conv_nth)
  moreover have "v \<noteq> [] \<Longrightarrow> last v \<noteq> CR" using v by (metis header_value_def last_in_set)
  ultimately show "headerValueEnd src (?e + 2) = ?e + 2 + length v"
    using e by (auto simp: headerValueEnd_def Let_def)
qed

lemma header_line_step:
  assumes name: "header_name name" and v: "header_value v" and t: "t = [] \<or> hd t = NL"
    and sens: "isSensitiveKey u re name" and on: "enabled re RuleHeaders"
    and pre: "pre = [] \<or> last pre = NL" and src: "src = pre @ name @ '': '' @ v @ t"
  shows "ref_loop u re src (length pre) = map_option ((@) (name @ '': '' @ marker re))
     (ref_loop u re src (length pre + length name + 2 + length v))"
proof (rule ref_step_match)
  let ?i = "length pre" and ?e = "length pre + length name + 2"
  show "?i < length src" using name by (simp add: src header_name_def)
  show "?i = 0 \<or> src ! (?i - 1) = NL"
    using pre by (cases pre rule: rev_cases) (auto simp: src nth_append)
  have "appendRedactedPEMKeyAt re src ?i = NoMatch"
    using header_not_pem [OF name, of src pre "CHR '' '' # v @ t"] src by (simp add: appendRedactedPEMKeyAt_def)
  moreover have "slice src ?i ?e = name @ '': ''"
    using slice_app [of pre "name @ '': ''" "v @ t"] by (simp add: src add.assoc)
  ultimately show "appendLineStartRedactionAt u re src ?i = Match (?e + length v) (name @ '': '' @ marker re)"
    using header_value_start [OF name v t sens src] on
    by (simp add: appendLineStartRedactionAt_def)
qed

lemma newline_step:
  assumes "src = pre @ NL # t" and "pre \<noteq> []" and "last pre \<noteq> NL"
  shows "ref_loop u re src (length pre) = map_option ((@) [NL]) (ref_loop u re src (length pre + 1))"
proof -
  have "src ! (length pre - 1) = last pre"
    using assms(2) by (simp add: assms(1) nth_append last_conv_nth)
  moreover have "\<not> isDigitByte NL" "triggerRule NL = None"
    by (simp_all add: isDigitByte_def triggerRule_def vendorTriggers_def less_eq_char_def)
  ultimately show ?thesis
    using ref_step_plain [of "length pre" src u re] assms by simp
qed

lemma header_block_ref:
  assumes "\<forall>(name, v) \<in> set ls. header_name name \<and> header_value v \<and> isSensitiveKey u re name"
    and "enabled re RuleHeaders" and "pre = [] \<or> last pre = NL" and "src = pre @ concat (map header_line ls)"
  shows "ref_loop u re src (length pre) = Some (concat (map (\<lambda>(name, _). header_line (name, marker re)) ls))"
  using assms
proof (induction ls arbitrary: pre)
  case Nil
  then show ?case by (simp add: ref_loop.simps)
next
  case (Cons l ls)
  obtain name v where l: "l = (name, v)" by fastforce
  let ?t = "NL # concat (map header_line ls)" and ?p = "pre @ name @ '': '' @ v"
  have src: "src = pre @ name @ '': '' @ v @ ?t" using Cons.prems(4) by (simp add: l header_line_pair)
  have lv: "last ?p \<noteq> NL" using Cons.prems(1) by (cases v rule: rev_cases) (auto simp: l header_value_def)
  have a: "ref_loop u re src (length pre) = map_option ((@) (name @ '': '' @ marker re)) (ref_loop u re src (length ?p))"
    using header_line_step [of name v ?t u re pre src] Cons.prems src by (simp add: l add.assoc)
  have b: "ref_loop u re src (length ?p) = map_option ((@) [NL]) (ref_loop u re src (length ?p + 1))"
    using newline_step [of src ?p "concat (map header_line ls)"] lv src by simp
  have c: "ref_loop u re src (length ?p + 1) = Some (concat (map (\<lambda>(name, _). header_line (name, marker re)) ls))"
    using Cons.IH [of "?p @ [NL]"] Cons.prems src by (simp add: l)
  show ?case using a b c by (simp add: l header_line_pair)
qed

section \<open>JSON members\<close>

definition json_key :: "bytes \<Rightarrow> bool" where
  "json_key k \<longleftrightarrow> set k \<inter> {DQ, BSL, NL, CR, CHR ''=''} = {} \<and> \<not> isJSONLabelKey k"

definition json_plain :: "bytes \<Rightarrow> bool" where
  "json_plain v \<longleftrightarrow> set v \<inter> {DQ, BSL} = {}"

definition json_member :: "bytes \<times> bytes \<Rightarrow> bytes" where
  "json_member m = (case m of (k, v) \<Rightarrow> [DQ] @ k @ [DQ, CHR '':'', DQ] @ v @ [DQ])"

fun json_members :: "(bytes \<times> bytes) list \<Rightarrow> bytes" where
  "json_members [] = ''}''"
| "json_members [m] = json_member m @ ''}''"
| "json_members (m # m' # ms) = json_member m @ '','' @ json_members (m' # ms)"

definition json_object :: "(bytes \<times> bytes) list \<Rightarrow> bytes" where
  "json_object ms = ''{'' @ json_members ms"

lemma closing_quote:
  assumes "set k \<inter> {DQ, BSL, NL, CR} = {}"
  shows "findJSONStringClosingQuote (a @ k @ DQ # t) (length a) = Some (length a + length k)"
  using assms
proof (induction k arbitrary: a)
  case Nil
  then show ?case by (simp add: findJSONStringClosingQuote.simps)
next
  case (Cons c k)
  have "findJSONStringClosingQuote (a @ (c # k) @ DQ # t) (length a)
      = findJSONStringClosingQuote ((a @ [c]) @ k @ DQ # t) (length (a @ [c]))"
    using Cons.prems by (subst findJSONStringClosingQuote.simps) (auto simp: nth_append)
  then show ?case using Cons.IH [of "a @ [c]"] Cons.prems by simp
qed

lemma string_scan:
  assumes "json_plain v"
  shows "json_string_loop (a @ v @ t) (length a) = json_string_loop (a @ v @ t) (length a + length v)"
  using assms
proof (induction v arbitrary: a)
  case (Cons c v)
  have "json_string_loop (a @ (c # v) @ t) (length a) = json_string_loop ((a @ [c]) @ v @ t) (length (a @ [c]))"
    using Cons.prems by (subst json_string_loop.simps) (auto simp: nth_append json_plain_def)
  then show ?case using Cons.IH [of "a @ [c]"] Cons.prems by (simp add: json_plain_def)
qed simp

lemma string_end:
  assumes "json_plain v"
  shows "parseJSONStringEnd (a @ DQ # v @ DQ # t) (length a) = length a + length v + 2"
  using string_scan [OF assms, of "a @ [DQ]" "DQ # t"]
  by (simp add: parseJSONStringEnd_def json_string_loop.simps [of _ "Suc (length a + length v)"] nth_append)

text \<open>The parts of a member found by the JSON rule, at any position.\<close>

lemma json_member_parts:
  assumes "set k \<inter> {DQ, BSL, NL, CR} = {}" and src: "src = pre @ DQ # k @ DQ # CHR '':'' # DQ # t"
  shows "findJSONStringClosingQuote src (length pre + 1) = Some (length pre + 1 + length k)"
    and "slice src (length pre + 1) (length pre + 1 + length k) = k"
    and "findJSONValueStart src (length pre + 1 + length k) = Some (length pre + length k + 3)"
    and "src ! (length pre + length k + 3) = DQ"
    and "slice src (length pre + 2 + length k) (length pre + length k + 3) = '':''"
proof -
  let ?q = "length pre + 1 + length k"
  show "findJSONStringClosingQuote src (length pre + 1) = Some ?q"
    using closing_quote [OF assms(1), of "pre @ [DQ]" "CHR '':'' # DQ # t"] by (simp add: src)
  show "slice src (length pre + 1) ?q = k"
    using slice_app [of "pre @ [DQ]" k "DQ # CHR '':'' # DQ # t"] by (simp add: src)
  have at: "src ! (?q + 1) = CHR '':''" "src ! (?q + 2) = DQ" "?q + 2 < length src"
    by (simp_all add: src nth_append)
  then have "skipJSONWhitespace src (?q + 1) = ?q + 1" "skipJSONWhitespace src (?q + 2) = ?q + 2"
    by (simp_all add: skipJSONWhitespace_def scan_here)
  then show "findJSONValueStart src ?q = Some (length pre + length k + 3)"
    using at by (simp add: findJSONValueStart_def Let_def numeral_3_eq_3)
  show "src ! (length pre + length k + 3) = DQ" using at(2) by (simp add: numeral_3_eq_3)
  show "slice src (length pre + 2 + length k) (length pre + length k + 3) = '':''"
    using slice_app [of "pre @ DQ # k @ [DQ]" "'':''" "DQ # t"] by (simp add: src numeral_3_eq_3)
qed

lemma json_member_rule:
  assumes k: "json_key k" and v: "json_plain v" and sens: "isSensitiveKey u re k"
    and src: "src = pre @ json_member (k, v) @ t"
  shows "appendRedactedSensitiveJSONAt u re src (length pre)
     = Match (length pre + length (json_member (k, v))) (json_member (k, marker re))"
proof -
  have s: "src = pre @ DQ # k @ DQ # CHR '':'' # DQ # (v @ DQ # t)" by (simp add: src json_member_def)
  have ks: "set k \<inter> {DQ, BSL, NL, CR} = {}" "CHR ''='' \<notin> set k" "\<not> isJSONLabelKey k"
    using k by (auto simp: json_key_def)
  have "parseJSONStringEnd src (length pre + length k + 3) = length pre + length k + 3 + length v + 2"
    using string_end [OF v, of "pre @ DQ # k @ [DQ, CHR '':'']" t] by (simp add: s numeral_eq_Suc)
  then have "jsonValueEnd src (length pre + length k + 3) = length pre + length (json_member (k, v))"
    using json_member_parts(4) [OF ks(1) s] by (simp add: jsonValueEnd_def json_member_def)
  then show ?thesis
    using json_member_parts [OF ks(1) s] ks sens
    by (simp add: appendRedactedSensitiveJSONAt_def Let_def json_member_def)
qed

lemma json_member_step:
  assumes k: "json_key k" and v: "json_plain v" and sens: "isSensitiveKey u re k"
    and on: "enabled re RuleJSON" and ctx: "pre \<noteq> []" "last pre = CHR ''{'' \<or> last pre = CHR '',''"
    and src: "src = pre @ json_member (k, v) @ t"
  shows "ref_loop u re src (length pre) = map_option ((@) (json_member (k, marker re)))
     (ref_loop u re src (length pre + length (json_member (k, v))))"
proof (rule ref_step_trigger)
  have DQ: "src ! length pre = DQ" by (simp add: src json_member_def nth_append)
  obtain n where n: "length pre = Suc n" using ctx(1) by (cases pre) auto
  have last: "src ! n = last pre" using ctx(1) n by (simp add: src nth_append last_conv_nth)
  have "likelyJSONKeyStart re src (length pre)"
    using last ctx(2) by (auto simp: likelyJSONKeyStart_def n)
  then show "appendTriggeredRedactionAt u re src (length pre)
      = Match (length pre + length (json_member (k, v))) (json_member (k, marker re))"
    using json_member_rule [OF k v sens src] DQ on
    by (simp add: appendTriggeredRedactionAt_def triggerRule_def)
  show "src ! (length pre - 1) \<noteq> NL" using last ctx(2) n by auto
qed (use ctx in \<open>auto simp: src json_member_def nth_append isDigitByte_def less_eq_char_def\<close>)

lemma plain_step:
  assumes "src = pre @ c # t" and "c \<in> set '',{}''" and "pre \<noteq> []" and "last pre \<noteq> NL"
  shows "ref_loop u re src (length pre) = map_option ((@) [c]) (ref_loop u re src (length pre + 1))"
proof -
  have "src ! (length pre - 1) = last pre"
    using assms(3) by (simp add: assms(1) nth_append last_conv_nth)
  moreover have "\<not> isDigitByte c \<and> triggerRule c = None"
  proof -
    have "c = CHR '','' \<or> c = CHR ''{'' \<or> c = CHR ''}''" using assms(2) by simp
    then show ?thesis
      by (elim disjE) (simp_all add: isDigitByte_def triggerRule_def vendorTriggers_def less_eq_char_def)
  qed
  ultimately show ?thesis using ref_step_plain [of "length pre" src u re] assms by simp
qed

lemma brace_step:
  assumes "src = CHR ''{'' # t"
  shows "ref_loop u re src 0 = map_option ((@) ''{'') (ref_loop u re src 1)"
proof -
  have "skipHeaderLinePrefix src 0 = 0" "scan_while isHeaderNameByte src 0 = 0"
    by (simp_all add: skipHeaderLinePrefix_def skipInlineSpaces_def scan_here assms isHeaderNameByte_def
        isASCIIAlphaNum_def less_eq_char_def)
  then have "appendLineStartRedactionAt u re src 0 = NoMatch"
    by (simp add: appendLineStartRedactionAt_def assms sensitiveHeaderValueStart_def Let_def)
  moreover have "appendTriggeredRedactionAt u re src 0 = NoMatch"
    by (simp add: appendTriggeredRedactionAt_def assms triggerRule_def vendorTriggers_def Let_def)
  moreover have "0 < length src" "src ! 0 = CHR ''{''" "\<not> isDigitByte (CHR ''{'')"
    by (simp_all add: assms isDigitByte_def less_eq_char_def)
  ultimately show ?thesis by (simp add: ref_loop.simps [of u re src 0])
qed

lemma json_members_ref:
  assumes "\<forall>(k, v) \<in> set ms. json_key k \<and> json_plain v \<and> isSensitiveKey u re k"
    and "enabled re RuleJSON" and "pre \<noteq> []" "last pre = CHR ''{'' \<or> last pre = CHR '',''"
    and "src = pre @ json_members ms"
  shows "ref_loop u re src (length pre) = Some (json_members (map (\<lambda>(k, _). (k, marker re)) ms))"
  using assms
proof (induction ms arbitrary: pre rule: json_members.induct)
  case 1
  have "ref_loop u re src (length pre + 1) = Some []" using 1 by (simp add: ref_loop.simps)
  then show ?case using plain_step [of src pre "CHR ''}''" "[]" u re] 1 by auto
next
  case (2 m)
  obtain k v where m: "m = (k, v)" by fastforce
  let ?p = "pre @ json_member m"
  have src: "src = pre @ json_member (k, v) @ ''}''" using 2 m by simp
  have a: "ref_loop u re src (length pre) = map_option ((@) (json_member (k, marker re))) (ref_loop u re src (length ?p))"
    using json_member_step [of k v u re pre src, OF _ _ _ _ _ _ src] 2 m by simp
  have "last ?p = DQ" by (simp add: m json_member_def)
  then have b: "ref_loop u re src (length ?p) = map_option ((@) ''}'') (ref_loop u re src (length ?p + 1))"
    using plain_step [of src ?p "CHR ''}''" "[]" u re] src m by (simp add: json_member_def)
  have "ref_loop u re src (length ?p + 1) = Some []" using src m by (simp add: ref_loop.simps)
  then show ?case using a b m by simp
next
  case (3 m m' ms)
  obtain k v where m: "m = (k, v)" by fastforce
  let ?p = "pre @ json_member m"
  have src: "src = pre @ json_member (k, v) @ '','' @ json_members (m' # ms)" using 3 m by simp
  have a: "ref_loop u re src (length pre) = map_option ((@) (json_member (k, marker re))) (ref_loop u re src (length ?p))"
    using json_member_step [of k v u re pre src, OF _ _ _ _ _ _ src] 3 m by simp
  have "last ?p = DQ" by (simp add: m json_member_def)
  then have b: "ref_loop u re src (length ?p) = map_option ((@) '','') (ref_loop u re src (length ?p + 1))"
    using plain_step [of src ?p "CHR '',''" "json_members (m' # ms)" u re] src m by (simp add: json_member_def)
  have "ref_loop u re src (length ?p + 1) = Some (json_members (map (\<lambda>(k, _). (k, marker re)) (m' # ms)))"
    using 3(1) [of "?p @ '',''"] 3(2-) src m by simp
  then show ?case using a b m by simp
qed

lemma json_object_ref:
  assumes "\<forall>(k, v) \<in> set ms. json_key k \<and> json_plain v \<and> isSensitiveKey u re k" and "enabled re RuleJSON"
  shows "ref_loop u re (json_object ms) 0 = Some (json_object (map (\<lambda>(k, _). (k, marker re)) ms))"
  using brace_step [of "json_object ms" "json_members ms" u re]
    json_members_ref [OF assms, of "''{''" "json_object ms"]
  by (simp add: json_object_def)

section \<open>A panic\<close>

lemma label_unterminated:
  assumes "json_plain x" and src: "src = ''{\"name\":\"'' @ x @ [BSL]" and on: "enabled re RuleJSON"
  shows "ref_loop u re src 0 = None"
proof -
  have s: "src = ''{'' @ DQ # ''name'' @ DQ # CHR '':'' # DQ # (x @ [BSL])" by (simp add: src)
  have len: "length src = 10 + length x" "src ! (9 + length x) = BSL" "src ! 8 = DQ" by (simp_all add: src nth_append)
  note parts = json_member_parts [of "''name''" src "''{''" "x @ [BSL]", OF _ s]
  have "json_string_loop src 9 = json_string_loop src (9 + length x)"
    using string_scan [OF assms(1), of "''{\"name\":\"''" "[BSL]"] by (simp add: src numeral_eq_Suc)
  also have "\<dots> = 11 + length x"
    using len by (simp add: json_string_loop.simps [of src "9 + length x"] json_string_loop.simps [of src "11 + length x"])
  finally have "parseJSONStringEnd src 8 = 11 + length x" by (simp add: parseJSONStringEnd_def)
  then have lab: "appendLabeledSecretJSON u re src 1 ''name'' 8 = Panic"
    using len by (simp add: appendLabeledSecretJSON_def Let_def)
  have "isJSONLabelKey ''name''" by (simp add: isJSONLabelKey_def equalsASCIIFold_def lowerASCIIByte_def less_eq_char_def)
  then have json: "appendRedactedSensitiveJSONAt u re src 1 = Panic"
    using parts lab by (simp add: appendRedactedSensitiveJSONAt_def Let_def numeral_eq_Suc)
  have at: "src ! 1 = DQ" "src ! 0 = CHR ''{''" "1 < length src" by (simp_all add: src)
  have "appendTriggeredRedactionAt u re src 1 = Panic"
    using at on json by (simp add: appendTriggeredRedactionAt_def triggerRule_def likelyJSONKeyStart_def)
  then have "ref_loop u re src 1 = None"
    using at by (simp add: ref_loop.simps [of u re src "Suc 0"] isDigitByte_def less_eq_char_def)
  then show ?thesis using brace_step [of src "tl src" u re] s by simp
qed

section \<open>URL passwords\<close>

text \<open>
  The bytes of a userinfo component: no boundary and no at sign; a host and port end at a
  boundary or with the input.
\<close>

definition userinfo_bytes :: "bytes \<Rightarrow> bool" where
  "userinfo_bytes s \<longleftrightarrow> (\<forall>c \<in> set s. \<not> isUserinfoBoundary c \<and> c \<noteq> CHR ''@'')"

lemma userinfo_skip:
  assumes "userinfo_bytes s" and "length a + length s \<le> limit" and "pw \<noteq> None \<or> CHR '':'' \<notin> set s"
  shows "userinfo_loop (a @ s @ t) limit (length a) pw at = userinfo_loop (a @ s @ t) limit (length a + length s) pw at"
  using assms
proof (induction s arbitrary: a)
  case (Cons c s)
  have "userinfo_loop (a @ (c # s) @ t) limit (length a) pw at
      = userinfo_loop ((a @ [c]) @ s @ t) limit (length (a @ [c])) pw at"
    using Cons.prems by (subst userinfo_loop.simps) (auto simp: nth_append userinfo_bytes_def Let_def)
  then show ?case using Cons.IH [of "a @ [c]"] Cons.prems by (auto simp add: userinfo_bytes_def)
qed simp

lemma userinfo_found:
  assumes bytes: "userinfo_bytes user" "CHR '':'' \<notin> set user" "userinfo_bytes pw" "userinfo_bytes host"
    and t: "t = [] \<or> isUserinfoBoundary (hd t)"
    and room: "length user + length pw + length host + 2 < maxUserinfoScan"
    and src: "src = a @ user @ '':'' @ pw @ ''@'' @ host @ t"
  shows "findUserinfoPassword src (length a)
     = (Some (length a + length user), Some (length a + length user + 1 + length pw))"
proof -
  let ?c = "length a + length user"
  let ?at = "?c + 1 + length pw" and ?lim = "min (length src) (length a + maxUserinfoScan)"
  let ?h = "?at + 1 + length host"
  have lim: "?h \<le> ?lim" using room by (simp add: src)
  have at: "src ! ?c = CHR '':''" "src ! ?at = CHR ''@''" by (simp_all add: src nth_append)
  have 1: "userinfo_loop src ?lim (length a) None None = userinfo_loop src ?lim ?c None None"
    using userinfo_skip [OF bytes(1), of a ?lim None "'':'' @ pw @ ''@'' @ host @ t" None] bytes(2) lim
    unfolding src by simp
  have 2: "\<dots> = userinfo_loop src ?lim (?c + 1) (Some ?c) None"
    using at lim by (subst userinfo_loop.simps) (auto simp: Let_def isUserinfoBoundary_def)
  have 3: "\<dots> = userinfo_loop src ?lim ?at (Some ?c) None"
    using userinfo_skip [OF bytes(3), of "a @ user @ '':''" ?lim "Some ?c" "''@'' @ host @ t" None] lim
    unfolding src by simp
  have 4: "\<dots> = userinfo_loop src ?lim (?at + 1) (Some ?c) (Some ?at)"
    using at lim by (subst userinfo_loop.simps) (auto simp: Let_def)
  have 5: "\<dots> = userinfo_loop src ?lim ?h (Some ?c) (Some ?at)"
    using userinfo_skip [OF bytes(4), of "a @ user @ '':'' @ pw @ ''@''" ?lim "Some ?c" t "Some ?at"] lim
    unfolding src by (simp add: add.assoc)
  have 6: "\<dots> = userinfoResult (Some ?c) (Some ?at)"
  proof (cases t)
    case Nil
    then have "?h = length src" by (simp add: src)
    then show ?thesis using lim by (subst userinfo_loop.simps) auto
  next
    case (Cons b t')
    then have "src ! ?h = b" "?h < length src" by (simp_all add: src nth_append)
    moreover have "?h < ?lim" using calculation(2) room by simp
    moreover have "b \<noteq> CHR ''@''" using t Cons by (auto simp: isUserinfoBoundary_def)
    ultimately show ?thesis using t Cons by (subst userinfo_loop.simps) (simp add: Let_def)
  qed
  show ?thesis unfolding findUserinfoPassword_def 1 2 3 4 5 6 by (simp add: userinfoResult_def)
qed

lemma url_password_rule:
  assumes bytes: "userinfo_bytes user" "CHR '':'' \<notin> set user" "userinfo_bytes pw" "userinfo_bytes host"
    and t: "t = [] \<or> isUserinfoBoundary (hd t)"
    and room: "length user + length pw + length host + 2 < maxUserinfoScan" and on: "enabled re RuleUserinfo"
    and src: "src = pre @ ''://'' @ user @ '':'' @ pw @ ''@'' @ host @ t"
  shows "appendTriggeredRedactionAt u re src (length pre)
     = Match (length (pre @ ''://'' @ user @ '':'' @ pw)) (''://'' @ user @ '':'' @ marker re)"
proof -
  let ?i = "length pre"
  have at: "src ! ?i = CHR '':''" "src ! (?i + 1) = CHR ''/''" "src ! (?i + 2) = CHR ''/''" "?i + 2 < length src"
    by (simp_all add: src nth_append)
  have f: "findUserinfoPassword src (?i + 3) = (Some (?i + 3 + length user), Some (?i + 3 + length user + 1 + length pw))"
    using userinfo_found [OF bytes t room, of src "pre @ ''://''"] by (simp add: src numeral_3_eq_3)
  have "slice src ?i (?i + 3 + length user + 1) = ''://'' @ user @ '':''"
    using slice_app [of pre "''://'' @ user @ '':''" "pw @ ''@'' @ host @ t"] by (simp add: src numeral_3_eq_3)
  then have "appendRedactedURLPasswordAt re src ?i
      = Match (?i + 3 + length user + 1 + length pw) (''://'' @ user @ '':'' @ marker re)"
    using at f by (simp add: appendRedactedURLPasswordAt_def)
  then show ?thesis
    using at(1) on by (simp add: appendTriggeredRedactionAt_def triggerRule_def numeral_3_eq_3 Let_def add.assoc)
qed

section \<open>The Luhn check\<close>

definition luhn_weight :: "bool \<Rightarrow> char \<Rightarrow> nat" where
  "luhn_weight dbl c =
     (let d = digit_val c in if dbl then (if 9 < d * 2 then d * 2 - 9 else d * 2) else d)"

lemma luhn_loop_step: "luhn_loop (c # cs) dbl acc = luhn_loop cs (\<not> dbl) (acc + luhn_weight dbl c)"
  by (simp add: luhn_weight_def Let_def)

lemma luhn_loop_acc: "luhn_loop cs dbl (acc + x) = luhn_loop cs dbl acc + x"
proof (induction cs arbitrary: dbl acc)
  case (Cons c cs)
  have "acc + x + luhn_weight dbl c = acc + luhn_weight dbl c + x" by simp
  then show ?case using Cons [of "\<not> dbl" "acc + luhn_weight dbl c"] by (simp only: luhn_loop_step)
qed simp

lemma luhn_loop_Cons: "luhn_loop (c # cs) dbl acc = luhn_loop cs (\<not> dbl) acc + luhn_weight dbl c"
  by (simp only: luhn_loop_step luhn_loop_acc)

lemma luhn_update:
  "k < length cs \<Longrightarrow>
     luhn_loop (cs[k := c]) dbl acc + luhn_weight (dbl \<noteq> odd k) (cs ! k)
       = luhn_loop cs dbl acc + luhn_weight (dbl \<noteq> odd k) c"
proof (induction cs arbitrary: k dbl)
  case (Cons a cs)
  show ?case
  proof (cases k)
    case 0
    then show ?thesis by (simp add: luhn_loop_Cons del: luhn_loop.simps)
  next
    case (Suc j)
    then have "((\<not> dbl) \<noteq> odd j) = (dbl \<noteq> odd k)" by auto
    then show ?thesis
      using Cons.IH [of j "\<not> dbl"] Cons.prems Suc by (simp add: luhn_loop_Cons del: luhn_loop.simps)
  qed
qed simp

lemma digit_val_digit: "isDigitByte c \<Longrightarrow> digit_val c = byte_val c - 48 \<and> 48 \<le> byte_val c \<and> digit_val c \<le> 9"
proof -
  assume "isDigitByte c"
  then have b: "48 \<le> byte_val c" "byte_val c \<le> 57" by (auto simp: isDigitByte_def less_eq_char_def)
  have "byte_val c + 208 = (byte_val c - 48) + 256" using b by simp
  then have "(byte_val c + 208) mod 256 = byte_val c - 48" using b by (simp only: mod_add_self2) simp
  then show ?thesis using b by (simp add: digit_val_def)
qed

lemma doubled_inj:
  assumes "(x :: nat) \<le> 9" and "y \<le> 9"
    and "(if 9 < x * 2 then x * 2 - 9 else x * 2) mod 10 = (if 9 < y * 2 then y * 2 - 9 else y * 2) mod 10"
  shows "x = y"
proof -
  have "(if 9 < z * 2 then z * 2 - 9 else z * 2) < 10" if "z \<le> 9" for z :: nat
    using that by (simp split: if_split) (intro impI, linarith)
  then have "(if 9 < x * 2 then x * 2 - 9 else x * 2) = (if 9 < y * 2 then y * 2 - 9 else y * 2)"
    using assms by (simp only: mod_less)
  then show ?thesis by (simp split: if_splits; presburger)
qed

lemma luhn_weight_inj:
  assumes "isDigitByte a" and "isDigitByte b" and "luhn_weight dbl a mod 10 = luhn_weight dbl b mod 10"
  shows "a = b"
proof -
  have le: "digit_val a \<le> 9" "digit_val b \<le> 9" using digit_val_digit assms(1,2) by blast+
  have "digit_val a = digit_val b"
  proof (cases dbl)
    case True
    then show ?thesis using doubled_inj [OF le] assms(3) unfolding luhn_weight_def Let_def by simp
  next
    case False
    then show ?thesis using assms(3) le by (simp add: luhn_weight_def Let_def)
  qed
  then have "byte_val a = byte_val b" using digit_val_digit [OF assms(1)] digit_val_digit [OF assms(2)] by linarith
  then show ?thesis by simp
qed

lemma luhn_single_digit:
  assumes ds: "\<forall>c \<in> set ds. isDigitByte c" and i: "i < length ds" and c: "isDigitByte c" "c \<noteq> ds ! i"
    and pass: "passesLuhn ds"
  shows "\<not> passesLuhn (ds[i := c])"
proof
  assume bad: "passesLuhn (ds[i := c])"
  let ?k = "length ds - Suc i" and ?r = "rev ds"
  have k: "?k < length ?r" and nth: "?r ! ?k = ds ! i" using i by (simp_all add: rev_nth)
  have "rev (ds[i := c]) = ?r[?k := c]" using i by (simp add: rev_update)
  then have m: "luhn_loop (?r[?k := c]) False 0 mod 10 = 0" "luhn_loop ?r False 0 mod 10 = 0"
    using bad pass by (simp_all add: passesLuhn_def)
  have "luhn_loop (?r[?k := c]) False 0 + luhn_weight (odd ?k) (ds ! i) = luhn_loop ?r False 0 + luhn_weight (odd ?k) c"
    using luhn_update [OF k, of c False 0] nth by simp
  then have "luhn_weight (odd ?k) (ds ! i) mod 10 = luhn_weight (odd ?k) c mod 10"
    using m by (metis add_0 mod_add_left_eq)
  then show False using luhn_weight_inj [of "ds ! i" c] ds i c by (metis nth_mem)
qed

end
