(* ===== verification/RD_Props.thy ===== *)
theory RD_Props
  imports RD_Fast RD_Secrecy
begin

text \<open>
  The properties of \<^verbatim>\<open>pkg/redact\<close>. The witnesses use \<open>ascii_unicode\<close>, Unicode tables that
  know ASCII only, and the default redactor of \<^verbatim>\<open>New()\<close>.
\<close>

section \<open>A concrete instance\<close>

definition ascii_unicode :: unicode where
  "ascii_unicode =
     \<lparr>IsLetter = (\<lambda>r. (65 \<le> r \<and> r \<le> 90) \<or> (97 \<le> r \<and> r \<le> 122)), IsDigit = (\<lambda>r. 48 \<le> r \<and> r \<le> 57),
      IsUpper = (\<lambda>r. 65 \<le> r \<and> r \<le> 90), IsLower = (\<lambda>r. 97 \<le> r \<and> r \<le> 122),
      ToLower = (\<lambda>r. if 65 \<le> r \<and> r \<le> 90 then r + 32 else r)\<rparr>"

lemma ascii_unicode_tables: "ascii_tables ascii_unicode"
  by (auto simp: ascii_tables_def ascii_unicode_def)

abbreviation demo :: redactor where
  "demo \<equiv> new_redactor []"

lemma demo_usable: "marker demo \<noteq> []" "keyMemo demo \<noteq> None" "marker demo = ''***''"
  by code_simp+

lemma demo_enabled: "enabled demo r"
  by (simp add: enabled_def new_redactor_def)

lemma usable_enabled: "enabled (usableRedactor re) r = enabled re r"
  by (simp add: usableRedactor_def enabled_def)

lemma redactInto_ref: "redactInto u re src = ref_loop u (usableRedactor re) src 0"
  by (auto simp: redactInto_def redact_loop_ref usableRedactor_def)

lemma usable_demo: "usableRedactor demo = demo"
  using demo_usable by (simp add: usableRedactor_def)

section \<open>The engine\<close>

text \<open>
  C13. The engine with its bulk copy of inert text, the prefilter on trigger bytes and the
  vendor-token precheck writes, for every input and configuration, exactly what the
  byte-at-a-time engine writes that tries every rule at every position; both panic on the
  same inputs.
\<close>

theorem engine_is_reference:
  "redactInto u re src = ref_loop u (usableRedactor re) src 0"
  by (rule redactInto_ref)

text \<open>
  With every rule disabled the redactor copies its input unchanged.
\<close>

theorem disabled_identity:
  assumes "\<forall>r \<in> set all_rules. \<not> enabled re r"
  shows "redactInto u re src = Some src"
  using ref_disabled [of "usableRedactor re" 0 src u] assms by (simp add: redactInto_ref usable_enabled)

theorem disabled_identity_witness:
  "redactInto ascii_unicode (WithoutRules all_rules demo) ''Authorization: x'' = Some ''Authorization: x''"
proof -
  have h: "\<forall>r \<in> set all_rules. \<not> enabled (WithoutRules all_rules demo) r" by code_simp
  show ?thesis using h disabled_identity [OF h] by simp
qed

text \<open>
  The read of the labelled JSON rule that can leave the input (\<^verbatim>\<open>json.go:110\<close>), the one
  panic this model represents, needs an input that ends in a backslash.
\<close>

theorem no_label_panic:
  assumes "safe_end src"
  shows "\<exists>out. redactInto u re src = Some out"
  using ref_no_panic [OF assms, of u "usableRedactor re" 0] by (auto simp: redactInto_ref)

theorem no_label_panic_witness:
  "safe_end ''{\"name\":\"x'' \<and> (\<exists>out. redactInto ascii_unicode demo ''{\"name\":\"x'' = Some out)"
proof -
  have h: "safe_end ''{\"name\":\"x''" by (simp add: safe_end_def)
  show ?thesis using h no_label_panic [OF h] by blast
qed

text \<open>
  C16. The redactor panics (index out of range) on the document that opens a member
  \<^verbatim>\<open>"name"\<close> with a string ending in a lone backslash, whatever precedes the backslash, as
  soon as the JSON rule is enabled: such a document is what a truncated log line leaves.
\<close>

theorem truncated_label_panics:
  assumes "json_plain x" and "enabled re RuleJSON"
  shows "redactInto u re (''{\"name\":\"'' @ x @ [BSL]) = None"
  using label_unterminated [OF assms(1) refl, of "usableRedactor re" u] assms(2)
  by (simp add: redactInto_ref usable_enabled)

theorem truncated_label_panics_witness:
  "json_plain ''db'' \<and> enabled demo RuleJSON
   \<and> redactInto ascii_unicode demo (''{\"name\":\"'' @ ''db'' @ [BSL]) = None"
proof -
  have h: "json_plain ''db''" by (simp add: json_plain_def)
  show ?thesis using h demo_enabled truncated_label_panics [OF h demo_enabled] by simp
qed

section \<open>Secrets do not reach the output\<close>

text \<open>
  C17. In a block of header lines with sensitive names every value is replaced by the marker
  and nothing else changes: the output does not depend on the values.
\<close>

theorem header_values_redacted:
  assumes "\<forall>(name, v) \<in> set ls. header_name name \<and> header_value v \<and> isSensitiveKey u re name"
    and "enabled re RuleHeaders" and "marker re \<noteq> []" and "keyMemo re \<noteq> None"
  shows "redactInto u re (concat (map header_line ls))
     = Some (concat (map (\<lambda>(name, _). header_line (name, marker re)) ls))"
  using header_block_ref [OF assms(1,2), of "[]"] redactInto_marker [OF assms(3,4)] by simp

theorem header_values_redacted_witness:
  "redactInto ascii_unicode demo (concat (map header_line [(''Authorization'', ''Basic eA==''), (''Set-Cookie'', ''s=1'')]))
   = Some (concat (map header_line [(''Authorization'', ''***''), (''Set-Cookie'', ''***'')]))"
proof -
  have h: "\<forall>(name, v) \<in> set [(''Authorization'', ''Basic eA==''), (''Set-Cookie'', ''s=1'')].
      header_name name \<and> header_value v \<and> isSensitiveKey ascii_unicode demo name" by code_simp
  show ?thesis
    using header_values_redacted [OF h demo_enabled demo_usable(1,2)] demo_usable(3) by simp
qed

text \<open>
  C18. In a JSON object of string members with sensitive keys every value is replaced by the
  quoted marker and nothing else changes. The object is written without white space; the keys
  have no quote, backslash, line break or equal sign and are not the label keys \<^verbatim>\<open>name\<close>, \<^verbatim>\<open>key\<close>
  and \<^verbatim>\<open>id\<close>; the values have no quote and no backslash, so neither has an escape. The JSON rule
  is enabled; the marker is not empty and the memo is there, as \<^verbatim>\<open>New\<close> builds a redactor.
\<close>

theorem json_values_redacted:
  assumes "\<forall>(k, v) \<in> set ms. json_key k \<and> json_plain v \<and> isSensitiveKey u re k"
    and "enabled re RuleJSON" and "marker re \<noteq> []" and "keyMemo re \<noteq> None"
  shows "redactInto u re (json_object ms) = Some (json_object (map (\<lambda>(k, _). (k, marker re)) ms))"
  using json_object_ref [OF assms(1,2)] redactInto_marker [OF assms(3,4)] by simp

theorem json_values_redacted_witness:
  "redactInto ascii_unicode demo (json_object [(''password'', ''hunter2''), (''apiToken'', ''a:b'')])
   = Some (json_object [(''password'', ''***''), (''apiToken'', ''***'')])"
proof -
  have h: "\<forall>(k, v) \<in> set [(''password'', ''hunter2''), (''apiToken'', ''a:b'')].
      json_key k \<and> json_plain v \<and> isSensitiveKey ascii_unicode demo k" by code_simp
  show ?thesis
    using json_values_redacted [OF h demo_enabled demo_usable(1,2)] demo_usable(3) by simp
qed

text \<open>
  At the colon of \<^verbatim>\<open>://user:password@host\<close>, anywhere in a document, the engine writes the
  user and the marker and resumes at the at sign, provided the userinfo and host fit the
  256-byte scan window.
\<close>

theorem url_password_redacted:
  assumes "userinfo_bytes user" and "CHR '':'' \<notin> set user" and "userinfo_bytes pw"
    and "userinfo_bytes host" and "t = [] \<or> isUserinfoBoundary (hd t)"
    and "length user + length pw + length host + 2 < maxUserinfoScan" and "enabled re RuleUserinfo"
  shows "appendTriggeredRedactionAt u re (pre @ ''://'' @ user @ '':'' @ pw @ ''@'' @ host @ t) (length pre)
     = Match (length (pre @ ''://'' @ user @ '':'' @ pw)) (''://'' @ user @ '':'' @ marker re)"
  using url_password_rule [OF assms refl] .

theorem url_password_redacted_witness:
  "appendTriggeredRedactionAt ascii_unicode demo
     (''db'' @ ''://'' @ ''u'' @ '':'' @ ''p:w'' @ ''@'' @ ''h'' @ ''/x'') (length ''db'')
   = Match (length (''db'' @ ''://'' @ ''u'' @ '':'' @ ''p:w'')) (''://'' @ ''u'' @ '':'' @ ''***'')"
proof -
  have h: "userinfo_bytes ''u''" "CHR '':'' \<notin> set ''u''" "userinfo_bytes ''p:w''" "userinfo_bytes ''h''"
    "''/x'' = [] \<or> isUserinfoBoundary (hd ''/x'')" "length ''u'' + length ''p:w'' + length ''h'' + 2 < maxUserinfoScan"
    by (simp_all add: userinfo_bytes_def isUserinfoBoundary_def)
  show ?thesis
    using url_password_redacted [OF h demo_enabled, of ascii_unicode "''db''"] demo_usable(3) by simp
qed

section \<open>Key names\<close>

text \<open>
  C20. Whenever the allocation-free ASCII classifier decides a key name, its answer is the
  one of the classifier on the normalized key. The Unicode tables only have to agree with
  ASCII below 128.
\<close>

theorem ascii_classifier_correct:
  assumes "ascii_tables u" and "sensitiveKeyASCIIFast re key = Some b"
  shows "isSensitiveNormalizedKeyTokens re (normalizeKey u key) = b"
  using fast_agrees [OF assms] .

theorem ascii_classifier_correct_witness:
  "isSensitiveNormalizedKeyTokens demo (normalizeKey ascii_unicode ''XMLHTTPAuthHeader'') = True"
proof -
  have h: "sensitiveKeyASCIIFast demo ''XMLHTTPAuthHeader'' = Some True" by code_simp
  show ?thesis using ascii_classifier_correct [OF ascii_unicode_tables h] .
qed

text \<open>
  The memo of key classifications is transparent and bounded: from a memo whose entries
  are right and which holds at most 4096 of them, a lookup returns what the classification
  without the memo returns, and leaves such a memo, whatever order the eviction visits the
  map in.
\<close>

theorem memo_invariant:
  assumes "memo_ok u re data" and "set order = fset (fmdom data)"
  shows "fst (isSensitiveKey_memo u re order key data) = isSensitiveKey u re key
     \<and> memo_ok u re (snd (isSensitiveKey_memo u re order key data))"
  using memo_transparent [OF assms] by blast

theorem memo_invariant_witness:
  "fst (isSensitiveKey_memo ascii_unicode demo [] [CHR 0xC3, CHR 0xA9] fmempty)
     = isSensitiveKey ascii_unicode demo [CHR 0xC3, CHR 0xA9]
   \<and> memo_ok ascii_unicode demo (snd (isSensitiveKey_memo ascii_unicode demo [] [CHR 0xC3, CHR 0xA9] fmempty))"
proof -
  have h: "memo_ok ascii_unicode demo fmempty" "set [] = fset (fmdom fmempty)"
    by (simp_all add: memo_ok_def)
  show ?thesis using memo_invariant [OF h] .
qed

section \<open>Card numbers\<close>

text \<open>
  The Luhn check detects every error in a single digit.
\<close>

theorem luhn_detects_single_error:
  assumes "\<forall>c \<in> set ds. isDigitByte c" and "i < length ds" and "isDigitByte c" and "c \<noteq> ds ! i"
    and "passesLuhn ds"
  shows "\<not> passesLuhn (ds[i := c])"
  using luhn_single_digit [OF assms] .

theorem luhn_detects_single_error_witness:
  "passesLuhn ''4111111111111111'' \<and> \<not> passesLuhn (''4111111111111111''[3 := CHR ''7''])"
proof -
  have h: "\<forall>c \<in> set ''4111111111111111''. isDigitByte c" "3 < length ''4111111111111111''"
    "isDigitByte (CHR ''7'')" "CHR ''7'' \<noteq> ''4111111111111111'' ! 3" "passesLuhn ''4111111111111111''"
    by code_simp+
  show ?thesis using h(5) luhn_detects_single_error [OF h] by blast
qed

end
