(* ===== verification/NT_Trie.thy ===== *)
theory NT_Trie
  imports Go_Utf8 "HOL-Library.Word" "HOL-Library.Sublist"
begin

unbundle bit_operations_syntax

text \<open>
  \<^verbatim>\<open>pkg/phonekeypad\<close> and \<^verbatim>\<open>pkg/numtrie\<close>: the digit of a rune on a phone keypad, and the trie
  indexed by such digits. A node is a value, the count of its children and ten slots; a Go
  pointer to a stored value is the value itself, nil is \<open>None\<close>. The mutation of the path by
  \<^verbatim>\<open>Add\<close> is the rebuilt node.

  The trie is shown to implement a finite map from digit sequences (\<open>contents\<close>), through
  the interface \<open>digit_map\<close>; \<^verbatim>\<open>Get\<close> is characterised by that map alone.
\<close>

section \<open>Keypad digits\<close>

text \<open>\<open>None\<close> is the result \<^verbatim>\<open>(-1, false)\<close>.\<close>

definition keypadAlphaToDigit :: "nat \<Rightarrow> nat option" where
  "keypadAlphaToDigit r =
     (if r \<in> {65, 66, 67} then Some 2
      else if r \<in> {68, 69, 70} then Some 3
      else if r \<in> {71, 72, 73} then Some 4
      else if r \<in> {74, 75, 76} then Some 5
      else if r \<in> {77, 78, 79} then Some 6
      else if r \<in> {80, 81, 82, 83} then Some 7
      else if r \<in> {84, 85, 86} then Some 8
      else if r \<in> {87, 88, 89, 90} then Some 9
      else None)"

definition KeypadDigit :: "nat \<Rightarrow> nat option" where
  "KeypadDigit r =
     (if 48 \<le> r \<and> r \<le> 57 then Some (r - 48)
      else keypadAlphaToDigit (if 97 \<le> r \<and> r \<le> 122 then r - 32 else r))"

fun keypad_loop :: "nat list \<Rightarrow> nat list" where
  "keypad_loop [] = []"
| "keypad_loop (r # rs) = (case KeypadDigit r of Some v \<Rightarrow> v # keypad_loop rs | None \<Rightarrow> keypad_loop rs)"

definition KeypadNumber :: "bytes \<Rightarrow> nat list" where
  "KeypadNumber num = keypad_loop (runes num)"

fun keypad_string_loop :: "nat list \<Rightarrow> bytes" where
  "keypad_string_loop [] = []"
| "keypad_string_loop (r # rs) =
     (case KeypadDigit r of Some v \<Rightarrow> char_of (48 + v) # keypad_string_loop rs
      | None \<Rightarrow> keypad_string_loop rs)"

definition KeypadNumberString :: "bytes \<Rightarrow> bytes" where
  "KeypadNumberString num = keypad_string_loop (runes num)"

section \<open>The trie\<close>

definition StatusMatchEmpty :: "8 word" where "StatusMatchEmpty = - 127"
definition StatusMatchNo :: "8 word" where "StatusMatchNo = - 125"
definition StatusMatchFull :: "8 word" where "StatusMatchFull = 0"
definition StatusMatchPartial :: "8 word" where "StatusMatchPartial = 1"
definition StatusMatchPrefix :: "8 word" where "StatusMatchPrefix = 2"
definition StatusMatchPartialPrefix :: "8 word" where "StatusMatchPartialPrefix = 3"

abbreviation indexSize :: nat where "indexSize \<equiv> 10"

datatype 'v node = Node (nodeValue: "'v option") (numChildren: nat) (children: "'v node option list")

definition new_node :: "'v node" where
  "new_node = Node None 0 (replicate indexSize None)"

text \<open>The loop of \<^verbatim>\<open>Add\<close> over the runes of the key, and the write at its end.\<close>

fun add_loop :: "nat list \<Rightarrow> 'v \<Rightarrow> 'v node \<Rightarrow> 'v node \<times> bool" where
  "add_loop [] val (Node x n cs) = (Node (Some val) n cs, x = None)"
| "add_loop (r # rs) val (Node x n cs) =
     (case KeypadDigit r of
        None \<Rightarrow> add_loop rs val (Node x n cs)
      | Some i \<Rightarrow>
         (let n' = (if cs ! i = None then n + 1 else n);
              child = (case cs ! i of None \<Rightarrow> new_node | Some c \<Rightarrow> c);
              (child', isnew) = add_loop rs val child
          in (Node x n' (cs[i := Some child']), isnew)))"

definition node_Add :: "bytes \<Rightarrow> 'v option \<Rightarrow> 'v node \<Rightarrow> 'v node \<times> bool" where
  "node_Add num val t =
     (case val of None \<Rightarrow> (t, False) | Some v \<Rightarrow> add_loop (runes num) v t)"

fun get_loop :: "nat list \<Rightarrow> 'v node \<Rightarrow> 'v option \<Rightarrow> nat \<Rightarrow> nat \<Rightarrow> 'v node \<times> 'v option \<times> nat \<times> nat" where
  "get_loop [] node val match digit = (node, val, match, digit)"
| "get_loop (r # rs) node val match digit =
     (case KeypadDigit r of
        None \<Rightarrow> get_loop rs node val match digit
      | Some i \<Rightarrow>
         (case children node ! i of
            None \<Rightarrow> (node, val, match, digit + 1)
          | Some c \<Rightarrow>
              get_loop rs c (case nodeValue c of None \<Rightarrow> val | Some x \<Rightarrow> Some x) (match + 1) (digit + 1)))"

text \<open>\<^verbatim>\<open>typeutil.BoolToNum[int8]\<close>.\<close>

definition BoolToNum :: "bool \<Rightarrow> 8 word" where
  "BoolToNum b = (if b then 1 else 0)"

definition matchStatus :: "'v node \<Rightarrow> nat \<Rightarrow> nat \<Rightarrow> 8 word" where
  "matchStatus t match digit =
     (if match = 0 then (if digit = 0 then StatusMatchEmpty else StatusMatchNo)
      else push_bit 1 (BoolToNum (match < digit)) OR BoolToNum (0 < numChildren t))"

definition node_Get :: "'v node \<Rightarrow> bytes \<Rightarrow> 'v option \<times> 8 word" where
  "node_Get t num =
     (case get_loop (runes num) t (nodeValue t) 0 0 of
        (node, val, match, digit) \<Rightarrow>
          (let status = matchStatus node match digit
           in if match = 0 then (None, status) else (val, status)))"

fun exact_loop :: "nat list \<Rightarrow> 'v node \<Rightarrow> 'v option" where
  "exact_loop [] node = nodeValue node"
| "exact_loop (r # rs) node =
     (case KeypadDigit r of
        None \<Rightarrow> exact_loop rs node
      | Some i \<Rightarrow> (case children node ! i of None \<Rightarrow> None | Some c \<Rightarrow> exact_loop rs c))"

definition GetExact :: "'v node \<Rightarrow> bytes \<Rightarrow> 'v option" where
  "GetExact t num = exact_loop (runes num) t"

section \<open>Digits\<close>

lemma keypadAlpha_range: "keypadAlphaToDigit r = Some i \<Longrightarrow> i < 10"
  unfolding keypadAlphaToDigit_def by (simp del: insert_iff split: if_split_asm)

lemma KeypadDigit_range: "KeypadDigit r = Some i \<Longrightarrow> i < 10"
  using keypadAlpha_range by (auto simp: KeypadDigit_def split: if_splits)

lemma keypad_loop_range: "i \<in> set (keypad_loop rs) \<Longrightarrow> i < 10"
  by (induction rs) (auto dest: KeypadDigit_range split: option.splits)

lemma keypad_string: "keypad_string_loop rs = map (\<lambda>v. char_of (48 + v)) (keypad_loop rs)"
  by (induction rs) (auto split: option.splits)

lemma digit_char:
  "v < 10 \<Longrightarrow> DecodeRune (char_of (48 + v) # s) = (48 + v, 1) \<and> KeypadDigit (48 + v) = Some v"
  by (simp add: KeypadDigit_def)

lemma runes_digits: "\<forall>v \<in> set ds. v < 10 \<Longrightarrow> keypad_loop (runes (map (\<lambda>v. char_of (48 + v)) ds)) = ds"
proof (induction ds)
  case Nil
  then show ?case by (simp add: runes.simps)
next
  case (Cons v ds)
  then show ?case using digit_char [of v "map (\<lambda>v. char_of (48 + v)) ds"]
    by (simp add: runes.simps [of "char_of (48 + v) # _"])
qed

section \<open>Well-formed tries\<close>

definition live :: "'v node \<Rightarrow> bool" where
  "live t \<longleftrightarrow> nodeValue t \<noteq> None \<or> 0 < numChildren t"

inductive trie_wf :: "'v node \<Rightarrow> bool" where
  "length cs = indexSize \<Longrightarrow> n = length (filter (\<lambda>c. c \<noteq> None) cs)
   \<Longrightarrow> (\<And>c. Some c \<in> set cs \<Longrightarrow> trie_wf c \<and> live c) \<Longrightarrow> trie_wf (Node x n cs)"

inductive_cases trie_wf_NodeE: "trie_wf (Node x n cs)"

fun contents :: "'v node \<Rightarrow> nat list \<Rightarrow> 'v option" where
  "contents t [] = nodeValue t"
| "contents t (i # is) =
     (if i < indexSize then (case children t ! i of None \<Rightarrow> None | Some c \<Rightarrow> contents c is) else None)"

lemma trie_wf_new: "trie_wf new_node"
  unfolding new_node_def by (rule trie_wf.intros) auto

lemma contents_new: "contents new_node = (\<lambda>_. None)"
proof
  fix ds show "contents (new_node :: 'v node) ds = None" by (cases ds) (auto simp: new_node_def)
qed

lemma exact_contents: "exact_loop rs t = contents t (keypad_loop rs)"
  by (induction rs t rule: exact_loop.induct) (auto split: option.splits dest: KeypadDigit_range)

text \<open>Adding updates the map at the digits of the key and reports whether the key was free.\<close>

lemma child_count:
  assumes "i < length cs"
  shows "length (filter (\<lambda>c. c \<noteq> None) (cs[i := Some c]))
     = (if cs ! i = None then Suc (length (filter (\<lambda>c. c \<noteq> None) cs)) else length (filter (\<lambda>c. c \<noteq> None) cs))"
proof -
  have cs: "cs = take i cs @ cs ! i # drop (Suc i) cs" using assms by (simp add: id_take_nth_drop)
  have upd: "cs[i := Some c] = take i cs @ Some c # drop (Suc i) cs" using assms by (simp add: upd_conv_take_nth_drop)
  have split: "filter P cs = filter P (take i cs) @ filter P [cs ! i] @ filter P (drop (Suc i) cs)" for P
    using arg_cong [OF cs, of "filter P"] by (simp only: filter_append append_Cons append_Nil filter.simps) simp
  show ?thesis unfolding upd split by (cases "cs ! i") simp_all
qed

lemma child_wf:
  assumes "trie_wf (Node x n cs)" and "i < indexSize"
  shows "trie_wf (case cs ! i of None \<Rightarrow> new_node | Some c \<Rightarrow> c)"
    and "cs ! i = Some c \<Longrightarrow> 0 < n"
proof -
  have cs: "length cs = indexSize" "n = length (filter (\<lambda>c. c \<noteq> None) cs)"
    "\<And>c. Some c \<in> set cs \<Longrightarrow> trie_wf c \<and> live c" using assms(1) by (auto elim: trie_wf_NodeE)
  have mem: "cs ! i \<in> set cs" using assms(2) cs(1) by simp
  show "trie_wf (case cs ! i of None \<Rightarrow> new_node | Some c \<Rightarrow> c)"
    using cs(3) mem trie_wf_new by (cases "cs ! i") auto
  show "0 < n" if "cs ! i = Some c"
    using mem that cs(2) by (auto simp: filter_empty_conv)
qed

lemma add_snd: "trie_wf t \<Longrightarrow> snd (add_loop rs v t) = (contents t (keypad_loop rs) = None)"
proof (induction rs v t rule: add_loop.induct)
  case (2 r rs val x n cs)
  show ?case
  proof (cases "KeypadDigit r")
    case None
    then show ?thesis using 2 by simp
  next
    case (Some i)
    have i: "i < indexSize" by (rule KeypadDigit_range [OF Some])
    show ?thesis
      using 2(2) [OF Some refl refl child_wf(1) [OF 2(3) i]] Some i fun_cong [OF contents_new]
      by (cases "cs ! i") (simp_all add: Let_def split_beta)
  qed
qed simp

lemma add_live: "trie_wf t \<Longrightarrow> live (fst (add_loop rs v t))"
proof (induction rs v t rule: add_loop.induct)
  case (2 r rs val x n cs)
  show ?case
  proof (cases "KeypadDigit r")
    case None
    then show ?thesis using 2 by simp
  next
    case (Some i)
    then show ?thesis using child_wf(2) [OF 2(3) KeypadDigit_range [OF Some]]
      by (cases "cs ! i") (simp_all add: Let_def split_beta live_def)
  qed
qed (simp add: live_def)

lemma add_wf: "trie_wf t \<Longrightarrow> trie_wf (fst (add_loop rs v t))"
proof (induction rs v t rule: add_loop.induct)
  case (1 val x n cs)
  then show ?case by (auto elim!: trie_wf_NodeE intro!: trie_wf.intros)
next
  case (2 r rs val x n cs)
  show ?case
  proof (cases "KeypadDigit r")
    case None
    then show ?thesis using 2 by simp
  next
    case (Some i)
    let ?c = "case cs ! i of None \<Rightarrow> new_node | Some c \<Rightarrow> c"
    have cs: "length cs = indexSize" "n = length (filter (\<lambda>c. c \<noteq> None) cs)"
      "\<And>c. Some c \<in> set cs \<Longrightarrow> trie_wf c \<and> live c" using 2(3) by (auto elim: trie_wf_NodeE)
    have i: "i < length cs" using KeypadDigit_range [OF Some] cs by simp
    note wfc = child_wf(1) [OF 2(3) KeypadDigit_range [OF Some]]
    have "trie_wf (fst (add_loop rs val ?c))" by (rule 2(2) [OF Some refl refl wfc])
    then have "\<And>c. Some c \<in> set (cs[i := Some (fst (add_loop rs val ?c))]) \<Longrightarrow> trie_wf c \<and> live c"
      using cs(3) add_live [OF wfc] set_update_subset_insert [of cs i] by fastforce
    then show ?thesis
      using child_count [OF i, of "fst (add_loop rs val ?c)"] cs Some
      by (auto simp: Let_def split_beta intro!: trie_wf.intros)
  qed
qed

lemma contents_add:
  "trie_wf t \<Longrightarrow> contents (fst (add_loop rs v t)) = (contents t)(keypad_loop rs \<mapsto> v)"
proof (induction rs v t rule: add_loop.induct)
  case (1 val x n cs)
  show ?case
  proof
    fix ds show "contents (fst (add_loop [] val (Node x n cs))) ds = ((contents (Node x n cs))(keypad_loop [] \<mapsto> val)) ds"
      by (cases ds) auto
  qed
next
  case (2 r rs val x n cs)
  show ?case
  proof (cases "KeypadDigit r")
    case None
    then show ?thesis using 2 by simp
  next
    case (Some i)
    let ?c = "case cs ! i of None \<Rightarrow> new_node | Some c \<Rightarrow> c"
    have cs: "length cs = indexSize" "\<And>c. Some c \<in> set cs \<Longrightarrow> trie_wf c" using 2(3) by (auto elim: trie_wf_NodeE)
    have i: "i < length cs" using KeypadDigit_range [OF Some] cs by simp
    have ih: "contents (fst (add_loop rs val ?c)) = (contents ?c)(keypad_loop rs \<mapsto> val)"
      by (rule 2(2) [OF Some refl refl child_wf(1) [OF 2(3) KeypadDigit_range [OF Some]]])
    have old: "contents (Node x n cs) (i # ds) = contents ?c ds" for ds
      using i cs(1) by (auto simp: contents_new split: option.split)
    show ?thesis
    proof
      fix ds
      show "contents (fst (add_loop (r # rs) val (Node x n cs))) ds
          = ((contents (Node x n cs))(keypad_loop (r # rs) \<mapsto> val)) ds"
      proof (cases ds)
        case Nil
        then show ?thesis using Some by (simp add: Let_def split_beta)
      next
        case (Cons j js)
        then show ?thesis
          using Some ih old [of js] i cs(1) by (cases "j = i") (auto simp: Let_def split_beta)
      qed
    qed
  qed
qed

section \<open>Longest-prefix lookup\<close>

text \<open>
  The path matched by a lookup, and the node it ends on. In a trie whose nodes are all live a
  path exists exactly when some stored key extends it.
\<close>

fun matched :: "'v node \<Rightarrow> nat list \<Rightarrow> nat list" where
  "matched t [] = []"
| "matched t (i # is) = (case children t ! i of None \<Rightarrow> [] | Some c \<Rightarrow> i # matched c is)"

fun sub :: "'v node \<Rightarrow> nat list \<Rightarrow> 'v node option" where
  "sub t [] = Some t"
| "sub t (i # is) = (case children t ! i of None \<Rightarrow> None | Some c \<Rightarrow> sub c is)"

text \<open>The value of the longest stored prefix of a path.\<close>

fun stored_prefix :: "(nat list \<Rightarrow> 'v option) \<Rightarrow> nat list \<Rightarrow> 'v option" where
  "stored_prefix m [] = m []"
| "stored_prefix m (i # is) =
     (case stored_prefix (\<lambda>p. m (i # p)) is of None \<Rightarrow> m [] | Some v \<Rightarrow> Some v)"

lemma stored_prefix_spec:
  "stored_prefix m ds =
     (case filter (\<lambda>p. m p \<noteq> None) (rev (prefixes ds)) of [] \<Rightarrow> None | p # _ \<Rightarrow> m p)"
proof (induction ds arbitrary: m)
  case (Cons i "is")
  have "filter (\<lambda>p. m p \<noteq> None) (rev (prefixes (i # is)))
      = map (Cons i) (filter (\<lambda>p. m (i # p) \<noteq> None) (rev (prefixes is))) @ filter (\<lambda>p. m p \<noteq> None) [[]]"
    by (simp add: rev_map filter_map comp_def)
  then show ?case using Cons [of "\<lambda>p. m (i # p)"]
    by (cases "filter (\<lambda>p. m (i # p) \<noteq> None) (rev (prefixes is))")
      (auto simp: split: option.splits dest!: filter_eq_ConsD)
qed simp

lemma stored_prefix_None: "stored_prefix m ds = None \<longleftrightarrow> (\<forall>p. prefix p ds \<longrightarrow> m p = None)"
proof (induction ds arbitrary: m)
  case (Cons i "is")
  show ?case using Cons [of "\<lambda>p. m (i # p)"]
    by (auto simp: prefix_Cons split: option.splits)
qed simp

lemma get_loop_spec:
  "\<exists>node val'. sub t (matched t (keypad_loop rs)) = Some node
     \<and> get_loop rs t val m d = (node, val', m + length (matched t (keypad_loop rs)),
          d + length (matched t (keypad_loop rs))
            + (if matched t (keypad_loop rs) = keypad_loop rs then 0 else 1))
     \<and> (nodeValue t = None \<or> val = nodeValue t \<longrightarrow>
          val' = (case stored_prefix (contents t) (matched t (keypad_loop rs)) of None \<Rightarrow> val | Some v \<Rightarrow> Some v))"
proof (induction rs t val m d rule: get_loop.induct)
  case (1 node val match digit)
  then show ?case by (auto split: option.split)
next
  case (2 r rs node val match digit)
  show ?case
  proof (cases "KeypadDigit r")
    case None
    then show ?thesis using 2(1) by simp
  next
    case (Some i)
    note i = KeypadDigit_range [OF Some]
    show ?thesis
    proof (cases "children node ! i")
      case None
      then show ?thesis using Some by (auto split: option.split)
    next
      case (Some c)
      let ?p = "matched c (keypad_loop rs)" and ?v = "case nodeValue c of None \<Rightarrow> val | Some x \<Rightarrow> Some x"
      have c: "(\<lambda>p. contents node (i # p)) = contents c" using i Some by simp
      obtain n v where ih: "sub c ?p = Some n"
        "get_loop rs c ?v (match + 1) (digit + 1) = (n, v, match + 1 + length ?p,
           digit + 1 + length ?p + (if ?p = keypad_loop rs then 0 else 1))"
        "v = (case stored_prefix (contents c) ?p of None \<Rightarrow> ?v | Some v \<Rightarrow> Some v)"
        using 2(2) [OF \<open>KeypadDigit r = Some i\<close> Some] by (auto split: option.split)
      have "nodeValue c = None" if "stored_prefix (contents c) ?p = None"
        using that stored_prefix_None [of "contents c" ?p] contents.simps(1) [of c] Nil_prefix by metis
      then have "v = (case stored_prefix (contents c) ?p of None \<Rightarrow> val | Some v \<Rightarrow> Some v)"
        using ih(3) by (simp split: option.splits)
      moreover have "stored_prefix (contents node) (i # ?p)
          = (case stored_prefix (contents c) ?p of None \<Rightarrow> nodeValue node | Some v \<Rightarrow> Some v)"
        by (simp only: stored_prefix.simps c contents.simps(1))
      ultimately show ?thesis
        using ih(1,2) \<open>KeypadDigit r = Some i\<close> Some
        by (auto simp del: stored_prefix.simps contents.simps split: option.splits)
    qed
  qed
qed

lemma sub_wf: "trie_wf t \<Longrightarrow> \<forall>i \<in> set p. i < indexSize \<Longrightarrow> sub t p = Some c \<Longrightarrow> trie_wf c \<and> (p \<noteq> [] \<longrightarrow> live c)"
proof (induction p arbitrary: t)
  case (Cons i p)
  obtain x n cs where t: "t = Node x n cs" by (cases t)
  obtain c' where c': "cs ! i = Some c'" "sub c' p = Some c" using Cons.prems t by (auto split: option.splits)
  have "Some c' \<in> set cs" using c'(1) Cons.prems(1,2) t nth_mem [of i cs] by (auto elim: trie_wf_NodeE)
  then have "trie_wf c' \<and> live c'" using Cons.prems(1) t by (auto elim: trie_wf_NodeE)
  then show ?case using Cons.IH [of c'] Cons.prems(2) c'(2) by (cases p) auto
qed simp

lemma contents_sub: "\<forall>i \<in> set p. i < indexSize \<Longrightarrow> contents t (p @ q) = (case sub t p of None \<Rightarrow> None | Some c \<Rightarrow> contents c q)"
  by (induction p arbitrary: t) (auto split: option.splits)

text \<open>A live node has a stored key below it.\<close>

lemma live_key: "trie_wf t \<Longrightarrow> live t \<Longrightarrow> \<exists>k. contents t k \<noteq> None"
proof (induction t rule: trie_wf.induct)
  case (1 cs n x)
  show ?case
  proof (cases "x = None")
    case True
    then have "0 < length (filter (\<lambda>c. c \<noteq> None) cs)" using 1(2,4) by (simp add: live_def)
    then obtain c where c: "Some c \<in> set cs" by (auto simp: filter_empty_conv)
    then obtain i where i: "i < indexSize" "cs ! i = Some c" using 1(1) by (auto simp: in_set_conv_nth)
    obtain k where "contents c k \<noteq> None" using 1(3) [OF c] by blast
    then have "contents (Node x n cs) (i # k) \<noteq> None" using i by simp
    then show ?thesis by blast
  next
    case False
    then have "contents (Node x n cs) [] \<noteq> None" by simp
    then show ?thesis by blast
  qed
qed

lemma children_key:
  assumes "trie_wf t"
  shows "0 < numChildren t \<longleftrightarrow> (\<exists>k. k \<noteq> [] \<and> contents t k \<noteq> None)"
proof
  obtain x n cs where t: "t = Node x n cs" by (cases t)
  have cs: "length cs = indexSize" "n = length (filter (\<lambda>c. c \<noteq> None) cs)"
    "\<And>c. Some c \<in> set cs \<Longrightarrow> trie_wf c \<and> live c" using assms t by (auto elim: trie_wf_NodeE)
  {
    assume "0 < numChildren t"
    then obtain c where c: "Some c \<in> set cs" using cs(2) t by (auto simp: filter_empty_conv)
    then obtain i where i: "i < indexSize" "cs ! i = Some c" using cs(1) by (auto simp: in_set_conv_nth)
    obtain k where "contents c k \<noteq> None" using live_key cs(3) [OF c] by blast
    then have "i # k \<noteq> [] \<and> contents t (i # k) \<noteq> None" using i t by simp
    then show "\<exists>k. k \<noteq> [] \<and> contents t k \<noteq> None" by blast
  next
    assume "\<exists>k. k \<noteq> [] \<and> contents t k \<noteq> None"
    then obtain i k where "contents t (i # k) \<noteq> None" by (metis neq_Nil_conv)
    then obtain c where "i < indexSize" "cs ! i = Some c" using t by (auto split: if_splits option.splits)
    then show "0 < numChildren t" using child_wf(2) assms t by fastforce
  }
qed

text \<open>Which paths exist, in terms of the map.\<close>

definition reaches :: "'v node \<Rightarrow> nat list \<Rightarrow> bool" where
  "reaches t p \<longleftrightarrow> p = [] \<or> (\<exists>k. contents t k \<noteq> None \<and> prefix p k)"

lemma reaches_sub:
  assumes "trie_wf t" and "\<forall>i \<in> set p. i < indexSize"
  shows "reaches t p \<longleftrightarrow> sub t p \<noteq> None"
proof
  assume r: "reaches t p"
  show "sub t p \<noteq> None"
  proof (cases "p = []")
    case False
    then obtain q where "contents t (p @ q) \<noteq> None" using r by (auto simp: reaches_def prefix_def)
    then show ?thesis using contents_sub [OF assms(2), of t q] by (auto split: option.splits)
  qed simp
next
  assume "sub t p \<noteq> None"
  then obtain c where c: "sub t p = Some c" by blast
  show "reaches t p"
  proof (cases "p = []")
    case False
    then obtain k where "contents c k \<noteq> None" using sub_wf [OF assms c] live_key by blast
    then have "contents t (p @ k) \<noteq> None" using contents_sub [OF assms(2), of t k] c by simp
    then show ?thesis by (auto simp: reaches_def)
  qed (simp add: reaches_def)
qed

lemma matched_prefix: "prefix (matched t ds) ds"
  by (induction t ds rule: matched.induct) (auto split: option.splits)

lemma matched_sub: "prefix q ds \<Longrightarrow> sub t q \<noteq> None \<longleftrightarrow> prefix q (matched t ds)"
proof (induction t ds arbitrary: q rule: matched.induct)
  case (2 t i "is")
  then show ?case by (cases q) (auto split: option.splits)
qed simp

lemma keys_in_range: "contents t k \<noteq> None \<Longrightarrow> \<forall>i \<in> set k. i < indexSize"
  by (induction t k rule: contents.induct) (auto split: if_splits option.splits)

lemma prefix_range: "prefix q ds \<Longrightarrow> \<forall>i \<in> set ds. i < indexSize \<Longrightarrow> \<forall>i \<in> set q. i < indexSize"
  by (auto simp: prefix_def)

text \<open>The longest stored prefix of the matched path is that of the whole input.\<close>

lemma stored_prefix_eqI:
  assumes "prefix p ds" and "\<And>q. prefix q ds \<Longrightarrow> m q \<noteq> None \<Longrightarrow> prefix q p"
  shows "stored_prefix m ds = stored_prefix m p"
  using assms
proof (induction p arbitrary: m ds)
  case Nil
  show ?case
  proof (cases ds)
    case (Cons i "is")
    have "m (i # q) = None" if "prefix q is" for q using Nil(2) [of "i # q"] Cons that by (cases "m (i # q)") auto
    then have "stored_prefix (\<lambda>q. m (i # q)) is = None" by (simp add: stored_prefix_None)
    then show ?thesis using Cons by simp
  qed simp
next
  case (Cons i p)
  then obtain js where ds: "ds = i # js" "prefix p js" by (auto simp: prefix_def)
  have "stored_prefix (\<lambda>q. m (i # q)) js = stored_prefix (\<lambda>q. m (i # q)) p"
  proof (rule Cons.IH [OF ds(2)])
    fix q assume "prefix q js" "m (i # q) \<noteq> None"
    then show "prefix q p" using Cons.prems(2) [of "i # q"] ds(1) by simp
  qed
  then show ?case using ds by simp
qed

lemma keypad_range_all: "\<forall>i \<in> set (KeypadNumber num). i < indexSize"
  using keypad_loop_range by (auto simp: KeypadNumber_def)

lemma matched_reaches:
  assumes "trie_wf t" and "prefix q (KeypadNumber num)"
  shows "reaches t q \<longleftrightarrow> prefix q (matched t (KeypadNumber num))"
  using reaches_sub [OF assms(1) prefix_range [OF assms(2) keypad_range_all]] matched_sub [OF assms(2)]
  by metis

lemma node_Get_eq:
  fixes num :: bytes and t :: "'v node"
  assumes wf: "trie_wf t"
  defines "ds \<equiv> KeypadNumber num"
  defines "p \<equiv> matched t ds"
  shows "fst (node_Get t num) = (if p = [] then None else stored_prefix (contents t) ds)"
    and "snd (node_Get t num) =
      (if p = [] then (if ds = [] then StatusMatchEmpty else StatusMatchNo)
       else (if p = ds then 0 else 2) OR (if \<exists>k. contents t k \<noteq> None \<and> strict_prefix p k then 1 else 0))"
proof -
  obtain n v where g: "sub t p = Some n"
    "get_loop (runes num) t (nodeValue t) 0 0 = (n, v, length p, length p + (if p = ds then 0 else 1))"
    "v = (case stored_prefix (contents t) p of None \<Rightarrow> nodeValue t | Some v \<Rightarrow> Some v)"
    using get_loop_spec [of t "runes num" "nodeValue t" 0 0] by (auto simp: p_def ds_def KeypadNumber_def)
  have pre: "prefix p ds" by (simp add: p_def matched_prefix)
  have rng: "\<forall>i \<in> set p. i < indexSize" using prefix_range [OF pre] keypad_range_all by (simp add: ds_def)
  have "stored_prefix (contents t) p = None \<Longrightarrow> nodeValue t = None"
    using stored_prefix_None [of "contents t" p] contents.simps(1) [of t] Nil_prefix by metis
  then have v: "v = stored_prefix (contents t) p" using g(3) by (auto split: option.splits)
  have "stored_prefix (contents t) ds = stored_prefix (contents t) p"
  proof (rule stored_prefix_eqI [OF pre])
    fix q assume "prefix q ds" "contents t q \<noteq> None"
    then show "prefix q p" using matched_reaches [OF wf, of q num] by (auto simp: reaches_def p_def ds_def)
  qed
  then show "fst (node_Get t num) = (if p = [] then None else stored_prefix (contents t) ds)"
    using g(2) v by (simp add: node_Get_def Let_def)
  have "0 < numChildren n \<longleftrightarrow> (\<exists>q. q \<noteq> [] \<and> contents n q \<noteq> None)"
    using children_key sub_wf [OF wf rng g(1)] by blast
  also have "\<dots> \<longleftrightarrow> (\<exists>k. contents t k \<noteq> None \<and> strict_prefix p k)"
  proof -
    have at: "contents t (p @ q) = contents n q" for q using contents_sub [OF rng, of t q] g(1) by simp
    have ext: "strict_prefix p k \<longleftrightarrow> (\<exists>q. q \<noteq> [] \<and> k = p @ q)" for k
      by (auto simp: strict_prefix_def prefix_def)
    show ?thesis unfolding ext using at by metis
  qed
  finally show "snd (node_Get t num) =
      (if p = [] then (if ds = [] then StatusMatchEmpty else StatusMatchNo)
       else (if p = ds then 0 else 2) OR (if \<exists>k. contents t k \<noteq> None \<and> strict_prefix p k then 1 else 0))"
    using g(2) by (auto simp: node_Get_def Let_def matchStatus_def BoolToNum_def)
qed

section \<open>The interface\<close>

text \<open>
  What a client relies on: a map from digit sequences with exact and longest-prefix lookup.
  \<open>accumulate\<close> is the pattern of clients that merge what they store with what is there.
\<close>

locale digit_map =
  fixes empty_map :: 't
    and add :: "bytes \<Rightarrow> 'v \<Rightarrow> 't \<Rightarrow> 't"
    and exact :: "'t \<Rightarrow> bytes \<Rightarrow> 'v option"
    and "get" :: "'t \<Rightarrow> bytes \<Rightarrow> 'v option"
    and key :: "bytes \<Rightarrow> nat list"
    and ok :: "'t \<Rightarrow> bool"
    and abs :: "'t \<Rightarrow> nat list \<Rightarrow> 'v option"
  assumes ok_empty: "ok empty_map"
    and abs_empty: "abs empty_map ds = None"
    and ok_add: "ok t \<Longrightarrow> ok (add num v t)"
    and abs_add: "ok t \<Longrightarrow> abs (add num v t) = (abs t)(key num \<mapsto> v)"
    and exact_abs: "ok t \<Longrightarrow> exact t num = abs t (key num)"
    and get_abs: "ok t \<Longrightarrow> abs t [] = None \<Longrightarrow> get t num = stored_prefix (abs t) (key num)"
begin

lemma accumulate:
  assumes "ok t"
  shows "ok (fold (\<lambda>(num, v) t. add num (g (exact t num) v) t) evs t)
    \<and> abs (fold (\<lambda>(num, v) t. add num (g (exact t num) v) t) evs t) ds
        = fold (\<lambda>v cur. Some (g cur v)) (map snd (filter (\<lambda>(num, _). key num = ds) evs)) (abs t ds)"
  using assms
proof (induction evs arbitrary: t)
  case (Cons e evs)
  obtain num v where e: "e = (num, v)" by fastforce
  let ?t = "add num (g (exact t num) v) t"
  have "ok ?t" using ok_add Cons.prems .
  moreover have "abs ?t ds = (if key num = ds then Some (g (abs t ds) v) else abs t ds)"
    using abs_add [OF Cons.prems] exact_abs [OF Cons.prems] by auto
  ultimately show ?case using Cons.IH [of ?t] by (simp add: e)
qed simp

lemma accumulate_nonempty:
  assumes "ok t" and "abs t [] = None" and "\<forall>(num, v) \<in> set evs. key num \<noteq> []"
  shows "abs (fold (\<lambda>(num, v) t. add num (g (exact t num) v) t) evs t) [] = None"
proof -
  have "filter (\<lambda>(num, _). key num = []) evs = []" using assms(3) by (auto simp: filter_empty_conv)
  then show ?thesis using accumulate [OF assms(1), of g evs "[]"] assms(2) by simp
qed

end

interpretation trie: digit_map new_node "\<lambda>num v t. fst (node_Add num (Some v) t)" GetExact
    "\<lambda>t num. fst (node_Get t num)" KeypadNumber trie_wf contents
proof
  fix t :: "'v node" and num v ds
  show "trie_wf (new_node :: 'v node)" by (rule trie_wf_new)
  show "contents (new_node :: 'v node) ds = None" by (simp add: contents_new)
  assume wf: "trie_wf t"
  show "trie_wf (fst (node_Add num (Some v) t))" using add_wf [OF wf] by (simp add: node_Add_def)
  show "contents (fst (node_Add num (Some v) t)) = (contents t)(KeypadNumber num \<mapsto> v)"
    using contents_add [OF wf] by (simp add: node_Add_def KeypadNumber_def)
  show "GetExact t num = contents t (KeypadNumber num)"
    by (simp add: GetExact_def exact_contents KeypadNumber_def)
  assume root: "contents t [] = None"
  let ?ds = "KeypadNumber num"
  have "stored_prefix (contents t) ?ds = None" if "matched t ?ds = []"
  proof -
    have "contents t q = None" if "prefix q ?ds" for q
      using matched_reaches [OF wf that] root \<open>matched t ?ds = []\<close> by (auto simp: reaches_def)
    then show ?thesis by (simp add: stored_prefix_None)
  qed
  then show "fst (node_Get t num) = stored_prefix (contents t) ?ds"
    using node_Get_eq(1) [OF wf, of num] by auto
qed

end
