(* ===== verification/NT_Phone.thy ===== *)
theory NT_Phone
  imports NT_Trie "HOL-Library.Multiset"
begin

text \<open>
  \<^verbatim>\<open>pkg/countryphone\<close>: the resolver of phone number prefixes on top of the trie. The input map
  is the list of its entries in the order in which the runtime ranges over it, a nil country
  being \<open>None\<close>; errors are values. The pointer test \<^verbatim>\<open>v != info\<close> of \<^verbatim>\<open>insertPrefix\<close> is always
  true, since every caller passes a freshly allocated \<^verbatim>\<open>NumInfo\<close>.

  The facts about the trie come from the interpretation \<open>trie\<close> of \<open>digit_map\<close> only.
\<close>

section \<open>Data\<close>

record InPrefixGroup =
  Name :: bytes
  gType :: int
  PrefixType :: int
  Prefixes :: "bytes list"

record InCountryData =
  CC :: bytes
  Groups :: "InPrefixGroup list"

type_synonym InData = "(bytes \<times> InCountryData option) list"

record GeoInfo =
  Alpha2 :: bytes
  Area :: bytes
  aType :: int

record NumInfo =
  nType :: int
  Geo :: "GeoInfo list"

datatype phone_error = ErrNoMatch bytes | ErrInvalidNumberType int | ErrInvalidAreaType int

definition enumNumberType :: "bytes list" where
  "enumNumberType =
     ['''', ''landline'', ''mobile'', ''pager'', ''satellite'', ''special service'', ''virtual'', ''other'']"

definition enumAreaType :: "bytes list" where
  "enumAreaType =
     ['''', ''state'', ''province or territory'', ''nation or territory'', ''non-geographic'', ''other'']"

record phone_data =
  phone_trie :: "NumInfo node"

section \<open>Loading\<close>

fun hasDialable_loop :: "nat list \<Rightarrow> bool" where
  "hasDialable_loop [] = False"
| "hasDialable_loop (r # rs) = (if KeypadDigit r \<noteq> None then True else hasDialable_loop rs)"

definition hasDialableDigit :: "bytes \<Rightarrow> bool" where
  "hasDialableDigit p = hasDialable_loop (runes p)"

text \<open>\<^verbatim>\<open>appendUnique\<close>, on the pair of \<^verbatim>\<open>merged\<close> and \<^verbatim>\<open>seen\<close>.\<close>

fun appendUnique :: "GeoInfo list \<Rightarrow> GeoInfo list \<times> GeoInfo set \<Rightarrow> GeoInfo list \<times> GeoInfo set" where
  "appendUnique [] st = st"
| "appendUnique (g # gs) (merged, seen) =
     (if g \<in> seen then appendUnique gs (merged, seen)
      else appendUnique gs (merged @ [g], insert g seen))"

definition mergeGeo :: "GeoInfo list \<Rightarrow> GeoInfo list \<Rightarrow> GeoInfo list" where
  "mergeGeo existing added = fst (appendUnique added (appendUnique existing ([], {})))"

definition insertPrefix :: "bytes \<Rightarrow> NumInfo \<Rightarrow> phone_data \<Rightarrow> phone_data" where
  "insertPrefix p info d =
     (if \<not> hasDialableDigit p then d
      else let info' =
             (case GetExact (phone_trie d) p of
                None \<Rightarrow> info
              | Some v \<Rightarrow>
                  if 0 < length (Geo v) \<and> 0 < length (Geo info)
                  then info\<lparr>Geo := mergeGeo (Geo v) (Geo info)\<rparr> else info)
           in d\<lparr>phone_trie := fst (node_Add p (Some info') (phone_trie d))\<rparr>)"

definition newGroupInfo :: "bytes \<Rightarrow> InPrefixGroup \<Rightarrow> NumInfo" where
  "newGroupInfo a2 g =
     \<lparr>nType = PrefixType g, Geo = [\<lparr>Alpha2 = a2, Area = Name g, aType = gType g\<rparr>]\<rparr>"

definition insertGroups :: "bytes \<Rightarrow> InCountryData \<Rightarrow> phone_data \<Rightarrow> phone_data" where
  "insertGroups a2 cdata d =
     fold (\<lambda>g d. if length (Prefixes g) = 0 then insertPrefix (CC cdata) (newGroupInfo a2 g) d
                 else fold (\<lambda>p d. insertPrefix p (newGroupInfo a2 g) d) (Prefixes g) d)
       (Groups cdata) d"

definition load_entry :: "bytes \<times> InCountryData option \<Rightarrow> phone_data \<Rightarrow> phone_data" where
  "load_entry e d =
     (case e of
        (a2, None) \<Rightarrow> d
      | (a2, Some cdata) \<Rightarrow>
         (let d' = (if CC cdata \<noteq> []
                    then insertPrefix (CC cdata)
                           \<lparr>nType = 0, Geo = [\<lparr>Alpha2 = a2, Area = [], aType = 0\<rparr>]\<rparr> d
                    else d)
          in if 0 < length (Groups cdata) then insertGroups a2 cdata d' else d'))"

definition loadData :: "InData \<Rightarrow> phone_data" where
  "loadData data = fold load_entry data \<lparr>phone_trie = new_node\<rparr>"

section \<open>Queries\<close>

definition cloneNumInfo :: "NumInfo \<Rightarrow> NumInfo" where
  "cloneNumInfo src = \<lparr>nType = nType src, Geo = Geo src\<rparr>"

definition NumberInfo :: "phone_data \<Rightarrow> bytes \<Rightarrow> phone_error + NumInfo" where
  "NumberInfo d num =
     (case node_Get (phone_trie d) num of
        (data, status) \<Rightarrow>
          (case data of
             None \<Rightarrow> Inl (ErrNoMatch num)
           | Some info \<Rightarrow> if sint status < 0 then Inl (ErrNoMatch num) else Inr (cloneNumInfo info)))"

definition NumberType :: "int \<Rightarrow> phone_error + bytes" where
  "NumberType t =
     (if t < 0 \<or> int (length enumNumberType) \<le> t then Inl (ErrInvalidNumberType t)
      else Inr (enumNumberType ! nat t))"

definition AreaType :: "int \<Rightarrow> phone_error + bytes" where
  "AreaType t =
     (if t < 0 \<or> int (length enumAreaType) \<le> t then Inl (ErrInvalidAreaType t)
      else Inr (enumAreaType ! nat t))"

section \<open>Merging\<close>

lemma appendUnique_spec:
  assumes "distinct merged" and "set merged = seen"
  shows "distinct (fst (appendUnique gs (merged, seen)))
    \<and> set (fst (appendUnique gs (merged, seen))) = seen \<union> set gs
    \<and> snd (appendUnique gs (merged, seen)) = seen \<union> set gs"
  using assms
proof (induction gs arbitrary: merged seen)
  case (Cons g gs)
  then show ?case using Cons.IH [of "merged @ [g]" "insert g seen"] Cons.IH [of merged seen] by auto
qed simp

lemma mergeGeo_spec: "set (mergeGeo a b) = set a \<union> set b" "distinct (mergeGeo a b)"
proof -
  obtain m s where a: "appendUnique a ([], {}) = (m, s)" by fastforce
  have "distinct m" "set m = s" "s = set a" using appendUnique_spec [of "[]" "{}" a] a by auto
  then show "set (mergeGeo a b) = set a \<union> set b" "distinct (mergeGeo a b)"
    using appendUnique_spec [of m s b] a by (auto simp: mergeGeo_def)
qed

section \<open>What a load stores\<close>

text \<open>The insertions of an entry, in order, and the merge of one insertion with what is stored.\<close>

definition entry_events :: "bytes \<times> InCountryData option \<Rightarrow> (bytes \<times> NumInfo) list" where
  "entry_events e =
     (case e of
        (a2, None) \<Rightarrow> []
      | (a2, Some cdata) \<Rightarrow>
         (if CC cdata \<noteq> [] then [(CC cdata, \<lparr>nType = 0, Geo = [\<lparr>Alpha2 = a2, Area = [], aType = 0\<rparr>]\<rparr>)] else [])
         @ concat (map (\<lambda>g. map (\<lambda>p. (p, newGroupInfo a2 g)) (if Prefixes g = [] then [CC cdata] else Prefixes g))
             (Groups cdata)))"

definition events :: "InData \<Rightarrow> (bytes \<times> NumInfo) list" where
  "events data = filter (\<lambda>(p, _). hasDialableDigit p) (concat (map entry_events data))"

definition merge_info :: "NumInfo option \<Rightarrow> NumInfo \<Rightarrow> NumInfo" where
  "merge_info cur info =
     (case cur of None \<Rightarrow> info
      | Some v \<Rightarrow> if Geo v \<noteq> [] \<and> Geo info \<noteq> [] then info\<lparr>Geo := mergeGeo (Geo v) (Geo info)\<rparr> else info)"

abbreviation ins :: "bytes \<times> NumInfo \<Rightarrow> NumInfo node \<Rightarrow> NumInfo node" where
  "ins \<equiv> \<lambda>(num, v) t. fst (node_Add num (Some (merge_info (GetExact t num) v)) t)"

lemma dialable_iff: "hasDialableDigit p \<longleftrightarrow> KeypadNumber p \<noteq> []"
proof -
  have "hasDialable_loop rs \<longleftrightarrow> keypad_loop rs \<noteq> []" for rs
    by (induction rs) (auto split: option.splits)
  then show ?thesis by (simp add: hasDialableDigit_def KeypadNumber_def)
qed

lemma insertPrefix_ins:
  "phone_trie (insertPrefix p info d) = (if hasDialableDigit p then ins (p, info) (phone_trie d) else phone_trie d)"
  by (auto simp: insertPrefix_def merge_info_def Let_def split: option.split)

lemma fold_insertPrefix:
  "phone_trie (fold (\<lambda>(p, info). insertPrefix p info) evs d)
     = fold ins (filter (\<lambda>(p, _). hasDialableDigit p) evs) (phone_trie d)"
  by (induction evs arbitrary: d) (auto simp: insertPrefix_ins)

lemma load_entry_events: "load_entry e d = fold (\<lambda>(p, info). insertPrefix p info) (entry_events e) d"
proof -
  have gs: "fold (\<lambda>g d. if length (Prefixes g) = 0 then insertPrefix cc (newGroupInfo a2 g) d
                 else fold (\<lambda>p d. insertPrefix p (newGroupInfo a2 g) d) (Prefixes g) d) gs d
      = fold (\<lambda>(p, info). insertPrefix p info)
          (concat (map (\<lambda>g. map (\<lambda>p. (p, newGroupInfo a2 g)) (if Prefixes g = [] then [cc] else Prefixes g)) gs)) d"
    for a2 cc gs d
    by (induction gs arbitrary: d) (auto simp: fold_map comp_def)
  have groups: "insertGroups a2 cdata d = fold (\<lambda>(p, info). insertPrefix p info)
      (concat (map (\<lambda>g. map (\<lambda>p. (p, newGroupInfo a2 g)) (if Prefixes g = [] then [CC cdata] else Prefixes g))
        (Groups cdata))) d" for a2 cdata d
    unfolding insertGroups_def by (rule gs)
  show ?thesis
    by (cases "snd e") (auto simp: load_entry_def entry_events_def groups Let_def split: prod.splits)
qed

lemma loadData_events: "phone_trie (loadData data) = fold ins (events data) new_node"
proof -
  have "fold load_entry data d = fold (\<lambda>(p, info). insertPrefix p info) (concat (map entry_events data)) d" for d
    by (induction data arbitrary: d) (auto simp: load_entry_events)
  then show ?thesis by (simp add: loadData_def fold_insertPrefix events_def)
qed

text \<open>The merge of all insertions at one digit sequence.\<close>

definition at_key :: "(bytes \<times> NumInfo) list \<Rightarrow> nat list \<Rightarrow> NumInfo list" where
  "at_key evs ds = map snd (filter (\<lambda>(num, _). KeypadNumber num = ds) evs)"

lemma at_keyE: "v \<in> set (at_key evs ds) \<Longrightarrow> \<exists>p. (p, v) \<in> set evs \<and> KeypadNumber p = ds"
  by (auto simp: at_key_def)

lemma merged_all:
  assumes "\<forall>v \<in> set vs. length (Geo v) = 1" and "vs \<noteq> []"
  shows "\<exists>info. fold (\<lambda>v cur. Some (merge_info cur v)) vs None = Some info
     \<and> nType info = nType (last vs) \<and> set (Geo info) = (\<Union>v \<in> set vs. set (Geo v)) \<and> distinct (Geo info)"
  using assms
proof (induction vs rule: rev_induct)
  case (snoc v vs)
  have v: "Geo v \<noteq> []" "distinct (Geo v)" using snoc.prems by (auto simp: length_Suc_conv)
  show ?case
  proof (cases "vs = []")
    case True
    then show ?thesis using v by (simp add: merge_info_def)
  next
    case False
    then obtain info where i: "fold (\<lambda>v cur. Some (merge_info cur v)) vs None = Some info"
      "set (Geo info) = (\<Union>v \<in> set vs. set (Geo v))" "distinct (Geo info)"
      using snoc by auto
    have "Geo w \<noteq> []" if "w \<in> set vs" for w using snoc.prems(1) that by fastforce
    then have "Geo info \<noteq> []" using i(2) False by (metis UN_iff last_in_set list.set_sel(1) empty_iff list.set(1))
    then show ?thesis using i v mergeGeo_spec by (auto simp: merge_info_def)
  qed
qed simp

lemma merged_None: "fold (\<lambda>v cur. Some (merge_info cur v)) vs None = None \<longleftrightarrow> vs = []"
  by (cases vs rule: rev_cases) auto

lemma events_single: "(p, info) \<in> set (events data) \<Longrightarrow> length (Geo info) = 1"
  by (auto simp: events_def entry_events_def newGroupInfo_def split: prod.splits option.splits if_splits)

lemma loaded:
  shows "trie_wf (phone_trie (loadData data))" and "contents (phone_trie (loadData data)) [] = None"
    and "contents (phone_trie (loadData data)) ds = fold (\<lambda>v cur. Some (merge_info cur v)) (at_key (events data) ds) None"
proof -
  note acc = trie.accumulate [of new_node merge_info "events data", OF trie_wf_new]
  show "trie_wf (phone_trie (loadData data))"
    "contents (phone_trie (loadData data)) ds = fold (\<lambda>v cur. Some (merge_info cur v)) (at_key (events data) ds) None"
    using acc by (simp_all add: loadData_events at_key_def contents_new)
  have "\<forall>(num, v) \<in> set (events data). KeypadNumber num \<noteq> []"
    by (auto simp: events_def dialable_iff)
  then show "contents (phone_trie (loadData data)) [] = None"
    using trie.accumulate_nonempty [of new_node "events data" merge_info, OF trie_wf_new]
    by (simp add: loadData_events contents_new)
qed

lemma status_nonneg: "matched t (KeypadNumber num) \<noteq> [] \<Longrightarrow> trie_wf t \<Longrightarrow> \<not> sint (snd (node_Get t num)) < 0"
  using node_Get_eq(2) [of t num] by (simp split: if_splits)

lemma NumberInfo_eq:
  "NumberInfo (loadData data) num =
     (case stored_prefix (contents (phone_trie (loadData data))) (KeypadNumber num) of
        None \<Rightarrow> Inl (ErrNoMatch num) | Some info \<Rightarrow> Inr info)"
proof -
  let ?t = "phone_trie (loadData data)"
  have g: "fst (node_Get ?t num) = stored_prefix (contents ?t) (KeypadNumber num)"
    by (rule trie.get_abs [OF loaded(1,2)])
  have "fst (node_Get ?t num) \<noteq> None \<Longrightarrow> \<not> sint (snd (node_Get ?t num)) < 0"
    using node_Get_eq(1) [OF loaded(1)] status_nonneg [OF _ loaded(1)] by (auto split: if_splits)
  then show ?thesis
    using g by (auto simp: NumberInfo_def cloneNumInfo_def split_beta split: option.splits)
qed

lemma stored_prefix_rel:
  "(\<And>p. rel_option R (m p) (m' p)) \<Longrightarrow> rel_option R (stored_prefix m ds) (stored_prefix m' ds)"
proof (induction ds arbitrary: m m')
  case (Cons i "is")
  have "rel_option R (stored_prefix (\<lambda>p. m (i # p)) is) (stored_prefix (\<lambda>p. m' (i # p)) is)"
    by (rule Cons.IH) (rule Cons.prems)
  then show ?case using Cons.prems [of "[]"] by (auto simp: option.rel_sel split: option.splits)
qed simp

text \<open>
  Two load orders of the same data: the same prefixes are stored, with the same areas; the
  type too, when the insertions at one prefix agree on it.
\<close>

definition same_info :: "bool \<Rightarrow> NumInfo \<Rightarrow> NumInfo \<Rightarrow> bool" where
  "same_info ty a b \<longleftrightarrow> set (Geo a) = set (Geo b) \<and> distinct (Geo a) \<and> distinct (Geo b) \<and> (ty \<longrightarrow> nType a = nType b)"

definition types_agree :: "(bytes \<times> NumInfo) list \<Rightarrow> bool" where
  "types_agree evs \<longleftrightarrow>
     (\<forall>(p, a) \<in> set evs. \<forall>(q, b) \<in> set evs. KeypadNumber p = KeypadNumber q \<longrightarrow> nType a = nType b)"

lemma types_agreeD:
  assumes "types_agree evs" and "(p, a) \<in> set evs" and "(q, b) \<in> set evs" and "KeypadNumber p = KeypadNumber q"
  shows "nType a = nType b"
  using bspec [OF bspec [OF assms(1) [unfolded types_agree_def] assms(2), unfolded prod.case] assms(3)] assms(4) by simp

lemma load_order:
  assumes "mset data = mset data'"
  shows "rel_option (same_info (types_agree (events data)))
     (contents (phone_trie (loadData data)) ds) (contents (phone_trie (loadData data')) ds)"
proof -
  have "mset (events data) = mset (events data')"
  proof -
    have "mset (concat (map entry_events data)) = mset (concat (map entry_events data'))"
    proof -
      have sum: "sum_list (map g xs) = sum_mset (image_mset g (mset xs))" for g :: "_ \<Rightarrow> (bytes \<times> NumInfo) multiset" and xs
        by (simp flip: sum_mset_sum_list)
      show ?thesis unfolding mset_concat map_map sum assms ..
    qed
    then show ?thesis by (simp add: events_def)
  qed
  then have ms: "set (events data) = set (events data')"
    "mset (at_key (events data) ds) = mset (at_key (events data') ds)"
    by (metis set_mset_mset) (use \<open>mset (events data) = mset (events data')\<close> in \<open>simp add: at_key_def\<close>)
  let ?v = "at_key (events data) ds" and ?w = "at_key (events data') ds"
  have vw: "set ?v = set ?w" using ms(2) by (metis set_mset_mset)
  have single: "\<forall>v \<in> set ?v. length (Geo v) = 1" "\<forall>v \<in> set ?w. length (Geo v) = 1"
    using events_single by (auto simp: at_key_def)
  show ?thesis
  proof (cases "?v = []")
    case True
    then show ?thesis using vw by (simp add: loaded(3))
  next
    case False
    then have w: "?w \<noteq> []" using vw by auto
    have "nType (last ?v) = nType (last ?w)" if "types_agree (events data)"
    proof -
      have "last ?v \<in> set ?v" "last ?w \<in> set ?v"
        using last_in_set [OF False] last_in_set [OF w] by (simp_all only: vw)
      then obtain p q where "(p, last ?v) \<in> set (events data)" "(q, last ?w) \<in> set (events data)"
        "KeypadNumber p = KeypadNumber q" using at_keyE by (metis (no_types))
      then show ?thesis by (rule types_agreeD [OF that])
    qed
    then show ?thesis
      using merged_all [OF single(1) False] merged_all [OF single(2) w] vw
      by (auto simp: loaded(3) same_info_def)
  qed
qed

end
