(* ===== verification/NT_Data.thy ===== *)
theory NT_Data
  imports NT_Phone
begin

text \<open>
  The embedded numbering dataset of \<^verbatim>\<open>pkg/countryphone\<close> (\<^verbatim>\<open>data.go\<close>), entry by entry in the order
  of the source, in three parts.
\<close>

definition grp :: "bytes \<Rightarrow> int \<Rightarrow> int \<Rightarrow> bytes list \<Rightarrow> InPrefixGroup" where
  "grp name ty pty ps = \<lparr>Name = name, gType = ty, PrefixType = pty, Prefixes = ps\<rparr>"

definition cdata :: "bytes \<Rightarrow> InPrefixGroup list \<Rightarrow> InCountryData option" where
  "cdata cc gs = Some \<lparr>CC = cc, Groups = gs\<rparr>"

definition defaultData1 :: InData where
  "defaultData1 = [
    (''AC'', cdata ''247'' []),
    (''AD'', cdata ''376'' []),
    (''AE'', cdata ''971'' []),
    (''AF'', cdata ''93'' []),
    (''AG'', cdata ''1'' [
      grp '''' 0 0 [''1268'']]),
    (''AI'', cdata ''1'' [
      grp '''' 0 0 [''1264'']]),
    (''AL'', cdata ''355'' []),
    (''AM'', cdata ''374'' []),
    (''AO'', cdata ''244'' []),
    (''AQ'', cdata ''672'' []),
    (''AR'', cdata ''54'' []),
    (''AS'', cdata ''1'' [
      grp '''' 0 0 [''1684'']]),
    (''AT'', cdata ''43'' []),
    (''AU'', cdata ''61'' []),
    (''AW'', cdata ''297'' []),
    (''AX'', cdata ''35818'' []),
    (''AZ'', cdata ''994'' []),
    (''BA'', cdata ''387'' []),
    (''BB'', cdata ''1'' [
      grp '''' 0 0 [''1246'']]),
    (''BD'', cdata ''880'' []),
    (''BE'', cdata ''32'' []),
    (''BF'', cdata ''226'' []),
    (''BG'', cdata ''359'' []),
    (''BH'', cdata ''973'' []),
    (''BI'', cdata ''257'' []),
    (''BJ'', cdata ''229'' []),
    (''BL'', cdata ''590'' []),
    (''BM'', cdata ''1'' [
      grp '''' 0 0 [''1441'']]),
    (''BN'', cdata ''673'' []),
    (''BO'', cdata ''591'' []),
    (''BQ'', cdata ''599'' []),
    (''BR'', cdata ''55'' []),
    (''BS'', cdata ''1'' [
      grp '''' 0 0 [''1242'']]),
    (''BT'', cdata ''975'' []),
    (''BV'', cdata ''47'' []),
    (''BW'', cdata ''267'' []),
    (''BY'', cdata ''375'' []),
    (''BZ'', cdata ''501'' []),
    (''CA'', cdata ''1'' [
      grp ''Alberta'' 2 1 [''1368'', ''1403'', ''1568'', ''1587'', ''1780'', ''1825''],
      grp ''British Columbia'' 2 1 [''1236'', ''1250'', ''1257'', ''1604'', ''1672'', ''1778''],
      grp ''Manitoba'' 2 1 [''1204'', ''1431'', ''1584''],
      grp ''New Brunswick'' 2 1 [''1428'', ''1506''],
      grp ''Newfoundland and Labrador'' 2 1 [''1709'', ''1879''],
      grp ''Northwest Territories'' 2 1 [''1867''],
      grp ''Nova Scotia'' 2 1 [''1782'', ''1851'', ''1902''],
      grp ''Nunavut'' 2 1 [''1867''],
      grp ''Ontario'' 2 1 [''1226'', ''1249'', ''1289'', ''1343'', ''1365'', ''1382'', ''1387'', ''1416'', ''1437'', ''1460'', ''1519'', ''1537'', ''1548'', ''1613'', ''1647'', ''1683'', ''1705'', ''1742'', ''1753'', ''1807'', ''1905'', ''1942''],
      grp ''Prince Edward Island'' 2 1 [''1782'', ''1902''],
      grp ''Quebec'' 2 1 [''1263'', ''1354'', ''1367'', ''1418'', ''1438'', ''1450'', ''1468'', ''1514'', ''1579'', ''1581'', ''1819'', ''1873''],
      grp ''Saskatchewan'' 2 1 [''1306'', ''1474'', ''1639''],
      grp ''Yukon'' 2 1 [''1867''],
      grp ''Canada special services'' 4 5 [''1600'', ''1622'', ''1633'', ''1644'', ''1655'', ''1677'', ''1688'']]),
    (''CC'', cdata ''61'' []),
    (''CD'', cdata ''243'' []),
    (''CF'', cdata ''236'' []),
    (''CG'', cdata ''242'' []),
    (''CH'', cdata ''41'' []),
    (''CI'', cdata ''225'' []),
    (''CK'', cdata ''682'' []),
    (''CL'', cdata ''56'' []),
    (''CM'', cdata ''237'' []),
    (''CN'', cdata ''86'' []),
    (''CO'', cdata ''57'' []),
    (''CR'', cdata ''506'' []),
    (''CU'', cdata ''53'' []),
    (''CV'', cdata ''238'' []),
    (''CW'', cdata ''599'' []),
    (''CX'', cdata ''61'' []),
    (''CY'', cdata ''357'' []),
    (''CZ'', cdata ''420'' []),
    (''DE'', cdata ''49'' []),
    (''DJ'', cdata ''253'' []),
    (''DK'', cdata ''45'' []),
    (''DM'', cdata ''1'' [
      grp '''' 0 0 [''1767'']]),
    (''DO'', cdata ''1'' [
      grp '''' 0 0 [''1809'', ''1829'', ''1849'']]),
    (''DZ'', cdata ''213'' []),
    (''EC'', cdata ''593'' []),
    (''EE'', cdata ''372'' []),
    (''EG'', cdata ''20'' []),
    (''EH'', cdata ''212'' []),
    (''ER'', cdata ''291'' []),
    (''ES'', cdata ''34'' []),
    (''ET'', cdata ''251'' []),
    (''FI'', cdata ''358'' []),
    (''FJ'', cdata ''679'' []),
    (''FK'', cdata ''500'' []),
    (''FM'', cdata ''691'' []),
    (''FO'', cdata ''298'' []),
    (''FR'', cdata ''33'' []),
    (''GA'', cdata ''241'' []),
    (''GB'', cdata ''44'' []),
    (''GD'', cdata ''1'' [
      grp '''' 0 0 [''1473'']]),
    (''GE'', cdata ''995'' []),
    (''GF'', cdata ''594'' []),
    (''GG'', cdata ''44'' []),
    (''GH'', cdata ''233'' []),
    (''GI'', cdata ''350'' []),
    (''GL'', cdata ''299'' []),
    (''GM'', cdata ''220'' []),
    (''GN'', cdata ''224'' []),
    (''GP'', cdata ''590'' []),
    (''GQ'', cdata ''240'' []),
    (''GR'', cdata ''30'' []),
    (''GS'', cdata ''500'' []),
    (''GT'', cdata ''502'' []),
    (''GU'', cdata ''1'' [
      grp '''' 0 0 [''1671'']]),
    (''GW'', cdata ''245'' []),
    (''GY'', cdata ''592'' []),
    (''HK'', cdata ''852'' []),
    (''HN'', cdata ''504'' []),
    (''HR'', cdata ''385'' []),
    (''HT'', cdata ''509'' []),
    (''HU'', cdata ''36'' []),
    (''ID'', cdata ''62'' []),
    (''IE'', cdata ''353'' []),
    (''IL'', cdata ''972'' []),
    (''IM'', cdata ''44'' []),
    (''IN'', cdata ''91'' []),
    (''IO'', cdata ''246'' []),
    (''IQ'', cdata ''964'' []),
    (''IR'', cdata ''98'' []),
    (''IS'', cdata ''354'' []),
    (''IT'', cdata ''39'' []),
    (''JE'', cdata ''44'' []),
    (''JM'', cdata ''1'' [
      grp '''' 0 0 [''1658'', ''1876'']])]"

definition defaultData2 :: InData where
  "defaultData2 = [
    (''JO'', cdata ''962'' []),
    (''JP'', cdata ''81'' []),
    (''KE'', cdata ''254'' []),
    (''KG'', cdata ''996'' []),
    (''KH'', cdata ''855'' []),
    (''KI'', cdata ''686'' []),
    (''KM'', cdata ''269'' []),
    (''KN'', cdata ''1'' [
      grp '''' 0 0 [''1869'']]),
    (''KP'', cdata ''850'' []),
    (''KR'', cdata ''82'' []),
    (''KW'', cdata ''965'' []),
    (''KY'', cdata ''1'' [
      grp '''' 0 0 [''1345'']]),
    (''KZ'', cdata ''7'' [
      grp '''' 0 0 [''76'', ''77'']]),
    (''LA'', cdata ''856'' []),
    (''LB'', cdata ''961'' []),
    (''LC'', cdata ''1'' [
      grp '''' 0 0 [''1758'']]),
    (''LI'', cdata ''423'' []),
    (''LK'', cdata ''94'' []),
    (''LR'', cdata ''231'' []),
    (''LS'', cdata ''266'' []),
    (''LT'', cdata ''370'' []),
    (''LU'', cdata ''352'' []),
    (''LV'', cdata ''371'' []),
    (''LY'', cdata ''218'' []),
    (''MA'', cdata ''212'' []),
    (''MC'', cdata ''377'' []),
    (''MD'', cdata ''373'' []),
    (''ME'', cdata ''382'' []),
    (''MF'', cdata ''590'' []),
    (''MG'', cdata ''261'' []),
    (''MH'', cdata ''692'' []),
    (''MK'', cdata ''389'' []),
    (''ML'', cdata ''223'' []),
    (''MM'', cdata ''95'' []),
    (''MN'', cdata ''976'' []),
    (''MO'', cdata ''853'' []),
    (''MP'', cdata ''1'' [
      grp '''' 0 0 [''1670'']]),
    (''MQ'', cdata ''596'' []),
    (''MR'', cdata ''222'' []),
    (''MS'', cdata ''1'' [
      grp '''' 0 0 [''1664'']]),
    (''MT'', cdata ''356'' []),
    (''MU'', cdata ''230'' []),
    (''MV'', cdata ''960'' []),
    (''MW'', cdata ''265'' []),
    (''MX'', cdata ''52'' []),
    (''MY'', cdata ''60'' []),
    (''MZ'', cdata ''258'' []),
    (''NA'', cdata ''264'' []),
    (''NC'', cdata ''687'' []),
    (''NE'', cdata ''227'' []),
    (''NF'', cdata ''672'' []),
    (''NG'', cdata ''234'' []),
    (''NI'', cdata ''505'' []),
    (''NL'', cdata ''31'' []),
    (''NO'', cdata ''47'' []),
    (''NP'', cdata ''977'' []),
    (''NR'', cdata ''674'' []),
    (''NU'', cdata ''683'' []),
    (''NZ'', cdata ''64'' []),
    (''OM'', cdata ''968'' []),
    (''PA'', cdata ''507'' []),
    (''PE'', cdata ''51'' []),
    (''PF'', cdata ''689'' []),
    (''PG'', cdata ''675'' []),
    (''PH'', cdata ''63'' []),
    (''PK'', cdata ''92'' []),
    (''PL'', cdata ''48'' []),
    (''PM'', cdata ''508'' []),
    (''PN'', cdata ''64'' []),
    (''PR'', cdata ''1'' [
      grp '''' 0 0 [''1787'', ''1939'']]),
    (''PS'', cdata ''970'' []),
    (''PT'', cdata ''351'' []),
    (''PW'', cdata ''680'' []),
    (''PY'', cdata ''595'' []),
    (''QA'', cdata ''974'' []),
    (''RE'', cdata ''262'' []),
    (''RO'', cdata ''40'' []),
    (''RS'', cdata ''381'' []),
    (''RU'', cdata ''7'' [
      grp '''' 0 0 [''71'', ''73'', ''74'', ''75'', ''78'', ''79'']]),
    (''RW'', cdata ''250'' []),
    (''SA'', cdata ''966'' []),
    (''SB'', cdata ''677'' []),
    (''SC'', cdata ''248'' []),
    (''SD'', cdata ''249'' []),
    (''SE'', cdata ''46'' []),
    (''SG'', cdata ''65'' []),
    (''SH'', cdata ''290'' []),
    (''SI'', cdata ''386'' []),
    (''SJ'', cdata ''47'' []),
    (''SK'', cdata ''421'' []),
    (''SL'', cdata ''232'' []),
    (''SM'', cdata ''378'' []),
    (''SN'', cdata ''221'' []),
    (''SO'', cdata ''252'' []),
    (''SR'', cdata ''597'' []),
    (''SS'', cdata ''211'' []),
    (''ST'', cdata ''239'' []),
    (''SV'', cdata ''503'' []),
    (''SX'', cdata ''1'' [
      grp '''' 0 0 [''1721'']]),
    (''SY'', cdata ''963'' []),
    (''SZ'', cdata ''268'' []),
    (''TA'', cdata ''290'' []),
    (''TC'', cdata ''1'' [
      grp '''' 0 0 [''1649'']])]"

definition defaultData3 :: InData where
  "defaultData3 = [
    (''TD'', cdata ''235'' []),
    (''TF'', cdata ''262'' []),
    (''TG'', cdata ''228'' []),
    (''TH'', cdata ''66'' []),
    (''TJ'', cdata ''992'' []),
    (''TK'', cdata ''690'' []),
    (''TL'', cdata ''670'' []),
    (''TM'', cdata ''993'' []),
    (''TN'', cdata ''216'' []),
    (''TO'', cdata ''676'' []),
    (''TR'', cdata ''90'' []),
    (''TT'', cdata ''1'' [
      grp '''' 0 0 [''1868'']]),
    (''TV'', cdata ''688'' []),
    (''TW'', cdata ''886'' []),
    (''TZ'', cdata ''255'' []),
    (''UA'', cdata ''380'' []),
    (''UG'', cdata ''256'' []),
    (''UN'', cdata ''888'' []),
    (''US'', cdata ''1'' [
      grp ''Alabama'' 1 1 [''1205'', ''1251'', ''1256'', ''1334'', ''1483'', ''1659'', ''1938''],
      grp ''Alaska'' 1 1 [''1907''],
      grp ''Arizona'' 1 1 [''1480'', ''1520'', ''1602'', ''1623'', ''1928''],
      grp ''Arkansas'' 1 1 [''1327'', ''1479'', ''1501'', ''1870''],
      grp ''California'' 1 1 [''1209'', ''1213'', ''1279'', ''1310'', ''1323'', ''1341'', ''1350'', ''1357'', ''1369'', ''1408'', ''1415'', ''1424'', ''1442'', ''1510'', ''1530'', ''1559'', ''1562'', ''1619'', ''1626'', ''1628'', ''1650'', ''1657'', ''1661'', ''1669'', ''1707'', ''1714'', ''1738'', ''1747'', ''1760'', ''1805'', ''1818'', ''1820'', ''1831'', ''1837'', ''1840'', ''1858'', ''1909'', ''1916'', ''1925'', ''1949'', ''1951''],
      grp ''Colorado'' 1 1 [''1303'', ''1719'', ''1720'', ''1748'', ''1970'', ''1983''],
      grp ''Connecticut'' 1 1 [''1203'', ''1475'', ''1860'', ''1959''],
      grp ''Delaware'' 1 1 [''1302''],
      grp ''District of Columbia'' 1 1 [''1202'', ''1771''],
      grp ''Florida'' 1 1 [''1239'', ''1305'', ''1321'', ''1324'', ''1352'', ''1386'', ''1407'', ''1448'', ''1561'', ''1645'', ''1656'', ''1689'', ''1727'', ''1728'', ''1754'', ''1772'', ''1786'', ''1813'', ''1850'', ''1863'', ''1904'', ''1941'', ''1954''],
      grp ''Georgia'' 1 1 [''1229'', ''1404'', ''1470'', ''1478'', ''1678'', ''1706'', ''1762'', ''1770'', ''1912'', ''1943''],
      grp ''Hawaii'' 1 1 [''1808''],
      grp ''Idaho'' 1 1 [''1208'', ''1986''],
      grp ''Illinois'' 1 1 [''1217'', ''1224'', ''1309'', ''1312'', ''1331'', ''1447'', ''1464'', ''1618'', ''1630'', ''1708'', ''1730'', ''1773'', ''1779'', ''1815'', ''1847'', ''1861'', ''1872''],
      grp ''Indiana'' 1 1 [''1219'', ''1260'', ''1317'', ''1463'', ''1574'', ''1765'', ''1812'', ''1930''],
      grp ''Iowa'' 1 1 [''1319'', ''1515'', ''1563'', ''1641'', ''1712''],
      grp ''Kansas'' 1 1 [''1316'', ''1620'', ''1785'', ''1913''],
      grp ''Kentucky'' 1 1 [''1270'', ''1364'', ''1502'', ''1606'', ''1859''],
      grp ''Louisiana'' 1 1 [''1225'', ''1318'', ''1337'', ''1457'', ''1504'', ''1985''],
      grp ''Maine'' 1 1 [''1207''],
      grp ''Maryland'' 1 1 [''1227'', ''1240'', ''1301'', ''1410'', ''1443'', ''1667''],
      grp ''Massachusetts'' 1 1 [''1339'', ''1351'', ''1413'', ''1508'', ''1617'', ''1774'', ''1781'', ''1857'', ''1978''],
      grp ''Michigan'' 1 1 [''1231'', ''1248'', ''1269'', ''1313'', ''1517'', ''1586'', ''1616'', ''1679'', ''1734'', ''1810'', ''1906'', ''1947'', ''1989''],
      grp ''Minnesota'' 1 1 [''1218'', ''1320'', ''1507'', ''1612'', ''1651'', ''1763'', ''1924'', ''1952''],
      grp ''Mississippi'' 1 1 [''1228'', ''1471'', ''1601'', ''1662'', ''1769''],
      grp ''Missouri'' 1 1 [''1235'', ''1314'', ''1417'', ''1557'', ''1573'', ''1636'', ''1660'', ''1816'', ''1975''],
      grp ''Montana'' 1 1 [''1406''],
      grp ''Nebraska'' 1 1 [''1308'', ''1402'', ''1531''],
      grp ''Nevada'' 1 1 [''1702'', ''1725'', ''1775''],
      grp ''New Hampshire'' 1 1 [''1603''],
      grp ''New Jersey'' 1 1 [''1201'', ''1551'', ''1609'', ''1640'', ''1732'', ''1848'', ''1856'', ''1862'', ''1908'', ''1973''],
      grp ''New Mexico'' 1 1 [''1505'', ''1575''],
      grp ''New York'' 1 1 [''1212'', ''1315'', ''1329'', ''1332'', ''1347'', ''1363'', ''1516'', ''1518'', ''1585'', ''1607'', ''1624'', ''1631'', ''1646'', ''1680'', ''1716'', ''1718'', ''1838'', ''1845'', ''1914'', ''1917'', ''1929'', ''1934''],
      grp ''North Carolina'' 1 1 [''1252'', ''1336'', ''1472'', ''1704'', ''1743'', ''1828'', ''1910'', ''1919'', ''1980'', ''1984''],
      grp ''North Dakota'' 1 1 [''1701''],
      grp ''Ohio'' 1 1 [''1216'', ''1220'', ''1234'', ''1283'', ''1326'', ''1330'', ''1380'', ''1419'', ''1436'', ''1440'', ''1513'', ''1567'', ''1614'', ''1740'', ''1937''],
      grp ''Oklahoma'' 1 1 [''1405'', ''1539'', ''1572'', ''1580'', ''1918''],
      grp ''Oregon'' 1 1 [''1458'', ''1503'', ''1541'', ''1971''],
      grp ''Pennsylvania'' 1 1 [''1215'', ''1223'', ''1267'', ''1272'', ''1412'', ''1445'', ''1484'', ''1570'', ''1582'', ''1610'', ''1717'', ''1724'', ''1814'', ''1835'', ''1878''],
      grp ''Rhode Island'' 1 1 [''1401''],
      grp ''South Carolina'' 1 1 [''1803'', ''1821'', ''1839'', ''1843'', ''1854'', ''1864''],
      grp ''South Dakota'' 1 1 [''1605''],
      grp ''Tennessee'' 1 1 [''1423'', ''1615'', ''1629'', ''1731'', ''1865'', ''1901'', ''1931''],
      grp ''Texas'' 1 1 [''1210'', ''1214'', ''1254'', ''1281'', ''1325'', ''1346'', ''1361'', ''1409'', ''1430'', ''1432'', ''1469'', ''1512'', ''1621'', ''1682'', ''1713'', ''1726'', ''1737'', ''1806'', ''1817'', ''1830'', ''1832'', ''1903'', ''1915'', ''1936'', ''1940'', ''1945'', ''1956'', ''1972'', ''1979''],
      grp ''Utah'' 1 1 [''1385'', ''1435'', ''1801''],
      grp ''Vermont'' 1 1 [''1802''],
      grp ''Virginia'' 1 1 [''1276'', ''1434'', ''1540'', ''1571'', ''1686'', ''1703'', ''1757'', ''1804'', ''1826'', ''1948''],
      grp ''Washington'' 1 1 [''1206'', ''1253'', ''1360'', ''1425'', ''1509'', ''1564''],
      grp ''West Virginia'' 1 1 [''1304'', ''1681''],
      grp ''Wisconsin'' 1 1 [''1262'', ''1274'', ''1353'', ''1414'', ''1534'', ''1608'', ''1715'', ''1920''],
      grp ''Wyoming'' 1 1 [''1307''],
      grp ''Midway Atoll, Wake Island, Hawaii'' 1 1 [''1808''],
      grp ''US government'' 4 5 [''1710'']]),
    (''UY'', cdata ''598'' []),
    (''UZ'', cdata ''998'' []),
    (''VA'', cdata ''39'' [
      grp ''Vatican City'' 0 1 [''3906698''],
      grp '''' 0 0 [''379'']]),
    (''VC'', cdata ''1'' [
      grp '''' 0 0 [''1784'']]),
    (''VE'', cdata ''58'' []),
    (''VG'', cdata ''1'' [
      grp '''' 0 0 [''1284'']]),
    (''VI'', cdata ''1'' [
      grp '''' 0 0 [''1340'']]),
    (''VN'', cdata ''84'' []),
    (''VU'', cdata ''678'' []),
    (''WF'', cdata ''681'' []),
    (''WS'', cdata ''685'' []),
    (''XK'', cdata ''383'' []),
    (''YE'', cdata ''967'' []),
    (''YT'', cdata ''262'' []),
    (''ZA'', cdata ''27'' []),
    (''ZM'', cdata ''260'' []),
    (''ZW'', cdata ''263'' []),
    (''__'', cdata '''' [
      grp ''Universal International Freephone Service'' 4 5 [''800''],
      grp ''Universal International Shared Cost Number'' 4 5 [''808''],
      grp ''Inmarsat'' 4 5 [''870''],
      grp ''Universal Personal Telecommunications'' 4 5 [''878''],
      grp ''Global Mobile Satellite System'' 4 5 [''881''],
      grp ''International Networks'' 4 5 [''882'', ''883''],
      grp ''International premium rate service'' 4 5 [''979''],
      grp ''International Telecommunications Public Correspondence Service'' 4 5 [''991'']])]"

definition defaultData :: InData where
  "defaultData = defaultData1 @ defaultData2 @ defaultData3"

text \<open>\<^verbatim>\<open>New\<close>, where nil data stand for the embedded ones.\<close>

definition phone_New :: "InData option \<Rightarrow> phone_data" where
  "phone_New data = loadData (case data of None \<Rightarrow> defaultData | Some d \<Rightarrow> d)"

definition valid_entry :: "bytes \<times> InCountryData option \<Rightarrow> bool" where
  "valid_entry e \<longleftrightarrow> (case snd e of None \<Rightarrow> True
     | Some c \<Rightarrow> (\<forall>g \<in> set (Groups c). 0 \<le> PrefixType g \<and> PrefixType g < 8 \<and> 0 \<le> gType g \<and> gType g < 6))"

lemma defaultData1_valid: "list_all valid_entry defaultData1"
  by code_simp

lemma defaultData2_valid: "list_all valid_entry defaultData2"
  by code_simp

lemma defaultData3_valid: "list_all valid_entry defaultData3"
  by code_simp

lemma defaultData_valid: "\<forall>e \<in> set defaultData. valid_entry e"
  using defaultData1_valid defaultData2_valid defaultData3_valid
  by (auto simp: defaultData_def list_all_iff)

end
