(* ===== verification/NT_Props.thy ===== *)
theory NT_Props
  imports NT_Data
begin

text \<open>
  The properties of \<^verbatim>\<open>pkg/phonekeypad\<close>, \<^verbatim>\<open>pkg/numtrie\<close> and \<^verbatim>\<open>pkg/countryphone\<close>.
\<close>

section \<open>Keypad\<close>

text \<open>
  The keypad number of a string is stable: converting it to its digit string and
  converting that again gives the same digits, all of them below ten; the digit string is
  its own digit string.
\<close>

theorem keypad_roundtrip:
  "KeypadNumber (KeypadNumberString num) = KeypadNumber num
   \<and> KeypadNumberString (KeypadNumberString num) = KeypadNumberString num
   \<and> list_all (\<lambda>d. d < indexSize) (KeypadNumber num)"
proof -
  have "\<forall>v \<in> set (keypad_loop (runes num)). v < 10" using keypad_loop_range by blast
  then have "keypad_loop (runes (keypad_string_loop (runes num))) = keypad_loop (runes num)"
    unfolding keypad_string by (rule runes_digits)
  then show ?thesis
    using keypad_range_all by (simp add: KeypadNumber_def KeypadNumberString_def keypad_string list_all_iff)
qed

section \<open>The trie\<close>

text \<open>
  C24. Adding refines map update: on a well-formed trie \<^verbatim>\<open>Add\<close> keeps well-formedness, changes
  the value at the digits of the key and nothing else, and reports whether the key was free;
  \<^verbatim>\<open>GetExact\<close> reads the map, for any spelling of the key; a nil value is a no-op.
\<close>

theorem trie_refines_map:
  assumes "trie_wf t"
  shows "trie_wf (fst (node_Add num (Some v) t))
    \<and> contents (fst (node_Add num (Some v) t)) = (contents t)(KeypadNumber num \<mapsto> v)
    \<and> snd (node_Add num (Some v) t) = (GetExact t num = None)
    \<and> GetExact (fst (node_Add num (Some v) t)) num' = (if KeypadNumber num' = KeypadNumber num then Some v else GetExact t num')
    \<and> node_Add num None t = (t, False)"
  using trie.ok_add [OF assms] trie.abs_add [OF assms] trie.exact_abs [OF assms] trie.exact_abs [OF trie.ok_add [OF assms]]
    add_snd [OF assms, of "runes num" v]
  by (auto simp: node_Add_def KeypadNumber_def)

theorem trie_refines_map_witness:
  "GetExact (fst (node_Add ''1-800'' (Some (7 :: nat)) new_node)) ''1800'' = Some 7"
proof -
  have k: "KeypadNumber ''1800'' = KeypadNumber ''1-800''" by code_simp
  have "GetExact (fst (node_Add ''1-800'' (Some (7 :: nat)) new_node)) ''1800''
      = (if KeypadNumber ''1800'' = KeypadNumber ''1-800'' then Some 7 else GetExact new_node ''1800'')"
    by (intro trie_refines_map [OF trie_wf_new, THEN conjunct2, THEN conjunct2, THEN conjunct2, THEN conjunct1])
  then show ?thesis using k by simp
qed

text \<open>
  C25. \<^verbatim>\<open>Get\<close> is longest-prefix lookup: with \<open>p\<close> the longest prefix of the input digits that
  some stored key extends, the value is that of the longest stored prefix of the input, the
  sign is set iff \<open>p\<close> is empty, bit 1 iff digits were left over, bit 0 iff a longer key
  extends \<open>p\<close>; and a leaf status always carries a value.
\<close>

theorem trie_get_longest_prefix:
  assumes "trie_wf t" and "node_Get t num = (val, status)"
  shows "\<exists>p. prefix p (KeypadNumber num)
    \<and> (\<forall>q. prefix q (KeypadNumber num) \<longrightarrow> (reaches t q \<longleftrightarrow> prefix q p))
    \<and> val = (if p = [] then None
             else case filter (\<lambda>q. contents t q \<noteq> None) (rev (prefixes (KeypadNumber num))) of
                    [] \<Rightarrow> None | q # _ \<Rightarrow> contents t q)
    \<and> status = (if p = [] then (if KeypadNumber num = [] then StatusMatchEmpty else StatusMatchNo)
        else (if p = KeypadNumber num then 0 else 2)
             OR (if \<exists>k. contents t k \<noteq> None \<and> strict_prefix p k then 1 else 0))
    \<and> (status \<in> {StatusMatchFull, StatusMatchPrefix} \<longrightarrow> val \<noteq> None)"
proof -
  let ?ds = "KeypadNumber num" and ?p = "matched t (KeypadNumber num)"
  note eqs = node_Get_eq [OF assms(1), of num, unfolded assms(2) fst_conv snd_conv]
  have val: "val \<noteq> None" if leaf: "status \<in> {StatusMatchFull, StatusMatchPrefix}"
  proof -
    have ne: "?p \<noteq> []"
      using leaf eqs(2)
      by (auto simp: StatusMatchFull_def StatusMatchPrefix_def StatusMatchEmpty_def StatusMatchNo_def split: if_splits)
    have "\<nexists>k. contents t k \<noteq> None \<and> strict_prefix ?p k"
      using leaf eqs(2) ne by (auto simp: StatusMatchFull_def StatusMatchPrefix_def split: if_splits)
    moreover have "reaches t ?p" using matched_reaches [OF assms(1) matched_prefix] by blast
    ultimately have "contents t ?p \<noteq> None" using ne by (metis reaches_def prefix_order.le_neq_trans)
    then have "stored_prefix (contents t) ?ds \<noteq> None" using stored_prefix_None matched_prefix by metis
    then show ?thesis using eqs(1) ne by simp
  qed
  show ?thesis
    using matched_prefix [of t ?ds] matched_reaches [OF assms(1), of _ num] eqs val
    by (intro exI [of _ ?p]) (simp add: stored_prefix_spec)
qed

theorem trie_get_longest_prefix_witness:
  "let t = fst (node_Add ''44'' (Some ''uk'') new_node)
   in \<exists>p. prefix p (KeypadNumber ''4420'') \<and> reaches t p \<and> node_Get t ''4420'' = (Some ''uk'', StatusMatchPrefix)"
proof -
  let ?t = "fst (node_Add ''44'' (Some ''uk'') new_node)"
  have wf: "trie_wf ?t" by (rule trie.ok_add [OF trie_wf_new])
  have get: "node_Get ?t ''4420'' = (Some ''uk'', StatusMatchPrefix)" by code_simp
  obtain p where "prefix p (KeypadNumber ''4420'')"
    "\<forall>q. prefix q (KeypadNumber ''4420'') \<longrightarrow> (reaches ?t q \<longleftrightarrow> prefix q p)"
    using trie_get_longest_prefix [OF wf get] by blast
  then show ?thesis using get by (auto simp: Let_def)
qed

section \<open>Phone numbers\<close>

text \<open>
  \<^verbatim>\<open>NumberInfo\<close> returns the data loaded at the longest loaded prefix of the number, and
  \<^verbatim>\<open>ErrNoMatch\<close> exactly when no prefix of its digits was loaded: nothing is ever stored at the
  empty key.
\<close>

theorem number_info_spec:
  "(NumberInfo (loadData data) num = Inl (ErrNoMatch num)
      \<longleftrightarrow> list_all (\<lambda>p. at_key (events data) p = []) (prefixes (KeypadNumber num)))
   \<and> NumberInfo (loadData data) num =
       (case stored_prefix (\<lambda>ds. fold (\<lambda>v cur. Some (merge_info cur v)) (at_key (events data) ds) None)
               (KeypadNumber num) of
          None \<Rightarrow> Inl (ErrNoMatch num) | Some info \<Rightarrow> Inr info)"
proof -
  have c: "contents (phone_trie (loadData data))
      = (\<lambda>ds. fold (\<lambda>v cur. Some (merge_info cur v)) (at_key (events data) ds) None)"
    using loaded(3) by blast
  let ?m = "\<lambda>ds. fold (\<lambda>v cur. Some (merge_info cur v)) (at_key (events data) ds) None"
  have "stored_prefix ?m (KeypadNumber num) = None
      \<longleftrightarrow> list_all (\<lambda>p. at_key (events data) p = []) (prefixes (KeypadNumber num))"
    by (simp only: stored_prefix_None merged_None list_all_iff in_set_prefixes Ball_def)
  then show ?thesis unfolding NumberInfo_eq c by (cases "stored_prefix ?m (KeypadNumber num)") simp_all
qed

text \<open>
  C27. What a lookup owes to the order in which the map of countries is ranged over. Two loads
  of the same data give both no match, or the same areas without repetition, in an order that
  may differ; and the same type of number provided that the entries of every shared prefix
  agree on the type (\<open>types_agree\<close>). Without that proviso the type does depend on the order,
  see \<open>number_type_order_dependent\<close> below.
\<close>

theorem number_info_order:
  assumes "mset data = mset data'"
  shows "case (NumberInfo (loadData data) num, NumberInfo (loadData data') num) of
      (Inl e, Inl e') \<Rightarrow> e = e'
    | (Inr a, Inr b) \<Rightarrow> set (Geo a) = set (Geo b) \<and> distinct (Geo a) \<and> distinct (Geo b)
        \<and> (types_agree (events data) \<longrightarrow> nType a = nType b)
    | _ \<Rightarrow> False"
proof -
  have "rel_option (same_info (types_agree (events data)))
      (stored_prefix (contents (phone_trie (loadData data))) (KeypadNumber num))
      (stored_prefix (contents (phone_trie (loadData data'))) (KeypadNumber num))"
    by (rule stored_prefix_rel) (rule load_order [OF assms])
  then show ?thesis
    by (cases rule: option.rel_cases) (simp_all add: NumberInfo_eq same_info_def)
qed

theorem number_info_order_witness:
  "case (NumberInfo (loadData [(''US'', cdata ''1'' []), (''CA'', cdata ''1'' [])]) ''1'',
         NumberInfo (loadData [(''CA'', cdata ''1'' []), (''US'', cdata ''1'' [])]) ''1'') of
     (Inr a, Inr b) \<Rightarrow> set (Geo a) = set (Geo b) \<and> Geo a \<noteq> Geo b | _ \<Rightarrow> False"
proof -
  let ?d = "[(''US'', cdata ''1'' []), (''CA'', cdata ''1'' [])]" and ?e = "[(''CA'', cdata ''1'' []), (''US'', cdata ''1'' [])]"
  obtain a b where ab: "NumberInfo (loadData ?d) ''1'' = Inr a" "NumberInfo (loadData ?e) ''1'' = Inr b" "Geo a \<noteq> Geo b"
  proof -
    have "case (NumberInfo (loadData ?d) ''1'', NumberInfo (loadData ?e) ''1'') of
        (Inr a, Inr b) \<Rightarrow> Geo a \<noteq> Geo b | _ \<Rightarrow> False" by code_simp
    then show thesis using that by (auto split: sum.splits)
  qed
  have "mset ?d = mset ?e" by simp
  then show ?thesis using number_info_order [of ?d ?e "''1''"] ab by simp
qed

text \<open>
  Two areas that share the calling code 1, the second with a group for the bare code of type 2:
  the type of the number 1 is 2 or 0, as the second or the first is visited last.
\<close>

definition untyped_first :: InData where
  "untyped_first = [(''US'', cdata ''1'' []),
     (''CA'', cdata ''1'' [\<lparr>Name = ''x'', gType = 0, PrefixType = 2, Prefixes = []\<rparr>])]"

lemma number_type_order_dependent:
  "mset (rev untyped_first) = mset untyped_first
   \<and> (case (NumberInfo (loadData untyped_first) ''1'', NumberInfo (loadData (rev untyped_first)) ''1'') of
        (Inr a, Inr b) \<Rightarrow> nType a = 2 \<and> nType b = 0 | _ \<Rightarrow> False)"
proof
  show "mset (rev untyped_first) = mset untyped_first" by simp
qed code_simp

lemma events_valid:
  assumes "\<forall>e \<in> set data. valid_entry e" and "(p, info) \<in> set (events data)"
  shows "0 \<le> nType info \<and> nType info < 8 \<and> (\<forall>g \<in> set (Geo info). 0 \<le> aType g \<and> aType g < 6)"
  using assms
  by (fastforce simp: events_def entry_events_def newGroupInfo_def valid_entry_def
      split: prod.splits option.splits if_splits)

lemma stored_valid:
  assumes "\<forall>e \<in> set data. valid_entry e"
    and "contents (phone_trie (loadData data)) ds = Some info"
  shows "0 \<le> nType info \<and> nType info < 8 \<and> (\<forall>g \<in> set (Geo info). 0 \<le> aType g \<and> aType g < 6)"
proof -
  let ?v = "at_key (events data) ds"
  have ev: "\<exists>p. (p, v) \<in> set (events data)" if "v \<in> set ?v" for v using at_keyE [OF that] by blast
  have single: "\<forall>v \<in> set ?v. length (Geo v) = 1" using ev events_single by blast
  have ne: "?v \<noteq> []" using assms(2) by (auto simp: loaded(3))
  have info: "nType info = nType (last ?v)" "set (Geo info) = (\<Union>v \<in> set ?v. set (Geo v))"
    using merged_all [OF single ne] assms(2) by (auto simp: loaded(3))
  show ?thesis using info ev events_valid [OF assms(1)] last_in_set [OF ne] by (metis UN_E)
qed

lemma stored_prefix_in: "stored_prefix m ds = Some v \<Longrightarrow> \<exists>p. m p = Some v"
  by (induction ds arbitrary: m) (auto split: option.splits)

text \<open>
  With the embedded dataset, loaded in any order, the type codes of every result have a
  label: \<^verbatim>\<open>NumberType\<close> and \<^verbatim>\<open>AreaType\<close> never fail on what \<^verbatim>\<open>NumberInfo\<close> returns.
\<close>

theorem default_labels:
  assumes "mset data = mset defaultData" and "NumberInfo (loadData data) num = Inr info"
  shows "(\<exists>l. NumberType (nType info) = Inr l) \<and> (\<forall>g \<in> set (Geo info). \<exists>l. AreaType (aType g) = Inr l)"
proof -
  have "set data = set defaultData" using assms(1) by (metis set_mset_mset)
  then have "\<forall>e \<in> set data. valid_entry e" using defaultData_valid by simp
  moreover obtain ds where "contents (phone_trie (loadData data)) ds = Some info"
    using assms(2) stored_prefix_in by (fastforce simp: NumberInfo_eq split: option.splits)
  ultimately show ?thesis
    using stored_valid by (fastforce simp: NumberType_def AreaType_def enumNumberType_def enumAreaType_def)
qed

theorem default_labels_witness:
  "\<exists>info. NumberInfo (loadData defaultData) ''44'' = Inr info \<and> (\<exists>l. NumberType (nType info) = Inr l)"
proof -
  have "list_ex (\<lambda>(a2, c). case c of None \<Rightarrow> False | Some c \<Rightarrow> CC c = ''44'') defaultData1" by code_simp
  then obtain a2 c where "(a2, Some c) \<in> set defaultData1" "CC c = ''44''"
    by (auto simp: list_ex_iff split: option.splits)
  then have "\<exists>v. (''44'', v) \<in> set (concat (map entry_events defaultData))"
    by (fastforce simp: defaultData_def entry_events_def)
  moreover have "hasDialableDigit ''44''" by code_simp
  ultimately obtain v where v: "(''44'', v) \<in> set (events defaultData)" by (auto simp: events_def)
  then have "v \<in> set (at_key (events defaultData) (KeypadNumber ''44''))" by (force simp: at_key_def)
  then have "contents (phone_trie (loadData defaultData)) (KeypadNumber ''44'') \<noteq> None"
    unfolding loaded(3) merged_None by force
  then have "stored_prefix (contents (phone_trie (loadData defaultData))) (KeypadNumber ''44'') \<noteq> None"
    using prefix_order.refl by (metis stored_prefix_None)
  then obtain info where info: "NumberInfo (loadData defaultData) ''44'' = Inr info"
    unfolding NumberInfo_eq by (metis option.case_eq_if)
  show ?thesis using default_labels [OF refl info] info by blast
qed

end
