(* ===== verification/Go_Strconv.thy ===== *)
theory Go_Strconv
  imports Go_Utf8
begin

text \<open>The parsers of \<^verbatim>\<open>strconv\<close> for decimal 64-bit integers.\<close>

text \<open>\<^verbatim>\<open>strconv.ParseUint(s, 10, 64)\<close> and \<^verbatim>\<open>ParseInt\<close>; \<open>None\<close> is an error.\<close>

fun digits_val :: "bytes \<Rightarrow> nat \<Rightarrow> nat option" where
  "digits_val [] acc = Some acc"
| "digits_val (c # cs) acc =
     (if 48 \<le> byte_val c \<and> byte_val c \<le> 57 then digits_val cs (acc * 10 + (byte_val c - 48)) else None)"

definition ParseUint :: "bytes \<Rightarrow> nat option" where
  "ParseUint s = (if s = [] then None
     else case digits_val s 0 of Some n \<Rightarrow> if n < 2 ^ 64 then Some n else None | None \<Rightarrow> None)"

definition ParseInt :: "bytes \<Rightarrow> int option" where
  "ParseInt s =
     (let neg = (s \<noteq> [] \<and> hd s = CHR ''-'');
          body = (if s \<noteq> [] \<and> (hd s = CHR ''-'' \<or> hd s = CHR ''+'') then tl s else s)
      in case ParseUint body of
           None \<Rightarrow> None
         | Some n \<Rightarrow>
             if neg then (if n \<le> 2 ^ 63 then Some (- int n) else None)
             else (if n < 2 ^ 63 then Some (int n) else None))"

end
