(* ===== verification/Go_Float.thy ===== *)
theory Go_Float
  imports Complex_Main "HOL-Library.Log_Nat"
begin

text \<open>
  The \<^verbatim>\<open>float64\<close> arithmetic the packages use: comparison, conversion from integers,
  multiplication and truncation. A \<^verbatim>\<open>float64\<close> is a rational, an infinity or NaN; the two zeros
  are one value, which no operation used here tells apart. Every arithmetic result is the
  exact one rounded to 53 significant bits, ties to even, with the exponent range of the type.
  The lemmas show that rounding is exact on representable values and never crosses one.
\<close>

section \<open>Values and comparison\<close>

datatype float64 = NaN | Inf bool | Fin rat

definition IsNaN :: "float64 \<Rightarrow> bool" where
  "IsNaN x \<longleftrightarrow> x = NaN"

fun float_less :: "float64 \<Rightarrow> float64 \<Rightarrow> bool" where
  "float_less (Fin a) (Fin b) = (a < b)"
| "float_less (Inf neg) (Fin b) = neg"
| "float_less (Fin a) (Inf neg) = (\<not> neg)"
| "float_less (Inf n) (Inf m) = (n \<and> \<not> m)"
| "float_less _ _ = False"

section \<open>Rounding\<close>

text \<open>The exponent of the leading bit of a positive rational.\<close>

definition lead :: "rat \<Rightarrow> int" where
  "lead x =
     (let (a, b) = quotient_of x; k = int (floorlog 2 (nat a)) - int (floorlog 2 (nat b))
      in if 2 powi k \<le> x then k else k - 1)"

text \<open>The exponent of the last of 53 bits, not below that of the least subnormal.\<close>

definition last_place :: "rat \<Rightarrow> int" where
  "last_place x = max (lead x - 52) (- 1074)"

definition half_even :: "rat \<Rightarrow> int" where
  "half_even q =
     (let r = q - of_int \<lfloor>q\<rfloor> in
      if 1 / 2 < r \<or> (r = 1 / 2 \<and> odd \<lfloor>q\<rfloor>) then \<lfloor>q\<rfloor> + 1 else \<lfloor>q\<rfloor>)"

definition round_pos :: "rat \<Rightarrow> rat" where
  "round_pos x = of_int (half_even (x / 2 powi last_place x)) * 2 powi last_place x"

definition fround :: "rat \<Rightarrow> float64" where
  "fround x =
     (if x = 0 then Fin 0
      else if 2 ^ 1024 \<le> round_pos \<bar>x\<bar> then Inf (x < 0)
      else Fin (sgn x * round_pos \<bar>x\<bar>))"

definition float_of_int :: "int \<Rightarrow> float64" where
  "float_of_int n = fround (of_int n)"

fun float_mul :: "float64 \<Rightarrow> float64 \<Rightarrow> float64" where
  "float_mul (Fin a) (Fin b) = fround (a * b)"
| "float_mul (Inf s) (Fin b) = (if b = 0 then NaN else Inf (s \<noteq> (b < 0)))"
| "float_mul (Fin a) (Inf s) = (if a = 0 then NaN else Inf (s \<noteq> (a < 0)))"
| "float_mul (Inf s) (Inf t) = Inf (s \<noteq> t)"
| "float_mul _ _ = NaN"

text \<open>\<^verbatim>\<open>int64(f)\<close> of a value in range drops the fraction; out of range Go leaves it open.\<close>

fun float_trunc :: "float64 \<Rightarrow> int option" where
  "float_trunc (Fin a) =
     (let n = (if a < 0 then - \<lfloor>- a\<rfloor> else \<lfloor>a\<rfloor>)
      in if - (2 ^ 63) \<le> n \<and> n < 2 ^ 63 then Some n else None)"
| "float_trunc _ = None"

section \<open>The leading bit\<close>

lemma powi_le_iff: "(2 :: rat) powi a \<le> 2 powi b \<longleftrightarrow> a \<le> b"
  by (metis linorder_not_less one_less_numeral_iff power_int_increasing power_int_strict_increasing
      less_imp_le semiring_norm(76))

lemma powi_pos [simp]: "0 < (2 :: rat) powi a"
  by simp

lemma floorlog_bounds:
  assumes "0 < n"
  shows "2 powi (int (floorlog 2 n) - 1) \<le> (of_nat n :: rat)" "(of_nat n :: rat) < 2 powi int (floorlog 2 n)"
proof -
  have f: "0 < floorlog 2 n" and b: "2 ^ (floorlog 2 n - 1) \<le> n" "n < 2 ^ floorlog 2 n"
    using floorlog_bounds [of n 2] assms by (auto simp: floorlog_def)
  have "(2 :: rat) powi (int (floorlog 2 n) - 1) = of_nat (2 ^ (floorlog 2 n - 1))"
    using f by (simp add: power_int_def nat_diff_distrib)
  then show "2 powi (int (floorlog 2 n) - 1) \<le> (of_nat n :: rat)" using b(1) by (simp only: of_nat_le_iff)
  have "(2 :: rat) powi int (floorlog 2 n) = of_nat (2 ^ floorlog 2 n)" by simp
  then show "(of_nat n :: rat) < 2 powi int (floorlog 2 n)" using b(2) by (simp only: of_nat_less_iff)
qed

lemma lead_bounds:
  assumes "0 < x"
  shows "2 powi lead x \<le> x" "x < 2 powi (lead x + 1)"
proof -
  obtain a b where q: "quotient_of x = (a, b)" by fastforce
  have b: "0 < b" using q by (rule quotient_of_denom_pos)
  have x: "x = of_int a / of_int b" using q by (rule quotient_of_div)
  have a: "0 < a" using assms b unfolding x by (simp add: zero_less_divide_iff)
  let ?k = "int (floorlog 2 (nat a))" and ?l = "int (floorlog 2 (nat b))"
  have A: "2 powi (?k - 1) \<le> (of_int a :: rat)" "(of_int a :: rat) < 2 powi ?k"
    using floorlog_bounds [of "nat a"] a by auto
  have B: "2 powi (?l - 1) \<le> (of_int b :: rat)" "(of_int b :: rat) < 2 powi ?l"
    using floorlog_bounds [of "nat b"] b by auto
  have "2 powi (?k - ?l - 1) = (2 powi (?k - 1) / 2 powi ?l :: rat)"
    by (simp add: power_int_diff)
  also have "\<dots> \<le> x" unfolding x using A B a b by (intro frac_le) auto
  finally have lo: "2 powi (?k - ?l - 1) \<le> x" .
  have "x < 2 powi ?k / 2 powi (?l - 1)" unfolding x
    using A B a b by (intro frac_less) auto
  also have "\<dots> = 2 powi (?k - ?l + 1)"
    by (simp add: power_int_diff power_int_add field_simps)
  finally have hi: "x < 2 powi (?k - ?l + 1)" .
  have ld: "lead x = (if 2 powi (?k - ?l) \<le> x then ?k - ?l else ?k - ?l - 1)"
    using q by (simp add: lead_def Let_def)
  show "2 powi lead x \<le> x" "x < 2 powi (lead x + 1)"
    using lo hi unfolding ld by (auto split: if_splits)
qed

lemma lead_eq:
  assumes "2 powi k \<le> x" "x < 2 powi (k + 1)"
  shows "lead x = k"
proof -
  have x: "0 < x" using assms(1) powi_pos [of k] by (rule less_le_trans [rotated])
  have "(2 :: rat) powi k < 2 powi (lead x + 1)" using assms(1) lead_bounds(2) [OF x] by (rule le_less_trans)
  moreover have "(2 :: rat) powi lead x < 2 powi (k + 1)" using lead_bounds(1) [OF x] assms(2) by (rule le_less_trans)
  ultimately show ?thesis by (simp add: powi_le_iff flip: not_le)
qed

section \<open>Representable values\<close>

text \<open>Values of at most 53 bits in the exponent range; the largest ones are left to the bound.\<close>

definition representable :: "rat \<Rightarrow> bool" where
  "representable x \<longleftrightarrow> (\<exists>m e. x = of_int m * 2 powi e \<and> \<bar>m\<bar> \<le> 2 ^ 53 \<and> - 1074 \<le> e)"

abbreviation cut :: "rat \<Rightarrow> rat" where
  "cut x \<equiv> of_int \<lfloor>x / 2 powi last_place x\<rfloor> * 2 powi last_place x"

lemma cut_le: "cut x \<le> x"
proof -
  have "of_int \<lfloor>x / 2 powi last_place x\<rfloor> \<le> x / 2 powi last_place x" by simp
  then show ?thesis by (rule pos_le_divide_eq [THEN iffD1, OF powi_pos])
qed

text \<open>No representable value lies between a number and its first 53 bits.\<close>

lemma representable_cut:
  assumes "representable y" "y \<le> x" "0 < x"
  shows "y \<le> cut x"
proof -
  obtain m e where y: "y = of_int m * 2 powi e" and m: "\<bar>m\<bar> \<le> 2 ^ 53" and e: "- 1074 \<le> e"
    using assms(1) by (auto simp: representable_def)
  let ?p = "last_place x"
  show ?thesis
  proof (cases "?p \<le> e")
    case True
    have "2 powi e = (2 powi ?p * 2 ^ nat (e - ?p) :: rat)"
      using True by (simp flip: power_int_of_nat power_int_add)
    then have y': "y = of_int (m * 2 ^ nat (e - ?p)) * 2 powi ?p" using y by simp
    then have "of_int (m * 2 ^ nat (e - ?p)) \<le> x / 2 powi ?p"
      using assms(2) by (simp add: pos_le_divide_eq)
    then have "m * 2 ^ nat (e - ?p) \<le> \<lfloor>x / 2 powi ?p\<rfloor>" by (simp only: le_floor_iff)
    then show ?thesis unfolding y' by (intro mult_right_mono) (simp_all only: of_int_le_iff, simp)
  next
    case False
    then have p: "?p = lead x - 52" using e by (simp add: last_place_def)
    have "of_int m \<le> (of_int (2 ^ 53) :: rat)" using m by (simp only: of_int_le_iff abs_le_iff)
    then have "y \<le> 2 ^ 53 * 2 powi e" unfolding y by (intro mult_right_mono) simp_all
    also have "\<dots> \<le> 2 ^ 53 * 2 powi (?p - 1)"
      using False by (intro mult_left_mono) (simp_all add: powi_le_iff)
    also have "\<dots> = of_int (2 ^ 52) * 2 powi ?p" by (simp add: power_int_diff)
    also have "\<dots> \<le> cut x"
    proof (intro mult_right_mono)
      have "2 ^ 52 * 2 powi ?p = (2 powi lead x :: rat)"
        unfolding p by (simp add: power_int_diff)
      also have "\<dots> \<le> x" by (rule lead_bounds(1) [OF assms(3)])
      finally have "of_int (2 ^ 52) \<le> x / 2 powi ?p" by (simp add: pos_le_divide_eq)
      then show "of_int (2 ^ 52) \<le> (of_int \<lfloor>x / 2 powi ?p\<rfloor> :: rat)"
        by (simp only: of_int_le_iff le_floor_iff)
    qed simp
    finally show ?thesis .
  qed
qed

lemma round_pos_ge_cut: "cut x \<le> round_pos x"
  by (auto simp: round_pos_def half_even_def Let_def intro!: mult_right_mono)

lemma round_pos_exact:
  assumes "representable x" "0 < x"
  shows "round_pos x = x"
proof -
  have "cut x = x" using representable_cut [of x x] cut_le [of x] assms by simp
  then have "of_int \<lfloor>x / 2 powi last_place x\<rfloor> = x / 2 powi last_place x"
    by (simp add: eq_divide_eq)
  then have "x / 2 powi last_place x - of_int \<lfloor>x / 2 powi last_place x\<rfloor> = 0" by (simp only: diff_self)
  then have "half_even (x / 2 powi last_place x) = \<lfloor>x / 2 powi last_place x\<rfloor>"
    by (simp only: half_even_def Let_def) simp
  then show ?thesis using \<open>cut x = x\<close> by (simp add: round_pos_def)
qed

lemma representable_uminus:
  assumes "representable x"
  shows "representable (- x)"
proof -
  obtain m e where "x = of_int m * 2 powi e" "\<bar>m\<bar> \<le> 2 ^ 53" "- 1074 \<le> e"
    using assms by (auto simp: representable_def)
  then have "- x = of_int (- m) * 2 powi e \<and> \<bar>- m\<bar> \<le> 2 ^ 53 \<and> - 1074 \<le> e" by simp
  then show ?thesis unfolding representable_def by blast
qed

lemma representable_minus: "representable (- x) \<longleftrightarrow> representable x"
  using representable_uminus [of x] representable_uminus [of "- x"] by auto

lemma representable_abs [simp]: "representable \<bar>x\<bar> \<longleftrightarrow> representable x"
  by (simp add: abs_if representable_minus)

lemma fround_exact:
  assumes "representable x" "\<bar>x\<bar> < 2 ^ 1024"
  shows "fround x = Fin x"
  using round_pos_exact [of "\<bar>x\<bar>"] assms by (auto simp: fround_def sgn_if)

text \<open>Rounding a product of a representable value and a factor of at least one keeps it.\<close>

lemma fround_ge:
  assumes "representable y" "0 < x" "y \<le> x"
  shows "\<not> float_less (fround x) (Fin y)"
  using representable_cut [OF assms(1,3,2)] round_pos_ge_cut [of x] assms(2) by (auto simp: fround_def)

lemma representable_of_int: "\<bar>n\<bar> \<le> 2 ^ 53 \<Longrightarrow> representable (of_int n)"
  unfolding representable_def by (rule exI [of _ n], rule exI [of _ 0]) simp

lemma float_of_int_small:
  assumes "\<bar>n\<bar> \<le> 2 ^ 53"
  shows "float_of_int n = Fin (of_int n)"
proof -
  have "\<bar>of_int n :: rat\<bar> \<le> of_int (2 ^ 53)" using assms by (simp only: of_int_le_iff flip: of_int_abs)
  also have "\<dots> = (2 :: rat) ^ 53" by simp
  also have "\<dots> < (2 :: rat) ^ 1024" by (rule power_strict_increasing) simp_all
  finally show ?thesis unfolding float_of_int_def by (intro fround_exact representable_of_int assms)
qed

lemma half_even_le: "half_even q \<le> n" if "q \<le> of_int n"
proof -
  have "\<lfloor>q\<rfloor> \<le> n" using that by (simp add: floor_le_iff)
  moreover have "\<lfloor>q\<rfloor> \<noteq> n" if "1 / 2 \<le> q - of_int \<lfloor>q\<rfloor>"
    using that \<open>q \<le> of_int n\<close> by auto
  ultimately show ?thesis by (auto simp: half_even_def Let_def)
qed

text \<open>Nor does rounding pass a representable value from below.\<close>

lemma round_pos_le:
  assumes "representable y" "x \<le> y" "0 < x"
  shows "round_pos x \<le> y"
proof -
  obtain m e where y: "y = of_int m * 2 powi e" and m: "\<bar>m\<bar> \<le> 2 ^ 53" and e: "- 1074 \<le> e"
    using assms(1) by (auto simp: representable_def)
  let ?p = "last_place x"
  have "\<exists>n. y = of_int n * 2 powi ?p"
  proof (cases "?p \<le> e")
    case True
    have "2 powi e = (2 powi ?p * 2 ^ nat (e - ?p) :: rat)"
      using True by (simp flip: power_int_of_nat power_int_add)
    then have "y = of_int (m * 2 ^ nat (e - ?p)) * 2 powi ?p" using y by simp
    then show ?thesis ..
  next
    case False
    then have p: "?p = lead x - 52" using e by (simp add: last_place_def)
    have "of_int m \<le> (of_int (2 ^ 53) :: rat)" using m by (simp only: of_int_le_iff abs_le_iff)
    then have "y \<le> 2 ^ 53 * 2 powi e" unfolding y by (intro mult_right_mono) simp_all
    also have "\<dots> \<le> 2 ^ 53 * 2 powi (?p - 1)"
      using False by (intro mult_left_mono) (simp_all add: powi_le_iff)
    also have "\<dots> = of_int (2 ^ 52) * 2 powi ?p" by (simp add: power_int_diff)
    finally have "y \<le> of_int (2 ^ 52) * 2 powi ?p" .
    moreover have "of_int (2 ^ 52) * 2 powi ?p = (2 powi lead x :: rat)"
      unfolding p by (simp add: power_int_diff)
    ultimately have "y = of_int (2 ^ 52) * 2 powi ?p"
      using lead_bounds(1) [OF assms(3)] assms(2) by simp
    then show ?thesis ..
  qed
  then obtain n where n: "y = of_int n * 2 powi ?p" ..
  then have "x / 2 powi ?p \<le> of_int n" using assms(2) by (simp add: pos_divide_le_eq)
  then have "half_even (x / 2 powi ?p) \<le> n" by (rule half_even_le)
  then show ?thesis unfolding round_pos_def n by (intro mult_right_mono) simp_all
qed

text \<open>A rounded value is representable again.\<close>

lemma representable_round_pos:
  assumes "0 < x"
  shows "representable (round_pos x)"
proof -
  let ?p = "last_place x"
  have "x < 2 powi (lead x + 1)" by (rule lead_bounds(2) [OF assms])
  also have "\<dots> \<le> 2 powi (?p + 53)" by (simp add: powi_le_iff last_place_def)
  also have "\<dots> = of_int (2 ^ 53) * 2 powi ?p" by (simp add: power_int_add)
  finally have "x / 2 powi ?p \<le> of_int (2 ^ 53)" by (simp add: pos_divide_le_eq)
  then have "half_even (x / 2 powi ?p) \<le> 2 ^ 53" by (rule half_even_le)
  moreover have "0 \<le> half_even (x / 2 powi ?p)" using assms
    by (auto simp: half_even_def Let_def)
  ultimately show ?thesis unfolding representable_def round_pos_def
    by (intro exI [of _ "half_even (x / 2 powi ?p)"] exI [of _ ?p]) (simp add: last_place_def)
qed

lemma fround_representable: "fround x = Fin v \<Longrightarrow> representable v"
  using representable_round_pos [of "\<bar>x\<bar>"] representable_of_int [of 0]
  by (auto simp: fround_def sgn_if representable_minus split: if_splits)

lemma representable_power: "representable (2 ^ k)"
  unfolding representable_def by (intro exI [of _ 1] exI [of _ "int k"]) simp

lemma float_of_int_pos:
  assumes "0 < n" "n \<le> 2 ^ k" "k < 1024"
  obtains v where "float_of_int n = Fin v" "0 \<le> v" "v \<le> 2 ^ k" "representable v"
proof -
  let ?x = "of_int n :: rat"
  have pos: "0 < ?x" using assms(1) by simp
  have "?x \<le> of_int (2 ^ k)" using assms(2) by (simp only: of_int_le_iff)
  then have le: "round_pos ?x \<le> 2 ^ k" using round_pos_le [OF representable_power _ pos] by simp
  also have "\<dots> < (2 :: rat) ^ 1024" using assms(3) by (intro power_strict_increasing) simp_all
  finally have "float_of_int n = Fin (round_pos ?x)"
    using pos by (simp add: float_of_int_def fround_def)
  moreover have "0 \<le> round_pos ?x" using pos by (auto simp: round_pos_def half_even_def Let_def)
  ultimately show thesis using that le representable_round_pos [OF pos] by blast
qed

end
