(* ===== verification/FL_Value.thy ===== *)
theory FL_Value
  imports Go_Strconv Go_Float "HOL-Library.Word" "HOL-Library.Sublist"
begin

text \<open>
  Values and evaluators of \<^verbatim>\<open>pkg/filter\<close> (\<^verbatim>\<open>numeric.go\<close>, \<^verbatim>\<open>evaluator.go\<close>, \<^verbatim>\<open>evaluate_*.go\<close>,
  \<^verbatim>\<open>rule.go\<close>).

  \<^item> A \<^verbatim>\<open>float64\<close> is that of the theory \<^verbatim>\<open>Go_Float\<close>; only comparisons and the rounding
    conversion from 64-bit integers are used.
  \<^item> A \<^verbatim>\<open>reflect.Value\<close>, and an \<^verbatim>\<open>any\<close>, is a tree that carries the identity of its type; pointers
    are nil or hold their target. \<open>Invalid\<close> is the zero \<^verbatim>\<open>reflect.Value\<close> and the nil interface.
  \<^item> What the code takes from the run time and from packages whose behaviour is tables or an
    engine of its own is the argument \<open>G\<close>: the type graph seen by reflection, comparison of
    composite values, regular expressions, case folding.
\<close>

section \<open>Numbers\<close>

datatype numeric = numericNone | numericInt "64 word" | numericUint "64 word" | numericFloat float64

fun numeric_float :: "numeric \<Rightarrow> float64" where
  "numeric_float (numericFloat f) = f"
| "numeric_float (numericUint u) = float_of_int (uint u)"
| "numeric_float (numericInt i) = float_of_int (sint i)"
| "numeric_float numericNone = float_of_int 0"

definition cmpUint64 :: "64 word \<Rightarrow> 64 word \<Rightarrow> int" where
  "cmpUint64 a b = (if a < b then - 1 else if b < a then 1 else 0)"

definition cmpInt64 :: "64 word \<Rightarrow> 64 word \<Rightarrow> int" where
  "cmpInt64 a b = (if a <s b then - 1 else if b <s a then 1 else 0)"

definition cmpIntUint :: "64 word \<Rightarrow> 64 word \<Rightarrow> int" where
  "cmpIntUint i u = (if i <s 0 then - 1 else cmpUint64 i u)"

text \<open>\<open>None\<close> is \<^verbatim>\<open>numericNaN\<close>.\<close>

definition cmpFloat :: "float64 \<Rightarrow> float64 \<Rightarrow> int option" where
  "cmpFloat a b =
     (if IsNaN a \<or> IsNaN b then None
      else if float_less a b then Some (- 1) else if float_less b a then Some 1 else Some 0)"

fun compareInt :: "numeric \<Rightarrow> numeric \<Rightarrow> int" where
  "compareInt (numericInt a) (numericInt b) = cmpInt64 a b"
| "compareInt (numericUint a) (numericUint b) = cmpUint64 a b"
| "compareInt (numericInt a) (numericUint b) = cmpIntUint a b"
| "compareInt (numericUint a) (numericInt b) = - cmpIntUint b a"
| "compareInt _ _ = 0"

fun is_float :: "numeric \<Rightarrow> bool" where
  "is_float (numericFloat _) = True"
| "is_float _ = False"

definition numeric_compare :: "numeric \<Rightarrow> numeric \<Rightarrow> int option" where
  "numeric_compare n m =
     (if n = numericNone \<or> m = numericNone then None
      else if \<not> is_float n \<and> \<not> is_float m then Some (compareInt n m)
      else cmpFloat (numeric_float n) (numeric_float m))"

definition numeric_equals :: "numeric \<Rightarrow> numeric \<Rightarrow> bool" where
  "numeric_equals n m = (case numeric_compare n m of Some c \<Rightarrow> c = 0 | None \<Rightarrow> False)"

section \<open>Values\<close>

text \<open>Type identities; the predeclared string type is named since \<^verbatim>\<open>v.(string)\<close> tests for it.\<close>

datatype ty = TString | TNamed nat

datatype kind = KInvalid | KBool | KInt | KUint | KFloat | KString | KStruct | KPointer | KInterface
  | KSlice | KArray | KMap | KRef | KOther

datatype val =
    Invalid
  | BoolV ty bool
  | IntV ty "64 word"
  | UintV ty "64 word"
  | FloatV ty float64
  | StringV ty bytes
  | StructV ty "val list"
  | PointerV ty "val option"
  | InterfaceV ty "val option"
  | SliceV ty "val list option"
  | ArrayV ty "val list"
  | MapV ty "nat option"
  | RefV ty bool
  | OtherV ty

text \<open>
  \<open>MapV\<close> keeps the length only, \<open>RefV\<close> (channels, functions, unsafe pointers) whether it is
  nil, \<open>OtherV\<close> (complex numbers, \<^verbatim>\<open>uintptr\<close>) nothing: no operator reads more of them.
\<close>

fun Kind :: "val \<Rightarrow> kind" where
  "Kind Invalid = KInvalid"
| "Kind (BoolV _ _) = KBool"
| "Kind (IntV _ _) = KInt"
| "Kind (UintV _ _) = KUint"
| "Kind (FloatV _ _) = KFloat"
| "Kind (StringV _ _) = KString"
| "Kind (StructV _ _) = KStruct"
| "Kind (PointerV _ _) = KPointer"
| "Kind (InterfaceV _ _) = KInterface"
| "Kind (SliceV _ _) = KSlice"
| "Kind (ArrayV _ _) = KArray"
| "Kind (MapV _ _) = KMap"
| "Kind (RefV _ _) = KRef"
| "Kind (OtherV _) = KOther"

text \<open>\<^verbatim>\<open>isNil\<close> on an \<^verbatim>\<open>any\<close> and \<^verbatim>\<open>isNilValue\<close> on a \<^verbatim>\<open>reflect.Value\<close> are the same test.\<close>

fun isNilValue :: "val \<Rightarrow> bool" where
  "isNilValue Invalid = True"
| "isNilValue (PointerV _ p) = (p = None)"
| "isNilValue (InterfaceV _ p) = (p = None)"
| "isNilValue (SliceV _ xs) = (xs = None)"
| "isNilValue (MapV _ n) = (n = None)"
| "isNilValue (RefV _ nil) = nil"
| "isNilValue _ = False"

fun stringValue :: "val \<Rightarrow> bytes option" where
  "stringValue (StringV _ s) = Some s"
| "stringValue _ = None"

fun toNumericValue :: "val \<Rightarrow> numeric option" where
  "toNumericValue (IntV _ i) = Some (numericInt i)"
| "toNumericValue (UintV _ u) = Some (numericUint u)"
| "toNumericValue (FloatV _ f) = Some (numericFloat f)"
| "toNumericValue _ = None"

text \<open>
  A field is exported, or not and embedded, or not. A \<^verbatim>\<open>reflect.Value\<close> records with its flags
  how it was read: \<^verbatim>\<open>Field\<close> on an unexported embedded field sets a flag that the next \<^verbatim>\<open>Field\<close>
  drops, so that promoted fields can be read; on any other unexported field it sets one that
  stays. \<^verbatim>\<open>Elem\<close> keeps the flags. \<^verbatim>\<open>Interface\<close> panics on a value that has one.
\<close>

datatype perm = Exported | EmbeddedHidden | Hidden

datatype ro = NoRO | EmbedRO | StickyRO

definition field_ro :: "perm \<Rightarrow> ro \<Rightarrow> ro" where
  "field_ro q r =
     (if r = StickyRO then StickyRO
      else (case q of Exported \<Rightarrow> NoRO | EmbeddedHidden \<Rightarrow> EmbedRO | Hidden \<Rightarrow> StickyRO))"

record structField =
  fieldName :: bytes
  PkgPath :: bytes
  Index :: "nat list"
  fieldType :: ty
  Tag :: "bytes \<Rightarrow> bytes"

record golib =
  kindOf :: "ty \<Rightarrow> kind"
  elemOf :: "ty \<Rightarrow> ty"
  FieldByName :: "ty \<Rightarrow> bytes \<Rightarrow> structField option"
  VisibleFields :: "ty \<Rightarrow> structField list"
  fieldPerm :: "ty \<Rightarrow> nat \<Rightarrow> perm"
  Comparable :: "val \<Rightarrow> bool"
  ifaceEq :: "val \<Rightarrow> val \<Rightarrow> bool option"
  DeepEqual :: "val \<Rightarrow> val \<Rightarrow> bool"
  rxCompile :: "bytes \<Rightarrow> bool"
  rxMatch :: "bytes \<Rightarrow> bytes \<Rightarrow> bool"
  EqualFold :: "bytes \<Rightarrow> bytes \<Rightarrow> bool"
  StringsToLower :: "bytes \<Rightarrow> bytes"

text \<open>\<^verbatim>\<open>a == b\<close> on interfaces; \<open>None\<close> is its panic, recovered with \<^verbatim>\<open>reflect.DeepEqual\<close>.\<close>

definition comparableEqual :: "golib \<Rightarrow> val \<Rightarrow> val \<Rightarrow> bool" where
  "comparableEqual G a b = (case ifaceEq G a b of Some r \<Rightarrow> r | None \<Rightarrow> DeepEqual G a b)"

definition equalValues :: "golib \<Rightarrow> val \<Rightarrow> val \<Rightarrow> bool" where
  "equalValues G a b =
     (if isNilValue a \<or> isNilValue b then isNilValue a \<and> isNilValue b
      else if Comparable G a \<and> Comparable G b then comparableEqual G a b
      else DeepEqual G a b)"

abbreviation TFloat64 :: ty where "TFloat64 \<equiv> TNamed 0"

definition convertValue :: "val \<Rightarrow> val" where
  "convertValue v =
     (case toNumericValue v of
        Some num \<Rightarrow> FloatV TFloat64 (numeric_float num)
      | None \<Rightarrow> (case stringValue v of Some s \<Rightarrow> StringV TString s | None \<Rightarrow> v))"

section \<open>Errors\<close>

datatype filter_error =
    PayloadTooLarge nat nat | BadJSON | NoGroups | MissingKeys | ArrayValue | ObjectValue
  | NotRepresentable bytes | TooManyGroups nat nat | EmptyGroup nat | TooManyRules nat nat
  | ValueTooLarge nat nat | UnsupportedType bytes | NotStringValue bytes | BadRegexp bytes | NotNumerical
  | UnknownSelector bytes | PathTooDeep nat nat | NotStruct ty | UnexportedField bytes
  | errFieldNotFound
  | LengthTooSmall | LengthTooLarge | NotSlicePointer

text \<open>\<^verbatim>\<open>errors.Is(err, ErrInvalidFilter)\<close>: what wraps the sentinel.\<close>

definition isErrInvalidFilter :: "filter_error \<Rightarrow> bool" where
  "isErrInvalidFilter e \<longleftrightarrow> e \<notin> {errFieldNotFound, LengthTooSmall, LengthTooLarge, NotSlicePointer}"

section \<open>Evaluators\<close>

datatype evaluator =
    evalRegexp bytes
  | equal val "numeric option"
  | equalFold val "numeric option"
  | evalHasPrefix bytes
  | evalHasSuffix bytes
  | evalContains bytes
  | lt numeric
  | lte numeric
  | gt numeric
  | gte numeric
  | not evaluator

definition order_compare :: "numeric \<Rightarrow> val \<Rightarrow> int option" where
  "order_compare ref v =
     (if isNilValue v then None
      else (case toNumericValue v of
              Some num \<Rightarrow> numeric_compare num ref
            | None \<Rightarrow>
               (case v of
                  ArrayV _ xs \<Rightarrow> numeric_compare (numericInt (of_nat (length xs))) ref
                | MapV _ (Some n) \<Rightarrow> numeric_compare (numericInt (of_nat n)) ref
                | SliceV _ (Some xs) \<Rightarrow> numeric_compare (numericInt (of_nat (length xs))) ref
                | StringV _ s \<Rightarrow> numeric_compare (numericInt (of_nat (length s))) ref
                | _ \<Rightarrow> None)))"

text \<open>
  The flag \<open>ro\<close> of an evaluated value says whether \<^verbatim>\<open>v.Interface()\<close> panics; \<open>None\<close> is that panic.
\<close>

definition equal_default :: "golib \<Rightarrow> val \<Rightarrow> bool \<Rightarrow> val \<Rightarrow> bool option" where
  "equal_default G ref ro v =
     (if v = Invalid then Some False
      else if ro then None
      else Some (equalValues G (convertValue v) ref))"

text \<open>One definition per \<^verbatim>\<open>Evaluate\<close> method; the two that call \<^verbatim>\<open>Interface\<close> may panic.\<close>

definition evalRegexp_Evaluate :: "golib \<Rightarrow> bytes \<Rightarrow> val \<Rightarrow> bool" where
  "evalRegexp_Evaluate G p v = (case stringValue v of None \<Rightarrow> False | Some s \<Rightarrow> rxMatch G p s)"

definition equal_Evaluate :: "golib \<Rightarrow> val \<Rightarrow> numeric option \<Rightarrow> bool \<Rightarrow> val \<Rightarrow> bool option" where
  "equal_Evaluate G ref refNum ro v =
     (case refNum of
        Some n \<Rightarrow> Some (case toNumericValue v of None \<Rightarrow> False | Some num \<Rightarrow> numeric_equals n num)
      | None \<Rightarrow>
         (case ref of
            StringV TString r \<Rightarrow> Some (case stringValue v of None \<Rightarrow> False | Some s \<Rightarrow> s = r)
          | Invalid \<Rightarrow> Some (isNilValue v)
          | _ \<Rightarrow> equal_default G ref ro v))"

definition equalFold_Evaluate :: "golib \<Rightarrow> val \<Rightarrow> numeric option \<Rightarrow> bool \<Rightarrow> val \<Rightarrow> bool option" where
  "equalFold_Evaluate G ref refNum ro v =
     (case refNum of
        Some n \<Rightarrow> Some (case toNumericValue v of None \<Rightarrow> False | Some num \<Rightarrow> numeric_equals n num)
      | None \<Rightarrow>
         (case ref of
            StringV TString r \<Rightarrow> Some (case stringValue v of None \<Rightarrow> False | Some s \<Rightarrow> EqualFold G s r)
          | Invalid \<Rightarrow> Some (isNilValue v)
          | _ \<Rightarrow> equal_default G ref ro v))"

definition evalHasPrefix_Evaluate :: "bytes \<Rightarrow> val \<Rightarrow> bool" where
  "evalHasPrefix_Evaluate r v = (case stringValue v of None \<Rightarrow> False | Some s \<Rightarrow> prefix r s)"

definition evalHasSuffix_Evaluate :: "bytes \<Rightarrow> val \<Rightarrow> bool" where
  "evalHasSuffix_Evaluate r v = (case stringValue v of None \<Rightarrow> False | Some s \<Rightarrow> suffix r s)"

definition evalContains_Evaluate :: "bytes \<Rightarrow> val \<Rightarrow> bool" where
  "evalContains_Evaluate r v = (case stringValue v of None \<Rightarrow> False | Some s \<Rightarrow> sublist r s)"

definition lt_Evaluate :: "numeric \<Rightarrow> val \<Rightarrow> bool" where
  "lt_Evaluate ref v = (case order_compare ref v of None \<Rightarrow> False | Some c \<Rightarrow> c < 0)"

definition lte_Evaluate :: "numeric \<Rightarrow> val \<Rightarrow> bool" where
  "lte_Evaluate ref v = (case order_compare ref v of None \<Rightarrow> False | Some c \<Rightarrow> c \<le> 0)"

definition gt_Evaluate :: "numeric \<Rightarrow> val \<Rightarrow> bool" where
  "gt_Evaluate ref v = (case order_compare ref v of None \<Rightarrow> False | Some c \<Rightarrow> c > 0)"

definition gte_Evaluate :: "numeric \<Rightarrow> val \<Rightarrow> bool" where
  "gte_Evaluate ref v = (case order_compare ref v of None \<Rightarrow> False | Some c \<Rightarrow> c \<ge> 0)"

primrec Evaluate :: "golib \<Rightarrow> evaluator \<Rightarrow> bool \<Rightarrow> val \<Rightarrow> bool option" where
  "Evaluate G (evalRegexp p) ro v = Some (evalRegexp_Evaluate G p v)"
| "Evaluate G (equal ref refNum) ro v = equal_Evaluate G ref refNum ro v"
| "Evaluate G (equalFold ref refNum) ro v = equalFold_Evaluate G ref refNum ro v"
| "Evaluate G (evalHasPrefix r) ro v = Some (evalHasPrefix_Evaluate r v)"
| "Evaluate G (evalHasSuffix r) ro v = Some (evalHasSuffix_Evaluate r v)"
| "Evaluate G (evalContains r) ro v = Some (evalContains_Evaluate r v)"
| "Evaluate G (lt ref) ro v = Some (lt_Evaluate ref v)"
| "Evaluate G (lte ref) ro v = Some (lte_Evaluate ref v)"
| "Evaluate G (gt ref) ro v = Some (gt_Evaluate ref v)"
| "Evaluate G (gte ref) ro v = Some (gte_Evaluate ref v)"
| "Evaluate G (not e) ro v = map_option Not (Evaluate G e ro v)"

section \<open>Rules\<close>

record Rule =
  Field :: bytes
  Type :: bytes
  Value :: val

text \<open>\<^verbatim>\<open>r.(string)\<close>, the assertion of the string operators, with the error of operator \<open>t\<close>.\<close>

definition string_ref :: "bytes \<Rightarrow> val \<Rightarrow> filter_error + bytes" where
  "string_ref t r = (case r of StringV TString s \<Rightarrow> Inr s | _ \<Rightarrow> Inl (NotStringValue t))"

definition newRegexp :: "golib \<Rightarrow> val \<Rightarrow> filter_error + evaluator" where
  "newRegexp G r =
     (case string_ref ''regexp'' r of
        Inl e \<Rightarrow> Inl e
      | Inr s \<Rightarrow> if rxCompile G s then Inr (evalRegexp s) else Inl (BadRegexp s))"

definition newEqual :: "val \<Rightarrow> evaluator" where
  "newEqual r = equal (convertValue r) (toNumericValue r)"

definition newEqualFold :: "val \<Rightarrow> evaluator" where
  "newEqualFold r = equalFold (convertValue r) (toNumericValue r)"

definition newHasPrefix :: "val \<Rightarrow> filter_error + evaluator" where
  "newHasPrefix r = map_sum id evalHasPrefix (string_ref ''^='' r)"

definition newHasSuffix :: "val \<Rightarrow> filter_error + evaluator" where
  "newHasSuffix r = map_sum id evalHasSuffix (string_ref ''=$'' r)"

definition newContains :: "val \<Rightarrow> filter_error + evaluator" where
  "newContains r = map_sum id evalContains (string_ref ''~='' r)"

definition convertFloatValue :: "val \<Rightarrow> filter_error + float64" where
  "convertFloatValue v = (case convertValue v of FloatV _ f \<Rightarrow> Inr f | _ \<Rightarrow> Inl NotNumerical)"

definition newOrder :: "val \<Rightarrow> filter_error + numeric" where
  "newOrder r =
     (case convertFloatValue r of
        Inl e \<Rightarrow> Inl e
      | Inr _ \<Rightarrow> Inr (case toNumericValue r of Some num \<Rightarrow> num | None \<Rightarrow> numericNone))"

definition newLT :: "val \<Rightarrow> filter_error + evaluator" where
  "newLT r = map_sum id lt (newOrder r)"

definition newLTE :: "val \<Rightarrow> filter_error + evaluator" where
  "newLTE r = map_sum id lte (newOrder r)"

definition newGT :: "val \<Rightarrow> filter_error + evaluator" where
  "newGT r = map_sum id gt (newOrder r)"

definition newGTE :: "val \<Rightarrow> filter_error + evaluator" where
  "newGTE r = map_sum id gte (newOrder r)"

definition getBaseTypeEvaluator :: "golib \<Rightarrow> Rule \<Rightarrow> bytes \<Rightarrow> filter_error + evaluator" where
  "getBaseTypeEvaluator G r t =
     (if t = ''regexp'' then newRegexp G (Value r)
      else if t = ''=='' then Inr (newEqual (Value r))
      else if t = ''='' then Inr (newEqualFold (Value r))
      else if t = ''^='' then newHasPrefix (Value r)
      else if t = ''=$'' then newHasSuffix (Value r)
      else if t = ''~='' then newContains (Value r)
      else if t = ''<'' then newLT (Value r)
      else if t = ''<='' then newLTE (Value r)
      else if t = ''>'' then newGT (Value r)
      else if t = ''>='' then newGTE (Value r)
      else Inl (UnsupportedType (Type r)))"

definition getEvaluator :: "golib \<Rightarrow> Rule \<Rightarrow> filter_error + evaluator" where
  "getEvaluator G r =
     (let t = StringsToLower G (Type r) in
      if prefix ''!'' t
      then map_sum id not (getBaseTypeEvaluator G r (drop 1 t))
      else getBaseTypeEvaluator G r t)"

text \<open>\<^verbatim>\<open>reflect.ValueOf\<close> of an interface value carries no flag.\<close>

definition rule_evaluate :: "golib \<Rightarrow> Rule \<Rightarrow> val \<Rightarrow> filter_error + bool option" where
  "rule_evaluate G r v = map_sum id (\<lambda>e. Evaluate G e False v) (getEvaluator G r)"

end
