(* ===== verification/FL_Filter.thy ===== *)
theory FL_Filter
  imports FL_Value
begin

text \<open>
  The processor of \<^verbatim>\<open>pkg/filter\<close> (\<^verbatim>\<open>filter.go\<close>, \<^verbatim>\<open>options.go\<close>, \<^verbatim>\<open>field_getter.go\<close>,
  \<^verbatim>\<open>field_cacher.go\<close>): limits, parsing of decoded JSON, compilation of rules against the element
  type, evaluation, and the in-place compaction of the slice.

  The target of \<^verbatim>\<open>Apply\<close> is a value; when it is a pointer to a slice the operations return the
  elements the slice holds afterwards. \<^verbatim>\<open>uint\<close> counts are naturals. \<open>None\<close> in the field walk is a
  run-time panic of \<^verbatim>\<open>reflect.Value.Field\<close>; the walk carries the flags of the value it is at,
  and with the value it reads goes whether \<^verbatim>\<open>Interface\<close> panics on it. JSON decoding is the
  argument \<open>unmarshal\<close>.
\<close>

section \<open>Options\<close>

record processor =
  fieldTag :: bytes
  maxDepth :: nat
  maxRules :: nat
  maxResults :: nat
  maxValueLen :: nat
  maxFilterBytes :: nat
  urlQueryFilterKey :: bytes

abbreviation MaxResults :: nat where "MaxResults \<equiv> 2147483647"

text \<open>The error of an option, by its message.\<close>

type_synonym option_fn = "processor \<Rightarrow> bytes + processor"

definition WithFieldNameTag :: "bytes \<Rightarrow> option_fn" where
  "WithFieldNameTag tag p = (if tag = [] then Inl ''tag cannot be empty'' else Inr (p\<lparr>fieldTag := tag\<rparr>))"

definition WithQueryFilterKey :: "bytes \<Rightarrow> option_fn" where
  "WithQueryFilterKey key p =
     (if key = [] then Inl ''query filter key cannot be empty'' else Inr (p\<lparr>urlQueryFilterKey := key\<rparr>))"

definition WithMaxRules :: "nat \<Rightarrow> option_fn" where
  "WithMaxRules rulemax p =
     (if rulemax < 1 then Inl ''max Rules must be at least 1'' else Inr (p\<lparr>maxRules := rulemax\<rparr>))"

definition WithMaxResults :: "nat \<Rightarrow> option_fn" where
  "WithMaxResults resmax p =
     (if resmax < 1 then Inl ''maxResults must be at least 1''
      else if MaxResults < resmax then Inl ''maxResults must not exceed MaxResults''
      else Inr (p\<lparr>maxResults := resmax\<rparr>))"

definition WithMaxValueLength :: "nat \<Rightarrow> option_fn" where
  "WithMaxValueLength maxlen p =
     (if maxlen < 1 then Inl ''max value length must be at least 1'' else Inr (p\<lparr>maxValueLen := maxlen\<rparr>))"

definition WithMaxFilterBytes :: "nat \<Rightarrow> option_fn" where
  "WithMaxFilterBytes maxbytes p =
     (if maxbytes < 1 then Inl ''max filter bytes must be at least 1'' else Inr (p\<lparr>maxFilterBytes := maxbytes\<rparr>))"

definition WithMaxFieldDepth :: "nat \<Rightarrow> option_fn" where
  "WithMaxFieldDepth d p =
     (if d < 1 then Inl ''max field depth must be at least 1'' else Inr (p\<lparr>maxDepth := d\<rparr>))"

fun apply_options :: "option_fn list \<Rightarrow> processor \<Rightarrow> bytes + processor" where
  "apply_options [] p = Inr p"
| "apply_options (opt # opts) p = (case opt p of Inl e \<Rightarrow> Inl e | Inr p' \<Rightarrow> apply_options opts p')"

definition new_processor :: "option_fn list \<Rightarrow> bytes + processor" where
  "new_processor opts =
     apply_options opts
       \<lparr>fieldTag = [], maxDepth = 32, maxRules = 8, maxResults = MaxResults, maxValueLen = 4096,
        maxFilterBytes = 65536, urlQueryFilterKey = ''filter''\<rparr>"

section \<open>Field paths\<close>

text \<open>\<^verbatim>\<open>strings.Split(s, sep)\<close> for a one-byte separator.\<close>

fun split_at :: "char \<Rightarrow> bytes \<Rightarrow> bytes \<Rightarrow> bytes list" where
  "split_at sep [] cur = [cur]"
| "split_at sep (c # cs) cur = (if c = sep then cur # split_at sep cs [] else split_at sep cs (cur @ [c]))"

definition Split :: "bytes \<Rightarrow> char \<Rightarrow> bytes list" where
  "Split s sep = split_at sep s []"

definition lookupFieldByTag :: "golib \<Rightarrow> processor \<Rightarrow> ty \<Rightarrow> bytes \<Rightarrow> structField option" where
  "lookupFieldByTag G p t tagValue =
     find (\<lambda>f. hd (Split (Tag f (fieldTag p)) (CHR '','')) = tagValue) (VisibleFields G t)"

definition lookupStructField :: "golib \<Rightarrow> processor \<Rightarrow> ty \<Rightarrow> bytes \<Rightarrow> structField option" where
  "lookupStructField G p t name =
     (if fieldTag p = [] then FieldByName G t name else lookupFieldByTag G p t name)"

definition getStructField :: "golib \<Rightarrow> processor \<Rightarrow> ty \<Rightarrow> bytes \<Rightarrow> filter_error + structField" where
  "getStructField G p t name =
     (case lookupStructField G p t name of
        None \<Rightarrow> Inl errFieldNotFound
      | Some f \<Rightarrow> if PkgPath f \<noteq> [] then Inl (UnexportedField (fieldName f)) else Inr f)"

fun getFieldPath :: "golib \<Rightarrow> processor \<Rightarrow> ty \<Rightarrow> bytes list \<Rightarrow> filter_error + nat list" where
  "getFieldPath G p t [] = Inr []"
| "getFieldPath G p t (name # names) =
     (let t' = (if kindOf G t = KPointer then elemOf G t else t) in
      if kindOf G t' \<noteq> KStruct then Inl (NotStruct t')
      else (case getStructField G p t' name of
              Inl e \<Rightarrow> Inl e
            | Inr field \<Rightarrow>
                map_sum id (\<lambda>path. Index field @ path) (getFieldPath G p (fieldType field) names)))"

definition depth_of :: "bytes \<Rightarrow> nat" where
  "depth_of path = length (filter (\<lambda>c. c = CHR ''.'') path) + 1"

text \<open>Resolution without the cache, and with it.\<close>

definition resolvePath :: "golib \<Rightarrow> processor \<Rightarrow> ty \<Rightarrow> bytes \<Rightarrow> filter_error + nat list" where
  "resolvePath G p t path =
     (if maxDepth p < depth_of path then Inl (PathTooDeep (depth_of path) (maxDepth p))
      else getFieldPath G p t (Split path (CHR ''.'')))"

record fieldCache =
  cache :: "(ty \<times> bytes, nat list) fmap"
  cacheCount :: nat
  maxEntries :: nat

abbreviation defaultFieldCacheMaxEntries :: nat where "defaultFieldCacheMaxEntries \<equiv> 16384"

definition cache_ceiling :: "fieldCache \<Rightarrow> nat" where
  "cache_ceiling c = (if maxEntries c = 0 then defaultFieldCacheMaxEntries else maxEntries c)"

definition cache_Get :: "ty \<Rightarrow> bytes \<Rightarrow> fieldCache \<Rightarrow> nat list option" where
  "cache_Get t path c = fmlookup (cache c) (t, path)"

definition cache_Set :: "ty \<Rightarrow> bytes \<Rightarrow> nat list \<Rightarrow> fieldCache \<Rightarrow> fieldCache" where
  "cache_Set t path r c =
     (if cache_ceiling c \<le> cacheCount c then c
      else if fmlookup (cache c) (t, path) \<noteq> None then c
      else c\<lparr>cache := fmupd (t, path) r (cache c), cacheCount := cacheCount c + 1\<rparr>)"

definition resolvePath_cached ::
    "golib \<Rightarrow> processor \<Rightarrow> ty \<Rightarrow> bytes \<Rightarrow> fieldCache \<Rightarrow> (filter_error + nat list) \<times> fieldCache" where
  "resolvePath_cached G p t path c =
     (if maxDepth p < depth_of path then (Inl (PathTooDeep (depth_of path) (maxDepth p)), c)
      else (case cache_Get t path c of
              Some r \<Rightarrow> (Inr r, c)
            | None \<Rightarrow>
               (case getFieldPath G p t (Split path (CHR ''.'')) of
                  Inl e \<Rightarrow> (Inl e, c)
                | Inr r \<Rightarrow> (Inr r, cache_Set t path r c))))"

section \<open>Compilation\<close>

record compiledRule =
  cr_eval :: evaluator
  cr_field :: bytes
  cr_path :: "nat list"
  wholeElem :: bool
  dynamic :: bool

definition compileRule :: "golib \<Rightarrow> processor \<Rightarrow> Rule \<Rightarrow> ty \<Rightarrow> filter_error + compiledRule" where
  "compileRule G p rule elemType =
     (if (case Value rule of StringV _ s \<Rightarrow> maxValueLen p < length s | _ \<Rightarrow> False)
      then Inl (ValueTooLarge (case Value rule of StringV _ s \<Rightarrow> length s | _ \<Rightarrow> 0) (maxValueLen p))
      else (case getEvaluator G rule of
              Inl e \<Rightarrow> Inl e
            | Inr eval \<Rightarrow>
               (let cr = \<lparr>cr_eval = eval, cr_field = Field rule, cr_path = [], wholeElem = False, dynamic = False\<rparr> in
                if Field rule = [] then Inr (cr\<lparr>wholeElem := True\<rparr>)
                else if kindOf G elemType = KInterface then Inr (cr\<lparr>dynamic := True\<rparr>)
                else (case resolvePath G p elemType (Field rule) of
                        Inl e \<Rightarrow> Inl (if e = errFieldNotFound then UnknownSelector (Field rule) else e)
                      | Inr path \<Rightarrow> Inr (cr\<lparr>cr_path := path\<rparr>)))))"

fun map_result :: "('a \<Rightarrow> filter_error + 'b) \<Rightarrow> 'a list \<Rightarrow> filter_error + 'b list" where
  "map_result f [] = Inr []"
| "map_result f (x # xs) =
     (case f x of Inl e \<Rightarrow> Inl e | Inr y \<Rightarrow> map_sum id (Cons y) (map_result f xs))"

definition compileRules :: "golib \<Rightarrow> processor \<Rightarrow> Rule list list \<Rightarrow> ty \<Rightarrow> filter_error + compiledRule list list" where
  "compileRules G p rules elemType = map_result (map_result (\<lambda>r. compileRule G p r elemType)) rules"

section \<open>Evaluation\<close>

abbreviation maxLeafIndirections :: nat where "maxLeafIndirections \<equiv> 100"

fun unwrap_loop :: "nat \<Rightarrow> val \<Rightarrow> val" where
  "unwrap_loop 0 v = Invalid"
| "unwrap_loop (Suc n) v =
     (case v of
        PointerV _ p \<Rightarrow> (case p of None \<Rightarrow> Invalid | Some w \<Rightarrow> unwrap_loop n w)
      | InterfaceV _ p \<Rightarrow> (case p of None \<Rightarrow> Invalid | Some w \<Rightarrow> unwrap_loop n w)
      | _ \<Rightarrow> v)"

definition unwrapLeaf :: "val \<Rightarrow> val" where
  "unwrapLeaf v = unwrap_loop maxLeafIndirections v"

fun Indirect :: "val \<Rightarrow> val" where
  "Indirect (PointerV _ p) = (case p of None \<Rightarrow> Invalid | Some w \<Rightarrow> w)"
| "Indirect v = v"

text \<open>\<open>Some None\<close> is the result \<^verbatim>\<open>ok == false\<close>, \<open>None\<close> a panic of \<^verbatim>\<open>Field\<close>.\<close>

fun walkFieldPath :: "golib \<Rightarrow> ro \<Rightarrow> val \<Rightarrow> nat list \<Rightarrow> (val \<times> bool) option option" where
  "walkFieldPath G r v [] = Some (Some (unwrapLeaf v, r \<noteq> NoRO))"
| "walkFieldPath G r v (i # path) =
     (case Indirect v of
        Invalid \<Rightarrow> Some None
      | StructV t fs \<Rightarrow>
          if i < length fs then walkFieldPath G (field_ro (fieldPerm G t i) r) (fs ! i) path else None
      | _ \<Rightarrow> None)"

fun typeOf :: "val \<Rightarrow> ty" where
  "typeOf (BoolV t _) = t"
| "typeOf (IntV t _) = t"
| "typeOf (UintV t _) = t"
| "typeOf (FloatV t _) = t"
| "typeOf (StringV t _) = t"
| "typeOf (StructV t _) = t"
| "typeOf (PointerV t _) = t"
| "typeOf (InterfaceV t _) = t"
| "typeOf (SliceV t _) = t"
| "typeOf (ArrayV t _) = t"
| "typeOf (MapV t _) = t"
| "typeOf (RefV t _) = t"
| "typeOf (OtherV t) = t"
| "typeOf Invalid = TNamed 0"

text \<open>A panic while matching is the outcome \<open>Crash\<close>.\<close>

datatype 'a outcome = Ret 'a | Err filter_error | Crash

fun of_walk :: "(val \<times> bool) option option \<Rightarrow> (val \<times> bool) option outcome" where
  "of_walk None = Crash"
| "of_walk (Some r) = Ret r"

definition dynamicFieldValue :: "golib \<Rightarrow> processor \<Rightarrow> compiledRule \<Rightarrow> val \<Rightarrow> (val \<times> bool) option outcome" where
  "dynamicFieldValue G p rule v =
     (if v = Invalid then Ret None
      else (case resolvePath G p (typeOf v) (cr_field rule) of
              Inl e \<Rightarrow> if e = errFieldNotFound then Ret None else Err e
            | Inr path \<Rightarrow> of_walk (walkFieldPath G NoRO v path)))"

definition unwrap_elem :: "val \<Rightarrow> val" where
  "unwrap_elem elem = (case elem of InterfaceV _ p \<Rightarrow> (case p of None \<Rightarrow> Invalid | Some w \<Rightarrow> w) | _ \<Rightarrow> elem)"

definition ruleValue :: "golib \<Rightarrow> processor \<Rightarrow> compiledRule \<Rightarrow> val \<Rightarrow> (val \<times> bool) option outcome" where
  "ruleValue G p rule elem =
     (let v = unwrap_elem elem in
      if wholeElem rule then Ret (Some (v, False))
      else if dynamic rule then dynamicFieldValue G p rule v
      else of_walk (walkFieldPath G NoRO v (cr_path rule)))"

definition evaluateRule :: "golib \<Rightarrow> processor \<Rightarrow> compiledRule \<Rightarrow> val \<Rightarrow> bool outcome" where
  "evaluateRule G p rule elem =
     (case ruleValue G p rule elem of
        Crash \<Rightarrow> Crash
      | Err e \<Rightarrow> Err e
      | Ret None \<Rightarrow> Ret False
      | Ret (Some (v, ro)) \<Rightarrow> (case Evaluate G (cr_eval rule) ro v of None \<Rightarrow> Crash | Some b \<Rightarrow> Ret b))"

fun or_loop :: "golib \<Rightarrow> processor \<Rightarrow> compiledRule list \<Rightarrow> val \<Rightarrow> bool outcome" where
  "or_loop G p [] elem = Ret False"
| "or_loop G p (r # rs) elem =
     (case evaluateRule G p r elem of
        Crash \<Rightarrow> Crash | Err e \<Rightarrow> Err e
      | Ret match \<Rightarrow> if match then Ret True else or_loop G p rs elem)"

fun evaluateRules :: "golib \<Rightarrow> processor \<Rightarrow> compiledRule list list \<Rightarrow> val \<Rightarrow> bool outcome" where
  "evaluateRules G p [] elem = Ret True"
| "evaluateRules G p (g # gs) elem =
     (case or_loop G p g elem of
        Crash \<Rightarrow> Crash | Err e \<Rightarrow> Err e
      | Ret orResult \<Rightarrow> if \<not> orResult then Ret False else evaluateRules G p gs elem)"

section \<open>Filtering\<close>

text \<open>The loop of \<^verbatim>\<open>selectMatches\<close> from index \<open>i\<close>.\<close>

fun select_loop ::
    "(val \<Rightarrow> bool outcome) \<Rightarrow> nat \<Rightarrow> val list \<Rightarrow> nat \<Rightarrow> nat \<Rightarrow> nat list \<Rightarrow> nat \<Rightarrow> (nat list \<times> nat) outcome" where
  "select_loop matcher len [] i skip selected tot = Ret (selected, tot)"
| "select_loop matcher len (x # xs) i skip selected tot =
     (case matcher x of
        Crash \<Rightarrow> Crash | Err e \<Rightarrow> Err e
      | Ret match \<Rightarrow>
         (if \<not> match then select_loop matcher len xs (i + 1) skip selected tot
          else if 0 < skip then select_loop matcher len xs (i + 1) (skip - 1) selected (tot + 1)
          else select_loop matcher len xs (i + 1) skip
                 (if length selected < len then selected @ [i] else selected) (tot + 1)))"

definition selectMatches :: "val list \<Rightarrow> nat \<Rightarrow> nat \<Rightarrow> (val \<Rightarrow> bool outcome) \<Rightarrow> (nat list \<times> nat) outcome" where
  "selectMatches elems offset len matcher = select_loop matcher len elems 0 offset [] 0"

text \<open>The commit phase: \<^verbatim>\<open>slice[n] = slice[i]\<close> for each selected index in turn.\<close>

fun compact :: "nat \<Rightarrow> nat list \<Rightarrow> val list \<Rightarrow> val list" where
  "compact n [] elems = elems"
| "compact n (i # is) elems = compact (n + 1) is (if n \<noteq> i then elems[n := elems ! i] else elems)"

definition filterSliceValue ::
    "val list \<Rightarrow> nat \<Rightarrow> nat \<Rightarrow> (val \<Rightarrow> bool outcome) \<Rightarrow> (val list \<times> nat \<times> nat) outcome" where
  "filterSliceValue elems offset len matcher =
     (case selectMatches elems offset len matcher of
        Crash \<Rightarrow> Crash
      | Err e \<Rightarrow> Err e
      | Ret (selected, tot) \<Rightarrow>
          Ret (take (length selected) (compact 0 selected elems), length selected, tot))"

fun count_loop :: "Rule list list \<Rightarrow> nat \<Rightarrow> nat \<Rightarrow> filter_error + nat" where
  "count_loop [] i count = Inr count"
| "count_loop (g # gs) i count =
     (if length g = 0 then Inl (EmptyGroup i) else count_loop gs (i + 1) (count + length g))"

definition checkRulesCount :: "processor \<Rightarrow> Rule list list \<Rightarrow> filter_error option" where
  "checkRulesCount p rules =
     (if maxRules p < length rules then Some (TooManyGroups (length rules) (maxRules p))
      else (case count_loop rules 0 0 of
              Inl e \<Rightarrow> Some e
            | Inr count \<Rightarrow> if maxRules p < count then Some (TooManyRules count (maxRules p)) else None))"

text \<open>
  The target: a pointer to a slice with its element type, or anything else. The result keeps
  the elements the caller's slice holds after the call.
\<close>

datatype target = SlicePtr ty "val list" | OtherTarget

definition ApplySubset ::
    "golib \<Rightarrow> processor \<Rightarrow> Rule list list \<Rightarrow> target \<Rightarrow> nat \<Rightarrow> nat \<Rightarrow> (nat \<times> nat) outcome \<times> target" where
  "ApplySubset G p rules tgt offset len =
     (if len < 1 then (Err LengthTooSmall, tgt)
      else if maxResults p < len then (Err LengthTooLarge, tgt)
      else (case checkRulesCount p rules of
              Some e \<Rightarrow> (Err e, tgt)
            | None \<Rightarrow>
               (case tgt of
                  OtherTarget \<Rightarrow> (Err NotSlicePointer, tgt)
                | SlicePtr elemType elems \<Rightarrow>
                   (case compileRules G p rules elemType of
                      Inl e \<Rightarrow> (Err e, tgt)
                    | Inr compiled \<Rightarrow>
                       (case filterSliceValue elems offset len (evaluateRules G p compiled) of
                          Crash \<Rightarrow> (Crash, tgt)
                        | Err e \<Rightarrow> (Err e, tgt)
                        | Ret (elems', n, m) \<Rightarrow> (Ret (n, m), SlicePtr elemType elems'))))))"

definition Apply :: "golib \<Rightarrow> processor \<Rightarrow> Rule list list \<Rightarrow> target \<Rightarrow> (nat \<times> nat) outcome \<times> target" where
  "Apply G p rules tgt = ApplySubset G p rules tgt 0 (maxResults p)"

section \<open>Parsing\<close>

text \<open>A decoded JSON value with exact numbers, and a rule object with optional keys.\<close>

datatype json = JNull | JBool bool | JString bytes | JNumber bytes | JArray | JObject

record rawRule =
  rawField :: "bytes option"
  rawType :: "bytes option"
  rawValue :: "json option"

abbreviation TInt64 :: ty where "TInt64 \<equiv> TNamed 1"
abbreviation TUint64 :: ty where "TUint64 \<equiv> TNamed 2"
abbreviation TBool :: ty where "TBool \<equiv> TNamed 3"

definition exactJSONNumber :: "(bytes \<Rightarrow> float64 option) \<Rightarrow> bytes \<Rightarrow> filter_error + val" where
  "exactJSONNumber ParseFloat n =
     (case ParseInt n of
        Some i \<Rightarrow> Inr (IntV TInt64 (word_of_int i))
      | None \<Rightarrow>
         (case ParseUint n of
            Some u \<Rightarrow> Inr (UintV TUint64 (of_nat u))
          | None \<Rightarrow>
             (case ParseFloat n of
                Some f \<Rightarrow> Inr (FloatV TFloat64 f)
              | None \<Rightarrow> Inl (NotRepresentable n))))"

fun normalizeRuleValue :: "(bytes \<Rightarrow> float64 option) \<Rightarrow> json \<Rightarrow> filter_error + val" where
  "normalizeRuleValue PF (JNumber n) = exactJSONNumber PF n"
| "normalizeRuleValue PF JArray = Inl ArrayValue"
| "normalizeRuleValue PF JObject = Inl ObjectValue"
| "normalizeRuleValue PF JNull = Inr Invalid"
| "normalizeRuleValue PF (JBool b) = Inr (BoolV TBool b)"
| "normalizeRuleValue PF (JString s) = Inr (StringV TString s)"

definition rawRule_rule :: "(bytes \<Rightarrow> float64 option) \<Rightarrow> rawRule \<Rightarrow> filter_error + Rule" where
  "rawRule_rule PF r =
     (case (rawField r, rawType r, rawValue r) of
        (Some f, Some t, Some v) \<Rightarrow>
          map_sum id (\<lambda>x. \<lparr>Field = f, Type = t, Value = x\<rparr>) (normalizeRuleValue PF v)
      | _ \<Rightarrow> Inl MissingKeys)"

definition parseJSON ::
    "(bytes \<Rightarrow> rawRule list list option) \<Rightarrow> (bytes \<Rightarrow> float64 option) \<Rightarrow> bytes \<Rightarrow> filter_error + Rule list list" where
  "parseJSON unmarshal PF s =
     (case unmarshal s of
        None \<Rightarrow> Inl BadJSON
      | Some raw \<Rightarrow>
          if length raw = 0 then Inl NoGroups else map_result (map_result (rawRule_rule PF)) raw)"

definition ParseJSON ::
    "processor \<Rightarrow> (bytes \<Rightarrow> rawRule list list option) \<Rightarrow> (bytes \<Rightarrow> float64 option) \<Rightarrow> bytes
     \<Rightarrow> filter_error + Rule list list" where
  "ParseJSON p unmarshal PF s =
     (if maxFilterBytes p < length s then Inl (PayloadTooLarge (length s) (maxFilterBytes p))
      else (case parseJSON unmarshal PF s of
              Inl e \<Rightarrow> Inl e
            | Inr rules \<Rightarrow> (case checkRulesCount p rules of Some e \<Rightarrow> Inl e | None \<Rightarrow> Inr rules)))"

text \<open>The query is the function \<^verbatim>\<open>url.Values.Get\<close>; \<open>None\<close> are the nil rules.\<close>

definition ParseURLQuery ::
    "processor \<Rightarrow> (bytes \<Rightarrow> rawRule list list option) \<Rightarrow> (bytes \<Rightarrow> float64 option) \<Rightarrow> (bytes \<Rightarrow> bytes)
     \<Rightarrow> filter_error + Rule list list option" where
  "ParseURLQuery p unmarshal PF q =
     (let s = q (urlQueryFilterKey p) in
      if s = [] then Inr None else map_sum id Some (ParseJSON p unmarshal PF s))"

end
