(* ===== verification/FL_Proofs.thy ===== *)
theory FL_Proofs
  imports FL_Filter
begin

text \<open>
  Facts about \<^verbatim>\<open>pkg/filter\<close>: the selection and the in-place compaction compute the requested
  window of the matching elements; the outer AND and inner OR; comparison of numbers; the
  field walk of a well-typed element never panics; the cache of field paths is transparent.
\<close>

lemma map_sum_iff:
  "map_sum f g x = Inr y \<longleftrightarrow> (\<exists>z. x = Inr z \<and> y = g z)" "map_sum f g x = Inl e \<longleftrightarrow> (\<exists>z. x = Inl z \<and> e = f z)"
  by (cases x; auto)+

section \<open>Compaction in place\<close>

lemma compact_take:
  assumes "sorted_wrt (<) sel" and "\<forall>i \<in> set sel. n \<le> i \<and> i < length xs"
  shows "take (n + length sel) (compact n sel xs) = take n xs @ map (nth xs) sel"
  using assms
proof (induction sel arbitrary: n xs)
  case (Cons i sel)
  let ?xs = "if n \<noteq> i then xs[n := xs ! i] else xs"
  have n: "n < length xs" using Cons.prems(2) by auto
  have later: "\<forall>j \<in> set sel. n + 1 \<le> j \<and> j < length ?xs" using Cons.prems by auto
  have same: "map (nth ?xs) sel = map (nth xs) sel" using later by (auto simp: nth_list_update)
  have "take (n + 1) ?xs = take n xs @ [xs ! i]" using n by (simp add: take_Suc_conv_app_nth)
  then show ?case using Cons.IH [OF _ later] Cons.prems(1) same by simp
qed simp

section \<open>Selection\<close>

definition matching :: "(val \<Rightarrow> bool) \<Rightarrow> nat \<Rightarrow> val list \<Rightarrow> nat list" where
  "matching m i xs = map fst (filter (\<lambda>(_, x). m x) (enumerate i xs))"

lemma matching_Cons: "matching m i (x # xs) = (if m x then [i] else []) @ matching m (Suc i) xs"
  by (simp add: matching_def)

lemma matching_sorted: "sorted_wrt (<) (matching m i xs) \<and> (\<forall>j \<in> set (matching m i xs). i \<le> j \<and> j < i + length xs)"
proof (induction xs arbitrary: i)
  case (Cons x xs)
  have "Suc i \<le> j \<and> j < Suc i + length xs" if "j \<in> set (matching m (Suc i) xs)" for j using Cons that by blast
  then show ?case using Cons [of "Suc i"] by (auto simp: matching_Cons Suc_le_eq intro: less_imp_le)
qed (simp add: matching_def)

lemma matching_values: "map (\<lambda>j. xs ! (j - i)) (matching m i xs) = filter m xs"
proof (induction xs arbitrary: i)
  case (Cons x xs)
  have "map (\<lambda>j. (x # xs) ! (j - i)) (matching m (Suc i) xs) = map (\<lambda>j. xs ! (j - Suc i)) (matching m (Suc i) xs)"
    using matching_sorted [of m "Suc i" xs] by (auto simp: Suc_diff_le nth_Cons')
  then show ?case using Cons [of "Suc i"] by (simp add: matching_Cons)
qed (simp add: matching_def)

lemma length_matching: "length (matching m i xs) = length (filter m xs)"
  using arg_cong [OF matching_values [of xs i m], of length] by simp

lemma select_loop_ret:
  assumes "\<forall>x \<in> set xs. matcher x = Ret (m x)" and "length sel \<le> len"
  shows "select_loop matcher len xs i skip sel tot
     = Ret (sel @ take (len - length sel) (drop skip (matching m i xs)), tot + length (filter m xs))"
  using assms
proof (induction xs arbitrary: i skip sel tot)
  case Nil
  then show ?case by (simp add: matching_def)
next
  case (Cons x xs)
  have x: "matcher x = Ret (m x)" using Cons.prems by simp
  note ih = Cons.IH [of _ "Suc i"]
  consider "\<not> m x" | "m x" "0 < skip" | "m x" "skip = 0" by blast
  then show ?case
  proof cases
    case 1
    then show ?thesis using x ih [of sel skip tot] Cons.prems by (simp add: matching_Cons)
  next
    case 2
    then show ?thesis using x ih [of sel "skip - 1" "tot + 1"] Cons.prems
      by (cases skip) (simp_all add: matching_Cons)
  next
    case 3
    then show ?thesis
      using x ih [of "sel @ [i]" 0 "tot + 1"] ih [of sel 0 "tot + 1"] Cons.prems
      by (cases "length sel < len") (auto simp: matching_Cons take_Cons' Suc_diff_Suc)
  qed
qed

lemma select_loop_all:
  "select_loop matcher len xs i skip sel tot = Ret r \<Longrightarrow> \<forall>x \<in> set xs. \<exists>b. matcher x = Ret b"
  by (induction matcher len xs i skip sel tot rule: select_loop.induct)
    (auto split: outcome.splits if_splits)

lemma select_loop_fails:
  "\<forall>x \<in> set xs. \<exists>b. matcher x = Ret b \<Longrightarrow> \<exists>r. select_loop matcher len xs i skip sel tot = Ret r"
  by (induction matcher len xs i skip sel tot rule: select_loop.induct) auto

lemma filterSlice_spec:
  assumes "filterSliceValue xs offset len matcher = Ret (ys, n, tot)"
  shows "ys = take len (drop offset (filter (\<lambda>x. matcher x = Ret True) xs))"
    and "n = length ys" and "tot = length (filter (\<lambda>x. matcher x = Ret True) xs)"
proof -
  let ?m = "\<lambda>x. matcher x = Ret True"
  obtain sel where sel: "select_loop matcher len xs 0 offset [] 0 = Ret (sel, tot)" "n = length sel"
    "ys = take (length sel) (compact 0 sel xs)"
    using assms by (auto simp: filterSliceValue_def selectMatches_def split: outcome.splits prod.splits)
  have "\<exists>b. matcher x = Ret b" if "x \<in> set xs" for x using select_loop_all [OF sel(1)] that by blast
  then have "\<forall>x \<in> set xs. matcher x = Ret (?m x)" by (metis (full_types))
  from select_loop_ret [OF this, of "[]" len 0 offset 0] sel(1)
  have s: "sel = take len (drop offset (matching ?m 0 xs))" "tot = length (filter ?m xs)" by auto
  have "sorted_wrt (<) sel" "\<forall>i \<in> set sel. 0 \<le> i \<and> i < length xs"
    using matching_sorted [of ?m 0 xs] by (auto simp: s(1) sorted_wrt_take sorted_wrt_drop dest: in_set_takeD in_set_dropD)
  from compact_take [OF this] have "ys = map (nth xs) sel" using sel(3) by simp
  also have "\<dots> = take len (drop offset (map (nth xs) (matching ?m 0 xs)))" by (simp add: s(1) take_map drop_map)
  also have "map (nth xs) (matching ?m 0 xs) = filter ?m xs" using matching_values [of xs 0 ?m] by simp
  finally show "ys = take len (drop offset (filter ?m xs))" .
  show "n = length ys" using sel(2) \<open>ys = map (nth xs) sel\<close> by (metis length_map)
  show "tot = length (filter ?m xs)" by (rule s(2))
qed

section \<open>AND of ORs\<close>

lemma or_loop_ret: "or_loop G p rs x = Ret b \<Longrightarrow> b = (\<exists>r \<in> set rs. evaluateRule G p r x = Ret True)"
  by (induction rs) (auto split: outcome.splits if_splits)

lemma evaluateRules_ret:
  "evaluateRules G p gs x = Ret b \<Longrightarrow> b = (\<forall>g \<in> set gs. \<exists>r \<in> set g. evaluateRule G p r x = Ret True)"
proof (induction gs)
  case (Cons g gs)
  then obtain c where c: "or_loop G p g x = Ret c" by (cases "or_loop G p g x") auto
  show ?case
  proof (cases c)
    case True
    then have "evaluateRules G p gs x = Ret b" using Cons.prems c by simp
    then show ?thesis using Cons.IH or_loop_ret [OF c] True by auto
  next
    case False
    then show ?thesis using Cons.prems c or_loop_ret [OF c] by auto
  qed
qed simp

lemma evaluateRules_total:
  "\<forall>g \<in> set gs. \<forall>r \<in> set g. \<exists>b. evaluateRule G p r x = Ret b \<Longrightarrow> \<exists>b. evaluateRules G p gs x = Ret b"
proof (induction gs)
  case (Cons g gs)
  have "\<exists>b. or_loop G p rs x = Ret b" if "\<forall>r \<in> set rs. \<exists>b. evaluateRule G p r x = Ret b" for rs
    using that by (induction rs) auto
  then obtain c where "or_loop G p g x = Ret c" using Cons.prems by (meson list.set_intros(1))
  then show ?case using Cons by auto
qed auto

section \<open>Numbers\<close>

fun int_value :: "numeric \<Rightarrow> int" where
  "int_value (numericInt i) = sint i"
| "int_value (numericUint u) = uint u"
| "int_value _ = 0"

lemma cmpUint64_sgn: "cmpUint64 a b = sgn (uint a - uint b)"
  by (auto simp: cmpUint64_def word_less_def)

lemma cmpInt64_sgn: "cmpInt64 a b = sgn (sint a - sint b)"
  by (auto simp: cmpInt64_def word_sless_alt)

lemma sint_nonneg: "0 \<le> sint (w :: 64 word) \<Longrightarrow> sint w = uint w"
  using uint_sint [of w] sint_lt [of w] by (simp add: take_bit_int_eq_self)

lemma cmpIntUint_sgn: "cmpIntUint i u = sgn (sint i - uint u)"
proof (cases "i <s 0")
  case True
  then have "sint i < 0" by (simp add: word_sless_alt)
  moreover have "0 \<le> uint u" by simp
  ultimately have "sint i - uint u < 0" by linarith
  then show ?thesis using True by (simp add: cmpIntUint_def)
next
  case False
  then have "0 \<le> sint i" by (simp add: word_sless_alt)
  then show ?thesis using False sint_nonneg by (simp add: cmpIntUint_def cmpUint64_sgn)
qed

definition is_int :: "numeric \<Rightarrow> bool" where
  "is_int n \<longleftrightarrow> n \<noteq> numericNone \<and> \<not> is_float n"

lemma sgn_diff_swap: "- sgn (a - b) = sgn (b - a)" for a b :: int
  by (simp add: sgn_if)

lemma compareInt_exact: "is_int n \<Longrightarrow> is_int m \<Longrightarrow> compareInt n m = sgn (int_value n - int_value m)"
  by (cases n; cases m)
    (auto simp: is_int_def cmpInt64_sgn cmpUint64_sgn cmpIntUint_sgn sgn_diff_swap)

lemma float_less_asym: "float_less a b \<Longrightarrow> \<not> float_less b a"
  by (cases a; cases b) auto

lemma compare_antisym: "numeric_compare m n = map_option uminus (numeric_compare n m)"
proof (cases "is_int n \<and> is_int m")
  case True
  then show ?thesis
    using compareInt_exact [of n m] compareInt_exact [of m n] sgn_diff_swap [of "int_value n" "int_value m"]
    by (simp add: numeric_compare_def is_int_def)
next
  case False
  let ?a = "numeric_float n" and ?b = "numeric_float m"
  have "cmpFloat ?b ?a = map_option uminus (cmpFloat ?a ?b)"
    using float_less_asym [of ?a ?b] by (simp add: cmpFloat_def)
  then show ?thesis using False by (auto simp: numeric_compare_def is_int_def)
qed

section \<open>Well-typed values\<close>

text \<open>
  \<open>layout\<close> gives the types of the fields of a struct type. Reflection is sound for it when the
  index path of a field leads, through embedded structs and pointers to them, to the type it
  reports, and the field has an empty package path exactly when it is exported itself.
\<close>

fun path_type :: "golib \<Rightarrow> (ty \<Rightarrow> ty list) \<Rightarrow> ty \<Rightarrow> nat list \<Rightarrow> ty option" where
  "path_type G layout t [] = Some t"
| "path_type G layout t (i # path) =
     (let t' = (if kindOf G t = KPointer then elemOf G t else t) in
      if kindOf G t' = KStruct \<and> i < length (layout t') then path_type G layout (layout t' ! i) path else None)"

fun path_perms :: "golib \<Rightarrow> (ty \<Rightarrow> ty list) \<Rightarrow> ty \<Rightarrow> nat list \<Rightarrow> perm list" where
  "path_perms G layout t [] = []"
| "path_perms G layout t (i # path) =
     (let t' = (if kindOf G t = KPointer then elemOf G t else t)
      in fieldPerm G t' i # path_perms G layout (layout t' ! i) path)"

definition reflect_sound :: "golib \<Rightarrow> (ty \<Rightarrow> ty list) \<Rightarrow> bool" where
  "reflect_sound G layout \<longleftrightarrow>
     (\<forall>t f n. kindOf G t = KStruct \<and> (FieldByName G t n = Some f \<or> f \<in> set (VisibleFields G t))
        \<longrightarrow> Index f \<noteq> [] \<and> path_type G layout t (Index f) = Some (fieldType f)
          \<and> (\<forall>q \<in> set (butlast (path_perms G layout t (Index f))). q \<noteq> Hidden)
          \<and> (PkgPath f = [] \<longleftrightarrow> last (path_perms G layout t (Index f)) = Exported))"

text \<open>The flags after a walk through fields of these permissions.\<close>

definition walk_ro :: "ro \<Rightarrow> perm list \<Rightarrow> ro" where
  "walk_ro r qs = foldl (\<lambda>r q. field_ro q r) r qs"

lemma walk_ro_simps [simp]:
  "walk_ro r [] = r" "walk_ro r (q # qs) = walk_ro (field_ro q r) qs"
  "walk_ro r (qs @ qs') = walk_ro (walk_ro r qs) qs'"
  by (simp_all add: walk_ro_def)

lemma walk_ro_exported:
  "qs \<noteq> [] \<Longrightarrow> r \<noteq> StickyRO \<Longrightarrow> \<forall>q \<in> set (butlast qs). q \<noteq> Hidden \<Longrightarrow> last qs = Exported \<Longrightarrow> walk_ro r qs = NoRO"
proof (induction qs arbitrary: r)
  case (Cons q qs)
  show ?case
  proof (cases "qs = []")
    case True
    then show ?thesis using Cons.prems by (simp add: field_ro_def)
  next
    case False
    then have "field_ro q r \<noteq> StickyRO" using Cons.prems by (auto simp: field_ro_def split: perm.splits)
    then show ?thesis using Cons.IH [OF False] Cons.prems False by simp
  qed
qed simp

inductive wt :: "golib \<Rightarrow> (ty \<Rightarrow> ty list) \<Rightarrow> val \<Rightarrow> ty \<Rightarrow> bool" for G layout where
  wt_struct: "kindOf G t = KStruct \<Longrightarrow> list_all2 (wt G layout) fs (layout t) \<Longrightarrow> wt G layout (StructV t fs) t"
| wt_nil: "kindOf G t = KPointer \<Longrightarrow> wt G layout (PointerV t None) t"
| wt_ptr: "kindOf G t = KPointer \<Longrightarrow> wt G layout v (elemOf G t) \<Longrightarrow> wt G layout (PointerV t (Some v)) t"
| wt_leaf: "Kind v \<notin> {KStruct, KPointer, KInvalid} \<Longrightarrow> typeOf v = t \<Longrightarrow> kindOf G t = Kind v \<Longrightarrow> wt G layout v t"
monos list_all2_mono

inductive_cases wt_kindE: "wt G layout v t"

lemma wt_kind: "wt G layout v t \<Longrightarrow> kindOf G t = Kind v \<and> v \<noteq> Invalid"
  by (erule wt_kindE) auto

lemma wt_struct_fields:
  "wt G layout v t \<Longrightarrow> kindOf G t = KStruct \<Longrightarrow> \<exists>fs. v = StructV t fs \<and> list_all2 (wt G layout) fs (layout t)"
  by (erule wt_kindE) auto

lemma wt_pointer:
  "wt G layout v t \<Longrightarrow> kindOf G t = KPointer \<Longrightarrow>
     v = PointerV t None \<or> (\<exists>w. v = PointerV t (Some w) \<and> wt G layout w (elemOf G t))"
  by (erule wt_kindE) auto

lemma wt_indirect:
  assumes "wt G layout v t"
  shows "Indirect v = Invalid \<or> wt G layout (Indirect v) (if kindOf G t = KPointer then elemOf G t else t)"
proof (cases "kindOf G t = KPointer")
  case True
  then show ?thesis using wt_pointer [OF assms] by auto
next
  case False
  then have "Indirect v = v" using wt_kind [OF assms] by (cases v) auto
  then show ?thesis using False assms by simp
qed

lemma walk_typed:
  assumes "wt G layout v t" and "path_type G layout t path = Some t'"
  shows "\<exists>r. walkFieldPath G ro v path = Some r
    \<and> (\<forall>w hidden. r = Some (w, hidden) \<longrightarrow> hidden = (walk_ro ro (path_perms G layout t path) \<noteq> NoRO))"
  using assms
proof (induction path arbitrary: v t ro)
  case (Cons i path)
  let ?t = "if kindOf G t = KPointer then elemOf G t else t"
  have t: "kindOf G ?t = KStruct" "i < length (layout ?t)" "path_type G layout (layout ?t ! i) path = Some t'"
    using Cons.prems(2) by (auto simp: Let_def split: if_splits)
  show ?case
  proof (cases "Indirect v = Invalid")
    case True
    then show ?thesis by simp
  next
    case False
    then have "wt G layout (Indirect v) ?t" using wt_indirect [OF Cons.prems(1)] by blast
    then obtain fs where fs: "Indirect v = StructV ?t fs" "list_all2 (wt G layout) fs (layout ?t)"
      using wt_struct_fields t(1) by blast
    then have "i < length fs" "wt G layout (fs ! i) (layout ?t ! i)"
      using t(2) by (auto simp: list_all2_lengthD list_all2_nthD2)
    then show ?thesis
      using Cons.IH [OF _ t(3), of "fs ! i" "field_ro (fieldPerm G ?t i) ro"] fs(1) by (simp add: Let_def)
  qed
qed simp

lemma path_type_append:
  "path_type G layout t (p @ q) = Option.bind (path_type G layout t p) (\<lambda>t'. path_type G layout t' q)"
  by (induction p arbitrary: t) (auto simp: Let_def)

lemma path_perms_append:
  "path_type G layout t p = Some t' \<Longrightarrow>
     path_perms G layout t (p @ q) = path_perms G layout t p @ path_perms G layout t' q"
  by (induction p arbitrary: t) (auto simp: Let_def split: if_splits)

lemma path_perms_deref:
  "kindOf G t = KPointer \<Longrightarrow> kindOf G (elemOf G t) = KStruct \<Longrightarrow>
     path_perms G layout t path = path_perms G layout (elemOf G t) path"
  by (cases path) (auto simp: Let_def)

lemma path_type_deref:
  "kindOf G t = KPointer \<Longrightarrow> kindOf G (elemOf G t) = KStruct \<Longrightarrow> path \<noteq> [] \<Longrightarrow>
     path_type G layout t path = path_type G layout (elemOf G t) path"
  by (cases path) (auto simp: Let_def)

text \<open>
  A resolved path leads to a value, and one that may be read: every segment names an exported
  field, so the flags that embedding left are gone at its end.
\<close>

lemma getFieldPath_typed:
  assumes "reflect_sound G layout" and "getFieldPath G p t names = Inr path"
  shows "(\<exists>t'. path_type G layout t path = Some t') \<and> walk_ro NoRO (path_perms G layout t path) = NoRO"
  using assms(2)
proof (induction names arbitrary: t path)
  case (Cons name names)
  let ?t = "if kindOf G t = KPointer then elemOf G t else t"
  obtain f rest where f: "kindOf G ?t = KStruct" "getStructField G p ?t name = Inr f"
    "getFieldPath G p (fieldType f) names = Inr rest" "path = Index f @ rest"
    using Cons.prems by (auto simp: Let_def map_sum_iff split: if_splits sum.splits)
  have "FieldByName G ?t name = Some f \<or> f \<in> set (VisibleFields G ?t)"
    using f(2) by (auto simp: getStructField_def lookupStructField_def lookupFieldByTag_def find_Some_iff
        split: option.splits if_splits)
  then have i: "Index f \<noteq> []" "path_type G layout ?t (Index f) = Some (fieldType f)"
    "\<forall>q \<in> set (butlast (path_perms G layout ?t (Index f))). q \<noteq> Hidden"
    "PkgPath f = [] \<longleftrightarrow> last (path_perms G layout ?t (Index f)) = Exported"
    using assms(1) f(1) unfolding reflect_sound_def by blast+
  have "PkgPath f = []" using f(2) by (auto simp: getStructField_def split: option.splits if_splits)
  moreover have "path_perms G layout ?t (Index f) \<noteq> []" using i(1) by (cases "Index f") (auto simp: Let_def)
  ultimately have "walk_ro NoRO (path_perms G layout ?t (Index f)) = NoRO" using i(3,4) by (simp add: walk_ro_exported)
  then have ro: "walk_ro NoRO (path_perms G layout ?t path) = NoRO"
    using Cons.IH [OF f(3)] by (simp add: f(4) path_perms_append [OF i(2)])
  obtain t' where t': "path_type G layout (fieldType f) rest = Some t'" using Cons.IH [OF f(3)] by blast
  have "path_type G layout ?t path = Some t'" using i t' by (simp add: f(4) path_type_append)
  then show ?case using path_type_deref [of G t path layout] path_perms_deref [of G t layout path] f(1) i(1) ro
    by (auto simp: f(4) split: if_splits)
qed simp

lemma compileRule_typed:
  assumes "reflect_sound G layout" and "kindOf G t \<noteq> KInterface" and "compileRule G p r t = Inr cr"
  shows "\<not> dynamic cr \<and> (wholeElem cr \<or> (\<exists>t'. path_type G layout t (cr_path cr) = Some t')
    \<and> walk_ro NoRO (path_perms G layout t (cr_path cr)) = NoRO)"
  using assms(2,3) getFieldPath_typed [OF assms(1)]
  by (auto simp: compileRule_def resolvePath_def Let_def split: if_splits sum.splits val.splits)

lemma Evaluate_readable: "\<exists>b. Evaluate G e False v = Some b"
  by (induction e) (auto simp: equal_Evaluate_def equalFold_Evaluate_def equal_default_def
      split: option.splits val.splits ty.splits)

lemma evaluateRule_typed:
  assumes "reflect_sound G layout" and "kindOf G t \<noteq> KInterface" and "compileRule G p r t = Inr cr"
    and "wt G layout v t"
  shows "\<exists>b. evaluateRule G p cr v = Ret b"
proof -
  have u: "unwrap_elem v = v" using wt_kind [OF assms(4)] assms(2) by (cases v) (auto simp: unwrap_elem_def)
  have dyn: "\<not> dynamic cr" using compileRule_typed [OF assms(1-3)] by blast
  show ?thesis
  proof (cases "wholeElem cr")
    case True
    then show ?thesis using u Evaluate_readable [of G "cr_eval cr" v] by (auto simp: evaluateRule_def ruleValue_def Let_def)
  next
    case False
    then obtain r where r: "walkFieldPath G NoRO v (cr_path cr) = Some r" "\<And>w hidden. r = Some (w, hidden) \<Longrightarrow> \<not> hidden"
      using compileRule_typed [OF assms(1-3)] walk_typed [OF assms(4)] by metis
    show ?thesis
    proof (cases r)
      case None
      then show ?thesis using r u dyn False by (auto simp: evaluateRule_def ruleValue_def Let_def)
    next
      case (Some a)
      obtain w where w: "a = (w, False)" using r(2) Some by (cases a) auto
      then show ?thesis using r u dyn False Some Evaluate_readable [of G "cr_eval cr" w]
        by (auto simp: evaluateRule_def ruleValue_def Let_def)
    qed
  qed
qed

lemma map_result_set: "map_result f xs = Inr ys \<Longrightarrow> y \<in> set ys \<Longrightarrow> \<exists>x \<in> set xs. f x = Inr y"
  by (induction xs arbitrary: ys) (auto simp: map_sum_iff split: sum.splits)

lemma map_result_err: "map_result f xs = Inl e \<Longrightarrow> \<exists>x \<in> set xs. f x = Inl e"
  by (induction xs) (auto simp: map_sum_iff split: sum.splits)

end
