(* ===== verification/FL_Props.thy ===== *)
theory FL_Props
  imports FL_Proofs
begin

text \<open>
  The properties of \<^verbatim>\<open>pkg/filter\<close>. The witnesses use \<open>demo_lib\<close>: one struct type (number 10) with
  a string field \<open>Name\<close>, scalar types, byte-wise case folding and no regular expressions.
\<close>

section \<open>A concrete instance\<close>

definition demo_field :: structField where
  "demo_field = \<lparr>fieldName = ''Name'', PkgPath = [], Index = [0], fieldType = TString, Tag = (\<lambda>_. [])\<rparr>"

definition demo_lib :: golib where
  "demo_lib =
     \<lparr>kindOf = (\<lambda>t. if t = TString then KString else if t = TNamed 10 then KStruct else KOther),
      elemOf = (\<lambda>t. t),
      FieldByName = (\<lambda>t n. if t = TNamed 10 \<and> n = ''Name'' then Some demo_field else None),
      VisibleFields = (\<lambda>t. if t = TNamed 10 then [demo_field] else []),
      fieldPerm = (\<lambda>_ i. if i = 0 then Exported else Hidden),
      Comparable = (\<lambda>_. True), ifaceEq = (\<lambda>a b. Some (a = b)), DeepEqual = (\<lambda>a b. a = b),
      rxCompile = (\<lambda>_. False), rxMatch = (\<lambda>_ _. False), EqualFold = (=), StringsToLower = (\<lambda>s. s)\<rparr>"

definition demo_layout :: "ty \<Rightarrow> ty list" where
  "demo_layout t = (if t = TNamed 10 then [TString] else [])"

definition demo_proc :: processor where
  "demo_proc =
     \<lparr>fieldTag = [], maxDepth = 4, maxRules = 8, maxResults = 10, maxValueLen = 20, maxFilterBytes = 100,
      urlQueryFilterKey = ''filter''\<rparr>"

definition demo_elem :: "bytes \<Rightarrow> val" where
  "demo_elem s = StructV (TNamed 10) [StringV TString s]"

definition demo_rules :: "Rule list list" where
  "demo_rules = [[\<lparr>Field = ''Name'', Type = ''^='', Value = StringV TString ''a''\<rparr>]]"

lemma demo_sound: "reflect_sound demo_lib demo_layout"
  by (auto simp: reflect_sound_def demo_lib_def demo_layout_def demo_field_def Let_def split: if_splits)

lemma demo_wt: "wt demo_lib demo_layout (demo_elem s) (TNamed 10)"
  unfolding demo_elem_def
  by (rule wt_struct) (auto simp: demo_lib_def demo_layout_def intro: wt_leaf)

section \<open>Applying rules\<close>

text \<open>
  C29. A successful \<^verbatim>\<open>ApplySubset\<close> leaves in the slice, in order, the requested window of the
  elements for which every group has a matching rule, and returns its length and the number
  of all such elements; a call that fails leaves the slice untouched.
\<close>

theorem apply_subset_spec:
  assumes "ApplySubset G p rules (SlicePtr t xs) offset len = (result, tgt)"
  shows "case result of
      Ret (n, m) \<Rightarrow> \<exists>gs. compileRules G p rules t = Inr gs \<and>
        (let matches = filter (\<lambda>x. \<forall>g \<in> set gs. \<exists>r \<in> set g. evaluateRule G p r x = Ret True) xs
         in tgt = SlicePtr t (take len (drop offset matches)) \<and> n = length (take len (drop offset matches))
            \<and> m = length matches)
    | _ \<Rightarrow> tgt = SlicePtr t xs"
proof (cases result)
  case (Ret nm)
  obtain n m where nm: "nm = (n, m)" by fastforce
  obtain gs ys where gs: "compileRules G p rules t = Inr gs" "tgt = SlicePtr t ys"
    "filterSliceValue xs offset len (evaluateRules G p gs) = Ret (ys, n, m)"
    using assms Ret nm by (auto simp: ApplySubset_def split: if_splits option.splits sum.splits outcome.splits prod.splits)
  have ret: "\<exists>b. evaluateRules G p gs x = Ret b" if "x \<in> set xs" for x
    using gs(3) select_loop_all that
    by (fastforce simp: filterSliceValue_def selectMatches_def split: outcome.splits prod.splits)
  have "filter (\<lambda>x. evaluateRules G p gs x = Ret True) xs
      = filter (\<lambda>x. \<forall>g \<in> set gs. \<exists>r \<in> set g. evaluateRule G p r x = Ret True) xs"
    using ret evaluateRules_ret [of G p gs] by (intro filter_cong) (metis (full_types))+
  then show ?thesis using filterSlice_spec [OF gs(3)] gs Ret nm by (simp add: Let_def)
qed (use assms in \<open>auto simp: ApplySubset_def split: if_splits option.splits sum.splits outcome.splits prod.splits\<close>)

theorem apply_subset_spec_witness:
  "\<exists>gs. compileRules demo_lib demo_proc demo_rules (TNamed 10) = Inr gs \<and>
     ApplySubset demo_lib demo_proc demo_rules (SlicePtr (TNamed 10) (map demo_elem [''b'', ''ab'', ''a'', ''ac''])) 1 1
       = (Ret (1, 3), SlicePtr (TNamed 10) [demo_elem ''a''])"
proof -
  have e: "ApplySubset demo_lib demo_proc demo_rules (SlicePtr (TNamed 10) (map demo_elem [''b'', ''ab'', ''a'', ''ac''])) 1 1
      = (Ret (1, 3), SlicePtr (TNamed 10) [demo_elem ''a''])" by code_simp
  from apply_subset_spec [OF e] show ?thesis using e by auto
qed

text \<open>
  C30. Elements of a concrete type are filtered without a panic and without an error: once the
  limits hold and the rules compile, \<^verbatim>\<open>ApplySubset\<close> returns, whatever the elements hold, given
  that reflection describes the element type truthfully: index paths lead through embedded
  structs to the type reported, and the package path of a field is empty exactly when the field
  is exported. The panics excluded are those of \<^verbatim>\<open>reflect.Value.Field\<close> and of
  \<^verbatim>\<open>reflect.Value.Interface\<close> on a value read through an unexported field.
\<close>

theorem apply_subset_total:
  assumes "reflect_sound G layout" and "kindOf G t \<noteq> KInterface" and "\<forall>x \<in> set xs. wt G layout x t"
    and "compileRules G p rules t = Inr gs" and "checkRulesCount p rules = None"
    and "1 \<le> len" and "len \<le> maxResults p"
  shows "\<exists>n m tgt. ApplySubset G p rules (SlicePtr t xs) offset len = (Ret (n, m), tgt)"
proof -
  have "\<exists>b. evaluateRule G p cr x = Ret b" if g: "g \<in> set gs" and cr: "cr \<in> set g" and x: "x \<in> set xs" for g cr x
  proof -
    obtain rs where rs: "map_result (\<lambda>r. compileRule G p r t) rs = Inr g"
      using map_result_set [OF assms(4) [unfolded compileRules_def] g] by blast
    obtain r where "compileRule G p r t = Inr cr" using map_result_set [OF rs cr] by blast
    then show ?thesis using evaluateRule_typed [OF assms(1,2)] assms(3) x by blast
  qed
  then have "\<forall>x \<in> set xs. \<exists>b. evaluateRules G p gs x = Ret b" using evaluateRules_total by blast
  then obtain r where "filterSliceValue xs offset len (evaluateRules G p gs) = Ret r"
    using select_loop_fails [of xs "evaluateRules G p gs" len 0 offset "[]" 0]
    by (force simp: filterSliceValue_def selectMatches_def)
  then show ?thesis using assms(4-) by (cases r) (auto simp: ApplySubset_def)
qed

theorem apply_subset_total_witness:
  "\<exists>n m tgt. ApplySubset demo_lib demo_proc demo_rules (SlicePtr (TNamed 10) [demo_elem ''a'', demo_elem ''b'']) 0 5
     = (Ret (n, m), tgt)"
proof -
  have wt: "\<forall>x \<in> set [demo_elem ''a'', demo_elem ''b'']. wt demo_lib demo_layout x (TNamed 10)" using demo_wt by simp
  have k: "kindOf demo_lib (TNamed 10) \<noteq> KInterface" by (simp add: demo_lib_def)
  have "case compileRules demo_lib demo_proc demo_rules (TNamed 10) of Inr _ \<Rightarrow> True | Inl _ \<Rightarrow> False" by code_simp
  then obtain gs where gs: "compileRules demo_lib demo_proc demo_rules (TNamed 10) = Inr gs" by (auto split: sum.splits)
  have c: "checkRulesCount demo_proc demo_rules = None" "1 \<le> (5 :: nat)" "5 \<le> maxResults demo_proc" by code_simp+
  show ?thesis by (rule apply_subset_total [OF demo_sound k wt gs c])
qed

text \<open>
  Negation partitions: on an element whose field is read exactly one of a rule and its
  \<^verbatim>\<open>!\<close> form matches, on one whose field is unreachable neither does. Both compile, or both fail.
\<close>

theorem negation_partition:
  assumes "StringsToLower G (''!'' @ Type r) = ''!'' @ StringsToLower G (Type r)"
    and "\<not> prefix ''!'' (StringsToLower G (Type r))" and "compileRule G p r t = Inr cr"
  shows "\<exists>ncr. compileRule G p (r\<lparr>Type := ''!'' @ Type r\<rparr>) t = Inr ncr
    \<and> (case ruleValue G p cr x of
         Ret (Some (v, hidden)) \<Rightarrow>
           (\<exists>b. evaluateRule G p cr x = Ret b \<and> evaluateRule G p ncr x = Ret (\<not> b))
           \<or> hidden \<and> evaluateRule G p cr x = Crash \<and> evaluateRule G p ncr x = Crash
       | Ret None \<Rightarrow> evaluateRule G p cr x = Ret False \<and> evaluateRule G p ncr x = Ret False
       | Err e \<Rightarrow> evaluateRule G p cr x = Err e \<and> evaluateRule G p ncr x = Err e
       | Crash \<Rightarrow> True)"
proof -
  obtain e where e: "getEvaluator G r = Inr e" and cr: "cr_eval cr = e"
    using assms(3) by (auto simp: compileRule_def Let_def split: if_splits sum.splits val.splits)
  have base: "getBaseTypeEvaluator G (r\<lparr>Type := ''!'' @ Type r\<rparr>) (StringsToLower G (Type r)) = Inr e"
    using e assms(2) by (auto simp: getEvaluator_def getBaseTypeEvaluator_def Let_def split: if_splits)
  then have ne: "getEvaluator G (r\<lparr>Type := ''!'' @ Type r\<rparr>) = Inr (not e)"
    using assms(1) by (simp add: getEvaluator_def Let_def)
  have c: "compileRule G p (r\<lparr>Type := ''!'' @ Type r\<rparr>) t = Inr (cr\<lparr>cr_eval := not e\<rparr>)"
    using assms(3) e ne by (auto simp: compileRule_def Let_def split: if_splits sum.splits)
  have v: "ruleValue G p (cr\<lparr>cr_eval := not e\<rparr>) x = ruleValue G p cr x"
    by (simp add: ruleValue_def dynamicFieldValue_def Let_def)
  have readable: "\<exists>b. Evaluate G e hidden v = Some b" if "\<not> hidden" for hidden v
    using that Evaluate_readable by simp
  have "case ruleValue G p cr x of
         Ret (Some (v, hidden)) \<Rightarrow>
           (\<exists>b. evaluateRule G p cr x = Ret b \<and> evaluateRule G p (cr\<lparr>cr_eval := not e\<rparr>) x = Ret (\<not> b))
           \<or> hidden \<and> evaluateRule G p cr x = Crash \<and> evaluateRule G p (cr\<lparr>cr_eval := not e\<rparr>) x = Crash
       | Ret None \<Rightarrow> evaluateRule G p cr x = Ret False \<and> evaluateRule G p (cr\<lparr>cr_eval := not e\<rparr>) x = Ret False
       | Err e' \<Rightarrow> evaluateRule G p cr x = Err e' \<and> evaluateRule G p (cr\<lparr>cr_eval := not e\<rparr>) x = Err e'
       | Crash \<Rightarrow> True"
  proof (cases "ruleValue G p cr x")
    case (Ret a)
    show ?thesis
    proof (cases a)
      case (Some a')
      obtain w hidden where a': "a' = (w, hidden)" by fastforce
      show ?thesis
      proof (cases "Evaluate G e hidden w")
        case None
        then have "hidden" using readable [of hidden w] by (cases hidden) auto
        then show ?thesis using Ret Some a' v cr None by (simp add: evaluateRule_def)
      qed (use Ret Some a' v cr in \<open>simp add: evaluateRule_def\<close>)
    qed (use Ret v in \<open>simp add: evaluateRule_def\<close>)
  qed (use v in \<open>simp_all add: evaluateRule_def\<close>)
  then show ?thesis using c by blast
qed

theorem negation_partition_witness:
  "\<exists>cr ncr b. compileRule demo_lib demo_proc (hd (hd demo_rules)) (TNamed 10) = Inr cr
     \<and> compileRule demo_lib demo_proc ((hd (hd demo_rules))\<lparr>Type := ''!^=''\<rparr>) (TNamed 10) = Inr ncr
     \<and> evaluateRule demo_lib demo_proc cr (demo_elem ''a'') = Ret b
     \<and> evaluateRule demo_lib demo_proc ncr (demo_elem ''a'') = Ret (\<not> b)"
proof -
  let ?r = "hd (hd demo_rules)"
  have h: "StringsToLower demo_lib (''!'' @ Type ?r) = ''!'' @ StringsToLower demo_lib (Type ?r)"
    "\<not> prefix ''!'' (StringsToLower demo_lib (Type ?r))" by (simp_all add: demo_lib_def demo_rules_def)
  have "case compileRule demo_lib demo_proc ?r (TNamed 10) of
      Inr cr \<Rightarrow> ruleValue demo_lib demo_proc cr (demo_elem ''a'') = Ret (Some (StringV TString ''a'', False)) | Inl _ \<Rightarrow> False"
    by code_simp
  then obtain cr where cr: "compileRule demo_lib demo_proc ?r (TNamed 10) = Inr cr"
    "ruleValue demo_lib demo_proc cr (demo_elem ''a'') = Ret (Some (StringV TString ''a'', False))" by (auto split: sum.splits)
  have t: "''!'' @ Type ?r = ''!^=''" by (simp add: demo_rules_def)
  show ?thesis using negation_partition [OF h cr(1), of "demo_elem ''a''"] cr t by auto
qed

section \<open>Numbers\<close>

text \<open>
  C32. Comparison of numbers: integers of either signedness compare as the integers they
  denote; swapping the operands negates the result, floats and NaN included; and an integer
  up to \<open>2\<^sup>53\<close> equals a float exactly when they denote the same number.
\<close>

theorem numeric_compare_correct:
  "(is_int n \<and> is_int m \<longrightarrow> numeric_compare n m = Some (sgn (int_value n - int_value m)))
   \<and> numeric_compare m n = map_option uminus (numeric_compare n m)
   \<and> (is_int n \<and> \<bar>int_value n\<bar> \<le> 2 ^ 53 \<longrightarrow> numeric_equals n (numericFloat (Fin q)) = (of_int (int_value n) = q))"
proof (intro conjI impI)
  assume "is_int n \<and> is_int m"
  then show "numeric_compare n m = Some (sgn (int_value n - int_value m))"
    using compareInt_exact by (simp add: numeric_compare_def is_int_def)
next
  show "numeric_compare m n = map_option uminus (numeric_compare n m)" by (rule compare_antisym)
next
  assume n: "is_int n \<and> \<bar>int_value n\<bar> \<le> 2 ^ 53"
  then have "numeric_float n = Fin (of_int (int_value n))"
    using float_of_int_small [of "int_value n"] by (cases n) (simp_all add: is_int_def)
  then show "numeric_equals n (numericFloat (Fin q)) = (of_int (int_value n) = q)"
    using n by (auto simp: numeric_equals_def numeric_compare_def cmpFloat_def IsNaN_def is_int_def)
qed

theorem numeric_compare_correct_witness:
  "numeric_compare (numericInt (- 1)) (numericUint (- 1)) = Some (- 1)"
proof -
  have "numeric_compare (numericInt (- 1)) (numericUint (- 1))
      = Some (sgn (int_value (numericInt (- 1)) - int_value (numericUint (- 1))))"
    using numeric_compare_correct [of "numericInt (- 1)" "numericUint (- 1)"] by (simp add: is_int_def)
  then show ?thesis by (simp add: unsigned_minus_1_eq_mask mask_eq_exp_minus_1)
qed

section \<open>Errors and limits\<close>

lemma evaluator_err: "getEvaluator G r = Inl e \<Longrightarrow> isErrInvalidFilter e"
  by (auto simp: getEvaluator_def getBaseTypeEvaluator_def newRegexp_def newHasPrefix_def newHasSuffix_def
      newContains_def newLT_def newLTE_def newGT_def newGTE_def newOrder_def convertFloatValue_def string_ref_def isErrInvalidFilter_def Let_def map_sum_iff
      split: if_splits sum.splits val.splits ty.splits)

lemma path_err: "getFieldPath G p t names = Inl e \<Longrightarrow> e = errFieldNotFound \<or> isErrInvalidFilter e"
  by (induction G p t names rule: getFieldPath.induct)
    (auto simp: Let_def getStructField_def isErrInvalidFilter_def map_sum_iff split: if_splits sum.splits option.splits)

lemma resolve_err: "resolvePath G p t path = Inl e \<Longrightarrow> e = errFieldNotFound \<or> isErrInvalidFilter e"
  using path_err by (fastforce simp: resolvePath_def isErrInvalidFilter_def split: if_splits)

lemma compile_err: "compileRule G p r t = Inl e \<Longrightarrow> isErrInvalidFilter e"
  using evaluator_err [of G r] resolve_err [of G p t "Field r"]
  by (auto simp: compileRule_def Let_def isErrInvalidFilter_def split: if_splits sum.splits val.splits)

lemma eval_err: "evaluateRule G p cr x = Err e \<Longrightarrow> isErrInvalidFilter e"
proof -
  have walk: "of_walk w \<noteq> Err e" for w by (cases w) auto
  assume "evaluateRule G p cr x = Err e"
  then have "ruleValue G p cr x = Err e" by (auto simp: evaluateRule_def split: outcome.splits option.splits)
  then show ?thesis
    using resolve_err walk by (fastforce simp: ruleValue_def dynamicFieldValue_def Let_def split: if_splits sum.splits)
qed

lemma rules_err: "evaluateRules G p gs x = Err e \<Longrightarrow> isErrInvalidFilter e"
proof (induction gs)
  case (Cons g gs)
  have "or_loop G p rs x = Err e \<Longrightarrow> isErrInvalidFilter e" for rs
    by (induction rs) (auto split: outcome.splits if_splits dest: eval_err)
  then show ?case using Cons by (auto split: outcome.splits if_splits)
qed simp

lemma select_err: "select_loop matcher len xs i skip sel tot = Err e \<Longrightarrow> \<exists>x. matcher x = Err e"
  by (induction matcher len xs i skip sel tot rule: select_loop.induct) (auto split: outcome.splits if_splits)

lemma count_err: "count_loop gs i c = Inl e \<Longrightarrow> isErrInvalidFilter e"
  by (induction gs i c rule: count_loop.induct) (auto simp: isErrInvalidFilter_def split: if_splits)

text \<open>
  Every error of \<^verbatim>\<open>ApplySubset\<close> other than the misuse of its own arguments wraps
  \<^verbatim>\<open>ErrInvalidFilter\<close>; in particular the internal not-found error never escapes.
\<close>

theorem apply_errors:
  assumes "ApplySubset G p rules tgt offset len = (Err e, tgt')"
  shows "isErrInvalidFilter e \<or> e = LengthTooSmall \<and> len < 1 \<or> e = LengthTooLarge \<and> maxResults p < len
    \<or> e = NotSlicePointer \<and> tgt = OtherTarget"
proof -
  have comp: "isErrInvalidFilter e" if "compileRules G p rules t = Inl e" for t
    using map_result_err [OF that [unfolded compileRules_def]] map_result_err compile_err by blast
  have filt: "isErrInvalidFilter e" if "filterSliceValue xs offset len (evaluateRules G p gs) = Err e" for xs gs
    using that select_err rules_err
    by (fastforce simp: filterSliceValue_def selectMatches_def split: outcome.splits)
  have count: "isErrInvalidFilter e" if "checkRulesCount p rules = Some e"
    using that count_err by (fastforce simp: checkRulesCount_def isErrInvalidFilter_def split: if_splits sum.splits)
  show ?thesis
    using assms comp filt count
    by (auto simp: ApplySubset_def split: if_splits option.splits target.splits sum.splits outcome.splits)
qed

theorem apply_errors_witness:
  "isErrInvalidFilter (UnknownSelector ''Age'') \<and>
   ApplySubset demo_lib demo_proc [[\<lparr>Field = ''Age'', Type = ''=='', Value = Invalid\<rparr>]] (SlicePtr (TNamed 10) []) 0 1
     = (Err (UnknownSelector ''Age''), SlicePtr (TNamed 10) [])"
proof -
  have e: "ApplySubset demo_lib demo_proc [[\<lparr>Field = ''Age'', Type = ''=='', Value = Invalid\<rparr>]] (SlicePtr (TNamed 10) []) 0 1
      = (Err (UnknownSelector ''Age''), SlicePtr (TNamed 10) [])" by code_simp
  from apply_errors [OF e] show ?thesis using e by simp
qed

section \<open>The cache of field paths\<close>

definition cache_ok :: "golib \<Rightarrow> processor \<Rightarrow> fieldCache \<Rightarrow> bool" where
  "cache_ok G p c \<longleftrightarrow> cacheCount c = maplen (cache c) \<and> cacheCount c \<le> cache_ceiling c
     \<and> (\<forall>t path r. fmlookup (cache c) (t, path) = Some r \<longrightarrow> getFieldPath G p t (Split path (CHR ''.'')) = Inr r)"

text \<open>
  The cache of resolved paths changes no result and stays within its ceiling: from an
  empty cache on, a resolution with the cache returns what a resolution without it returns,
  and the count of entries is exact and never exceeds 16384 (or the configured number).
\<close>

theorem path_cache_invariant:
  assumes "cache_ok G p c"
  shows "fst (resolvePath_cached G p t path c) = resolvePath G p t path
    \<and> cache_ok G p (snd (resolvePath_cached G p t path c))"
proof (cases "maxDepth p < depth_of path \<or> cache_Get t path c \<noteq> None")
  case True
  then show ?thesis
    using assms by (auto simp: resolvePath_cached_def resolvePath_def cache_Get_def cache_ok_def)
next
  case False
  then have miss: "\<not> maxDepth p < depth_of path" "fmlookup (cache c) (t, path) = None" by (auto simp: cache_Get_def)
  show ?thesis
  proof (cases "getFieldPath G p t (Split path (CHR ''.''))")
    case (Inl e)
    then show ?thesis using miss assms by (simp add: resolvePath_cached_def resolvePath_def cache_Get_def)
  next
    case (Inr r)
    have "cache_ok G p (cache_Set t path r c)"
      using assms Inr miss(2) by (auto simp: cache_ok_def cache_Set_def cache_ceiling_def maplen_upd)
    then show ?thesis using miss Inr by (simp add: resolvePath_cached_def resolvePath_def cache_Get_def)
  qed
qed

theorem path_cache_invariant_witness:
  "fst (resolvePath_cached demo_lib demo_proc (TNamed 10) ''Name'' \<lparr>cache = fmempty, cacheCount = 0, maxEntries = 0\<rparr>)
     = Inr [0]"
proof -
  have "cache_ok demo_lib demo_proc \<lparr>cache = fmempty, cacheCount = 0, maxEntries = 0\<rparr>" by (simp add: cache_ok_def)
  moreover have "resolvePath demo_lib demo_proc (TNamed 10) ''Name'' = Inr [0]" by code_simp
  ultimately show ?thesis using path_cache_invariant by auto
qed

end
