(* ===== verification/RT_Backoff.thy ===== *)
theory RT_Backoff
  imports Go_Prelude Go_Float
begin

text \<open>
  \<^verbatim>\<open>pkg/backoff/backoff.go\<close>: the calculator of retry delays.

  \<^item> The random source \<^verbatim>\<open>rand.Int64N\<close> is the argument \<open>rnd\<close>, one function per call; what the
    code relies on is \<open>Int64N_law\<close>: a draw below its positive argument.
  \<^item> Durations are integers; the one addition that may leave the 64-bit range wraps
    explicitly. The conversion of a float to \<^verbatim>\<open>int64\<close> is unspecified out of range, as in Go.

  The lemmas show that every delay is in range whatever the configuration, where it lies in
  the jitter window, that the delays before jitter never shrink for a factor of at least one,
  and that they are the exact exponential sequence cut at the maximum for whole factors.
\<close>

section \<open>Sixty-four bit integers\<close>

definition MaxInt64 :: int where "MaxInt64 = 2 ^ 63 - 1"

definition is_int64 :: "int \<Rightarrow> bool" where
  "is_int64 n \<longleftrightarrow> - (2 ^ 63) \<le> n \<and> n < 2 ^ 63"

definition wrap64 :: "int \<Rightarrow> int" where
  "wrap64 n = (n + 2 ^ 63) mod 2 ^ 64 - 2 ^ 63"

definition int64_of :: "float64 \<Rightarrow> int" where
  "int64_of f = (case float_trunc f of Some n \<Rightarrow> n | None \<Rightarrow> undefined)"

section \<open>Jitter\<close>

definition JitterAdditive :: int where "JitterAdditive = 0"
definition JitterFull :: int where "JitterFull = 1"
definition JitterEqual :: int where "JitterEqual = 2"

definition Valid :: "int \<Rightarrow> bool" where
  "Valid s \<longleftrightarrow> JitterAdditive \<le> s \<and> s \<le> JitterEqual"

definition addJitterValue :: "int \<Rightarrow> int \<Rightarrow> int" where
  "addJitterValue base jitter =
     (let sum = wrap64 (base + jitter) in if sum < base then MaxInt64 else sum)"

definition AddJitter :: "(int \<Rightarrow> int) \<Rightarrow> duration \<Rightarrow> duration \<Rightarrow> duration" where
  "AddJitter rnd base ceil = (if ceil \<le> 0 then base else addJitterValue base (rnd ceil))"

section \<open>Schedules\<close>

record Config =
  Base :: duration
  Factor :: float64
  Jitter :: duration
  MaxDelay :: duration
  Strategy :: int

record Schedule =
  next_delay :: float64
  factor :: float64
  jitter :: duration
  maxDelay :: duration
  strategy :: int

definition maxSafeDelay :: duration where "maxSafeDelay = MaxInt64 div 2"

definition schedule_New :: "Config \<Rightarrow> Schedule" where
  "schedule_New cfg =
     \<lparr>next_delay = float_of_int (Base cfg), factor = Factor cfg, jitter = Jitter cfg,
      maxDelay = MaxDelay cfg, strategy = Strategy cfg\<rparr>"

definition applyJitter :: "(int \<Rightarrow> int) \<Rightarrow> Schedule \<Rightarrow> duration \<Rightarrow> duration" where
  "applyJitter rnd s delay =
     (if strategy s = JitterFull then AddJitter rnd 0 delay
      else if strategy s = JitterEqual
        then (let half = go_div delay 2 in AddJitter rnd half (delay - half))
      else AddJitter rnd delay (jitter s))"

text \<open>The delay before jitter, and the progression after a call.\<close>

definition clamp :: "Schedule \<Rightarrow> duration" where
  "clamp s = (if maxDelay s \<le> 0 \<or> maxSafeDelay < maxDelay s then maxSafeDelay else maxDelay s)"

definition clamped :: "Schedule \<Rightarrow> float64" where
  "clamped s =
     (let delay = (if IsNaN (next_delay s) \<or> float_less (next_delay s) (float_of_int 0)
                   then float_of_int 0 else next_delay s)
      in if float_less (float_of_int (clamp s)) delay then float_of_int (clamp s) else delay)"

definition grown :: "Schedule \<Rightarrow> float64" where
  "grown s =
     (let n = float_mul (next_delay s) (factor s)
      in if float_less (float_of_int maxSafeDelay) n then float_of_int maxSafeDelay else n)"

definition schedule_Next :: "(int \<Rightarrow> int) \<Rightarrow> Schedule \<Rightarrow> duration \<times> Schedule" where
  "schedule_Next rnd s =
     (applyJitter rnd s (int64_of (clamped s)), s\<lparr>next_delay := grown s\<rparr>)"

text \<open>The schedule before its n-th call.\<close>

fun schedule_at :: "(nat \<Rightarrow> int \<Rightarrow> int) \<Rightarrow> Config \<Rightarrow> nat \<Rightarrow> Schedule" where
  "schedule_at rnd cfg 0 = schedule_New cfg"
| "schedule_at rnd cfg (Suc n) = snd (schedule_Next (rnd n) (schedule_at rnd cfg n))"

definition pre_delay :: "Schedule \<Rightarrow> duration" where
  "pre_delay s = int64_of (clamped s)"

text \<open>The n-th delay.\<close>

definition delay_at :: "(nat \<Rightarrow> int \<Rightarrow> int) \<Rightarrow> Config \<Rightarrow> nat \<Rightarrow> duration" where
  "delay_at rnd cfg n = fst (schedule_Next (rnd n) (schedule_at rnd cfg n))"

definition Int64N_law :: "(int \<Rightarrow> int) \<Rightarrow> bool" where
  "Int64N_law rnd \<longleftrightarrow> (\<forall>n > 0. 0 \<le> rnd n \<and> rnd n < n)"

section \<open>Jitter never wraps\<close>

lemma Int64N_lawD: "Int64N_law rnd \<Longrightarrow> 0 < n \<Longrightarrow> 0 \<le> rnd n \<and> rnd n < n"
  by (simp add: Int64N_law_def)

lemma addJitterValue_eq:
  assumes "0 \<le> b" "b \<le> MaxInt64" "0 \<le> j" "j \<le> MaxInt64"
  shows "addJitterValue b j = min (b + j) MaxInt64"
proof (cases "b + j \<le> MaxInt64")
  case True
  then have "wrap64 (b + j) = b + j"
    using assms unfolding wrap64_def MaxInt64_def by (subst mod_pos_pos_trivial) auto
  then show ?thesis using True assms by (simp add: addJitterValue_def)
next
  case False
  have "(b + j + 2 ^ 63) mod 2 ^ 64 = b + j + 2 ^ 63 - 2 ^ 64"
    using False assms by (simp add: MaxInt64_def mod_pos_geq)
  then have "wrap64 (b + j) < b" using assms by (simp add: wrap64_def MaxInt64_def)
  then show ?thesis using False by (simp add: addJitterValue_def)
qed

lemma AddJitter_range:
  assumes "Int64N_law rnd" "0 \<le> b" "b \<le> MaxInt64" "c \<le> MaxInt64"
  shows "b \<le> AddJitter rnd b c" "AddJitter rnd b c \<le> MaxInt64"
    "AddJitter rnd b c \<le> b + max 0 (c - 1)"
proof -
  have "0 < c \<Longrightarrow> addJitterValue b (rnd c) = min (b + rnd c) MaxInt64"
    using assms Int64N_lawD [OF assms(1)] by (intro addJitterValue_eq) force+
  then show "b \<le> AddJitter rnd b c" "AddJitter rnd b c \<le> MaxInt64"
    "AddJitter rnd b c \<le> b + max 0 (c - 1)"
    using assms Int64N_lawD [OF assms(1), of c] by (auto simp: AddJitter_def)
qed

section \<open>The delay before jitter\<close>

lemma float_of_maxSafeDelay: "float_of_int maxSafeDelay = Fin (2 ^ 62)"
proof -
  let ?x = "of_int maxSafeDelay :: rat"
  have x: "?x = 4611686018427387903" by (simp add: maxSafeDelay_def MaxInt64_def)
  have "lead ?x = 61" unfolding x by (rule lead_eq) simp_all
  then have p: "last_place ?x = 9" by (simp add: last_place_def)
  have f: "\<lfloor>4611686018427387903 / 512 :: rat\<rfloor> = 9007199254740991" by (rule floor_unique) simp_all
  have "half_even (4611686018427387903 / 512) = 9007199254740992"
    unfolding half_even_def f by (simp add: Let_def)
  then have "round_pos ?x = 4611686018427387904" unfolding round_pos_def p by (simp add: x)
  moreover have "(4611686018427387904 :: rat) < 2 ^ 1024"
    using power_strict_increasing [of 62 1024 "2 :: rat"] by simp
  ultimately show ?thesis unfolding float_of_int_def fround_def x by simp
qed

lemma clamp_bounds: "0 < clamp s" "clamp s \<le> maxSafeDelay"
  by (auto simp: clamp_def maxSafeDelay_def MaxInt64_def)

lemma float_of_clamp:
  obtains v where "float_of_int (clamp s) = Fin v" "0 \<le> v" "v \<le> 2 ^ 62" "representable v"
    "clamp s \<le> 2 ^ 53 \<Longrightarrow> v = of_int (clamp s)"
proof -
  have "clamp s \<le> 2 ^ 62" using clamp_bounds(2) [of s] by (simp add: maxSafeDelay_def MaxInt64_def)
  then obtain v where v: "float_of_int (clamp s) = Fin v" "0 \<le> v" "v \<le> 2 ^ 62" "representable v"
    using float_of_int_pos [of "clamp s" 62] clamp_bounds(1) [of s] by auto
  moreover have "v = of_int (clamp s)" if "clamp s \<le> 2 ^ 53"
    using float_of_int_small [of "clamp s"] clamp_bounds(1) [of s] v(1) that by simp
  ultimately show thesis using that by blast
qed

lemma float_zero [simp]: "float_of_int 0 = Fin 0"
  using float_of_int_small [of 0] by simp

lemma clamped_Fin:
  obtains v where "clamped s = Fin v" "0 \<le> v" "v \<le> 2 ^ 62" "clamp s \<le> 2 ^ 53 \<Longrightarrow> v \<le> of_int (clamp s)"
proof -
  obtain c where c: "float_of_int (clamp s) = Fin c" "0 \<le> c" "c \<le> 2 ^ 62"
    "clamp s \<le> 2 ^ 53 \<Longrightarrow> c = of_int (clamp s)" using float_of_clamp [of s] by blast
  show thesis
  proof (cases "next_delay s")
    case (Fin v)
    have "clamped s = Fin (if v < 0 then 0 else if c < v then c else v)"
      using c(1,2) Fin by (simp add: clamped_def IsNaN_def)
    then show thesis by (rule that) (use c clamp_bounds(1) [of s] in auto)
  next
    case (Inf neg)
    have "clamped s = Fin (if neg then 0 else c)"
      using c(1,2) Inf by (simp add: clamped_def IsNaN_def)
    then show thesis by (rule that) (use c clamp_bounds(1) [of s] in auto)
  next
    case NaN
    then have "clamped s = Fin 0" using c(1,2) by (simp add: clamped_def IsNaN_def)
    then show thesis by (rule that) (use clamp_bounds(1) [of s] in auto)
  qed
qed

lemma clamped_Fin_eq:
  "next_delay s = Fin v \<Longrightarrow> 0 \<le> v \<Longrightarrow> float_of_int (clamp s) = Fin c \<Longrightarrow> clamped s = Fin (min c v)"
  by (simp add: clamped_def IsNaN_def)

lemma int64_of_floor:
  assumes "0 \<le> v" "v \<le> 2 ^ 62"
  shows "int64_of (Fin v) = \<lfloor>v\<rfloor>"
proof -
  have "\<lfloor>v\<rfloor> \<le> 2 ^ 62" using assms(2) by (simp add: floor_le_iff)
  moreover have "0 \<le> \<lfloor>v\<rfloor>" using assms(1) by simp
  ultimately show ?thesis using assms(1) by (simp add: int64_of_def Let_def)
qed

lemma pre_delay_range:
  "0 \<le> pre_delay s" "pre_delay s \<le> 2 ^ 62" "clamp s \<le> 2 ^ 53 \<Longrightarrow> pre_delay s \<le> clamp s"
proof -
  obtain v where v: "clamped s = Fin v" "0 \<le> v" "v \<le> 2 ^ 62" "clamp s \<le> 2 ^ 53 \<Longrightarrow> v \<le> of_int (clamp s)"
    using clamped_Fin [of s] by blast
  have eq: "pre_delay s = \<lfloor>v\<rfloor>" using v int64_of_floor by (simp add: pre_delay_def)
  show "0 \<le> pre_delay s" "pre_delay s \<le> 2 ^ 62"
    using v by (simp_all add: eq floor_le_iff)
  show "pre_delay s \<le> clamp s" if "clamp s \<le> 2 ^ 53"
    using v(4) [OF that] by (simp add: eq floor_le_iff)
qed

section \<open>Growth\<close>

text \<open>A progression of representable values at or above zero, capped from its first step on.\<close>

definition progressing :: "Schedule \<Rightarrow> bool" where
  "progressing s \<longleftrightarrow>
     (\<exists>v. next_delay s = Fin v \<and> 0 \<le> v \<and> representable v)
     \<and> (\<exists>f \<ge> 1. factor s = Fin f) "

lemma clamped_mono:
  assumes "next_delay s = Fin v" "next_delay t = Fin w" "v \<le> w \<or> 2 ^ 62 \<le> w" "0 \<le> v" "maxDelay t = maxDelay s"
  shows "pre_delay s \<le> pre_delay t"
proof -
  obtain c where c: "float_of_int (clamp s) = Fin c" "0 \<le> c" "c \<le> 2 ^ 62"
    using float_of_clamp [of s] by blast
  have t: "clamp t = clamp s" using assms(5) by (simp add: clamp_def)
  have "w \<ge> 0" using assms(3,4) by (auto intro: order_trans [of 0 "2 ^ 62"])
  then have eq: "clamped s = Fin (min c v)" "clamped t = Fin (min c w)"
    using assms c(1) t clamped_Fin_eq by simp_all
  have "min c v \<le> min c w" using assms(3) c(3) by auto
  then show ?thesis
    using eq c assms(4) \<open>w \<ge> 0\<close> int64_of_floor [of "min c v"] int64_of_floor [of "min c w"]
    by (simp add: pre_delay_def floor_mono min.coboundedI1)
qed

lemma grown_mono:
  assumes "progressing s"
  obtains v w where "next_delay s = Fin v" "0 \<le> v" "grown s = Fin w" "v \<le> w \<or> w = 2 ^ 62" "0 \<le> w" "representable w"
proof -
  obtain v f where v: "next_delay s = Fin v" "0 \<le> v" "representable v" and f: "1 \<le> f" "factor s = Fin f"
    using assms by (auto simp: progressing_def)
  have mul: "float_mul (next_delay s) (factor s) = fround (v * f)" by (simp add: v f)
  have vf: "v \<le> v * f" using v f mult_left_mono [of 1 f v] by simp
  show thesis
  proof (cases "v = 0")
    case True
    then have "grown s = Fin 0" by (simp add: grown_def mul float_of_maxSafeDelay fround_def)
    then show thesis using that [OF v(1,2)] True representable_of_int [of 0] by simp
  next
    case False
    then have pos: "0 < v * f" using v(2) vf by linarith
    show thesis
    proof (cases "fround (v * f)")
      case (Fin w)
      have "v \<le> w" using fround_ge [OF v(3) pos vf] Fin by simp
      have "grown s = Fin (if 2 ^ 62 < w then 2 ^ 62 else w)"
        by (simp add: grown_def mul Fin float_of_maxSafeDelay)
      then show thesis
        by (rule that [OF v(1,2)]) (use \<open>v \<le> w\<close> v(2) fround_representable [OF Fin] representable_power [of 62] in auto)
    next
      case (Inf neg)
      then have "\<not> neg" using pos by (simp add: fround_def split: if_splits)
      then have "grown s = Fin (2 ^ 62)" by (simp add: grown_def mul Inf float_of_maxSafeDelay)
      then show thesis by (rule that [OF v(1,2)]) (use representable_power [of 62] in auto)
    qed (use pos in \<open>simp add: fround_def split: if_splits\<close>)
  qed
qed

lemma progressing_Next:
  assumes "progressing s"
  shows "progressing (snd (schedule_Next rnd s))" "pre_delay s \<le> pre_delay (snd (schedule_Next rnd s))"
proof -
  obtain v w where g: "next_delay s = Fin v" "0 \<le> v" "grown s = Fin w" "v \<le> w \<or> w = 2 ^ 62" "0 \<le> w" "representable w"
    using grown_mono [OF assms] by blast
  show "progressing (snd (schedule_Next rnd s))"
    using assms g by (auto simp: progressing_def schedule_Next_def)
  show "pre_delay s \<le> pre_delay (snd (schedule_Next rnd s))"
    by (rule clamped_mono [OF g(1) _ _ g(2)]) (use g in \<open>auto simp: schedule_Next_def\<close>)
qed

lemma progressing_at:
  assumes "0 \<le> Base cfg" "is_int64 (Base cfg)" "Factor cfg = Fin f" "1 \<le> f"
  shows "progressing (schedule_at rnd cfg n)"
proof (induction n)
  case 0
  have "\<exists>v. float_of_int (Base cfg) = Fin v \<and> 0 \<le> v \<and> representable v"
  proof (cases "Base cfg = 0")
    case True
    then show ?thesis using representable_of_int [of 0] by simp
  next
    case False
    then have "0 < Base cfg" "Base cfg \<le> 2 ^ 63" using assms(1,2) by (simp_all add: is_int64_def)
    then show ?thesis by (rule float_of_int_pos) auto
  qed
  then show ?case using assms(3,4) by (auto simp: progressing_def schedule_New_def)
qed (use progressing_Next in simp)

section \<open>The exponential sequence\<close>

lemma grown_exact:
  assumes "next_delay s = Fin (of_int b)" "factor s = Fin (of_int f)" "0 \<le> b" "1 \<le> f" "b * f \<le> 2 ^ 53"
  shows "grown s = Fin (of_int (b * f))"
proof -
  have "\<bar>b * f\<bar> \<le> 2 ^ 53" using assms by simp
  then have "float_mul (next_delay s) (factor s) = Fin (of_int (b * f))"
    using float_of_int_small [of "b * f"] by (simp add: assms(1,2) float_of_int_def)
  moreover have "\<not> (2 :: rat) ^ 62 < of_int (b * f)"
  proof -
    have "b * f \<le> 2 ^ 62" using assms(5) by simp
    then have "(of_int (b * f) :: rat) \<le> of_int (2 ^ 62)" by (simp only: of_int_le_iff)
    then show ?thesis by simp
  qed
  ultimately show ?thesis by (simp add: grown_def float_of_maxSafeDelay)
qed

lemma factor_at [simp]: "factor (schedule_at rnd cfg n) = Factor cfg"
  by (induction n) (simp_all add: schedule_New_def schedule_Next_def)

lemma maxDelay_at [simp]: "maxDelay (schedule_at rnd cfg n) = MaxDelay cfg"
  by (induction n) (simp_all add: schedule_New_def schedule_Next_def)

lemma strategy_at [simp]: "strategy (schedule_at rnd cfg n) = Strategy cfg"
  by (induction n) (simp_all add: schedule_New_def schedule_Next_def)

lemma jitter_at [simp]: "jitter (schedule_at rnd cfg n) = Jitter cfg"
  by (induction n) (simp_all add: schedule_New_def schedule_Next_def)

text \<open>The progression is exact up to \<open>2\<^sup>53\<close> and stays above once it has passed it.\<close>

lemma progression_exact:
  assumes "0 \<le> Base cfg" "Base cfg \<le> 2 ^ 53" "Factor cfg = Fin (of_int f)" "1 \<le> f"
  shows "if Base cfg * f ^ n \<le> 2 ^ 53
         then next_delay (schedule_at rnd cfg n) = Fin (of_int (Base cfg * f ^ n))
         else \<exists>w. next_delay (schedule_at rnd cfg n) = Fin w \<and> 2 ^ 53 \<le> w"
proof (induction n)
  case 0
  then show ?case using assms float_of_int_small [of "Base cfg"] by (simp add: schedule_New_def)
next
  case (Suc n)
  let ?s = "schedule_at rnd cfg n" and ?b = "Base cfg * f ^ n"
  have nx: "next_delay (schedule_at rnd cfg (Suc n)) = grown ?s" by (simp add: schedule_Next_def)
  have p: "progressing ?s"
    by (rule progressing_at [OF assms(1) _ assms(3)]) (use assms in \<open>simp_all add: is_int64_def\<close>)
  have step: "Base cfg * f ^ Suc n = ?b * f" by simp
  have "?b \<le> ?b * f" using assms(1,4) mult_left_mono [of 1 f ?b] by simp
  show ?case
  proof (cases "?b * f \<le> 2 ^ 53")
    case True
    then have "next_delay ?s = Fin (of_int ?b)" using Suc \<open>?b \<le> ?b * f\<close> by simp
    then have "grown ?s = Fin (of_int (?b * f))"
      using assms True by (intro grown_exact) simp_all
    then show ?thesis using True unfolding nx step by simp
  next
    case False
    obtain v w where g: "next_delay ?s = Fin v" "0 \<le> v" "grown ?s = Fin w" "v \<le> w \<or> w = 2 ^ 62"
      using grown_mono [OF p] by blast
    have "2 ^ 53 \<le> w"
    proof (cases "?b \<le> 2 ^ 53")
      case True
      then have v: "v = of_int ?b" using Suc g(1) by simp
      have "(2 :: rat) ^ 53 \<le> v * of_int f"
      proof -
        have "(of_int (2 ^ 53) :: rat) \<le> of_int (?b * f)" using False by (simp only: of_int_le_iff)
        then show ?thesis by (simp add: v)
      qed
      then have "\<not> float_less (fround (v * of_int f)) (Fin (2 ^ 53))"
        by (intro fround_ge representable_power) (auto intro: less_le_trans [of 0 "2 ^ 53"])
      then show ?thesis using g(1,3) assms(3)
        by (cases "fround (v * of_int f)") (auto simp: grown_def float_of_maxSafeDelay split: if_splits)
    next
      case False
      then show ?thesis using Suc g by auto
    qed
    then show ?thesis using False g(3) unfolding nx step by auto
  qed
qed

lemma pre_delay_exact:
  assumes "0 \<le> Base cfg" "Base cfg \<le> 2 ^ 53" "Factor cfg = Fin (of_int f)" "1 \<le> f"
    "0 < MaxDelay cfg" "MaxDelay cfg \<le> 2 ^ 53"
  shows "pre_delay (schedule_at rnd cfg n) = min (Base cfg * f ^ n) (MaxDelay cfg)"
proof -
  let ?s = "schedule_at rnd cfg n"
  define b where "b = Base cfg * f ^ n"
  have b: "0 \<le> b" using assms(1,4) by (simp add: b_def)
  have c: "clamp ?s = MaxDelay cfg" using assms(5,6) by (simp add: clamp_def maxSafeDelay_def MaxInt64_def)
  have fc: "float_of_int (clamp ?s) = Fin (of_int (MaxDelay cfg))"
    using float_of_int_small [of "MaxDelay cfg"] assms(5,6) c by simp
  have "clamped ?s = Fin (of_int (min b (MaxDelay cfg)))"
  proof (cases "b \<le> 2 ^ 53")
    case True
    then have "next_delay ?s = Fin (of_int b)" using progression_exact [OF assms(1-4), of n rnd] unfolding b_def by simp
    then have "clamped ?s = Fin (min (of_int (MaxDelay cfg)) (of_int b))"
      using b fc by (intro clamped_Fin_eq) simp_all
    then show ?thesis by (simp add: min.commute of_int_min)
  next
    case False
    then obtain w where w: "next_delay ?s = Fin w" "2 ^ 53 \<le> w"
      using progression_exact [OF assms(1-4), of n rnd] unfolding b_def by auto
    have "(of_int (MaxDelay cfg) :: rat) \<le> of_int (2 ^ 53)" using assms(6) by (simp only: of_int_le_iff)
    then have "of_int (MaxDelay cfg) \<le> w" "0 \<le> w" using w(2) by auto
    then have "clamped ?s = Fin (of_int (MaxDelay cfg))"
      using clamped_Fin_eq [OF w(1) _ fc] by simp
    then show ?thesis using False assms(6) by simp
  qed
  moreover have "0 \<le> min b (MaxDelay cfg)" using assms(5) b by simp
  moreover have "(of_int (min b (MaxDelay cfg)) :: rat) \<le> of_int (2 ^ 62)"
    using assms(6) by (simp only: of_int_le_iff) simp
  ultimately show ?thesis
    using int64_of_floor [of "of_int (min b (MaxDelay cfg))"] by (simp add: pre_delay_def flip: b_def)
qed

section \<open>The jitter window\<close>

lemma applyJitter_range:
  assumes "Int64N_law rnd" "0 \<le> d" "d \<le> MaxInt64" "jitter s \<le> MaxInt64"
  shows "0 \<le> applyJitter rnd s d" "applyJitter rnd s d \<le> MaxInt64"
    "if strategy s = JitterFull then applyJitter rnd s d \<le> max 0 (d - 1)
     else if strategy s = JitterEqual then d div 2 \<le> applyJitter rnd s d \<and> applyJitter rnd s d \<le> max 0 (d - 1)
     else d \<le> applyJitter rnd s d \<and> applyJitter rnd s d \<le> d + max 0 (jitter s - 1)"
proof -
  have h: "0 \<le> d div 2" "d div 2 \<le> MaxInt64" "d - d div 2 \<le> MaxInt64" using assms(2,3) by linarith+
  have "d div 2 + max 0 (d - d div 2 - 1) \<le> max 0 (d - 1)" using assms(2) by linarith
  then have half': "AddJitter rnd (d div 2) (d - d div 2) \<le> max 0 (d - 1)" using AddJitter_range(3) [OF assms(1) h] by linarith
  have m: "0 \<le> MaxInt64" by (simp add: MaxInt64_def)
  consider (full) "strategy s = JitterFull" | (half) "strategy s = JitterEqual" "strategy s \<noteq> JitterFull"
    | (add) "strategy s \<noteq> JitterFull" "strategy s \<noteq> JitterEqual" by blast
  then have "0 \<le> applyJitter rnd s d \<and> applyJitter rnd s d \<le> MaxInt64 \<and>
    (if strategy s = JitterFull then applyJitter rnd s d \<le> max 0 (d - 1)
     else if strategy s = JitterEqual then d div 2 \<le> applyJitter rnd s d \<and> applyJitter rnd s d \<le> max 0 (d - 1)
     else d \<le> applyJitter rnd s d \<and> applyJitter rnd s d \<le> d + max 0 (jitter s - 1))"
  proof cases
    case full
    then have "applyJitter rnd s d = AddJitter rnd 0 d" by (simp add: applyJitter_def)
    then show ?thesis using full \<open>0 \<le> MaxInt64\<close> AddJitter_range [OF assms(1) _ m assms(3)] by simp
  next
    case half
    then have eq: "applyJitter rnd s d = AddJitter rnd (d div 2) (d - d div 2)"
      using assms(2) by (simp add: applyJitter_def Let_def)
    show ?thesis unfolding eq
      using half half' order_trans [OF h(1) AddJitter_range(1) [OF assms(1) h]] AddJitter_range(1,2) [OF assms(1) h] by simp
  next
    case add
    then have "applyJitter rnd s d = AddJitter rnd d (jitter s)" by (simp add: applyJitter_def)
    then show ?thesis using add assms(2) AddJitter_range [OF assms(1) assms(2,3,4)] by simp
  qed
  then show "0 \<le> applyJitter rnd s d" "applyJitter rnd s d \<le> MaxInt64"
    "if strategy s = JitterFull then applyJitter rnd s d \<le> max 0 (d - 1)
     else if strategy s = JitterEqual then d div 2 \<le> applyJitter rnd s d \<and> applyJitter rnd s d \<le> max 0 (d - 1)
     else d \<le> applyJitter rnd s d \<and> applyJitter rnd s d \<le> d + max 0 (jitter s - 1)" by blast+
qed

end
