(* ===== verification/RT_Loop.thy ===== *)
theory RT_Loop
  imports RT_Backoff "HOL-Library.Word"
begin

text \<open>
  What the retry loops of \<^verbatim>\<open>pkg/retrier\<close> and \<^verbatim>\<open>pkg/httpretrier\<close> share: the environment of one
  call, Go's \<^verbatim>\<open>select\<close> over the context and the timer, and the contract of an attempt. The
  locale \<open>attempt_loop\<close> states the contract and proves once what follows from it for a loop of
  that shape: it always returns, after at most as many attempts as remain.

  The environment fixes everything the call does not control: the context error seen by each
  \<^verbatim>\<open>select\<close> and after each attempt, which of two ready cases \<^verbatim>\<open>select\<close> takes, and the random
  draws. A context that has ended stays ended with the same error (\<open>coherent\<close>).
\<close>

record 'e env =
  start_err :: "'e option"
  select_err :: "nat \<Rightarrow> 'e option"
  prefer_done :: "nat \<Rightarrow> bool"
  after_err :: "nat \<Rightarrow> 'e option"
  draws :: "nat \<Rightarrow> int \<Rightarrow> int"

definition coherent :: "'e env \<Rightarrow> bool" where
  "coherent E \<longleftrightarrow>
     (\<forall>i e. after_err E i = Some e \<longrightarrow> select_err E (Suc i) = Some e)
     \<and> (\<forall>i e. select_err E i = Some e \<longrightarrow> after_err E i = Some e)
     \<and> (\<forall>i. Int64N_law (draws E i))"

section \<open>Select\<close>

text \<open>
  The receive a \<^verbatim>\<open>select\<close> commits to. An armed timer fires in time; with both cases ready the
  run time chooses; with neither it blocks for good.
\<close>

datatype 'e sel = TimerFires | ContextDone 'e | Never

definition select_case :: "'e env \<Rightarrow> nat \<Rightarrow> bool \<Rightarrow> 'e sel" where
  "select_case E i armed =
     (case select_err E i of
        None \<Rightarrow> (if armed then TimerFires else Never)
      | Some e \<Rightarrow> (if armed \<and> \<not> prefer_done E i then TimerFires else ContextDone e))"

lemma select_fires: "select_case E i armed = TimerFires \<Longrightarrow> armed"
  by (auto simp: select_case_def split: option.splits if_splits)

text \<open>How a loop ends: an attempt said stop, the context ended, or it never does.\<close>

datatype 'e loop_end = Stopped | Cancelled 'e | Blocked

text \<open>The attempts left before a counter that is decremented first and then tested is zero.\<close>

definition attempts_left :: "64 word \<Rightarrow> nat" where
  "attempts_left w = (if w = 0 then 2 ^ 64 else unat w)"

lemma attempts_left_dec:
  assumes "w \<noteq> 1"
  shows "attempts_left w = Suc (attempts_left (w - 1))"
proof (cases "w = 0")
  case True
  then show ?thesis by (simp add: attempts_left_def unsigned_minus_1_eq_mask mask_eq_exp_minus_1)
next
  case False
  then have "0 < unat w" by (simp add: unat_gt_0)
  then show ?thesis using False assms by (simp add: attempts_left_def unat_minus_one)
qed

lemma counter_zero:
  assumes "n < unat (a :: 64 word)" "a - word_of_nat n - 1 = 0"
  shows "Suc n = unat a"
proof -
  have "a = word_of_nat (Suc n)" using assms(2) by (simp add: algebra_simps)
  moreover have "Suc n < 2 ^ LENGTH(64)" using assms(1) unsigned_less [of a, where ?'a = nat] by linarith
  ultimately show ?thesis by (simp add: unsigned_of_nat take_bit_nat_eq_self del: of_nat_Suc)
qed

lemma counter_more:
  assumes "n < unat (a :: 64 word)" "a - word_of_nat n - 1 \<noteq> 0"
  shows "Suc n < unat a"
proof -
  have "a - word_of_nat (Suc n) \<noteq> 0" using assms(2) by (simp add: algebra_simps)
  moreover have "word_of_nat (unat a) = a" by simp
  ultimately have "Suc n \<noteq> unat a" by force
  then show ?thesis using assms(1) by simp
qed

lemma counter_full:
  assumes "n < unat (a :: 64 word)" "a - word_of_nat n = a"
  shows "n = 0"
proof -
  have "word_of_nat n = (0 :: 64 word)" using assms(2) by simp
  moreover have "n < 2 ^ LENGTH(64)" using assms(1) unsigned_less [of a, where ?'a = nat] by linarith
  ultimately show ?thesis using nat_dvd_not_less [of n "2 ^ LENGTH(64)"] by (auto simp: word_of_nat_eq_0_iff)
qed

section \<open>Loops of attempts\<close>

locale attempt_loop =
  fixes E :: "'e env"
    and attempt :: "nat \<Rightarrow> 's \<Rightarrow> bool \<times> 's"
    and remaining :: "'s \<Rightarrow> 64 word"
    and armed :: "'s \<Rightarrow> bool"
    and loop :: "nat \<Rightarrow> 's \<Rightarrow> 'e loop_end \<times> 's"
  assumes attempt_counts: "attempt i s = (False, t) \<Longrightarrow> remaining t = remaining s - 1 \<and> remaining t \<noteq> 0"
    and attempt_rearms: "attempt i s = (False, t) \<Longrightarrow> armed t \<or> after_err E i \<noteq> None"
    and loop_eq: "loop i s =
      (case select_case E i (armed s) of
         Never \<Rightarrow> (Blocked, s)
       | ContextDone e \<Rightarrow> (Cancelled e, s)
       | TimerFires \<Rightarrow>
          (case attempt i s of (stop, t) \<Rightarrow> if stop then (Stopped, t) else loop (Suc i) t))"
begin

text \<open>The state before the n-th further attempt, when all before it asked for a retry.\<close>

inductive retried :: "nat \<Rightarrow> 's \<Rightarrow> nat \<Rightarrow> 's \<Rightarrow> bool" for i s where
  none: "retried i s 0 s"
| more: "retried i s n t \<Longrightarrow> select_case E (i + n) (armed t) = TimerFires \<Longrightarrow>
     attempt (i + n) t = (False, u) \<Longrightarrow> retried i s (Suc n) u"

lemma retried_first:
  assumes "retried (Suc i) t n u" "select_case E i (armed s) = TimerFires" "attempt i s = (False, t)"
  shows "retried i s (Suc n) u"
  using assms(1)
proof (induction rule: retried.induct)
  case none
  show ?case using retried.more [OF retried.none, of i s t] assms(2,3) by simp
next
  case (more n t' u')
  then show ?case using retried.more [of i s "Suc n" t' u'] by simp
qed

lemma attempt_left:
  "attempt i s = (False, t) \<Longrightarrow> attempts_left (remaining s) = Suc (attempts_left (remaining t))"
  using attempt_counts [of i s t] attempts_left_dec [of "remaining s"] by auto

lemma retried_remaining:
  "retried i s n t \<Longrightarrow> attempts_left (remaining s) = n + attempts_left (remaining t)"
  by (induction rule: retried.induct) (simp_all add: attempt_left)

lemma retried_inv:
  assumes "retried i s n t" "P 0 s"
    and "\<And>m t u. P m t \<Longrightarrow> armed t \<Longrightarrow> attempt (i + m) t = (False, u) \<Longrightarrow> P (Suc m) u"
  shows "P n t"
  using assms by (induction rule: retried.induct) (auto dest: select_fires)

text \<open>A loop that starts with an armed timer, or on an ended context, returns.\<close>

lemma loop_ends:
  assumes "coherent E" "armed s \<or> select_err E i \<noteq> None"
  obtains n t where "retried i s n t" "n < attempts_left (remaining s)"
    "select_case E (i + n) (armed t) = TimerFires" "\<exists>u. attempt (i + n) t = (True, u) \<and> loop i s = (Stopped, u)"
  | n t e where "retried i s n t" "n < attempts_left (remaining s)"
    "select_err E (i + n) = Some e" "loop i s = (Cancelled e, t)"
proof -
  have "(\<exists>n t. retried i s n t \<and> n < attempts_left (remaining s)
          \<and> select_case E (i + n) (armed t) = TimerFires \<and> (\<exists>u. attempt (i + n) t = (True, u) \<and> loop i s = (Stopped, u)))
      \<or> (\<exists>n t e. retried i s n t \<and> n < attempts_left (remaining s)
          \<and> select_err E (i + n) = Some e \<and> loop i s = (Cancelled e, t))"
    (is "?R i s") using assms(2)
  proof (induction "attempts_left (remaining s)" arbitrary: i s rule: less_induct)
    case less
    have pos: "0 < attempts_left (remaining s)" by (simp add: attempts_left_def unat_gt_0)
    show ?case
    proof (cases "select_case E i (armed s)")
      case Never
      then show ?thesis using less.prems by (auto simp: select_case_def split: option.splits if_splits)
    next
      case (ContextDone e)
      then have "select_err E i = Some e" by (auto simp: select_case_def split: option.splits if_splits)
      then show ?thesis using ContextDone pos retried.none [of i s] by (subst (2) loop_eq) force
    next
      case TimerFires
      obtain stop t where a: "attempt i s = (stop, t)" by fastforce
      show ?thesis
      proof (cases stop)
        case True
        then show ?thesis using TimerFires a pos retried.none [of i s] by (subst loop_eq) force
      next
        case False
        then have f: "attempt i s = (False, t)" using a by simp
        have left: "attempts_left (remaining s) = Suc (attempts_left (remaining t))" by (rule attempt_left [OF f])
        have "armed t \<or> select_err E (Suc i) \<noteq> None"
          using attempt_rearms [OF f] assms(1) by (auto simp: coherent_def)
        then have "?R (Suc i) t" using less.hyps [of t "Suc i"] left by simp
        moreover have "loop i s = loop (Suc i) t" using TimerFires f by (subst loop_eq) simp
        ultimately show ?thesis using left retried_first [OF _ TimerFires f]
          by (metis add_Suc add_Suc_right Suc_less_eq)
      qed
    qed
  qed
  then show thesis using that by blast
qed

end

end
