(* ===== verification/RT_Retrier.thy ===== *)
theory RT_Retrier
  imports RT_Loop
begin

text \<open>
  \<^verbatim>\<open>pkg/retrier\<close>: the retry engine (\<^verbatim>\<open>retrier.go\<close>, \<^verbatim>\<open>options.go\<close>). The task is a function from
  the number of its execution to the error it returns (\<open>None\<close> for nil); it runs under a context
  that the per-attempt timeout can end, which only the task sees. What a call of \<^verbatim>\<open>Run\<close> does in
  the outside world is kept in a log: the executions of the task and the calls of \<^verbatim>\<open>onRetry\<close>.
\<close>

section \<open>Configuration\<close>

record 'e Retrier =
  delayFactor :: float64
  attempts :: "64 word"
  delay :: duration
  jitter :: duration
  timeout :: duration
  maxDelay :: duration
  strategy :: int
  retryIfFn :: "'e option \<Rightarrow> bool"
  onRetry :: bool

definition DefaultRetryIf :: "'e option \<Rightarrow> bool" where
  "DefaultRetryIf err \<longleftrightarrow> err \<noteq> None"

definition defaultRetrier :: "'e Retrier" where
  "defaultRetrier =
     \<lparr>delayFactor = float_of_int 2, attempts = 4, delay = 1000000000, jitter = 1000000,
      timeout = 1000000000, maxDelay = 0, strategy = JitterAdditive, retryIfFn = DefaultRetryIf,
      onRetry = False\<rparr>"

text \<open>An option is a function on the retrier that may refuse; a nil callback is \<open>None\<close>.\<close>

type_synonym 'e Option = "'e Retrier \<Rightarrow> string + 'e Retrier"

definition WithRetryIfFn :: "('e option \<Rightarrow> bool) option \<Rightarrow> 'e Option" where
  "WithRetryIfFn f r =
     (case f of None \<Rightarrow> Inl ''the retry function is required'' | Some g \<Rightarrow> Inr (r\<lparr>retryIfFn := g\<rparr>))"

definition WithAttempts :: "64 word \<Rightarrow> 'e Option" where
  "WithAttempts n r =
     (if n < 1 then Inl ''the number of attempts must be at least 1'' else Inr (r\<lparr>attempts := n\<rparr>))"

definition WithDelay :: "duration \<Rightarrow> 'e Option" where
  "WithDelay d r = (if d < 1 then Inl ''delay must be greater than zero'' else Inr (r\<lparr>delay := d\<rparr>))"

definition WithDelayFactor :: "float64 \<Rightarrow> 'e Option" where
  "WithDelayFactor f r =
     (if float_less f (float_of_int 1) then Inl ''delay factor must be at least 1''
      else Inr (r\<lparr>delayFactor := f\<rparr>))"

definition WithJitter :: "duration \<Rightarrow> 'e Option" where
  "WithJitter j r = (if j < 1 then Inl ''jitter must be greater than zero'' else Inr (r\<lparr>jitter := j\<rparr>))"

definition WithTimeout :: "duration \<Rightarrow> 'e Option" where
  "WithTimeout t r = (if t < 1 then Inl ''timeout must be greater than zero'' else Inr (r\<lparr>timeout := t\<rparr>))"

definition WithMaxDelay :: "duration \<Rightarrow> 'e Option" where
  "WithMaxDelay d r =
     (if d < 1 then Inl ''max delay must be greater than zero'' else Inr (r\<lparr>maxDelay := d\<rparr>))"

definition WithJitterStrategy :: "int \<Rightarrow> 'e Option" where
  "WithJitterStrategy s r = (if \<not> Valid s then Inl ''invalid jitter strategy'' else Inr (r\<lparr>strategy := s\<rparr>))"

definition WithOnRetry :: "bool \<Rightarrow> 'e Option" where
  "WithOnRetry given r =
     (if \<not> given then Inl ''the onRetry callback is required'' else Inr (r\<lparr>onRetry := True\<rparr>))"

fun apply_options :: "'e Option list \<Rightarrow> 'e Retrier \<Rightarrow> string + 'e Retrier" where
  "apply_options [] r = Inr r"
| "apply_options (opt # opts) r =
     (case opt r of Inl e \<Rightarrow> Inl e | Inr r' \<Rightarrow> apply_options opts r')"

definition retrier_New :: "'e Option list \<Rightarrow> string + 'e Retrier" where
  "retrier_New opts = apply_options opts defaultRetrier"

text \<open>The options of the package, as the values a caller can build.\<close>

inductive package_option :: "'e Option \<Rightarrow> bool" where
  "package_option (WithRetryIfFn f)"
| "package_option (WithAttempts n)"
| "package_option (WithDelay d)"
| "package_option (WithDelayFactor x)"
| "package_option (WithJitter j)"
| "package_option (WithTimeout t)"
| "package_option (WithMaxDelay d)"
| "package_option (WithJitterStrategy s)"
| "package_option (WithOnRetry b)"

section \<open>Running\<close>

datatype 'e event = Executed "'e option" | OnRetry "64 word" duration "'e option"

record 'e run =
  timer :: bool
  sched :: Schedule
  remainingAttempts :: "64 word"
  last_error :: "'e option"
  log :: "'e event list"

text \<open>
  One attempt. The timer has fired, so it is not armed. The result is the flag \<^verbatim>\<open>stop\<close>; the
  task's error is kept in the state.
\<close>

definition exec :: "'e Retrier \<Rightarrow> (nat \<Rightarrow> 'e option) \<Rightarrow> 'e env \<Rightarrow> nat \<Rightarrow> 'e run \<Rightarrow> bool \<times> 'e run" where
  "exec r task E i s =
     (let taskError = task i;
          s1 = s\<lparr>timer := False, last_error := taskError, log := log s @ [Executed taskError],
                 remainingAttempts := remainingAttempts s - 1\<rparr>
      in if remainingAttempts s1 = 0 \<or> \<not> retryIfFn r taskError then (True, s1)
         else if after_err E i \<noteq> None then (False, s1)
         else
           (let (d, sch) = schedule_Next (draws E i) (sched s1);
                l = (if onRetry r then [OnRetry (attempts r - remainingAttempts s1) d taskError] else [])
            in (False, s1\<lparr>sched := sch, timer := True, log := log s1 @ l\<rparr>)))"

definition retrier_config :: "'e Retrier \<Rightarrow> Config" where
  "retrier_config r =
     \<lparr>Base = delay r, Factor = delayFactor r, Jitter = jitter r, MaxDelay = maxDelay r,
      Strategy = strategy r\<rparr>"

definition new_run :: "'e Retrier \<Rightarrow> 'e run" where
  "new_run r = \<lparr>timer = True, sched = schedule_New (retrier_config r), remainingAttempts = attempts r,
                last_error = None, log = []\<rparr>"

text \<open>The error of \<^verbatim>\<open>Run\<close>: that of the task, or the context's, wrapped by where it was seen.\<close>

datatype 'e run_error = TaskError "'e option" | EndedBefore 'e | Ended 'e | NeverReturns

lemma exec_continues:
  assumes "exec r task E i s = (False, t)"
  shows "remainingAttempts t = remainingAttempts s - 1" "remainingAttempts t \<noteq> 0"
    "timer t \<longleftrightarrow> after_err E i = None" "retryIfFn r (task i)" "last_error t = task i"
    "log t = log s @ Executed (task i) #
       (if timer t \<and> onRetry r
        then [OnRetry (attempts r - remainingAttempts t) (fst (schedule_Next (draws E i) (sched s))) (task i)] else [])"
    "sched t = (if timer t then snd (schedule_Next (draws E i) (sched s)) else sched s)"
  using assms unfolding exec_def by (auto simp: Let_def split: if_splits prod.splits)

lemma exec_stops:
  assumes "exec r task E i s = (True, t)"
  shows "remainingAttempts t = remainingAttempts s - 1" "last_error t = task i"
    "log t = log s @ [Executed (task i)]" "remainingAttempts t = 0 \<or> \<not> retryIfFn r (task i)"
  using assms unfolding exec_def by (auto simp: Let_def split: if_splits prod.splits)

function run_loop ::
    "'e Retrier \<Rightarrow> (nat \<Rightarrow> 'e option) \<Rightarrow> 'e env \<Rightarrow> nat \<Rightarrow> 'e run \<Rightarrow> 'e loop_end \<times> 'e run" where
  "run_loop r task E i s =
     (case select_case E i (timer s) of
        Never \<Rightarrow> (Blocked, s)
      | ContextDone e \<Rightarrow> (Cancelled e, s)
      | TimerFires \<Rightarrow>
         (case exec r task E i s of (stop, t) \<Rightarrow> if stop then (Stopped, t) else run_loop r task E (Suc i) t))"
  by pat_completeness auto

termination
proof (relation "measure (\<lambda>(r, task, E, i, s). attempts_left (remainingAttempts s))", goal_cases)
  case (2 r task E i s stop t)
  then have "exec r task E i s = (False, t)" by simp
  then have "attempts_left (remainingAttempts s) = Suc (attempts_left (remainingAttempts t))"
    using attempts_left_dec [of "remainingAttempts s"] exec_continues(1,2) [of r task E i s t] by auto
  then show ?case by simp
qed simp

declare run_loop.simps [simp del]

definition Run :: "'e Retrier \<Rightarrow> (nat \<Rightarrow> 'e option) \<Rightarrow> 'e env \<Rightarrow> 'e run_error \<times> 'e event list" where
  "Run r task E =
     (case start_err E of
        Some e \<Rightarrow> (EndedBefore e, [])
      | None \<Rightarrow>
         (case run_loop r task E 0 (new_run r) of
            (Stopped, s) \<Rightarrow> (TaskError (last_error s), log s)
          | (Cancelled e, s) \<Rightarrow> (Ended e, log s)
          | (Blocked, s) \<Rightarrow> (NeverReturns, log s)))"

section \<open>The loop is a loop of attempts\<close>

interpretation rt: attempt_loop E "exec r task E" remainingAttempts timer "run_loop r task E"
  for r :: "'e Retrier" and task E
proof
  show "remainingAttempts t = remainingAttempts s - 1 \<and> remainingAttempts t \<noteq> 0"
    if "exec r task E i s = (False, t)" for i s t using exec_continues [OF that] by simp
  show "timer t \<or> after_err E i \<noteq> None" if "exec r task E i s = (False, t)" for i s t
    using exec_continues(3) [OF that] by auto
qed (rule run_loop.simps)

section \<open>What a run does\<close>

definition executed :: "'e event list \<Rightarrow> 'e option list" where
  "executed l = concat (map (\<lambda>ev. case ev of Executed x \<Rightarrow> [x] | _ \<Rightarrow> []) l)"

lemma executed_simps [simp]:
  "executed [] = []" "executed (Executed x # l) = x # executed l"
  "executed (OnRetry n d x # l) = executed l" "executed (l @ l') = executed l @ executed l'"
  by (simp_all add: executed_def)

text \<open>The log of n attempts that were all retried: the i-th wait is the i-th of the schedule.\<close>

definition retry_delay :: "'e Retrier \<Rightarrow> 'e env \<Rightarrow> nat \<Rightarrow> duration" where
  "retry_delay r E i = fst (schedule_Next (draws E i) (schedule_at (draws E) (retrier_config r) i))"

fun retry_log :: "'e Retrier \<Rightarrow> (nat \<Rightarrow> 'e option) \<Rightarrow> 'e env \<Rightarrow> nat \<Rightarrow> 'e event list" where
  "retry_log r task E 0 = []"
| "retry_log r task E (Suc n) =
     retry_log r task E n @ Executed (task n) #
       (if onRetry r then [OnRetry (word_of_nat (Suc n)) (retry_delay r E n) (task n)] else [])"

lemma executed_retry_log [simp]: "executed (retry_log r task E n) = map task [0 ..< n]"
  by (induction n) auto

definition run_inv :: "'e Retrier \<Rightarrow> (nat \<Rightarrow> 'e option) \<Rightarrow> 'e env \<Rightarrow> nat \<Rightarrow> 'e run \<Rightarrow> bool" where
  "run_inv r task E n s \<longleftrightarrow>
     remainingAttempts s = attempts r - word_of_nat n
     \<and> executed (log s) = map task [0 ..< n] \<and> (\<forall>i < n. retryIfFn r (task i))
     \<and> (timer s \<longrightarrow> log s = retry_log r task E n \<and> sched s = schedule_at (draws E) (retrier_config r) n)"

lemma run_inv_step:
  assumes "run_inv r task E n s" "timer s" "exec r task E n s = (False, t)"
  shows "run_inv r task E (Suc n) t"
  using assms(1,2) exec_continues [OF assms(3)]
  by (auto simp: run_inv_def less_Suc_eq retry_delay_def)

lemma run_inv_retried:
  assumes "rt.retried E r task 0 (new_run r) n t"
  shows "run_inv r task E n t"
  using assms
proof (rule rt.retried_inv [where i = 0])
  show "run_inv r task E 0 (new_run r)" by (simp add: run_inv_def new_run_def)
qed (simp add: run_inv_step)

lemma options_attempts:
  "apply_options opts r = Inr r' \<Longrightarrow> (\<forall>opt \<in> set opts. package_option opt) \<Longrightarrow> attempts r \<noteq> 0 \<Longrightarrow> attempts r' \<noteq> 0"
proof (induction opts arbitrary: r)
  case (Cons opt opts)
  then obtain r1 where r1: "opt r = Inr r1" "apply_options opts r1 = Inr r'" by (auto split: sum.splits)
  have "package_option opt" using Cons.prems(2) by simp
  then have "attempts r1 \<noteq> 0" using r1(1) Cons.prems(3)
    by cases (auto simp: WithRetryIfFn_def WithAttempts_def WithDelay_def WithDelayFactor_def WithJitter_def
        WithTimeout_def WithMaxDelay_def WithJitterStrategy_def WithOnRetry_def split: option.splits if_splits)
  then show ?case using Cons.IH [OF r1(2)] Cons.prems(2) by simp
qed simp

lemma New_attempts:
  assumes "retrier_New opts = Inr r" "\<forall>opt \<in> set opts. package_option opt"
  shows "attempts r \<noteq> 0"
  using options_attempts [of opts defaultRetrier r] assms by (simp add: retrier_New_def defaultRetrier_def)

lemma Run_result:
  assumes "coherent E" "start_err E = None" "attempts r \<noteq> 0"
  obtains (stopped) n where "n < unat (attempts r)" "\<forall>i < n. retryIfFn r (task i)"
      "Suc n = unat (attempts r) \<or> \<not> retryIfFn r (task n)"
      "Run r task E = (TaskError (task n), retry_log r task E n @ [Executed (task n)])"
  | (ended) n e l where "n < unat (attempts r)" "\<forall>i < n. retryIfFn r (task i)"
      "select_err E n = Some e" "Run r task E = (Ended e, l)" "executed l = map task [0 ..< n]"
proof -
  have left: "attempts_left (remainingAttempts (new_run r)) = unat (attempts r)"
    using assms(3) by (simp add: new_run_def attempts_left_def)
  have "timer (new_run r) \<or> select_err E 0 \<noteq> None" by (simp add: new_run_def)
  then show thesis
  proof (rule rt.loop_ends [OF assms(1)], unfold left add_0)
    fix n t
    assume n: "rt.retried E r task 0 (new_run r) n t" "n < unat (attempts r)"
      "select_case E n (timer t) = TimerFires" "\<exists>u. exec r task E n t = (True, u) \<and> run_loop r task E 0 (new_run r) = (Stopped, u)"
    have inv: "run_inv r task E n t" using n(1) by (rule run_inv_retried)
    have armed: "timer t" using n(3) by (rule select_fires)
    obtain u where u: "exec r task E n t = (True, u)" "run_loop r task E 0 (new_run r) = (Stopped, u)" using n(4) by blast
    have "Suc n = unat (attempts r) \<or> \<not> retryIfFn r (task n)"
      using exec_stops(1,4) [OF u(1)] inv counter_zero [OF n(2)] by (auto simp: run_inv_def)
    moreover have "Run r task E = (TaskError (task n), retry_log r task E n @ [Executed (task n)])"
      using exec_stops(2,3) [OF u(1)] inv armed by (simp add: Run_def assms(2) u(2) run_inv_def)
    ultimately show thesis using stopped n(2) inv by (auto simp: run_inv_def)
  next
    fix n t e
    assume n: "rt.retried E r task 0 (new_run r) n t" "n < unat (attempts r)"
      "select_err E n = Some e" "run_loop r task E 0 (new_run r) = (Cancelled e, t)"
    have "run_inv r task E n t" using n(1) by (rule run_inv_retried)
    then show thesis using ended [OF n(2) _ n(3)] n(4) by (auto simp: Run_def assms(2) run_inv_def)
  qed
qed

end
