(* ===== verification/RT_Http.thy ===== *)
theory RT_Http
  imports RT_Loop Go_Strconv
begin

text \<open>
  \<^verbatim>\<open>pkg/httpretrier\<close> (\<^verbatim>\<open>httpretrier.go\<close>, \<^verbatim>\<open>options.go\<close>). Streams have identities: the body of
  the request and the bodies \<^verbatim>\<open>GetBody\<close> opens are numbers, a response carries the number of its
  body if it has one. The log of a call records what reaches the outside world: requests sent
  with their body stream, responses received, bodies closed, calls of \<^verbatim>\<open>onRetry\<close>.

  The world \<open>W\<close> fixes what the call does not control: the client's answer to each attempt, what
  \<^verbatim>\<open>GetBody\<close> and closing a response body return, the clock, a second
  source of random draws, and \<^verbatim>\<open>http.ParseTime\<close>.
\<close>

section \<open>Requests, responses, the world\<close>

record response =
  StatusCode :: nat
  resp_body :: "nat option"
  RetryAfter :: bytes

record request =
  GetBody :: bool
  Body :: "nat option"
  Method :: bytes

record 'e world =
  client_Do :: "nat \<Rightarrow> response option \<times> 'e option"
  open_body :: "nat \<Rightarrow> 'e + nat"
  close_err :: "nat \<Rightarrow> 'e option"
  retry_draws :: "nat \<Rightarrow> int \<Rightarrow> int"
  now_at :: "nat \<Rightarrow> gotime"
  ParseTime :: "bytes \<Rightarrow> gotime option"

datatype 'e http_error = ClientError 'e | ReadingBody 'e | ClosingBody 'e | ErrBodyNotReplayable
  | RequestEndedBefore 'e | RequestEnded 'e

section \<open>Configuration\<close>

record 'e HTTPRetrier =
  delayFactor :: float64
  delay :: duration
  jitter :: duration
  maxDelay :: duration
  attempts :: "64 word"
  strategy :: int
  respectRetryAfter :: bool
  maxRetryAfter :: duration
  retryIfFn :: "response option \<Rightarrow> 'e option \<Rightarrow> bool"
  onRetry :: bool

definition defaultRetryIf :: "response option \<Rightarrow> 'e option \<Rightarrow> bool" where
  "defaultRetryIf r err \<longleftrightarrow> err \<noteq> None"

definition RetryIfForWriteRequests :: "response option \<Rightarrow> 'e option \<Rightarrow> bool" where
  "RetryIfForWriteRequests r err \<longleftrightarrow>
     (if err \<noteq> None then True
      else (case r of None \<Rightarrow> False | Some x \<Rightarrow> StatusCode x \<in> {429, 502, 503}))"

definition RetryIfForReadRequests :: "response option \<Rightarrow> 'e option \<Rightarrow> bool" where
  "RetryIfForReadRequests r err \<longleftrightarrow>
     (if err \<noteq> None then True
      else (case r of None \<Rightarrow> False
            | Some x \<Rightarrow> StatusCode x \<in> {404, 408, 409, 423, 425, 429, 500, 502, 503, 504, 507}))"

definition RetryIfFnByHTTPMethod :: "bytes \<Rightarrow> response option \<Rightarrow> 'e option \<Rightarrow> bool" where
  "RetryIfFnByHTTPMethod m = (if m = ''GET'' then RetryIfForReadRequests else RetryIfForWriteRequests)"

definition defaultHTTPRetrier :: "'e HTTPRetrier" where
  "defaultHTTPRetrier =
     \<lparr>delayFactor = float_of_int 2, delay = 1000000000, jitter = 100000000, maxDelay = 30000000000,
      attempts = 4, strategy = JitterAdditive, respectRetryAfter = False,
      maxRetryAfter = 86400000000000, retryIfFn = defaultRetryIf, onRetry = False\<rparr>"

type_synonym 'e Option = "'e HTTPRetrier \<Rightarrow> string + 'e HTTPRetrier"

definition WithRetryIfFn :: "(response option \<Rightarrow> 'e option \<Rightarrow> bool) option \<Rightarrow> 'e Option" where
  "WithRetryIfFn f r =
     (case f of None \<Rightarrow> Inl ''the retry function is required'' | Some g \<Rightarrow> Inr (r\<lparr>retryIfFn := g\<rparr>))"

definition WithAttempts :: "64 word \<Rightarrow> 'e Option" where
  "WithAttempts n r =
     (if n < 1 then Inl ''the number of attempts must be at least 1'' else Inr (r\<lparr>attempts := n\<rparr>))"

definition WithDelay :: "duration \<Rightarrow> 'e Option" where
  "WithDelay d r = (if d < 1 then Inl ''delay must be greater than zero'' else Inr (r\<lparr>delay := d\<rparr>))"

definition WithDelayFactor :: "float64 \<Rightarrow> 'e Option" where
  "WithDelayFactor f r =
     (if float_less f (float_of_int 1) then Inl ''delay factor must be at least 1''
      else Inr (r\<lparr>delayFactor := f\<rparr>))"

definition WithJitter :: "duration \<Rightarrow> 'e Option" where
  "WithJitter j r = (if j < 1 then Inl ''jitter must be greater than zero'' else Inr (r\<lparr>jitter := j\<rparr>))"

definition WithMaxDelay :: "duration \<Rightarrow> 'e Option" where
  "WithMaxDelay d r =
     (if d < 1 then Inl ''max delay must be greater than zero'' else Inr (r\<lparr>maxDelay := d\<rparr>))"

definition WithJitterStrategy :: "int \<Rightarrow> 'e Option" where
  "WithJitterStrategy s r = (if \<not> Valid s then Inl ''invalid jitter strategy'' else Inr (r\<lparr>strategy := s\<rparr>))"

definition WithRespectRetryAfter :: "'e Option" where
  "WithRespectRetryAfter r = Inr (r\<lparr>respectRetryAfter := True\<rparr>)"

definition WithMaxRetryAfter :: "duration \<Rightarrow> 'e Option" where
  "WithMaxRetryAfter d r =
     (if d < 1 then Inl ''max retry-after must be greater than zero'' else Inr (r\<lparr>maxRetryAfter := d\<rparr>))"

definition WithOnRetry :: "bool \<Rightarrow> 'e Option" where
  "WithOnRetry given r =
     (if \<not> given then Inl ''the onRetry callback is required'' else Inr (r\<lparr>onRetry := True\<rparr>))"

fun apply_options :: "'e Option list \<Rightarrow> 'e HTTPRetrier \<Rightarrow> string + 'e HTTPRetrier" where
  "apply_options [] r = Inr r"
| "apply_options (opt # opts) r =
     (case opt r of Inl e \<Rightarrow> Inl e | Inr r' \<Rightarrow> apply_options opts r')"

definition http_New :: "'e Option list \<Rightarrow> string + 'e HTTPRetrier" where
  "http_New opts = apply_options opts defaultHTTPRetrier"

section \<open>One attempt\<close>

datatype 'e http_event =
    Sent "nat option" | Got "response option" "'e option" | Closed nat
  | OnRetry "64 word" duration "response option" "'e http_error option"

record 'e doState =
  sched :: Schedule
  timer :: bool
  doResponse :: "response option"
  doError :: "'e http_error option"
  remainingAttempts :: "64 word"
  req :: request
  log :: "'e http_event list"

definition reopenBodyForRetry ::
    "'e HTTPRetrier \<Rightarrow> 'e world \<Rightarrow> nat \<Rightarrow> 'e doState \<Rightarrow> bool \<times> 'e doState" where
  "reopenBodyForRetry c W i s =
     (if remainingAttempts s = attempts c \<or> \<not> GetBody (req s) then (True, s)
      else (case open_body W i of
              Inl e \<Rightarrow> (False, s\<lparr>doResponse := None, doError := Some (ReadingBody e)\<rparr>)
            | Inr b \<Rightarrow> (True, s\<lparr>req := (req s)\<lparr>Body := Some b\<rparr>\<rparr>)))"

text \<open>The body of the current response, when there is one to close.\<close>

definition open_response :: "'e doState \<Rightarrow> nat option" where
  "open_response s = (case doResponse s of None \<Rightarrow> None | Some r \<Rightarrow> resp_body r)"

definition closeAndCheckReplay :: "'e world \<Rightarrow> nat \<Rightarrow> 'e doState \<Rightarrow> bool \<times> 'e doState" where
  "closeAndCheckReplay W i s =
     (let s1 = (case open_response s of None \<Rightarrow> s | Some b \<Rightarrow> s\<lparr>log := log s @ [Closed b]\<rparr>)
      in if open_response s \<noteq> None \<and> close_err W i \<noteq> None
         then (False, s1\<lparr>doResponse := None, doError := map_option ClosingBody (close_err W i)\<rparr>)
         else if \<not> GetBody (req s) \<and> Body (req s) \<noteq> None
         then (False, s1\<lparr>doResponse := None, doError := Some ErrBodyNotReplayable\<rparr>)
         else (True, s1))"

definition dropResponse :: "'e doState \<Rightarrow> 'e doState" where
  "dropResponse s =
     (case open_response s of None \<Rightarrow> s | Some b \<Rightarrow> s\<lparr>log := log s @ [Closed b]\<rparr>)\<lparr>doResponse := None\<rparr>"

definition retryAfterDelay ::
    "(bytes \<Rightarrow> gotime option) \<Rightarrow> response option \<Rightarrow> gotime \<Rightarrow> duration \<Rightarrow> duration option" where
  "retryAfterDelay parse resp now maxRA =
     (case resp of
        None \<Rightarrow> None
      | Some r \<Rightarrow>
         (let v = RetryAfter r in
          if v = [] then None
          else (case ParseInt v of
                  Some secs \<Rightarrow>
                    (if secs \<le> 0 then None
                     else if go_div maxRA 1000000000 < secs then Some maxRA
                     else Some (wrap64 (secs * 1000000000)))
                | None \<Rightarrow>
                   (case parse v of
                      None \<Rightarrow> None
                    | Some w \<Rightarrow>
                       (let d = time_Sub w now in
                        if d \<le> 0 then None else if maxRA < d then Some maxRA else Some d)))))"

definition scheduleRetry ::
    "'e HTTPRetrier \<Rightarrow> 'e world \<Rightarrow> 'e env \<Rightarrow> nat \<Rightarrow> 'e doState \<Rightarrow> 'e doState" where
  "scheduleRetry c W E i s =
     (if after_err E i \<noteq> None then s
      else
        (let (d0, sch) = schedule_Next (draws E i) (sched s);
             d = (if respectRetryAfter c
                  then (case retryAfterDelay (ParseTime W) (doResponse s) (now_at W i) (maxRetryAfter c) of
                          Some ra \<Rightarrow> if d0 < ra then AddJitter (retry_draws W i) ra (jitter c) else d0
                        | None \<Rightarrow> d0)
                  else d0);
             l = (if onRetry c
                  then [OnRetry (attempts c - remainingAttempts s) d (doResponse s) (doError s)] else [])
         in s\<lparr>sched := sch, timer := True, log := log s @ l\<rparr>))"

text \<open>The client's answer, received and counted.\<close>

definition answered :: "'e world \<Rightarrow> nat \<Rightarrow> 'e doState \<Rightarrow> 'e doState" where
  "answered W i s =
     (let (resp, err) = client_Do W i
      in s\<lparr>doResponse := resp, doError := map_option ClientError err,
           remainingAttempts := remainingAttempts s - 1,
           log := log s @ [Sent (Body (req s)), Got resp err]\<rparr>)"

text \<open>One attempt, \<^verbatim>\<open>run\<close>; the timer has fired and is not armed.\<close>

definition http_run ::
    "'e HTTPRetrier \<Rightarrow> 'e world \<Rightarrow> 'e env \<Rightarrow> nat \<Rightarrow> 'e doState \<Rightarrow> bool \<times> 'e doState" where
  "http_run c W E i s =
     (let (reopened, s1) = reopenBodyForRetry c W i (s\<lparr>timer := False\<rparr>) in
      if \<not> reopened then (True, s1)
      else
        (let s2 = answered W i s1 in
         if remainingAttempts s2 = 0 \<or> \<not> retryIfFn c (doResponse s2) (snd (client_Do W i))
         then (True, if doError s2 \<noteq> None then dropResponse s2 else s2)
         else (let (replayable, s3) = closeAndCheckReplay W i s2 in
               if \<not> replayable then (True, s3) else (False, scheduleRetry c W E i s3))))"

section \<open>The loop\<close>

text \<open>The two streams of effects: bodies received and bodies closed; the bodies sent.\<close>

fun got_body :: "'e http_event \<Rightarrow> nat list" where
  "got_body (Got (Some r) err) = (case resp_body r of None \<Rightarrow> [] | Some b \<Rightarrow> [b])"
| "got_body _ = []"

fun closed_body :: "'e http_event \<Rightarrow> nat list" where
  "closed_body (Closed b) = [b]"
| "closed_body _ = []"

fun sent_body :: "'e http_event \<Rightarrow> nat option list" where
  "sent_body (Sent b) = [b]"
| "sent_body _ = []"

definition body_list :: "response option \<Rightarrow> nat list" where
  "body_list r = (case r of None \<Rightarrow> [] | Some x \<Rightarrow> (case resp_body x of None \<Rightarrow> [] | Some b \<Rightarrow> [b]))"

definition got :: "'e http_event list \<Rightarrow> nat list" where "got l = concat (map got_body l)"
definition closed :: "'e http_event list \<Rightarrow> nat list" where "closed l = concat (map closed_body l)"
definition sent :: "'e http_event list \<Rightarrow> nat option list" where "sent l = concat (map sent_body l)"

lemma effects_append [simp]:
  "got (l @ l') = got l @ got l'" "closed (l @ l') = closed l @ closed l'" "sent (l @ l') = sent l @ sent l'"
  by (simp_all add: got_def closed_def sent_def)

lemma effects_simps [simp]:
  "got [] = []" "closed [] = []" "sent [] = []"
  "got (ev # l) = got_body ev @ got l" "closed (ev # l) = closed_body ev @ closed l" "sent (ev # l) = sent_body ev @ sent l"
  by (simp_all add: got_def closed_def sent_def)

lemma got_body_list [simp]: "got_body (Got r err) = body_list r"
  by (cases r) (simp_all add: body_list_def)

lemma open_response_list: "body_list (doResponse s) = (case open_response s of None \<Rightarrow> [] | Some b \<Rightarrow> [b])"
  by (simp add: open_response_def body_list_def split: option.splits)

text \<open>The body stream the i-th attempt must send.\<close>

definition body_for :: "'e world \<Rightarrow> request \<Rightarrow> nat \<Rightarrow> nat option" where
  "body_for W r i =
     (if i = 0 \<or> \<not> GetBody r then Body r else (case open_body W i of Inr b \<Rightarrow> Some b | Inl _ \<Rightarrow> None))"

section \<open>What each part of an attempt does\<close>

lemma reopen_facts:
  assumes "reopenBodyForRetry c W i s = (ok, t)"
  shows "log t = log s" "remainingAttempts t = remainingAttempts s" "timer t = timer s"
    "GetBody (req t) = GetBody (req s)" "\<not> ok \<Longrightarrow> doResponse t = None"
    "\<not> GetBody (req s) \<Longrightarrow> Body (req t) = Body (req s)"
    "remainingAttempts s = attempts c \<Longrightarrow> req t = req s"
    "ok \<Longrightarrow> GetBody (req s) \<Longrightarrow> remainingAttempts s \<noteq> attempts c \<Longrightarrow>
       open_body W i = Inr (the (Body (req t))) \<and> Body (req t) \<noteq> None"
  using assms by (auto simp: reopenBodyForRetry_def split: if_splits sum.splits)

lemma close_facts:
  assumes "closeAndCheckReplay W i s = (ok, t)"
  shows "closed (log t) = closed (log s) @ body_list (doResponse s)" "got (log t) = got (log s)"
    "sent (log t) = sent (log s)" "remainingAttempts t = remainingAttempts s" "timer t = timer s" "req t = req s"
    "\<not> ok \<Longrightarrow> doResponse t = None"
    "ok \<Longrightarrow> GetBody (req s) \<or> Body (req s) = None"
  using assms by (auto simp: closeAndCheckReplay_def open_response_list Let_def split: if_splits option.splits)

lemma drop_facts:
  "closed (log (dropResponse s)) = closed (log s) @ body_list (doResponse s)" "got (log (dropResponse s)) = got (log s)"
  "sent (log (dropResponse s)) = sent (log s)" "doResponse (dropResponse s) = None"
  by (auto simp: dropResponse_def open_response_list split: option.splits)

lemma schedule_facts:
  "closed (log (scheduleRetry c W E i s)) = closed (log s)" "got (log (scheduleRetry c W E i s)) = got (log s)"
  "sent (log (scheduleRetry c W E i s)) = sent (log s)" "req (scheduleRetry c W E i s) = req s"
  "remainingAttempts (scheduleRetry c W E i s) = remainingAttempts s"
  "timer (scheduleRetry c W E i s) \<longleftrightarrow> timer s \<or> after_err E i = None"
  by (auto simp: scheduleRetry_def Let_def split: prod.splits)

lemma answered_facts:
  "closed (log (answered W i s)) = closed (log s)" "sent (log (answered W i s)) = sent (log s) @ [Body (req s)]"
  "got (log (answered W i s)) = got (log s) @ body_list (doResponse (answered W i s))"
  "remainingAttempts (answered W i s) = remainingAttempts s - 1" "timer (answered W i s) = timer s" "req (answered W i s) = req s"
  by (simp_all add: answered_def split: prod.splits)

text \<open>What holds between attempts: every body received is closed, in order.\<close>

definition http_inv :: "'e HTTPRetrier \<Rightarrow> 'e world \<Rightarrow> request \<Rightarrow> nat \<Rightarrow> 'e doState \<Rightarrow> bool" where
  "http_inv c W r n s \<longleftrightarrow>
     remainingAttempts s = attempts c - word_of_nat n
     \<and> closed (log s) = got (log s) \<and> sent (log s) = map (body_for W r) [0 ..< n]
     \<and> GetBody (req s) = GetBody r \<and> (\<not> GetBody r \<or> n = 0 \<longrightarrow> Body (req s) = Body r)
     \<and> (0 < n \<and> \<not> GetBody r \<longrightarrow> Body r = None)"

lemma reopened_body:
  assumes "http_inv c W r n s" "n < unat (attempts c)" "reopenBodyForRetry c W n (s\<lparr>timer := False\<rparr>) = (True, t)"
  shows "Body (req t) = body_for W r n"
proof (cases "n = 0 \<or> \<not> GetBody r")
  case True
  then have "Body (req t) = Body r"
    using assms(1) reopen_facts(6,7) [OF assms(3)] by (auto simp: http_inv_def)
  then show ?thesis using True by (simp add: body_for_def)
next
  case False
  then have "remainingAttempts s \<noteq> attempts c"
    using assms(1) counter_full [OF assms(2)] by (auto simp: http_inv_def)
  then show ?thesis
    using False assms(1) reopen_facts(8) [OF assms(3)] by (auto simp: http_inv_def body_for_def)
qed

lemma http_run_continues:
  assumes "http_run c W E i s = (False, t)"
  obtains s1 s2 where "reopenBodyForRetry c W i (s\<lparr>timer := False\<rparr>) = (True, s1)"
    "closeAndCheckReplay W i (answered W i s1) = (True, s2)"
    "t = scheduleRetry c W E i s2" "remainingAttempts s1 - 1 \<noteq> 0"
  using assms unfolding http_run_def by (auto simp: Let_def answered_facts split: if_splits prod.splits)

lemma http_run_counts:
  assumes "http_run c W E i s = (False, t)"
  shows "remainingAttempts t = remainingAttempts s - 1 \<and> remainingAttempts t \<noteq> 0"
    "timer t \<longleftrightarrow> after_err E i = None"
proof -
  obtain s1 s2 where r: "reopenBodyForRetry c W i (s\<lparr>timer := False\<rparr>) = (True, s1)"
    and cl: "closeAndCheckReplay W i (answered W i s1) = (True, s2)"
    and t: "t = scheduleRetry c W E i s2" "remainingAttempts s1 - 1 \<noteq> 0"
    using http_run_continues [OF assms] by blast
  show "remainingAttempts t = remainingAttempts s - 1 \<and> remainingAttempts t \<noteq> 0" "timer t \<longleftrightarrow> after_err E i = None"
    using t reopen_facts(2,3) [OF r] close_facts(4,5) [OF cl] by (simp_all add: schedule_facts answered_facts)
qed

lemma http_inv_step:
  assumes "http_inv c W r n s" "n < unat (attempts c)" "http_run c W E n s = (False, t)"
  shows "http_inv c W r (Suc n) t"
proof -
  obtain s1 s2 where ro: "reopenBodyForRetry c W n (s\<lparr>timer := False\<rparr>) = (True, s1)"
    and cl: "closeAndCheckReplay W n (answered W n s1) = (True, s2)"
    and t: "t = scheduleRetry c W E n s2"
    using http_run_continues [OF assms(3)] by blast
  have b: "Body (req s1) = body_for W r n" by (rule reopened_body [OF assms(1,2) ro])
  show ?thesis unfolding http_inv_def t schedule_facts
    using assms(1) b reopen_facts(1-7) [OF ro] close_facts(1-6,8) [OF cl]
    by (auto simp: http_inv_def body_for_def answered_facts)
qed

lemma http_run_stops:
  assumes "http_inv c W r n s" "n < unat (attempts c)" "http_run c W E n s = (True, t)"
  shows "got (log t) = closed (log t) @ body_list (doResponse t)" "doError t \<noteq> None \<Longrightarrow> doResponse t = None"
    "sent (log t) = map (body_for W r) [0 ..< n] \<or> sent (log t) = map (body_for W r) [0 ..< Suc n]"
proof -
  obtain ok s1 where ro: "reopenBodyForRetry c W n (s\<lparr>timer := False\<rparr>) = (ok, s1)" by fastforce
  note inv = assms(1) [unfolded http_inv_def]
  let ?P = "got (log t) = closed (log t) @ body_list (doResponse t) \<and> (doError t \<noteq> None \<longrightarrow> doResponse t = None)
    \<and> (sent (log t) = map (body_for W r) [0 ..< n] \<or> sent (log t) = map (body_for W r) [0 ..< Suc n])"
  have ?P
  proof (cases ok)
    case False
    then have "t = s1" using assms(3) ro by (simp add: http_run_def)
    then show ?thesis using inv reopen_facts(1,5) [OF ro] False by (simp add: body_list_def)
  next
    case True
    have b: "Body (req s1) = body_for W r n" using reopened_body [OF assms(1,2)] ro True by simp
    let ?s2 = "answered W n s1"
    have a: "closed (log ?s2) = got (log s1)" "got (log ?s2) = got (log s1) @ body_list (doResponse ?s2)"
      "sent (log ?s2) = map (body_for W r) [0 ..< Suc n]"
      using inv b reopen_facts(1) [OF ro] by (simp_all add: answered_facts)
    obtain rep s3 where cl: "closeAndCheckReplay W n ?s2 = (rep, s3)" by fastforce
    consider "t = dropResponse ?s2" | "t = ?s2" "doError ?s2 = None" | "t = s3" "\<not> rep"
      using assms(3) ro True cl by (auto simp: http_run_def Let_def split: if_splits)
    then show ?thesis
    proof cases
      case 1
      then show ?thesis using a by (simp add: drop_facts body_list_def)
    next
      case 2
      then show ?thesis using a by simp
    next
      case 3
      then show ?thesis using a close_facts(1-3,7) [OF cl] by (simp add: body_list_def)
    qed
  qed
  then show "got (log t) = closed (log t) @ body_list (doResponse t)" "doError t \<noteq> None \<Longrightarrow> doResponse t = None"
    "sent (log t) = map (body_for W r) [0 ..< n] \<or> sent (log t) = map (body_for W r) [0 ..< Suc n]" by auto
qed

section \<open>The whole call\<close>

function do_loop ::
    "'e HTTPRetrier \<Rightarrow> 'e world \<Rightarrow> 'e env \<Rightarrow> nat \<Rightarrow> 'e doState \<Rightarrow> 'e loop_end \<times> 'e doState" where
  "do_loop c W E i s =
     (case select_case E i (timer s) of
        Never \<Rightarrow> (Blocked, s)
      | ContextDone e \<Rightarrow> (Cancelled e, s)
      | TimerFires \<Rightarrow>
         (case http_run c W E i s of (stop, t) \<Rightarrow> if stop then (Stopped, t) else do_loop c W E (Suc i) t))"
  by pat_completeness auto

termination
proof (relation "measure (\<lambda>(c, W, E, i, s). attempts_left (remainingAttempts s))", goal_cases)
  case (2 c W E i s stop t)
  then have "http_run c W E i s = (False, t)" by simp
  then have "attempts_left (remainingAttempts s) = Suc (attempts_left (remainingAttempts t))"
    using attempts_left_dec [of "remainingAttempts s"] http_run_counts(1) [of c W E i s t] by auto
  then show ?case by simp
qed simp

declare do_loop.simps [simp del]

definition new_doState :: "'e HTTPRetrier \<Rightarrow> request \<Rightarrow> 'e doState" where
  "new_doState c r =
     \<lparr>sched = schedule_New \<lparr>Base = delay c, Factor = delayFactor c, Jitter = jitter c,
                            MaxDelay = maxDelay c, Strategy = strategy c\<rparr>,
      timer = True, doResponse = None, doError = None, remainingAttempts = attempts c, req = r, log = []\<rparr>"

text \<open>A call that never returns is \<open>None\<close>; otherwise the response and the error.\<close>

definition http_Do ::
    "'e HTTPRetrier \<Rightarrow> 'e world \<Rightarrow> 'e env \<Rightarrow> request
       \<Rightarrow> (response option \<times> 'e http_error option) option \<times> 'e http_event list" where
  "http_Do c W E r =
     (case start_err E of
        Some e \<Rightarrow> (Some (None, Some (RequestEndedBefore e)), [])
      | None \<Rightarrow>
         (case do_loop c W E 0 (new_doState c r) of
            (Stopped, s) \<Rightarrow> (Some (doResponse s, doError s), log s)
          | (Cancelled e, s) \<Rightarrow> (Some (None, Some (RequestEnded e)), log s)
          | (Blocked, s) \<Rightarrow> (None, log s)))"

interpretation ht: attempt_loop E "http_run c W E" remainingAttempts timer "do_loop c W E"
  for c :: "'e HTTPRetrier" and W E
proof
  show "remainingAttempts t = remainingAttempts s - 1 \<and> remainingAttempts t \<noteq> 0"
    if "http_run c W E i s = (False, t)" for i s t using http_run_counts(1) [OF that] .
  show "timer t \<or> after_err E i \<noteq> None" if "http_run c W E i s = (False, t)" for i s t
    using http_run_counts(2) [OF that] by auto
qed (rule do_loop.simps)

lemma http_inv_retried:
  assumes "ht.retried E c W 0 (new_doState c r) n t" "attempts c \<noteq> 0"
  shows "http_inv c W r n t \<and> n < unat (attempts c)"
  using assms(1)
proof (rule ht.retried_inv [where i = 0])
  show "http_inv c W r 0 (new_doState c r) \<and> 0 < unat (attempts c)"
    using assms(2) by (simp add: http_inv_def new_doState_def unat_gt_0)
  fix m s u
  assume m: "http_inv c W r m s \<and> m < unat (attempts c)" "http_run c W E (0 + m) s = (False, u)"
  then have "remainingAttempts s - 1 \<noteq> 0" using http_run_counts(1) [OF m(2)] by auto
  then have "Suc m < unat (attempts c)" using m(1) counter_more [of m "attempts c"] by (simp add: http_inv_def)
  then show "http_inv c W r (Suc m) u \<and> Suc m < unat (attempts c)" using m http_inv_step [of c W r m s E u] by simp
qed

lemma http_Do_result:
  assumes "coherent E" "start_err E = None" "attempts c \<noteq> 0"
  obtains resp err l n where "http_Do c W E r = (Some (resp, err), l)" "n \<le> unat (attempts c)"
    "got l = closed l @ body_list resp" "err \<noteq> None \<longrightarrow> resp = None" "sent l = map (body_for W r) [0 ..< n]"
    "1 < n \<longrightarrow> GetBody r \<or> Body r = None"
proof -
  have left: "attempts_left (remainingAttempts (new_doState c r)) = unat (attempts c)"
    using assms(3) by (simp add: new_doState_def attempts_left_def)
  have "timer (new_doState c r) \<or> select_err E 0 \<noteq> None" by (simp add: new_doState_def)
  then show thesis
  proof (rule ht.loop_ends [OF assms(1)], unfold left add_0)
    fix n t
    assume n: "ht.retried E c W 0 (new_doState c r) n t" "n < unat (attempts c)"
      "\<exists>u. http_run c W E n t = (True, u) \<and> do_loop c W E 0 (new_doState c r) = (Stopped, u)"
    obtain u where u: "http_run c W E n t = (True, u)" "do_loop c W E 0 (new_doState c r) = (Stopped, u)" using n(3) by blast
    have inv: "http_inv c W r n t" using http_inv_retried [OF n(1) assms(3)] by blast
    note st = http_run_stops [OF inv n(2) u(1)]
    have g: "0 < n \<longrightarrow> GetBody r \<or> Body r = None" using inv by (auto simp: http_inv_def)
    have "\<exists>m \<le> unat (attempts c). sent (log u) = map (body_for W r) [0 ..< m] \<and> (1 < m \<longrightarrow> GetBody r \<or> Body r = None)"
    proof (cases "sent (log u) = map (body_for W r) [0 ..< n]")
      case True
      then show ?thesis using g n(2) by (intro exI [of _ n]) auto
    next
      case False
      then show ?thesis using st(3) g Suc_leI [OF n(2)]
        by (intro exI [of _ "Suc n"]) (simp only: One_nat_def Suc_less_eq simp_thms)
    qed
    then show thesis using that [of "doResponse u" "doError u" "log u"] st(1,2)
      by (auto simp: http_Do_def assms(2) u(2))
  next
    fix n t e
    assume n: "ht.retried E c W 0 (new_doState c r) n t" "n < unat (attempts c)"
      "do_loop c W E 0 (new_doState c r) = (Cancelled e, t)"
    have inv: "http_inv c W r n t" using http_inv_retried [OF n(1) assms(3)] by blast
    then have "1 < n \<longrightarrow> GetBody r \<or> Body r = None" by (auto simp: http_inv_def)
    then show thesis using inv n(2,3) that [of None "Some (RequestEnded e)" "log t" n]
      by (simp add: http_Do_def assms(2) http_inv_def body_list_def)
  qed
qed

section \<open>Options keep at least one attempt\<close>

inductive package_option :: "'e Option \<Rightarrow> bool" where
  "package_option (WithRetryIfFn f)"
| "package_option (WithAttempts n)"
| "package_option (WithDelay d)"
| "package_option (WithDelayFactor x)"
| "package_option (WithJitter j)"
| "package_option (WithMaxDelay d)"
| "package_option (WithJitterStrategy s)"
| "package_option WithRespectRetryAfter"
| "package_option (WithMaxRetryAfter d)"
| "package_option (WithOnRetry b)"

lemma http_options_attempts:
  "apply_options opts r = Inr r' \<Longrightarrow> (\<forall>opt \<in> set opts. package_option opt) \<Longrightarrow> attempts r \<noteq> 0 \<Longrightarrow> attempts r' \<noteq> 0"
proof (induction opts arbitrary: r)
  case (Cons opt opts)
  then obtain r1 where r1: "opt r = Inr r1" "apply_options opts r1 = Inr r'" by (auto split: sum.splits)
  have "package_option opt" using Cons.prems(2) by simp
  then have "attempts r1 \<noteq> 0" using r1(1) Cons.prems(3)
    by cases (auto simp: WithRetryIfFn_def WithAttempts_def WithDelay_def WithDelayFactor_def WithJitter_def
        WithMaxDelay_def WithJitterStrategy_def WithRespectRetryAfter_def WithMaxRetryAfter_def
        WithOnRetry_def split: option.splits if_splits)
  then show ?case using Cons.IH [OF r1(2)] Cons.prems(2) by simp
qed simp

lemma http_New_attempts:
  assumes "http_New opts = Inr c" "\<forall>opt \<in> set opts. package_option opt"
  shows "attempts c \<noteq> 0"
  using http_options_attempts [of opts defaultHTTPRetrier c] assms by (simp add: http_New_def defaultHTTPRetrier_def)

end
