(* ===== verification/RT_Periodic.thy ===== *)
theory RT_Periodic
  imports RT_Backoff
begin

text \<open>
  \<^verbatim>\<open>pkg/periodic\<close> (\<^verbatim>\<open>periodic.go\<close>, \<^verbatim>\<open>options.go\<close>): the scheduler as a step relation over the
  goroutines that call \<^verbatim>\<open>Start\<close> and \<^verbatim>\<open>Stop\<close> and the loop goroutines \<^verbatim>\<open>Start\<close> launches. A critical
  section is one step; the cancellation and the wait of \<^verbatim>\<open>Stop\<close>, which are outside the lock, are
  steps of their own. Loops are numbered in the order of their launch; the number of a loop
  also names the context derived for it, its cancel function and its \<^verbatim>\<open>done\<close> channel. That there
  is at most one is a theorem, not part of the model. The fields \<open>runs\<close> and \<open>returned_at\<close> record
  the number of task invocations and the end of the last one; the code does not have them.
\<close>

section \<open>Construction and delays\<close>

record params =
  interval :: duration
  jitter :: duration
  timeout :: duration
  task_set :: bool
  jitterFirst :: bool

datatype Option = WithInitialJitter

fun apply_option :: "Option \<Rightarrow> params \<Rightarrow> params" where
  "apply_option WithInitialJitter p = p\<lparr>jitterFirst := True\<rparr>"

definition periodic_New :: "duration \<Rightarrow> duration \<Rightarrow> duration \<Rightarrow> bool \<Rightarrow> Option list \<Rightarrow> string + params" where
  "periodic_New iv jt tm task opts =
     (if iv < 1 then Inl ''interval must be positive''
      else if jt < 0 then Inl ''jitter must not be negative''
      else if tm < 1 then Inl ''timeout must be positive''
      else if \<not> task then Inl ''nil task''
      else Inr (fold apply_option opts
             \<lparr>interval = iv, jitter = jt, timeout = tm, task_set = task, jitterFirst = False\<rparr>))"

definition firstDelay :: "(int \<Rightarrow> int) \<Rightarrow> params \<Rightarrow> duration" where
  "firstDelay rnd p = (if \<not> jitterFirst p \<or> jitter p \<le> 0 then 1 else AddJitter rnd 0 (jitter p))"

definition nextDelay :: "(int \<Rightarrow> int) \<Rightarrow> params \<Rightarrow> duration" where
  "nextDelay rnd p = AddJitter rnd (interval p) (jitter p)"

section \<open>State\<close>

text \<open>A loop goroutine: about to create its timer, in \<^verbatim>\<open>select\<close>, in the task, leaving, gone.\<close>

datatype loop_pc = Entering | Selecting | InTask | Leaving | Gone

record loop =
  lpc :: loop_pc
  ctx_done :: bool
  timer_at :: "gotime option"

text \<open>A caller: idle, or in \<^verbatim>\<open>Stop\<close> holding the cancel function and the channel of a loop.\<close>

datatype caller = Idle | Cancelling nat | Awaiting nat | StopReturned

record psys =
  stopped :: bool
  cancel :: "nat option"
  loops :: "loop list"
  callers :: "nat \<Rightarrow> caller"
  clock :: gotime
  runs :: nat
  returned_at :: "gotime option"

definition initial :: psys where
  "initial = \<lparr>stopped = False, cancel = None, loops = [], callers = (\<lambda>_. Idle), clock = 0, runs = 0,
     returned_at = None\<rparr>"

definition set_loop :: "nat \<Rightarrow> (loop \<Rightarrow> loop) \<Rightarrow> psys \<Rightarrow> psys" where
  "set_loop i f s = s\<lparr>loops := (loops s)[i := f (loops s ! i)]\<rparr>"

abbreviation caller_at :: "nat \<Rightarrow> caller \<Rightarrow> psys \<Rightarrow> psys" where
  "caller_at p c s \<equiv> s\<lparr>callers := (callers s)(p := c)\<rparr>"

section \<open>Operations\<close>

text \<open>The critical section of \<^verbatim>\<open>Start\<close>, which is all of it.\<close>

definition Start :: "psys \<Rightarrow> psys" where
  "Start s =
     (if cancel s \<noteq> None \<or> stopped s then s
      else s\<lparr>cancel := Some (length (loops s)),
             loops := loops s @ [\<lparr>lpc = Entering, ctx_done = False, timer_at = None\<rparr>]\<rparr>)"

text \<open>The critical section of \<^verbatim>\<open>Stop\<close>; with no cancel function it returns at once.\<close>

definition Stop :: "nat \<Rightarrow> psys \<Rightarrow> psys" where
  "Stop p s =
     (let s1 = s\<lparr>stopped := True\<rparr>
      in case cancel s of
           None \<Rightarrow> caller_at p StopReturned s1
         | Some i \<Rightarrow> caller_at p (Cancelling i) s1)"

inductive pstep :: "params \<Rightarrow> psys \<Rightarrow> psys \<Rightarrow> bool" for P where
  start: "callers s p \<in> {Idle, StopReturned} \<Longrightarrow> pstep P s (Start s)"
| stop: "callers s p \<in> {Idle, StopReturned} \<Longrightarrow> pstep P s (Stop p s)"
| do_cancel: "callers s p = Cancelling i \<Longrightarrow>
     pstep P s (caller_at p (Awaiting i) (set_loop i (\<lambda>l. l\<lparr>ctx_done := True\<rparr>) s))"
| receive_done: "callers s p = Awaiting i \<Longrightarrow> lpc (loops s ! i) = Gone \<Longrightarrow>
     pstep P s (caller_at p StopReturned s)"
| parent_ends: "i < length (loops s) \<Longrightarrow> pstep P s (set_loop i (\<lambda>l. l\<lparr>ctx_done := True\<rparr>) s)"
| time_passes: "clock s \<le> t \<Longrightarrow> pstep P s (s\<lparr>clock := t\<rparr>)"
| new_timer: "i < length (loops s) \<Longrightarrow> lpc (loops s ! i) = Entering \<Longrightarrow> Int64N_law rnd \<Longrightarrow>
     pstep P s (set_loop i (\<lambda>l. l\<lparr>lpc := Selecting, timer_at := Some (clock s + firstDelay rnd P)\<rparr>) s)"
| select_done: "i < length (loops s) \<Longrightarrow> lpc (loops s ! i) = Selecting \<Longrightarrow> ctx_done (loops s ! i) \<Longrightarrow>
     pstep P s (set_loop i (\<lambda>l. l\<lparr>lpc := Leaving, timer_at := None\<rparr>) s)"
| select_timer: "i < length (loops s) \<Longrightarrow> lpc (loops s ! i) = Selecting \<Longrightarrow>
     timer_at (loops s ! i) = Some t \<Longrightarrow> t \<le> clock s \<Longrightarrow>
     pstep P s ((set_loop i (\<lambda>l. l\<lparr>lpc := InTask, timer_at := None\<rparr>) s)\<lparr>runs := runs s + 1\<rparr>)"
| task_returns: "i < length (loops s) \<Longrightarrow> lpc (loops s ! i) = InTask \<Longrightarrow> Int64N_law rnd \<Longrightarrow>
     pstep P s ((set_loop i (\<lambda>l. l\<lparr>lpc := Selecting, timer_at := Some (clock s + nextDelay rnd P)\<rparr>) s)
       \<lparr>returned_at := Some (clock s)\<rparr>)"
| leave: "i < length (loops s) \<Longrightarrow> lpc (loops s ! i) = Leaving \<Longrightarrow>
     pstep P s (set_loop i (\<lambda>l. l\<lparr>lpc := Gone, ctx_done := True\<rparr>) s)"

abbreviation psteps :: "params \<Rightarrow> psys \<Rightarrow> psys \<Rightarrow> bool" where
  "psteps P \<equiv> (pstep P)\<^sup>*\<^sup>*"

section \<open>Invariant\<close>

text \<open>Before the first effective \<^verbatim>\<open>Start\<close>, and after it.\<close>

definition not_started :: "psys \<Rightarrow> bool" where
  "not_started s \<longleftrightarrow>
     loops s = [] \<and> cancel s = None \<and> (\<forall>p. callers s p = Idle \<or> callers s p = StopReturned \<and> stopped s)"

definition started :: "psys \<Rightarrow> loop \<Rightarrow> bool" where
  "started s l \<longleftrightarrow>
     loops s = [l] \<and> cancel s = Some 0
     \<and> (\<forall>p. case callers s p of
              Idle \<Rightarrow> True
            | Cancelling i \<Rightarrow> i = 0 \<and> stopped s
            | Awaiting i \<Rightarrow> i = 0 \<and> ctx_done l \<and> stopped s
            | StopReturned \<Rightarrow> lpc l = Gone \<and> stopped s)
     \<and> (lpc l = Selecting \<longrightarrow> timer_at l \<noteq> None)"

definition periodic_inv :: "psys \<Rightarrow> bool" where
  "periodic_inv s \<longleftrightarrow> not_started s \<or> (\<exists>l. started s l)"

lemma initial_inv: "periodic_inv initial"
  by (simp add: periodic_inv_def not_started_def initial_def)

lemma not_started_caller: "not_started s \<Longrightarrow> callers s p = Idle \<or> callers s p = StopReturned"
  by (auto simp: not_started_def)

lemma not_started_step:
  assumes "pstep P s t" "not_started s"
  shows "periodic_inv t"
  using assms
proof cases
  case (start p)
  then show ?thesis using assms(2)
    by (auto simp: Start_def periodic_inv_def not_started_def started_def split: caller.splits)
next
  case (stop p)
  then show ?thesis using assms(2)
    by (auto simp: Stop_def Let_def periodic_inv_def not_started_def)
next
  case (do_cancel p i)
  then show ?thesis using not_started_caller [OF assms(2), of p] by auto
next
  case (receive_done p i)
  then show ?thesis using not_started_caller [OF assms(2), of p] by auto
qed (auto simp: not_started_def periodic_inv_def split: if_splits)

lemma set_loop_single:
  "loops s = [l] \<Longrightarrow> set_loop 0 f s = s\<lparr>loops := [f l]\<rparr>"
  by (simp add: set_loop_def)

lemma started_step:
  assumes "pstep P s t" "started s l"
  shows "\<exists>l'. started t l' \<and> (lpc l = Gone \<longrightarrow> lpc l' = Gone \<and> runs t = runs s)"
proof -
  have l: "loops s = [l]" "cancel s = Some 0" using assms(2) by (simp_all add: started_def)
  show ?thesis using assms(1)
  proof cases
    case (start p)
    then show ?thesis using assms(2) l by (auto simp: Start_def)
  next
    case (stop p)
    then show ?thesis using assms(2) l by (intro exI [of _ l]) (auto simp: Stop_def Let_def started_def split: caller.splits)
  next
    case (do_cancel p i)
    then have "i = 0" using assms(2) by (auto simp: started_def split: caller.splits)
    then show ?thesis using do_cancel assms(2) l
      by (intro exI [of _ "l\<lparr>ctx_done := True\<rparr>"]) (auto simp: set_loop_single started_def split: caller.splits)
  next
    case (receive_done p i)
    then have "i = 0" using assms(2) by (auto simp: started_def split: caller.splits)
    then show ?thesis using receive_done assms(2) l
      by (intro exI [of _ l]) (auto simp: started_def split: caller.splits)
  qed (use assms(2) l in \<open>auto simp: set_loop_single started_def split: caller.splits\<close>)
qed

lemma step_inv: "pstep P s t \<Longrightarrow> periodic_inv s \<Longrightarrow> periodic_inv t"
  using not_started_step started_step unfolding periodic_inv_def by metis

lemma reachable_periodic_inv: "psteps P initial s \<Longrightarrow> periodic_inv s"
  by (induction rule: rtranclp_induct) (auto intro: initial_inv step_inv)

section \<open>Stopping\<close>

text \<open>Once a \<^verbatim>\<open>Stop\<close> has returned nothing runs any more.\<close>

definition at_rest :: "psys \<Rightarrow> bool" where
  "at_rest s \<longleftrightarrow> not_started s \<and> stopped s \<or> (\<exists>l. started s l \<and> lpc l = Gone)"

lemma at_rest_step:
  assumes "pstep P s t" "at_rest s"
  shows "at_rest t \<and> runs t = runs s"
proof (cases "not_started s \<and> stopped s")
  case True
  show ?thesis using assms(1)
  proof cases
    case (do_cancel p i)
    then show ?thesis using not_started_caller [of s p] True by auto
  next
    case (receive_done p i)
    then show ?thesis using not_started_caller [of s p] True by auto
  qed (use True in \<open>auto simp: at_rest_def not_started_def Start_def Stop_def Let_def\<close>)
next
  case False
  then show ?thesis using assms started_step by (metis at_rest_def)
qed

lemma at_rest_forever: "psteps P s t \<Longrightarrow> at_rest s \<Longrightarrow> at_rest t \<and> runs t = runs s"
  by (induction rule: rtranclp_induct) (auto dest: at_rest_step)

lemma returned_at_rest:
  assumes "periodic_inv s" "callers s p = StopReturned"
  shows "at_rest s"
  using assms(1) unfolding periodic_inv_def
proof
  assume n: "not_started s"
  then have "callers s p = Idle \<or> callers s p = StopReturned \<and> stopped s" by (simp add: not_started_def)
  then show ?thesis using n assms(2) by (auto simp: at_rest_def)
next
  assume "\<exists>l. started s l"
  then obtain l where l: "started s l" ..
  then have "case callers s p of StopReturned \<Rightarrow> lpc l = Gone \<and> stopped s | _ \<Rightarrow> True"
    unfolding started_def by (auto split: caller.splits)
  then show ?thesis using l assms(2) by (auto simp: at_rest_def)
qed

lemma at_rest_loops: "at_rest s \<Longrightarrow> l \<in> set (loops s) \<Longrightarrow> lpc l = Gone"
  by (auto simp: at_rest_def not_started_def started_def)

text \<open>A \<^verbatim>\<open>Stop\<close> that waits can return: the loop it waits for can always leave.\<close>

lemma set_loop_callers [simp]: "callers (set_loop i f s) = callers s" "stopped (set_loop i f s) = stopped s"
  "cancel (set_loop i f s) = cancel s"
  by (simp_all add: set_loop_def)

lemma started_set_loop:
  assumes "started s l" "ctx_done l \<longrightarrow> ctx_done (f l)" "lpc l \<noteq> Gone"
    "lpc (f l) = Selecting \<longrightarrow> timer_at (f l) \<noteq> None"
  shows "started (set_loop 0 f s) (f l)"
  using assms by (auto simp: started_def set_loop_single split: caller.splits)

lemma started_returned_at: "started (s\<lparr>returned_at := x\<rparr>) l = started s l"
  by (auto simp: started_def split: caller.splits)

text \<open>The step that takes a loop with an ended context nearer to its end.\<close>

fun nearer :: "loop_pc \<Rightarrow> loop_pc" where
  "nearer Entering = Selecting"
| "nearer InTask = Selecting"
| "nearer Selecting = Leaving"
| "nearer Leaving = Gone"
| "nearer Gone = Gone"

lemma loop_nearer:
  assumes "started s l" "ctx_done l" "lpc l \<noteq> Gone"
  obtains t l' where "pstep P s t" "started t l'" "ctx_done l'" "lpc l' = nearer (lpc l)" "callers t = callers s"
proof -
  have l: "0 < length (loops s)" "loops s ! 0 = l" using assms(1) by (auto simp: started_def)
  have law: "Int64N_law (\<lambda>_. 0)" by (simp add: Int64N_law_def)
  show thesis
  proof (cases "lpc l")
    case Entering
    let ?f = "\<lambda>l. l\<lparr>lpc := Selecting, timer_at := Some (clock s + firstDelay (\<lambda>_. 0) P)\<rparr>"
    show thesis
      by (rule that [OF pstep.new_timer [OF l(1) _ law] started_set_loop [OF assms(1), of ?f]])
        (use assms l Entering in auto)
  next
    case Selecting
    let ?f = "\<lambda>l. l\<lparr>lpc := Leaving, timer_at := None\<rparr>"
    show thesis
      by (rule that [OF pstep.select_done [OF l(1)] started_set_loop [OF assms(1), of ?f]])
        (use assms l Selecting in auto)
  next
    case InTask
    let ?f = "\<lambda>l. l\<lparr>lpc := Selecting, timer_at := Some (clock s + nextDelay (\<lambda>_. 0) P)\<rparr>"
    have "started (set_loop 0 ?f s) (?f l)" using assms(1) InTask by (intro started_set_loop) auto
    then have st: "started ((set_loop 0 ?f s)\<lparr>returned_at := Some (clock s)\<rparr>) (?f l)"
      by (simp add: started_returned_at)
    show thesis
      by (rule that [OF pstep.task_returns [OF l(1) _ law] st]) (use assms l InTask in auto)
  next
    case Leaving
    let ?f = "\<lambda>l. l\<lparr>lpc := Gone, ctx_done := True\<rparr>"
    show thesis
      by (rule that [OF pstep.leave [OF l(1)] started_set_loop [OF assms(1), of ?f]])
        (use assms l Leaving in auto)
  qed (use assms in simp)
qed

fun distance :: "loop_pc \<Rightarrow> nat" where
  "distance Entering = 3"
| "distance InTask = 3"
| "distance Selecting = 2"
| "distance Leaving = 1"
| "distance Gone = 0"

lemma loop_leaves:
  "started s l \<Longrightarrow> ctx_done l \<Longrightarrow> \<exists>t l'. psteps P s t \<and> started t l' \<and> lpc l' = Gone \<and> callers t = callers s"
proof (induction "distance (lpc l)" arbitrary: s l rule: less_induct)
  case less
  show ?case
  proof (cases "lpc l = Gone")
    case True
    then show ?thesis using less.prems by blast
  next
    case False
    obtain t l' where t: "pstep P s t" "started t l'" "ctx_done l'" "lpc l' = nearer (lpc l)" "callers t = callers s"
      using loop_nearer [OF less.prems False] by blast
    have "distance (lpc l') < distance (lpc l)" using t(4) False by (cases "lpc l") auto
    then obtain u m where "psteps P t u" "started u m" "lpc m = Gone" "callers u = callers t"
      using less.hyps [OF _ t(2,3)] by blast
    then show ?thesis using t(1,5) by (metis converse_rtranclp_into_rtranclp)
  qed
qed

lemma stop_can_return:
  assumes "periodic_inv s" "callers s p = Cancelling i \<or> callers s p = Awaiting i"
  shows "\<exists>t. psteps P s t \<and> callers t p = StopReturned"
proof -
  obtain l where l: "started s l"
    using assms not_started_caller [of s p] by (auto simp: periodic_inv_def)
  then have i: "i = 0" using assms(2) by (auto simp: started_def split: caller.splits)
  have "\<exists>u m. psteps P s u \<and> started u m \<and> ctx_done m \<and> callers u p = Awaiting 0"
  proof (cases "callers s p")
    case (Awaiting j)
    then show ?thesis using l assms(2) i by (intro exI [of _ s] exI [of _ l]) (auto simp: started_def split: caller.splits)
  next
    case (Cancelling j)
    let ?u = "caller_at p (Awaiting 0) (set_loop 0 (\<lambda>l. l\<lparr>ctx_done := True\<rparr>) s)"
    have "pstep P s ?u" using Cancelling assms(2) i by (intro pstep.do_cancel) simp
    moreover have "started ?u (l\<lparr>ctx_done := True\<rparr>)"
      using l Cancelling by (auto simp: started_def set_loop_single split: caller.splits)
    ultimately show ?thesis by (intro exI [of _ ?u] exI [of _ "l\<lparr>ctx_done := True\<rparr>"]) auto
  qed (use assms(2) in auto)
  then obtain u m where u: "psteps P s u" "started u m" "ctx_done m" "callers u p = Awaiting 0" by blast
  obtain v k where v: "psteps P u v" "started v k" "lpc k = Gone" "callers v p = Awaiting 0"
    using loop_leaves [OF u(2,3)] u(4) by metis
  have "pstep P v (caller_at p StopReturned v)"
    using v by (intro pstep.receive_done [of v p 0]) (auto simp: started_def)
  then show ?thesis using u(1) v(1)
    by (intro exI [of _ "caller_at p StopReturned v"]) (auto intro: rtranclp.rtrancl_into_rtrancl rtranclp_trans)
qed

section \<open>Spacing\<close>

text \<open>After the first invocation a timer is set an interval, and at most the jitter, past the last one's end.\<close>

definition spaced :: "params \<Rightarrow> psys \<Rightarrow> bool" where
  "spaced P s \<longleftrightarrow>
     (loops s = [] \<longrightarrow> returned_at s = None)
     \<and> (\<forall>l \<in> set (loops s). (lpc l = Entering \<longrightarrow> returned_at s = None)
        \<and> (\<forall>t u. timer_at l = Some t \<and> returned_at s = Some u \<longrightarrow>
              interval P \<le> t - u \<and> t - u \<le> interval P + max 0 (jitter P - 1)))"

definition in_range :: "params \<Rightarrow> bool" where
  "in_range P \<longleftrightarrow> 0 < interval P \<and> interval P \<le> MaxInt64 \<and> jitter P \<le> MaxInt64"

lemma nextDelay_range:
  "in_range P \<Longrightarrow> Int64N_law rnd \<Longrightarrow>
     interval P \<le> nextDelay rnd P \<and> nextDelay rnd P \<le> interval P + max 0 (jitter P - 1)"
  using AddJitter_range [of rnd "interval P" "jitter P"] by (simp add: nextDelay_def in_range_def)

lemma spaced_step:
  assumes "pstep P s t" "spaced P s" "periodic_inv s" "in_range P"
  shows "spaced P t"
proof -
  consider "loops s = []" "cancel s = None" | l where "loops s = [l]" "cancel s = Some 0" "started s l"
    using assms(3) by (auto simp: periodic_inv_def not_started_def started_def)
  then show ?thesis
  proof cases
    case 1
    show ?thesis using assms(1)
      by cases (use 1 assms(2) in \<open>auto simp: spaced_def Start_def Stop_def Let_def set_loop_def split: if_splits\<close>)
  next
    case l: 2
    show ?thesis using assms(1)
    proof cases
      case (start p)
      then show ?thesis using assms(2) l by (simp add: Start_def)
    next
      case (stop p)
      then show ?thesis using assms(2) l by (simp add: Stop_def spaced_def)
    next
      case (do_cancel p i)
      then have "i = 0" using l(3) by (auto simp: started_def split: caller.splits)
      then show ?thesis using do_cancel assms(2) l by (simp add: spaced_def set_loop_single)
    next
      case (task_returns i rnd)
      then show ?thesis using assms(2) l nextDelay_range [OF assms(4), of rnd]
        by (simp add: spaced_def set_loop_single)
    qed (use assms(2) l in \<open>auto simp: spaced_def set_loop_single\<close>)
  qed
qed

lemma reachable_spaced:
  "psteps P initial s \<Longrightarrow> in_range P \<Longrightarrow> spaced P s"
proof (induction rule: rtranclp_induct)
  case base
  show ?case by (simp add: spaced_def initial_def)
next
  case (step t u)
  then show ?case using spaced_step [OF step.hyps(2)] reachable_periodic_inv [OF step.hyps(1)] by simp
qed

end
