(* ===== verification/RT_Props.thy ===== *)
theory RT_Props
  imports RT_Retrier RT_Http RT_Periodic
begin

text \<open>
  The theorems on \<^verbatim>\<open>pkg/backoff\<close>, \<^verbatim>\<open>pkg/retrier\<close>, \<^verbatim>\<open>pkg/httpretrier\<close> and \<^verbatim>\<open>pkg/periodic\<close>, each
  with an instance on a concrete input.
\<close>

section \<open>Delays\<close>

text \<open>
  C35. Every delay of a schedule is in range, whatever the configuration: a negative or NaN
  factor, a negative base, any maximum, any number of calls. The delay before jitter is between
  zero and the safety cap, and at most the configured maximum where the maximum is within the
  exact range of the floats; full jitter stays below it, equal jitter between its half and it,
  additive jitter adds less than the configured ceiling, and no sum wraps.
\<close>

theorem backoff_bounds:
  assumes "\<forall>i. Int64N_law (rnd i)" "Jitter cfg \<le> MaxInt64"
  shows "0 \<le> pre_delay (schedule_at rnd cfg n) \<and> pre_delay (schedule_at rnd cfg n) \<le> 2 ^ 62
    \<and> (0 < MaxDelay cfg \<and> MaxDelay cfg \<le> 2 ^ 53 \<longrightarrow> pre_delay (schedule_at rnd cfg n) \<le> MaxDelay cfg)
    \<and> 0 \<le> delay_at rnd cfg n \<and> delay_at rnd cfg n \<le> MaxInt64
    \<and> (if Strategy cfg = JitterFull
       then delay_at rnd cfg n \<le> max 0 (pre_delay (schedule_at rnd cfg n) - 1)
       else if Strategy cfg = JitterEqual
       then pre_delay (schedule_at rnd cfg n) div 2 \<le> delay_at rnd cfg n
         \<and> delay_at rnd cfg n \<le> max 0 (pre_delay (schedule_at rnd cfg n) - 1)
       else pre_delay (schedule_at rnd cfg n) \<le> delay_at rnd cfg n
         \<and> delay_at rnd cfg n \<le> pre_delay (schedule_at rnd cfg n) + max 0 (Jitter cfg - 1))"
proof -
  define s where "s = schedule_at rnd cfg n"
  have p: "0 \<le> pre_delay s" "pre_delay s \<le> 2 ^ 62" by (rule pre_delay_range)+
  have m: "pre_delay s \<le> MaxInt64" using p(2) by (simp add: MaxInt64_def)
  have c: "pre_delay s \<le> MaxDelay cfg" if "0 < MaxDelay cfg" "MaxDelay cfg \<le> 2 ^ 53"
  proof -
    have "clamp s = MaxDelay cfg" using that by (simp add: clamp_def s_def maxSafeDelay_def MaxInt64_def)
    then show ?thesis using pre_delay_range(3) [of s] that(2) by simp
  qed
  have d: "delay_at rnd cfg n = applyJitter (rnd n) s (pre_delay s)"
    by (simp add: delay_at_def schedule_Next_def pre_delay_def s_def)
  have "Int64N_law (rnd n)" "Schedule.jitter s \<le> MaxInt64" using assms by (simp_all add: s_def)
  note j = applyJitter_range [OF this(1) p(1) m this(2)]
  have st: "Schedule.strategy s = Strategy cfg" "Schedule.jitter s = Jitter cfg" by (simp_all add: s_def)
  show ?thesis unfolding d s_def [symmetric] using p c j [unfolded st] by blast
qed

theorem backoff_bounds_witness:
  "0 \<le> delay_at (\<lambda>_ _. 0) \<lparr>Base = - 5, Factor = NaN, Jitter = 3, MaxDelay = 10, Strategy = JitterFull\<rparr> 2"
  using backoff_bounds [of "\<lambda>_ _. 0" "\<lparr>Base = - 5, Factor = NaN, Jitter = 3, MaxDelay = 10, Strategy = JitterFull\<rparr>" 2]
  by (simp add: Int64N_law_def MaxInt64_def)

text \<open>
  With a factor of at least one and a base that is not negative the delay before jitter
  never shrinks, rounding included; and with a whole factor, and a base and a maximum in the
  exact range of the floats, the n-th delay is exactly the base times the n-th power of the
  factor, cut at the maximum.
\<close>

theorem backoff_sequence:
  assumes "0 \<le> Base cfg" "is_int64 (Base cfg)" "Factor cfg = Fin f" "1 \<le> f"
  shows "pre_delay (schedule_at rnd cfg n) \<le> pre_delay (schedule_at rnd cfg (Suc n))
    \<and> (f = of_int k \<and> Base cfg \<le> 2 ^ 53 \<and> 0 < MaxDelay cfg \<and> MaxDelay cfg \<le> 2 ^ 53 \<longrightarrow>
         pre_delay (schedule_at rnd cfg n) = min (Base cfg * k ^ n) (MaxDelay cfg))"
proof (intro conjI impI)
  show "pre_delay (schedule_at rnd cfg n) \<le> pre_delay (schedule_at rnd cfg (Suc n))"
    using progressing_Next(2) [OF progressing_at [OF assms]] by simp
  assume k: "f = of_int k \<and> Base cfg \<le> 2 ^ 53 \<and> 0 < MaxDelay cfg \<and> MaxDelay cfg \<le> 2 ^ 53"
  then have "1 \<le> k" using assms(4) by simp
  then show "pre_delay (schedule_at rnd cfg n) = min (Base cfg * k ^ n) (MaxDelay cfg)"
    using k assms(1,3) by (intro pre_delay_exact) simp_all
qed

theorem backoff_sequence_witness:
  "pre_delay (schedule_at (\<lambda>_ _. 0)
     \<lparr>Base = 100000000, Factor = Fin 2, Jitter = 0, MaxDelay = 30000000000, Strategy = JitterAdditive\<rparr> 3) = 800000000"
  using backoff_sequence [of "\<lparr>Base = 100000000, Factor = Fin 2, Jitter = 0, MaxDelay = 30000000000, Strategy = JitterAdditive\<rparr>"
      2 "\<lambda>_ _. 0" 3 2] by (simp add: is_int64_def)

section \<open>Retries\<close>

text \<open>
  C37. \<^verbatim>\<open>Run\<close> of a retrier built by \<^verbatim>\<open>New\<close> always returns: an ended context is reported before
  the first attempt; otherwise there are at most as many attempts as configured, every attempt
  before the last was retryable, and either the last attempt exhausted them or was not retryable
  and its error is returned, with the executions and the \<^verbatim>\<open>onRetry\<close> calls alternating and the
  delays those of the schedule, or the context ended and its error is returned.
\<close>

theorem retrier_terminates:
  assumes "retrier_New opts = Inr r" "\<forall>opt \<in> set opts. RT_Retrier.package_option opt" "coherent E"
  shows "case start_err E of
      Some e \<Rightarrow> Run r task E = (EndedBefore e, [])
    | None \<Rightarrow> \<exists>n < unat (RT_Retrier.attempts r). (\<forall>i < n. RT_Retrier.retryIfFn r (task i))
        \<and> (Run r task E = (TaskError (task n), retry_log r task E n @ [Executed (task n)])
             \<and> (Suc n = unat (RT_Retrier.attempts r) \<or> \<not> RT_Retrier.retryIfFn r (task n))
           \<or> (\<exists>e l. select_err E n = Some e \<and> Run r task E = (Ended e, l) \<and> executed l = map task [0 ..< n]))"
proof (cases "start_err E")
  case None
  show ?thesis unfolding None option.case
  proof (rule Run_result [OF assms(3) None New_attempts [OF assms(1,2)], of task], goal_cases)
    case (1 n)
    then show ?case by (intro exI [of _ n]) simp
  next
    case (2 n e l)
    then show ?case by (intro exI [of _ n]) simp
  qed
qed (simp add: Run_def)

definition quiet :: "nat env" where
  "quiet = \<lparr>start_err = None, select_err = (\<lambda>_. None), prefer_done = (\<lambda>_. False),
            after_err = (\<lambda>_. None), draws = (\<lambda>_ _. 0)\<rparr>"

lemma quiet_coherent: "coherent quiet"
  by (simp add: coherent_def quiet_def Int64N_law_def)

theorem retrier_terminates_witness:
  "case retrier_New [RT_Retrier.WithAttempts 3] of
     Inr r \<Rightarrow> fst (Run r (\<lambda>i. if i < 2 then Some 7 else None) quiet) = TaskError None
   | Inl e \<Rightarrow> False"
proof -
  let ?task = "\<lambda>i::nat. if i < 2 then Some (7::nat) else None"
  obtain r where r: "retrier_New [RT_Retrier.WithAttempts 3] = Inr (r :: nat Retrier)" "RT_Retrier.attempts r = 3"
    "RT_Retrier.retryIfFn r = DefaultRetryIf"
    by (simp add: retrier_New_def RT_Retrier.WithAttempts_def defaultRetrier_def)
  have q: "start_err quiet = None" "select_err quiet n = None" for n by (simp_all add: quiet_def)
  have pk: "\<forall>opt \<in> set [RT_Retrier.WithAttempts 3]. RT_Retrier.package_option opt"
    by (simp add: RT_Retrier.package_option.intros)
  have "fst (Run r ?task quiet) = TaskError None"
    using retrier_terminates [OF r(1) pk quiet_coherent, of ?task]
    by (auto simp: q r(2,3) DefaultRetryIf_def split: if_splits)
  then show ?thesis using r(1) by simp
qed

text \<open>
  C38. \<^verbatim>\<open>Do\<close> of an HTTP retrier built by \<^verbatim>\<open>New\<close> always returns, whatever the client, \<^verbatim>\<open>GetBody\<close>,
  closing a body and the context do: after at most the configured number of requests, each sent
  with the original body or, on a retry, the stream just reopened for it, and a body that cannot
  be reopened is never sent twice. Every response body received is closed exactly once, in order,
  except the one of the returned response, which is left open; an error comes without a response.
\<close>

theorem http_do_safe:
  assumes "http_New opts = Inr c" "\<forall>opt \<in> set opts. RT_Http.package_option opt" "coherent E"
  shows "\<exists>resp err l n. http_Do c W E r = (Some (resp, err), l) \<and> n \<le> unat (RT_Http.attempts c)
    \<and> sent l = map (body_for W r) [0 ..< n] \<and> (1 < n \<longrightarrow> GetBody r \<or> Body r = None)
    \<and> got l = closed l @ body_list resp \<and> (err \<noteq> None \<longrightarrow> resp = None)"
proof (cases "start_err E")
  case None
  show ?thesis using http_Do_result [OF assms(3) None http_New_attempts [OF assms(1,2)], of W r] by metis
qed (auto simp: http_Do_def body_list_def)

definition flaky :: "nat world" where
  "flaky = \<lparr>client_Do = (\<lambda>i. (Some \<lparr>StatusCode = if i = 0 then 503 else 200, resp_body = Some i, RetryAfter = ''1''\<rparr>, None)),
            open_body = (\<lambda>i. Inr (10 + i)), close_err = (\<lambda>_. None), retry_draws = (\<lambda>_ _. 0),
            now_at = (\<lambda>_. 0), ParseTime = (\<lambda>_. None)\<rparr>"

theorem http_do_safe_witness:
  "case http_New [RT_Http.WithRetryIfFn (Some RetryIfForReadRequests), WithRespectRetryAfter] of
     Inr c \<Rightarrow> fst (http_Do c flaky quiet \<lparr>GetBody = True, Body = Some 5, Method = ''GET''\<rparr>) \<noteq> None
   | Inl e \<Rightarrow> False"
proof -
  let ?opts = "[RT_Http.WithRetryIfFn (Some RetryIfForReadRequests), WithRespectRetryAfter] :: nat RT_Http.Option list"
  obtain c where c: "http_New ?opts = Inr c"
    by (simp add: http_New_def RT_Http.WithRetryIfFn_def WithRespectRetryAfter_def)
  have "\<forall>opt \<in> set ?opts. RT_Http.package_option opt" by (auto intro: RT_Http.package_option.intros)
  then show ?thesis
    using http_do_safe [OF c _ quiet_coherent, of flaky "\<lparr>GetBody = True, Body = Some 5, Method = ''GET''\<rparr>"] c
    by auto
qed

section \<open>Periodic tasks\<close>

text \<open>
  C39. However calls of \<^verbatim>\<open>Start\<close> and \<^verbatim>\<open>Stop\<close> interleave, at most one loop is ever launched; once
  some \<^verbatim>\<open>Stop\<close> has returned no task runs, then or later; a \<^verbatim>\<open>Stop\<close> under way can always return;
  and the timer of every invocation but the first is set between the interval and the interval
  plus the jitter past the end of the previous one.
\<close>

theorem periodic_stop:
  assumes "psteps P initial s"
  shows "length (loops s) \<le> 1
    \<and> (callers s p = StopReturned \<longrightarrow> (\<forall>t. psteps P s t \<longrightarrow> runs t = runs s \<and> (\<forall>l \<in> set (loops t). lpc l = Gone)))
    \<and> (callers s p = Cancelling i \<or> callers s p = Awaiting i \<longrightarrow> (\<exists>t. psteps P s t \<and> callers t p = StopReturned))
    \<and> (in_range P \<longrightarrow> spaced P s)"
proof (intro conjI impI allI ballI)
  have inv: "periodic_inv s" using assms by (rule reachable_periodic_inv)
  show "length (loops s) \<le> 1" using inv by (auto simp: periodic_inv_def not_started_def started_def)
  show "runs t = runs s" if "callers s p = StopReturned" "psteps P s t" for t
    using at_rest_forever [OF that(2) returned_at_rest [OF inv that(1)]] by blast
  show "lpc l = Gone" if "callers s p = StopReturned" "psteps P s t" "l \<in> set (loops t)" for t l
    using at_rest_forever [OF that(2) returned_at_rest [OF inv that(1)]] at_rest_loops that(3) by blast
  show "\<exists>t. psteps P s t \<and> callers t p = StopReturned" if "callers s p = Cancelling i \<or> callers s p = Awaiting i"
    using stop_can_return [OF inv that] .
  show "spaced P s" if "in_range P" using reachable_spaced [OF assms that] .
qed

theorem periodic_stop_witness:
  "length (loops (Stop 0 (Start initial))) \<le> 1"
proof -
  let ?P = "\<lparr>interval = 10, jitter = 3, timeout = 5, task_set = True, jitterFirst = False\<rparr>"
  have "pstep ?P initial (Start initial)" by (rule pstep.start [of _ 0]) (simp add: initial_def)
  moreover have "pstep ?P (Start initial) (Stop 0 (Start initial))"
    by (rule pstep.stop) (simp add: initial_def Start_def)
  ultimately have "psteps ?P initial (Stop 0 (Start initial))" by auto
  then show ?thesis using periodic_stop by blast
qed

end
