(* ===== verification/DN_Cache.thy ===== *)
theory DN_Cache
  imports SF_System "HOL-Library.Word" "HOL-Library.Multiset"
begin

text \<open>
  \<^verbatim>\<open>pkg/dnscache\<close> (\<^verbatim>\<open>dnscache.go\<close>, \<^verbatim>\<open>options.go\<close>), the client of \<^verbatim>\<open>pkg/sfcache\<close>: host names are
  its keys, lists of address strings its values. The cache itself is the system of the theory
  \<^verbatim>\<open>SF_Flight\<close>; what a call takes from it is the outcome of one \<^verbatim>\<open>Lookup\<close>.

  \<^item> An address is a parsed \<^verbatim>\<open>netip.Addr\<close>; the parser \<^verbatim>\<open>netip.ParseAddr\<close> and \<^verbatim>\<open>net.SplitHostPort\<close>
    are arguments.
  \<^item> A dial attempt is the argument \<open>dial\<close>, a function of the position of the candidate and of
    the address; \<open>ctx\<close> is the error of the caller's context before each candidate. The
    per-attempt timeout is seen by the dialer only.
\<close>

section \<open>Addresses and configuration\<close>

datatype addr = NoAddr | IPv4 "32 word" | IPv6 "128 word" bytes

fun IsValid :: "addr \<Rightarrow> bool" where
  "IsValid NoAddr = False"
| "IsValid _ = True"

fun Is6 :: "addr \<Rightarrow> bool" where
  "Is6 (IPv6 _ _) = True"
| "Is6 _ = False"

fun Is4In6 :: "addr \<Rightarrow> bool" where
  "Is4In6 (IPv6 w _) = (drop_bit 32 w = 65535)"
| "Is4In6 _ = False"

fun Unmap :: "addr \<Rightarrow> addr" where
  "Unmap (IPv6 w z) = (if Is4In6 (IPv6 w z) then IPv4 (ucast w) else IPv6 w z)"
| "Unmap a = a"

definition isIPv6Addr :: "addr \<Rightarrow> bool" where
  "isIPv6Addr a \<longleftrightarrow> Is6 a \<and> \<not> Is4In6 a"

record dnsconfig =
  dialTimeout :: duration
  maxStale :: duration
  maxStaleOnFailure :: duration
  rotate :: bool

record dns =
  dns_dialTimeout :: duration
  dns_rotate :: bool
  dialSeq :: "64 word"

definition WithDialTimeout :: "duration \<Rightarrow> dnsconfig \<Rightarrow> dnsconfig" where
  "WithDialTimeout t c = c\<lparr>dialTimeout := t\<rparr>"

definition WithAddressRotation :: "dnsconfig \<Rightarrow> dnsconfig" where
  "WithAddressRotation c = c\<lparr>rotate := True\<rparr>"

definition WithStaleIfError :: "duration \<Rightarrow> dnsconfig \<Rightarrow> dnsconfig" where
  "WithStaleIfError d c = c\<lparr>maxStale := d\<rparr>"

definition WithStaleOnFailure :: "duration \<Rightarrow> dnsconfig \<Rightarrow> dnsconfig" where
  "WithStaleOnFailure d c = c\<lparr>maxStaleOnFailure := d\<rparr>"

text \<open>\<^verbatim>\<open>New\<close>: the configuration of the cache below, and the dial state.\<close>

definition dns_New :: "int \<Rightarrow> duration \<Rightarrow> (dnsconfig \<Rightarrow> dnsconfig) list \<Rightarrow> config \<times> dns" where
  "dns_New sz life opts =
     (let c = fold (\<lambda>opt. opt) opts \<lparr>dialTimeout = 0, maxStale = 0, maxStaleOnFailure = 0, rotate = False\<rparr>
      in (\<lparr>Size = sz, TTL = life, MaxStale = maxStale c, MaxStaleOnFailure = maxStaleOnFailure c\<rparr>,
          \<lparr>dns_dialTimeout = dialTimeout c, dns_rotate = rotate c, dialSeq = 0\<rparr>))"

section \<open>Host names\<close>

definition asciiLower :: "bytes \<Rightarrow> bytes" where
  "asciiLower host =
     map (\<lambda>c. if of_char c < (65 :: nat) \<or> (90 :: nat) < of_char c then c else char_of (of_char c + 32 :: nat)) host"

definition normalizeHost :: "bytes \<Rightarrow> bytes" where
  "normalizeHost host =
     asciiLower (if 1 < length host \<and> last host = CHR ''.'' then butlast host else host)"

section \<open>Candidates\<close>

record dialCandidate =
  raw :: bytes
  addr :: addr

definition sameDestination :: "dialCandidate \<Rightarrow> dialCandidate \<Rightarrow> bool" where
  "sameDestination a b =
     (if IsValid (addr a) \<and> IsValid (addr b) then addr a = addr b
      else \<not> IsValid (addr a) \<and> \<not> IsValid (addr b) \<and> raw a = raw b)"

definition containsCandidate :: "dialCandidate list \<Rightarrow> dialCandidate \<Rightarrow> bool" where
  "containsCandidate cands cand = list_ex (\<lambda>c. sameDestination c cand) cands"

fun new_candidates_loop :: "(bytes \<Rightarrow> addr option) \<Rightarrow> bytes list \<Rightarrow> dialCandidate list \<Rightarrow> dialCandidate list" where
  "new_candidates_loop parse [] cands = cands"
| "new_candidates_loop parse (ip # ips) cands =
     (let a = (case parse ip of None \<Rightarrow> NoAddr | Some a \<Rightarrow> a);
          cand = \<lparr>raw = ip, addr = Unmap a\<rparr>
      in new_candidates_loop parse ips (if containsCandidate cands cand then cands else cands @ [cand]))"

definition newCandidates :: "(bytes \<Rightarrow> addr option) \<Rightarrow> bytes list \<Rightarrow> dialCandidate list" where
  "newCandidates parse ips = new_candidates_loop parse ips []"

definition filterByFamily :: "dialCandidate list \<Rightarrow> bool \<Rightarrow> dialCandidate list" where
  "filterByFamily cands v6 = filter (\<lambda>c. \<not> IsValid (addr c) \<or> isIPv6Addr (addr c) = v6) cands"

definition filterByNetwork :: "dialCandidate list \<Rightarrow> bytes \<Rightarrow> dialCandidate list" where
  "filterByNetwork cands network =
     (if network = [] then cands
      else if last network = CHR ''4'' then filterByFamily cands False
      else if last network = CHR ''6'' then filterByFamily cands True
      else cands)"

definition rotateCandidates :: "dialCandidate list \<Rightarrow> 64 word \<Rightarrow> dialCandidate list" where
  "rotateCandidates cands offset =
     (let n = length cands in
      if n < 2 then cands
      else (let start = unat offset mod n in map (\<lambda>i. cands ! ((start + i) mod n)) [0 ..< n]))"

definition interleave :: "dialCandidate list \<Rightarrow> dialCandidate list \<Rightarrow> dialCandidate list" where
  "interleave first second =
     concat (map (\<lambda>i. (if i < length first then [first ! i] else [])
                    @ (if i < length second then [second ! i] else []))
       [0 ..< max (length first) (length second)])"

definition isMixedFamily :: "dialCandidate list \<Rightarrow> bool \<Rightarrow> bool" where
  "isMixedFamily cands lead = list_ex (\<lambda>c. isIPv6Addr (addr c) \<noteq> lead) cands"

definition splitByFamily :: "dialCandidate list \<Rightarrow> bool \<Rightarrow> dialCandidate list \<times> dialCandidate list" where
  "splitByFamily cands lead =
     (filter (\<lambda>c. isIPv6Addr (addr c) = lead) cands, filter (\<lambda>c. isIPv6Addr (addr c) \<noteq> lead) cands)"

definition nextDialOffset :: "dns \<Rightarrow> 64 word \<times> dns" where
  "nextDialOffset c = (dialSeq c, c\<lparr>dialSeq := dialSeq c + 1\<rparr>)"

definition orderCandidates ::
    "(bytes \<Rightarrow> addr option) \<Rightarrow> bytes \<Rightarrow> bytes list \<Rightarrow> dns \<Rightarrow> dialCandidate list \<times> dns" where
  "orderCandidates parse network ips c =
     (let cands = filterByNetwork (newCandidates parse ips) network in
      if length cands < 2 then (cands, c)
      else
        (let lead = isIPv6Addr (addr (hd cands)) in
         if \<not> isMixedFamily cands lead
         then (if dns_rotate c
               then (let (offset, c1) = nextDialOffset c in (rotateCandidates cands offset, c1))
               else (cands, c))
         else
           (let (first, second) = splitByFamily cands lead in
            if dns_rotate c
            then (let (offset, c1) = nextDialOffset c
                  in (interleave (rotateCandidates first offset) (rotateCandidates second offset), c1))
            else (interleave first second, c))))"

section \<open>Dialing\<close>

datatype 'e attempt_error = CtxError 'e | ErrInvalidIP bytes | DialError 'e

datatype 'e dns_error = BadAddress bytes | Unresolved bytes 'e | ErrNoAddresses bytes
  | NoAddressesOn bytes bytes | FailedToDial bytes "'e attempt_error list"

text \<open>The loop over the candidates; beside its result, the addresses dialed.\<close>

fun dial_loop ::
    "(nat \<Rightarrow> 'e option) \<Rightarrow> (nat \<Rightarrow> addr \<Rightarrow> 'e + 'c) \<Rightarrow> nat \<Rightarrow> dialCandidate list \<Rightarrow> 'e attempt_error list
       \<Rightarrow> ('e attempt_error list + 'c) \<times> addr list" where
  "dial_loop ctx dial i [] errs = (Inl errs, [])"
| "dial_loop ctx dial i (cand # cands) errs =
     (case ctx i of
        Some e \<Rightarrow> (Inl (errs @ [CtxError e]), [])
      | None \<Rightarrow>
         (if \<not> IsValid (addr cand) then dial_loop ctx dial (Suc i) cands (errs @ [ErrInvalidIP (raw cand)])
          else
            (case dial i (addr cand) of
               Inr conn \<Rightarrow> (Inr conn, [addr cand])
             | Inl e \<Rightarrow>
                (let (r, l) = dial_loop ctx dial (Suc i) cands (errs @ [DialError e]) in (r, addr cand # l)))))"

definition dialAddrs ::
    "(nat \<Rightarrow> 'e option) \<Rightarrow> (nat \<Rightarrow> addr \<Rightarrow> 'e + 'c) \<Rightarrow> dialCandidate list
       \<Rightarrow> ('e attempt_error list + 'c) \<times> addr list" where
  "dialAddrs ctx dial cands = dial_loop ctx dial 0 cands []"

text \<open>\<^verbatim>\<open>lookup\<close>: an address literal bypasses the cache; \<open>cached\<close> is the outcome of the cache's lookup.\<close>

definition isIPLiteral :: "(bytes \<Rightarrow> addr option) \<Rightarrow> bytes \<Rightarrow> bool" where
  "isIPLiteral parse host \<longleftrightarrow> parse host \<noteq> None"

definition dns_lookup ::
    "(bytes \<Rightarrow> addr option) \<Rightarrow> (bytes \<Rightarrow> bytes list \<times> 'e option) \<Rightarrow> bytes \<Rightarrow> 'e dns_error + bytes list" where
  "dns_lookup parse cached host =
     (if isIPLiteral parse host then Inr [host]
      else (case cached (normalizeHost host) of
              (v, None) \<Rightarrow> Inr v
            | (v, Some e) \<Rightarrow> Inl (Unresolved host e)))"

definition DialContext ::
    "(bytes \<Rightarrow> addr option) \<Rightarrow> (bytes \<Rightarrow> (bytes \<times> bytes) option) \<Rightarrow> (bytes \<Rightarrow> bytes list \<times> 'e option)
       \<Rightarrow> (nat \<Rightarrow> 'e option) \<Rightarrow> (bytes \<Rightarrow> nat \<Rightarrow> addr \<Rightarrow> 'e + 'c) \<Rightarrow> bytes \<Rightarrow> bytes \<Rightarrow> dns
       \<Rightarrow> ('e dns_error + 'c) \<times> addr list \<times> dns" where
  "DialContext parse SplitHostPort cached ctx dial network address c =
     (case SplitHostPort address of
        None \<Rightarrow> (Inl (BadAddress address), [], c)
      | Some (host, port) \<Rightarrow>
         (case dns_lookup parse cached host of
            Inl e \<Rightarrow> (Inl e, [], c)
          | Inr ips \<Rightarrow>
             (if ips = [] then (Inl (ErrNoAddresses host), [], c)
              else
                (let (cands, c1) = orderCandidates parse network ips c in
                 if cands = [] then (Inl (NoAddressesOn host network), [], c1)
                 else
                   (case dialAddrs ctx (dial port) cands of
                      (Inl errs, l) \<Rightarrow> (Inl (FailedToDial address errs), l, c1)
                    | (Inr conn, l) \<Rightarrow> (Inr conn, l, c1))))))"

text \<open>The operations that delegate to the cache; a host is normalized as for a lookup.\<close>

definition LookupHost ::
    "(bytes \<Rightarrow> addr option) \<Rightarrow> (bytes \<Rightarrow> bytes list \<times> 'e option) \<Rightarrow> bytes \<Rightarrow> 'e dns_error + bytes list" where
  "LookupHost parse cached host = dns_lookup parse cached host"

definition dns_Remove ::
    "bytes \<Rightarrow> (bytes, bytes list, 'e) cache \<Rightarrow> (nat option \<times> (bytes, bytes list, 'e) cache) option" where
  "dns_Remove host c = removeLocked (normalizeHost host) c"

definition dns_Reset ::
    "(bytes, bytes list, 'e) cache \<Rightarrow> (bytes, nat) fmap \<times> (bytes, bytes list, 'e) cache" where
  "dns_Reset c = resetLocked c"

definition dns_PurgeExpired ::
    "(nat \<Rightarrow> gotime) \<Rightarrow> (bytes, bytes list, 'e) cache \<Rightarrow> (nat \<times> (bytes, bytes list, 'e) cache) option" where
  "dns_PurgeExpired clk c = PurgeExpired clk c"

definition dns_Len :: "(bytes, bytes list, 'e) cache \<Rightarrow> nat" where
  "dns_Len c = cache_Len c"

section \<open>Destinations\<close>

definition dest :: "dialCandidate \<Rightarrow> addr + bytes" where
  "dest c = (if IsValid (addr c) then Inl (addr c) else Inr (raw c))"

lemma sameDestination_iff: "sameDestination a b \<longleftrightarrow> dest a = dest b"
  by (auto simp: sameDestination_def dest_def)

lemma containsCandidate_iff: "containsCandidate cands c \<longleftrightarrow> dest c \<in> dest ` set cands"
  unfolding containsCandidate_def sameDestination_iff list_ex_iff image_iff by metis

definition candidate :: "(bytes \<Rightarrow> addr option) \<Rightarrow> bytes \<Rightarrow> dialCandidate" where
  "candidate parse ip = \<lparr>raw = ip, addr = Unmap (case parse ip of None \<Rightarrow> NoAddr | Some a \<Rightarrow> a)\<rparr>"

lemma new_candidates_loop_ok:
  "distinct (map dest cands) \<Longrightarrow> set cands \<subseteq> candidate parse ` S \<Longrightarrow>
     distinct (map dest (new_candidates_loop parse ips cands))
     \<and> set (new_candidates_loop parse ips cands) \<subseteq> candidate parse ` (S \<union> set ips)
     \<and> dest ` set (new_candidates_loop parse ips cands) = dest ` set cands \<union> dest ` candidate parse ` set ips"
proof (induction ips arbitrary: cands S)
  case Nil
  then show ?case by auto
next
  case (Cons ip ips)
  let ?c = "candidate parse ip" and ?cs = "if containsCandidate cands (candidate parse ip) then cands else cands @ [candidate parse ip]"
  have d: "distinct (map dest ?cs)" using Cons.prems(1) by (auto simp: containsCandidate_iff)
  have sub: "set ?cs \<subseteq> candidate parse ` (insert ip S)" using Cons.prems(2) by auto
  have eq: "dest ` set ?cs = dest ` set cands \<union> {dest ?c}" by (auto simp: containsCandidate_iff)
  have "new_candidates_loop parse (ip # ips) cands = new_candidates_loop parse ips ?cs"
    by (simp add: candidate_def Let_def)
  moreover have "insert ip S \<union> set ips = S \<union> set (ip # ips)" by simp
  ultimately show ?case using Cons.IH [OF d sub] eq by simp
qed

lemma newCandidates_ok:
  "distinct (map dest (newCandidates parse ips))" "set (newCandidates parse ips) \<subseteq> candidate parse ` set ips"
  "dest ` set (newCandidates parse ips) = dest ` candidate parse ` set ips"
  using new_candidates_loop_ok [of "[]" parse "{}" ips] by (simp_all add: newCandidates_def)

section \<open>Order\<close>

text \<open>A candidate a network admits; an entry that is not an address is kept to be reported.\<close>

definition admits :: "bytes \<Rightarrow> dialCandidate \<Rightarrow> bool" where
  "admits network c \<longleftrightarrow>
     \<not> IsValid (addr c) \<or> network = [] \<or> last network \<notin> {CHR ''4'', CHR ''6''}
     \<or> isIPv6Addr (addr c) = (last network = CHR ''6'')"

lemma filterByNetwork_eq: "filterByNetwork cands network = filter (admits network) cands"
  by (auto simp: filterByNetwork_def filterByFamily_def admits_def intro!: filter_cong)

lemma rotateCandidates_eq:
  "rotateCandidates cands offset = List.rotate (unat offset mod length cands) cands"
proof (cases "length cands < 2")
  case True
  then show ?thesis by (cases cands rule: list.exhaust [where P = "?thesis"]) (auto simp: rotateCandidates_def Suc_less_eq2 length_0_conv)
next
  case False
  then show ?thesis
    by (intro nth_equalityI) (auto simp: rotateCandidates_def Let_def nth_rotate add.commute)
qed

lemma mset_rotate: "mset (List.rotate n xs) = mset xs"
  by (metis add.commute append_take_drop_id mset_append rotate_drop_take)

lemma rotateCandidates_ok [simp]:
  "mset (rotateCandidates cands offset) = mset cands" "set (rotateCandidates cands offset) = set cands"
  "length (rotateCandidates cands offset) = length cands"
  by (simp_all add: rotateCandidates_eq mset_rotate)

lemma interleave_simps:
  "interleave [] ys = ys" "interleave xs [] = xs"
  "interleave (x # xs) (y # ys) = x # y # interleave xs ys"
proof -
  have one: "concat (map (\<lambda>i. [zs ! i]) [0 ..< length zs]) = zs" for zs :: "dialCandidate list"
    by (simp add: concat_map_singleton map_nth)
  have "concat (map (\<lambda>i. if i < length zs then [zs ! i] else []) [0 ..< length zs]) = zs" for zs :: "dialCandidate list"
    by (rule trans [OF arg_cong [where f = concat, OF map_cong] one]) auto
  then show "interleave [] ys = ys" "interleave xs [] = xs" by (simp_all add: interleave_def)
  show "interleave (x # xs) (y # ys) = x # y # interleave xs ys"
    by (simp add: interleave_def upt_conv_Cons map_Suc_upt [symmetric] o_def cong: if_cong del: upt_Suc)
qed

lemma interleave_mset: "mset (interleave xs ys) = mset xs + mset ys"
  by (induction xs ys rule: list_induct2') (simp_all add: interleave_simps)

lemma interleave_alternates:
  "\<forall>x \<in> set xs. P x \<Longrightarrow> \<forall>y \<in> set ys. \<not> P y \<Longrightarrow> i < 2 * min (length xs) (length ys) \<Longrightarrow>
     P (interleave xs ys ! i) = even i"
proof (induction xs ys arbitrary: i rule: list_induct2')
  case (4 x xs y ys)
  then show ?case by (cases i; cases "i - 1") (auto simp: interleave_simps)
qed simp_all

text \<open>
  The order is a permutation of the candidates the network admits; it leads with the family of
  the first of them, and the two families alternate while both last.
\<close>

lemma splitByFamily_mset: "splitByFamily cands lead = (a, b) \<Longrightarrow> mset a + mset b = mset cands"
  by (induction cands arbitrary: a b) (auto simp: splitByFamily_def)

lemma orderCandidates_mset:
  "mset (fst (orderCandidates parse network ips c)) = mset (filter (admits network) (newCandidates parse ips))"
proof -
  define cands where "cands = filter (admits network) (newCandidates parse ips)"
  obtain a b where ab: "splitByFamily cands (isIPv6Addr (addr (hd cands))) = (a, b)" by fastforce
  show ?thesis using splitByFamily_mset [OF ab]
    unfolding orderCandidates_def filterByNetwork_eq cands_def [symmetric]
    by (simp add: Let_def ab nextDialOffset_def interleave_mset)
qed

definition alternates :: "dialCandidate list \<Rightarrow> dialCandidate list \<Rightarrow> bool" where
  "alternates cands out \<longleftrightarrow>
     (let same = (\<lambda>x. isIPv6Addr (addr x) = isIPv6Addr (addr (hd cands)))
      in \<forall>i < 2 * min (length (filter same cands)) (length (filter (\<lambda>x. \<not> same x) cands)). same (out ! i) = even i)"

lemma orderCandidates_family:
  "alternates (filter (admits network) (newCandidates parse ips)) (fst (orderCandidates parse network ips c))"
proof -
  define cands where "cands = filter (admits network) (newCandidates parse ips)"
  define lead where "lead = isIPv6Addr (addr (hd cands))"
  let ?a = "filter (\<lambda>x. isIPv6Addr (addr x) = lead) cands" and ?b = "filter (\<lambda>x. isIPv6Addr (addr x) \<noteq> lead) cands"
  have "(isIPv6Addr (addr (fst (orderCandidates parse network ips c) ! i)) = lead) = even i"
    if i: "i < 2 * min (length ?a) (length ?b)" for i
  proof -
    have "?b \<noteq> []" using i by auto
    then obtain y where y: "y \<in> set cands" "isIPv6Addr (addr y) \<noteq> lead" by (auto simp: filter_empty_conv)
    then have mixed: "isMixedFamily cands lead" by (auto simp: isMixedFamily_def list_ex_iff)
    have "hd cands \<in> set cands" "hd cands \<noteq> y" using y by (auto simp: lead_def intro: hd_in_set)
    then have "\<not> length cands < 2" using y(1) by (cases cands; cases "tl cands") auto
    then obtain u v where o: "fst (orderCandidates parse network ips c) = interleave u v"
      "set u = set ?a" "set v = set ?b" "length u = length ?a" "length v = length ?b"
      using mixed unfolding orderCandidates_def filterByNetwork_eq cands_def [symmetric] splitByFamily_def Let_def
        nextDialOffset_def lead_def [symmetric]
      by (cases "dns_rotate c") auto
    have "(isIPv6Addr (addr (interleave u v ! i)) = lead) = even i"
      by (rule interleave_alternates) (use o i in auto)
    then show ?thesis using o(1) by simp
  qed
  then show ?thesis unfolding alternates_def Let_def cands_def [symmetric] lead_def [symmetric] by simp
qed

section \<open>Dialing\<close>

text \<open>
  A run of the loop from attempt \<open>i\<close> on. Some first candidates were tried, each with a context
  that had not ended, and each failed: \<open>es\<close> are their errors in order, that of the dial or the
  report of an entry that is not an address. Then the next candidate was dialed with success;
  or none was left; or the context had ended, which is the last error. The addresses dialed are
  those of the candidates tried.
\<close>

definition attempt_fails :: "(nat \<Rightarrow> 'e option) \<Rightarrow> (nat \<Rightarrow> addr \<Rightarrow> 'e + 'c) \<Rightarrow> nat \<times> dialCandidate
    \<Rightarrow> 'e attempt_error \<Rightarrow> bool" where
  "attempt_fails ctx dial a er =
     (case a of (j, x) \<Rightarrow> ctx j = None
        \<and> (if IsValid (addr x) then \<exists>e. dial j (addr x) = Inl e \<and> er = DialError e else er = ErrInvalidIP (raw x)))"

definition valid_addrs :: "dialCandidate list \<Rightarrow> addr list" where
  "valid_addrs cands = map addr (filter (\<lambda>x. IsValid (addr x)) cands)"

lemma valid_addrs_Cons [simp]:
  "valid_addrs [] = []"
  "valid_addrs (x # xs) = (if IsValid (addr x) then addr x # valid_addrs xs else valid_addrs xs)"
  by (simp_all add: valid_addrs_def)

definition dialed_from :: "(nat \<Rightarrow> 'e option) \<Rightarrow> (nat \<Rightarrow> addr \<Rightarrow> 'e + 'c) \<Rightarrow> nat \<Rightarrow> dialCandidate list
    \<Rightarrow> 'e attempt_error list + 'c \<Rightarrow> addr list \<Rightarrow> nat \<Rightarrow> 'e attempt_error list \<Rightarrow> bool" where
  "dialed_from ctx dial i cands r l n es \<longleftrightarrow>
     n \<le> length cands \<and> list_all2 (attempt_fails ctx dial) (enumerate i (take n cands)) es
     \<and> (case r of
          Inr conn \<Rightarrow> n < length cands \<and> ctx (i + n) = None \<and> IsValid (addr (cands ! n))
            \<and> dial (i + n) (addr (cands ! n)) = Inr conn \<and> l = valid_addrs (take (Suc n) cands)
        | Inl errs \<Rightarrow> l = valid_addrs (take n cands)
            \<and> (n = length cands \<and> errs = es \<or> n < length cands \<and> (\<exists>e. ctx (i + n) = Some e \<and> errs = es @ [CtxError e])))"

text \<open>Errors already collected stand before those of the run.\<close>

lemma dial_loop_ok:
  "dial_loop ctx dial i cands acc = (r, l) \<Longrightarrow>
     \<exists>r' n es. dialed_from ctx dial i cands r' l n es \<and> r = map_sum ((@) acc) id r'"
proof (induction cands arbitrary: i acc l)
  case Nil
  then show ?case by (intro exI [of _ "Inl []"] exI [of _ 0] exI [of _ "[]"]) (simp add: dialed_from_def)
next
  case (Cons cand cands)
  have cons: "\<exists>r' n es. dialed_from ctx dial i (cand # cands) r' l n es \<and> r = map_sum ((@) acc) id r'"
    if d: "dial_loop ctx dial (Suc i) cands (acc @ [er]) = (r, l')" and f: "attempt_fails ctx dial (i, cand) er"
      and l: "l = (if IsValid (addr cand) then addr cand # l' else l')" for er l'
  proof -
    obtain r' n es where ih: "dialed_from ctx dial (Suc i) cands r' l' n es" "r = map_sum ((@) (acc @ [er])) id r'"
      using Cons.IH [OF d] by blast
    have "dialed_from ctx dial i (cand # cands) (map_sum ((#) er) id r') l (Suc n) (er # es)"
      using ih(1) f unfolding l by (cases r') (auto simp: dialed_from_def)
    moreover have "r = map_sum ((@) acc) id (map_sum ((#) er) id r')" using ih(2) by (cases r') simp_all
    ultimately show ?thesis by blast
  qed
  show ?case
  proof (cases "ctx i")
    case (Some e)
    then show ?thesis using Cons.prems
      by (intro exI [of _ "Inl [CtxError e]"] exI [of _ 0] exI [of _ "[]"]) (auto simp: dialed_from_def)
  next
    case None
    consider "\<not> IsValid (addr cand)" | conn where "IsValid (addr cand)" "dial i (addr cand) = Inr conn"
      | e where "IsValid (addr cand)" "dial i (addr cand) = Inl e" by (cases "dial i (addr cand)") auto
    then show ?thesis
    proof cases
      case 1
      then show ?thesis using Cons.prems None by (intro cons) (auto simp: attempt_fails_def)
    next
      case 2
      then show ?thesis using Cons.prems None
        by (intro exI [of _ "Inr conn"] exI [of _ 0] exI [of _ "[]"]) (auto simp: dialed_from_def)
    next
      case 3
      obtain l' where d: "dial_loop ctx dial (Suc i) cands (acc @ [DialError e]) = (r, l')" "l = addr cand # l'"
        using Cons.prems None 3 by (auto split: prod.splits)
      show ?thesis by (rule cons [OF d(1)]) (use None 3 d(2) in \<open>simp_all add: attempt_fails_def\<close>)
    qed
  qed
qed

text \<open>The loop as \<^verbatim>\<open>dialAddrs\<close> runs it.\<close>

definition dialed :: "(nat \<Rightarrow> 'e option) \<Rightarrow> (nat \<Rightarrow> addr \<Rightarrow> 'e + 'c) \<Rightarrow> dialCandidate list
    \<Rightarrow> 'e attempt_error list + 'c \<Rightarrow> addr list \<Rightarrow> bool" where
  "dialed ctx dial cands r l \<longleftrightarrow> (\<exists>n es. dialed_from ctx dial 0 cands r l n es)"

lemma dialAddrs_ok:
  assumes "dialAddrs ctx dial cands = (r, l)"
  shows "dialed ctx dial cands r l"
proof -
  obtain r' n es where d: "dialed_from ctx dial 0 cands r' l n es" and r: "r = map_sum ((@) []) id r'"
    using dial_loop_ok [OF assms [unfolded dialAddrs_def]] by blast
  have "r = r'" using r by (cases r') simp_all
  then show ?thesis using d by (auto simp: dialed_def)
qed

end
