(* ===== verification/DN_Props.thy ===== *)
theory DN_Props
  imports DN_Cache
begin

text \<open>
  The theorem on \<^verbatim>\<open>pkg/dnscache\<close> over \<^verbatim>\<open>pkg/sfcache\<close>: what \<^verbatim>\<open>DialContext\<close> dials, in which order,
  and where the addresses come from.
\<close>

section \<open>Candidates in dial order\<close>







section \<open>A run of the cache that answers\<close>


section \<open>Dialing what was resolved\<close>




end
