(* ===== verification/CC_Key.thy ===== *)
theory CC_Key
  imports Go_Strconv "HOL-Library.Word"
begin

text \<open>
  \<^verbatim>\<open>pkg/countrycode/countrykey.go\<close>: a country record packed into 64 bits, and the encodings of
  its alphabetic and numeric codes. The tables the code slices are built here as the code builds
  them. The lemmas show that packing and unpacking are inverse to each other and that each code
  is read back as the text it was made from.
\<close>

unbundle bit_operations_syntax

section \<open>Layout\<close>

definition bitPosTLD :: nat where "bitPosTLD = 0"
definition bitPosIntRegion :: nat where "bitPosIntRegion = bitPosTLD + 10"
definition bitPosSubRegion :: nat where "bitPosSubRegion = bitPosIntRegion + 5"
definition bitPosRegion :: nat where "bitPosRegion = bitPosSubRegion + 5"
definition bitPosNumeric :: nat where "bitPosNumeric = bitPosRegion + 5"
definition bitPosAlpha3 :: nat where "bitPosAlpha3 = bitPosNumeric + 10"
definition bitPosAlpha2 :: nat where "bitPosAlpha2 = bitPosAlpha3 + 15"
definition bitPosStatus :: nat where "bitPosStatus = bitPosAlpha2 + 10"

definition bitMaskTLD :: "64 word" where "bitMaskTLD = 0x3FF"
definition bitMaskIntRegion :: "64 word" where "bitMaskIntRegion = 0x7C00"
definition bitMaskSubRegion :: "64 word" where "bitMaskSubRegion = 0xF8000"
definition bitMaskRegion :: "64 word" where "bitMaskRegion = 0x1F00000"
definition bitMaskNumeric :: "64 word" where "bitMaskNumeric = 0x7FE000000"
definition bitMaskAlpha3 :: "64 word" where "bitMaskAlpha3 = 0x3FFF800000000"
definition bitMaskAlpha2 :: "64 word" where "bitMaskAlpha2 = 0xFFC000000000000"
definition bitMaskStatus :: "64 word" where "bitMaskStatus = 0x7000000000000000"

definition bitMaskChar0 :: "16 word" where "bitMaskChar0 = 0x1F"
definition bitMaskChar1 :: "16 word" where "bitMaskChar1 = 0x3E0"
definition bitMaskChar2 :: "16 word" where "bitMaskChar2 = 0x7C00"

definition bitPosChar0 :: nat where "bitPosChar0 = 0"
definition bitPosChar1 :: nat where "bitPosChar1 = bitPosChar0 + 5"
definition bitPosChar2 :: nat where "bitPosChar2 = bitPosChar1 + 5"

definition chrOffsetUpper :: "16 word" where "chrOffsetUpper = 64"
definition chrOffsetLower :: "16 word" where "chrOffsetLower = 96"

datatype cc_error = errInvalidLength | errInvalidCharacter | ErrInvalidNumeric | ErrNotFound

record countryKeyElem =
  status :: "8 word"
  alpha2 :: "16 word"
  alpha3 :: "16 word"
  numeric :: "16 word"
  region :: "8 word"
  subregion :: "8 word"
  intregion :: "8 word"
  tld :: "16 word"

section \<open>The key\<close>

definition decodeCountryKey :: "64 word \<Rightarrow> countryKeyElem" where
  "decodeCountryKey key =
     \<lparr>status = ucast (drop_bit bitPosStatus (key AND bitMaskStatus)),
      alpha2 = ucast (drop_bit bitPosAlpha2 (key AND bitMaskAlpha2)),
      alpha3 = ucast (drop_bit bitPosAlpha3 (key AND bitMaskAlpha3)),
      numeric = ucast (drop_bit bitPosNumeric (key AND bitMaskNumeric)),
      region = ucast (drop_bit bitPosRegion (key AND bitMaskRegion)),
      subregion = ucast (drop_bit bitPosSubRegion (key AND bitMaskSubRegion)),
      intregion = ucast (drop_bit bitPosIntRegion (key AND bitMaskIntRegion)),
      tld = ucast (drop_bit bitPosTLD (key AND bitMaskTLD))\<rparr>"

definition encodeCountryKey :: "countryKeyElem \<Rightarrow> 64 word" where
  "encodeCountryKey e =
     push_bit bitPosStatus (ucast (status e AND 0x7))
     OR push_bit bitPosAlpha2 (ucast (alpha2 e AND 0x3FF))
     OR push_bit bitPosAlpha3 (ucast (alpha3 e AND 0x7FFF))
     OR push_bit bitPosNumeric (ucast (numeric e AND 0x3FF))
     OR push_bit bitPosRegion (ucast (region e AND 0x1F))
     OR push_bit bitPosSubRegion (ucast (subregion e AND 0x1F))
     OR push_bit bitPosIntRegion (ucast (intregion e AND 0x1F))
     OR push_bit bitPosTLD (ucast (tld e AND 0x3FF))"

section \<open>Letters and digits\<close>

definition charOffset :: "char \<Rightarrow> 16 word \<Rightarrow> cc_error + 16 word" where
  "charOffset b offset =
     (let c = of_char b - offset in if c < 1 \<or> 26 < c then Inl errInvalidCharacter else Inr c)"

definition charOffsetUpper :: "char \<Rightarrow> cc_error + 16 word" where
  "charOffsetUpper b = charOffset b chrOffsetUpper"

definition charOffsetLower :: "char \<Rightarrow> cc_error + 16 word" where
  "charOffsetLower b = charOffset b chrOffsetLower"

text \<open>The byte a 16-bit value converts to.\<close>

definition byte_of :: "16 word \<Rightarrow> char" where
  "byte_of w = char_of (unat (ucast w :: 8 word))"

fun encode_pair :: "(char \<Rightarrow> cc_error + 16 word) \<Rightarrow> bytes \<Rightarrow> cc_error + 16 word" where
  "encode_pair f [a, b] =
     (case f a of Inl e \<Rightarrow> Inl e
      | Inr c1 \<Rightarrow> (case f b of Inl e \<Rightarrow> Inl e
                   | Inr c0 \<Rightarrow> Inr (push_bit bitPosChar1 c1 OR push_bit bitPosChar0 c0)))"
| "encode_pair f _ = Inl errInvalidLength"

definition encodeAlpha2 :: "bytes \<Rightarrow> cc_error + 16 word" where
  "encodeAlpha2 s = encode_pair charOffsetUpper s"

definition encodeTLD :: "bytes \<Rightarrow> cc_error + 16 word" where
  "encodeTLD s = encode_pair charOffsetLower s"

definition char_pair :: "16 word \<Rightarrow> nat \<Rightarrow> bytes" where
  "char_pair offset code =
     (let c = word_of_nat code
      in [byte_of (drop_bit bitPosChar1 (c AND bitMaskChar1) + offset),
          byte_of (drop_bit bitPosChar0 (c AND bitMaskChar0) + offset)])"

definition buildCharTab :: "16 word \<Rightarrow> bytes" where
  "buildCharTab offset = concat (map (char_pair offset) [0 ..< 1024])"

definition decodeAlpha2 :: "16 word \<Rightarrow> bytes" where
  "decodeAlpha2 code = take 2 (drop (2 * unat (code AND 0x3FF)) (buildCharTab chrOffsetUpper))"

definition decodeTLD :: "16 word \<Rightarrow> bytes" where
  "decodeTLD code = take 2 (drop (2 * unat (code AND 0x3FF)) (buildCharTab chrOffsetLower))"

fun encodeAlpha3 :: "bytes \<Rightarrow> cc_error + 16 word" where
  "encodeAlpha3 [a, b, c] =
     (case charOffsetUpper a of Inl e \<Rightarrow> Inl e
      | Inr c2 \<Rightarrow> (case charOffsetUpper b of Inl e \<Rightarrow> Inl e
      | Inr c1 \<Rightarrow> (case charOffsetUpper c of Inl e \<Rightarrow> Inl e
      | Inr c0 \<Rightarrow> Inr (push_bit bitPosChar2 c2 OR push_bit bitPosChar1 c1 OR push_bit bitPosChar0 c0))))"
| "encodeAlpha3 _ = Inl errInvalidLength"

definition decodeAlpha3 :: "16 word \<Rightarrow> bytes" where
  "decodeAlpha3 code =
     [byte_of (drop_bit bitPosChar2 (code AND bitMaskChar2) + chrOffsetUpper),
      byte_of (drop_bit bitPosChar1 (code AND bitMaskChar1) + chrOffsetUpper),
      byte_of (drop_bit bitPosChar0 (code AND bitMaskChar0) + chrOffsetUpper)]"

definition encodeNumeric :: "bytes \<Rightarrow> cc_error + 16 word" where
  "encodeNumeric s =
     (if length s \<noteq> 3 then Inl errInvalidLength
      else (case ParseUint s of
              Some v \<Rightarrow> if v < 2 ^ 16 then Inr (word_of_nat v) else Inl ErrInvalidNumeric
            | None \<Rightarrow> Inl ErrInvalidNumeric))"

definition numeric_triple :: "nat \<Rightarrow> bytes" where
  "numeric_triple i =
     [char_of (48 + (i div 100) mod 10), char_of (48 + (i div 10) mod 10), char_of (48 + i mod 10)]"

definition numeric3Tab :: bytes where
  "numeric3Tab = concat (map numeric_triple [0 ..< 1000])"

definition numericStr :: "16 word \<Rightarrow> bytes" where
  "numericStr n = (if 999 < n then [] else take 3 (drop (3 * unat n) numeric3Tab))"

section \<open>Fields\<close>

lemmas key_pos = bitPosTLD_def bitPosIntRegion_def bitPosSubRegion_def bitPosRegion_def bitPosNumeric_def
  bitPosAlpha3_def bitPosAlpha2_def bitPosStatus_def

lemma key_masks:
  "bitMaskTLD = mask 10" "bitMaskIntRegion = push_bit 10 (mask 5)" "bitMaskSubRegion = push_bit 15 (mask 5)"
  "bitMaskRegion = push_bit 20 (mask 5)" "bitMaskNumeric = push_bit 25 (mask 10)" "bitMaskAlpha3 = push_bit 35 (mask 15)"
  "bitMaskAlpha2 = push_bit 50 (mask 10)" "bitMaskStatus = push_bit 60 (mask 3)"
  by (simp_all add: bitMaskTLD_def bitMaskIntRegion_def bitMaskSubRegion_def bitMaskRegion_def bitMaskNumeric_def
      bitMaskAlpha3_def bitMaskAlpha2_def bitMaskStatus_def mask_eq_exp_minus_1 push_bit_eq_mult)

lemma value_masks: "(0x7 :: 'a :: len word) = mask 3" "(0x3FF :: 'a word) = mask 10" "(0x7FFF :: 'a word) = mask 15"
  "(0x1F :: 'a word) = mask 5"
  by (simp_all add: mask_eq_exp_minus_1)

lemma drop_push_mask:
  "k \<le> LENGTH('a) - n \<Longrightarrow> n < LENGTH('a) \<Longrightarrow>
     drop_bit n (x AND push_bit n (mask k)) = take_bit k (drop_bit n x)" for x :: "'a :: len word"
  by (rule bit_word_eqI) (auto simp: bit_simps)

lemma decode_fields:
  "decodeCountryKey key =
     \<lparr>status = ucast (take_bit 3 (drop_bit 60 key)), alpha2 = ucast (take_bit 10 (drop_bit 50 key)),
      alpha3 = ucast (take_bit 15 (drop_bit 35 key)), numeric = ucast (take_bit 10 (drop_bit 25 key)),
      region = ucast (take_bit 5 (drop_bit 20 key)), subregion = ucast (take_bit 5 (drop_bit 15 key)),
      intregion = ucast (take_bit 5 (drop_bit 10 key)), tld = ucast (take_bit 10 key)\<rparr>"
  by (simp add: decodeCountryKey_def key_pos key_masks drop_push_mask flip: take_bit_eq_mask del: drop_bit_and)

lemma encode_fields:
  "encodeCountryKey e =
     push_bit 60 (ucast (take_bit 3 (status e))) OR push_bit 50 (ucast (take_bit 10 (alpha2 e)))
     OR push_bit 35 (ucast (take_bit 15 (alpha3 e))) OR push_bit 25 (ucast (take_bit 10 (numeric e)))
     OR push_bit 20 (ucast (take_bit 5 (region e))) OR push_bit 15 (ucast (take_bit 5 (subregion e)))
     OR push_bit 10 (ucast (take_bit 5 (intregion e))) OR ucast (take_bit 10 (tld e))"
  by (simp add: encodeCountryKey_def key_pos value_masks take_bit_eq_mask)

text \<open>Decoding a packed record gives each field cut to its width.\<close>

lemma decode_encode_fields:
  "decodeCountryKey (encodeCountryKey e) =
     \<lparr>status = take_bit 3 (status e), alpha2 = take_bit 10 (alpha2 e), alpha3 = take_bit 15 (alpha3 e),
      numeric = take_bit 10 (numeric e), region = take_bit 5 (region e), subregion = take_bit 5 (subregion e),
      intregion = take_bit 5 (intregion e), tld = take_bit 10 (tld e)\<rparr>"
  unfolding decode_fields encode_fields
  by (simp; intro conjI; rule bit_word_eqI; simp add: bit_simps; fastforce)

definition fields_fit :: "countryKeyElem \<Rightarrow> bool" where
  "fields_fit e \<longleftrightarrow> status e < 2 ^ 3 \<and> alpha2 e < 2 ^ 10 \<and> alpha3 e < 2 ^ 15 \<and> numeric e < 2 ^ 10
     \<and> region e < 2 ^ 5 \<and> subregion e < 2 ^ 5 \<and> intregion e < 2 ^ 5 \<and> tld e < 2 ^ 10"

lemma take_bit_word_below: "x < 2 ^ n \<Longrightarrow> n < LENGTH('a) \<Longrightarrow> take_bit n x = x" for x :: "'a :: len word"
  by (simp add: less_mask_eq take_bit_eq_mask)

lemma decode_encode: "fields_fit e \<Longrightarrow> decodeCountryKey (encodeCountryKey e) = e"
  by (simp add: decode_encode_fields fields_fit_def take_bit_word_below)

lemma bit_push_field:
  "p + k \<le> 64 \<Longrightarrow> k \<le> LENGTH('a) \<Longrightarrow>
     bit (push_bit p (ucast (take_bit k w)) :: 64 word) n \<longleftrightarrow> p \<le> n \<and> n < p + k \<and> bit w (n - p)"
  for w :: "'a :: len word"
  by (auto simp: bit_simps)

lemma bit_encode:
  "bit (encodeCountryKey e) n \<longleftrightarrow>
     60 \<le> n \<and> n < 63 \<and> bit (status e) (n - 60) \<or> 50 \<le> n \<and> n < 60 \<and> bit (alpha2 e) (n - 50)
     \<or> 35 \<le> n \<and> n < 50 \<and> bit (alpha3 e) (n - 35) \<or> 25 \<le> n \<and> n < 35 \<and> bit (numeric e) (n - 25)
     \<or> 20 \<le> n \<and> n < 25 \<and> bit (region e) (n - 20) \<or> 15 \<le> n \<and> n < 20 \<and> bit (subregion e) (n - 15)
     \<or> 10 \<le> n \<and> n < 15 \<and> bit (intregion e) (n - 10) \<or> n < 10 \<and> bit (tld e) n"
  using bit_push_field [of 0 10 "tld e" n]
  by (simp add: encode_fields bit_or_iff bit_push_field)

lemma bit_field:
  "p + k \<le> 64 \<Longrightarrow> k \<le> LENGTH('a) \<Longrightarrow>
     bit (ucast (take_bit k (drop_bit p key)) :: 'a :: len word) i \<longleftrightarrow> i < k \<and> bit key (p + i)"
  for key :: "64 word"
  by (auto simp: bit_simps)

lemma encode_decode: "encodeCountryKey (decodeCountryKey key) = take_bit 63 key"
proof (rule bit_word_eqI)
  fix n assume "n < LENGTH(64)"
  have 0: "bit (tld (decodeCountryKey key)) i \<longleftrightarrow> i < 10 \<and> bit key i" for i
    using bit_field [of 0 10, where 'a = 16] by (simp add: decode_fields)
  consider "n < 10" | "10 \<le> n" "n < 15" | "15 \<le> n" "n < 20" | "20 \<le> n" "n < 25" | "25 \<le> n" "n < 35"
    | "35 \<le> n" "n < 50" | "50 \<le> n" "n < 60" | "60 \<le> n" "n < 63" | "63 \<le> n" by linarith
  then show "bit (encodeCountryKey (decodeCountryKey key)) n \<longleftrightarrow> bit (take_bit 63 key) n"
    unfolding bit_encode 0 by cases (simp_all add: decode_fields bit_field bit_take_bit_iff less_diff_conv2)
qed

section \<open>Texts\<close>

lemma concat_slice:
  assumes "\<And>j. length (f j) = w" and "i < n"
  shows "take w (drop (w * i) (concat (map f [0 ..< n]))) = f i"
proof -
  have len: "length (concat (map f [0 ..< k])) = w * k" for k
    by (induction k) (simp_all add: assms(1))
  have "[0 ..< n] = [0 ..< i] @ i # [Suc i ..< n]"
    using assms(2) upt_add_eq_append [of 0 i "n - i"] by (simp add: upt_conv_Cons)
  then show ?thesis using len [of i] by (simp add: assms(1))
qed

lemma length_pieces [simp]: "length (char_pair off j) = 2" "length (numeric_triple j) = 3"
  by (simp_all add: char_pair_def Let_def numeric_triple_def)

lemma byte_of_of_char [simp]: "byte_of (of_char b) = b"
proof -
  have "x mod 65536 mod 256 = x" if "x < 256" for x :: nat
    using that by simp
  from this [of "of_char b"] have "unat (ucast (word_of_nat (of_char b) :: 16 word) :: 8 word) = of_char b"
    by (simp add: unsigned_ucast_eq unat_of_nat take_bit_eq_mod)
  then show ?thesis by (simp add: byte_of_def of_nat_of_char)
qed

lemma charOffset_letter:
  assumes "charOffset b off = Inr c"
  shows "c \<noteq> 0" "c \<le> 26" "byte_of (c + off) = b"
  using assms by (auto simp: charOffset_def Let_def not_less split: if_splits)

lemma bit_below: "c < 2 ^ k \<Longrightarrow> k < LENGTH('a) \<Longrightarrow> bit c n \<Longrightarrow> n < k" for c :: "'a :: len word"
  by (metis bit_take_bit_iff take_bit_word_below)

lemma char_masks: "bitMaskChar0 = push_bit 0 (mask 5)" "bitMaskChar1 = push_bit 5 (mask 5)"
  "bitMaskChar2 = push_bit 10 (mask 5)"
  by (simp_all add: bitMaskChar0_def bitMaskChar1_def bitMaskChar2_def mask_eq_exp_minus_1 push_bit_eq_mult)

lemmas char_pos = bitPosChar0_def bitPosChar1_def bitPosChar2_def

lemma three_letters:
  fixes c2 c1 c0 :: "16 word"
  assumes "c2 < 2 ^ 5" "c1 < 2 ^ 5" "c0 < 2 ^ 5"
  defines "w \<equiv> push_bit bitPosChar2 c2 OR push_bit bitPosChar1 c1 OR push_bit bitPosChar0 c0"
  shows "drop_bit bitPosChar2 (w AND bitMaskChar2) = c2" "drop_bit bitPosChar1 (w AND bitMaskChar1) = c1"
    "drop_bit bitPosChar0 (w AND bitMaskChar0) = c0"
proof -
  have b: "bit c2 n \<Longrightarrow> n < 5" "bit c1 n \<Longrightarrow> n < 5" "bit c0 n \<Longrightarrow> n < 5" for n
    using assms(1-3) by (simp_all add: bit_below)
  show "drop_bit bitPosChar2 (w AND bitMaskChar2) = c2" "drop_bit bitPosChar1 (w AND bitMaskChar1) = c1"
    "drop_bit bitPosChar0 (w AND bitMaskChar0) = c0"
    unfolding w_def char_pos char_masks
    by (rule bit_word_eqI; force simp: bit_simps dest: b)+
qed

lemma below_iff: "n < LENGTH('a) \<Longrightarrow> x < 2 ^ n \<longleftrightarrow> take_bit n x = x" for x :: "'a :: len word"
  using mask_eq_iff_w2p [of n x] by (simp add: take_bit_eq_mask word_size)

lemma letters_below:
  fixes c2 c1 c0 :: "16 word"
  assumes "c2 < 2 ^ 5" "c1 < 2 ^ 5" "c0 < 2 ^ 5"
  shows "push_bit bitPosChar2 c2 OR push_bit bitPosChar1 c1 OR push_bit bitPosChar0 c0 < 2 ^ 15"
    "push_bit bitPosChar1 c1 OR push_bit bitPosChar0 c0 < 2 ^ 10"
proof -
  have t: "take_bit m c = c" if "c < 2 ^ 5" "5 \<le> m" for c :: "16 word" and m
    by (rule bit_word_eqI) (use bit_below [OF that(1)] that(2) in \<open>fastforce simp: bit_take_bit_iff\<close>)
  have "take_bit 15 (push_bit bitPosChar2 c2 OR push_bit bitPosChar1 c1 OR push_bit bitPosChar0 c0) =
      push_bit bitPosChar2 c2 OR push_bit bitPosChar1 c1 OR push_bit bitPosChar0 c0"
    by (simp add: char_pos take_bit_push_bit t assms [simplified])
  then show "push_bit bitPosChar2 c2 OR push_bit bitPosChar1 c1 OR push_bit bitPosChar0 c0 < 2 ^ 15"
    using below_iff [of 15 "push_bit bitPosChar2 c2 OR push_bit bitPosChar1 c1 OR push_bit bitPosChar0 c0"] by simp
  have "take_bit 10 (push_bit bitPosChar1 c1 OR push_bit bitPosChar0 c0) =
      push_bit bitPosChar1 c1 OR push_bit bitPosChar0 c0"
    by (simp add: char_pos take_bit_push_bit t assms [simplified])
  then show "push_bit bitPosChar1 c1 OR push_bit bitPosChar0 c0 < 2 ^ 10"
    using below_iff [of 10 "push_bit bitPosChar1 c1 OR push_bit bitPosChar0 c0"] by simp
qed

lemma letter_word: "c \<le> 26 \<Longrightarrow> c < 2 ^ 5" for c :: "16 word"
  using le_less_trans [of c 26 "2 ^ 5"] by simp

lemma encode_pair_text:
  assumes "encode_pair (\<lambda>b. charOffset b off) s = Inr w"
  shows "take 2 (drop (2 * unat (w AND 0x3FF)) (buildCharTab off)) = s" "w < 2 ^ 10" "w \<noteq> 0"
proof -
  obtain a b c1 c0 where s: "s = [a, b]" and c: "charOffset a off = Inr c1" "charOffset b off = Inr c0"
      and w: "w = push_bit bitPosChar1 c1 OR push_bit bitPosChar0 c0"
    using assms by (cases "(\<lambda>b. charOffset b off, s)" rule: encode_pair.cases) (auto split: sum.splits)
  note l1 = charOffset_letter [OF c(1)] and l0 = charOffset_letter [OF c(2)]
  note b1 = letter_word [OF l1(2)] and b0 = letter_word [OF l0(2)]
  show lt: "w < 2 ^ 10" unfolding w using letters_below(2) [OF _ b1 b0, of 0] by simp
  have fld: "drop_bit bitPosChar1 (w AND bitMaskChar1) = c1" "drop_bit bitPosChar0 (w AND bitMaskChar0) = c0"
    using three_letters [OF _ b1 b0, of 0] unfolding w by simp_all
  then show "w \<noteq> 0" using l0(1) by auto
  have "w AND 0x3FF = w" using lt less_mask_eq [of w 10] by (simp add: mask_eq_exp_minus_1)
  moreover have "take 2 (drop (2 * unat w) (buildCharTab off)) = char_pair off (unat w)"
    unfolding buildCharTab_def using lt unat_mono [of w "2 ^ 10"] by (intro concat_slice) simp_all
  moreover have "char_pair off (unat w) = s"
    by (simp only: char_pair_def Let_def of_nat_unat ucast_id fld l1(3) l0(3) s)
  ultimately show "take 2 (drop (2 * unat (w AND 0x3FF)) (buildCharTab off)) = s" by simp
qed

lemma encodeAlpha2_text:
  "encodeAlpha2 s = Inr w \<Longrightarrow> decodeAlpha2 w = s \<and> w < 2 ^ 10 \<and> w \<noteq> 0"
  using encode_pair_text [of chrOffsetUpper s w]
  by (simp add: encodeAlpha2_def decodeAlpha2_def charOffsetUpper_def [abs_def])

lemma encodeTLD_text:
  "encodeTLD s = Inr w \<Longrightarrow> decodeTLD w = s \<and> w < 2 ^ 10 \<and> w \<noteq> 0"
  using encode_pair_text [of chrOffsetLower s w]
  by (simp add: encodeTLD_def decodeTLD_def charOffsetLower_def [abs_def])

lemma encodeAlpha3_text:
  assumes "encodeAlpha3 s = Inr w"
  shows "decodeAlpha3 w = s \<and> w < 2 ^ 15 \<and> w \<noteq> 0"
proof -
  obtain a b c c2 c1 c0 where s: "s = [a, b, c]"
      and c: "charOffsetUpper a = Inr c2" "charOffsetUpper b = Inr c1" "charOffsetUpper c = Inr c0"
      and w: "w = push_bit bitPosChar2 c2 OR push_bit bitPosChar1 c1 OR push_bit bitPosChar0 c0"
    using assms by (cases s rule: encodeAlpha3.cases) (auto split: sum.splits)
  note l = c [unfolded charOffsetUpper_def, THEN charOffset_letter(2)]
    c [unfolded charOffsetUpper_def, THEN charOffset_letter(3)]
  note b = l(1-3) [THEN letter_word]
  note fld = three_letters [OF b, folded w]
  have "w \<noteq> 0" using fld(3) charOffset_letter(1) [OF c(3) [unfolded charOffsetUpper_def]] by auto
  then show ?thesis
    using fld l(4-6) letters_below(1) [OF b, folded w] by (simp add: decodeAlpha3_def s)
qed

text \<open>A three-digit text is read as a number at most 999, which is written back as the same digits.\<close>

lemma digits3:
  fixes x y z :: nat
  assumes "x < 10" "y < 10" "z < 10"
  defines "v \<equiv> x * 100 + y * 10 + z"
  shows "v < 1000" "v div 100 mod 10 = x" "v div 10 mod 10 = y" "v mod 10 = z"
proof -
  have "v div 10 = x * 10 + y" "v div 100 = x" using assms(2,3) unfolding v_def by linarith+
  then show "v < 1000" "v div 100 mod 10 = x" "v div 10 mod 10 = y"
    using assms(1-3) unfolding v_def by simp_all
  have "v = z + 10 * (x * 10 + y)" unfolding v_def by simp
  then show "v mod 10 = z" using assms(3) by (simp only: mod_mult_self2 mod_less)
qed

lemma encodeNumeric_text:
  assumes "encodeNumeric s = Inr w"
  shows "numericStr w = s \<and> w < 2 ^ 10"
proof -
  have len: "length s = 3" using assms by (simp add: encodeNumeric_def split: if_splits)
  then obtain a b c where s: "s = [a, b, c]"
    by (metis (no_types) length_0_conv length_Suc_conv numeral_3_eq_3)
  let ?x = "byte_val a - 48" and ?y = "byte_val b - 48" and ?z = "byte_val c - 48"
  define v where "v = ?x * 100 + ?y * 10 + ?z"
  have d: "48 \<le> byte_val a" "byte_val a \<le> 57" "48 \<le> byte_val b" "byte_val b \<le> 57" "48 \<le> byte_val c" "byte_val c \<le> 57"
      and w: "w = word_of_nat v"
    using assms by (auto simp: encodeNumeric_def s ParseUint_def v_def algebra_simps split: if_splits option.splits)
  have xyz: "?x < 10" "?y < 10" "?z < 10" using d by simp_all
  note digits = digits3 [OF xyz, folded v_def]
  have un: "unat w = v" using digits(1) by (simp add: w unat_of_nat)
  have "w \<le> 999" using un digits(1) by (simp add: word_le_nat_alt)
  then have lim: "\<not> 999 < w" "w < 2 ^ 10" using le_less_trans [of w 999 "2 ^ 10"] by (auto simp: not_less)
  have "numericStr w = numeric_triple v"
    using lim(1) un digits(1) by (simp add: numericStr_def numeric3Tab_def concat_slice)
  also have "\<dots> = s" using d by (simp add: numeric_triple_def digits s)
  finally show ?thesis using lim(2) by simp
qed

end
