(* ===== verification/CC_Country.thy ===== *)
theory CC_Country
  imports CC_Key "HOL-Library.List_Lexorder" "HOL-Library.Char_ord" "HOL-Library.Multiset"
begin

text \<open>
  \<^verbatim>\<open>pkg/countrycode\<close> (\<^verbatim>\<open>countrycode.go\<close> and the code of \<^verbatim>\<open>data.go\<close>): the catalogs, the packed
  country records, the reverse indexes and the lookups. A map is a partial function; the order in
  which \<^verbatim>\<open>range\<close> visits the map of country keys, which the language leaves open, is an argument of the
  operations that depend on it. The embedded dataset is in \<open>CC_Data\<close>.
\<close>

section \<open>Data\<close>

record enumData =
  code :: bytes
  name :: bytes

record Names =
  EN :: bytes
  FR :: bytes

record CountryData =
  StatusCode :: "8 word"
  Status :: bytes
  Alpha2Code :: bytes
  Alpha3Code :: bytes
  NumericCode :: bytes
  NameEnglish :: bytes
  NameFrench :: bytes
  Region :: bytes
  SubRegion :: bytes
  IntermediateRegion :: bytes
  RegionCode :: bytes
  SubRegionCode :: bytes
  IntermediateRegionCode :: bytes
  TLD :: bytes

record Data =
  dStatusByID :: "enumData list"
  dStatusIDByName :: "bytes \<rightharpoonup> 8 word"
  dRegionByID :: "enumData list"
  dRegionIDByCode :: "bytes \<rightharpoonup> 8 word"
  dRegionIDByName :: "bytes \<rightharpoonup> 8 word"
  dSubRegionByID :: "enumData list"
  dSubRegionIDByCode :: "bytes \<rightharpoonup> 8 word"
  dSubRegionIDByName :: "bytes \<rightharpoonup> 8 word"
  dIntermediateRegionByID :: "enumData list"
  dIntermediateRegionIDByCode :: "bytes \<rightharpoonup> 8 word"
  dIntermediateRegionIDByName :: "bytes \<rightharpoonup> 8 word"
  dCountryNamesByAlpha2ID :: "16 word \<rightharpoonup> Names"
  dCountryKeyByAlpha2ID :: "16 word \<rightharpoonup> 64 word"
  dAlpha2IDByAlpha3ID :: "16 word \<rightharpoonup> 16 word"
  dAlpha2IDByNumericID :: "16 word \<rightharpoonup> 16 word"
  dAlpha2IDsByRegionID :: "8 word \<rightharpoonup> 16 word list"
  dAlpha2IDsBySubRegionID :: "8 word \<rightharpoonup> 16 word list"
  dAlpha2IDsByIntermediateRegionID :: "8 word \<rightharpoonup> 16 word list"
  dAlpha2IDsByStatusID :: "8 word \<rightharpoonup> 16 word list"
  dAlpha2IDsByTLD :: "16 word \<rightharpoonup> 16 word list"

definition zero_Data :: Data where
  "zero_Data = \<lparr>dStatusByID = [], dStatusIDByName = Map.empty,
     dRegionByID = [], dRegionIDByCode = Map.empty, dRegionIDByName = Map.empty,
     dSubRegionByID = [], dSubRegionIDByCode = Map.empty, dSubRegionIDByName = Map.empty,
     dIntermediateRegionByID = [], dIntermediateRegionIDByCode = Map.empty, dIntermediateRegionIDByName = Map.empty,
     dCountryNamesByAlpha2ID = Map.empty, dCountryKeyByAlpha2ID = Map.empty,
     dAlpha2IDByAlpha3ID = Map.empty, dAlpha2IDByNumericID = Map.empty,
     dAlpha2IDsByRegionID = Map.empty, dAlpha2IDsBySubRegionID = Map.empty,
     dAlpha2IDsByIntermediateRegionID = Map.empty, dAlpha2IDsByStatusID = Map.empty, dAlpha2IDsByTLD = Map.empty\<rparr>"

text \<open>
  \<^verbatim>\<open>strings.ToUpper\<close>: an ASCII text is mapped byte by byte, any other rune by rune with the upper-case
  mapping \<open>u\<close> of the Unicode tables.
\<close>

definition upper_byte :: "char \<Rightarrow> char" where
  "upper_byte c = (if 97 \<le> byte_val c \<and> byte_val c \<le> 122 then char_of (byte_val c - 32) else c)"

definition ToUpper :: "(nat \<Rightarrow> nat) \<Rightarrow> bytes \<Rightarrow> bytes" where
  "ToUpper u s =
     (if \<forall>c \<in> set s. byte_val c < 0x80 then map upper_byte s else concat (map (\<lambda>r. EncodeRune (u r)) (runes s)))"

section \<open>Building the tables\<close>

fun collect_pairs :: "enumData list \<Rightarrow> (bytes \<rightharpoonup> enumData) \<times> bytes list \<Rightarrow> (bytes \<rightharpoonup> enumData) \<times> bytes list" where
  "collect_pairs [] (byCode, keys) = (byCode, keys)"
| "collect_pairs (p # ps) (byCode, keys) =
     collect_pairs ps (if byCode (code p) = None then (byCode(code p \<mapsto> p), keys @ [code p]) else (byCode, keys))"

definition collectCatalog :: "enumData list \<Rightarrow> enumData list" where
  "collectCatalog pairs =
     (let (byCode, keys) = collect_pairs pairs ([[] \<mapsto> \<lparr>code = [], name = []\<rparr>], [[]])
      in map (\<lambda>k. the (byCode k)) (sort keys))"

text \<open>A reverse index: later entries overwrite earlier ones, and the position is cut to 8 bits.\<close>

definition index_by :: "(enumData \<Rightarrow> bytes) \<Rightarrow> enumData list \<Rightarrow> bytes \<rightharpoonup> 8 word" where
  "index_by f es = foldl (\<lambda>m (k, v). m(f v \<mapsto> word_of_nat k)) Map.empty (List.enumerate 0 es)"

definition statuses :: "enumData list" where
  "statuses =
     [\<lparr>code = ''0'', name = ''Unassigned''\<rparr>, \<lparr>code = ''1'', name = ''Officially assigned''\<rparr>,
      \<lparr>code = ''2'', name = ''User-assigned''\<rparr>, \<lparr>code = ''3'', name = ''Exceptionally reserved''\<rparr>,
      \<lparr>code = ''4'', name = ''Transitionally reserved''\<rparr>, \<lparr>code = ''5'', name = ''Indeterminately reserved''\<rparr>,
      \<lparr>code = ''6'', name = ''Formerly assigned''\<rparr>]"

definition statusMap :: "(nat \<Rightarrow> nat) \<Rightarrow> Data \<Rightarrow> Data" where
  "statusMap u d = d\<lparr>dStatusByID := statuses, dStatusIDByName := index_by (\<lambda>e. ToUpper u (name e)) statuses\<rparr>"

definition genRegionIndexes :: "(nat \<Rightarrow> nat) \<Rightarrow> Data \<Rightarrow> Data" where
  "genRegionIndexes u d =
     d\<lparr>dRegionIDByCode := index_by code (dRegionByID d),
       dRegionIDByName := index_by (\<lambda>e. ToUpper u (name e)) (dRegionByID d),
       dSubRegionIDByCode := index_by code (dSubRegionByID d),
       dSubRegionIDByName := index_by (\<lambda>e. ToUpper u (name e)) (dSubRegionByID d),
       dIntermediateRegionIDByCode := index_by code (dIntermediateRegionByID d),
       dIntermediateRegionIDByName := index_by (\<lambda>e. ToUpper u (name e)) (dIntermediateRegionByID d)\<rparr>"

definition append_id :: "('k \<rightharpoonup> 16 word list) \<Rightarrow> 'k \<Rightarrow> 16 word \<Rightarrow> 'k \<rightharpoonup> 16 word list" where
  "append_id m x k = m(x \<mapsto> (case m x of None \<Rightarrow> [] | Some ks \<Rightarrow> ks) @ [k])"

definition index_country :: "16 word \<Rightarrow> Data \<Rightarrow> Data" where
  "index_country k d =
     (case dCountryKeyByAlpha2ID d k of
        None \<Rightarrow> d
      | Some v \<Rightarrow>
          let ck = decodeCountryKey v in
          d\<lparr>dAlpha2IDByAlpha3ID := (dAlpha2IDByAlpha3ID d)(alpha3 ck \<mapsto> k),
            dAlpha2IDByNumericID := (dAlpha2IDByNumericID d)(numeric ck \<mapsto> k),
            dAlpha2IDsByRegionID := append_id (dAlpha2IDsByRegionID d) (region ck) k,
            dAlpha2IDsBySubRegionID := append_id (dAlpha2IDsBySubRegionID d) (subregion ck) k,
            dAlpha2IDsByIntermediateRegionID := append_id (dAlpha2IDsByIntermediateRegionID d) (intregion ck) k,
            dAlpha2IDsByStatusID := append_id (dAlpha2IDsByStatusID d) (status ck) k,
            dAlpha2IDsByTLD := append_id (dAlpha2IDsByTLD d) (tld ck) k\<rparr>)"

definition sort_groups :: "('k \<rightharpoonup> 16 word list) \<Rightarrow> 'k \<rightharpoonup> 16 word list" where
  "sort_groups m = (\<lambda>x. map_option sort (m x))"

text \<open>The country indexes, the keys visited in the given order.\<close>

definition genCountryIndexes :: "16 word list \<Rightarrow> Data \<Rightarrow> Data" where
  "genCountryIndexes order d0 =
     (let d = fold index_country order
                (d0\<lparr>dAlpha2IDByAlpha3ID := Map.empty, dAlpha2IDByNumericID := Map.empty,
                    dAlpha2IDsByRegionID := Map.empty, dAlpha2IDsBySubRegionID := Map.empty,
                    dAlpha2IDsByIntermediateRegionID := Map.empty, dAlpha2IDsByStatusID := Map.empty,
                    dAlpha2IDsByTLD := Map.empty\<rparr>)
      in d\<lparr>dAlpha2IDByAlpha3ID := (dAlpha2IDByAlpha3ID d)(0 := None),
           dAlpha2IDByNumericID := (dAlpha2IDByNumericID d)(0 := None),
           dAlpha2IDsByRegionID := sort_groups (dAlpha2IDsByRegionID d),
           dAlpha2IDsBySubRegionID := sort_groups (dAlpha2IDsBySubRegionID d),
           dAlpha2IDsByIntermediateRegionID := sort_groups (dAlpha2IDsByIntermediateRegionID d),
           dAlpha2IDsByStatusID := sort_groups (dAlpha2IDsByStatusID d),
           dAlpha2IDsByTLD := sort_groups (dAlpha2IDsByTLD d)\<rparr>)"

section \<open>Lookups by ID, code and name\<close>

text \<open>The three shapes the lookups of the source have.\<close>

definition by_id :: "'a list \<Rightarrow> int \<Rightarrow> cc_error + 'a" where
  "by_id es i = (if i < 0 \<or> int (length es) \<le> i then Inl ErrNotFound else Inr (es ! nat i))"

definition by_key :: "('k \<rightharpoonup> 'v) \<Rightarrow> 'k \<Rightarrow> cc_error + 'v" where
  "by_key m k = (case m k of None \<Rightarrow> Inl ErrNotFound | Some v \<Rightarrow> Inr v)"

definition statusByID :: "Data \<Rightarrow> int \<Rightarrow> cc_error + enumData" where
  "statusByID d i = by_id (dStatusByID d) i"

definition statusIDByName :: "(nat \<Rightarrow> nat) \<Rightarrow> Data \<Rightarrow> bytes \<Rightarrow> cc_error + 8 word" where
  "statusIDByName u d n = by_key (dStatusIDByName d) (ToUpper u n)"

definition regionByID :: "Data \<Rightarrow> int \<Rightarrow> cc_error + enumData" where
  "regionByID d i = by_id (dRegionByID d) i"

definition regionIDByCode :: "Data \<Rightarrow> bytes \<Rightarrow> cc_error + 8 word" where
  "regionIDByCode d c = (if c = [] then Inl ErrNotFound else by_key (dRegionIDByCode d) c)"

definition regionIDByName :: "(nat \<Rightarrow> nat) \<Rightarrow> Data \<Rightarrow> bytes \<Rightarrow> cc_error + 8 word" where
  "regionIDByName u d n = (if n = [] then Inl ErrNotFound else by_key (dRegionIDByName d) (ToUpper u n))"

definition subRegionByID :: "Data \<Rightarrow> int \<Rightarrow> cc_error + enumData" where
  "subRegionByID d i = by_id (dSubRegionByID d) i"

definition subRegionIDByCode :: "Data \<Rightarrow> bytes \<Rightarrow> cc_error + 8 word" where
  "subRegionIDByCode d c = (if c = [] then Inl ErrNotFound else by_key (dSubRegionIDByCode d) c)"

definition subRegionIDByName :: "(nat \<Rightarrow> nat) \<Rightarrow> Data \<Rightarrow> bytes \<Rightarrow> cc_error + 8 word" where
  "subRegionIDByName u d n = (if n = [] then Inl ErrNotFound else by_key (dSubRegionIDByName d) (ToUpper u n))"

definition intermediateRegionByID :: "Data \<Rightarrow> int \<Rightarrow> cc_error + enumData" where
  "intermediateRegionByID d i = by_id (dIntermediateRegionByID d) i"

definition intermediateRegionIDByCode :: "Data \<Rightarrow> bytes \<Rightarrow> cc_error + 8 word" where
  "intermediateRegionIDByCode d c = (if c = [] then Inl ErrNotFound else by_key (dIntermediateRegionIDByCode d) c)"

definition intermediateRegionIDByName :: "(nat \<Rightarrow> nat) \<Rightarrow> Data \<Rightarrow> bytes \<Rightarrow> cc_error + 8 word" where
  "intermediateRegionIDByName u d n =
     (if n = [] then Inl ErrNotFound else by_key (dIntermediateRegionIDByName d) (ToUpper u n))"

definition countryNamesByAlpha2ID :: "Data \<Rightarrow> 16 word \<Rightarrow> cc_error + Names" where
  "countryNamesByAlpha2ID d i = by_key (dCountryNamesByAlpha2ID d) i"

definition countryKeyByAlpha2ID :: "Data \<Rightarrow> 16 word \<Rightarrow> cc_error + 64 word" where
  "countryKeyByAlpha2ID d i = by_key (dCountryKeyByAlpha2ID d) i"

definition alpha2IDByAlpha3ID :: "Data \<Rightarrow> 16 word \<Rightarrow> cc_error + 16 word" where
  "alpha2IDByAlpha3ID d i = by_key (dAlpha2IDByAlpha3ID d) i"

definition alpha2IDByNumericID :: "Data \<Rightarrow> 16 word \<Rightarrow> cc_error + 16 word" where
  "alpha2IDByNumericID d i = by_key (dAlpha2IDByNumericID d) i"

definition alpha2IDsByRegionID :: "Data \<Rightarrow> 8 word \<Rightarrow> cc_error + 16 word list" where
  "alpha2IDsByRegionID d i = by_key (dAlpha2IDsByRegionID d) i"

definition alpha2IDsBySubRegionID :: "Data \<Rightarrow> 8 word \<Rightarrow> cc_error + 16 word list" where
  "alpha2IDsBySubRegionID d i = by_key (dAlpha2IDsBySubRegionID d) i"

definition alpha2IDsByIntermediateRegionID :: "Data \<Rightarrow> 8 word \<Rightarrow> cc_error + 16 word list" where
  "alpha2IDsByIntermediateRegionID d i = by_key (dAlpha2IDsByIntermediateRegionID d) i"

definition alpha2IDsByStatusID :: "Data \<Rightarrow> 8 word \<Rightarrow> cc_error + 16 word list" where
  "alpha2IDsByStatusID d i = by_key (dAlpha2IDsByStatusID d) i"

definition alpha2IDsByTLD :: "Data \<Rightarrow> 16 word \<Rightarrow> cc_error + 16 word list" where
  "alpha2IDsByTLD d i = by_key (dAlpha2IDsByTLD d) i"

section \<open>Countries\<close>

definition populateCountryDetails :: "Data \<Rightarrow> CountryData \<Rightarrow> countryKeyElem \<Rightarrow> cc_error + CountryData" where
  "populateCountryDetails d cd0 el =
     (let cd1 = (if 0 < alpha3 el then cd0\<lparr>Alpha3Code := decodeAlpha3 (alpha3 el)\<rparr> else cd0);
          cd2 = (if 0 < numeric el then cd1\<lparr>NumericCode := numericStr (numeric el)\<rparr> else cd1);
          cd3 = (case countryNamesByAlpha2ID d (alpha2 el) of
                   Inl _ \<Rightarrow> cd2 | Inr n \<Rightarrow> cd2\<lparr>NameEnglish := EN n, NameFrench := FR n\<rparr>)
      in ok_then (regionByID d (uint (region el))) (\<lambda>r.
         ok_then (subRegionByID d (uint (subregion el))) (\<lambda>sr.
         ok_then (intermediateRegionByID d (uint (intregion el))) (\<lambda>ir.
           let cd4 = cd3\<lparr>RegionCode := code r, Region := name r, SubRegionCode := code sr, SubRegion := name sr,
                         IntermediateRegionCode := code ir, IntermediateRegion := name ir\<rparr>
           in Inr (if 0 < tld el then cd4\<lparr>TLD := decodeTLD (tld el)\<rparr> else cd4)))))"

definition countryByAlpha2ID :: "Data \<Rightarrow> 16 word \<Rightarrow> cc_error + CountryData" where
  "countryByAlpha2ID d a2 =
     ok_then (countryKeyByAlpha2ID d a2) (\<lambda>ck.
       let el = decodeCountryKey ck in
       ok_then (statusByID d (uint (status el))) (\<lambda>st.
         populateCountryDetails d
           \<lparr>StatusCode = status el, Status = name st, Alpha2Code = decodeAlpha2 (alpha2 el),
            Alpha3Code = [], NumericCode = [], NameEnglish = [], NameFrench = [],
            Region = [], SubRegion = [], IntermediateRegion = [],
            RegionCode = [], SubRegionCode = [], IntermediateRegionCode = [], TLD = []\<rparr> el))"

definition EnumStatus :: "Data \<Rightarrow> bytes \<rightharpoonup> bytes" where
  "EnumStatus d = foldl (\<lambda>m v. m(name v \<mapsto> code v)) Map.empty (dStatusByID d)"

definition enum_named :: "enumData list \<Rightarrow> bytes \<rightharpoonup> bytes" where
  "enum_named es =
     foldl (\<lambda>m v. if code v = [] \<and> name v = [] then m else m(name v \<mapsto> code v)) Map.empty es"

definition EnumRegion :: "Data \<Rightarrow> bytes \<rightharpoonup> bytes" where
  "EnumRegion d = enum_named (dRegionByID d)"

definition EnumSubRegion :: "Data \<Rightarrow> bytes \<rightharpoonup> bytes" where
  "EnumSubRegion d = enum_named (dSubRegionByID d)"

definition EnumIntermediateRegion :: "Data \<Rightarrow> bytes \<rightharpoonup> bytes" where
  "EnumIntermediateRegion d = enum_named (dIntermediateRegionByID d)"

definition CountryByAlpha2Code :: "Data \<Rightarrow> bytes \<Rightarrow> cc_error + CountryData" where
  "CountryByAlpha2Code d s = ok_then (encodeAlpha2 s) (countryByAlpha2ID d)"

definition CountryByAlpha3Code :: "Data \<Rightarrow> bytes \<Rightarrow> cc_error + CountryData" where
  "CountryByAlpha3Code d s =
     ok_then (encodeAlpha3 s) (\<lambda>a3. ok_then (alpha2IDByAlpha3ID d a3) (countryByAlpha2ID d))"

definition CountryByNumericCode :: "Data \<Rightarrow> bytes \<Rightarrow> cc_error + CountryData" where
  "CountryByNumericCode d s =
     ok_then (encodeNumeric s) (\<lambda>nid. ok_then (alpha2IDByNumericID d nid) (countryByAlpha2ID d))"

definition countriesByAlpha2IDs :: "Data \<Rightarrow> 16 word list \<Rightarrow> cc_error + CountryData list" where
  "countriesByAlpha2IDs d a2s = map_ok (countryByAlpha2ID d) a2s"

definition countriesByRegionID :: "Data \<Rightarrow> 8 word \<Rightarrow> cc_error + CountryData list" where
  "countriesByRegionID d i = ok_then (alpha2IDsByRegionID d i) (countriesByAlpha2IDs d)"

definition CountriesByRegionCode :: "Data \<Rightarrow> bytes \<Rightarrow> cc_error + CountryData list" where
  "CountriesByRegionCode d c = ok_then (regionIDByCode d c) (countriesByRegionID d)"

definition CountriesByRegionName :: "(nat \<Rightarrow> nat) \<Rightarrow> Data \<Rightarrow> bytes \<Rightarrow> cc_error + CountryData list" where
  "CountriesByRegionName u d n = ok_then (regionIDByName u d n) (countriesByRegionID d)"

definition countriesBySubRegionID :: "Data \<Rightarrow> 8 word \<Rightarrow> cc_error + CountryData list" where
  "countriesBySubRegionID d i = ok_then (alpha2IDsBySubRegionID d i) (countriesByAlpha2IDs d)"

definition CountriesBySubRegionCode :: "Data \<Rightarrow> bytes \<Rightarrow> cc_error + CountryData list" where
  "CountriesBySubRegionCode d c = ok_then (subRegionIDByCode d c) (countriesBySubRegionID d)"

definition CountriesBySubRegionName :: "(nat \<Rightarrow> nat) \<Rightarrow> Data \<Rightarrow> bytes \<Rightarrow> cc_error + CountryData list" where
  "CountriesBySubRegionName u d n = ok_then (subRegionIDByName u d n) (countriesBySubRegionID d)"

definition countriesByIntermediateRegionID :: "Data \<Rightarrow> 8 word \<Rightarrow> cc_error + CountryData list" where
  "countriesByIntermediateRegionID d i = ok_then (alpha2IDsByIntermediateRegionID d i) (countriesByAlpha2IDs d)"

definition CountriesByIntermediateRegionCode :: "Data \<Rightarrow> bytes \<Rightarrow> cc_error + CountryData list" where
  "CountriesByIntermediateRegionCode d c =
     ok_then (intermediateRegionIDByCode d c) (countriesByIntermediateRegionID d)"

definition CountriesByIntermediateRegionName :: "(nat \<Rightarrow> nat) \<Rightarrow> Data \<Rightarrow> bytes \<Rightarrow> cc_error + CountryData list" where
  "CountriesByIntermediateRegionName u d n =
     ok_then (intermediateRegionIDByName u d n) (countriesByIntermediateRegionID d)"

definition CountriesByStatusID :: "Data \<Rightarrow> 8 word \<Rightarrow> cc_error + CountryData list" where
  "CountriesByStatusID d i = ok_then (alpha2IDsByStatusID d i) (countriesByAlpha2IDs d)"

definition CountriesByStatusName :: "(nat \<Rightarrow> nat) \<Rightarrow> Data \<Rightarrow> bytes \<Rightarrow> cc_error + CountryData list" where
  "CountriesByStatusName u d n = ok_then (statusIDByName u d n) (CountriesByStatusID d)"

definition CountriesByTLD :: "Data \<Rightarrow> bytes \<Rightarrow> cc_error + CountryData list" where
  "CountriesByTLD d s =
     ok_then (encodeTLD s) (\<lambda>c. ok_then (alpha2IDsByTLD d c) (countriesByAlpha2IDs d))"

definition country_elem :: "Data \<Rightarrow> 8 word \<Rightarrow> 16 word \<Rightarrow> CountryData \<Rightarrow> countryKeyElem" where
  "country_elem d st a2 c =
     \<lparr>status = st, alpha2 = a2, alpha3 = or_zero (encodeAlpha3 (Alpha3Code c)),
      numeric = or_zero (encodeNumeric (NumericCode c)), region = or_zero (regionIDByCode d (RegionCode c)),
      subregion = or_zero (subRegionIDByCode d (SubRegionCode c)),
      intregion = or_zero (intermediateRegionIDByCode d (IntermediateRegionCode c)),
      tld = or_zero (encodeTLD (TLD c))\<rparr>"

definition countryKey :: "(nat \<Rightarrow> nat) \<Rightarrow> Data \<Rightarrow> CountryData \<Rightarrow> cc_error + 16 word \<times> 64 word" where
  "countryKey u d c =
     ok_then (statusIDByName u d (Status c)) (\<lambda>st.
     ok_then (encodeAlpha2 (Alpha2Code c)) (\<lambda>a2.
       let ck = country_elem d st a2 c in Inr (alpha2 ck, encodeCountryKey ck)))"

section \<open>Loading\<close>

fun load_keys ::
  "(nat \<Rightarrow> nat) \<Rightarrow> Data \<Rightarrow> CountryData list \<Rightarrow> (16 word \<rightharpoonup> Names) \<times> (16 word \<rightharpoonup> 64 word)
   \<Rightarrow> cc_error + (16 word \<rightharpoonup> Names) \<times> (16 word \<rightharpoonup> 64 word)" where
  "load_keys u d [] acc = Inr acc"
| "load_keys u d (c # cs) (ns, ks) =
     ok_then (countryKey u d c) (\<lambda>(a2, ck).
       load_keys u d cs (ns(a2 \<mapsto> \<lparr>EN = NameEnglish c, FR = NameFrench c\<rparr>), ks(a2 \<mapsto> ck)))"

definition load_catalogs :: "CountryData list \<Rightarrow> Data \<Rightarrow> Data" where
  "load_catalogs cdata d =
     d\<lparr>dRegionByID := collectCatalog (map (\<lambda>c. \<lparr>code = RegionCode c, name = Region c\<rparr>) cdata),
       dSubRegionByID := collectCatalog (map (\<lambda>c. \<lparr>code = SubRegionCode c, name = SubRegion c\<rparr>) cdata),
       dIntermediateRegionByID :=
         collectCatalog (map (\<lambda>c. \<lparr>code = IntermediateRegionCode c, name = IntermediateRegion c\<rparr>) cdata)\<rparr>"

definition cc_loadData :: "(nat \<Rightarrow> nat) \<Rightarrow> CountryData list \<Rightarrow> Data \<Rightarrow> cc_error + Data" where
  "cc_loadData u cdata d =
     (let d1 = genRegionIndexes u (load_catalogs cdata d)
      in ok_then (load_keys u d1 cdata (Map.empty, Map.empty)) (\<lambda>(ns, ks).
           Inr (d1\<lparr>dCountryNamesByAlpha2ID := ns, dCountryKeyByAlpha2ID := ks\<rparr>)))"

end
