(* ===== verification/CC_Index.thy ===== *)
theory CC_Index
  imports CC_Country
begin

text \<open>
  Lemmas on \<^verbatim>\<open>pkg/countrycode\<close>: what the reverse indexes hold, independently of the order in which
  the map of country keys is visited, and what a catalog built from custom records contains.
\<close>

section \<open>Country indexes\<close>

definition group_ids :: "('k \<Rightarrow> 'x) \<Rightarrow> 'k list \<Rightarrow> 'x \<Rightarrow> 'k list option" where
  "group_ids f ks x = (let g = filter (\<lambda>k. f k = x) ks in if g = [] then None else Some g)"

lemma fold_append_id:
  "fold (\<lambda>k m. append_id m (f k) k) ks m x =
     (case group_ids f ks x of None \<Rightarrow> m x | Some g \<Rightarrow> Some ((case m x of None \<Rightarrow> [] | Some l \<Rightarrow> l) @ g))"
  by (induction ks arbitrary: m) (auto simp: group_ids_def append_id_def Let_def split: option.splits)

lemma fold_append_id_empty: "fold (\<lambda>k m. append_id m (f k) k) ks Map.empty = group_ids f ks"
  by (rule ext) (simp add: fold_append_id split: option.splits)

lemma fold_latest:
  "fold (\<lambda>k m. m(f k \<mapsto> k)) ks m x = (case group_ids f ks x of None \<Rightarrow> m x | Some g \<Rightarrow> Some (last g))"
  by (induction ks arbitrary: m) (auto simp: group_ids_def Let_def)

definition elem_of :: "Data \<Rightarrow> 16 word \<Rightarrow> countryKeyElem" where
  "elem_of d k = decodeCountryKey (the (dCountryKeyByAlpha2ID d k))"

lemma fold_index_country:
  assumes "set ks \<subseteq> dom (dCountryKeyByAlpha2ID d)"
  shows "fold index_country ks d =
     d\<lparr>dAlpha2IDByAlpha3ID := fold (\<lambda>k m. m(alpha3 (elem_of d k) \<mapsto> k)) ks (dAlpha2IDByAlpha3ID d),
       dAlpha2IDByNumericID := fold (\<lambda>k m. m(numeric (elem_of d k) \<mapsto> k)) ks (dAlpha2IDByNumericID d),
       dAlpha2IDsByRegionID := fold (\<lambda>k m. append_id m (region (elem_of d k)) k) ks (dAlpha2IDsByRegionID d),
       dAlpha2IDsBySubRegionID := fold (\<lambda>k m. append_id m (subregion (elem_of d k)) k) ks (dAlpha2IDsBySubRegionID d),
       dAlpha2IDsByIntermediateRegionID :=
         fold (\<lambda>k m. append_id m (intregion (elem_of d k)) k) ks (dAlpha2IDsByIntermediateRegionID d),
       dAlpha2IDsByStatusID := fold (\<lambda>k m. append_id m (status (elem_of d k)) k) ks (dAlpha2IDsByStatusID d),
       dAlpha2IDsByTLD := fold (\<lambda>k m. append_id m (tld (elem_of d k)) k) ks (dAlpha2IDsByTLD d)\<rparr>"
  using assms
proof (induction ks arbitrary: d)
  case (Cons k ks)
  then obtain v where v: "dCountryKeyByAlpha2ID d k = Some v" by auto
  let ?d = "index_country k d"
  have "dCountryKeyByAlpha2ID ?d = dCountryKeyByAlpha2ID d" by (simp add: index_country_def v Let_def)
  then have "elem_of ?d = elem_of d" "set ks \<subseteq> dom (dCountryKeyByAlpha2ID ?d)"
    using Cons.prems by (auto simp: elem_of_def fun_eq_iff)
  then show ?case
    using Cons.IH [of ?d] by (simp add: index_country_def v Let_def elem_of_def)
qed simp

text \<open>A group is the sorted list of the matching IDs, whatever the order of the visit.\<close>

definition sorted_group :: "('k \<Rightarrow> 'x) \<Rightarrow> 'k :: linorder set \<Rightarrow> 'x \<Rightarrow> 'k list option" where
  "sorted_group f A x =
     (let S = {k \<in> A. f k = x} in if S = {} then None else Some (sorted_list_of_set S))"

lemma sort_group_ids:
  assumes "distinct ks"
  shows "map_option sort (group_ids f ks x) = sorted_group f (set ks) x"
proof -
  have "sort (filter P ks) = sorted_list_of_set {k \<in> set ks. P k}" for P
    using assms by (simp add: sorted_list_of_set_sort_remdups distinct_remdups_id flip: set_filter)
  then show ?thesis
    by (auto simp: group_ids_def sorted_group_def Let_def filter_empty_conv)
qed

definition visits :: "16 word list \<Rightarrow> Data \<Rightarrow> bool" where
  "visits order d \<longleftrightarrow> distinct order \<and> set order = dom (dCountryKeyByAlpha2ID d)"

lemma genCountryIndexes_keeps [simp]:
  assumes "visits order d"
  defines "g \<equiv> genCountryIndexes order d"
  shows "dCountryKeyByAlpha2ID g = dCountryKeyByAlpha2ID d" "dCountryNamesByAlpha2ID g = dCountryNamesByAlpha2ID d"
    "dStatusByID g = dStatusByID d" "dRegionByID g = dRegionByID d" "dSubRegionByID g = dSubRegionByID d"
    "dIntermediateRegionByID g = dIntermediateRegionByID d" "dStatusIDByName g = dStatusIDByName d"
    "dRegionIDByCode g = dRegionIDByCode d" "dSubRegionIDByCode g = dSubRegionIDByCode d"
    "dIntermediateRegionIDByCode g = dIntermediateRegionIDByCode d" "dRegionIDByName g = dRegionIDByName d"
    "dSubRegionIDByName g = dSubRegionIDByName d" "dIntermediateRegionIDByName g = dIntermediateRegionIDByName d"
  using assms(1) unfolding g_def
  by (simp_all add: genCountryIndexes_def visits_def fold_index_country Let_def)

lemma genCountryIndexes_groups:
  assumes "visits order d"
  defines "g \<equiv> genCountryIndexes order d" and "A \<equiv> dom (dCountryKeyByAlpha2ID d)"
  shows "dAlpha2IDsByRegionID g = sorted_group (region \<circ> elem_of d) A"
    "dAlpha2IDsBySubRegionID g = sorted_group (subregion \<circ> elem_of d) A"
    "dAlpha2IDsByIntermediateRegionID g = sorted_group (intregion \<circ> elem_of d) A"
    "dAlpha2IDsByStatusID g = sorted_group (status \<circ> elem_of d) A"
    "dAlpha2IDsByTLD g = sorted_group (tld \<circ> elem_of d) A"
  using assms(1) unfolding g_def A_def
  by (simp_all add: sort_group_ids genCountryIndexes_def visits_def fold_index_country Let_def fold_append_id_empty
      sort_groups_def fun_eq_iff elem_of_def comp_def)

text \<open>
  The alpha-3 and numeric indexes name a country that carries the code; when only one does, that one.
\<close>

lemma latest_unique:
  assumes "distinct ks" "k \<in> set ks" and "\<And>k'. k' \<in> set ks \<Longrightarrow> f k' = f k \<Longrightarrow> k' = k"
  shows "fold (\<lambda>k m. m(f k \<mapsto> k)) ks Map.empty (f k) = Some k"
proof -
  have ne: "filter (\<lambda>k'. f k' = f k) ks \<noteq> []" using assms(2) by (auto simp: filter_empty_conv)
  then have "last (filter (\<lambda>k'. f k' = f k) ks) = k" using assms(3) last_in_set [OF ne] by auto
  with ne show ?thesis by (simp add: fold_latest group_ids_def Let_def)
qed

lemma latest_carries:
  "fold (\<lambda>k m. m(f k \<mapsto> k)) ks Map.empty x = Some k \<Longrightarrow> k \<in> set ks \<and> f k = x"
  using last_in_set [of "filter (\<lambda>k. f k = x) ks"]
  by (auto simp: fold_latest group_ids_def Let_def split: option.splits if_splits)

lemma genCountryIndexes_codes:
  assumes "visits order d"
  defines "g \<equiv> genCountryIndexes order d"
  shows "dAlpha2IDByAlpha3ID g = (fold (\<lambda>k m. m(alpha3 (elem_of d k) \<mapsto> k)) order Map.empty)(0 := None)"
    "dAlpha2IDByNumericID g = (fold (\<lambda>k m. m(numeric (elem_of d k) \<mapsto> k)) order Map.empty)(0 := None)"
  using assms(1) unfolding g_def
  by (simp_all add: genCountryIndexes_def visits_def fold_index_country Let_def elem_of_def)

section \<open>Catalogs\<close>

lemma index_by_snoc: "index_by f (es @ [e]) = (index_by f es)(f e \<mapsto> word_of_nat (length es))"
  by (simp add: index_by_def enumerate_append_eq)

lemma index_by_nth:
  "distinct (map f es) \<Longrightarrow> i < length es \<Longrightarrow> index_by f es (f (es ! i)) = Some (word_of_nat i)"
proof (induction es rule: rev_induct)
  case (snoc e es)
  show ?case
  proof (cases "i = length es")
    case False
    then have "i < length es" using snoc.prems by simp
    then have "f (es ! i) \<in> f ` set es" by simp
    with snoc.prems have "f (es ! i) \<noteq> f e" by auto
    then show ?thesis using snoc \<open>i < length es\<close> by (simp add: index_by_snoc nth_append)
  qed (simp add: index_by_snoc)
qed simp

lemma index_by_Nil: "index_by f [] = Map.empty"
  by (simp add: index_by_def)

lemma index_by_dom: "dom (index_by f es) = f ` set es"
proof (induction es rule: rev_induct)
  case (snoc e es)
  then show ?case unfolding index_by_snoc dom_fun_upd by simp
qed (simp add: index_by_Nil)

lemma collect_pairs_all:
  assumes "collect_pairs ps (b, ks) = (b', ks')" "distinct ks" "dom b = set ks" "\<And>k e. b k = Some e \<Longrightarrow> code e = k"
  shows "distinct ks' \<and> dom b' = set ks' \<and> set ks' = set ks \<union> code ` set ps \<and> (\<forall>k e. b' k = Some e \<longrightarrow> code e = k)
    \<and> (\<forall>k e. b k = Some e \<longrightarrow> b' k = Some e) \<and> ran b' \<subseteq> ran b \<union> set ps"
  using assms
proof (induction ps "(b, ks)" arbitrary: b ks rule: collect_pairs.induct)
  case (2 p ps b ks)
  show ?case
  proof (cases "b (code p)")
    case None
    then have new: "code p \<notin> set ks" using 2(4) by auto
    have r: "ran (b(code p \<mapsto> p)) = insert p (ran b)" using None by simp
    have k: "(b(code p \<mapsto> p)) k = Some e" if "b k = Some e" for k e using None that by auto
    have eq: "collect_pairs ps (b(code p \<mapsto> p), ks @ [code p]) = (b', ks')" using 2(2) None by simp
    have inv: "distinct (ks @ [code p])" "dom (b(code p \<mapsto> p)) = set (ks @ [code p])" using new 2(3,4) by simp_all
    have c: "code e = k" if "(b(code p \<mapsto> p)) k = Some e" for k e
      using that 2(5) [of k e] by (simp split: if_splits)
    have "(b(code p \<mapsto> p), ks @ [code p]) = (if b (code p) = None then (b(code p \<mapsto> p), ks @ [code p]) else (b, ks))"
      using None by simp
    note step = 2(1) [OF this [symmetric] eq inv]
    have all: "distinct ks' \<and> dom b' = set ks' \<and> set ks' = set (ks @ [code p]) \<union> code ` set ps
        \<and> (\<forall>k e. b' k = Some e \<longrightarrow> code e = k) \<and> (\<forall>k e. (b(code p \<mapsto> p)) k = Some e \<longrightarrow> b' k = Some e)
        \<and> ran b' \<subseteq> ran (b(code p \<mapsto> p)) \<union> set ps"
      by (rule step) (erule c)
    note rest = all [THEN conjunct2, THEN conjunct2, THEN conjunct2]
    note h = all [THEN conjunct1] all [THEN conjunct2, THEN conjunct1] all [THEN conjunct2, THEN conjunct2, THEN conjunct1]
      rest [THEN conjunct1] rest [THEN conjunct2, THEN conjunct1] rest [THEN conjunct2, THEN conjunct2]
    have "set ks' = set ks \<union> code ` set (p # ps)" using h(3) by auto
    moreover have "ran b' \<subseteq> ran b \<union> set (p # ps)" using h(6) unfolding r by auto
    moreover have "\<forall>k e. b k = Some e \<longrightarrow> b' k = Some e" using h(5) k by metis
    ultimately show ?thesis using h(1,2,4) by (intro conjI)
  next
    case (Some e)
    then have "code p \<in> set ks" using 2(4) by auto
    then have sets: "set ks \<union> code ` set (p # ps) = set ks \<union> code ` set ps" by auto
    have eq: "collect_pairs ps (b, ks) = (b', ks')" using 2(2) Some by simp
    have "(b, ks) = (if b (code p) = None then (b(code p \<mapsto> p), ks @ [code p]) else (b, ks))" using Some by simp
    note step = 2(1) [OF this [symmetric] eq 2(3,4)]
    have all: "distinct ks' \<and> dom b' = set ks' \<and> set ks' = set ks \<union> code ` set ps \<and> (\<forall>k e. b' k = Some e \<longrightarrow> code e = k)
        \<and> (\<forall>k e. b k = Some e \<longrightarrow> b' k = Some e) \<and> ran b' \<subseteq> ran b \<union> set ps"
      by (rule step) (erule 2(5))
    have "ran b \<union> set ps \<subseteq> ran b \<union> set (p # ps)" by auto
    then show ?thesis unfolding sets using all by (metis (no_types) subset_trans)
  qed
qed simp

lemmas collect_pairs_rest = collect_pairs_all [THEN conjunct2, THEN conjunct2, THEN conjunct2]

lemmas collect_pairs_spec =
  collect_pairs_all [THEN conjunct1] collect_pairs_all [THEN conjunct2, THEN conjunct1]
  collect_pairs_all [THEN conjunct2, THEN conjunct2, THEN conjunct1]
  collect_pairs_rest [THEN conjunct1, rule_format] collect_pairs_rest [THEN conjunct2, THEN conjunct1, rule_format]
  collect_pairs_rest [THEN conjunct2, THEN conjunct2]

lemma sorted_hd_Nil: "sorted xs \<Longrightarrow> [] \<in> set xs \<Longrightarrow> \<exists>ys. xs = [] # ys" for xs :: "bytes list"
  by (cases xs) auto

lemma collectCatalog_spec:
  fixes ps :: "enumData list"
  defines "cat \<equiv> collectCatalog ps" and "none \<equiv> \<lparr>code = [], name = []\<rparr>"
  shows "distinct (map code cat)" "code ` set cat = insert [] (code ` set ps)" "set cat \<subseteq> insert none (set ps)"
    "cat \<noteq> []" "cat ! 0 = none"
proof -
  obtain b ks where c: "collect_pairs ps ([[] \<mapsto> none], [[]]) = (b, ks)" by fastforce
  note sp = collect_pairs_spec [OF c]
  have start: "distinct [[] :: bytes]" "dom [[] \<mapsto> none] = set [[]]" "\<And>k e. [[] \<mapsto> none] k = Some e \<Longrightarrow> code e = k"
    by (auto simp: none_def split: if_splits)
  note sp' = sp [OF start]
  have cat: "cat = map (\<lambda>k. the (b k)) (sort ks)" using c by (simp add: cat_def collectCatalog_def none_def)
  have code_the: "code (the (b k)) = k" if "k \<in> set ks" for k
    using that sp'(2) sp'(4) [of k] by (metis domIff option.collapse)
  then have codes: "map code cat = sort ks" unfolding cat map_map by (intro map_idI) simp
  then show "distinct (map code cat)" using sp'(1) by simp
  show "code ` set cat = insert [] (code ` set ps)" using arg_cong [OF codes, of set] sp'(3) by simp
  have "the (b k) \<in> ran b" if "k \<in> set ks" for k using that sp'(2) by (metis domD option.sel ranI)
  then show "set cat \<subseteq> insert none (set ps)" using sp'(6) by (fastforce simp: cat)
  obtain ys where "sort ks = [] # ys" using sorted_hd_Nil [of "sort ks"] sp'(3) by auto
  then show "cat \<noteq> []" "cat ! 0 = none" using sp'(5) [of "[]" none] by (simp_all add: cat)
qed

text \<open>The ID a record's region code is packed as leads back to the region of the record.\<close>

definition catalog_ok :: "enumData list \<Rightarrow> bool" where
  "catalog_ok ps \<longleftrightarrow> card (code ` set ps - {[]}) \<le> 31
     \<and> (\<forall>p \<in> set ps. (code p = [] \<longrightarrow> name p = []) \<and> (\<forall>q \<in> set ps. code p = code q \<longrightarrow> name p = name q))"

definition catalog_id :: "enumData list \<Rightarrow> bytes \<Rightarrow> 8 word" where
  "catalog_id cat c = or_zero (if c = [] then Inl ErrNotFound else by_key (index_by code cat) c)"

lemma catalog_roundtrip:
  assumes ok: "catalog_ok ps" and p: "p \<in> set ps"
  defines "cat \<equiv> collectCatalog ps"
  shows "catalog_id cat (code p) < 2 ^ 5" "by_id cat (uint (catalog_id cat (code p))) = Inr p"
    "code p \<noteq> [] \<Longrightarrow> by_key (index_by code cat) (code p) = Inr (catalog_id cat (code p))"
proof -
  note sp = collectCatalog_spec [of ps, folded cat_def]
  have "length cat = card (code ` set cat)" using sp(1) distinct_card [of "map code cat"] by simp
  also have "\<dots> = Suc (card (code ` set ps - {[]}))" by (simp add: sp(2) card.insert_remove)
  finally have len: "length cat \<le> 32" using ok by (simp add: catalog_ok_def)
  obtain i where i: "i < length cat" "code (cat ! i) = code p"
    using sp(2) p by (metis image_iff in_set_conv_nth insertI2)
  have entry: "cat ! i = p"
  proof -
    have "cat ! i = \<lparr>code = [], name = []\<rparr> \<or> cat ! i \<in> set ps" using sp(3) i(1) nth_mem by blast
    then have "name (cat ! i) = name p"
    proof
      assume none: "cat ! i = \<lparr>code = [], name = []\<rparr>"
      then have "code p = []" using i(2) by simp
      then show ?thesis using ok p none unfolding catalog_ok_def by simp
    next
      assume "cat ! i \<in> set ps"
      then show ?thesis using ok p i(2) unfolding catalog_ok_def by metis
    qed
    then show ?thesis using i(2) by simp
  qed
  have zero: "i = 0" if "code p = []"
  proof -
    have "0 < length cat" using sp(4) by simp
    then show ?thesis
      using nth_eq_iff_index_eq [OF sp(1), of i 0] i that sp(5) by simp
  qed
  have ix: "index_by code cat (code p) = Some (word_of_nat i)" using index_by_nth [OF sp(1) i(1)] i(2) by simp
  then have id: "catalog_id cat (code p) = word_of_nat i" using zero by (auto simp: catalog_id_def by_key_def)
  have "unat (word_of_nat i :: 8 word) = i" using i(1) len by (simp add: unat_of_nat)
  then have un: "uint (word_of_nat i :: 8 word) = int i" by (metis uint_nat)
  show "catalog_id cat (code p) < 2 ^ 5" unfolding id using un i(1) len by (simp add: word_less_def)
  show "by_id cat (uint (catalog_id cat (code p))) = Inr p" unfolding id un using i(1) entry by (simp add: by_id_def)
  show "code p \<noteq> [] \<Longrightarrow> by_key (index_by code cat) (code p) = Inr (catalog_id cat (code p))"
    unfolding id using ix by (simp add: by_key_def)
qed

end
