(* ===== verification/CC_Load.thy ===== *)
theory CC_Load
  imports CC_Index
begin

text \<open>
  Custom datasets of \<^verbatim>\<open>pkg/countrycode\<close>: when the records are well formed and each catalog fits the
  five bits of its field, loading succeeds and every record is unpacked as it was given.
\<close>

section \<open>Well-formed datasets\<close>

definition regions_of :: "CountryData list \<Rightarrow> enumData list" where
  "regions_of cdata = map (\<lambda>c. \<lparr>code = RegionCode c, name = Region c\<rparr>) cdata"

definition subregions_of :: "CountryData list \<Rightarrow> enumData list" where
  "subregions_of cdata = map (\<lambda>c. \<lparr>code = SubRegionCode c, name = SubRegion c\<rparr>) cdata"

definition intregions_of :: "CountryData list \<Rightarrow> enumData list" where
  "intregions_of cdata = map (\<lambda>c. \<lparr>code = IntermediateRegionCode c, name = IntermediateRegion c\<rparr>) cdata"

definition record_ok :: "CountryData \<Rightarrow> bool" where
  "record_ok c \<longleftrightarrow> StatusCode c < 7 \<and> Status c = name (statuses ! unat (StatusCode c))
     \<and> \<not> isl (encodeAlpha2 (Alpha2Code c))
     \<and> (Alpha3Code c = [] \<or> \<not> isl (encodeAlpha3 (Alpha3Code c)))
     \<and> (NumericCode c = [] \<or> \<not> isl (encodeNumeric (NumericCode c)) \<and> NumericCode c \<noteq> ''000'')
     \<and> (TLD c = [] \<or> \<not> isl (encodeTLD (TLD c)))"

definition dataset_ok :: "CountryData list \<Rightarrow> bool" where
  "dataset_ok cdata \<longleftrightarrow> (\<forall>c \<in> set cdata. record_ok c) \<and> distinct (map Alpha2Code cdata)
     \<and> catalog_ok (regions_of cdata) \<and> catalog_ok (subregions_of cdata) \<and> catalog_ok (intregions_of cdata)"

definition a2id :: "CountryData \<Rightarrow> 16 word" where
  "a2id c = or_zero (encodeAlpha2 (Alpha2Code c))"

section \<open>Codes\<close>

lemma not_isl_or_zero: "\<not> isl r \<Longrightarrow> r = Inr (or_zero r)"
  by (cases r) auto

lemma alpha2_of_record:
  assumes "record_ok c"
  shows "encodeAlpha2 (Alpha2Code c) = Inr (a2id c)" "decodeAlpha2 (a2id c) = Alpha2Code c" "a2id c < 2 ^ 10"
proof -
  have "\<not> isl (encodeAlpha2 (Alpha2Code c))" using assms unfolding record_ok_def by blast
  from not_isl_or_zero [OF this] show e: "encodeAlpha2 (Alpha2Code c) = Inr (a2id c)" unfolding a2id_def .
  show "decodeAlpha2 (a2id c) = Alpha2Code c" "a2id c < 2 ^ 10" using encodeAlpha2_text [OF e] by simp_all
qed

text \<open>An optional code: absent and packed as zero, or valid and read back.\<close>

lemma optional_code:
  fixes r :: "cc_error + 16 word"
  assumes "t = [] \<or> \<not> isl r" "t = [] \<Longrightarrow> isl r" "\<And>w. r = Inr w \<Longrightarrow> dec w = t \<and> w < b \<and> w \<noteq> 0" "0 < b"
  shows "or_zero r < b" "0 < or_zero r \<longleftrightarrow> t \<noteq> []" "t \<noteq> [] \<Longrightarrow> dec (or_zero r) = t"
    "t \<noteq> [] \<Longrightarrow> r = Inr (or_zero r)"
  using assms by (cases r; auto simp: word_neq_0_conv)+

lemma encode_empty: "isl (encodeAlpha3 [])" "isl (encodeNumeric [])" "isl (encodeTLD [])"
  by (simp_all add: encodeNumeric_def encodeTLD_def)

lemma numericStr_zero: "numericStr 0 = ''000''"
proof -
  have "numericStr 0 = numeric_triple 0"
    using concat_slice [of numeric_triple 3 0 1000] by (simp add: numericStr_def numeric3Tab_def)
  moreover have "numeric_triple 0 = ''000''" by code_simp
  ultimately show ?thesis by simp
qed

lemma encodeNumeric_nonzero:
  assumes "s \<noteq> ''000''" "encodeNumeric s = Inr w"
  shows "numericStr w = s \<and> w < 2 ^ 10 \<and> w \<noteq> 0"
  using encodeNumeric_text [OF assms(2)] assms(1) numericStr_zero by metis

lemma alpha3_of_record:
  assumes "record_ok c"
  defines "r \<equiv> encodeAlpha3 (Alpha3Code c)"
  shows "or_zero r < 2 ^ 15" "0 < or_zero r \<longleftrightarrow> Alpha3Code c \<noteq> []"
    "Alpha3Code c \<noteq> [] \<Longrightarrow> decodeAlpha3 (or_zero r) = Alpha3Code c" "Alpha3Code c \<noteq> [] \<Longrightarrow> r = Inr (or_zero r)"
proof -
  have "Alpha3Code c = [] \<or> \<not> isl r" using assms unfolding record_ok_def by blast
  moreover have "Alpha3Code c = [] \<Longrightarrow> isl r" using encode_empty by (simp add: r_def)
  ultimately show "or_zero r < 2 ^ 15" "0 < or_zero r \<longleftrightarrow> Alpha3Code c \<noteq> []"
    "Alpha3Code c \<noteq> [] \<Longrightarrow> decodeAlpha3 (or_zero r) = Alpha3Code c" "Alpha3Code c \<noteq> [] \<Longrightarrow> r = Inr (or_zero r)"
    using optional_code [OF _ _ encodeAlpha3_text] by (simp_all add: r_def)
qed

lemma tld_of_record:
  assumes "record_ok c"
  defines "r \<equiv> encodeTLD (TLD c)"
  shows "or_zero r < 2 ^ 10" "0 < or_zero r \<longleftrightarrow> TLD c \<noteq> []"
    "TLD c \<noteq> [] \<Longrightarrow> decodeTLD (or_zero r) = TLD c" "TLD c \<noteq> [] \<Longrightarrow> r = Inr (or_zero r)"
proof -
  have "TLD c = [] \<or> \<not> isl r" using assms unfolding record_ok_def by blast
  moreover have "TLD c = [] \<Longrightarrow> isl r" using encode_empty by (simp add: r_def)
  ultimately show "or_zero r < 2 ^ 10" "0 < or_zero r \<longleftrightarrow> TLD c \<noteq> []"
    "TLD c \<noteq> [] \<Longrightarrow> decodeTLD (or_zero r) = TLD c" "TLD c \<noteq> [] \<Longrightarrow> r = Inr (or_zero r)"
    using optional_code [OF _ _ encodeTLD_text] by (simp_all add: r_def)
qed

lemma numeric_of_record:
  assumes "record_ok c"
  defines "r \<equiv> encodeNumeric (NumericCode c)"
  shows "or_zero r < 2 ^ 10" "0 < or_zero r \<longleftrightarrow> NumericCode c \<noteq> []"
    "NumericCode c \<noteq> [] \<Longrightarrow> numericStr (or_zero r) = NumericCode c" "NumericCode c \<noteq> [] \<Longrightarrow> r = Inr (or_zero r)"
proof -
  have n: "NumericCode c = [] \<or> \<not> isl r" "NumericCode c \<noteq> ''000''" using assms unfolding record_ok_def by auto
  moreover have "NumericCode c = [] \<Longrightarrow> isl r" using encode_empty by (simp add: r_def)
  ultimately show "or_zero r < 2 ^ 10" "0 < or_zero r \<longleftrightarrow> NumericCode c \<noteq> []"
    "NumericCode c \<noteq> [] \<Longrightarrow> numericStr (or_zero r) = NumericCode c" "NumericCode c \<noteq> [] \<Longrightarrow> r = Inr (or_zero r)"
    using optional_code [OF _ _ encodeNumeric_nonzero [OF n(2)]] by (simp_all add: r_def)
qed

section \<open>Status names\<close>

lemma status_names_ascii: "list_all (\<lambda>e. list_all (\<lambda>c. byte_val c < 0x80) (name e)) statuses"
  by code_simp

lemma status_names_distinct: "distinct (map (\<lambda>e. map upper_byte (name e)) statuses)"
  by code_simp

lemma length_statuses [simp]: "length statuses = 7"
  by (simp add: statuses_def)

lemma ToUpper_status: "e \<in> set statuses \<Longrightarrow> ToUpper u (name e) = map upper_byte (name e)"
  using status_names_ascii by (simp add: ToUpper_def list_all_iff)

lemma status_of_record:
  assumes "record_ok c"
  shows "by_key (index_by (\<lambda>e. ToUpper u (name e)) statuses) (ToUpper u (Status c)) = Inr (StatusCode c)"
    "by_id statuses (uint (StatusCode c)) = Inr (statuses ! unat (StatusCode c))" "StatusCode c < 2 ^ 3"
proof -
  have lt: "unat (StatusCode c) < 7" using assms by (simp add: record_ok_def word_less_nat_alt)
  have "map (\<lambda>e. ToUpper u (name e)) statuses = map (\<lambda>e. map upper_byte (name e)) statuses"
    by (rule map_cong [OF refl]) (rule ToUpper_status)
  then have "distinct (map (\<lambda>e. ToUpper u (name e)) statuses)" by (simp only: status_names_distinct)
  from index_by_nth [OF this, of "unat (StatusCode c)"]
  show "by_key (index_by (\<lambda>e. ToUpper u (name e)) statuses) (ToUpper u (Status c)) = Inr (StatusCode c)"
    using assms lt by (simp add: by_key_def record_ok_def)
  show "by_id statuses (uint (StatusCode c)) = Inr (statuses ! unat (StatusCode c))"
    unfolding by_id_def using lt by (simp add: uint_nat del: int_nat_eq of_nat_unat)
  show "StatusCode c < 2 ^ 3" using lt by (simp add: word_less_nat_alt)
qed

section \<open>Packing and unpacking a record\<close>

text \<open>The tables a custom dataset is encoded with.\<close>

definition catalogs_for :: "(nat \<Rightarrow> nat) \<Rightarrow> CountryData list \<Rightarrow> Data \<Rightarrow> bool" where
  "catalogs_for u cdata d \<longleftrightarrow> dStatusByID d = statuses
     \<and> dStatusIDByName d = index_by (\<lambda>e. ToUpper u (name e)) statuses
     \<and> dRegionByID d = collectCatalog (regions_of cdata) \<and> dRegionIDByCode d = index_by code (dRegionByID d)
     \<and> dSubRegionByID d = collectCatalog (subregions_of cdata) \<and> dSubRegionIDByCode d = index_by code (dSubRegionByID d)
     \<and> dIntermediateRegionByID d = collectCatalog (intregions_of cdata)
     \<and> dIntermediateRegionIDByCode d = index_by code (dIntermediateRegionByID d)"

lemma catalogs_loaded: "catalogs_for u cdata (genRegionIndexes u (load_catalogs cdata (statusMap u d)))"
  by (simp add: catalogs_for_def genRegionIndexes_def load_catalogs_def statusMap_def regions_of_def subregions_of_def
      intregions_of_def)

definition elem_for :: "Data \<Rightarrow> CountryData \<Rightarrow> countryKeyElem" where
  "elem_for d c = country_elem d (StatusCode c) (a2id c) c"

lemma elem_for_regions:
  assumes "catalogs_for u cdata d"
  shows "region (elem_for d c) = catalog_id (dRegionByID d) (RegionCode c)"
    "subregion (elem_for d c) = catalog_id (dSubRegionByID d) (SubRegionCode c)"
    "intregion (elem_for d c) = catalog_id (dIntermediateRegionByID d) (IntermediateRegionCode c)"
  using assms
  by (simp_all add: elem_for_def country_elem_def catalogs_for_def catalog_id_def regionIDByCode_def
      subRegionIDByCode_def intermediateRegionIDByCode_def)

lemma elem_for_codes:
  "status (elem_for d c) = StatusCode c" "alpha2 (elem_for d c) = a2id c"
  "alpha3 (elem_for d c) = or_zero (encodeAlpha3 (Alpha3Code c))"
  "numeric (elem_for d c) = or_zero (encodeNumeric (NumericCode c))"
  "tld (elem_for d c) = or_zero (encodeTLD (TLD c))"
  by (simp_all add: elem_for_def country_elem_def)

lemma record_regions:
  assumes "dataset_ok cdata" "c \<in> set cdata"
  shows "\<lparr>code = RegionCode c, name = Region c\<rparr> \<in> set (regions_of cdata)" "catalog_ok (regions_of cdata)"
    "\<lparr>code = SubRegionCode c, name = SubRegion c\<rparr> \<in> set (subregions_of cdata)" "catalog_ok (subregions_of cdata)"
    "\<lparr>code = IntermediateRegionCode c, name = IntermediateRegion c\<rparr> \<in> set (intregions_of cdata)"
    "catalog_ok (intregions_of cdata)" "record_ok c"
  using assms by (auto simp: dataset_ok_def regions_of_def subregions_of_def intregions_of_def)

lemma elem_for_fits:
  assumes "dataset_ok cdata" "c \<in> set cdata" "catalogs_for u cdata d"
  shows "fields_fit (elem_for d c)"
proof -
  note r = record_regions [OF assms(1,2)]
  note cat = catalog_roundtrip(1) [OF r(2,1)] catalog_roundtrip(1) [OF r(4,3)] catalog_roundtrip(1) [OF r(6,5)]
  show ?thesis
    unfolding fields_fit_def elem_for_codes elem_for_regions [OF assms(3)]
    using cat assms(3) status_of_record(3) [OF r(7)] alpha2_of_record(3) [OF r(7)] alpha3_of_record(1) [OF r(7)]
      numeric_of_record(1) [OF r(7)] tld_of_record(1) [OF r(7)]
    by (simp add: catalogs_for_def)
qed

lemma countryKey_record:
  assumes "dataset_ok cdata" "c \<in> set cdata" "catalogs_for u cdata d"
  shows "countryKey u d c = Inr (a2id c, encodeCountryKey (elem_for d c))"
  using assms(3) status_of_record(1) [OF record_regions(7) [OF assms(1,2)], of u]
    alpha2_of_record(1) [OF record_regions(7) [OF assms(1,2)]]
  by (simp add: countryKey_def statusIDByName_def catalogs_for_def elem_for_def country_elem_def Let_def)

lemma unpack_record:
  assumes ok: "dataset_ok cdata" "c \<in> set cdata" and cat: "catalogs_for u cdata d"
    and key: "dCountryKeyByAlpha2ID d (a2id c) = Some (encodeCountryKey (elem_for d c))"
    and nm: "dCountryNamesByAlpha2ID d (a2id c) = Some \<lparr>EN = NameEnglish c, FR = NameFrench c\<rparr>"
  shows "countryByAlpha2ID d (a2id c) = Inr c"
proof -
  note r = record_regions [OF ok]
  note dec = decode_encode [OF elem_for_fits [OF ok cat]]
  have st: "statusByID d (uint (StatusCode c)) = Inr (statuses ! unat (StatusCode c))"
    using cat status_of_record(2) [OF r(7)] by (simp add: statusByID_def catalogs_for_def)
  have rg: "regionByID d (uint (region (elem_for d c))) = Inr \<lparr>code = RegionCode c, name = Region c\<rparr>"
      "subRegionByID d (uint (subregion (elem_for d c))) = Inr \<lparr>code = SubRegionCode c, name = SubRegion c\<rparr>"
      "intermediateRegionByID d (uint (intregion (elem_for d c)))
         = Inr \<lparr>code = IntermediateRegionCode c, name = IntermediateRegion c\<rparr>"
    unfolding elem_for_regions [OF cat] regionByID_def subRegionByID_def intermediateRegionByID_def
    using cat catalog_roundtrip(2) [OF r(2,1)] catalog_roundtrip(2) [OF r(4,3)] catalog_roundtrip(2) [OF r(6,5)]
    by (simp_all add: catalogs_for_def)
  have status: "name (statuses ! unat (StatusCode c)) = Status c" using r(7) by (simp add: record_ok_def)
  show ?thesis
    unfolding countryByAlpha2ID_def countryKeyByAlpha2ID_def by_key_def key
    using alpha2_of_record(2) [OF r(7)] alpha3_of_record(2,3) [OF r(7)] numeric_of_record(2,3) [OF r(7)]
      tld_of_record(2,3) [OF r(7)]
    by (simp add: dec elem_for_codes st rg populateCountryDetails_def countryNamesByAlpha2ID_def by_key_def nm status Let_def)
qed

section \<open>Loading a dataset\<close>

lemma fold_upd:
  "distinct (map a cs) \<Longrightarrow> c \<in> set cs \<Longrightarrow> fold (\<lambda>c m. m(a c \<mapsto> g c)) cs m (a c) = Some (g c)"
  "a' \<notin> a ` set cs \<Longrightarrow> fold (\<lambda>c m. m(a c \<mapsto> g c)) cs m a' = m a'"
  "dom (fold (\<lambda>c m. m(a c \<mapsto> g c)) cs m) = a ` set cs \<union> dom m"
proof -
  show other: "a' \<notin> a ` set cs \<Longrightarrow> fold (\<lambda>c m. m(a c \<mapsto> g c)) cs m a' = m a'" for cs a' m
    by (induction cs arbitrary: m) auto
  show "distinct (map a cs) \<Longrightarrow> c \<in> set cs \<Longrightarrow> fold (\<lambda>c m. m(a c \<mapsto> g c)) cs m (a c) = Some (g c)"
    by (induction cs arbitrary: m) (auto simp: other)
  show "dom (fold (\<lambda>c m. m(a c \<mapsto> g c)) cs m) = a ` set cs \<union> dom m"
    by (induction cs arbitrary: m) auto
qed

lemma load_keys_fold:
  assumes "\<And>c. c \<in> set cs \<Longrightarrow> countryKey u d c = Inr (a c, k c)"
  shows "load_keys u d cs (ns, ks) =
     Inr (fold (\<lambda>c m. m(a c \<mapsto> \<lparr>EN = NameEnglish c, FR = NameFrench c\<rparr>)) cs ns, fold (\<lambda>c m. m(a c \<mapsto> k c)) cs ks)"
  using assms by (induction cs arbitrary: ns ks) auto

definition table_for :: "(nat \<Rightarrow> nat) \<Rightarrow> CountryData list \<Rightarrow> Data \<Rightarrow> bool" where
  "table_for u cdata d \<longleftrightarrow> catalogs_for u cdata d \<and> dom (dCountryKeyByAlpha2ID d) = a2id ` set cdata
     \<and> (\<forall>c \<in> set cdata. dCountryKeyByAlpha2ID d (a2id c) = Some (encodeCountryKey (elem_for d c))
           \<and> dCountryNamesByAlpha2ID d (a2id c) = Some \<lparr>EN = NameEnglish c, FR = NameFrench c\<rparr>)"

lemma a2id_distinct:
  assumes "dataset_ok cdata"
  shows "distinct (map a2id cdata)"
proof -
  have "map decodeAlpha2 (map a2id cdata) = map Alpha2Code cdata"
    using alpha2_of_record(2) record_regions(7) [OF assms] by simp
  then have "distinct (map decodeAlpha2 (map a2id cdata))" using assms by (simp only: dataset_ok_def)
  then show ?thesis unfolding distinct_map [of decodeAlpha2] by blast
qed

lemma elem_for_cong:
  "dRegionIDByCode d = dRegionIDByCode d' \<Longrightarrow> dSubRegionIDByCode d = dSubRegionIDByCode d' \<Longrightarrow>
   dIntermediateRegionIDByCode d = dIntermediateRegionIDByCode d' \<Longrightarrow> elem_for d c = elem_for d' c"
  by (simp add: elem_for_def country_elem_def regionIDByCode_def subRegionIDByCode_def intermediateRegionIDByCode_def)

lemma cc_loadData_table:
  assumes "dataset_ok cdata"
  shows "\<exists>d. cc_loadData u cdata (statusMap u zero_Data) = Inr d \<and> table_for u cdata d"
proof -
  let ?d1 = "genRegionIndexes u (load_catalogs cdata (statusMap u zero_Data))"
  let ?ns = "fold (\<lambda>c m. m(a2id c \<mapsto> \<lparr>EN = NameEnglish c, FR = NameFrench c\<rparr>)) cdata Map.empty"
  let ?ks = "fold (\<lambda>c m. m(a2id c \<mapsto> encodeCountryKey (elem_for ?d1 c))) cdata Map.empty"
  let ?d = "?d1\<lparr>dCountryNamesByAlpha2ID := ?ns, dCountryKeyByAlpha2ID := ?ks\<rparr>"
  note cat = catalogs_loaded [of u cdata zero_Data]
  have "cc_loadData u cdata (statusMap u zero_Data) = Inr ?d"
    using load_keys_fold [OF countryKey_record [OF assms _ cat]] by (simp add: cc_loadData_def Let_def)
  moreover have "elem_for ?d c = elem_for ?d1 c" for c by (rule elem_for_cong) simp_all
  moreover have "catalogs_for u cdata ?d" using cat by (simp add: catalogs_for_def)
  ultimately show ?thesis
    by (auto simp: table_for_def fold_upd(3) fold_upd(1) [OF a2id_distinct [OF assms]])
qed

lemma table_visited:
  assumes "table_for u cdata d" "distinct order" "set order = a2id ` set cdata"
  shows "visits order d" "table_for u cdata (genCountryIndexes order d)"
    "elem_for (genCountryIndexes order d) = elem_for d"
proof -
  show v: "visits order d" using assms by (simp add: visits_def table_for_def)
  show e: "elem_for (genCountryIndexes order d) = elem_for d" by (rule ext, rule elem_for_cong) (simp_all add: v)
  show "table_for u cdata (genCountryIndexes order d)"
    using assms(1) v by (simp add: table_for_def catalogs_for_def e)
qed

lemma table_record:
  assumes "dataset_ok cdata" "table_for u cdata d" "c \<in> set cdata"
  shows "countryByAlpha2ID d (a2id c) = Inr c" "elem_of d (a2id c) = elem_for d c"
proof -
  have t: "catalogs_for u cdata d" "dCountryKeyByAlpha2ID d (a2id c) = Some (encodeCountryKey (elem_for d c))"
      "dCountryNamesByAlpha2ID d (a2id c) = Some \<lparr>EN = NameEnglish c, FR = NameFrench c\<rparr>"
    using assms(2,3) by (auto simp: table_for_def)
  show "countryByAlpha2ID d (a2id c) = Inr c" by (rule unpack_record [OF assms(1,3) t])
  show "elem_of d (a2id c) = elem_for d c"
    using decode_encode [OF elem_for_fits [OF assms(1,3) t(1)]] by (simp add: elem_of_def t(2))
qed

section \<open>Groups\<close>

definition answers :: "cc_error + CountryData list \<Rightarrow> CountryData set \<Rightarrow> bool" where
  "answers r S \<longleftrightarrow> (if S = {} then r = Inl ErrNotFound
     else \<exists>cs. r = Inr cs \<and> set cs = S \<and> distinct cs \<and> sorted (map a2id cs))"

lemma group_answers:
  assumes ok: "dataset_ok cdata" and t: "table_for u cdata d"
  shows "answers (ok_then (by_key (sorted_group (f \<circ> elem_of d) (dom (dCountryKeyByAlpha2ID d))) x) (countriesByAlpha2IDs d))
     {c \<in> set cdata. f (elem_for d c) = x}"
proof -
  let ?S = "{c \<in> set cdata. f (elem_for d c) = x}"
  have inj: "inj_on a2id (set cdata)" using a2id_distinct [OF ok] by (simp add: distinct_map)
  have ids: "{k \<in> dom (dCountryKeyByAlpha2ID d). (f \<circ> elem_of d) k = x} = a2id ` ?S"
    using t table_record(2) [OF ok t] by (auto simp: table_for_def)
  define g where "g = the_inv_into (set cdata) a2id"
  have g: "g (a2id c) = c" if "c \<in> set cdata" for c using that inj by (simp add: g_def the_inv_into_f_f)
  let ?ids = "sorted_list_of_set (a2id ` ?S)"
  have mem: "set ?ids = a2id ` ?S" by simp
  have all: "countriesByAlpha2IDs d ?ids = Inr (map g ?ids)"
    unfolding countriesByAlpha2IDs_def using mem g table_record(1) [OF ok t] by (intro map_ok_all) auto
  have "map a2id (map g ?ids) = ?ids" unfolding map_map by (rule map_idI) (use mem g in auto)
  then have srt: "sorted (map a2id (map g ?ids))" "distinct (map a2id (map g ?ids))" by simp_all
  have "set (map g ?ids) = ?S" using mem g by (force simp: image_iff)
  moreover have "distinct (map g ?ids)" using srt(2) unfolding distinct_map [of a2id] by blast
  moreover have "sorted_group (f \<circ> elem_of d) (dom (dCountryKeyByAlpha2ID d)) x = (if ?S = {} then None else Some ?ids)"
    unfolding sorted_group_def Let_def ids by simp
  ultimately show ?thesis
    using all srt(1) unfolding answers_def by_key_def by (cases "?S = {}") auto
qed

end
