(* ===== verification/CC_Check.thy ===== *)
theory CC_Check
  imports CC_Data CC_Load "HOL-Library.Tree"
begin

text \<open>
  The embedded dataset of \<^verbatim>\<open>pkg/countrycode\<close> checked by evaluation. Each packed key is written out as its
  fields; the lists of fields are then checked: IDs in strictly increasing order, one for each pair of
  letters, regions and statuses within their catalogs, alpha-3 and numeric codes valid and unique.
\<close>

section \<open>Keys as numbers\<close>

type_synonym row = "int \<times> int \<times> int \<times> int \<times> int \<times> int \<times> int \<times> int"

text \<open>Alpha-2, status, alpha-3, numeric, region, sub-region, intermediate region, TLD.\<close>

fun key_int :: "row \<Rightarrow> int" where
  "key_int (a2, st, a3, n, r, s, i, t) =
     ((((((st * 1024 + a2) * 32768 + a3) * 1024 + n) * 32 + r) * 32 + s) * 32 + i) * 1024 + t"

fun row_entry :: "row \<Rightarrow> 16 word \<times> 64 word" where
  "row_entry (a2, row) = (word_of_int a2, word_of_int (key_int (a2, row)))"

fun row_elem :: "row \<Rightarrow> countryKeyElem" where
  "row_elem (a2, st, a3, n, r, s, i, t) =
     \<lparr>status = word_of_int st, alpha2 = word_of_int a2, alpha3 = word_of_int a3, numeric = word_of_int n,
      region = word_of_int r, subregion = word_of_int s, intregion = word_of_int i, tld = word_of_int t\<rparr>"

fun letter :: "int \<Rightarrow> bool" where
  "letter c \<longleftrightarrow> 1 \<le> c \<and> c \<le> 26"

fun row_ok :: "row \<Rightarrow> bool" where
  "row_ok (a2, st, a3, n, r, s, i, t) \<longleftrightarrow>
     letter (a2 div 32) \<and> letter (a2 mod 32) \<and> 0 \<le> st \<and> st < 7
     \<and> (a3 = 0 \<or> letter (a3 div 1024) \<and> letter (a3 div 32 mod 32) \<and> letter (a3 mod 32)) \<and> 0 \<le> n \<and> n < 1000
     \<and> 0 \<le> r \<and> r < 6 \<and> 0 \<le> s \<and> s < 18 \<and> 0 \<le> i \<and> i < 8 \<and> 0 \<le> t \<and> t < 1024"

lemma field_of_int:
  assumes "0 \<le> n" "n < 2 ^ 64" "k \<le> LENGTH('b)"
  shows "(ucast (take_bit k (drop_bit p (word_of_int n :: 64 word))) :: 'b :: len word) = word_of_int (n div 2 ^ p mod 2 ^ k)"
proof -
  have "uint (word_of_int n :: 64 word) = n" using assms(1,2) by (simp add: uint_word_of_int)
  then have "uint (take_bit k (drop_bit p (word_of_int n :: 64 word))) = n div 2 ^ p mod 2 ^ k"
    unfolding unsigned_take_bit_eq unsigned_drop_bit_eq using assms(1,2) by (simp add: take_bit_eq_mod drop_bit_eq_div)
  then show ?thesis by (metis of_int_uint)
qed

lemma digit_div_mod: "0 \<le> x \<Longrightarrow> x < m \<Longrightarrow> (h * m + x) div m = h \<and> (h * m + x) mod m = x" for x m h :: int
  by simp

lemma row_bounds:
  assumes "row_ok (a2, st, a3, n, r, s, i, t)"
  shows "0 \<le> a2" "a2 < 1024" "0 \<le> st" "st < 7" "0 \<le> a3" "a3 < 32768" "0 \<le> n" "n < 1000" "0 \<le> r" "r < 6"
    "0 \<le> s" "s < 18" "0 \<le> i" "i < 8" "0 \<le> t" "t < 1024"
proof -
  have a2: "1 \<le> a2 div 32 \<and> a2 div 32 \<le> 26" using assms by simp
  show "0 \<le> a2" "a2 < 1024" using a2 by linarith+
  have a3: "a3 = 0 \<or> 1 \<le> a3 div 1024 \<and> a3 div 1024 \<le> 26" using assms by auto
  show "0 \<le> a3" "a3 < 32768" using a3 by linarith+
qed (use assms in simp_all)

lemma key_int_div:
  assumes "row_ok (a2, st, a3, n, r, s, i, t)"
  defines "k \<equiv> key_int (a2, st, a3, n, r, s, i, t)"
  shows "k mod 1024 = t" "k div 1024 mod 32 = i" "k div 32768 mod 32 = s" "k div 1048576 mod 32 = r"
    "k div 33554432 mod 1024 = n" "k div 34359738368 mod 32768 = a3" "k div 1125899906842624 mod 1024 = a2"
    "k div 1152921504606846976 mod 8 = st" "0 \<le> k" "k < 2 ^ 63"
proof -
  note b = row_bounds [OF assms(1)]
  define k7 where "k7 = st * 1024 + a2"
  define k6 where "k6 = k7 * 32768 + a3"
  define k5 where "k5 = k6 * 1024 + n"
  define k4 where "k4 = k5 * 32 + r"
  define k3 where "k3 = k4 * 32 + s"
  define k2 where "k2 = k3 * 32 + i"
  have k: "k = k2 * 1024 + t" by (simp add: k_def k2_def k3_def k4_def k5_def k6_def k7_def)
  have dm: "k div 1024 = k2 \<and> k mod 1024 = t" "k2 div 32 = k3 \<and> k2 mod 32 = i" "k3 div 32 = k4 \<and> k3 mod 32 = s"
    "k4 div 32 = k5 \<and> k4 mod 32 = r" "k5 div 1024 = k6 \<and> k5 mod 1024 = n" "k6 div 32768 = k7 \<and> k6 mod 32768 = a3"
    "k7 div 1024 = st \<and> k7 mod 1024 = a2"
    unfolding k k2_def k3_def k4_def k5_def k6_def k7_def by (rule digit_div_mod; use b in linarith)+
  note d = dm [THEN conjunct1] and m = dm [THEN conjunct2]
  have st: "st mod 8 = st" using b by simp
  have z: "k div 32768 = k div 1024 div 32" "k div 1048576 = k div 1024 div 32 div 32"
    "k div 33554432 = k div 1024 div 32 div 32 div 32" "k div 34359738368 = k div 1024 div 32 div 32 div 32 div 1024"
    "k div 1125899906842624 = k div 1024 div 32 div 32 div 32 div 1024 div 32768"
    "k div 1152921504606846976 = k div 1024 div 32 div 32 div 32 div 1024 div 32768 div 1024"
    by (simp_all flip: zdiv_zmult2_eq)
  show "k mod 1024 = t" "k div 1024 mod 32 = i" "k div 32768 mod 32 = s" "k div 1048576 mod 32 = r"
    "k div 33554432 mod 1024 = n" "k div 34359738368 mod 32768 = a3" "k div 1125899906842624 mod 1024 = a2"
    "k div 1152921504606846976 mod 8 = st"
    unfolding z d m st by (rule refl)+
  show "0 \<le> k" unfolding k k2_def k3_def k4_def k5_def k6_def k7_def using b by simp
  show "k < 2 ^ 63" unfolding k k2_def k3_def k4_def k5_def k6_def k7_def using b by simp
qed

lemma decode_row:
  assumes "row_ok row"
  shows "decodeCountryKey (snd (row_entry row)) = row_elem row" "fst (row_entry row) = alpha2 (row_elem row)"
proof -
  obtain a2 st a3 n r s i t where row: "row = (a2, st, a3, n, r, s, i, t)"
    by (metis surj_pair)
  define k where "k = key_int (a2, st, a3, n, r, s, i, t)"
  note d = key_int_div [OF assms [unfolded row], folded k_def]
  have lt: "k < 2 ^ 64" using d(10) by simp
  note f = field_of_int [OF d(9) lt]
  have "(ucast (take_bit 3 (drop_bit 60 (word_of_int k :: 64 word))) :: 8 word) = word_of_int st"
    "(ucast (take_bit 10 (drop_bit 50 (word_of_int k :: 64 word))) :: 16 word) = word_of_int a2"
    "(ucast (take_bit 15 (drop_bit 35 (word_of_int k :: 64 word))) :: 16 word) = word_of_int a3"
    "(ucast (take_bit 10 (drop_bit 25 (word_of_int k :: 64 word))) :: 16 word) = word_of_int n"
    "(ucast (take_bit 5 (drop_bit 20 (word_of_int k :: 64 word))) :: 8 word) = word_of_int r"
    "(ucast (take_bit 5 (drop_bit 15 (word_of_int k :: 64 word))) :: 8 word) = word_of_int s"
    "(ucast (take_bit 5 (drop_bit 10 (word_of_int k :: 64 word))) :: 8 word) = word_of_int i"
    "(ucast (take_bit 10 (drop_bit 0 (word_of_int k :: 64 word))) :: 16 word) = word_of_int t"
    by (subst f; simp add: d)+
  then show "decodeCountryKey (snd (row_entry row)) = row_elem row"
    unfolding decode_fields row row_entry.simps row_elem.simps snd_conv k_def [symmetric] drop_bit_0 id_apply
    by (simp only:)
  show "fst (row_entry row) = alpha2 (row_elem row)" by (simp add: row)
qed

section \<open>The rows\<close>

definition default_rows1 :: "row list" where
  "default_rows1 = [
    (33,2,0,0,0,0,0,0), (34,0,0,0,0,0,0,0), (35,3,0,0,0,0,0,0), (36,1,1476,20,5,6,0,36),
    (37,1,1605,784,4,12,0,37), (38,1,1223,4,4,4,0,38), (39,1,1671,28,3,17,7,39), (40,0,0,0,0,0,0,0),
    (41,1,1313,660,3,17,7,41), (42,0,0,0,0,0,0,0), (43,0,0,0,0,0,0,0), (44,1,1410,8,5,6,0,44),
    (45,1,1613,51,4,12,0,45), (46,4,0,0,0,0,0,0), (47,1,1263,24,1,16,5,47), (48,5,0,0,0,0,0,0),
    (49,1,1665,10,0,0,0,49), (50,1,1607,32,3,17,1,50), (51,1,1645,16,2,10,0,51), (52,1,1716,40,5,15,0,52),
    (53,1,1715,36,2,7,0,53), (54,0,0,0,0,0,0,0), (55,1,1111,533,3,17,7,55), (56,1,1409,248,5,14,0,56),
    (57,0,0,0,0,0,0,0), (58,1,1861,31,4,12,0,58), (65,1,2344,70,5,6,0,65), (66,1,2626,52,3,17,7,66),
    (67,0,0,0,0,0,0,0), (68,1,2276,50,4,4,0,68), (69,1,2220,56,5,15,0,69), (70,1,2241,854,1,16,2,70),
    (71,1,2290,100,5,13,0,71), (72,1,2322,48,4,12,0,72), (73,1,2185,108,1,16,4,73), (74,1,2222,204,1,16,2,74),
    (75,0,0,0,0,0,0,0), (76,1,2445,652,3,17,7,76), (77,1,2485,60,3,2,0,77), (78,1,2638,96,4,5,0,78),
    (79,1,2540,68,3,17,1,79), (80,0,0,0,0,0,0,0), (81,1,2227,535,3,17,7,81), (82,1,2625,76,3,17,1,82),
    (83,1,2323,44,3,17,7,83), (84,1,2702,64,4,4,0,84), (85,4,0,0,0,0,0,0), (86,1,2772,74,3,17,1,86),
    (87,1,2785,72,1,16,6,87), (88,5,0,0,0,0,0,0), (89,1,2450,112,5,13,0,89), (90,1,2458,84,3,17,3,90),
    (97,1,3118,124,3,2,0,97), (98,0,0,0,0,0,0,0), (99,1,3179,166,2,7,0,99), (100,1,3556,180,1,16,5,100),
    (101,0,0,0,0,0,0,0), (102,1,3110,140,1,16,5,102), (103,1,3559,178,1,16,5,103), (104,1,3333,756,5,15,0,104),
    (105,1,3382,384,1,16,2,105), (106,0,0,0,0,0,0,0), (107,1,3563,184,2,10,0,107), (108,1,3340,152,3,17,1,108),
    (109,1,3506,120,1,16,5,109), (110,1,3342,156,4,3,0,110), (111,1,3564,170,3,17,1,111), (112,3,0,0,0,0,0,0),
    (113,3,0,0,0,0,0,0), (114,1,3657,188,3,17,3,114), (115,4,0,0,0,0,0,0), (116,6,0,0,0,0,0,0),
    (117,1,3746,192,3,17,7,117), (118,1,3606,132,1,16,2,118), (119,1,3767,531,3,17,7,119), (120,1,3858,162,2,7,0,120),
    (121,1,3888,196,4,12,0,121), (122,1,3909,203,5,13,0,122), (129,0,0,0,0,0,0,0), (130,0,0,0,0,0,0,0),
    (131,0,0,0,0,0,0,0), (132,6,0,0,0,0,0,0), (133,1,4277,276,5,15,0,133), (134,0,0,0,0,0,0,0),
    (135,3,0,0,0,0,0,0), (136,0,0,0,0,0,0,0), (137,0,0,0,0,0,0,0), (138,1,4425,262,1,16,4,138),
    (139,1,4555,208,5,14,0,139), (140,0,0,0,0,0,0,0), (141,1,4513,212,3,17,7,141), (142,0,0,0,0,0,0,0),
    (143,1,4589,214,3,17,7,143), (144,0,0,0,0,0,0,0), (145,0,0,0,0,0,0,0), (146,0,0,0,0,0,0,0),
    (147,0,0,0,0,0,0,0), (148,0,0,0,0,0,0,0), (149,0,0,0,0,0,0,0), (150,0,0,0,0,0,0,0),
    (151,0,0,0,0,0,0,0), (152,0,0,0,0,0,0,0), (153,5,0,0,0,0,0,0), (154,1,4929,12,1,1,0,154),
    (161,3,0,0,0,0,0,0), (162,0,0,0,0,0,0,0), (163,1,5237,218,3,17,1,163), (164,0,0,0,0,0,0,0),
    (165,1,5748,233,5,14,0,165), (166,5,0,0,0,0,0,0), (167,1,5369,818,1,1,0,167), (168,1,5736,732,1,1,0,168),
    (169,0,0,0,0,0,0,0), (170,0,0,0,0,0,0,0), (171,0,0,0,0,0,0,0), (172,0,0,0,0,0,0,0),
    (173,5,0,0,0,0,0,0), (174,0,0,0,0,0,0,0), (175,0,0,0,0,0,0,0), (176,5,0,0,0,0,0,0),
    (177,0,0,0,0,0,0,0), (178,1,5705,232,1,16,4,178), (179,1,5744,724,5,6,0,179), (180,1,5768,231,1,16,4,180),
    (181,3,0,0,0,0,0,0), (182,5,0,0,0,0,0,0), (183,5,0,0,0,0,0,0), (184,0,0,0,0,0,0,0),
    (185,0,0,0,0,0,0,0), (186,3,0,0,0,0,0,0), (193,0,0,0,0,0,0,0), (194,0,0,0,0,0,0,0),
    (195,0,0,0,0,0,0,0), (196,0,0,0,0,0,0,0), (197,0,0,0,0,0,0,0), (198,0,0,0,0,0,0,0),
    (199,0,0,0,0,0,0,0), (200,0,0,0,0,0,0,0), (201,1,6446,246,5,14,0,201), (202,1,6473,242,2,8,0,202),
    (203,1,6539,238,3,17,1,203), (204,5,0,0,0,0,0,0), (205,1,6765,583,2,9,0,205), (206,0,0,0,0,0,0,0),
    (207,1,6735,234,5,14,0,207), (208,0,0,0,0,0,0,0), (209,6,0,0,0,0,0,0), (210,1,6721,250,5,15,0,210)]"

definition default_rows2 :: "row list" where
  "default_rows2 = [
    (211,0,0,0,0,0,0,0), (212,0,0,0,0,0,0,0), (213,0,0,0,0,0,0,0), (214,0,0,0,0,0,0,0),
    (215,0,0,0,0,0,0,0), (216,3,0,0,0,0,0,0), (217,0,0,0,0,0,0,0), (218,0,0,0,0,0,0,0),
    (225,1,7202,266,1,16,5,225), (226,1,7250,826,5,14,0,683), (227,5,0,0,0,0,0,0), (228,1,7748,308,3,17,7,228),
    (229,1,7343,268,4,12,0,229), (230,1,7846,254,3,17,1,230), (231,1,7417,831,5,14,0,231), (232,1,7425,288,1,16,2,232),
    (233,1,7458,292,5,6,0,233), (234,0,0,0,0,0,0,0), (235,0,0,0,0,0,0,0), (236,1,7756,304,3,2,0,236),
    (237,1,7586,270,1,16,2,237), (238,1,7470,324,1,16,2,238), (239,0,0,0,0,0,0,0), (240,1,7568,312,3,17,7,240),
    (241,1,7633,226,1,16,5,241), (242,1,7747,300,5,6,0,242), (243,1,19699,239,3,17,1,243), (244,1,7821,320,3,17,3,244),
    (245,1,7853,316,2,9,0,245), (246,0,0,0,0,0,0,0), (247,1,7618,624,1,16,2,247), (248,0,0,0,0,0,0,0),
    (249,1,7865,328,3,17,1,249), (250,0,0,0,0,0,0,0), (257,0,0,0,0,0,0,0), (258,0,0,0,0,0,0,0),
    (259,0,0,0,0,0,0,0), (260,0,0,0,0,0,0,0), (261,0,0,0,0,0,0,0), (262,0,0,0,0,0,0,0),
    (263,0,0,0,0,0,0,0), (264,0,0,0,0,0,0,0), (265,0,0,0,0,0,0,0), (266,0,0,0,0,0,0,0),
    (267,1,8551,344,4,3,0,267), (268,0,0,0,0,0,0,0), (269,1,8612,334,2,7,0,269), (270,1,8644,340,3,17,3,270),
    (271,0,0,0,0,0,0,0), (272,0,0,0,0,0,0,0), (273,0,0,0,0,0,0,0), (274,1,8790,191,5,6,0,274),
    (275,0,0,0,0,0,0,0), (276,1,8841,332,3,17,7,276), (277,1,8878,348,5,13,0,277), (278,6,0,0,0,0,0,0),
    (279,0,0,0,0,0,0,0), (280,0,0,0,0,0,0,0), (281,0,0,0,0,0,0,0), (282,0,0,0,0,0,0,0),
    (289,0,0,0,0,0,0,0), (290,5,0,0,0,0,0,0), (291,3,0,0,0,0,0,0), (292,1,9358,360,4,5,0,292),
    (293,1,9804,372,5,14,0,293), (294,0,0,0,0,0,0,0), (295,0,0,0,0,0,0,0), (296,0,0,0,0,0,0,0),
    (297,0,0,0,0,0,0,0), (298,0,0,0,0,0,0,0), (299,0,0,0,0,0,0,0), (300,1,9842,376,4,12,0,300),
    (301,1,9646,833,5,14,0,301), (302,1,9668,356,4,4,0,302), (303,1,9716,86,1,16,4,303), (304,0,0,0,0,0,0,0),
    (305,1,9809,368,4,12,0,305), (306,1,9806,364,4,4,0,306), (307,1,9836,352,5,14,0,307), (308,1,9857,380,5,6,0,308),
    (309,0,0,0,0,0,0,0), (310,0,0,0,0,0,0,0), (311,0,0,0,0,0,0,0), (312,0,0,0,0,0,0,0),
    (313,0,0,0,0,0,0,0), (314,0,0,0,0,0,0,0), (321,5,0,0,0,0,0,0), (322,0,0,0,0,0,0,0),
    (323,0,0,0,0,0,0,0), (324,0,0,0,0,0,0,0), (325,1,10425,832,5,14,0,325), (326,0,0,0,0,0,0,0),
    (327,0,0,0,0,0,0,0), (328,0,0,0,0,0,0,0), (329,0,0,0,0,0,0,0), (330,0,0,0,0,0,0,0),
    (331,0,0,0,0,0,0,0), (332,0,0,0,0,0,0,0), (333,1,10285,388,3,17,7,333), (334,0,0,0,0,0,0,0),
    (335,1,10738,400,4,12,0,335), (336,1,10766,392,4,3,0,336), (337,0,0,0,0,0,0,0), (338,0,0,0,0,0,0,0),
    (339,0,0,0,0,0,0,0), (340,6,0,0,0,0,0,0), (341,0,0,0,0,0,0,0), (342,0,0,0,0,0,0,0),
    (343,0,0,0,0,0,0,0), (344,0,0,0,0,0,0,0), (345,0,0,0,0,0,0,0), (346,0,0,0,0,0,0,0),
    (353,0,0,0,0,0,0,0), (354,0,0,0,0,0,0,0), (355,0,0,0,0,0,0,0), (356,0,0,0,0,0,0,0),
    (357,1,11438,404,1,16,4,357), (358,0,0,0,0,0,0,0), (359,1,11514,417,4,11,0,359), (360,1,11533,116,4,5,0,360),
    (361,1,11570,296,2,9,0,361), (362,0,0,0,0,0,0,0), (363,0,0,0,0,0,0,0), (364,0,0,0,0,0,0,0),
    (365,1,3565,174,1,16,4,365), (366,1,11713,659,3,17,7,366), (367,0,0,0,0,0,0,0), (368,1,16971,408,4,3,0,368),
    (369,0,0,0,0,0,0,0), (370,1,11762,410,4,3,0,370), (371,0,0,0,0,0,0,0), (372,0,0,0,0,0,0,0),
    (373,0,0,0,0,0,0,0), (374,0,0,0,0,0,0,0), (375,1,12020,414,4,12,0,375), (376,0,0,0,0,0,0,0),
    (377,1,3885,136,3,17,7,377), (378,1,11322,398,4,11,0,378), (385,1,12335,418,4,5,0,385), (386,1,12366,422,4,12,0,386),
    (387,1,12385,662,3,17,7,387), (388,0,0,0,0,0,0,0), (389,0,0,0,0,0,0,0), (390,5,0,0,0,0,0,0),
    (391,0,0,0,0,0,0,0), (392,0,0,0,0,0,0,0), (393,1,12581,438,5,15,0,393), (394,0,0,0,0,0,0,0)]"

definition default_rows3 :: "row list" where
  "default_rows3 = [
    (395,1,12641,144,4,4,0,395), (396,0,0,0,0,0,0,0), (397,0,0,0,0,0,0,0), (398,0,0,0,0,0,0,0),
    (399,0,0,0,0,0,0,0), (400,0,0,0,0,0,0,0), (401,0,0,0,0,0,0,0), (402,1,12370,430,1,16,2,402),
    (403,1,12911,426,1,16,6,403), (404,1,12949,440,5,14,0,404), (405,1,12984,442,5,15,0,405), (406,1,12993,428,5,14,0,406),
    (407,0,0,0,0,0,0,0), (408,0,0,0,0,0,0,0), (409,1,12377,434,1,1,0,409), (410,0,0,0,0,0,0,0),
    (417,1,13362,504,1,1,0,417), (418,0,0,0,0,0,0,0), (419,1,13423,492,5,15,0,419), (420,1,13441,498,5,13,0,420),
    (421,1,13765,499,5,6,0,421), (422,1,13350,663,3,17,7,422), (423,1,13447,450,1,16,4,423), (424,1,13580,584,2,9,0,424),
    (425,6,0,0,0,0,0,0), (426,0,0,0,0,0,0,0), (427,1,13668,807,5,6,0,427), (428,1,13705,466,1,16,2,428),
    (429,1,13746,104,4,5,0,429), (430,1,13767,496,4,3,0,430), (431,1,13347,446,4,3,0,431), (432,1,13776,580,2,9,0,432),
    (433,1,13969,474,3,17,7,433), (434,1,13908,478,1,16,2,434), (435,1,13938,500,3,17,7,435), (436,1,13716,470,5,6,0,436),
    (437,1,14003,480,1,16,4,437), (438,1,13462,462,4,4,0,438), (439,1,14057,454,1,16,4,439), (440,1,13496,484,3,17,3,440),
    (441,1,14131,458,4,5,0,441), (442,1,13818,508,1,16,4,442), (449,1,14381,516,1,16,6,449), (450,0,0,0,0,0,0,0),
    (451,1,14444,540,2,8,0,451), (452,0,0,0,0,0,0,0), (453,1,14514,562,1,16,2,453), (454,1,14539,574,2,7,0,454),
    (455,1,14561,566,1,16,2,455), (456,6,0,0,0,0,0,0), (457,1,14627,558,3,17,3,457), (458,0,0,0,0,0,0,0),
    (459,0,0,0,0,0,0,0), (460,1,14724,528,5,15,0,460), (461,0,0,0,0,0,0,0), (462,0,0,0,0,0,0,0),
    (463,1,14834,578,5,14,0,463), (464,1,14860,524,4,4,0,464), (465,6,0,0,0,0,0,0), (466,1,14933,520,2,9,0,466),
    (467,0,0,0,0,0,0,0), (468,4,0,0,0,0,0,0), (469,1,14645,570,2,10,0,469), (470,0,0,0,0,0,0,0),
    (471,0,0,0,0,0,0,0), (472,0,0,0,0,0,0,0), (473,0,0,0,0,0,0,0), (474,1,15180,554,2,7,0,474),
    (481,5,0,0,0,0,0,0), (482,0,0,0,0,0,0,0), (483,0,0,0,0,0,0,0), (484,0,0,0,0,0,0,0),
    (485,0,0,0,0,0,0,0), (486,0,0,0,0,0,0,0), (487,0,0,0,0,0,0,0), (488,0,0,0,0,0,0,0),
    (489,0,0,0,0,0,0,0), (490,0,0,0,0,0,0,0), (491,0,0,0,0,0,0,0), (492,0,0,0,0,0,0,0),
    (493,1,15790,512,4,12,0,493), (494,0,0,0,0,0,0,0), (495,0,0,0,0,0,0,0), (496,0,0,0,0,0,0,0),
    (497,0,0,0,0,0,0,0), (498,0,0,0,0,0,0,0), (499,0,0,0,0,0,0,0), (500,0,0,0,0,0,0,0),
    (501,0,0,0,0,0,0,0), (502,0,0,0,0,0,0,0), (503,0,0,0,0,0,0,0), (504,0,0,0,0,0,0,0),
    (505,0,0,0,0,0,0,0), (506,0,0,0,0,0,0,0), (513,1,16430,591,3,17,3,513), (514,0,0,0,0,0,0,0),
    (515,6,0,0,0,0,0,0), (516,0,0,0,0,0,0,0), (517,1,16562,604,3,17,1,517), (518,1,17190,258,2,10,0,518),
    (519,1,16839,598,2,8,0,519), (520,1,16652,608,4,5,0,520), (521,5,0,0,0,0,0,0), (522,0,0,0,0,0,0,0),
    (523,1,16427,586,4,4,0,523), (524,1,16876,616,5,13,0,524), (525,1,19981,666,3,2,0,525), (526,1,16494,612,2,10,0,526),
    (527,0,0,0,0,0,0,0), (528,0,0,0,0,0,0,0), (529,0,0,0,0,0,0,0), (530,1,16969,630,3,17,7,530),
    (531,1,16997,275,4,12,0,531), (532,1,16980,620,5,6,0,532), (533,6,0,0,0,0,0,0), (534,0,0,0,0,0,0,0),
    (535,1,16791,585,2,9,0,535), (536,0,0,0,0,0,0,0), (537,1,16985,600,3,17,1,537), (538,6,0,0,0,0,0,0),
    (545,1,17460,634,4,12,0,545), (546,0,0,0,0,0,0,0), (547,0,0,0,0,0,0,0), (548,0,0,0,0,0,0,0),
    (549,0,0,0,0,0,0,0), (550,0,0,0,0,0,0,0), (551,0,0,0,0,0,0,0), (552,0,0,0,0,0,0,0),
    (553,0,0,0,0,0,0,0), (554,0,0,0,0,0,0,0), (555,0,0,0,0,0,0,0), (556,0,0,0,0,0,0,0),
    (557,2,0,0,0,0,0,0), (558,2,0,0,0,0,0,0), (559,2,0,0,0,0,0,0), (560,2,0,0,0,0,0,0),
    (561,2,0,0,0,0,0,0), (562,2,0,0,0,0,0,0), (563,2,0,0,0,0,0,0), (564,2,0,0,0,0,0,0),
    (565,2,0,0,0,0,0,0), (566,2,0,0,0,0,0,0), (567,2,0,0,0,0,0,0), (568,2,0,0,0,0,0,0),
    (569,2,0,0,0,0,0,0), (570,2,0,0,0,0,0,0), (577,5,0,0,0,0,0,0), (578,5,0,0,0,0,0,0)]"

definition default_rows4 :: "row list" where
  "default_rows4 = [
    (579,5,0,0,0,0,0,0), (580,0,0,0,0,0,0,0), (581,1,18613,638,1,16,4,581), (582,0,0,0,0,0,0,0),
    (583,0,0,0,0,0,0,0), (584,5,0,0,0,0,0,0), (585,5,0,0,0,0,0,0), (586,0,0,0,0,0,0,0),
    (587,0,0,0,0,0,0,0), (588,5,0,0,0,0,0,0), (589,5,0,0,0,0,0,0), (590,5,0,0,0,0,0,0),
    (591,1,18933,642,5,13,0,591), (592,5,0,0,0,0,0,0), (593,0,0,0,0,0,0,0), (594,0,0,0,0,0,0,0),
    (595,1,20034,688,5,6,0,595), (596,0,0,0,0,0,0,0), (597,1,19123,643,5,13,0,597), (598,0,0,0,0,0,0,0),
    (599,1,19169,646,1,16,4,599), (600,0,0,0,0,0,0,0), (601,0,0,0,0,0,0,0), (602,0,0,0,0,0,0,0),
    (609,1,19509,682,4,12,0,609), (610,1,19842,90,2,8,0,610), (611,1,20259,690,1,16,4,611), (612,1,19598,729,1,1,0,612),
    (613,1,20197,752,5,14,0,613), (614,5,0,0,0,0,0,0), (615,1,19696,702,4,5,0,615), (616,1,19726,654,1,16,2,616),
    (617,1,20174,705,5,6,0,617), (618,1,19789,744,5,14,0,618), (619,1,20171,703,5,13,0,619), (620,1,19845,694,1,16,2,620),
    (621,1,19890,674,5,6,0,621), (622,1,19630,686,1,16,2,622), (623,1,19949,706,1,16,4,623), (624,0,0,0,0,0,0,0),
    (625,0,0,0,0,0,0,0), (626,1,20146,740,3,17,1,626), (627,1,20068,728,1,16,4,627), (628,1,20112,678,1,16,5,628),
    (629,3,0,0,0,0,0,0), (630,1,19862,222,3,17,3,630), (631,0,0,0,0,0,0,0), (632,1,20237,534,3,17,7,632),
    (633,1,20274,760,4,12,0,633), (634,1,20218,748,1,16,6,634), (641,3,0,0,0,0,0,0), (642,0,0,0,0,0,0,0),
    (643,1,20577,796,3,17,7,643), (644,1,20580,148,1,16,5,644), (645,0,0,0,0,0,0,0), (646,1,1670,260,1,16,4,646),
    (647,1,20719,768,1,16,2,647), (648,1,20737,764,4,5,0,648), (649,0,0,0,0,0,0,0), (650,1,20811,762,4,11,0,650),
    (651,1,20844,772,2,10,0,651), (652,1,20883,626,4,5,0,652), (653,1,20845,795,4,11,0,653), (654,1,21166,788,1,1,0,654),
    (655,1,20974,776,2,10,0,655), (656,4,0,0,0,0,0,0), (657,0,0,0,0,0,0,0), (658,1,21170,792,4,12,0,658),
    (659,0,0,0,0,0,0,0), (660,1,21135,780,3,17,7,660), (661,0,0,0,0,0,0,0), (662,1,21174,798,2,10,0,662),
    (663,1,21230,158,0,0,0,663), (664,0,0,0,0,0,0,0), (665,0,0,0,0,0,0,0), (666,1,21313,834,1,16,4,666),
    (673,1,21874,804,5,13,0,673), (674,0,0,0,0,0,0,0), (675,0,0,0,0,0,0,0), (676,0,0,0,0,0,0,0),
    (677,0,0,0,0,0,0,0), (678,0,0,0,0,0,0,0), (679,1,21729,800,1,16,4,679), (680,0,0,0,0,0,0,0),
    (681,0,0,0,0,0,0,0), (682,0,0,0,0,0,0,0), (683,3,0,0,0,0,0,0), (684,0,0,0,0,0,0,0),
    (685,1,21929,581,2,9,0,691), (686,3,0,0,0,0,0,0), (687,0,0,0,0,0,0,0), (688,0,0,0,0,0,0,0),
    (689,0,0,0,0,0,0,0), (690,0,0,0,0,0,0,0), (691,1,22113,840,3,2,0,691), (692,0,0,0,0,0,0,0),
    (693,0,0,0,0,0,0,0), (694,0,0,0,0,0,0,0), (695,0,0,0,0,0,0,0), (696,0,0,0,0,0,0,0),
    (697,1,22105,858,3,17,1,697), (698,1,22338,860,4,11,0,698), (705,1,22580,336,5,6,0,705), (706,0,0,0,0,0,0,0),
    (707,1,22644,670,3,17,7,707), (708,6,0,0,0,0,0,0), (709,1,22702,862,3,17,1,709), (710,0,0,0,0,0,0,0),
    (711,1,22754,92,3,17,7,711), (712,0,0,0,0,0,0,0), (713,1,22834,850,3,17,7,713), (714,0,0,0,0,0,0,0),
    (715,0,0,0,0,0,0,0), (716,0,0,0,0,0,0,0), (717,0,0,0,0,0,0,0), (718,1,22989,704,4,5,0,718),
    (719,0,0,0,0,0,0,0), (720,0,0,0,0,0,0,0), (721,0,0,0,0,0,0,0), (722,0,0,0,0,0,0,0),
    (723,0,0,0,0,0,0,0), (724,0,0,0,0,0,0,0), (725,1,23220,548,2,8,0,725), (726,0,0,0,0,0,0,0),
    (727,0,0,0,0,0,0,0), (728,0,0,0,0,0,0,0), (729,0,0,0,0,0,0,0), (730,0,0,0,0,0,0,0),
    (737,0,0,0,0,0,0,0), (738,0,0,0,0,0,0,0), (739,0,0,0,0,0,0,0), (740,0,0,0,0,0,0,0),
    (741,0,0,0,0,0,0,0), (742,1,23942,876,2,10,0,742), (743,5,0,0,0,0,0,0), (744,0,0,0,0,0,0,0),
    (745,0,0,0,0,0,0,0), (746,0,0,0,0,0,0,0), (747,6,0,0,0,0,0,0), (748,5,0,0,0,0,0,0),
    (749,0,0,0,0,0,0,0), (750,0,0,0,0,0,0,0), (751,5,0,0,0,0,0,0), (752,0,0,0,0,0,0,0),
    (753,0,0,0,0,0,0,0), (754,0,0,0,0,0,0,0), (755,1,24173,882,2,10,0,755), (756,0,0,0,0,0,0,0)]"

definition default_rows5 :: "row list" where
  "default_rows5 = [
    (757,0,0,0,0,0,0,0), (758,5,0,0,0,0,0,0), (759,0,0,0,0,0,0,0), (760,0,0,0,0,0,0,0),
    (761,0,0,0,0,0,0,0), (762,0,0,0,0,0,0,0), (769,2,0,0,0,0,0,0), (770,2,0,0,0,0,0,0),
    (771,2,0,0,0,0,0,0), (772,2,0,0,0,0,0,0), (773,2,0,0,0,0,0,0), (774,2,0,0,0,0,0,0),
    (775,2,0,0,0,0,0,0), (776,2,0,0,0,0,0,0), (777,2,0,0,0,0,0,0), (778,2,0,0,0,0,0,0),
    (779,2,0,0,0,0,0,367), (780,2,0,0,0,0,0,0), (781,2,0,0,0,0,0,0), (782,2,0,0,0,0,0,0),
    (783,2,0,0,0,0,0,0), (784,2,0,0,0,0,0,0), (785,2,0,0,0,0,0,0), (786,2,0,0,0,0,0,0),
    (787,2,0,0,0,0,0,0), (788,2,0,0,0,0,0,0), (789,2,0,0,0,0,0,0), (790,2,0,0,0,0,0,0),
    (791,2,0,0,0,0,0,0), (792,2,0,0,0,0,0,0), (793,2,0,0,0,0,0,0), (794,2,0,0,0,0,0,0),
    (801,0,0,0,0,0,0,0), (802,0,0,0,0,0,0,0), (803,0,0,0,0,0,0,0), (804,6,0,0,0,0,0,0),
    (805,1,25773,887,4,12,0,805), (806,0,0,0,0,0,0,0), (807,0,0,0,0,0,0,0), (808,0,0,0,0,0,0,0),
    (809,0,0,0,0,0,0,0), (810,0,0,0,0,0,0,0), (811,0,0,0,0,0,0,0), (812,0,0,0,0,0,0,0),
    (813,0,0,0,0,0,0,0), (814,0,0,0,0,0,0,0), (815,0,0,0,0,0,0,0), (816,0,0,0,0,0,0,0),
    (817,0,0,0,0,0,0,0), (818,0,0,0,0,0,0,0), (819,0,0,0,0,0,0,0), (820,1,14132,175,1,16,4,820),
    (821,4,0,0,0,0,0,0), (822,5,0,0,0,0,0,0), (823,0,0,0,0,0,0,0), (824,0,0,0,0,0,0,0),
    (825,0,0,0,0,0,0,0), (826,0,0,0,0,0,0,0), (833,1,26662,710,1,16,6,833), (834,0,0,0,0,0,0,0),
    (835,0,0,0,0,0,0,0), (836,0,0,0,0,0,0,0), (837,0,0,0,0,0,0,0), (838,0,0,0,0,0,0,0),
    (839,0,0,0,0,0,0,0), (840,0,0,0,0,0,0,0), (841,0,0,0,0,0,0,0), (842,0,0,0,0,0,0,0),
    (843,0,0,0,0,0,0,0), (844,0,0,0,0,0,0,0), (845,1,27042,894,1,16,4,845), (846,0,0,0,0,0,0,0),
    (847,0,0,0,0,0,0,0), (848,0,0,0,0,0,0,0), (849,0,0,0,0,0,0,0), (850,4,0,0,0,0,0,0),
    (851,0,0,0,0,0,0,0), (852,0,0,0,0,0,0,0), (853,0,0,0,0,0,0,0), (854,0,0,0,0,0,0,0),
    (855,1,27365,716,1,16,4,855), (856,0,0,0,0,0,0,0), (857,0,0,0,0,0,0,0), (858,2,0,0,0,0,0,0)]"

definition default_rows :: "row list" where
  "default_rows = default_rows1 @ default_rows2 @ default_rows3 @ default_rows4 @ default_rows5"

lemma rows_of_keys:
  "map row_entry default_rows1 = default_keys1" "map row_entry default_rows2 = default_keys2"
  "map row_entry default_rows3 = default_keys3" "map row_entry default_rows4 = default_keys4"
  "map row_entry default_rows5 = default_keys5"
  by (simp_all add: default_rows1_def default_keys1_def default_rows2_def default_keys2_def
      default_rows3_def default_keys3_def default_rows4_def default_keys4_def default_rows5_def default_keys5_def)

lemma default_rows_keys: "map row_entry default_rows = default_keys"
  by (simp add: default_rows_def default_keys_def rows_of_keys)

section \<open>Evaluation\<close>

lemma rows_checked:
  "list_all row_ok default_rows1" "list_all row_ok default_rows2" "list_all row_ok default_rows3"
  "list_all row_ok default_rows4" "list_all row_ok default_rows5"
  by code_simp+

fun increasing :: "int \<Rightarrow> int list \<Rightarrow> bool" where
  "increasing lo [] = True"
| "increasing lo (x # xs) = (lo < x \<and> increasing x xs)"

lemma ids_checked: "increasing 0 (map fst default_rows)"
  by code_simp

text \<open>Distinctness, by inserting the values one after the other into a search tree (the
  alpha-3 codes scattered first, to keep the tree low).\<close>

fun ins_new :: "int \<Rightarrow> int tree \<Rightarrow> int tree option" where
  "ins_new x Leaf = Some (Node Leaf x Leaf)"
| "ins_new x (Node l a r) =
     (if x < a then map_option (\<lambda>l'. Node l' a r) (ins_new x l)
      else if a < x then map_option (Node l a) (ins_new x r) else None)"

fun all_new :: "int list \<Rightarrow> int tree \<Rightarrow> bool" where
  "all_new [] t = True"
| "all_new (x # xs) t = (case ins_new x t of None \<Rightarrow> False | Some t' \<Rightarrow> all_new xs t')"

lemma ins_new_set: "ins_new x t = Some t' \<Longrightarrow> set_tree t' = insert x (set_tree t)"
  by (induction t arbitrary: t') (auto split: if_splits)

lemma ins_new_bst: "ins_new x t = Some t' \<Longrightarrow> bst t \<Longrightarrow> bst t' \<and> x \<notin> set_tree t"
proof (induction t arbitrary: t')
  case (Node l a r)
  show ?case
  proof (cases "x < a")
    case True
    then obtain l' where l': "ins_new x l = Some l'" "t' = Node l' a r" using Node.prems(1) by auto
    then show ?thesis using Node.IH(1) [OF l'(1)] Node.prems(2) True ins_new_set [OF l'(1)] by auto
  next
    case False
    then obtain r' where r': "ins_new x r = Some r'" "t' = Node l a r'" "a < x"
      using Node.prems(1) by (auto split: if_splits)
    then show ?thesis using Node.IH(2) [OF r'(1)] Node.prems(2) ins_new_set [OF r'(1)] by auto
  qed
qed auto

lemma all_new_distinct: "all_new xs t \<Longrightarrow> bst t \<Longrightarrow> distinct xs \<and> set xs \<inter> set_tree t = {}"
proof (induction xs arbitrary: t)
  case (Cons x xs)
  then obtain t' where t': "ins_new x t = Some t'" "all_new xs t'" by (auto split: option.splits)
  then show ?case
    using Cons.IH [OF t'(2)] ins_new_bst [OF t'(1) Cons.prems(2)] ins_new_set [OF t'(1)] by auto
qed simp

definition nonzero :: "(row \<Rightarrow> int) \<Rightarrow> int list" where
  "nonzero f = filter (\<lambda>x. x \<noteq> 0) (map f default_rows)"

lemma alpha3_checked: "all_new (map (\<lambda>x. x * 12345 mod 32768) (nonzero (\<lambda>(a2, st, a3, r). a3))) Leaf"
  by code_simp

lemma numeric_checked: "all_new (nonzero (\<lambda>(a2, st, a3, n, r). n)) Leaf"
  by code_simp

lemma pairs_checked: "map fst default_rows = concat (map (\<lambda>a. map (\<lambda>b. a * 32 + b) [1..26]) [1..26])"
  by code_simp

end
