(* ===== verification/CC_Default.thy ===== *)
theory CC_Default
  imports CC_Check
begin

text \<open>
  What the embedded dataset of \<^verbatim>\<open>pkg/countrycode\<close> gives, from the checks of \<open>CC_Check\<close>: every pair of
  letters resolves, and the alpha-3 and numeric codes of a country lead back to it.
\<close>

section \<open>Texts of valid codes are read back\<close>

lemma letter_back: "list_all (\<lambda>c. charOffsetUpper (byte_of (word_of_int c + chrOffsetUpper)) = Inr (word_of_int c)) [1..26]"
  by code_simp

lemma charOffset_back:
  assumes "1 \<le> uint c" "uint c \<le> 26"
  shows "charOffsetUpper (byte_of (c + chrOffsetUpper)) = Inr c"
proof -
  have "uint c \<in> set [1..26]" using assms by simp
  with letter_back have "charOffsetUpper (byte_of (word_of_int (uint c) + chrOffsetUpper)) = Inr (word_of_int (uint c))"
    unfolding list_all_iff by blast
  then show ?thesis by simp
qed

lemma letters_join:
  fixes w :: "16 word"
  assumes "w < 2 ^ 15"
  shows "push_bit bitPosChar2 (drop_bit bitPosChar2 (w AND bitMaskChar2))
    OR push_bit bitPosChar1 (drop_bit bitPosChar1 (w AND bitMaskChar1))
    OR push_bit bitPosChar0 (drop_bit bitPosChar0 (w AND bitMaskChar0)) = w"
proof (rule bit_word_eqI)
  fix n :: nat assume "n < LENGTH(16)"
  have top: "bit w n \<Longrightarrow> n < 15" using bit_below [OF assms] by simp
  consider "n < 5" | "5 \<le> n" "n < 10" | "10 \<le> n" "n < 15" | "15 \<le> n" by linarith
  then show "bit (push_bit bitPosChar2 (drop_bit bitPosChar2 (w AND bitMaskChar2))
    OR push_bit bitPosChar1 (drop_bit bitPosChar1 (w AND bitMaskChar1))
    OR push_bit bitPosChar0 (drop_bit bitPosChar0 (w AND bitMaskChar0))) n \<longleftrightarrow> bit w n"
    using top \<open>n < LENGTH(16)\<close> unfolding char_pos char_masks
    by cases (auto simp: bit_simps)
qed

lemma char_fields:
  fixes w :: "16 word"
  shows "uint (drop_bit bitPosChar2 (w AND bitMaskChar2)) = uint w div 1024 mod 32"
    "uint (drop_bit bitPosChar1 (w AND bitMaskChar1)) = uint w div 32 mod 32"
    "uint (drop_bit bitPosChar0 (w AND bitMaskChar0)) = uint w mod 32"
proof -
  have f: "uint (drop_bit p (w AND push_bit p (mask 5))) = uint w div 2 ^ p mod 32" if "p + 5 \<le> 16" for p
  proof -
    have "drop_bit p (w AND push_bit p (mask 5)) = take_bit 5 (drop_bit p w)" using that by (intro drop_push_mask) simp_all
    moreover have "uint (take_bit 5 (drop_bit p w)) = uint w div 2 ^ p mod 32"
      unfolding unsigned_take_bit_eq unsigned_drop_bit_eq using uint_bounded [of w]
      by (simp add: take_bit_eq_mod drop_bit_eq_div)
    ultimately show ?thesis by (simp only:)
  qed
  show "uint (drop_bit bitPosChar2 (w AND bitMaskChar2)) = uint w div 1024 mod 32"
    "uint (drop_bit bitPosChar1 (w AND bitMaskChar1)) = uint w div 32 mod 32"
    "uint (drop_bit bitPosChar0 (w AND bitMaskChar0)) = uint w mod 32"
    unfolding char_pos char_masks using f [of 10] f [of 5] f [of 0] by simp_all
qed

lemma alpha3_back:
  fixes a :: int
  assumes "letter (a div 1024)" "letter (a div 32 mod 32)" "letter (a mod 32)"
  shows "encodeAlpha3 (decodeAlpha3 (word_of_int a)) = Inr (word_of_int a)" "word_of_int a \<noteq> (0 :: 16 word)"
    "uint (word_of_int a :: 16 word) = a"
proof -
  let ?w = "word_of_int a :: 16 word"
  have a: "0 \<le> a" "a < 2 ^ 15" using assms(1) by (simp; linarith)+
  show u: "uint ?w = a" using a by (simp add: uint_word_of_int)
  have lt: "?w < 2 ^ 15" using u a by (simp add: word_less_def)
  have "a div 1024 mod 32 = a div 1024" using a by simp
  then have "charOffsetUpper (byte_of (drop_bit bitPosChar2 (?w AND bitMaskChar2) + chrOffsetUpper)) = Inr (drop_bit bitPosChar2 (?w AND bitMaskChar2))"
    "charOffsetUpper (byte_of (drop_bit bitPosChar1 (?w AND bitMaskChar1) + chrOffsetUpper)) = Inr (drop_bit bitPosChar1 (?w AND bitMaskChar1))"
    "charOffsetUpper (byte_of (drop_bit bitPosChar0 (?w AND bitMaskChar0) + chrOffsetUpper)) = Inr (drop_bit bitPosChar0 (?w AND bitMaskChar0))"
    using assms by (intro charOffset_back; simp only: char_fields u letter.simps)+
  then show "encodeAlpha3 (decodeAlpha3 ?w) = Inr ?w"
    by (simp only: decodeAlpha3_def encodeAlpha3.simps sum.case letters_join [OF lt])
  show "?w \<noteq> 0" using u assms(3) by auto
qed

lemma digit_val: "d < 10 \<Longrightarrow> byte_val (char_of (48 + d)) = 48 + d" for d :: nat
  by (simp add: of_char_of)

lemma numeric_back:
  fixes n :: int
  assumes "0 \<le> n" "n < 1000"
  shows "encodeNumeric (numericStr (word_of_int n)) = Inr (word_of_int n)" "uint (word_of_int n :: 16 word) = n"
proof -
  let ?w = "word_of_int n :: 16 word"
  show u: "uint ?w = n" using assms by (simp add: uint_word_of_int)
  define m where "m = nat n"
  have m: "m < 1000" "unat ?w = m" "?w = word_of_nat m" using assms u by (simp_all add: m_def unat_eq_nat_uint)
  have "\<not> 999 < ?w" using m by (simp add: word_less_nat_alt)
  then have s: "numericStr ?w = numeric_triple m"
    using m concat_slice [of numeric_triple 3 m 1000] by (simp add: numericStr_def numeric3Tab_def)
  have "m div 100 = m div 10 div 10" by (simp flip: div_mult2_eq)
  then have "m div 100 mod 10 * 10 + m div 10 mod 10 = m div 10"
    using m(1) div_mult_mod_eq [of "m div 10" 10] by simp
  then have "(m div 100 mod 10 * 10 + m div 10 mod 10) * 10 + m mod 10 = m" by (simp only: div_mult_mod_eq)
  moreover have le: "x mod 10 \<le> 9" for x :: nat using mod_less_divisor [of 10 x] by linarith
  ultimately have "ParseUint (numeric_triple m) = Some m"
    using m(1) le by (simp add: ParseUint_def numeric_triple_def digit_val algebra_simps)
  then show "encodeNumeric (numericStr ?w) = Inr ?w"
    using m(1) by (simp add: s encodeNumeric_def) (simp add: m(3))
qed

section \<open>Rows of the dataset\<close>

lemma default_rows_ok: "row \<in> set default_rows \<Longrightarrow> row_ok row"
  using rows_checked by (auto simp: default_rows_def list_all_iff)

lemma increasing_bounds: "increasing lo xs \<Longrightarrow> x \<in> set xs \<Longrightarrow> lo < x"
  by (induction xs arbitrary: lo) fastforce+

lemma increasing_distinct: "increasing lo xs \<Longrightarrow> distinct xs"
  by (induction xs arbitrary: lo) (auto dest: increasing_bounds)

lemma fst_row_range: "row \<in> set default_rows \<Longrightarrow> 0 \<le> fst row \<and> fst row < 1024"
proof -
  assume "row \<in> set default_rows"
  then have ok: "row_ok row" by (rule default_rows_ok)
  obtain a2 st a3 n r s i t where "row = (a2, st, a3, n, r, s, i, t)" by (metis surj_pair)
  then show ?thesis using row_bounds(1,2) [of a2 st a3 n r s i t] ok by (simp only: fst_conv)
qed

lemma uint_fst_row: "row \<in> set default_rows \<Longrightarrow> uint (word_of_int (fst row) :: 16 word) = fst row"
  using fst_row_range [of row] by (simp add: uint_word_of_int)

lemma fst_row_entry: "fst (row_entry row) = word_of_int (fst row)"
  by (cases row) simp

lemma default_ids_distinct: "distinct (map fst default_keys)"
proof -
  have "distinct (map uint (map fst default_keys))"
    using increasing_distinct [OF ids_checked] uint_fst_row
    by (simp add: default_rows_keys [symmetric] fst_row_entry cong: map_cong)
  then show ?thesis unfolding distinct_map [of uint] by blast
qed

lemma default_row_key: "row \<in> set default_rows \<Longrightarrow> map_of default_keys (word_of_int (fst row)) = Some (snd (row_entry row))"
  using default_ids_distinct
  by (intro map_of_is_SomeI) (force simp: default_rows_keys [symmetric] fst_row_entry [symmetric])+

lemma default_dom: "dom (map_of default_keys) = (word_of_int \<circ> fst) ` set default_rows"
  by (force simp: dom_map_of_conv_image_fst default_rows_keys [symmetric] fst_row_entry)

lemma nonzero_unique:
  assumes "distinct (nonzero f)" "x \<in> set default_rows" "y \<in> set default_rows" "f x = f y" "f x \<noteq> 0"
  shows "x = y"
proof -
  have "nonzero f = map f (filter (\<lambda>r. f r \<noteq> 0) default_rows)" by (simp add: nonzero_def filter_map comp_def)
  then have "inj_on f (set (filter (\<lambda>r. f r \<noteq> 0) default_rows))" using assms(1) by (simp only: distinct_map)
  moreover have "f y \<noteq> 0" using assms(4,5) by simp
  ultimately show ?thesis using inj_onD [of f _ x y] assms(2-5) by simp
qed

lemma nonzero_distinct:
  "distinct (nonzero (\<lambda>(a2, st, a3, r). a3))" "distinct (nonzero (\<lambda>(a2, st, a3, n, r). n))"
proof -
  have "bst (Leaf :: int tree)" by simp
  note d = all_new_distinct [OF alpha3_checked this, THEN conjunct1] all_new_distinct [OF numeric_checked this, THEN conjunct1]
  from d(1) [unfolded distinct_map, THEN conjunct1] show "distinct (nonzero (\<lambda>(a2, st, a3, r). a3))" .
  from d(2) show "distinct (nonzero (\<lambda>(a2, st, a3, n, r). n))" .
qed

text \<open>A country is found when its key is and the IDs in the key are within the catalogs.\<close>

lemma country_found:
  assumes key: "dCountryKeyByAlpha2ID d k = Some v"
    and st: "uint (status (decodeCountryKey v)) < int (length (dStatusByID d))"
    and rg: "uint (region (decodeCountryKey v)) < int (length (dRegionByID d))"
      "uint (subregion (decodeCountryKey v)) < int (length (dSubRegionByID d))"
      "uint (intregion (decodeCountryKey v)) < int (length (dIntermediateRegionByID d))"
  defines "el \<equiv> decodeCountryKey v"
  shows "\<exists>c. countryByAlpha2ID d k = Inr c \<and> Alpha2Code c = decodeAlpha2 (alpha2 el)
    \<and> Alpha3Code c = (if 0 < alpha3 el then decodeAlpha3 (alpha3 el) else [])
    \<and> NumericCode c = (if 0 < numeric el then numericStr (numeric el) else [])"
proof -
  have found: "\<exists>e. by_id es (uint w) = Inr e" if "uint w < int (length es)" for es :: "enumData list" and w :: "8 word"
    using that by (simp add: by_id_def)
  obtain e1 e2 e3 e4 where e: "statusByID d (uint (status el)) = Inr e1" "regionByID d (uint (region el)) = Inr e2"
      "subRegionByID d (uint (subregion el)) = Inr e3" "intermediateRegionByID d (uint (intregion el)) = Inr e4"
    unfolding el_def statusByID_def regionByID_def subRegionByID_def intermediateRegionByID_def
    using found [OF st] found [OF rg(1)] found [OF rg(2)] found [OF rg(3)] by blast
  show ?thesis
    unfolding countryByAlpha2ID_def countryKeyByAlpha2ID_def by_key_def key
    by (simp add: el_def [symmetric] e populateCountryDetails_def Let_def split: sum.splits)
qed

section \<open>The default tables\<close>

definition default_table :: "(nat \<Rightarrow> nat) \<Rightarrow> Data" where
  "default_table u = genRegionIndexes u (cc_defaultData (statusMap u zero_Data))"

lemma default_table_parts [simp]:
  "dCountryKeyByAlpha2ID (default_table u) = map_of default_keys" "length (dStatusByID (default_table u)) = 7"
  "length (dRegionByID (default_table u)) = 6" "length (dSubRegionByID (default_table u)) = 18"
  "length (dIntermediateRegionByID (default_table u)) = 8"
  by (simp_all add: default_table_def genRegionIndexes_def cc_defaultData_def statusMap_def default_regions_def
      default_subregions_def default_intregions_def)

lemma cc_New_default: "cc_New u order [] = Inr (genCountryIndexes order (default_table u))"
  by (simp add: cc_New_def default_table_def Let_def)

lemma default_elem: "row \<in> set default_rows \<Longrightarrow> elem_of (default_table u) (word_of_int (fst row)) = row_elem row"
  using default_row_key [of row] decode_row [OF default_rows_ok, of row] by (simp add: elem_of_def)

lemma default_country:
  assumes row: "row \<in> set default_rows" and v: "visits order (default_table u)"
  defines "k \<equiv> word_of_int (fst row)" and "el \<equiv> row_elem row"
  shows "\<exists>c. countryByAlpha2ID (genCountryIndexes order (default_table u)) k = Inr c \<and> Alpha2Code c = decodeAlpha2 k
    \<and> Alpha3Code c = (if 0 < alpha3 el then decodeAlpha3 (alpha3 el) else [])
    \<and> NumericCode c = (if 0 < numeric el then numericStr (numeric el) else [])"
proof -
  obtain a2 st a3 n r s i t where r: "row = (a2, st, a3, n, r, s, i, t)" by (metis surj_pair)
  note ok = default_rows_ok [OF row]
  note b = row_bounds [OF ok [unfolded r]]
  have dec: "decodeCountryKey (snd (row_entry row)) = el" using decode_row [OF ok] by (simp add: el_def)
  have bounds: "uint (status el) < 7" "uint (region el) < 6" "uint (subregion el) < 18" "uint (intregion el) < 8"
    using b by (simp_all add: el_def r uint_word_of_int)
  have a2: "alpha2 el = k" using decode_row(2) [OF ok] by (simp add: el_def k_def fst_row_entry)
  have key: "dCountryKeyByAlpha2ID (genCountryIndexes order (default_table u)) k = Some (snd (row_entry row))"
    using default_row_key [OF row] v by (simp add: k_def)
  have len: "uint (status el) < int (length (dStatusByID (genCountryIndexes order (default_table u))))"
    "uint (region el) < int (length (dRegionByID (genCountryIndexes order (default_table u))))"
    "uint (subregion el) < int (length (dSubRegionByID (genCountryIndexes order (default_table u))))"
    "uint (intregion el) < int (length (dIntermediateRegionByID (genCountryIndexes order (default_table u))))"
    using bounds v by simp_all
  show ?thesis using country_found [OF key, unfolded dec, OF len] by (simp only: a2)
qed

lemma default_visits: "visits order (default_table u) \<longleftrightarrow> distinct order \<and> set order = (word_of_int \<circ> fst) ` set default_rows"
  by (simp only: visits_def default_table_parts default_dom)

text \<open>Every pair of letters has a row.\<close>

lemma pair_in_concat: "a \<in> set xs \<Longrightarrow> b \<in> set ys \<Longrightarrow> f a b \<in> set (concat (map (\<lambda>a. map (f a) ys) xs))"
  by auto

lemma pair_has_row:
  assumes "encodeAlpha2 s = Inr w"
  shows "\<exists>row \<in> set default_rows. w = word_of_int (fst row)"
proof -
  obtain a b c1 c0 where c: "charOffsetUpper a = Inr c1" "charOffsetUpper b = Inr c0"
      and w: "w = push_bit bitPosChar1 c1 OR push_bit bitPosChar0 c0"
    using assms unfolding encodeAlpha2_def
    by (cases "(charOffsetUpper, s)" rule: encode_pair.cases) (auto split: sum.splits)
  note l1 = charOffset_letter [OF c(1) [unfolded charOffsetUpper_def]]
    and l0 = charOffset_letter [OF c(2) [unfolded charOffsetUpper_def]]
  have fld: "drop_bit bitPosChar1 (w AND bitMaskChar1) = c1" "drop_bit bitPosChar0 (w AND bitMaskChar0) = c0"
    using three_letters [OF _ letter_word [OF l1(2)] letter_word [OF l0(2)], of 0] unfolding w by simp_all
  have lim: "1 \<le> uint c" "uint c \<le> 26" if "c \<noteq> 0" "c \<le> 26" for c :: "16 word"
  proof -
    have "uint c \<noteq> 0" "uint c \<le> 26" using that by (simp_all add: word_le_def word_uint_eq_iff)
    then show "1 \<le> uint c" "uint c \<le> 26" using uint_ge_0 [of c] by linarith+
  qed
  have u: "uint w div 32 mod 32 = uint c1" "uint w mod 32 = uint c0"
    using char_fields [of w] by (simp_all only: fld)
  have lt: "uint w < 1024" using encodeAlpha2_text [OF assms] by (simp add: word_less_def)
  then have "0 \<le> uint w div 32" "uint w div 32 < 32" using uint_ge_0 [of w] by linarith+
  then have "uint w div 32 mod 32 = uint w div 32" by (rule mod_pos_pos_trivial)
  then have "uint w = uint c1 * 32 + uint c0" using u div_mult_mod_eq [of "uint w" 32] by simp
  moreover have "uint c1 \<in> set [1..26]" "uint c0 \<in> set [1..26]" using lim [OF l1(1,2)] lim [OF l0(1,2)] by simp_all
  ultimately have "uint w \<in> set (concat (map (\<lambda>a. map (\<lambda>b. a * 32 + b) [1..26]) [1..26]))"
    using pair_in_concat [of "uint c1" "[1..26]" "uint c0" "[1..26]" "\<lambda>a b. a * 32 + b"] by (simp only:)
  then have "uint w \<in> fst ` set default_rows" unfolding pairs_checked [symmetric] set_map .
  then obtain row where "row \<in> set default_rows" "uint w = fst row" by (rule imageE)
  then show ?thesis by (metis of_int_uint ucast_id)
qed

lemma default_code_unique:
  fixes f :: "countryKeyElem \<Rightarrow> 16 word"
  assumes row: "row \<in> set default_rows" and v: "visits order (default_table u)"
    and f: "\<And>r. f (row_elem r) = word_of_int (g r)" and d: "distinct (nonzero g)"
    and lim: "\<And>r. r \<in> set default_rows \<Longrightarrow> uint (word_of_int (g r) :: 16 word) = g r" and nz: "f (row_elem row) \<noteq> 0"
  shows "((fold (\<lambda>k m. m(f (elem_of (default_table u) k) \<mapsto> k)) order Map.empty)(0 := None)) (f (row_elem row))
    = Some (word_of_int (fst row))"
proof -
  let ?k = "word_of_int (fst row) :: 16 word" and ?f = "\<lambda>k. f (elem_of (default_table u) k)"
  have ord: "distinct order" "set order = (word_of_int \<circ> fst) ` set default_rows" using v by (simp_all only: default_visits)
  have fk: "?f ?k = f (row_elem row)" using default_elem [OF row] by simp
  have "fold (\<lambda>k m. m(?f k \<mapsto> k)) order Map.empty (?f ?k) = Some ?k"
  proof (rule latest_unique [OF ord(1)])
    show "?k \<in> set order" using row by (simp add: ord(2))
    fix k' assume "k' \<in> set order" and eq: "?f k' = ?f ?k"
    then obtain r where r: "r \<in> set default_rows" "k' = word_of_int (fst r)" by (auto simp: ord(2))
    have "f (row_elem r) = f (row_elem row)" using eq default_elem [OF r(1)] fk by (simp add: r(2))
    then have "g r = g row" using f lim [OF r(1)] lim [OF row] by metis
    moreover have "g r \<noteq> 0" using nz f calculation by (metis word_of_int_0)
    ultimately show "k' = ?k" using nonzero_unique [OF d r(1) row] r(2) by simp
  qed
  then show ?thesis using nz by (simp add: fk)
qed

lemma row_codes:
  assumes "row \<in> set default_rows"
  shows "uint (word_of_int (case row of (a2, st, a3, n, r) \<Rightarrow> n) :: 16 word) = (case row of (a2, st, a3, n, r) \<Rightarrow> n)"
    "uint (word_of_int (case row of (a2, st, a3, r) \<Rightarrow> a3) :: 16 word) = (case row of (a2, st, a3, r) \<Rightarrow> a3)"
    "0 < numeric (row_elem row) \<Longrightarrow> encodeNumeric (numericStr (numeric (row_elem row))) = Inr (numeric (row_elem row))"
    "0 < alpha3 (row_elem row) \<Longrightarrow> encodeAlpha3 (decodeAlpha3 (alpha3 (row_elem row))) = Inr (alpha3 (row_elem row))"
proof -
  obtain a2 st a3 n r s i t where r: "row = (a2, st, a3, n, r, s, i, t)" by (metis surj_pair)
  note ok = default_rows_ok [OF assms, unfolded r]
  note b = row_bounds [OF ok]
  show "uint (word_of_int (case row of (a2, st, a3, n, r) \<Rightarrow> n) :: 16 word) = (case row of (a2, st, a3, n, r) \<Rightarrow> n)"
    "uint (word_of_int (case row of (a2, st, a3, r) \<Rightarrow> a3) :: 16 word) = (case row of (a2, st, a3, r) \<Rightarrow> a3)"
    using b by (simp_all add: r uint_word_of_int)
  show "encodeNumeric (numericStr (numeric (row_elem row))) = Inr (numeric (row_elem row))"
    using numeric_back(1) [OF b(7,8)] by (simp add: r)
  assume "0 < alpha3 (row_elem row)"
  then have "a3 \<noteq> 0" by (auto simp: r)
  then have "letter (a3 div 1024)" "letter (a3 div 32 mod 32)" "letter (a3 mod 32)" using ok by auto
  from alpha3_back(1) [OF this]
  show "encodeAlpha3 (decodeAlpha3 (alpha3 (row_elem row))) = Inr (alpha3 (row_elem row))" by (simp add: r)
qed

lemma row_elem_codes:
  "numeric (row_elem row) = word_of_int (case row of (a2, st, a3, n, r) \<Rightarrow> n)"
  "alpha3 (row_elem row) = word_of_int (case row of (a2, st, a3, r) \<Rightarrow> a3)"
  by (cases row rule: row_elem.cases; simp)+

lemma default_lookup:
  assumes s: "encodeAlpha2 s = Inr w" and v: "visits order (default_table u)"
  defines "d \<equiv> genCountryIndexes order (default_table u)"
  shows "\<exists>c. CountryByAlpha2Code d s = Inr c \<and> Alpha2Code c = s
    \<and> (Alpha3Code c \<noteq> [] \<longrightarrow> CountryByAlpha3Code d (Alpha3Code c) = Inr c)
    \<and> (NumericCode c \<noteq> [] \<longrightarrow> CountryByNumericCode d (NumericCode c) = Inr c)"
proof -
  obtain row where row: "row \<in> set default_rows" and w: "w = word_of_int (fst row)" using pair_has_row [OF s] by blast
  obtain c where c: "countryByAlpha2ID d w = Inr c" "Alpha2Code c = decodeAlpha2 w"
      "Alpha3Code c = (if 0 < alpha3 (row_elem row) then decodeAlpha3 (alpha3 (row_elem row)) else [])"
      "NumericCode c = (if 0 < numeric (row_elem row) then numericStr (numeric (row_elem row)) else [])"
    using default_country [OF row v] unfolding d_def w by blast
  have "CountryByAlpha3Code d (Alpha3Code c) = Inr c" if "Alpha3Code c \<noteq> []"
  proof -
    have pos: "0 < alpha3 (row_elem row)" using that c(3) by (simp split: if_splits)
    then have "dAlpha2IDByAlpha3ID d (alpha3 (row_elem row)) = Some w"
      unfolding d_def genCountryIndexes_codes [OF v] w
      using default_code_unique [OF row v row_elem_codes(2) nonzero_distinct(1) row_codes(2)] by simp
    then show ?thesis
      using pos c(1,3) row_codes(4) [OF row] by (simp add: CountryByAlpha3Code_def alpha2IDByAlpha3ID_def by_key_def)
  qed
  moreover have "CountryByNumericCode d (NumericCode c) = Inr c" if "NumericCode c \<noteq> []"
  proof -
    have pos: "0 < numeric (row_elem row)" using that c(4) by (simp split: if_splits)
    then have "dAlpha2IDByNumericID d (numeric (row_elem row)) = Some w"
      unfolding d_def genCountryIndexes_codes [OF v] w
      using default_code_unique [OF row v row_elem_codes(1) nonzero_distinct(2) row_codes(1)] by simp
    then show ?thesis
      using pos c(1,4) row_codes(3) [OF row] by (simp add: CountryByNumericCode_def alpha2IDByNumericID_def by_key_def)
  qed
  moreover have "CountryByAlpha2Code d s = Inr c" "Alpha2Code c = s"
    using c(1,2) s encodeAlpha2_text [OF s] by (simp_all add: CountryByAlpha2Code_def)
  ultimately show ?thesis by blast
qed

end
