(* ===== verification/CC_Props.thy ===== *)
theory CC_Props
  imports CC_Default
begin

text \<open>The properties of \<^verbatim>\<open>pkg/countrycode\<close>, with their witnesses.\<close>

section \<open>Shared lemmas\<close>

text \<open>A well-formed custom dataset gives a table; the indexes are then built over it.\<close>

lemma cc_New_custom:
  assumes "dataset_ok cdata" "cdata \<noteq> []" "distinct order" "set order = a2id ` set cdata"
  obtains d0 where "cc_New u order cdata = Inr (genCountryIndexes order d0)" "table_for u cdata d0" "visits order d0"
    "table_for u cdata (genCountryIndexes order d0)" "elem_for (genCountryIndexes order d0) = elem_for d0"
proof -
  obtain d0 where d0: "cc_loadData u cdata (statusMap u zero_Data) = Inr d0" "table_for u cdata d0"
    using cc_loadData_table [OF assms(1)] by blast
  show ?thesis
    using that [of d0] d0 table_visited [OF d0(2) assms(3,4)] assms(2) by (simp add: cc_New_def Let_def)
qed

lemma record_code_unique:
  assumes ok: "dataset_ok cdata" and t: "table_for u cdata d0" and v: "visits order d0" and c: "c \<in> set cdata"
    and nz: "f (elem_for d0 c) \<noteq> 0"
    and uniq: "\<And>c'. c' \<in> set cdata \<Longrightarrow> f (elem_for d0 c') = f (elem_for d0 c) \<Longrightarrow> c' = c"
  shows "((fold (\<lambda>k m. m(f (elem_of d0 k) \<mapsto> k)) order Map.empty)(0 := None)) (f (elem_for d0 c)) = Some (a2id c)"
proof -
  have ord: "distinct order" "set order = a2id ` set cdata" using v t by (simp_all add: visits_def table_for_def)
  note el = table_record(2) [OF ok t]
  have "fold (\<lambda>k m. m(f (elem_of d0 k) \<mapsto> k)) order Map.empty (f (elem_of d0 (a2id c))) = Some (a2id c)"
  proof (rule latest_unique [OF ord(1)])
    show "a2id c \<in> set order" using c by (simp add: ord(2))
    fix k' assume "k' \<in> set order" and eq: "f (elem_of d0 k') = f (elem_of d0 (a2id c))"
    then obtain c' where c': "c' \<in> set cdata" "k' = a2id c'" by (auto simp: ord(2))
    then have "f (elem_for d0 c') = f (elem_for d0 c)" using eq el c by simp
    then show "k' = a2id c" using uniq [OF c'(1)] c'(2) by simp
  qed
  then show ?thesis using nz el [OF c] by simp
qed

lemma text_of_code_inj:
  assumes "record_ok c" "record_ok c'"
  shows "or_zero (encodeAlpha3 (Alpha3Code c)) = or_zero (encodeAlpha3 (Alpha3Code c')) \<Longrightarrow> Alpha3Code c = Alpha3Code c'"
    "or_zero (encodeNumeric (NumericCode c)) = or_zero (encodeNumeric (NumericCode c')) \<Longrightarrow> NumericCode c = NumericCode c'"
    "or_zero (encodeTLD (TLD c)) = or_zero (encodeTLD (TLD c')) \<Longrightarrow> TLD c = TLD c'"
  using alpha3_of_record(2,3) [OF assms(1)] alpha3_of_record(2,3) [OF assms(2)]
    numeric_of_record(2,3) [OF assms(1)] numeric_of_record(2,3) [OF assms(2)]
    tld_of_record(2,3) [OF assms(1)] tld_of_record(2,3) [OF assms(2)] by metis+


section \<open>Keys and codes\<close>

text \<open>
  C10: packing a country record into a 64-bit key and unpacking it gives the record back, when each
  field fits its width; unpacking any key and packing it again gives the key without its unused top bit;
  and the alpha-2, alpha-3, top-level-domain and numeric codes are decoded to the very text that was encoded.
\<close>

theorem country_key_roundtrip:
  "(fields_fit e \<longrightarrow> decodeCountryKey (encodeCountryKey e) = e)
   \<and> encodeCountryKey (decodeCountryKey k) = take_bit 63 k
   \<and> (encodeAlpha2 s = Inr w \<longrightarrow> decodeAlpha2 w = s)
   \<and> (encodeAlpha3 s = Inr w \<longrightarrow> decodeAlpha3 w = s)
   \<and> (encodeTLD s = Inr w \<longrightarrow> decodeTLD w = s)
   \<and> (encodeNumeric s = Inr w \<longrightarrow> numericStr w = s)"
  using decode_encode encode_decode encodeAlpha2_text encodeAlpha3_text encodeTLD_text encodeNumeric_text by simp

definition italy_elem :: countryKeyElem where
  "italy_elem = \<lparr>status = 1, alpha2 = 308, alpha3 = 9857, numeric = 380, region = 5, subregion = 6, intregion = 0, tld = 308\<rparr>"

theorem country_key_roundtrip_witness:
  "decodeCountryKey (encodeCountryKey italy_elem) = italy_elem \<and> decodeAlpha2 308 = ''IT'' \<and> decodeAlpha3 9857 = ''ITA''
   \<and> decodeTLD 308 = ''it'' \<and> numericStr 380 = ''380''"
proof -
  have e: "fields_fit italy_elem" by code_simp
  have "encodeAlpha2 ''IT'' = Inr 308" by code_simp
  then have "decodeAlpha2 308 = ''IT''" "decodeCountryKey (encodeCountryKey italy_elem) = italy_elem"
    using country_key_roundtrip [of italy_elem 0 "''IT''" 308] e by simp_all
  moreover have "encodeAlpha3 ''ITA'' = Inr 9857" by code_simp
  then have "decodeAlpha3 9857 = ''ITA''" using country_key_roundtrip [of italy_elem 0 "''ITA''" 9857] by simp
  moreover have "encodeTLD ''it'' = Inr 308" by code_simp
  then have "decodeTLD 308 = ''it''" using country_key_roundtrip [of italy_elem 0 "''it''" 308] by simp
  moreover have "encodeNumeric ''380'' = Inr 380" by (simp add: encodeNumeric_def ParseUint_def)
  then have "numericStr 380 = ''380''" using country_key_roundtrip [of italy_elem 0 "''380''" 380] by simp
  ultimately show ?thesis by simp
qed

section \<open>Custom datasets\<close>

text \<open>
  C14: a custom dataset whose records are well formed, with distinct alpha-2 codes and at most 31 codes in each
  region catalog, loads without error, whatever the order in which the map of keys is visited; then every
  record is returned unchanged, all fourteen fields, for its alpha-2 code, for its alpha-3 code and for its
  numeric code when no other record carries the same one, and an alpha-2 code of no record is an error.
\<close>

theorem loaded_records_returned:
  assumes "dataset_ok cdata" "cdata \<noteq> []" "distinct order" "set order = a2id ` set cdata"
  shows "\<exists>d. cc_New u order cdata = Inr d
    \<and> (\<forall>c \<in> set cdata. CountryByAlpha2Code d (Alpha2Code c) = Inr c
         \<and> (Alpha3Code c \<noteq> [] \<and> (\<forall>c' \<in> set cdata. Alpha3Code c' = Alpha3Code c \<longrightarrow> c' = c)
              \<longrightarrow> CountryByAlpha3Code d (Alpha3Code c) = Inr c)
         \<and> (NumericCode c \<noteq> [] \<and> (\<forall>c' \<in> set cdata. NumericCode c' = NumericCode c \<longrightarrow> c' = c)
              \<longrightarrow> CountryByNumericCode d (NumericCode c) = Inr c))
    \<and> (\<forall>s. s \<notin> Alpha2Code ` set cdata \<longrightarrow> isl (CountryByAlpha2Code d s))"
proof -
  obtain d0 where new: "cc_New u order cdata = Inr (genCountryIndexes order d0)" and t0: "table_for u cdata d0"
      and v: "visits order d0" and t: "table_for u cdata (genCountryIndexes order d0)"
    using cc_New_custom [OF assms] by metis
  let ?d = "genCountryIndexes order d0"
  have rec: "record_ok c" if "c \<in> set cdata" for c using record_regions(7) [OF assms(1) that] .
  note found = table_record(1) [OF assms(1) t]
  have a2: "CountryByAlpha2Code ?d (Alpha2Code c) = Inr c" if "c \<in> set cdata" for c
    using alpha2_of_record(1) [OF rec [OF that]] found [OF that] by (simp add: CountryByAlpha2Code_def)
  have a3: "CountryByAlpha3Code ?d (Alpha3Code c) = Inr c"
    if c: "c \<in> set cdata" and ne: "Alpha3Code c \<noteq> []" and u: "\<forall>c' \<in> set cdata. Alpha3Code c' = Alpha3Code c \<longrightarrow> c' = c" for c
  proof -
    note r = alpha3_of_record [OF rec [OF c]]
    have "dAlpha2IDByAlpha3ID ?d (alpha3 (elem_for d0 c)) = Some (a2id c)"
      unfolding genCountryIndexes_codes [OF v]
      by (rule record_code_unique [OF assms(1) t0 v c])
        (use r(2) ne u text_of_code_inj(1) rec c in \<open>auto simp: elem_for_codes\<close>)
    moreover have "encodeAlpha3 (Alpha3Code c) = Inr (alpha3 (elem_for d0 c))" unfolding elem_for_codes by (rule r(4) [OF ne])
    ultimately show ?thesis using found [OF c] by (simp add: CountryByAlpha3Code_def alpha2IDByAlpha3ID_def by_key_def)
  qed
  have nm: "CountryByNumericCode ?d (NumericCode c) = Inr c"
    if c: "c \<in> set cdata" and ne: "NumericCode c \<noteq> []" and u: "\<forall>c' \<in> set cdata. NumericCode c' = NumericCode c \<longrightarrow> c' = c" for c
  proof -
    note r = numeric_of_record [OF rec [OF c]]
    have "dAlpha2IDByNumericID ?d (numeric (elem_for d0 c)) = Some (a2id c)"
      unfolding genCountryIndexes_codes [OF v]
      by (rule record_code_unique [OF assms(1) t0 v c])
        (use r(2) ne u text_of_code_inj(2) rec c in \<open>auto simp: elem_for_codes\<close>)
    moreover have "encodeNumeric (NumericCode c) = Inr (numeric (elem_for d0 c))" unfolding elem_for_codes by (rule r(4) [OF ne])
    ultimately show ?thesis using found [OF c] by (simp add: CountryByNumericCode_def alpha2IDByNumericID_def by_key_def)
  qed
  have "isl (CountryByAlpha2Code ?d s)" if s: "s \<notin> Alpha2Code ` set cdata" for s
  proof (cases "encodeAlpha2 s")
    case (Inr w)
    have "w \<notin> a2id ` set cdata"
    proof
      assume "w \<in> a2id ` set cdata"
      then obtain c where c: "c \<in> set cdata" "w = a2id c" by blast
      then have "Alpha2Code c = s" using encodeAlpha2_text [OF Inr] alpha2_of_record(2) [OF rec, of c] by simp
      then show False using s c(1) by blast
    qed
    then have "dCountryKeyByAlpha2ID ?d w = None" using t unfolding table_for_def by blast
    then show ?thesis
      by (simp add: CountryByAlpha2Code_def Inr countryByAlpha2ID_def countryKeyByAlpha2ID_def by_key_def)
  qed (simp add: CountryByAlpha2Code_def)
  then show ?thesis using new a2 a3 nm by blast
qed

definition italy :: CountryData where
  "italy = \<lparr>StatusCode = 1, Status = ''Officially assigned'', Alpha2Code = ''IT'', Alpha3Code = ''ITA'', NumericCode = ''380'',
     NameEnglish = ''Italy'', NameFrench = ''Italie'', Region = ''Europe'', SubRegion = ''Southern Europe'', IntermediateRegion = [],
     RegionCode = ''150'', SubRegionCode = ''039'', IntermediateRegionCode = [], TLD = ''it''\<rparr>"

definition france :: CountryData where
  "france = \<lparr>StatusCode = 1, Status = ''Officially assigned'', Alpha2Code = ''FR'', Alpha3Code = ''FRA'', NumericCode = ''250'',
     NameEnglish = ''France'', NameFrench = ''France'', Region = ''Europe'', SubRegion = ''Western Europe'', IntermediateRegion = [],
     RegionCode = ''150'', SubRegionCode = ''155'', IntermediateRegionCode = [], TLD = ''fr''\<rparr>"

definition demo_dataset :: "CountryData list" where
  "demo_dataset = [italy, france]"

definition demo_order :: "16 word list" where
  "demo_order = [308, 210]"

lemma demo_codes:
  "encodeAlpha2 ''IT'' = Inr 308" "encodeAlpha2 ''FR'' = Inr 210" "encodeAlpha3 ''ITA'' = Inr 9857"
  "encodeAlpha3 ''FRA'' = Inr 6721" "encodeTLD ''it'' = Inr 308" "encodeTLD ''fr'' = Inr 210"
  by code_simp+

lemma demo_numeric: "encodeNumeric ''380'' = Inr 380" "encodeNumeric ''250'' = Inr 250"
  by (simp_all add: encodeNumeric_def ParseUint_def)

lemma demo_catalogs:
  "catalog_ok (regions_of demo_dataset)" "catalog_ok (subregions_of demo_dataset)" "catalog_ok (intregions_of demo_dataset)"
  by code_simp+

lemma demo_records: "record_ok italy" "record_ok france"
  by (simp_all add: record_ok_def italy_def france_def demo_codes demo_numeric statuses_def
      del: encodeAlpha3.simps)

lemma demo_dataset_facts:
  "dataset_ok demo_dataset" "demo_dataset \<noteq> []" "distinct demo_order" "set demo_order = a2id ` set demo_dataset"
proof -
  show "dataset_ok demo_dataset"
    using demo_records demo_catalogs by (simp add: dataset_ok_def demo_dataset_def italy_def france_def)
qed (simp_all add: demo_dataset_def demo_order_def a2id_def italy_def france_def demo_codes)

theorem loaded_records_returned_witness:
  "\<exists>d. cc_New (\<lambda>r. r) demo_order demo_dataset = Inr d \<and> CountryByAlpha2Code d ''IT'' = Inr italy
     \<and> CountryByAlpha2Code d ''FR'' = Inr france \<and> CountryByAlpha3Code d ''ITA'' = Inr italy
     \<and> CountryByNumericCode d ''250'' = Inr france \<and> isl (CountryByAlpha2Code d ''DE'')"
proof -
  obtain d where d: "cc_New (\<lambda>r. r) demo_order demo_dataset = Inr d"
      "\<forall>c \<in> set demo_dataset. CountryByAlpha2Code d (Alpha2Code c) = Inr c
         \<and> (Alpha3Code c \<noteq> [] \<and> (\<forall>c' \<in> set demo_dataset. Alpha3Code c' = Alpha3Code c \<longrightarrow> c' = c)
              \<longrightarrow> CountryByAlpha3Code d (Alpha3Code c) = Inr c)
         \<and> (NumericCode c \<noteq> [] \<and> (\<forall>c' \<in> set demo_dataset. NumericCode c' = NumericCode c \<longrightarrow> c' = c)
              \<longrightarrow> CountryByNumericCode d (NumericCode c) = Inr c)"
      "\<forall>s. s \<notin> Alpha2Code ` set demo_dataset \<longrightarrow> isl (CountryByAlpha2Code d s)"
    using loaded_records_returned [OF demo_dataset_facts, of "\<lambda>r. r"] by metis
  have mem: "italy \<in> set demo_dataset" "france \<in> set demo_dataset" by (simp_all add: demo_dataset_def)
  have codes: "Alpha2Code italy = ''IT''" "Alpha2Code france = ''FR''" "Alpha3Code italy = ''ITA''" "Alpha3Code france = ''FRA''"
    "NumericCode italy = ''380''" "NumericCode france = ''250''" by (simp_all add: italy_def france_def)
  have "''DE'' \<notin> Alpha2Code ` set demo_dataset" by (simp add: demo_dataset_def codes)
  then show ?thesis
    using d(1) d(2) [rule_format, OF mem(1)] d(2) [rule_format, OF mem(2)] d(3) [rule_format, of "''DE''"]
    by (auto simp: codes demo_dataset_def)
qed



section \<open>The embedded dataset\<close>

text \<open>
  C23: the resolver built from the embedded dataset finds a country for every pair of capital letters, with that
  pair as its alpha-2 code, and the alpha-3 and numeric codes of a country lead back to the same record, whatever
  the order in which the map of keys is visited.
\<close>

theorem default_dataset_complete:
  assumes "distinct order" "set order = fst ` set default_keys" "encodeAlpha2 s = Inr w"
  shows "\<exists>d c. cc_New u order [] = Inr d \<and> CountryByAlpha2Code d s = Inr c \<and> Alpha2Code c = s
    \<and> (Alpha3Code c \<noteq> [] \<longrightarrow> CountryByAlpha3Code d (Alpha3Code c) = Inr c)
    \<and> (NumericCode c \<noteq> [] \<longrightarrow> CountryByNumericCode d (NumericCode c) = Inr c)"
proof -
  have "visits order (default_table u)" using assms(1,2) by (simp add: visits_def dom_map_of_conv_image_fst)
  from default_lookup [OF assms(3) this] show ?thesis unfolding cc_New_default by blast
qed

theorem default_dataset_complete_witness:
  "\<exists>d c. cc_New (\<lambda>r. r) (map fst default_keys) [] = Inr d \<and> CountryByAlpha2Code d ''IT'' = Inr c \<and> Alpha2Code c = ''IT''"
proof -
  have "set (map fst default_keys) = fst ` set default_keys" by simp
  from default_dataset_complete [OF default_ids_distinct this demo_codes(1), of "\<lambda>r. r"] show ?thesis by metis
qed

section \<open>Limits\<close>

text \<open>
  When several records carry one alpha-3 code, the one visited last is found: any of them, since the map is
  visited in no fixed order. The documentation of \<^verbatim>\<open>New\<close> says the last record given wins.
\<close>

lemma alpha3_winner_by_visit_order:
  assumes "visits (ks @ [k]) d" "alpha3 (elem_of d k) \<noteq> 0"
  shows "dAlpha2IDByAlpha3ID (genCountryIndexes (ks @ [k]) d) (alpha3 (elem_of d k)) = Some k"
  unfolding genCountryIndexes_codes [OF assms(1)] using assms(2) by simp

text \<open>
  A region ID of 32 or more, which a custom dataset with more than 31 region codes produces, is packed as
  its remainder: the country then shows another region, or none, and no error is raised.
\<close>

lemma region_id_truncated: "uint (region (decodeCountryKey (encodeCountryKey e))) = uint (region e) mod 32"
  by (simp add: decode_encode_fields take_bit_eq_mod uint_mod)

end
