(* ===== verification/MY_Lock.thy ===== *)
theory MY_Lock
  imports Go_Utf8
begin

text \<open>
  \<^verbatim>\<open>pkg/mysqllock\<close> (\<^verbatim>\<open>mysqllock.go\<close>, \<^verbatim>\<open>options.go\<close>). \<open>Acquire\<close> up to the granted lock is a function of the
  answers of the database; from there on the keep-alive goroutine and the callers of the release
  function are a step relation, in which the database answers, times out and fails as it likes. What
  is sent on the lock's connection is logged. Errors of the driver are values of a type variable.
\<close>

section \<open>Configuration\<close>

datatype 'e lock_error =
    ErrNilDB | ErrInvalidKey | ErrInvalidTimeout | ErrTimeout | ErrFailed
  | ErrConn 'e | ErrScan 'e | ErrRelease 'e | ErrPing 'e
  | ErrLockLost bytes "'e lock_error" | ErrLockLostResult bytes int
  | Joined "'e lock_error" 'e | JustClose 'e

definition resLockError :: int where "resLockError = - 1"
definition resLockTimeout :: int where "resLockTimeout = 0"
definition resLockAcquired :: int where "resLockAcquired = 1"
definition maxKeyLen :: nat where "maxKeyLen = 64"

definition second :: duration where "second = 1000000000"
definition defaultKeepAliveInterval :: duration where "defaultKeepAliveInterval = 30 * second"
definition defaultKeepAlivePingTimeout :: duration where "defaultKeepAlivePingTimeout = 10 * second"
definition defaultReleaseTimeout :: duration where "defaultReleaseTimeout = 10 * second"
definition bestEffortReleaseTimeout :: duration where "bestEffortReleaseTimeout = 2 * second"

text \<open>A handler is a name; \<open>None\<close> is a nil handler.\<close>

record 'h MySQLLock =
  db_set :: bool
  keepAliveErrHandler :: "'h option"
  keepAliveInterval :: duration
  keepAlivePingTimeout :: duration
  releaseTimeout :: duration

datatype 'h LockOption =
    WithKeepAliveErrorHandler "'h option" | WithKeepAliveInterval duration
  | WithKeepAlivePingTimeout duration | WithReleaseTimeout duration

fun apply_lock_option :: "'h LockOption \<Rightarrow> 'h MySQLLock \<Rightarrow> 'h MySQLLock" where
  "apply_lock_option (WithKeepAliveErrorHandler h) l = l\<lparr>keepAliveErrHandler := h\<rparr>"
| "apply_lock_option (WithKeepAliveInterval i) l = (if 0 < i then l\<lparr>keepAliveInterval := i\<rparr> else l)"
| "apply_lock_option (WithKeepAlivePingTimeout t) l = (if 0 < t then l\<lparr>keepAlivePingTimeout := t\<rparr> else l)"
| "apply_lock_option (WithReleaseTimeout t) l = (if 0 < t then l\<lparr>releaseTimeout := t\<rparr> else l)"

definition lock_New :: "bool \<Rightarrow> 'h LockOption list \<Rightarrow> 'h MySQLLock" where
  "lock_New db opts = fold apply_lock_option opts
     \<lparr>db_set = db, keepAliveErrHandler = None, keepAliveInterval = defaultKeepAliveInterval,
      keepAlivePingTimeout = defaultKeepAlivePingTimeout, releaseTimeout = defaultReleaseTimeout\<rparr>"

text \<open>The per-acquisition options: each sets the lost-lock handler, the last one stays.\<close>

definition onLost_of :: "'h option list \<Rightarrow> 'h option" where
  "onLost_of opts = fold (\<lambda>h _. h) opts None"

section \<open>Acquiring\<close>

datatype 'e sql_event =
    Checkout | GetLock bytes duration | BestEffortRelease bytes duration
  | PingStart duration | PingEnd "'e option" | ReleaseStart bytes duration | ReleaseEnd "'e + int" | Close

text \<open>The answers of the database on the way to the lock.\<close>

record 'e answers =
  connErr :: "'e option"
  getLockAnswer :: "'e + int"
  closeErr :: "'e option"
  isContextError :: "'e \<Rightarrow> bool"

definition validateKey :: "bytes \<Rightarrow> 'e lock_error option" where
  "validateKey key = (if key = [] \<or> maxKeyLen < length (runes key) then Some ErrInvalidKey else None)"

fun closeConnection :: "'e option \<Rightarrow> 'e lock_error option \<Rightarrow> 'e lock_error option" where
  "closeConnection None err = err"
| "closeConnection (Some c) None = Some (JustClose c)"
| "closeConnection (Some c) (Some e) = Some (Joined e c)"

definition bestEffortRelease :: "'h MySQLLock \<Rightarrow> bytes \<Rightarrow> 'e sql_event" where
  "bestEffortRelease l key = BestEffortRelease key (min (releaseTimeout l) bestEffortReleaseTimeout)"

text \<open>The error, \<open>None\<close> when the connection holds the lock, and what was sent.\<close>

definition getLockedConn ::
  "'h MySQLLock \<Rightarrow> 'e answers \<Rightarrow> bytes \<Rightarrow> duration \<Rightarrow> 'e lock_error option \<times> 'e sql_event list" where
  "getLockedConn l A key timeout =
     (case connErr A of
        Some e \<Rightarrow> (Some (ErrConn e), [])
      | None \<Rightarrow>
          (case getLockAnswer A of
             Inl e \<Rightarrow>
               (closeConnection (closeErr A) (Some (ErrScan e)),
                [Checkout, GetLock key timeout] @ (if isContextError A e then [bestEffortRelease l key] else []) @ [Close])
           | Inr res \<Rightarrow>
               if res \<noteq> resLockAcquired
               then (closeConnection (closeErr A) (Some (if res = resLockTimeout then ErrTimeout else ErrFailed)),
                     [Checkout, GetLock key timeout, Close])
               else (None, [Checkout, GetLock key timeout])))"

definition Acquire ::
  "'h MySQLLock \<Rightarrow> 'e answers \<Rightarrow> bytes \<Rightarrow> duration \<Rightarrow> 'e lock_error option \<times> 'e sql_event list" where
  "Acquire l A key timeout =
     (if \<not> db_set l then (Some ErrNilDB, [])
      else (case validateKey key of
              Some e \<Rightarrow> (Some e, [])
            | None \<Rightarrow> if timeout \<le> 0 then (Some ErrInvalidTimeout, []) else getLockedConn l A key timeout))"

section \<open>Holding and releasing\<close>

text \<open>
  The keep-alive goroutine: in \<^verbatim>\<open>select\<close>, in the query, deciding whether a failed query is a lost lock,
  about to close \<^verbatim>\<open>done\<close>, running the handlers, in a call of the release function made by a handler, gone.
\<close>

datatype ('e, 'h) ka_pc =
    Selecting | Pinging | Deciding 'e | Closing "'e option" | Notifying 'e | Handling 'e "'h list"
  | HandlerReleases nat 'e "'h list" | Gone

text \<open>
  A caller of the release function: not called, at \<^verbatim>\<open>once.Do\<close>, and, for the one that runs it, before the
  cancellation, waiting for \<^verbatim>\<open>done\<close>, in the query, before the close of the connection.
\<close>

datatype 'e caller_pc =
    Uncalled | AtOnce | Cancelling | Awaiting | Releasing | ClosingConn "'e lock_error option"
  | Returned "'e lock_error option"

datatype 'e once_state = Unused | Running nat | Used "'e lock_error option"

record ('e, 'h) held =
  cancelled :: bool
  done_closed :: bool
  ka :: "('e, 'h) ka_pc"
  once :: "'e once_state"
  caller :: "nat \<Rightarrow> 'e caller_pc"
  sent :: "'e sql_event list"
  notices :: "('h \<times> 'e lock_error) list"

definition initial_held :: "('e, 'h) held" where
  "initial_held = \<lparr>cancelled = False, done_closed = False, ka = Selecting, once = Unused, caller = (\<lambda>_. Uncalled),
     sent = [], notices = []\<rparr>"

definition release_result :: "bytes \<Rightarrow> 'e + int \<Rightarrow> 'e lock_error option" where
  "release_result key answer =
     (case answer of
        Inl e \<Rightarrow> Some (ErrRelease e)
      | Inr res \<Rightarrow> if res \<noteq> resLockAcquired then Some (ErrLockLostResult key res) else None)"

definition handlers :: "'h MySQLLock \<Rightarrow> 'h option \<Rightarrow> 'h list" where
  "handlers l onLost = List.map_filter id [keepAliveErrHandler l, onLost]"

definition send :: "'e sql_event \<Rightarrow> ('e, 'h) held \<Rightarrow> ('e, 'h) held" where
  "send ev s = s\<lparr>sent := sent s @ [ev]\<rparr>"

definition set_caller :: "nat \<Rightarrow> 'e caller_pc \<Rightarrow> ('e, 'h) held \<Rightarrow> ('e, 'h) held" where
  "set_caller i pc s = s\<lparr>caller := (caller s)(i := pc)\<rparr>"

inductive hstep :: "'h MySQLLock \<Rightarrow> 'h option \<Rightarrow> bytes \<Rightarrow> ('e, 'h) held \<Rightarrow> ('e, 'h) held \<Rightarrow> bool"
  for l onLost key where
  tick: "ka s = Selecting \<Longrightarrow> hstep l onLost key s (send (PingStart (keepAlivePingTimeout l)) (s\<lparr>ka := Pinging\<rparr>))"
| ping_ok: "ka s = Pinging \<Longrightarrow> hstep l onLost key s (send (PingEnd None) (s\<lparr>ka := Selecting\<rparr>))"
| ping_fails: "ka s = Pinging \<Longrightarrow> hstep l onLost key s (send (PingEnd (Some e)) (s\<lparr>ka := Deciding e\<rparr>))"
| ctx_done: "ka s = Selecting \<Longrightarrow> cancelled s \<Longrightarrow> hstep l onLost key s (s\<lparr>ka := Closing None\<rparr>)"
| verdict: "ka s = Deciding e \<Longrightarrow> hstep l onLost key s (s\<lparr>ka := Closing (if cancelled s then None else Some e)\<rparr>)"
| close_done: "ka s = Closing v \<Longrightarrow>
    hstep l onLost key s (s\<lparr>done_closed := True, ka := (case v of None \<Rightarrow> Gone | Some e \<Rightarrow> Notifying e)\<rparr>)"
| notify: "ka s = Notifying e \<Longrightarrow> hstep l onLost key s (s\<lparr>ka := Handling e (handlers l onLost)\<rparr>)"
| handler_returns: "ka s = Handling e (h # hs) \<Longrightarrow>
    hstep l onLost key s (s\<lparr>ka := Handling e hs, notices := notices s @ [(h, ErrLockLost key (ErrPing e))]\<rparr>)"
| handler_releases: "ka s = Handling e (h # hs) \<Longrightarrow> caller s i = Uncalled \<Longrightarrow>
    hstep l onLost key s (set_caller i AtOnce
      (s\<lparr>ka := HandlerReleases i e hs, notices := notices s @ [(h, ErrLockLost key (ErrPing e))]\<rparr>))"
| handler_released: "ka s = HandlerReleases i e hs \<Longrightarrow> caller s i = Returned r \<Longrightarrow>
    hstep l onLost key s (s\<lparr>ka := Handling e hs\<rparr>)"
| handled: "ka s = Handling e [] \<Longrightarrow> hstep l onLost key s (s\<lparr>ka := Gone\<rparr>)"
| call: "caller s i = Uncalled \<Longrightarrow> hstep l onLost key s (set_caller i AtOnce s)"
| once_first: "caller s i = AtOnce \<Longrightarrow> once s = Unused \<Longrightarrow>
    hstep l onLost key s (set_caller i Cancelling (s\<lparr>once := Running i\<rparr>))"
| once_later: "caller s i = AtOnce \<Longrightarrow> once s = Used r \<Longrightarrow> hstep l onLost key s (set_caller i (Returned r) s)"
| cancel: "caller s i = Cancelling \<Longrightarrow> hstep l onLost key s (set_caller i Awaiting (s\<lparr>cancelled := True\<rparr>))"
| await: "caller s i = Awaiting \<Longrightarrow> done_closed s \<Longrightarrow>
    hstep l onLost key s (set_caller i Releasing (send (ReleaseStart key (releaseTimeout l)) s))"
| release: "caller s i = Releasing \<Longrightarrow>
    hstep l onLost key s (set_caller i (ClosingConn (release_result key answer)) (send (ReleaseEnd answer) s))"
| close_conn: "caller s i = ClosingConn err \<Longrightarrow>
    hstep l onLost key s
      (let r = closeConnection cerr err in set_caller i (Returned r) (send Close (s\<lparr>once := Used r\<rparr>)))"

abbreviation hsteps :: "'h MySQLLock \<Rightarrow> 'h option \<Rightarrow> bytes \<Rightarrow> ('e, 'h) held \<Rightarrow> ('e, 'h) held \<Rightarrow> bool" where
  "hsteps l onLost key \<equiv> (hstep l onLost key)\<^sup>*\<^sup>*"

end
