(* ===== verification/MY_Proofs.thy ===== *)
theory MY_Proofs
  imports MY_Lock "HOL-Library.Sublist"
begin

text \<open>
  The invariant of a held lock of \<^verbatim>\<open>pkg/mysqllock\<close>: what the connection sees is a word of a small automaton,
  the phase of the automaton fits the keep-alive goroutine and the release in progress, and the handlers
  are called in order, once each. And that a call of the release function can always return.
\<close>

section \<open>Legal use of the connection\<close>

datatype 'e phase = Quiet | InPing | PingFailed 'e | InRelease | Released | Closed

fun conn_step :: "'e sql_event \<Rightarrow> 'e phase \<Rightarrow> 'e phase option" where
  "conn_step (PingStart _) Quiet = Some InPing"
| "conn_step (PingEnd None) InPing = Some Quiet"
| "conn_step (PingEnd (Some e)) InPing = Some (PingFailed e)"
| "conn_step (ReleaseStart _ _) Quiet = Some InRelease"
| "conn_step (ReleaseStart _ _) (PingFailed e) = Some InRelease"
| "conn_step (ReleaseEnd _) InRelease = Some Released"
| "conn_step Close Released = Some Closed"
| "conn_step _ _ = None"

definition conn_run :: "'e sql_event list \<Rightarrow> 'e phase option" where
  "conn_run evs = foldl (\<lambda>p ev. Option.bind p (conn_step ev)) (Some Quiet) evs"

lemma conn_run_simps [simp]: "conn_run [] = Some Quiet" "conn_run (evs @ [ev]) = Option.bind (conn_run evs) (conn_step ev)"
  by (simp_all add: conn_run_def)

lemma phase_failed_seen: "conn_run evs = Some (PingFailed e) \<Longrightarrow> PingEnd (Some e) \<in> set evs"
proof (induction evs rule: rev_induct)
  case (snoc ev evs)
  then obtain ph where "conn_run evs = Some ph" "conn_step ev ph = Some (PingFailed e)" by (auto simp: bind_eq_Some_conv)
  then show ?case by (cases "(ev, ph)" rule: conn_step.cases) auto
qed simp

section \<open>Invariant\<close>

fun late :: "'e phase \<Rightarrow> bool" where
  "late InRelease = True" | "late Released = True" | "late Closed = True" | "late _ = False"

fun ka_done :: "('e, 'h) ka_pc \<Rightarrow> bool" where
  "ka_done (Notifying e) = True" | "ka_done (Handling e hs) = True" | "ka_done (HandlerReleases i e hs) = True"
| "ka_done Gone = True" | "ka_done _ = False"

fun ka_phase :: "('e, 'h) ka_pc \<Rightarrow> 'e phase \<Rightarrow> bool" where
  "ka_phase Selecting ph \<longleftrightarrow> ph = Quiet"
| "ka_phase Pinging ph \<longleftrightarrow> ph = InPing"
| "ka_phase (Deciding e) ph \<longleftrightarrow> ph = PingFailed e"
| "ka_phase (Closing None) ph \<longleftrightarrow> ph = Quiet \<or> (\<exists>e. ph = PingFailed e)"
| "ka_phase (Closing (Some e)) ph \<longleftrightarrow> ph = PingFailed e"
| "ka_phase (Notifying e) ph \<longleftrightarrow> ph = PingFailed e \<or> late ph"
| "ka_phase (Handling e hs) ph \<longleftrightarrow> ph = PingFailed e \<or> late ph"
| "ka_phase (HandlerReleases i e hs) ph \<longleftrightarrow> ph = PingFailed e \<or> late ph"
| "ka_phase Gone ph \<longleftrightarrow> ph \<noteq> InPing"

fun once_ok :: "'e once_state \<Rightarrow> (nat \<Rightarrow> 'e caller_pc) \<Rightarrow> bool \<Rightarrow> 'e phase \<Rightarrow> bool" where
  "once_ok Unused c x ph \<longleftrightarrow> (\<forall>j. c j = Uncalled \<or> c j = AtOnce) \<and> \<not> x \<and> \<not> late ph"
| "once_ok (Running i) c x ph \<longleftrightarrow> (\<forall>j. j \<noteq> i \<longrightarrow> c j = Uncalled \<or> c j = AtOnce)
     \<and> (c i = Cancelling \<and> \<not> x \<and> \<not> late ph \<or> c i = Awaiting \<and> x \<and> \<not> late ph \<or> c i = Releasing \<and> x \<and> ph = InRelease
        \<or> (\<exists>err. c i = ClosingConn err) \<and> x \<and> ph = Released)"
| "once_ok (Used r) c x ph \<longleftrightarrow> (\<forall>j. c j = Uncalled \<or> c j = AtOnce \<or> c j = Returned r) \<and> x \<and> ph = Closed"

definition notice_list :: "bytes \<Rightarrow> 'e \<Rightarrow> 'h list \<Rightarrow> ('h \<times> 'e lock_error) list" where
  "notice_list key e hs = map (\<lambda>h. (h, ErrLockLost key (ErrPing e))) hs"

fun notice_ok :: "bytes \<Rightarrow> 'h list \<Rightarrow> ('e, 'h) ka_pc \<Rightarrow> 'e sql_event list \<Rightarrow> ('h \<times> 'e lock_error) list \<Rightarrow> bool" where
  "notice_ok key H (Handling e hs) evs ns \<longleftrightarrow>
     PingEnd (Some e) \<in> set evs \<and> (\<exists>ds. H = ds @ hs \<and> ns = notice_list key e ds)"
| "notice_ok key H (HandlerReleases i e hs) evs ns \<longleftrightarrow>
     PingEnd (Some e) \<in> set evs \<and> (\<exists>ds. H = ds @ hs \<and> ns = notice_list key e ds)"
| "notice_ok key H Gone evs ns \<longleftrightarrow> ns = [] \<or> (\<exists>e. PingEnd (Some e) \<in> set evs \<and> ns = notice_list key e H)"
| "notice_ok key H (Deciding e) evs ns \<longleftrightarrow> PingEnd (Some e) \<in> set evs \<and> ns = []"
| "notice_ok key H (Closing (Some e)) evs ns \<longleftrightarrow> PingEnd (Some e) \<in> set evs \<and> ns = []"
| "notice_ok key H (Notifying e) evs ns \<longleftrightarrow> PingEnd (Some e) \<in> set evs \<and> ns = []"
| "notice_ok key H _ evs ns \<longleftrightarrow> ns = []"

definition held_inv :: "bytes \<Rightarrow> 'h list \<Rightarrow> ('e, 'h) held \<Rightarrow> bool" where
  "held_inv key H s \<longleftrightarrow> (\<exists>ph. conn_run (sent s) = Some ph \<and> ka_phase (ka s) ph \<and> (done_closed s \<longleftrightarrow> ka_done (ka s))
     \<and> once_ok (once s) (caller s) (cancelled s) ph) \<and> notice_ok key H (ka s) (sent s) (notices s)
     \<and> (\<forall>i e hs. ka s = HandlerReleases i e hs \<longrightarrow> caller s i \<noteq> Uncalled)"

lemma notice_more: "notice_ok key H k evs ns \<Longrightarrow> notice_ok key H k (evs @ evs') ns"
  by (cases "(key, H, k, evs, ns)" rule: notice_ok.cases) auto

lemma initial_held_inv: "held_inv key H initial_held"
  by (simp add: held_inv_def initial_held_def)

lemmas held_simps = send_def set_caller_def held_inv_def

lemma late_cases: "\<not> late ph \<longleftrightarrow> ph = Quiet \<or> ph = InPing \<or> (\<exists>e. ph = PingFailed e)"
  by (cases ph) auto

text \<open>Steps of the keep-alive goroutine.\<close>

lemma once_ok_not_late: "once_ok u c x ph \<Longrightarrow> \<not> late ph \<Longrightarrow> \<not> late ph' \<Longrightarrow> once_ok u c x ph'"
  by (cases "(u, c, x, ph)" rule: once_ok.cases) auto

lemma once_ok_call: "once_ok u c x ph \<Longrightarrow> c i = Uncalled \<Longrightarrow> once_ok u (c(i := AtOnce)) x ph"
  by (cases "(u, c, x, ph)" rule: once_ok.cases) auto

lemma runner:
  assumes "once_ok u c x ph" "c i \<noteq> Uncalled" "c i \<noteq> AtOnce" "\<And>r. c i \<noteq> Returned r"
  shows "u = Running i"
proof (cases u)
  case (Running j)
  then have "\<forall>k. k \<noteq> j \<longrightarrow> c k = Uncalled \<or> c k = AtOnce" using assms(1) by simp
  with Running assms(2,3) show ?thesis by metis
next
  case (Used r)
  with assms(1) have "c i = Uncalled \<or> c i = AtOnce \<or> c i = Returned r" by simp
  with assms(2-4) show ?thesis by blast
qed (use assms in auto)

lemma running_state:
  assumes "held_inv key H s" "caller s i = pc" "pc \<noteq> Uncalled" "pc \<noteq> AtOnce" "\<And>r. pc \<noteq> Returned r"
  shows "once s = Running i"
  using assms runner unfolding held_inv_def by metis

text \<open>The connection is quiet, or its last ping failed, once \<^verbatim>\<open>done\<close> is closed and no release has begun.\<close>

lemma done_phase: "ka_phase k ph \<Longrightarrow> ka_done k \<Longrightarrow> \<not> late ph \<Longrightarrow> ph = Quiet \<or> (\<exists>e. ph = PingFailed e)"
  by (cases k; cases ph) auto

lemma done_late: "ka_phase k ph \<Longrightarrow> ka_done k \<Longrightarrow> late ph' \<Longrightarrow> ka_phase k ph'"
  by (cases k; cases ph') auto

lemma late_late: "ka_phase k ph \<Longrightarrow> late ph \<Longrightarrow> late ph' \<Longrightarrow> ka_phase k ph'"
  by (cases "(k, ph)" rule: ka_phase.cases; cases ph') auto

lemma hstep_inv:
  assumes "hstep l onLost key s t" "held_inv key (handlers l onLost) s"
  shows "held_inv key (handlers l onLost) t"
  using assms
proof (induction rule: hstep.induct)
  case (tick s)
  then have "conn_run (sent s) = Some Quiet" "\<not> done_closed s" "once_ok (once s) (caller s) (cancelled s) Quiet"
    "notices s = []" by (auto simp: held_inv_def)
  then show ?case using once_ok_not_late [of _ _ _ Quiet InPing] by (simp add: held_simps)
next
  case (ping_ok s)
  then have "conn_run (sent s) = Some InPing" "\<not> done_closed s" "once_ok (once s) (caller s) (cancelled s) InPing"
    "notices s = []" by (auto simp: held_inv_def)
  then show ?case using once_ok_not_late [of _ _ _ InPing Quiet] by (simp add: held_simps)
next
  case (ping_fails s e)
  then have "conn_run (sent s) = Some InPing" "\<not> done_closed s" "once_ok (once s) (caller s) (cancelled s) InPing"
    "notices s = []" by (auto simp: held_inv_def)
  then show ?case using once_ok_not_late [of _ _ _ InPing "PingFailed e"] by (simp add: held_simps)
next
  case (ctx_done s)
  then show ?case by (auto simp: held_inv_def)
next
  case (verdict s e)
  then show ?case by (auto simp: held_inv_def)
next
  case (close_done s v)
  then show ?case by (cases v) (auto simp: held_inv_def)
next
  case (notify s e)
  then show ?case by (auto simp: held_inv_def notice_list_def)
next
  case (handler_returns s e h hs)
  then show ?case by (fastforce simp: held_inv_def notice_list_def)
next
  case (handler_releases s e h hs i)
  then obtain ph where "conn_run (sent s) = Some ph" "ph = PingFailed e \<or> late ph" "done_closed s"
      "once_ok (once s) (caller s) (cancelled s) ph" by (auto simp: held_inv_def)
  moreover from this have "once_ok (once s) ((caller s)(i := AtOnce)) (cancelled s) ph"
    using handler_releases(2) once_ok_call by blast
  moreover obtain ds where "PingEnd (Some e) \<in> set (sent s)" "handlers l onLost = ds @ h # hs" "notices s = notice_list key e ds"
    using handler_releases by (auto simp: held_inv_def)
  ultimately show ?case by (fastforce simp: held_simps notice_list_def)
next
  case (handler_released s i e hs r)
  then show ?case by (auto simp: held_inv_def)
next
  case (handled s e)
  then show ?case by (auto simp: held_inv_def)
next
  case (call s i)
  then show ?case using once_ok_call by (fastforce simp: held_simps)
next
  case (once_first s i)
  then show ?case by (auto simp: held_simps)
next
  case (once_later s i r)
  then show ?case by (auto simp: held_simps)
next
  case (cancel s i)
  then have "once s = Running i" using running_state by fastforce
  then show ?case using cancel by (fastforce simp: held_simps)
next
  case (await s i)
  then have o: "once s = Running i" using running_state by fastforce
  then obtain ph where ph: "conn_run (sent s) = Some ph" "ka_phase (ka s) ph" "ka_done (ka s)" "\<not> late ph"
      "\<forall>j. j \<noteq> i \<longrightarrow> caller s j = Uncalled \<or> caller s j = AtOnce" "cancelled s"
    using await by (auto simp: held_inv_def)
  have "conn_step (ReleaseStart key (releaseTimeout l)) ph = Some InRelease" using done_phase [OF ph(2-4)] by auto
  then show ?case
    using await o ph done_late [OF ph(2,3), of InRelease] notice_more by (fastforce simp: held_simps)
next
  case (release s i answer)
  then have o: "once s = Running i" using running_state by fastforce
  then have ph: "conn_run (sent s) = Some InRelease" "ka_phase (ka s) InRelease"
      "\<forall>j. j \<noteq> i \<longrightarrow> caller s j = Uncalled \<or> caller s j = AtOnce" "cancelled s" "done_closed s = ka_done (ka s)"
    using release by (auto simp: held_inv_def)
  then have "ka_phase (ka s) Released" using late_late [of _ InRelease Released] by simp
  then show ?case using release o ph notice_more by (fastforce simp: held_simps)
next
  case (close_conn s i err cerr)
  then have o: "once s = Running i" using running_state by fastforce
  then have ph: "conn_run (sent s) = Some Released" "ka_phase (ka s) Released"
      "\<forall>j. j \<noteq> i \<longrightarrow> caller s j = Uncalled \<or> caller s j = AtOnce" "cancelled s" "done_closed s = ka_done (ka s)"
    using close_conn by (auto simp: held_inv_def)
  then have "ka_phase (ka s) Closed" using late_late [of _ Released Closed] by simp
  then show ?case using close_conn o ph notice_more by (fastforce simp: held_simps Let_def)
qed

lemma reachable_held_inv: "hsteps l onLost key initial_held s \<Longrightarrow> held_inv key (handlers l onLost) s"
  by (induction rule: rtranclp_induct) (auto simp: initial_held_inv hstep_inv)

section \<open>Calls of the release function can return\<close>

text \<open>After the cancellation the keep-alive goroutine can close \<^verbatim>\<open>done\<close> on its own.\<close>

lemma done_can_close:
  assumes "cancelled s"
  shows "\<exists>t. hsteps l onLost key s t \<and> ka_done (ka t) \<and> (ka_done (ka s) \<or> done_closed t) \<and> (done_closed s \<longrightarrow> done_closed t)
    \<and> cancelled t \<and> once t = once s \<and> caller t = caller s"
proof -
  have closing: "\<exists>t. hsteps l onLost key s t \<and> ka_done (ka t) \<and> done_closed t \<and> cancelled t \<and> once t = once s \<and> caller t = caller s"
    if "ka s = Closing v" "cancelled s" for s :: "('a, 'b) held" and v
    using hstep.close_done [of s v l onLost key] that
    by (intro exI [of _ "s\<lparr>done_closed := True, ka := (case v of None \<Rightarrow> Gone | Some e \<Rightarrow> Notifying e)\<rparr>"])
      (auto split: option.splits)
  have selecting: "\<exists>t. hsteps l onLost key s t \<and> ka_done (ka t) \<and> done_closed t \<and> cancelled t \<and> once t = once s \<and> caller t = caller s"
    if "ka s = Selecting" "cancelled s" for s :: "('a, 'b) held"
    using hstep.ctx_done [of s l onLost key] closing [of "s\<lparr>ka := Closing None\<rparr>" None] that
    by (auto intro: converse_rtranclp_into_rtranclp)
  show ?thesis
  proof (cases "ka s")
    case Selecting
    then show ?thesis using selecting [OF _ assms] by blast
  next
    case Pinging
    let ?s = "send (PingEnd None) (s\<lparr>ka := Selecting\<rparr>)"
    have "hstep l onLost key s ?s" using Pinging by (rule hstep.ping_ok)
    moreover have "ka ?s = Selecting" "cancelled ?s" "once ?s = once s" "caller ?s = caller s"
      using assms by (simp_all add: send_def)
    ultimately show ?thesis using selecting [of ?s] by (metis converse_rtranclp_into_rtranclp)
  next
    case (Deciding e)
    let ?s = "s\<lparr>ka := Closing (if cancelled s then None else Some e)\<rparr>"
    have "hstep l onLost key s ?s" using Deciding by (rule hstep.verdict)
    then show ?thesis using closing [of ?s] assms by (auto intro: converse_rtranclp_into_rtranclp)
  next
    case (Closing v)
    then show ?thesis using closing [OF _ assms] by blast
  qed (use assms in auto)
qed

text \<open>From there the caller that runs the release can finish it.\<close>

definition finishes :: "'h MySQLLock \<Rightarrow> 'h option \<Rightarrow> bytes \<Rightarrow> nat \<Rightarrow> ('e, 'h) held \<Rightarrow> bool" where
  "finishes l onLost key i s \<longleftrightarrow> (\<exists>t r. hsteps l onLost key s t \<and> once t = Used r \<and> caller t i = Returned r
     \<and> (\<forall>j. j \<noteq> i \<longrightarrow> caller t j = caller s j))"

lemma finishes_later:
  assumes "hsteps l onLost key s s'" "finishes l onLost key i s'" "\<And>j. j \<noteq> i \<Longrightarrow> caller s' j = caller s j"
  shows "finishes l onLost key i s"
proof -
  obtain t r where t: "hsteps l onLost key s' t" "once t = Used r" "caller t i = Returned r"
      "\<forall>j. j \<noteq> i \<longrightarrow> caller t j = caller s' j" using assms(2) unfolding finishes_def by blast
  have "hsteps l onLost key s t" using assms(1) t(1) by (rule rtranclp_trans)
  then show ?thesis using t(2-4) assms(3) unfolding finishes_def by metis
qed

lemma finish_closing:
  assumes "caller s i = ClosingConn err"
  shows "finishes l onLost key i s"
proof -
  let ?t = "let r = closeConnection None err in set_caller i (Returned r) (send Close (s\<lparr>once := Used r\<rparr>))"
  have "hstep l onLost key s ?t" using assms by (rule hstep.close_conn)
  moreover have "once ?t = Used err" "caller ?t i = Returned err" "\<forall>j. j \<noteq> i \<longrightarrow> caller ?t j = caller s j"
    by (simp_all add: Let_def set_caller_def send_def)
  ultimately show ?thesis unfolding finishes_def by blast
qed

lemma finish_releasing:
  assumes "caller s i = Releasing"
  shows "finishes l onLost key i s"
proof -
  let ?t = "set_caller i (ClosingConn (release_result key (Inr 1))) (send (ReleaseEnd (Inr 1)) s)"
  have "hstep l onLost key s ?t" using assms by (rule hstep.release)
  moreover have "caller ?t i = ClosingConn (release_result key (Inr 1))" "\<And>j. j \<noteq> i \<Longrightarrow> caller ?t j = caller s j"
    by (simp_all add: set_caller_def send_def)
  ultimately show ?thesis by (blast intro: finishes_later finish_closing r_into_rtranclp)
qed

lemma finish_awaiting:
  assumes "caller s i = Awaiting" "cancelled s" "ka_done (ka s) \<Longrightarrow> done_closed s"
  shows "finishes l onLost key i s"
proof -
  obtain t where t: "hsteps l onLost key s t" "done_closed t" "caller t = caller s"
    using done_can_close [OF assms(2)] assms(3) by metis
  let ?u = "set_caller i Releasing (send (ReleaseStart key (releaseTimeout l)) t)"
  have "hstep l onLost key t ?u" using assms(1) t(2,3) by (intro hstep.await) simp_all
  with t(1) have "hsteps l onLost key s ?u" by (rule rtranclp.rtrancl_into_rtrancl)
  moreover have "caller ?u i = Releasing" "\<And>j. j \<noteq> i \<Longrightarrow> caller ?u j = caller s j"
    using t(3) by (simp_all add: set_caller_def send_def)
  ultimately show ?thesis by (blast intro: finishes_later finish_releasing)
qed

lemma runner_can_finish:
  assumes inv: "held_inv key (handlers l onLost) s" and run: "once s = Running i"
  shows "finishes l onLost key i s"
proof -
  have ok: "caller s i = Cancelling \<or> caller s i = Awaiting \<and> cancelled s \<or> caller s i = Releasing \<or> (\<exists>err. caller s i = ClosingConn err)"
      "ka_done (ka s) \<Longrightarrow> done_closed s"
    using inv run by (auto simp: held_inv_def)
  from ok(1) consider "caller s i = Cancelling" | "caller s i = Awaiting" "cancelled s" | "caller s i = Releasing"
    | err where "caller s i = ClosingConn err" by blast
  then show ?thesis
  proof cases
    case 1
    let ?t = "set_caller i Awaiting (s\<lparr>cancelled := True\<rparr>)"
    have "hstep l onLost key s ?t" using 1 by (rule hstep.cancel)
    moreover have "finishes l onLost key i ?t" using ok(2) by (intro finish_awaiting) (simp_all add: set_caller_def)
    moreover have "\<And>j. j \<noteq> i \<Longrightarrow> caller ?t j = caller s j" by (simp add: set_caller_def)
    ultimately show ?thesis by (blast intro: finishes_later r_into_rtranclp)
  qed (blast intro: finish_awaiting finish_releasing finish_closing ok(2))+
qed

lemma release_can_return:
  assumes inv: "held_inv key (handlers l onLost) s" and called: "caller s i \<noteq> Uncalled"
  shows "\<exists>t r. hsteps l onLost key s t \<and> caller t i = Returned r"
proof -
  have late: "\<exists>t r. hsteps l onLost key s t \<and> caller t i = Returned r"
    if steps: "hsteps l onLost key s u" and used: "once u = Used r" and at: "caller u i = AtOnce" for u r
    using rtranclp.rtrancl_into_rtrancl [OF steps hstep.once_later [OF at used]] by (fastforce simp: set_caller_def)
  show ?thesis
  proof (cases "caller s i = AtOnce")
    case True
    show ?thesis
    proof (cases "once s")
      case Unused
      let ?u = "set_caller i Cancelling (s\<lparr>once := Running i\<rparr>)"
      have st: "hstep l onLost key s ?u" using True Unused by (rule hstep.once_first)
      have "finishes l onLost key i ?u"
        by (rule runner_can_finish [OF hstep_inv [OF st inv]]) (simp add: set_caller_def)
      then show ?thesis using st unfolding finishes_def by (meson converse_rtranclp_into_rtranclp)
    next
      case (Running j)
      obtain t r where t: "hsteps l onLost key s t" "once t = Used r" "caller t j = Returned r"
          "\<forall>k. k \<noteq> j \<longrightarrow> caller t k = caller s k" using runner_can_finish [OF inv Running] unfolding finishes_def by blast
      show ?thesis
      proof (cases "i = j")
        case False
        then show ?thesis using late [OF t(1,2)] t(4) True by simp
      qed (use t in blast)
    next
      case (Used r)
      then show ?thesis using late [of s r] True by blast
    qed
  next
    case False
    show ?thesis
    proof (cases "\<exists>r. caller s i = Returned r")
      case ret: False
      then have "once s = Running i" using running_state [OF inv refl called False] by blast
      then show ?thesis using runner_can_finish [OF inv] unfolding finishes_def by blast
    qed blast
  qed
qed

end
