(* ===== verification/MY_Props.thy ===== *)
theory MY_Props
  imports MY_Proofs
begin

text \<open>The properties of \<^verbatim>\<open>pkg/mysqllock\<close>, with their witnesses.\<close>

section \<open>Acquiring\<close>

text \<open>
  \<^verbatim>\<open>Acquire\<close> succeeds exactly when the input is valid and the database grants the lock; a failed attempt that
  had checked out a connection closes it, once and last, and only after a context error tries to release.
\<close>

lemma closeConnection_error [simp]: "closeConnection c (Some e) \<noteq> None" "\<exists>y. closeConnection c (Some e) = Some y"
  by (cases c; simp)+

lemma acquire_outcomes:
  assumes "Acquire l A key timeout = (r, evs)"
  shows "r = None \<longleftrightarrow> db_set l \<and> key \<noteq> [] \<and> length (runes key) \<le> 64 \<and> 0 < timeout \<and> connErr A = None \<and> getLockAnswer A = Inr 1"
    "r = None \<Longrightarrow> evs = [Checkout, GetLock key timeout]"
    "r \<noteq> None \<Longrightarrow> evs = [] \<or> (\<exists>mid. evs = Checkout # GetLock key timeout # mid @ [Close] \<and> Close \<notin> set mid
       \<and> (mid \<noteq> [] \<longrightarrow> (\<exists>e. getLockAnswer A = Inl e \<and> isContextError A e)))"
  using assms
  by (auto simp: Acquire_def getLockedConn_def validateKey_def maxKeyLen_def resLockAcquired_def bestEffortRelease_def
      split: if_splits option.splits sum.splits)

section \<open>Holding and releasing\<close>

lemma notice_prefix:
  assumes "notice_ok key H k evs ns" "ns \<noteq> []"
  shows "\<exists>e ds hs. PingEnd (Some e) \<in> set evs \<and> H = ds @ hs \<and> ns = map (\<lambda>h. (h, ErrLockLost key (ErrPing e))) ds"
proof (cases "k = Gone")
  case True
  then have "\<exists>e. PingEnd (Some e) \<in> set evs \<and> ns = notice_list key e H" using assms by simp
  then show ?thesis unfolding notice_list_def by (metis append_Nil2)
next
  case False
  then show ?thesis
    using assms by (cases "(key, H, k, evs, ns)" rule: notice_ok.cases) (auto simp: notice_list_def)
qed

text \<open>
  C12: from the moment the lock is granted, however the keep-alive goroutine and the callers of the release
  function interleave and whatever the database answers: keep-alive queries and \<^verbatim>\<open>RELEASE_LOCK\<close> never overlap on
  the connection, no keep-alive query follows a failed one or the start of the release, \<^verbatim>\<open>RELEASE_LOCK\<close> is sent at most
  once and the connection is closed once, after it; all calls of the release function that have returned gave the
  same result, and the connection was closed before; the loss of the lock is only reported after a failed keep-alive
  query, to the configured handlers in order and at most once each; and every call of the release function, one
  made by a handler included, can return.
\<close>

theorem lock_protocol:
  assumes "hsteps l onLost key initial_held s"
  shows "conn_run (sent s) \<noteq> None
    \<and> (caller s i = Returned r \<longrightarrow> conn_run (sent s) = Some Closed \<and> (caller s j = Returned r' \<longrightarrow> r' = r))
    \<and> (notices s \<noteq> [] \<longrightarrow> (\<exists>e ds hs. PingEnd (Some e) \<in> set (sent s) \<and> handlers l onLost = ds @ hs
          \<and> notices s = map (\<lambda>h. (h, ErrLockLost key (ErrPing e))) ds))
    \<and> (caller s i \<noteq> Uncalled \<longrightarrow> (\<exists>t r. hsteps l onLost key s t \<and> caller t i = Returned r))"
proof -
  have inv: "held_inv key (handlers l onLost) s" using assms by (rule reachable_held_inv)
  then obtain ph where ph: "conn_run (sent s) = Some ph" "once_ok (once s) (caller s) (cancelled s) ph"
      and no: "notice_ok key (handlers l onLost) (ka s) (sent s) (notices s)" unfolding held_inv_def by blast
  have ret: "once s = Used r \<and> ph = Closed" if "caller s i = Returned r" for i r
  proof (cases "once s")
    case (Running j)
    then show ?thesis using ph(2) that by (cases "i = j") auto
  next
    case Unused
    then show ?thesis using ph(2) that by (metis caller_pc.distinct(11) caller_pc.distinct(21) once_ok.simps(1))
  next
    case (Used r')
    then have "caller s i = Uncalled \<or> caller s i = AtOnce \<or> caller s i = Returned r'" "ph = Closed" using ph(2) by auto
    then show ?thesis using that Used by simp
  qed
  show ?thesis
    using ph(1) ret notice_prefix [OF no] release_can_return [OF inv] by (metis once_state.inject(2) option.simps(3))
qed

definition demo_lock :: "nat MySQLLock" where
  "demo_lock = lock_New True [WithKeepAliveErrorHandler (Some 7)]"

definition demo_pinging :: "(nat, nat) held" where
  "demo_pinging = send (PingStart (keepAlivePingTimeout demo_lock)) (initial_held\<lparr>ka := Pinging\<rparr>)"

definition demo_failed :: "(nat, nat) held" where
  "demo_failed = send (PingEnd (Some 3)) (demo_pinging\<lparr>ka := Deciding 3\<rparr>)"

definition demo_held :: "(nat, nat) held" where
  "demo_held = set_caller 0 AtOnce demo_failed"

lemma demo_held_reachable: "hsteps demo_lock None ''job'' initial_held demo_held"
proof -
  have "hstep demo_lock None ''job'' initial_held demo_pinging"
    unfolding demo_pinging_def by (rule hstep.tick) (simp add: initial_held_def)
  then have 1: "hsteps demo_lock None ''job'' initial_held demo_pinging" by (rule r_into_rtranclp)
  have "hstep demo_lock None ''job'' demo_pinging demo_failed"
    unfolding demo_failed_def by (rule hstep.ping_fails) (simp add: demo_pinging_def send_def)
  with 1 have 2: "hsteps demo_lock None ''job'' initial_held demo_failed" by (rule rtranclp.rtrancl_into_rtrancl)
  have "hstep demo_lock None ''job'' demo_failed demo_held"
    unfolding demo_held_def
    by (rule hstep.call) (simp add: demo_failed_def demo_pinging_def send_def initial_held_def)
  with 2 show ?thesis by (rule rtranclp.rtrancl_into_rtrancl)
qed

theorem lock_protocol_witness:
  "conn_run (sent demo_held) \<noteq> None \<and> (\<exists>t r. hsteps demo_lock None ''job'' demo_held t \<and> caller t 0 = Returned r)"
proof -
  have "caller demo_held 0 \<noteq> Uncalled" by (simp add: demo_held_def set_caller_def)
  then show ?thesis using lock_protocol [OF demo_held_reachable, of 0] by blast
qed

end
