(* ===== verification/SM_Metric.thy ===== *)
theory SM_Metric
  imports Go_Utf8
begin

text \<open>
  \<^verbatim>\<open>pkg/stringmetric\<close>: the Damerau-Levenshtein distance. The code's matrix, flattened into one slice, its map of
  last rows and its nested loops are translated as they are; the lemmas show that the matrix holds the
  values of the recursive definition \<open>dl\<close>, and what \<open>dl\<close> satisfies.
\<close>

section \<open>The code\<close>

definition initDLAlphabet :: "nat list \<Rightarrow> nat list \<Rightarrow> nat \<rightharpoonup> nat" where
  "initDLAlphabet ra rb = foldl (\<lambda>da c. da(c \<mapsto> 1)) (foldl (\<lambda>da c. da(c \<mapsto> 1)) Map.empty ra) rb"

text \<open>Reading a missing key of a map gives zero.\<close>

definition map_read :: "('k \<rightharpoonup> nat) \<Rightarrow> 'k \<Rightarrow> nat" where
  "map_read m k = (case m k of None \<Rightarrow> 0 | Some v \<Rightarrow> v)"

definition initDLMatrix :: "nat \<Rightarrow> nat \<Rightarrow> int \<Rightarrow> int list" where
  "initDLMatrix nrows ncols maxdist =
     (let d0 = replicate (nrows * ncols) 0;
          d1 = foldl (\<lambda>d i. (d[i * ncols := maxdist])[i * ncols + 1 := int i - 1]) d0 [0 ..< nrows];
          d2 = d1[1 := maxdist]
      in foldl (\<lambda>d j. (d[j := maxdist])[ncols + j := int j - 1]) d2 [2 ..< ncols])"

text \<open>
  \<open>k\<close> and \<open>l\<close> are at least 1 wherever the loops of \<^verbatim>\<open>DLDistance\<close> run a cell (they are values of
  \<open>shifted\<close>, see \<open>dl_cell_filled\<close>), so \<open>k - 1\<close> and \<open>l - 1\<close> are the differences of the code.
\<close>

definition dl_cell ::
  "nat list \<Rightarrow> nat list \<Rightarrow> nat \<Rightarrow> (nat \<rightharpoonup> nat) \<Rightarrow> nat \<Rightarrow> int list \<times> nat \<Rightarrow> nat \<Rightarrow> int list \<times> nat" where
  "dl_cell ra rb ncols da i = (\<lambda>(dist, db) j.
     let row = i * ncols;
         prev = row - ncols;
         k = map_read da (rb ! (j - 2));
         l = db;
         tcost = (int i - int k - 1) + 1 + (int j - int l - 1);
         scost = (if ra ! (i - 2) = rb ! (j - 2) then 0 else 1);
         db' = (if ra ! (i - 2) = rb ! (j - 2) then j else db)
     in (dist[row + j :=
           Min {dist ! (prev + j - 1) + scost, dist ! (row + j - 1) + 1, dist ! (prev + j) + 1,
                dist ! ((k - 1) * ncols + (l - 1)) + tcost}], db'))"

definition dl_row :: "nat list \<Rightarrow> nat list \<Rightarrow> nat \<Rightarrow> int list \<times> (nat \<rightharpoonup> nat) \<Rightarrow> nat \<Rightarrow> int list \<times> (nat \<rightharpoonup> nat)" where
  "dl_row ra rb ncols = (\<lambda>(dist, da) i.
     (fst (foldl (dl_cell ra rb ncols da i) (dist, 1) [2 ..< ncols]), da(ra ! (i - 2) \<mapsto> i)))"

definition DLDistance :: "bytes \<Rightarrow> bytes \<Rightarrow> int" where
  "DLDistance sa sb =
     (if sa = sb then 0
      else
        let ra = runes sa; rb = runes sb;
            ralen = length ra; rblen = length rb;
            maxdist = int ralen + int rblen
        in if ralen = 0 \<or> rblen = 0 then maxdist
           else
             let da = initDLAlphabet ra rb;
                 nrows = ralen + 2; ncols = rblen + 2;
                 dist = initDLMatrix nrows ncols maxdist
             in fst (foldl (dl_row ra rb ncols) (dist, da) [2 ..< nrows]) ! (nrows * ncols - 1))"

section \<open>The recursive definition\<close>

text \<open>The last position below \<open>n\<close> that holds \<open>c\<close>.\<close>

fun last_pos :: "'a \<Rightarrow> 'a list \<Rightarrow> nat \<Rightarrow> nat option" where
  "last_pos c xs 0 = None"
| "last_pos c xs (Suc n) = (if xs ! n = c then Some n else last_pos c xs n)"

lemma last_pos_less: "last_pos c xs n = Some p \<Longrightarrow> p < n \<and> xs ! p = c"
  by (induction n) (auto split: if_splits)

text \<open>
  The distance of the first \<open>i\<close> elements of \<open>a\<close> and the first \<open>j\<close> of \<open>b\<close>: a substitution, an insertion,
  a deletion, or the exchange of the two last elements across what lies between them in \<open>a\<close> (deleted) and
  in \<open>b\<close> (inserted).
\<close>

function dl :: "'a list \<Rightarrow> 'a list \<Rightarrow> nat \<Rightarrow> nat \<Rightarrow> int" where
  "dl a b 0 j = int j"
| "dl a b (Suc i) 0 = int (Suc i)"
| "dl a b (Suc i) (Suc j) =
     (let base = min (dl a b i j + (if a ! i = b ! j then 0 else 1)) (min (dl a b (Suc i) j + 1) (dl a b i (Suc j) + 1))
      in case last_pos (b ! j) a i of
           None \<Rightarrow> base
         | Some p \<Rightarrow>
             (case last_pos (a ! i) b j of
                None \<Rightarrow> base
              | Some q \<Rightarrow> min base (dl a b p q + (int i - int p - 1) + 1 + (int j - int q - 1))))"
  by pat_completeness auto
termination
  by (relation "measure (\<lambda>(a, b, i, j). i + j)") (auto dest!: last_pos_less)

lemma dl_nonneg: "0 \<le> dl a b i j"
proof (induction a b i j rule: dl.induct)
  case (3 a b i j)
  have "0 \<le> dl a b p q + (int i - int p - 1) + 1 + (int j - int q - 1)"
    if "last_pos (b ! j) a i = Some p" "last_pos (a ! i) b j = Some q" for p q
    using 3(4) [OF refl that] last_pos_less [OF that(1)] last_pos_less [OF that(2)] by simp
  then show ?case using 3(1-3) by (auto simp: Let_def split: option.splits)
qed auto

lemma dl_bound: "dl a b i j \<le> int (max i j)"
proof (induction a b i j rule: dl.induct)
  case (3 a b i j)
  have "dl a b (Suc i) (Suc j) \<le> dl a b i j + 1" by (auto simp: Let_def split: option.splits)
  then show ?case using 3(1) by simp
qed auto

lemma dl_sym: "dl a b i j = dl b a j i"
proof (induction a b i j rule: dl.induct)
  case (3 a b i j)
  have t: "dl a b p q = dl b a q p" if "last_pos (b ! j) a i = Some p" "last_pos (a ! i) b j = Some q" for p q
    using 3(4) [OF refl that] .
  show ?case using 3(1-3) t by (auto simp: Let_def min.commute min.left_commute split: option.splits)
next
  case (1 a b j)
  then show ?case by (cases j) auto
qed auto

lemma dl_step_min:
  "\<exists>t > 0. dl a b (Suc i) (Suc j) =
     min (min (dl a b i j + (if a ! i = b ! j then 0 else 1)) (min (dl a b (Suc i) j + 1) (dl a b i (Suc j) + 1))) t"
  (is "\<exists>t > 0. _ = min ?base t")
proof -
  have base: "0 \<le> ?base" "min ?base (?base + 1) = ?base"
    using dl_nonneg [of a b i j] dl_nonneg [of a b "Suc i" j] dl_nonneg [of a b i "Suc j"] by auto
  show ?thesis
  proof (cases "last_pos (b ! j) a i")
    case None
    then show ?thesis using base by (intro exI [of _ "?base + 1"]) (simp add: Let_def)
  next
    case p: (Some p)
    show ?thesis
    proof (cases "last_pos (a ! i) b j")
      case None
      then show ?thesis using p base by (intro exI [of _ "?base + 1"]) (simp add: Let_def)
    next
      case (Some q)
      then have "0 < dl a b p q + (int i - int p - 1) + 1 + (int j - int q - 1)"
        using dl_nonneg [of a b p q] last_pos_less [OF p] last_pos_less [OF Some] by linarith
      moreover have "dl a b (Suc i) (Suc j) = min ?base (dl a b p q + (int i - int p - 1) + 1 + (int j - int q - 1))"
        using p Some by (simp add: Let_def)
      ultimately show ?thesis by blast
    qed
  qed
qed

lemma dl_zero: "i \<le> length a \<Longrightarrow> j \<le> length b \<Longrightarrow> dl a b i j = 0 \<longleftrightarrow> take i a = take j b"
proof (induction a b i j rule: dl.induct)
  case (3 a b i j)
  obtain t where "0 < t" "dl a b (Suc i) (Suc j) =
      min (min (dl a b i j + (if a ! i = b ! j then 0 else 1)) (min (dl a b (Suc i) j + 1) (dl a b i (Suc j) + 1))) t"
    using dl_step_min by blast
  then have "dl a b (Suc i) (Suc j) = 0 \<longleftrightarrow> dl a b i j + (if a ! i = b ! j then 0 else 1) = 0"
    using dl_nonneg [of a b i j] dl_nonneg [of a b "Suc i" j] dl_nonneg [of a b i "Suc j"] by linarith
  also have "\<dots> \<longleftrightarrow> dl a b i j = 0 \<and> a ! i = b ! j" using dl_nonneg [of a b i j] by auto
  also have "\<dots> \<longleftrightarrow> take (Suc i) a = take (Suc j) b"
    using 3(1,5,6) by (simp add: take_Suc_conv_app_nth)
  finally show ?case .
qed auto

section \<open>The matrix\<close>

text \<open>What cell \<open>(r, c)\<close> of the matrix is to hold.\<close>

fun cell_val :: "nat list \<Rightarrow> nat list \<Rightarrow> nat \<Rightarrow> nat \<Rightarrow> int" where
  "cell_val a b (Suc r) (Suc c) = dl a b r c"
| "cell_val a b r c = int (length a) + int (length b)"

text \<open>The cells written before row \<open>i\<close>, column \<open>j\<close>, and the two boundary columns, hold their values.\<close>

definition filled :: "nat list \<Rightarrow> nat list \<Rightarrow> nat \<Rightarrow> nat \<Rightarrow> int list \<Rightarrow> bool" where
  "filled a b i j dist \<longleftrightarrow> length dist = (length a + 2) * (length b + 2)
     \<and> (\<forall>r c. r < length a + 2 \<longrightarrow> c < length b + 2 \<longrightarrow> r < i \<or> r = i \<and> c < j \<or> c < 2
          \<longrightarrow> dist ! (r * (length b + 2) + c) = cell_val a b r c)"

lemma flat_index:
  fixes r c :: nat
  assumes "c < n" "c' < n"
  shows "r * n + c = r' * n + c' \<longleftrightarrow> r = r' \<and> c = c'"
proof
  assume eq: "r * n + c = r' * n + c'"
  have "(r * n + c) div n = r" "(r' * n + c') div n = r'" using assms by simp_all
  moreover have "(r * n + c) mod n = c" "(r' * n + c') mod n = c'" using assms by simp_all
  ultimately show "r = r' \<and> c = c'" using eq by metis
qed simp

lemma flat_less:
  fixes r c m n :: nat
  assumes "r < m" "c < n"
  shows "r * n + c < m * n"
proof -
  have "r * n + c < Suc r * n" using assms(2) by simp
  also have "\<dots> \<le> m * n" using assms(1) by (intro mult_le_mono1) simp
  finally show ?thesis .
qed

text \<open>Positions as the code counts them: row or column of the last match, 1 when there is none.\<close>

definition shifted :: "nat option \<Rightarrow> nat" where
  "shifted p = (case p of None \<Rightarrow> 1 | Some k \<Rightarrow> k + 2)"

lemma shifted_pos: "1 \<le> shifted p"
  by (simp add: shifted_def split: option.split)

lemma filled_read:
  "filled a b i j dist \<Longrightarrow> r < length a + 2 \<Longrightarrow> c < length b + 2 \<Longrightarrow> r < i \<or> r = i \<and> c < j \<or> c < 2 \<Longrightarrow>
     dist ! (r * (length b + 2) + c) = cell_val a b r c"
  unfolding filled_def by blast

lemma dl_base_bound:
  assumes "i < length a" "j < length b"
  shows "dl a b i j + (if a ! i = b ! j then 0 else 1) \<le> int (length a) + int (length b)"
  using dl_bound [of a b i j] assms by (auto simp: max_def split: if_splits)

lemma transposition_cell:
  assumes "filled a b (Suc (Suc i)) (Suc (Suc j)) dist" "i < length a" "j < length b"
  defines "k \<equiv> shifted (last_pos (b ! j) a i)" and "l \<equiv> shifted (last_pos (a ! i) b j)"
  shows "min (min (dl a b i j + (if a ! i = b ! j then 0 else 1)) (min (dl a b (Suc i) j + 1) (dl a b i (Suc j) + 1)))
      (dist ! ((k - 1) * (length b + 2) + (l - 1))
        + ((int (Suc (Suc i)) - int k - 1) + 1 + (int (Suc (Suc j)) - int l - 1)))
    = dl a b (Suc i) (Suc j)" (is "min ?base (?d + ?t) = _")
proof -
  have bb: "?base \<le> int (length a) + int (length b)" using dl_base_bound [OF assms(2,3)] by linarith
  show ?thesis
  proof (cases "last_pos (b ! j) a i")
    case None
    have l: "l - 1 < length b + 2" "int l \<le> int j + 1"
      using last_pos_less [of "a ! i" b j] assms(3) by (auto simp: l_def shifted_def split: option.splits)
    have "?d = int (length a) + int (length b)"
      using filled_read [OF assms(1), of 0 "l - 1"] l(1) None by (simp add: k_def shifted_def)
    moreover have "0 \<le> ?t" using l(2) None by (simp add: k_def shifted_def)
    ultimately have "?base \<le> ?d + ?t" using bb by linarith
    then show ?thesis using None by (simp add: Let_def)
  next
    case p: (Some p)
    note pl = last_pos_less [OF p]
    show ?thesis
    proof (cases "last_pos (a ! i) b j")
      case None
      have "?d = int (length a) + int (length b)"
        using filled_read [OF assms(1), of "Suc p" 0] pl assms(2) None p by (simp add: k_def l_def shifted_def)
      moreover have "0 \<le> ?t" using pl None p by (simp add: k_def l_def shifted_def)
      ultimately have "?base \<le> ?d + ?t" using bb by linarith
      then show ?thesis using p None by (simp add: Let_def)
    next
      case (Some q)
      note ql = last_pos_less [OF Some]
      have "?d = dl a b p q"
        using filled_read [OF assms(1), of "Suc p" "Suc q"] pl ql assms(2,3) Some p by (simp add: k_def l_def shifted_def)
      then show ?thesis using p Some by (simp add: Let_def k_def l_def shifted_def)
    qed
  qed
qed

lemma filled_update:
  assumes "filled a b i j dist" "i < length a + 2" "j < length b + 2" "v = cell_val a b i j"
  shows "filled a b i (Suc j) (dist[i * (length b + 2) + j := v])"
proof -
  have "i * (length b + 2) + j < length dist" using flat_less [OF assms(2,3)] assms(1) by (simp add: filled_def)
  then show ?thesis
    using assms by (auto simp: filled_def nth_list_update flat_index less_Suc_eq simp del: mult_Suc_right add_2_eq_Suc')
qed

lemma dl_cell_filled:
  assumes "filled a b (Suc (Suc i)) (Suc (Suc j)) dist" "i < length a" "j < length b"
    and "map_read da (b ! j) = shifted (last_pos (b ! j) a i)"
  shows "dl_cell a b (length b + 2) da (Suc (Suc i)) (dist, shifted (last_pos (a ! i) b j)) (Suc (Suc j)) =
      (dist[Suc (Suc i) * (length b + 2) + Suc (Suc j) := dl a b (Suc i) (Suc j)], shifted (last_pos (a ! i) b (Suc j)))"
proof -
  have reads: "dist ! (Suc i * (length b + 2) + Suc j) = dl a b i j"
    "dist ! (Suc (Suc i) * (length b + 2) + Suc j) = dl a b (Suc i) j"
    "dist ! (Suc i * (length b + 2) + Suc (Suc j)) = dl a b i (Suc j)"
    using filled_read [OF assms(1), of "Suc i" "Suc j"] filled_read [OF assms(1), of "Suc (Suc i)" "Suc j"]
      filled_read [OF assms(1), of "Suc i" "Suc (Suc j)"] assms(2,3) by simp_all
  have ix: "Suc (Suc i) * (length b + 2) - (length b + 2) = Suc i * (length b + 2)" "x + Suc (Suc j) - 1 = x + Suc j" for x
    by simp_all
  have lp: "shifted (last_pos (a ! i) b (Suc j)) = (if a ! i = b ! j then Suc (Suc j) else shifted (last_pos (a ! i) b j))"
    by (auto simp: shifted_def)
  have sub: "Suc (Suc i) - 2 = i" "Suc (Suc j) - 2 = j" by simp_all
  have mn: "Min {x, y, z, t} = min (min x (min y z)) t" for x y z t :: int by (simp add: min.assoc)
  show ?thesis
    unfolding dl_cell_def Let_def prod.case sub ix reads mn assms(4) transposition_cell [OF assms(1-3)] lp by (rule refl)
qed

section \<open>The loops\<close>

definition row_inv :: "nat list \<Rightarrow> nat list \<Rightarrow> nat \<Rightarrow> nat \<Rightarrow> int list \<times> nat \<Rightarrow> bool" where
  "row_inv a b i j s \<longleftrightarrow> filled a b i j (fst s) \<and> snd s = shifted (last_pos (a ! (i - 2)) b (j - 2))"

lemma two_more: "2 \<le> k \<Longrightarrow> k < n + 2 \<Longrightarrow> \<exists>j. k = Suc (Suc j) \<and> j < n"
  by (intro exI [of _ "k - 2"]) auto

lemma filled_row:
  "filled a b i 0 d \<Longrightarrow> filled a b i 2 d" "filled a b i (length b + 2) d \<Longrightarrow> filled a b (Suc i) 0 d"
  unfolding filled_def by (blast intro: less_SucE)+

lemma dl_row_filled:
  assumes "filled a b (Suc (Suc i)) 0 dist" "i < length a"
    and "\<And>c. c \<in> set b \<Longrightarrow> map_read da c = shifted (last_pos c a i)"
  shows "filled a b (Suc (Suc (Suc i))) 0 (fst (dl_row a b (length b + 2) (dist, da) (Suc (Suc i))))"
proof -
  let ?i = "Suc (Suc i)"
  have "row_inv a b ?i (length b + 2) (foldl (dl_cell a b (length b + 2) da ?i) (dist, 1) [2 ..< length b + 2])"
  proof (rule foldl_upt_inv [where P = "row_inv a b ?i"])
    show "row_inv a b ?i 2 (dist, 1)" using filled_row(1) [OF assms(1)] by (simp add: row_inv_def shifted_def)
    fix k s assume k: "2 \<le> k" "k < length b + 2" and inv: "row_inv a b ?i k s"
    obtain j where j: "k = Suc (Suc j)" "j < length b" using two_more [OF k] by blast
    have s: "s = (fst s, shifted (last_pos (a ! i) b j))" "filled a b ?i (Suc (Suc j)) (fst s)"
      using inv by (simp_all add: row_inv_def j(1) prod_eq_iff)
    have "dl_cell a b (length b + 2) da ?i s k =
        ((fst s)[?i * (length b + 2) + k := dl a b (Suc i) (Suc j)], shifted (last_pos (a ! i) b (Suc j)))"
      using dl_cell_filled [OF s(2) assms(2) j(2), of da] assms(3) [of "b ! j"] j s(1) by simp
    moreover have "filled a b ?i (Suc k) ((fst s)[?i * (length b + 2) + k := dl a b (Suc i) (Suc j)])"
      using s(2) assms(2) j by (intro filled_update) simp_all
    ultimately show "row_inv a b ?i (Suc k) (dl_cell a b (length b + 2) da ?i s k)" by (simp add: row_inv_def j(1))
  qed simp
  then show ?thesis using filled_row(2) by (simp add: dl_row_def row_inv_def)
qed

definition matrix_inv :: "nat list \<Rightarrow> nat list \<Rightarrow> nat \<Rightarrow> int list \<times> (nat \<rightharpoonup> nat) \<Rightarrow> bool" where
  "matrix_inv a b i s \<longleftrightarrow> filled a b i 0 (fst s) \<and> (\<forall>c \<in> set a \<union> set b. map_read (snd s) c = shifted (last_pos c a (i - 2)))"

lemma fill_matrix:
  assumes "filled a b 2 0 dist" "\<And>c. c \<in> set a \<union> set b \<Longrightarrow> map_read da c = 1"
  shows "matrix_inv a b (length a + 2) (foldl (dl_row a b (length b + 2)) (dist, da) [2 ..< length a + 2])"
proof (rule foldl_upt_inv [where P = "matrix_inv a b"])
  show "matrix_inv a b 2 (dist, da)" using assms by (simp add: matrix_inv_def shifted_def)
  fix k s assume k: "2 \<le> k" "k < length a + 2" and inv: "matrix_inv a b k s"
  obtain i where i: "k = Suc (Suc i)" "i < length a" using two_more [OF k] by blast
  have "filled a b (Suc k) 0 (fst (dl_row a b (length b + 2) (fst s, snd s) k))"
    using inv i unfolding i(1) by (intro dl_row_filled) (auto simp: matrix_inv_def)
  moreover have "snd (dl_row a b (length b + 2) s k) = (snd s)(a ! i \<mapsto> k)" by (simp add: dl_row_def case_prod_beta i(1))
  ultimately show "matrix_inv a b (Suc k) (dl_row a b (length b + 2) s k)"
    using inv i by (auto simp: matrix_inv_def map_read_def shifted_def)
qed simp

section \<open>Initial values\<close>

lemma alphabet_reads: "c \<in> set a \<union> set b \<Longrightarrow> map_read (initDLAlphabet a b) c = 1"
proof -
  have f: "foldl (\<lambda>da c. da(c \<mapsto> Suc 0)) m xs c = (if c \<in> set xs then Some (Suc 0) else m c)" for m xs
    by (induction xs arbitrary: m) auto
  show "c \<in> set a \<union> set b \<Longrightarrow> map_read (initDLAlphabet a b) c = 1"
    by (auto simp: map_read_def initDLAlphabet_def f)
qed

text \<open>The two boundary columns after the first loop.\<close>

definition columns :: "nat \<Rightarrow> nat \<Rightarrow> int \<Rightarrow> nat \<Rightarrow> int list \<Rightarrow> bool" where
  "columns nrows ncols m k d \<longleftrightarrow> length d = nrows * ncols
     \<and> (\<forall>r < k. d ! (r * ncols + 0) = m \<and> d ! (r * ncols + 1) = int r - 1)"

lemma columns_step:
  assumes "columns nrows ncols m k d" "k < nrows" "2 \<le> ncols"
  shows "columns nrows ncols m (Suc k) ((d[k * ncols := m])[k * ncols + 1 := int k - 1])"
proof -
  have lt: "k * ncols + 0 < length d" "k * ncols + 1 < length d"
    using flat_less [of k nrows 0 ncols] flat_less [of k nrows 1 ncols] assms by (simp_all add: columns_def)
  have ix: "r * ncols + 0 = k * ncols + 0 \<longleftrightarrow> r = k" "r * ncols + 1 = k * ncols + 1 \<longleftrightarrow> r = k"
    "r * ncols + 0 \<noteq> k * ncols + 1" "r * ncols + 1 \<noteq> k * ncols + 0" for r
    using flat_index [of 0 ncols 0 r k] flat_index [of 1 ncols 1 r k] flat_index [of 0 ncols 1 r k]
      flat_index [of 1 ncols 0 r k] assms(3) by auto
  show ?thesis
    unfolding columns_def
  proof (intro conjI allI impI)
    show "length ((d[k * ncols := m])[k * ncols + 1 := int k - 1]) = nrows * ncols"
      using assms(1) by (simp add: columns_def)
    fix r assume "r < Suc k"
    then show "(d[k * ncols := m])[k * ncols + 1 := int k - 1] ! (r * ncols + 0) = m"
      "(d[k * ncols := m])[k * ncols + 1 := int k - 1] ! (r * ncols + 1) = int r - 1"
      using assms(1) lt ix [of r] by (auto simp: columns_def nth_list_update less_Suc_eq)
  qed
qed

text \<open>Boundary columns and, up to column \<open>k\<close>, boundary rows.\<close>

definition borders :: "nat list \<Rightarrow> nat list \<Rightarrow> nat \<Rightarrow> int list \<Rightarrow> bool" where
  "borders a b k d \<longleftrightarrow> length d = (length a + 2) * (length b + 2)
     \<and> (\<forall>r c. r < length a + 2 \<longrightarrow> c < length b + 2 \<longrightarrow> c < 2 \<or> r < 2 \<and> c < k
          \<longrightarrow> d ! (r * (length b + 2) + c) = cell_val a b r c)"

lemma borders_step:
  assumes "borders a b k d" "2 \<le> k" "k < length b + 2"
  shows "borders a b (Suc k) ((d[k := int (length a) + int (length b)])[length b + 2 + k := int k - 1])"
proof -
  let ?n = "length b + 2"
  have lt: "0 * ?n + k < length d" "1 * ?n + k < length d"
    using flat_less [of 0 "length a + 2" k ?n] flat_less [of 1 "length a + 2" k ?n] assms(1,3) by (simp_all add: borders_def)
  have val: "cell_val a b 0 k = int (length a) + int (length b)" "cell_val a b 1 k = int k - 1"
    using assms(2) by (cases k; simp)+
  have "(d[0 * ?n + k := cell_val a b 0 k])[1 * ?n + k := cell_val a b 1 k] ! (r * ?n + c) = cell_val a b r c"
    if r: "r < length a + 2" "c < ?n" "c < 2 \<or> r < 2 \<and> c < Suc k" for r c
  proof -
    have old: "c < 2 \<or> r < 2 \<and> c < k \<Longrightarrow> d ! (r * ?n + c) = cell_val a b r c" using assms(1) r unfolding borders_def by blast
    have ix: "r * ?n + c = 0 * ?n + k \<longleftrightarrow> r = 0 \<and> c = k" "r * ?n + c = 1 * ?n + k \<longleftrightarrow> r = 1 \<and> c = k"
      using flat_index [OF r(2) assms(3)] by blast+
    show ?thesis
    proof (cases "c = k \<and> r < 2")
      case True
      then show ?thesis using lt ix assms(2) by (auto simp: nth_list_update less_2_cases_iff)
    next
      case False
      then have "\<not> (r = 0 \<and> c = k)" "\<not> (r = 1 \<and> c = k)" by auto
      then show ?thesis using old r(3) False ix by (auto simp: nth_list_update less_Suc_eq)
    qed
  qed
  then show ?thesis using assms(1) val by (simp add: borders_def)
qed

lemma dl_zero_right [simp]: "dl a b i 0 = int i"
  by (cases i) simp_all

lemma columns_borders:
  assumes "columns (length a + 2) (length b + 2) (int (length a) + int (length b)) (length a + 2) d"
  shows "borders a b 2 (d[1 := int (length a) + int (length b)])"
proof -
  let ?n = "length b + 2" and ?m = "int (length a) + int (length b)"
  have col: "d ! (r * ?n + 0) = ?m" "d ! (r * ?n + 1) = int r - 1" if "r < length a + 2" for r
    using assms that unfolding columns_def by blast+
  have "d[1 := ?m] ! (r * ?n + c) = cell_val a b r c" if r: "r < length a + 2" "c < 2" for r c
  proof -
    have one: "r * ?n + 1 = 1 \<longleftrightarrow> r = 0" "r * ?n + 0 \<noteq> 1" using flat_index [of 0 ?n 1 r 0] by auto
    consider "c = 0" | "c = 1" "r = 0" | "c = 1" "r \<noteq> 0" using r(2) by linarith
    then show ?thesis
    proof cases
      case 1
      then show ?thesis using one(2) col(1) [OF r(1)] by (cases r) simp_all
    next
      case 2
      have "1 < length d" using assms by (simp add: columns_def)
      then show ?thesis using 2 by simp
    next
      case 3
      then show ?thesis using one(1) col(2) [OF r(1)] by (cases r) simp_all
    qed
  qed
  then show ?thesis using assms by (simp add: borders_def columns_def)
qed

lemma borders_filled: "borders a b (length b + 2) d \<Longrightarrow> filled a b 2 0 d"
  unfolding borders_def filled_def not_less_zero by blast

lemma initDLMatrix_filled: "filled a b 2 0 (initDLMatrix (length a + 2) (length b + 2) (int (length a) + int (length b)))"
proof -
  let ?m = "int (length a) + int (length b)" and ?r = "length a + 2" and ?n = "length b + 2"
  let ?d1 = "foldl (\<lambda>d i. (d[i * ?n := ?m])[i * ?n + 1 := int i - 1]) (replicate (?r * ?n) 0) [0 ..< ?r]"
  have "columns ?r ?n ?m ?r ?d1"
  proof (rule foldl_upt_inv [where P = "columns ?r ?n ?m"])
    show "columns ?r ?n ?m (Suc k) ((d[k * ?n := ?m])[k * ?n + 1 := int k - 1])"
      if "k < ?r" "columns ?r ?n ?m k d" for k d using that by (intro columns_step) simp_all
  qed (simp_all add: columns_def)
  then have "borders a b 2 (?d1[1 := ?m])" by (rule columns_borders)
  then have "borders a b ?n (foldl (\<lambda>d j. (d[j := ?m])[?n + j := int j - 1]) (?d1[1 := ?m]) [2 ..< ?n])"
    by (intro foldl_upt_inv [where P = "borders a b"] borders_step) simp_all
  then show ?thesis unfolding initDLMatrix_def Let_def by (rule borders_filled)
qed

section \<open>The result\<close>

lemma runes_eq_Nil [simp]: "runes s = [] \<longleftrightarrow> s = []"
  by (subst runes.simps) simp

lemma runes_Nil [simp]: "runes [] = []"
  by simp

lemma DLDistance_dl: "DLDistance sa sb = dl (runes sa) (runes sb) (length (runes sa)) (length (runes sb))"
proof (cases "sa = sb \<or> sa = [] \<or> sb = []")
  case True
  then show ?thesis using dl_zero [of "length (runes sa)" "runes sa" "length (runes sa)" "runes sa"]
    by (auto simp: DLDistance_def)
next
  case False
  let ?a = "runes sa" and ?b = "runes sb"
  let ?s = "foldl (dl_row ?a ?b (length ?b + 2))
    (initDLMatrix (length ?a + 2) (length ?b + 2) (int (length ?a) + int (length ?b)), initDLAlphabet ?a ?b) [2 ..< length ?a + 2]"
  have "matrix_inv ?a ?b (length ?a + 2) ?s" by (rule fill_matrix [OF initDLMatrix_filled alphabet_reads])
  then have f: "filled ?a ?b (length ?a + 2) 0 (fst ?s)" by (simp add: matrix_inv_def)
  have "(length ?a + 2) * (length ?b + 2) - 1 = (length ?a + 1) * (length ?b + 2) + (length ?b + 1)" by simp
  then have "fst ?s ! ((length ?a + 2) * (length ?b + 2) - 1) = dl ?a ?b (length ?a) (length ?b)"
    using filled_read [OF f, of "length ?a + 1" "length ?b + 1"] by (simp del: mult_Suc mult_Suc_right)
  then show ?thesis using False by (simp add: DLDistance_def Let_def del: mult_Suc mult_Suc_right)
qed

end
