(* ===== verification/SM_Props.thy ===== *)
theory SM_Props
  imports SM_Metric
begin

text \<open>The properties of \<^verbatim>\<open>pkg/stringmetric\<close>.\<close>

text \<open>
  C9: the value of \<^verbatim>\<open>DLDistance\<close>, computed over the flattened matrix, is the recursively defined distance of the two
  rune sequences (insertion, deletion, substitution, and transposition across a gap). It is not negative, is zero
  exactly when the rune sequences are equal, is symmetric, and is at most the length of the longer one.
\<close>

theorem dl_distance_correct:
  "DLDistance sa sb = dl (runes sa) (runes sb) (length (runes sa)) (length (runes sb))
   \<and> 0 \<le> DLDistance sa sb \<and> (DLDistance sa sb = 0 \<longleftrightarrow> runes sa = runes sb)
   \<and> DLDistance sa sb = DLDistance sb sa
   \<and> DLDistance sa sb \<le> int (max (length (runes sa)) (length (runes sb)))"
  using dl_nonneg dl_zero [of "length (runes sa)" "runes sa" "length (runes sb)" "runes sb"] dl_sym dl_bound
  unfolding DLDistance_dl by (metis order_refl take_all_iff)

text \<open>
  Two different strings that are not valid UTF-8 can have distance zero: the documentation says that only
  equal strings have.
\<close>

lemma invalid_utf8_distance_zero: "DLDistance [CHR 0xFF] [CHR 0xFE] = 0 \<and> [CHR 0xFF] \<noteq> [CHR 0xFE]"
proof -
  have "runes [CHR 0xFF] = [0xFFFD]" "runes [CHR 0xFE] = [0xFFFD]"
    by (simp_all add: runes.simps [of "_ # _"])
  then show ?thesis by (simp add: DLDistance_dl Let_def)
qed

end
