(* ===== verification/Go_Format.thy ===== *)
theory Go_Format
  imports Go_Strconv
begin

text \<open>
  Printing of numbers and splitting of strings as the standard library does them: \<^verbatim>\<open>strconv.FormatUint\<close>,
  \<^verbatim>\<open>strconv.ParseUint\<close> with a bit size, \<^verbatim>\<open>strings.SplitN\<close>, \<^verbatim>\<open>strings.CutPrefix\<close>. Shown: what is printed is read
  back, and a numeral that is read is the printed one up to leading zeros.
\<close>

lemma byte_less [simp]: "byte_val c < 256"
  using of_char_mod_256 [of c, where 'a = nat] by (metis mod_less_divisor zero_less_numeral)

section \<open>Numbers\<close>

definition digit_char :: "nat \<Rightarrow> char" where
  "digit_char d = char_of (if d < 10 then 48 + d else 87 + d)"

text \<open>\<^verbatim>\<open>strconv.FormatUint(n, base)\<close> for \<open>2 \<le> base \<le> 36\<close>; the guard makes the function total.\<close>

function FormatUint :: "nat \<Rightarrow> nat \<Rightarrow> bytes" where
  "FormatUint b n = (if n < b \<or> b < 2 then [digit_char n] else FormatUint b (n div b) @ [digit_char (n mod b)])"
  by pat_completeness auto
termination
  by (relation "measure snd") (auto intro: div_less_dividend)

declare FormatUint.simps [simp del]

text \<open>\<^verbatim>\<open>strconv.ParseUint(s, 10, bits)\<close>.\<close>

definition ParseUintBits :: "nat \<Rightarrow> bytes \<Rightarrow> nat option" where
  "ParseUintBits bits s =
     (if s = [] then None
      else case digits_val s 0 of Some n \<Rightarrow> if n < 2 ^ bits then Some n else None | None \<Rightarrow> None)"

lemma FormatUint_not_empty [simp]: "FormatUint b n \<noteq> []"
  by (subst FormatUint.simps) simp

lemma byte_val_digit [simp]: "d < 10 \<Longrightarrow> byte_val (digit_char d) = 48 + d"
  by (simp add: digit_char_def)

lemma digits_val_append:
  "digits_val (xs @ ys) acc = Option.bind (digits_val xs acc) (digits_val ys)"
  by (induction xs arbitrary: acc) auto

lemma digits_val_format [simp]: "digits_val (FormatUint 10 n) 0 = Some n"
proof (induction n rule: less_induct)
  case (less n)
  show ?case
  proof (cases "n < 10")
    case False
    then have "digits_val (FormatUint 10 (n div 10)) 0 = Some (n div 10)" using less by simp
    then show ?thesis using False by (subst FormatUint.simps) (simp add: digits_val_append)
  qed (subst FormatUint.simps, simp)
qed

lemma parse_format: "n < 2 ^ bits \<Longrightarrow> ParseUintBits bits (FormatUint 10 n) = Some n"
  by (simp add: ParseUintBits_def)

lemma digit_charI: "48 \<le> byte_val c \<Longrightarrow> byte_val c \<le> 57 \<Longrightarrow> c = digit_char (byte_val c - 48)"
  by (simp add: digit_char_def) linarith

lemma digit_zero [simp]: "digit_char 0 = CHR ''0''"
  by (simp add: digit_char_def char_of_eq_iff)

lemma format_digits: "c \<in> set (FormatUint 10 n) \<Longrightarrow> 48 \<le> byte_val c \<and> byte_val c \<le> 57"
proof (induction n rule: less_induct)
  case (less n)
  show ?case
  proof (cases "n < 10")
    case True
    then show ?thesis using less.prems by (subst (asm) FormatUint.simps) simp
  next
    case False
    then have "c \<in> set (FormatUint 10 (n div 10)) \<or> c = digit_char (n mod 10)"
      using less.prems by (subst (asm) FormatUint.simps) (simp, blast)
    then show ?thesis using less.IH [of "n div 10"] False by (auto simp del: of_char_of)
  qed
qed

text \<open>A numeral is the printed number behind some zeros.\<close>

lemma digits_val_inverse:
  "digits_val cs 0 = Some n \<Longrightarrow> cs \<noteq> [] \<Longrightarrow> \<exists>k. cs = replicate k (CHR ''0'') @ FormatUint 10 n"
proof (induction cs arbitrary: n rule: rev_induct)
  case (snoc c cs)
  then obtain m where m: "digits_val cs 0 = Some m" and c: "48 \<le> byte_val c" "byte_val c \<le> 57"
    and n: "n = m * 10 + (byte_val c - 48)"
    by (auto simp: digits_val_append bind_eq_Some_conv split: if_splits)
  define d where "d = byte_val c - 48"
  have d: "d < 10" "c = digit_char d" "n = m * 10 + d" using c n digit_charI [OF c] by (auto simp: d_def)
  show ?case
  proof (cases "m = 0")
    case True
    then have f: "FormatUint 10 n = [c]" using d by (subst FormatUint.simps) simp
    show ?thesis
    proof (cases "cs = []")
      case False
      then obtain k where "cs = replicate k (CHR ''0'') @ FormatUint 10 0" using snoc.IH m True by blast
      moreover have "FormatUint 10 0 = ''0''" by (subst FormatUint.simps) simp
      ultimately have "cs = replicate (Suc k) (CHR ''0'')" by (simp add: replicate_append_same)
      then show ?thesis using f by metis
    qed (use f in \<open>auto intro: exI [of _ 0]\<close>)
  next
    case False
    then have "cs \<noteq> []" using m by auto
    then obtain k where k: "cs = replicate k (CHR ''0'') @ FormatUint 10 m" using snoc.IH m by blast
    have "\<not> (n < 10 \<or> (10::nat) < 2)" "n div 10 = m" "n mod 10 = d" using False d by auto
    then have "FormatUint 10 n = FormatUint 10 m @ [digit_char d]" by (subst FormatUint.simps) simp
    then show ?thesis using k d by auto
  qed
qed simp

lemma parse_inverse:
  "ParseUintBits bits s = Some n \<Longrightarrow> n < 2 ^ bits \<and> (\<exists>k. s = replicate k (CHR ''0'') @ FormatUint 10 n)"
  using digits_val_inverse by (auto simp: ParseUintBits_def split: if_splits option.splits)

lemma digits_val_zeros: "digits_val (replicate k (CHR ''0'') @ s) 0 = digits_val s 0"
  by (induction k) auto

lemma parse_zeros: "n < 2 ^ bits \<Longrightarrow> ParseUintBits bits (replicate k (CHR ''0'') @ FormatUint 10 n) = Some n"
  by (simp add: ParseUintBits_def digits_val_zeros)

text \<open>A number below \<open>10 ^ k\<close> has at most \<open>k\<close> digits.\<close>

lemma format_length: "0 < k \<Longrightarrow> n < 10 ^ k \<Longrightarrow> length (FormatUint 10 n) \<le> k"
proof (induction k arbitrary: n)
  case (Suc k)
  show ?case
  proof (cases "n < 10")
    case False
    then have "n div 10 < 10 ^ k" "0 < k"
      using Suc.prems by (auto simp: less_mult_imp_div_less mult.commute intro: Suc_leI gr0I)
    then show ?thesis using Suc.IH False by (subst FormatUint.simps) simp
  qed (subst FormatUint.simps, simp)
qed simp

section \<open>Strings\<close>

text \<open>\<^verbatim>\<open>strings.SplitN(s, sep, n)\<close> for a separator of one byte and a positive \<open>n\<close>.\<close>

fun SplitN :: "char \<Rightarrow> nat \<Rightarrow> bytes \<Rightarrow> bytes list" where
  "SplitN c 0 s = []"
| "SplitN c (Suc 0) s = [s]"
| "SplitN c (Suc (Suc n)) s =
     (case dropWhile (\<lambda>x. x \<noteq> c) s of [] \<Rightarrow> [s] | _ # r \<Rightarrow> takeWhile (\<lambda>x. x \<noteq> c) s # SplitN c (Suc n) r)"

text \<open>\<^verbatim>\<open>strings.CutPrefix\<close>.\<close>

definition CutPrefix :: "bytes \<Rightarrow> bytes \<Rightarrow> bytes option" where
  "CutPrefix s p = (if take (length p) s = p then Some (drop (length p) s) else None)"

lemma CutPrefix_Some: "CutPrefix s p = Some r \<longleftrightarrow> s = p @ r"
  by (auto simp: CutPrefix_def) (metis append_take_drop_id)

text \<open>Parts joined by the separator.\<close>

fun join_parts :: "char \<Rightarrow> bytes list \<Rightarrow> bytes" where
  "join_parts c [] = []"
| "join_parts c [p] = p"
| "join_parts c (p # ps) = p @ [c] @ join_parts c ps"

lemma split_at_sep:
  "c \<notin> set p \<Longrightarrow> dropWhile (\<lambda>x. x \<noteq> c) (p @ c # r) = c # r \<and> takeWhile (\<lambda>x. x \<noteq> c) (p @ c # r) = p"
  by (induction p) auto

lemma no_sep: "dropWhile (\<lambda>x. x \<noteq> c) s = [] \<longleftrightarrow> c \<notin> set s"
  by (auto simp: dropWhile_eq_Nil_conv)

lemma SplitN_unsplit: "c \<notin> set s \<Longrightarrow> SplitN c (Suc n) s = [s]"
  using no_sep [of c s] by (cases n) (simp_all del: dropWhile_eq_Nil_conv)

lemma SplitN_join:
  "length ps \<le> n \<Longrightarrow> ps \<noteq> [] \<Longrightarrow> (\<And>p. p \<in> set ps \<Longrightarrow> c \<notin> set p) \<Longrightarrow> SplitN c n (join_parts c ps) = ps"
proof (induction ps arbitrary: n)
  case (Cons p ps)
  obtain m where n: "n = Suc m" using Cons.prems by (cases n) auto
  show ?case
  proof (cases "ps = []")
    case True
    then show ?thesis using n Cons.prems SplitN_unsplit [of c p m] by simp
  next
    case False
    then obtain k where m: "m = Suc k" using Cons.prems n by (cases m) auto
    have "join_parts c (p # ps) = p @ c # join_parts c ps" using False by (cases ps) auto
    moreover have "SplitN c m (join_parts c ps) = ps" using Cons False n by simp
    ultimately show ?thesis using split_at_sep [of c p] Cons.prems n m by simp
  qed
qed simp

lemma join_SplitN: "0 < n \<Longrightarrow> join_parts c (SplitN c n s) = s"
proof (induction c n s rule: SplitN.induct)
  case (3 c n s)
  show ?case
  proof (cases "dropWhile (\<lambda>x. x \<noteq> c) s")
    case (Cons a r)
    have a: "a = c" using hd_dropWhile [of "\<lambda>x. x \<noteq> c" s] Cons by simp
    have r: "join_parts c (SplitN c (Suc n) r) = r" using 3 Cons by simp
    have "SplitN c (Suc n) r \<noteq> []" by (cases n) (auto split: list.splits)
    then obtain q qs where "SplitN c (Suc n) r = q # qs" by (meson neq_Nil_conv)
    then have "join_parts c (SplitN c (Suc (Suc n)) s) = takeWhile (\<lambda>x. x \<noteq> c) s @ dropWhile (\<lambda>x. x \<noteq> c) s"
      using Cons a r by simp
    then show ?thesis by simp
  next
    case Nil
    then have "c \<notin> set s" using no_sep by metis
    then have "SplitN c (Suc (Suc n)) s = [s]" by (rule SplitN_unsplit)
    then show ?thesis using \<open>c \<notin> set s\<close> by (simp del: SplitN.simps)
  qed
qed auto

lemma SplitN_parts: "length (SplitN c n s) < n \<Longrightarrow> \<forall>p \<in> set (SplitN c n s). c \<notin> set p"
proof (induction c n s rule: SplitN.induct)
  case (3 c n s)
  have t: "c \<notin> set (takeWhile (\<lambda>x. x \<noteq> c) s)" using set_takeWhileD by fastforce
  show ?case
  proof (cases "dropWhile (\<lambda>x. x \<noteq> c) s")
    case Nil
    then have "c \<notin> set s" using no_sep by metis
    then have "SplitN c (Suc (Suc n)) s = [s]" by (rule SplitN_unsplit)
    then show ?thesis using \<open>c \<notin> set s\<close> by (simp del: SplitN.simps)
  next
    case (Cons a r)
    then have "\<forall>p \<in> set (SplitN c (Suc n) r). c \<notin> set p" using 3 by simp
    then show ?thesis using Cons t by simp
  qed
qed auto

end
