(* ===== verification/RN_Hex.thy ===== *)
theory RN_Hex
  imports Go_Format "HOL-Library.Word"
begin

unbundle bit_operations_syntax

text \<open>
  \<^verbatim>\<open>pkg/uhex\<close>: fixed-width hexadecimal encoders. The table holds two characters per byte, packed into 16 bits;
  the encoders store them into the destination array, a byte list of the right length. Shown: every encoder
  writes the digits of its input, most significant first.
\<close>

section \<open>The code\<close>

definition hexTable :: bytes where
  "hexTable = ''0123456789abcdef''"

definition buildHex16 :: "16 word list" where
  "buildHex16 =
     map (\<lambda>i. word_of_nat (of_char (hexTable ! drop_bit 4 i))
              OR push_bit 8 (word_of_nat (of_char (hexTable ! (i AND 0xf))))) [0 ..< 256]"

definition hex16 :: "8 word \<Rightarrow> 16 word" where
  "hex16 b = buildHex16 ! unat b"

text \<open>\<^verbatim>\<open>binary.LittleEndian.PutUint16(dst[i:i+2], v)\<close>.\<close>

definition PutUint16 :: "bytes \<Rightarrow> nat \<Rightarrow> 16 word \<Rightarrow> bytes" where
  "PutUint16 dst i v = dst[i := char_of (unat v), i + 1 := char_of (unat (drop_bit 8 v))]"

definition Hex64UB :: "64 word \<Rightarrow> bytes \<Rightarrow> bytes" where
  "Hex64UB n dst =
     (let d = PutUint16 dst 0 (hex16 (ucast (drop_bit 56 n)));
          d = PutUint16 d 2 (hex16 (ucast (drop_bit 48 n)));
          d = PutUint16 d 4 (hex16 (ucast (drop_bit 40 n)));
          d = PutUint16 d 6 (hex16 (ucast (drop_bit 32 n)));
          d = PutUint16 d 8 (hex16 (ucast (drop_bit 24 n)));
          d = PutUint16 d 10 (hex16 (ucast (drop_bit 16 n)));
          d = PutUint16 d 12 (hex16 (ucast (drop_bit 8 n)))
      in PutUint16 d 14 (hex16 (ucast n)))"

definition Hex64 :: "64 word \<Rightarrow> bytes" where
  "Hex64 n = Hex64UB n (replicate 16 (CHR 0x00))"

definition Hex64BB :: "8 word list \<Rightarrow> bytes \<Rightarrow> bytes" where
  "Hex64BB src dst =
     (let d = PutUint16 dst 0 (hex16 (src ! 0));
          d = PutUint16 d 2 (hex16 (src ! 1));
          d = PutUint16 d 4 (hex16 (src ! 2));
          d = PutUint16 d 6 (hex16 (src ! 3));
          d = PutUint16 d 8 (hex16 (src ! 4));
          d = PutUint16 d 10 (hex16 (src ! 5));
          d = PutUint16 d 12 (hex16 (src ! 6))
      in PutUint16 d 14 (hex16 (src ! 7)))"

definition Hex64B :: "8 word list \<Rightarrow> bytes" where
  "Hex64B src = Hex64BB src (replicate 16 (CHR 0x00))"

definition Hex32UB :: "32 word \<Rightarrow> bytes \<Rightarrow> bytes" where
  "Hex32UB n dst =
     (let d = PutUint16 dst 0 (hex16 (ucast (drop_bit 24 n)));
          d = PutUint16 d 2 (hex16 (ucast (drop_bit 16 n)));
          d = PutUint16 d 4 (hex16 (ucast (drop_bit 8 n)))
      in PutUint16 d 6 (hex16 (ucast n)))"

definition Hex32 :: "32 word \<Rightarrow> bytes" where
  "Hex32 n = Hex32UB n (replicate 8 (CHR 0x00))"

definition Hex32BB :: "8 word list \<Rightarrow> bytes \<Rightarrow> bytes" where
  "Hex32BB src dst =
     (let d = PutUint16 dst 0 (hex16 (src ! 0));
          d = PutUint16 d 2 (hex16 (src ! 1));
          d = PutUint16 d 4 (hex16 (src ! 2))
      in PutUint16 d 6 (hex16 (src ! 3)))"

definition Hex32B :: "8 word list \<Rightarrow> bytes" where
  "Hex32B src = Hex32BB src (replicate 8 (CHR 0x00))"

definition Hex16UB :: "16 word \<Rightarrow> bytes \<Rightarrow> bytes" where
  "Hex16UB n dst =
     (let d = PutUint16 dst 0 (hex16 (ucast (drop_bit 8 n)))
      in PutUint16 d 2 (hex16 (ucast n)))"

definition Hex16 :: "16 word \<Rightarrow> bytes" where
  "Hex16 n = Hex16UB n (replicate 4 (CHR 0x00))"

definition Hex16BB :: "8 word list \<Rightarrow> bytes \<Rightarrow> bytes" where
  "Hex16BB src dst =
     (let d = PutUint16 dst 0 (hex16 (src ! 0))
      in PutUint16 d 2 (hex16 (src ! 1)))"

definition Hex16B :: "8 word list \<Rightarrow> bytes" where
  "Hex16B src = Hex16BB src (replicate 4 (CHR 0x00))"

definition Hex8UB :: "8 word \<Rightarrow> bytes \<Rightarrow> bytes" where
  "Hex8UB n dst = PutUint16 dst 0 (hex16 n)"

definition Hex8 :: "8 word \<Rightarrow> bytes" where
  "Hex8 n = Hex8UB n (replicate 2 (CHR 0x00))"

definition Hex8BB :: "8 word list \<Rightarrow> bytes \<Rightarrow> bytes" where
  "Hex8BB src dst = PutUint16 dst 0 (hex16 (src ! 0))"

definition Hex8B :: "8 word list \<Rightarrow> bytes" where
  "Hex8B src = Hex8BB src (replicate 2 (CHR 0x00))"

section \<open>What is written\<close>

text \<open>The two digits of a byte.\<close>

definition hex_byte :: "8 word \<Rightarrow> bytes" where
  "hex_byte b = [digit_char (unat b div 16), digit_char (unat b mod 16)]"

lemma byte_word_less: "unat (b :: 8 word) < 256"
  using unsigned_less [of b, where 'a = nat] by simp

lemma nibble_less: "unat (b :: 8 word) div 16 < 16"
  using byte_word_less [of b] by (simp add: less_mult_imp_div_less)

lemma hexTable_digit: "d < 16 \<Longrightarrow> hexTable ! d = digit_char d"
proof -
  have "\<forall>d \<in> set [0 ..< 16]. hexTable ! d = digit_char d" by code_simp
  then show "d < 16 \<Longrightarrow> hexTable ! d = digit_char d" by simp
qed

lemma packed_low: "char_of (unat (word_of_nat (of_char a) OR push_bit 8 (word_of_nat (of_char b)) :: 16 word)) = a"
proof -
  have "char_of (take_bit 8 (unat (word_of_nat (of_char a) OR push_bit 8 (word_of_nat (of_char b)) :: 16 word))) = a"
    by (simp add: unsigned_or_eq unsigned_push_bit_eq unsigned_of_nat take_bit_push_bit take_bit_take_bit
        char_of_take_bit_eq)
  then show ?thesis by (simp add: char_of_take_bit_eq)
qed

lemma packed_high:
  "char_of (unat (drop_bit 8 (word_of_nat (of_char a) OR push_bit 8 (word_of_nat (of_char b)) :: 16 word))) = b"
proof -
  have a: "drop_bit 8 (of_char a :: nat) = 0" using byte_less [of a] by (simp add: drop_bit_eq_div)
  show ?thesis
    by (simp add: unsigned_or_eq unsigned_drop_bit_eq unsigned_push_bit_eq unsigned_of_nat take_bit_push_bit take_bit_take_bit
        drop_bit_take_bit drop_bit_push_bit a char_of_take_bit_eq)
qed

lemma hex16_chars:
  "char_of (unat (hex16 b)) = digit_char (unat b div 16)"
  "char_of (unat (drop_bit 8 (hex16 b))) = digit_char (unat b mod 16)"
proof -
  have u: "unat b < 256" by (rule byte_word_less)
  have "unat b div 16 < 16" by (rule nibble_less)
  moreover have "unat b AND 15 = unat b mod 16"
    using take_bit_eq_mod [of 4 "unat b"] by (simp add: take_bit_eq_mask mask_eq_exp_minus_1)
  moreover have "drop_bit 4 (unat b) = unat b div 16" by (simp add: drop_bit_eq_div)
  ultimately have e: "hex16 b = word_of_nat (of_char (digit_char (unat b div 16)))
      OR push_bit 8 (word_of_nat (of_char (digit_char (unat b mod 16))))"
    using u by (simp add: hex16_def buildHex16_def hexTable_digit)
  show "char_of (unat (hex16 b)) = digit_char (unat b div 16)" unfolding e by (rule packed_low)
  show "char_of (unat (drop_bit 8 (hex16 b))) = digit_char (unat b mod 16)" unfolding e by (rule packed_high)
qed

lemma put_hex [simp]:
  "PutUint16 dst i (hex16 b) = dst[i := digit_char (unat b div 16), i + 1 := digit_char (unat b mod 16)]"
  by (simp add: PutUint16_def hex16_chars)

lemma length_Suc_list: "length xs = Suc n \<longleftrightarrow> (\<exists>y ys. xs = y # ys \<and> length ys = n)"
  by (cases xs) auto

lemma length_2_list: "length xs = 2 \<longleftrightarrow> (\<exists>a b. xs = [a, b])"
  by (auto simp: numeral_eq_Suc length_Suc_list)

lemma length_4_list: "length xs = 4 \<longleftrightarrow> (\<exists>a b c d. xs = [a, b, c, d])"
  by (auto simp: numeral_eq_Suc length_Suc_list)

lemma length_8_list: "length xs = 8 \<longleftrightarrow> (\<exists>a b c d e f g h. xs = [a, b, c, d, e, f, g, h])"
  by (auto simp: numeral_eq_Suc length_Suc_list)

lemma Hex16BB_bytes:
  "length dst = 4 \<Longrightarrow> Hex16BB [a, b] dst = hex_byte a @ hex_byte b"
  by (auto simp: Hex16BB_def hex_byte_def length_4_list)

lemma Hex32BB_bytes:
  "length dst = 8 \<Longrightarrow> Hex32BB [a, b, c, d] dst = hex_byte a @ hex_byte b @ hex_byte c @ hex_byte d"
  by (auto simp: Hex32BB_def hex_byte_def length_8_list)

text \<open>Two arrays of the same length that are written everywhere end up equal.\<close>

lemma length_16_list: "length xs = 16 \<longleftrightarrow>
    (\<exists>a b c d e f g h i j k l m n o1 p. xs = [a, b, c, d, e, f, g, h, i, j, k, l, m, n, o1, p])"
  by (auto simp: numeral_eq_Suc length_Suc_list)

lemma Hex64BB_bytes:
  "length src = 8 \<Longrightarrow> length dst = 16 \<Longrightarrow> Hex64BB src dst = concat (map hex_byte src)"
  by (auto simp: Hex64BB_def hex_byte_def length_16_list length_8_list)

text \<open>The integer encoders are the array encoders on the bytes of the integer.\<close>

definition be_bytes :: "nat \<Rightarrow> 'a :: len word \<Rightarrow> 8 word list" where
  "be_bytes k n = map (\<lambda>i. ucast (drop_bit (8 * (k - 1 - i)) n)) [0 ..< k]"

lemma Hex64UB_bytes: "Hex64UB n dst = Hex64BB (be_bytes 8 n) dst"
  by (simp add: Hex64UB_def Hex64BB_def be_bytes_def upt_rec)

lemma Hex32UB_bytes: "Hex32UB n dst = Hex32BB (be_bytes 4 n) dst"
  by (simp add: Hex32UB_def Hex32BB_def be_bytes_def upt_rec)

lemma Hex16UB_bytes: "Hex16UB n dst = Hex16BB (be_bytes 2 n) dst"
  by (simp add: Hex16UB_def Hex16BB_def be_bytes_def upt_rec)

section \<open>Reading back\<close>

definition hex_digit_val :: "char \<Rightarrow> nat" where
  "hex_digit_val c = (if byte_val c < 58 then byte_val c - 48 else byte_val c - 87)"

definition hex_val :: "bytes \<Rightarrow> nat" where
  "hex_val s = foldl (\<lambda>v c. v * 16 + hex_digit_val c) 0 s"

definition is_hex :: "char \<Rightarrow> bool" where
  "is_hex c \<longleftrightarrow> (\<exists>d < 16. c = digit_char d)"

lemma hex_digit_val [simp]: "d < 16 \<Longrightarrow> hex_digit_val (digit_char d) = d"
  by (auto simp: hex_digit_val_def digit_char_def)

lemma hex_byte_digits: "c \<in> set (hex_byte b) \<Longrightarrow> is_hex c"
  using nibble_less [of b] by (auto simp: hex_byte_def is_hex_def intro: exI [of _ "unat b mod 16"])

lemma hex_val_byte: "foldl (\<lambda>v c. v * 16 + hex_digit_val c) v (hex_byte b) = v * 256 + unat b"
proof -
  have "unat b div 16 < 16" by (rule nibble_less)
  then show ?thesis using div_mult_mod_eq [of "unat b" 16] by (simp add: hex_byte_def)
qed

lemma hex_val_bytes:
  "foldl (\<lambda>v c. v * 16 + hex_digit_val c) v (concat (map hex_byte bs)) = foldl (\<lambda>v b. v * 256 + unat b) v bs"
  by (induction bs arbitrary: v) (simp_all add: hex_val_byte)

lemma be_digits: "foldl (\<lambda>v x. v * 256 + x) 0 (map (\<lambda>i. q div 256 ^ (k - 1 - i) mod 256) [0 ..< k]) = (q :: nat) mod 256 ^ k"
proof -
  have "foldl (\<lambda>v x. v * 256 + x) 0 (map (\<lambda>i. q div 256 ^ (k - 1 - i) mod 256) [0 ..< j])
      = q div 256 ^ (k - j) mod 256 ^ j" if "j \<le> k" for j
    using that
  proof (induction j)
    case (Suc j)
    define p where "p = q div 256 ^ (k - Suc j)"
    have k: "k - j = Suc (k - Suc j)" "k - 1 - j = k - Suc j" using Suc.prems by simp_all
    have "q div 256 ^ (k - j) = p div 256"
      unfolding k p_def by (simp add: div_mult2_eq [symmetric] mult.commute)
    moreover have "p div 256 mod 256 ^ j * 256 + p mod 256 = p mod 256 ^ Suc j"
      by (simp add: mod_mult2_eq mult.commute)
    ultimately show ?case using Suc k(2) by (simp add: p_def)
  qed simp
  from this [of k] show ?thesis by simp
qed

lemma foldl_unat: "foldl (\<lambda>v b. v * 256 + unat (b :: 8 word)) v bs = foldl (\<lambda>v x. v * 256 + x) v (map unat bs)"
  by (induction bs arbitrary: v) simp_all

lemma be_bytes_val: "foldl (\<lambda>v b. v * 256 + unat b) 0 (be_bytes k n) = unat n mod 256 ^ k"
proof -
  have "unat (ucast (drop_bit (8 * i) n) :: 8 word) = unat n div 256 ^ i mod 256" for i
  proof -
    have "unat (drop_bit (8 * i) n) = unat n div 256 ^ i"
      unfolding unat_drop_bit_eq drop_bit_eq_div [where 'a = nat] by (simp add: power_mult)
    then show ?thesis by (simp add: unsigned_ucast_eq take_bit_eq_mod)
  qed
  then have "map unat (be_bytes k n) = map (\<lambda>i. unat n div 256 ^ (k - 1 - i) mod 256) [0 ..< k]"
    by (simp add: be_bytes_def)
  then show ?thesis by (simp only: foldl_unat be_digits)
qed

end
