(* ===== verification/RN_Random.thy ===== *)
theory RN_Random
  imports RN_Hex
begin

text \<open>
  \<^verbatim>\<open>pkg/random\<close>: random bytes, integers and strings over a reader the caller may supply, and the identifiers
  \<^verbatim>\<open>TUID64\<close> and \<^verbatim>\<open>TUID128\<close>. A reader is a state with a function from the number of bytes asked for to the bytes
  delivered (at most as many), an error and the next state. The draws of \<^verbatim>\<open>math/rand/v2\<close> and the readings of the
  clock are arguments. Shown: the loops over the reader always end, and what they return.
\<close>

section \<open>Readers\<close>

datatype 'e read_error = EOF | Failed 'e

datatype 'e rnd_error =
    ErrNegativeLength
  | ErrReaderNoProgress
  | ErrInvalidCharMap
  | ErrUnexpectedEOF
  | ErrRead "'e read_error"

type_synonym ('r, 'e) reader = "'r \<Rightarrow> nat \<Rightarrow> bytes \<times> 'e read_error option \<times> 'r"

definition readError :: "'e read_error \<Rightarrow> nat \<Rightarrow> 'e rnd_error" where
  "readError err done = (if err = EOF \<and> done > 0 then ErrUnexpectedEOF else ErrRead err)"

definition maxEmptyReads :: nat where "maxEmptyReads = 100"

text \<open>The loop of \<^verbatim>\<open>readFull\<close>: \<open>acc\<close> is the part of the buffer that is filled, \<open>idle\<close> the consecutive empty reads.\<close>

function readFull_loop ::
  "('r, 'e) reader \<Rightarrow> nat \<Rightarrow> bytes \<Rightarrow> nat \<Rightarrow> 'r \<Rightarrow> ('e rnd_error + bytes) \<times> 'r" where
  "readFull_loop rd want acc idle r =
     (if want \<le> length acc then (Inr acc, r)
      else
        let (bs, err, r') = rd r (want - length acc);
            acc' = acc @ bs
        in if want \<le> length acc' then (Inr (take want acc'), r')
           else case err of
                  Some e \<Rightarrow> (Inl (readError e (length acc')), r')
                | None \<Rightarrow>
                    if bs \<noteq> [] then readFull_loop rd want acc' 0 r'
                    else if maxEmptyReads \<le> idle + 1 then (Inl ErrReaderNoProgress, r')
                    else readFull_loop rd want acc' (idle + 1) r')"
  by pat_completeness auto
termination
  by (relation "measures [\<lambda>(rd, want, acc, idle, r). want - length acc, \<lambda>(rd, want, acc, idle, r). maxEmptyReads - idle]")
     (auto simp: neq_Nil_conv)

declare readFull_loop.simps [simp del]

definition readFull :: "('r, 'e) reader \<Rightarrow> nat \<Rightarrow> 'r \<Rightarrow> ('e rnd_error + bytes) \<times> 'r" where
  "readFull rd want r = readFull_loop rd want [] 0 r"

lemma readFull_loop_length:
  "readFull_loop rd want acc idle r = (Inr b, r') \<Longrightarrow> length acc \<le> want \<Longrightarrow> length b = want"
proof (induction rd want acc idle r rule: readFull_loop.induct)
  case (1 rd want acc idle r)
  obtain bs err r1 where rd: "rd r (want - length acc) = (bs, err, r1)" by (metis prod_cases3)
  show ?case
    using 1(3,4) 1(1,2) [OF _ rd [symmetric] refl] rd
    by (subst (asm) readFull_loop.simps) (fastforce simp: Let_def split: if_splits option.splits)
qed

lemma readFull_length: "readFull rd want r = (Inr b, r') \<Longrightarrow> length b = want"
  using readFull_loop_length [of rd want "[]" 0 r b r'] by (simp add: readFull_def)

section \<open>The generator\<close>

definition chrMapDefault :: bytes where
  "chrMapDefault =
     ''0123456789'' @ ''ABCDEFGHIJKLMNOPQRSTUVWXYZ'' @ ''abcdefghijklmnopqrstuvwxyz''
     @ ''!#$%&()*+,-./:;<=>?@[]^_{|}~''"

definition byteRange :: nat where "byteRange = 256"

text \<open>The reader itself is an argument of the operations; \<open>fallback_hook\<close> tells whether a hook is set.\<close>

record Rnd =
  chrMap :: bytes
  fallback_hook :: bool

datatype rnd_Option = WithByteToCharMap bytes | WithFallbackHook

definition normalize_chrMap :: "bytes \<Rightarrow> bytes" where
  "normalize_chrMap cm = (if length cm = 0 then chrMapDefault else if byteRange < length cm then take byteRange cm else cm)"

fun apply_rnd_option :: "Rnd \<Rightarrow> rnd_Option \<Rightarrow> Rnd" where
  "apply_rnd_option c (WithByteToCharMap cm) = c\<lparr>chrMap := normalize_chrMap cm\<rparr>"
| "apply_rnd_option c WithFallbackHook = c\<lparr>fallback_hook := True\<rparr>"

definition rnd_New :: "rnd_Option list \<Rightarrow> Rnd" where
  "rnd_New opts = foldl apply_rnd_option \<lparr>chrMap = chrMapDefault, fallback_hook = False\<rparr> opts"

definition RandomBytes :: "('r, 'e) reader \<Rightarrow> int \<Rightarrow> 'r \<Rightarrow> ('e rnd_error + bytes) \<times> 'r" where
  "RandomBytes rd n r = (if n < 0 then (Inl ErrNegativeLength, r) else readFull rd (nat n) r)"

text \<open>\<^verbatim>\<open>binary.LittleEndian.Uint64\<close>.\<close>

definition le_word :: "bytes \<Rightarrow> 'a :: len word" where
  "le_word b = word_of_nat (foldr (\<lambda>c v. of_char c + 256 * v) b 0)"

text \<open>The second component tells whether the hook was called; \<open>m\<close> is the draw of the fallback source.\<close>

definition RandUint32 :: "('r, 'e) reader \<Rightarrow> Rnd \<Rightarrow> 32 word \<Rightarrow> 'r \<Rightarrow> 32 word \<times> bool \<times> 'r" where
  "RandUint32 rd c m r =
     (case RandomBytes rd 4 r of
        (Inl _, r') \<Rightarrow> (m, fallback_hook c, r')
      | (Inr b, r') \<Rightarrow> (le_word b, False, r'))"

definition RandUint64 :: "('r, 'e) reader \<Rightarrow> Rnd \<Rightarrow> 64 word \<Rightarrow> 'r \<Rightarrow> 64 word \<times> bool \<times> 'r" where
  "RandUint64 rd c m r =
     (case RandomBytes rd 8 r of
        (Inl _, r') \<Rightarrow> (m, fallback_hook c, r')
      | (Inr b, r') \<Rightarrow> (le_word b, False, r'))"

definition RandHex64 :: "('r, 'e) reader \<Rightarrow> Rnd \<Rightarrow> 64 word \<Rightarrow> 'r \<Rightarrow> bytes" where
  "RandHex64 rd c m r = Hex64 (fst (RandUint64 rd c m r))"

definition RandString64 :: "('r, 'e) reader \<Rightarrow> Rnd \<Rightarrow> 64 word \<Rightarrow> 'r \<Rightarrow> bytes" where
  "RandString64 rd c m r = FormatUint 36 (unat (fst (RandUint64 rd c m r)))"

section \<open>Random strings\<close>

text \<open>\<^verbatim>\<open>mapAccepted\<close>: the buffer is read from \<open>start\<close> on and overwritten from \<open>start\<close> on.\<close>

definition map_accepted_step :: "bytes \<Rightarrow> nat \<Rightarrow> nat \<Rightarrow> bytes \<times> nat \<Rightarrow> nat \<Rightarrow> bytes \<times> nat" where
  "map_accepted_step cm limit cmlen = (\<lambda>(b, filled) j.
     let v = of_char (b ! j)
     in if limit \<le> v then (b, filled) else (b[filled := cm ! (v mod cmlen)], filled + 1))"

definition mapAccepted :: "bytes \<Rightarrow> bytes \<Rightarrow> nat \<Rightarrow> nat \<Rightarrow> nat \<Rightarrow> bytes \<times> nat" where
  "mapAccepted cm b start limit cmlen = foldl (map_accepted_step cm limit cmlen) (b, start) [start ..< length b]"

definition maxStalledPasses :: nat where "maxStalledPasses = 128"

lemma mapAccepted_ge:
  "start \<le> snd (mapAccepted cm b start limit cmlen) \<and> length (fst (mapAccepted cm b start limit cmlen)) = length b"
proof -
  have "start \<le> snd (foldl (map_accepted_step cm limit cmlen) (b, start) js)
      \<and> length (fst (foldl (map_accepted_step cm limit cmlen) (b, start) js)) = length b" for js
    by (induction js rule: rev_induct) (auto simp: map_accepted_step_def Let_def split: prod.splits intro: le_SucI)
  then show ?thesis by (simp add: mapAccepted_def)
qed

lemma pass_progress:
  assumes "readFull rd (length b - filled) r = (Inr bs, r')" "filled < length b"
    "mapAccepted cm (take filled b @ bs) filled limit cmlen = (b', filled')"
  shows "length b' = length b \<and> filled \<le> filled'"
  using readFull_length [OF assms(1)] mapAccepted_ge [of filled cm "take filled b @ bs" limit cmlen] assms(2,3) by simp

function randString_loop ::
  "('r, 'e) reader \<Rightarrow> bytes \<Rightarrow> nat \<Rightarrow> bytes \<Rightarrow> nat \<Rightarrow> nat \<Rightarrow> 'r \<Rightarrow> ('e rnd_error + bytes) \<times> 'r" where
  "randString_loop rd cm limit b filled stalled r =
     (if length b \<le> filled then (Inr b, r)
      else
        case readFull rd (length b - filled) r of
          (Inl e, r') \<Rightarrow> (Inl e, r')
        | (Inr bs, r') \<Rightarrow>
            let (b', filled') = mapAccepted cm (take filled b @ bs) filled limit (length cm)
            in if filled < filled' then randString_loop rd cm limit b' filled' 0 r'
               else if maxStalledPasses \<le> stalled + 1 then (Inl ErrReaderNoProgress, r')
               else randString_loop rd cm limit b' filled' (stalled + 1) r')"
  by pat_completeness auto
termination
proof (relation "measures [\<lambda>(rd, cm, limit, b, filled, stalled, r). length b - filled,
    \<lambda>(rd, cm, limit, b, filled, stalled, r). maxStalledPasses - stalled]", goal_cases)
  case (2 rd cm limit b filled stalled r x y bs xa b' filled')
  then have "length b' = length b"
    using pass_progress [of rd b filled r bs y cm limit "length cm" b' filled'] by simp
  then show ?case using 2 by (simp add: diff_less_mono2)
next
  case (3 rd cm limit b filled stalled r x y bs xa b' filled')
  then have "length b' = length b \<and> filled \<le> filled'"
    using pass_progress [of rd b filled r bs y cm limit "length cm" b' filled'] by simp
  then show ?case using 3 by auto
qed simp

declare randString_loop.simps [simp del]

definition RandString :: "('r, 'e) reader \<Rightarrow> Rnd \<Rightarrow> int \<Rightarrow> 'r \<Rightarrow> ('e rnd_error + bytes) \<times> 'r" where
  "RandString rd c n r =
     (if n < 0 then (Inl ErrNegativeLength, r)
      else
        let cmlen = length (chrMap c)
        in if cmlen < 1 \<or> byteRange < cmlen then (Inl ErrInvalidCharMap, r)
           else randString_loop rd (chrMap c) (byteRange - byteRange mod cmlen) (replicate (nat n) (CHR 0x00)) 0 0 r)"

section \<open>Identifiers with a time\<close>

record TUID128 =
  tuid_t :: "64 word"
  tuid_r :: "64 word"

definition UID128 :: "('r, 'e) reader \<Rightarrow> Rnd \<Rightarrow> int \<Rightarrow> 64 word \<Rightarrow> 'r \<Rightarrow> TUID128" where
  "UID128 rd c unixNano m r = \<lparr>tuid_t = word_of_int unixNano, tuid_r = fst (RandUint64 rd c m r)\<rparr>"

text \<open>\<^verbatim>\<open>Format\<close> writes both halves through sub-arrays of the destination.\<close>

definition TUID128_Format :: "TUID128 \<Rightarrow> bytes \<Rightarrow> bytes" where
  "TUID128_Format u dst = Hex64UB (tuid_t u) (take 16 dst) @ Hex64UB (tuid_r u) (drop 16 dst)"

definition TUID128_Hex :: "TUID128 \<Rightarrow> bytes" where
  "TUID128_Hex u = TUID128_Format u (replicate 32 (CHR 0x00))"

definition TUID128_String :: "TUID128 \<Rightarrow> bytes" where
  "TUID128_String u = FormatUint 36 (unat (tuid_t u)) @ FormatUint 36 (unat (tuid_r u))"

text \<open>
  \<open>t\<close> is the clock in seconds of the epoch; of the calendar of \<^verbatim>\<open>time\<close>, \<open>yearOf\<close> is the year of an instant and
  \<open>startOf\<close> the first second of a year. The remainder of a year truncates.
\<close>

definition UID64 :: "('r, 'e) reader \<Rightarrow> Rnd \<Rightarrow> (int \<Rightarrow> int) \<Rightarrow> (int \<Rightarrow> int) \<Rightarrow> int \<Rightarrow> 32 word \<Rightarrow> 'r \<Rightarrow> 64 word" where
  "UID64 rd c yearOf startOf t m r =
     (let year = yearOf t;
          offset = startOf (year - (year - 10 * go_div year 10))
      in push_bit 32 (word_of_int (t - offset)) + ucast (fst (RandUint32 rd c m r)))"

definition TUID64_Hex :: "64 word \<Rightarrow> bytes" where
  "TUID64_Hex u = Hex64UB u (replicate 16 (CHR 0x00))"

definition TUID64_String :: "64 word \<Rightarrow> bytes" where
  "TUID64_String u = FormatUint 36 (unat u)"

section \<open>What the loops return\<close>

lemma RandomBytes_length: "RandomBytes rd n r = (Inr b, r') \<Longrightarrow> length b = nat n \<and> 0 \<le> n"
  using readFull_length by (auto simp: RandomBytes_def split: if_splits)

text \<open>
  What \<^verbatim>\<open>mapAccepted\<close> leaves in the buffer: before \<open>start\<close> nothing changes, and from there the characters of the
  accepted bytes stand in order.
\<close>

lemma mapAccepted_spec:
  fixes b cm :: bytes and start limit cmlen :: nat
  assumes "start \<le> length b"
  defines "acc \<equiv> map (\<lambda>c. cm ! (of_char c mod cmlen)) (List.filter (\<lambda>c. of_char c < limit) (drop start b))"
  shows "snd (mapAccepted cm b start limit cmlen) = start + length acc
    \<and> length (fst (mapAccepted cm b start limit cmlen)) = length b
    \<and> take (start + length acc) (fst (mapAccepted cm b start limit cmlen)) = take start b @ acc"
proof -
  define kept where "kept j = map (\<lambda>c. cm ! (of_char c mod cmlen))
      (List.filter (\<lambda>c. of_char c < limit) (take (j - start) (drop start b)))" for j
  define P where "P j s \<longleftrightarrow> length (fst s) = length b \<and> snd s = start + length (kept j) \<and> snd s \<le> j \<and> drop j (fst s) = drop j b
      \<and> take (snd s) (fst s) = take start b @ kept j" for j s
  have step: "P (Suc j) (map_accepted_step cm limit cmlen s j)"
    if j: "start \<le> j" "j < length b" and p: "P j s" for j s
  proof -
    obtain d f where s: "s = (d, f)" by (cases s)
    note q = p [unfolded P_def s fst_conv snd_conv]
    have dj: "d ! j = b ! j"
      using q j by (metis hd_drop_conv_nth)
    have dn: "drop (Suc j) d = drop (Suc j) b" using q by (metis drop_Suc tl_drop)
    have "take (Suc j - start) (drop start b) = take (j - start) (drop start b) @ [b ! j]"
      using j by (simp add: Suc_diff_le take_Suc_conv_app_nth)
    then have k: "kept (Suc j) = kept j @ (if of_char (b ! j) < limit then [cm ! (of_char (b ! j) mod cmlen)] else [])"
      by (simp add: kept_def)
    show ?thesis
    proof (cases "of_char (b ! j) < limit")
      case False
      then have "kept (Suc j) = kept j" "map_accepted_step cm limit cmlen (d, f) j = (d, f)"
        using k dj by (simp_all add: map_accepted_step_def Let_def)
      then show ?thesis unfolding P_def s using q dn by auto
    next
      case True
      have f: "f < length d" "f \<le> j" using q j by auto
      have "take f d = take start b @ kept j" using q by blast
      then have "take (Suc f) (d[f := x]) = take start b @ kept j @ [x]" for x
        using f(1) by (simp add: take_Suc_conv_app_nth)
      moreover have "kept (Suc j) = kept j @ [cm ! (of_char (b ! j) mod cmlen)]"
        "map_accepted_step cm limit cmlen (d, f) j = (d[f := cm ! (of_char (b ! j) mod cmlen)], Suc f)"
        using k dj True by (simp_all add: map_accepted_step_def Let_def)
      ultimately show ?thesis unfolding P_def s using q dn f by auto
    qed
  qed
  have "P start (b, start)" by (simp add: P_def kept_def)
  then have "P (length b) (foldl (map_accepted_step cm limit cmlen) (b, start) [start ..< length b])"
    using assms(1) step by (rule foldl_upt_inv)
  moreover have "kept (length b) = acc" by (simp add: kept_def acc_def)
  ultimately show ?thesis by (auto simp: P_def mapAccepted_def)
qed

end
