(* ===== verification/RN_Uuid.thy ===== *)
theory RN_Uuid
  imports RN_Random
begin

text \<open>
  \<^verbatim>\<open>pkg/random/uuid.go\<close>: UUID version 7. A UUID is the list of its 16 bytes. Shown: the shape of the text, the
  version and the variant, and that the first 64 bits are determined by the time and grow with it.
\<close>

section \<open>The code\<close>

type_synonym UUID = "8 word list"

text \<open>
  \<open>ms\<close> and \<open>nano\<close> are what the clock reads, in milliseconds of the epoch and as the nanosecond of the second; \<open>m\<close> is
  the draw of the fallback source, written little-endian.
\<close>

definition scaled_ns :: "int \<Rightarrow> int" where
  "scaled_ns nano = drop_bit 20 (nano mod 1000000 * 4294)"

definition UUIDv7 :: "('r, 'e) reader \<Rightarrow> Rnd \<Rightarrow> int \<Rightarrow> int \<Rightarrow> 64 word \<Rightarrow> 'r \<Rightarrow> UUID \<times> bool \<times> 'r" where
  "UUIDv7 rd c ms nano m r =
     (let ns = scaled_ns nano;
          (rb, hook, r') = (case readFull rd 8 r of
              (Inl _, r') \<Rightarrow> (rev (be_bytes 8 m), fallback_hook c, r')
            | (Inr b, r') \<Rightarrow> (map (\<lambda>x. word_of_nat (of_char x)) b, False, r'))
      in ([word_of_int (drop_bit 40 ms), word_of_int (drop_bit 32 ms), word_of_int (drop_bit 24 ms),
           word_of_int (drop_bit 16 ms), word_of_int (drop_bit 8 ms), word_of_int ms,
           0x70 OR (0x0F AND word_of_int (drop_bit 8 ns)), word_of_int ns,
           0x80 OR (0x3F AND rb ! 0)] @ take 7 (drop 1 rb), hook, r'))"

definition uuidSep :: char where "uuidSep = CHR ''-''"

text \<open>\<^verbatim>\<open>Format\<close> writes each group through a sub-array of the destination.\<close>

definition UUID_Format :: "UUID \<Rightarrow> bytes \<Rightarrow> bytes" where
  "UUID_Format u dst =
     Hex32BB (take 4 u) (take 8 dst) @ [uuidSep]
     @ Hex16BB (take 2 (drop 4 u)) (take 4 (drop 9 dst)) @ [uuidSep]
     @ Hex16BB (take 2 (drop 6 u)) (take 4 (drop 14 dst)) @ [uuidSep]
     @ Hex16BB (take 2 (drop 8 u)) (take 4 (drop 19 dst)) @ [uuidSep]
     @ Hex32BB (take 4 (drop 10 u)) (take 8 (drop 24 dst))
     @ Hex16BB (take 2 (drop 14 u)) (take 4 (drop 32 dst))"

definition UUID_Byte :: "UUID \<Rightarrow> bytes" where
  "UUID_Byte u = UUID_Format u (replicate 36 (CHR 0x00))"

definition UUID_String :: "UUID \<Rightarrow> bytes" where
  "UUID_String u = UUID_Byte u"

section \<open>The text\<close>

definition uuid_groups :: "UUID \<Rightarrow> bytes" where
  "uuid_groups u =
     concat (map hex_byte (take 4 u)) @ [uuidSep] @ concat (map hex_byte (take 2 (drop 4 u))) @ [uuidSep]
     @ concat (map hex_byte (take 2 (drop 6 u))) @ [uuidSep] @ concat (map hex_byte (take 2 (drop 8 u))) @ [uuidSep]
     @ concat (map hex_byte (drop 10 u))"

lemma UUID_String_groups: "length u = 16 \<Longrightarrow> UUID_String u = uuid_groups u"
  by (auto simp: length_16_list UUID_String_def UUID_Byte_def UUID_Format_def uuid_groups_def Hex32BB_bytes Hex16BB_bytes)

lemma sep_not_hex: "is_hex c \<Longrightarrow> c \<noteq> uuidSep"
proof -
  have "\<forall>d \<in> set [0 ..< 16]. digit_char d \<noteq> uuidSep" by code_simp
  then show "is_hex c \<Longrightarrow> c \<noteq> uuidSep" by (auto simp: is_hex_def)
qed

lemma filter_hex_bytes: "List.filter (\<lambda>c. c \<noteq> uuidSep) (concat (map hex_byte bs)) = concat (map hex_byte bs)"
  using sep_not_hex hex_byte_digits by (fastforce simp: filter_id_conv)

lemma uuid_digits: "List.filter (\<lambda>c. c \<noteq> uuidSep) (uuid_groups u) = concat (map hex_byte u)"
proof -
  have d: "drop (i + 2) u = drop 2 (drop i u)" for i by (simp add: add.commute)
  have g: "take 2 (drop 4 u) @ drop 6 u = drop 4 u" "take 2 (drop 6 u) @ drop 8 u = drop 6 u"
    "take 2 (drop 8 u) @ drop 10 u = drop 8 u"
    using d [of 4] d [of 6] d [of 8] by (simp_all only: numeral_plus_numeral add_num_simps append_take_drop_id)
  have "take 4 u @ take 2 (drop 4 u) @ take 2 (drop 6 u) @ take 2 (drop 8 u) @ drop 10 u = u"
    by (simp only: g append_take_drop_id)
  then have "concat (map hex_byte u) = concat (map hex_byte (take 4 u)) @ concat (map hex_byte (take 2 (drop 4 u)))
      @ concat (map hex_byte (take 2 (drop 6 u))) @ concat (map hex_byte (take 2 (drop 8 u))) @ concat (map hex_byte (drop 10 u))"
    by (metis concat_append map_append)
  then show ?thesis by (simp add: uuid_groups_def filter_hex_bytes)
qed

definition be_value :: "8 word list \<Rightarrow> nat" where
  "be_value bs = foldl (\<lambda>v b. v * 256 + unat b) 0 bs"

lemma hex_val_uuid:
  "length u = 16 \<Longrightarrow> hex_val (List.filter (\<lambda>c. c \<noteq> uuidSep) (UUID_String u)) = be_value u"
  by (simp add: UUID_String_groups uuid_digits hex_val_def hex_val_bytes be_value_def)

lemma be_value_append: "be_value (xs @ ys) = be_value xs * 256 ^ length ys + be_value ys"
proof -
  have "foldl (\<lambda>v b. v * 256 + unat (b :: 8 word)) v ys = v * 256 ^ length ys + be_value ys" for v
    by (induction ys rule: rev_induct) (simp_all add: be_value_def algebra_simps)
  from this [of "be_value xs"] show ?thesis by (simp only: be_value_def foldl_append)
qed

lemma be_value_less: "be_value bs < 256 ^ length bs"
proof (induction bs rule: rev_induct)
  case (snoc b bs)
  then have "be_value bs + 1 \<le> 256 ^ length bs" by simp
  then have "(be_value bs + 1) * 256 \<le> 256 ^ length bs * 256" by (rule mult_right_mono) simp
  then show ?case using byte_word_less [of b] by (simp add: be_value_def)
qed (simp add: be_value_def)

section \<open>The bytes\<close>

lemma UUIDv7_length: "length (fst (UUIDv7 rd c ms nano m r)) = 16"
proof -
  have "length rb = 8" if "readFull rd 8 r = (Inr rb, r')" for rb r' using readFull_length [OF that] .
  then show ?thesis by (auto simp: UUIDv7_def Let_def be_bytes_def split: prod.splits sum.splits)
qed

lemma scaled_ns_range: "0 \<le> scaled_ns nano \<and> scaled_ns nano < 4096"
proof -
  have "nano mod 1000000 \<le> 999999" by (simp add: zless_imp_add1_zle [of _ 1000000, simplified])
  then have "nano mod 1000000 * 4294 \<le> 999999 * 4294" by simp
  then have "nano mod 1000000 * 4294 div 2 ^ 20 \<le> 999999 * 4294 div 2 ^ 20" by (rule zdiv_mono1) simp
  moreover have "0 \<le> nano mod 1000000 * 4294 div 2 ^ 20" by (simp only: pos_imp_zdiv_nonneg_iff zero_less_power)
  moreover have "(999999 * 4294 div 2 ^ 20 :: int) < 4096" by simp
  ultimately show ?thesis unfolding scaled_ns_def drop_bit_eq_div by (blast intro: order.strict_trans1)
qed

lemma scaled_ns_mono: "a mod 1000000 \<le> b mod 1000000 \<Longrightarrow> scaled_ns a \<le> scaled_ns b"
  by (simp add: scaled_ns_def drop_bit_eq_div zdiv_mono1)

lemma unat_int_byte: "0 \<le> x \<Longrightarrow> unat (word_of_int x :: 8 word) = nat x mod 256"
  by (simp add: unsigned_of_int take_bit_eq_mod nat_mod_distrib)

lemma unat_shifted_byte: "0 \<le> x \<Longrightarrow> unat (word_of_int (drop_bit (8 * i) x) :: 8 word) = nat x div 256 ^ i mod 256"
proof -
  assume x: "0 \<le> x"
  have e: "drop_bit (8 * i) x = x div 256 ^ i" by (simp add: drop_bit_eq_div power_mult)
  have "0 \<le> x div 256 ^ i" using x by (simp add: pos_imp_zdiv_nonneg_iff)
  then show ?thesis unfolding e using unat_int_byte [of "x div 256 ^ i"] x by (simp add: nat_div_distrib nat_power_eq)
qed

lemma version_byte: "unat (0x70 OR (0x0F AND w) :: 8 word) = 112 + unat w mod 16"
proof -
  have "\<forall>x \<in> set [0 ..< 16]. (112 :: nat) OR x = 112 + x" by code_simp
  moreover have "unat w mod 16 < 16" by simp
  ultimately have "(112 :: nat) OR (unat w mod 16) = 112 + unat w mod 16" by (metis atLeastLessThan_iff set_upt zero_le)
  moreover have "(15 :: nat) AND unat w = unat w mod 16"
    using take_bit_eq_mod [of 4 "unat w"] by (simp add: take_bit_eq_mask mask_eq_exp_minus_1 and.commute)
  ultimately show ?thesis by (simp add: unsigned_or_eq unsigned_and_eq)
qed

lemma variant_byte: "unat (0x80 OR (0x3F AND w) :: 8 word) = 128 + unat w mod 64"
proof -
  have "\<forall>x \<in> set [0 ..< 64]. (128 :: nat) OR x = 128 + x" by code_simp
  moreover have "unat w mod 64 < 64" by simp
  ultimately have "(128 :: nat) OR (unat w mod 64) = 128 + unat w mod 64" by (metis atLeastLessThan_iff set_upt zero_le)
  moreover have "(63 :: nat) AND unat w = unat w mod 64"
    using take_bit_eq_mod [of 6 "unat w"] by (simp add: take_bit_eq_mask mask_eq_exp_minus_1 and.commute)
  ultimately show ?thesis by (simp add: unsigned_or_eq unsigned_and_eq)
qed

lemma time_bytes:
  assumes "0 \<le> ms"
  shows "be_value [word_of_int (drop_bit 40 ms), word_of_int (drop_bit 32 ms), word_of_int (drop_bit 24 ms),
      word_of_int (drop_bit 16 ms), word_of_int (drop_bit 8 ms), word_of_int ms] = nat ms mod 256 ^ 6"
proof -
  have "map unat ([word_of_int (drop_bit 40 ms), word_of_int (drop_bit 32 ms), word_of_int (drop_bit 24 ms),
      word_of_int (drop_bit 16 ms), word_of_int (drop_bit 8 ms), word_of_int ms] :: 8 word list)
    = map (\<lambda>i. nat ms div 256 ^ (6 - 1 - i) mod 256) [0 ..< 6]"
    using unat_shifted_byte [OF assms, of 5] unat_shifted_byte [OF assms, of 4] unat_shifted_byte [OF assms, of 3]
      unat_shifted_byte [OF assms, of 2] unat_shifted_byte [OF assms, of 1] unat_int_byte [OF assms]
    by (simp add: upt_rec)
  then show ?thesis unfolding be_value_def foldl_unat by (simp only: be_digits)
qed

text \<open>The first 64 bits: the milliseconds, the version and the scaled nanoseconds.\<close>

lemma UUIDv7_head:
  assumes "0 \<le> ms" "ms < 2 ^ 48"
  shows "be_value (take 8 (fst (UUIDv7 rd c ms nano m r))) = (nat ms * 16 + 7) * 4096 + nat (scaled_ns nano)"
proof -
  define ns where "ns = scaled_ns nano"
  have ns: "0 \<le> ns" "ns < 4096" using scaled_ns_range by (simp_all add: ns_def)
  have hi: "unat (word_of_int (drop_bit 8 ns) :: 8 word) = nat ns div 256"
    using unat_shifted_byte [OF ns(1), of 1] ns by (simp add: less_mult_imp_div_less nat_less_iff)
  have h16: "nat ns div 256 < 16" using ns by (simp add: less_mult_imp_div_less nat_less_iff)
  have t: "take 8 (fst (UUIDv7 rd c ms nano m r)) = [word_of_int (drop_bit 40 ms), word_of_int (drop_bit 32 ms),
      word_of_int (drop_bit 24 ms), word_of_int (drop_bit 16 ms), word_of_int (drop_bit 8 ms), word_of_int ms]
      @ [0x70 OR (0x0F AND word_of_int (drop_bit 8 ns)), word_of_int ns]"
    by (simp add: UUIDv7_def Let_def ns_def split: prod.splits)
  have "be_value [0x70 OR (0x0F AND word_of_int (drop_bit 8 ns)), word_of_int ns] = 7 * 4096 + nat ns"
    using h16 div_mult_mod_eq [of "nat ns" 256]
    by (simp add: be_value_def version_byte hi unat_int_byte [OF ns(1)])
  moreover have "nat ms mod 256 ^ 6 = nat ms" using assms by (simp add: nat_less_iff)
  ultimately show ?thesis unfolding t be_value_append time_bytes [OF assms(1)] by (simp add: ns_def)
qed

end
