(* ===== verification/RN_Props.thy ===== *)
theory RN_Props
  imports RN_Uuid
begin

text \<open>The properties of \<^verbatim>\<open>pkg/uhex\<close> and \<^verbatim>\<open>pkg/random\<close>.\<close>

section \<open>Hexadecimal text\<close>

text \<open>Every encoder writes the digits of its input: they read back as the input, whatever the destination held.\<close>

lemma be_bytes_length [simp]: "length (be_bytes k n) = k"
  by (simp add: be_bytes_def)

lemma hex_digits_word:
  fixes n :: "'a :: len word"
  assumes "unat n < 256 ^ k"
  shows "length (concat (map hex_byte (be_bytes k n))) = 2 * k
    \<and> (\<forall>c \<in> set (concat (map hex_byte (be_bytes k n))). is_hex c)
    \<and> hex_val (concat (map hex_byte (be_bytes k n))) = unat n"
proof -
  have "length (concat (map hex_byte bs)) = 2 * length bs" for bs by (induction bs) (simp_all add: hex_byte_def)
  moreover have "hex_val (concat (map hex_byte (be_bytes k n))) = unat n"
    using be_bytes_val [of k n] assms by (simp only: hex_val_def hex_val_bytes mod_less)
  ultimately show ?thesis using hex_byte_digits by fastforce
qed

lemma hex64_reads_back:
  "length (Hex64 n) = 16 \<and> (\<forall>c \<in> set (Hex64 n). is_hex c) \<and> hex_val (Hex64 n) = unat n"
  using hex_digits_word [of n 8] unsigned_less [of n, where 'a = nat]
  by (simp add: Hex64_def Hex64UB_bytes Hex64BB_bytes)

lemma length_be4: "\<exists>a b c d. be_bytes 4 n = [a, b, c, d]"
  using length_4_list [of "be_bytes 4 n"] by simp

lemma length_be2: "\<exists>a b. be_bytes 2 n = [a, b]"
  using length_2_list [of "be_bytes 2 n"] by simp

lemma hex32_reads_back:
  "length (Hex32 n) = 8 \<and> (\<forall>c \<in> set (Hex32 n). is_hex c) \<and> hex_val (Hex32 n) = unat n"
proof -
  have "Hex32 n = concat (map hex_byte (be_bytes 4 n))"
    using length_be4 [of n] by (auto simp: Hex32_def Hex32UB_bytes Hex32BB_bytes)
  then show ?thesis using hex_digits_word [of n 4] unsigned_less [of n, where 'a = nat] by simp
qed

lemma hex16_reads_back:
  "length (Hex16 n) = 4 \<and> (\<forall>c \<in> set (Hex16 n). is_hex c) \<and> hex_val (Hex16 n) = unat n"
proof -
  have "Hex16 n = concat (map hex_byte (be_bytes 2 n))"
    using length_be2 [of n] by (auto simp: Hex16_def Hex16UB_bytes Hex16BB_bytes)
  then show ?thesis using hex_digits_word [of n 2] unsigned_less [of n, where 'a = nat] by simp
qed

lemma two_bytes: "replicate 2 x = [x, x]"
  by (simp add: numeral_2_eq_2)

lemma hex8_digits: "Hex8 n = hex_byte n"
  by (simp add: Hex8_def Hex8UB_def hex_byte_def two_bytes)

lemma hex_arrays:
  "length src = 8 \<Longrightarrow> Hex64B src = concat (map hex_byte src)"
  "Hex32B [a, b, c, d] = concat (map hex_byte [a, b, c, d])"
  "Hex16B [a, b] = concat (map hex_byte [a, b])"
  "Hex8B [a] = hex_byte a"
  by (simp_all add: Hex64B_def Hex64BB_bytes Hex32B_def Hex32BB_bytes Hex16B_def Hex16BB_bytes Hex8B_def Hex8BB_def
      hex_byte_def two_bytes)

lemma uid128_hex: "TUID128_Hex u = Hex64 (tuid_t u) @ Hex64 (tuid_r u)"
  by (simp add: TUID128_Hex_def TUID128_Format_def Hex64_def)

lemma hex_val_append: "hex_val (s @ t) = hex_val s * 16 ^ length t + hex_val t"
proof -
  have "foldl (\<lambda>v c. v * 16 + hex_digit_val c) v t = v * 16 ^ length t + hex_val t" for v
    by (induction t rule: rev_induct) (simp_all add: hex_val_def algebra_simps)
  from this [of "hex_val s"] show ?thesis by (simp only: hex_val_def foldl_append)
qed

lemma uid128_reads_back: "hex_val (TUID128_Hex u) = unat (tuid_t u) * 2 ^ 64 + unat (tuid_r u)"
  using hex64_reads_back [of "tuid_t u"] hex64_reads_back [of "tuid_r u"] by (simp add: uid128_hex hex_val_append)

section \<open>Random strings\<close>

text \<open>The map of a generator from \<^verbatim>\<open>New\<close> is never empty and never too long.\<close>

lemma rnd_New_chrMap: "1 \<le> length (chrMap (rnd_New opts)) \<and> length (chrMap (rnd_New opts)) \<le> byteRange"
proof -
  have d: "1 \<le> length chrMapDefault \<and> length chrMapDefault \<le> byteRange" by (simp add: chrMapDefault_def byteRange_def)
  have "1 \<le> length (chrMap (foldl apply_rnd_option c opts)) \<and> length (chrMap (foldl apply_rnd_option c opts)) \<le> byteRange"
    if "1 \<le> length (chrMap c) \<and> length (chrMap c) \<le> byteRange" for c
    using that
  proof (induction opts arbitrary: c)
    case (Cons opt opts)
    have "1 \<le> length (chrMap (apply_rnd_option c opt)) \<and> length (chrMap (apply_rnd_option c opt)) \<le> byteRange"
      using Cons.prems d by (cases opt) (auto simp: normalize_chrMap_def byteRange_def Suc_le_eq)
    then show ?case using Cons.IH by simp
  qed simp
  then show ?thesis using d by (simp add: rnd_New_def)
qed

lemma randString_loop_spec:
  "randString_loop rd cm limit b filled stalled r = (Inr s, r') \<Longrightarrow> cm \<noteq> [] \<Longrightarrow> set (take filled b) \<subseteq> set cm \<Longrightarrow>
     filled \<le> length b \<Longrightarrow> length s = length b \<and> set s \<subseteq> set cm"
proof (induction rd cm limit b filled stalled r rule: randString_loop.induct)
  case (1 rd cm limit b filled stalled r)
  show ?case
  proof (cases "length b \<le> filled")
    case True
    then show ?thesis using 1(3,5,6) by (subst (asm) randString_loop.simps) auto
  next
    case False
    obtain q r1 where rf: "readFull rd (length b - filled) r = (q, r1)" by (metis prod.exhaust)
    obtain bs where q: "q = Inr bs"
      using 1(3) False rf by (cases q) (subst (asm) randString_loop.simps, auto)+
    define b0 where "b0 = take filled b @ bs"
    obtain b' f' where m: "mapAccepted cm b0 filled limit (length cm) = (b', f')" by (metis prod.exhaust)
    have "length bs = length b - filled" using readFull_length [of rd "length b - filled" r bs r1] rf q by simp
    then have len: "length b0 = length b" using False by (simp add: b0_def)
    define acc where "acc = map (\<lambda>c. cm ! (of_char c mod length cm)) (List.filter (\<lambda>c. of_char c < limit) (drop filled b0))"
    have sp: "f' = filled + length acc" "length b' = length b" "take f' b' = take filled b0 @ acc"
      using mapAccepted_spec [of filled b0 cm limit "length cm"] m len False by (auto simp: acc_def)
    have "set acc \<subseteq> set cm" using 1(4) by (auto simp: acc_def)
    moreover have "length acc \<le> length bs" using False by (simp add: acc_def b0_def)
    moreover have "take filled b0 = take filled b" using False by (simp add: b0_def)
    ultimately have inv: "set (take f' b') \<subseteq> set cm" "f' \<le> length b'"
      using sp 1(5) len False by (auto simp: b0_def)
    show ?thesis
    proof (cases "filled < f'")
      case True
      have "randString_loop rd cm limit b' f' 0 r1 = (Inr s, r')"
        using 1(3) False rf q m True by (subst (asm) randString_loop.simps) (simp add: b0_def)
      then show ?thesis using 1(1) [OF False rf [symmetric] q refl m [unfolded b0_def, symmetric] True] 1(4) inv sp(2) by simp
    next
      case no: False
      then have "\<not> maxStalledPasses \<le> stalled + 1" "randString_loop rd cm limit b' f' (stalled + 1) r1 = (Inr s, r')"
        using 1(3) False rf q m by (subst (asm) randString_loop.simps, simp add: b0_def split: if_splits)+
      then show ?thesis using 1(2) [OF False rf [symmetric] q refl m [unfolded b0_def, symmetric] no] 1(4) inv sp(2) by simp
    qed
  qed
qed

text \<open>A random string has the length asked for and consists of characters of the map.\<close>

lemma RandString_spec:
  "RandString rd c n r = (Inr s, r') \<Longrightarrow> length s = nat n \<and> set s \<subseteq> set (chrMap c)"
  using randString_loop_spec [of rd "chrMap c" _ "replicate (nat n) (CHR 0x00)" 0 0 r s r']
  by (auto simp: RandString_def Let_def split: if_splits)

text \<open>Of the accepted bytes, equally many choose each character.\<close>

lemma RandString_uniform:
  assumes "k < cmlen" "cmlen \<le> byteRange"
  shows "card {v. v < byteRange - byteRange mod cmlen \<and> v mod cmlen = k} = byteRange div cmlen"
proof -
  have l: "byteRange - byteRange mod cmlen = byteRange div cmlen * cmlen" by (metis minus_mod_eq_div_mult)
  have "{v. v < byteRange div cmlen * cmlen \<and> v mod cmlen = k} = (\<lambda>i. i * cmlen + k) ` {..< byteRange div cmlen}"
  proof (intro set_eqI iffI)
    fix v assume v: "v \<in> {v. v < byteRange div cmlen * cmlen \<and> v mod cmlen = k}"
    then have "v div cmlen < byteRange div cmlen" by (simp add: less_mult_imp_div_less)
    moreover have "v = v div cmlen * cmlen + k" using v by (metis (mono_tags, lifting) div_mult_mod_eq mem_Collect_eq)
    ultimately show "v \<in> (\<lambda>i. i * cmlen + k) ` {..< byteRange div cmlen}" by blast
  next
    fix v assume "v \<in> (\<lambda>i. i * cmlen + k) ` {..< byteRange div cmlen}"
    then obtain i where i: "v = i * cmlen + k" "i < byteRange div cmlen" by blast
    then have "(i + 1) * cmlen \<le> byteRange div cmlen * cmlen" by (intro mult_le_mono1) simp
    then show "v \<in> {v. v < byteRange div cmlen * cmlen \<and> v mod cmlen = k}" using i assms(1) by simp
  qed
  moreover have "inj_on (\<lambda>i. i * cmlen + k) {..< byteRange div cmlen}" using assms(1) by (auto intro: inj_onI)
  ultimately show ?thesis by (simp add: l card_image)
qed

section \<open>UUID version 7\<close>

lemma hex_byte_version: "unat b = 112 + x \<Longrightarrow> x < 16 \<Longrightarrow> hex_byte b ! 0 = CHR ''7''"
proof -
  assume b: "unat b = 112 + x" "x < 16"
  then have "unat b div 16 = 7" by simp
  moreover have "digit_char 7 = CHR ''7''" by code_simp
  ultimately show ?thesis by (simp add: hex_byte_def)
qed

lemma hex_byte_variant: "unat b = 128 + x \<Longrightarrow> x < 64 \<Longrightarrow> hex_byte b ! 0 \<in> set ''89ab''"
proof -
  assume b: "unat b = 128 + x" "x < 64"
  then have "unat b div 16 = 8 + x div 16" "x div 16 < 4" by (simp_all add: less_mult_imp_div_less)
  moreover have "\<forall>d \<in> set [0 ..< 4]. digit_char (8 + d) \<in> set ''89ab''" by code_simp
  ultimately show ?thesis by (simp add: hex_byte_def)
qed

lemma time_prefix_less:
  "(x' * 16 + 7) * 4096 + y' \<le> (x * 16 + 7) * 4096 + y \<Longrightarrow> (x :: nat) < x' \<Longrightarrow> y < 4096 \<Longrightarrow> False"
  by simp

definition uuid_number :: "UUID \<Rightarrow> nat" where
  "uuid_number u = hex_val (List.filter (\<lambda>c. c \<noteq> uuidSep) (UUID_String u))"

lemma uuid_top:
  assumes "0 \<le> ms" "ms < 2 ^ 48"
  shows "uuid_number (fst (UUIDv7 rd c ms nano m r)) div 2 ^ 64 = (nat ms * 16 + 7) * 4096 + nat (scaled_ns nano)"
proof -
  define u where "u = fst (UUIDv7 rd c ms nano m r)"
  have len: "length u = 16" unfolding u_def by (rule UUIDv7_length)
  have "be_value u = be_value (take 8 u) * 256 ^ 8 + be_value (drop 8 u)"
    using be_value_append [of "take 8 u" "drop 8 u"] len by (simp del: power_numeral)
  moreover have "be_value (drop 8 u) < 256 ^ 8" using be_value_less [of "drop 8 u"] len by simp
  ultimately have "be_value u div 256 ^ 8 = be_value (take 8 u)" by simp
  then show ?thesis
    using UUIDv7_head [OF assms, of rd c nano m r] hex_val_uuid [OF len] by (simp add: uuid_number_def u_def)
qed

lemma uuid_shape:
  fixes u :: UUID
  assumes "length u = 16" "\<exists>w. u ! 6 = 0x70 OR (0x0F AND w)" "\<exists>w. u ! 8 = 0x80 OR (0x3F AND w)"
  shows "length (UUID_String u) = 36 \<and> UUID_String u ! 8 = uuidSep \<and> UUID_String u ! 13 = uuidSep
    \<and> UUID_String u ! 18 = uuidSep \<and> UUID_String u ! 23 = uuidSep
    \<and> UUID_String u ! 14 = CHR ''7'' \<and> UUID_String u ! 19 \<in> set ''89ab''"
proof -
  obtain a b c d e f g h i j k l m n o1 p where u: "u = [a, b, c, d, e, f, g, h, i, j, k, l, m, n, o1, p]"
    using assms(1) [unfolded length_16_list] by (elim exE) (rule that)
  have "unat g = 112 + unat w mod 16" if "g = 0x70 OR (0x0F AND w)" for w using that version_byte by simp
  then have "hex_byte g ! 0 = CHR ''7''" using assms(2) hex_byte_version u by force
  moreover have "unat i = 128 + unat w mod 64" if "i = 0x80 OR (0x3F AND w)" for w using that variant_byte by simp
  then have "hex_byte i ! 0 \<in> set ''89ab''" using assms(3) hex_byte_variant u by force
  ultimately show ?thesis using UUID_String_groups [OF assms(1)]
    by (simp add: u uuid_groups_def hex_byte_def del: set_simps)
qed

text \<open>
  C34. A UUID of version 7 is printed as 36 characters in the groups 8-4-4-4-12, with the version digit 7 and a variant
  digit 8, 9, a or b; its first 64 bits are the 48 bits of the milliseconds, the version, and twelve bits of
  the scaled nanoseconds, whatever the reader delivers and also when it fails. So, read as numbers, UUIDs of
  different milliseconds are ordered by time, and within a millisecond the first 64 bits never decrease.
\<close>

theorem uuid_v7_text:
  fixes ms ms' nano nano' :: int
  assumes "0 \<le> ms" "ms < 2 ^ 48" "0 \<le> ms'" "ms' < 2 ^ 48"
  shows "(let u = fst (UUIDv7 rd c ms nano m r); u' = fst (UUIDv7 rd c ms' nano' m' r'); s = UUID_String u
     in length s = 36 \<and> s ! 8 = uuidSep \<and> s ! 13 = uuidSep \<and> s ! 18 = uuidSep \<and> s ! 23 = uuidSep
        \<and> s ! 14 = CHR ''7'' \<and> s ! 19 \<in> set ''89ab''
        \<and> uuid_number u div 2 ^ 64 = (nat ms * 16 + 7) * 4096 + nat (scaled_ns nano)
        \<and> (ms < ms' \<longrightarrow> uuid_number u < uuid_number u')
        \<and> (ms = ms' \<and> nano mod 1000000 \<le> nano' mod 1000000 \<longrightarrow> uuid_number u div 2 ^ 64 \<le> uuid_number u' div 2 ^ 64))"
proof -
  define u u' where "u = fst (UUIDv7 rd c ms nano m r)" and "u' = fst (UUIDv7 rd c ms' nano' m' r')"
  have len: "length u = 16" unfolding u_def by (rule UUIDv7_length)
  have "\<exists>w. u ! 6 = 0x70 OR (0x0F AND w)" "\<exists>w. u ! 8 = 0x80 OR (0x3F AND w)"
    unfolding u_def by (auto simp: UUIDv7_def Let_def split: prod.splits sum.splits)
  then have shape: "length (UUID_String u) = 36 \<and> UUID_String u ! 8 = uuidSep \<and> UUID_String u ! 13 = uuidSep
      \<and> UUID_String u ! 18 = uuidSep \<and> UUID_String u ! 23 = uuidSep
      \<and> UUID_String u ! 14 = CHR ''7'' \<and> UUID_String u ! 19 \<in> set ''89ab''"
    using uuid_shape [OF len] by blast
  have top: "uuid_number u div 2 ^ 64 = (nat ms * 16 + 7) * 4096 + nat (scaled_ns nano)"
    unfolding u_def by (rule uuid_top [OF assms(1,2)])
  have top': "uuid_number u' div 2 ^ 64 = (nat ms' * 16 + 7) * 4096 + nat (scaled_ns nano')"
    unfolding u'_def by (rule uuid_top [OF assms(3,4)])
  have less: "uuid_number u < uuid_number u'" if "ms < ms'"
  proof (rule ccontr)
    assume "\<not> ?thesis"
    then have "uuid_number u' div 2 ^ 64 \<le> uuid_number u div 2 ^ 64" by (intro div_le_mono) simp
    moreover have "nat ms < nat ms'" using that assms by simp
    moreover have "nat (scaled_ns nano) < 4096" using scaled_ns_range [of nano] by linarith
    ultimately show False unfolding top top' by (rule time_prefix_less)
  qed
  have mono: "uuid_number u div 2 ^ 64 \<le> uuid_number u' div 2 ^ 64"
    if "ms = ms' \<and> nano mod 1000000 \<le> nano' mod 1000000"
    using that scaled_ns_mono [of nano nano'] unfolding top top' by simp
  show ?thesis using shape top less mono unfolding Let_def u_def u'_def by blast
qed

text \<open>A reader that always fails: the identifier is made of the fallback draw.\<close>

definition broken_reader :: "(unit, unit) reader" where
  "broken_reader r n = ([], Some EOF, r)"

theorem uuid_v7_text_witness:
  "length (UUID_String (fst (UUIDv7 broken_reader (rnd_New []) 1700000000000 999999 0 ()))) = 36
   \<and> uuid_number (fst (UUIDv7 broken_reader (rnd_New []) 1700000000000 999999 0 ())) div 2 ^ 64
       = (1700000000000 * 16 + 7) * 4096 + 4095
   \<and> uuid_number (fst (UUIDv7 broken_reader (rnd_New []) 1700000000000 999999 0 ()))
       < uuid_number (fst (UUIDv7 broken_reader (rnd_New []) 1700000000001 0 0 ()))"
proof -
  have "scaled_ns 999999 = 4095" by (simp add: scaled_ns_def drop_bit_eq_div)
  then show ?thesis
    using uuid_v7_text [of 1700000000000 1700000000001 broken_reader "rnd_New []" 999999 0 "()" 0 0 "()"]
    by (simp add: Let_def)
qed

end
