(* ===== verification/PW_Params.thy ===== *)
theory PW_Params
  imports RN_Random
begin

text \<open>
  \<^verbatim>\<open>pkg/passwordhash\<close>, \<^verbatim>\<open>options.go\<close> and the checks of \<^verbatim>\<open>passwordhash.go\<close>: the Argon2 parameters, how they are
  configured, and which are accepted for hashing and for verification. Integers keep their width; products
  are computed in 64 bits as in the code.
\<close>

section \<open>Constants and errors\<close>

definition DefaultAlgo :: bytes where "DefaultAlgo = ''argon2id''"
definition argon2_Version :: "8 word" where "argon2_Version = 0x13"
definition DefaultKeyLen :: "32 word" where "DefaultKeyLen = 32"
definition minKeyLen :: "64 word" where "minKeyLen = 4"
definition minHashKeyLen :: "32 word" where "minHashKeyLen = 16"
definition DefaultSaltLen :: "32 word" where "DefaultSaltLen = 16"
definition minSaltLen :: "64 word" where "minSaltLen = 1"
definition minHashSaltLen :: "32 word" where "minHashSaltLen = 8"
definition DefaultTime :: "32 word" where "DefaultTime = 3"
definition minTime :: "32 word" where "minTime = 1"
definition DefaultMemory :: "32 word" where "DefaultMemory = 64 * 1024"
definition minMemory :: "32 word" where "minMemory = 8"
definition memBlock :: "32 word" where "memBlock = 4"
definition minThreads :: "8 word" where "minThreads = 1"
definition defaultThreads :: "8 word" where "defaultThreads = 4"
definition DefaultMinPasswordLength :: "32 word" where "DefaultMinPasswordLength = 8"
definition minPasswordLength :: "32 word" where "minPasswordLength = 1"
definition DefaultMaxPasswordLength :: "32 word" where "DefaultMaxPasswordLength = 4096"
definition maxVerifyTime :: "32 word" where "maxVerifyTime = 1024"
definition maxVerifyMemory :: "32 word" where "maxVerifyMemory = 4194304"
definition maxVerifyKeyLen :: "32 word" where "maxVerifyKeyLen = 1024"
definition maxVerifySaltLen :: "32 word" where "maxVerifySaltLen = 1024"
definition defaultVerifyCostMultiplier :: "32 word" where "defaultVerifyCostMultiplier = 4"
definition minVerifyCostMultiplier :: "32 word" where "minVerifyCostMultiplier = 1"
definition maxHashLen :: nat where "maxHashLen = 16384"

lemmas pw_constants =
  argon2_Version_def DefaultKeyLen_def minKeyLen_def minHashKeyLen_def DefaultSaltLen_def minSaltLen_def
  minHashSaltLen_def DefaultTime_def minTime_def DefaultMemory_def minMemory_def memBlock_def minThreads_def
  defaultThreads_def DefaultMinPasswordLength_def minPasswordLength_def DefaultMaxPasswordLength_def
  maxVerifyTime_def maxVerifyMemory_def maxVerifyKeyLen_def maxVerifySaltLen_def defaultVerifyCostMultiplier_def
  minVerifyCostMultiplier_def

datatype 'e pw_error =
    ErrPasswordTooShort
  | ErrPasswordTooLong
  | ErrInvalidParams
  | ErrInvalidHashData
  | ErrAlgoMismatch
  | ErrVersionMismatch
  | ErrInvalidPepperKey
  | ErrRandom "'e rnd_error"
  | ErrEncoding 'e

section \<open>Formats\<close>

type_synonym Format = "8 word"

definition FormatJSON :: Format where "FormatJSON = 0"
definition FormatPHC :: Format where "FormatPHC = 1"

definition normalizeFormat :: "Format \<Rightarrow> Format" where
  "normalizeFormat f = (if f = FormatPHC then FormatPHC else FormatJSON)"

definition formatBit :: "Format \<Rightarrow> 8 word" where
  "formatBit f = push_bit (unat f) 1"

section \<open>Parameters\<close>

text \<open>
  \<open>rnd\<close> is \<open>None\<close> for the nil pointer of parameters not built by \<^verbatim>\<open>New\<close>. The unexported fields of parameters read
  from a stored hash have their zero values.
\<close>

record Params =
  Algo :: bytes
  Version :: "8 word"
  KeyLen :: "32 word"
  SaltLen :: "32 word"
  Time :: "32 word"
  Memory :: "32 word"
  Threads :: "8 word"
  minPLen :: "32 word"
  maxPLen :: "32 word"
  format :: Format
  acceptedFormats :: "8 word"
  verifyCostMultiplier :: "32 word"
  rnd :: "Rnd option"

record Hashed =
  HParams :: "Params option"
  Salt :: bytes
  Key :: bytes

definition zero_Params :: Params where
  "zero_Params = \<lparr>Algo = [], Version = 0, KeyLen = 0, SaltLen = 0, Time = 0, Memory = 0, Threads = 0, minPLen = 0,
     maxPLen = 0, format = FormatJSON, acceptedFormats = 0, verifyCostMultiplier = 0, rnd = None\<rparr>"

definition defaultParams :: Params where
  "defaultParams = \<lparr>Algo = DefaultAlgo, Version = argon2_Version, KeyLen = DefaultKeyLen, SaltLen = DefaultSaltLen,
     Time = DefaultTime, Memory = DefaultMemory, Threads = defaultThreads, minPLen = DefaultMinPasswordLength,
     maxPLen = DefaultMaxPasswordLength, format = FormatJSON, acceptedFormats = formatBit FormatJSON,
     verifyCostMultiplier = defaultVerifyCostMultiplier, rnd = Some (rnd_New [])\<rparr>"

datatype pw_Option =
    WithKeyLen "32 word"
  | WithSaltLen "32 word"
  | WithTime "32 word"
  | WithMemory "32 word"
  | WithThreads "8 word"
  | WithMinPasswordLength "32 word"
  | WithMaxPasswordLength "32 word"
  | WithVerifyCostMultiplier "32 word"
  | WithFormat Format "Format list"

definition accepted_formats :: "Format \<Rightarrow> Format list \<Rightarrow> 8 word" where
  "accepted_formats f accept =
     foldl (\<lambda>m a. if a = FormatJSON \<or> a = FormatPHC then m OR formatBit a else m) (formatBit f) accept"

fun apply_pw_option :: "Params \<Rightarrow> pw_Option \<Rightarrow> Params" where
  "apply_pw_option ph (WithKeyLen v) = ph\<lparr>KeyLen := min (max minHashKeyLen v) maxVerifyKeyLen\<rparr>"
| "apply_pw_option ph (WithSaltLen v) = ph\<lparr>SaltLen := min (max minHashSaltLen v) maxVerifySaltLen\<rparr>"
| "apply_pw_option ph (WithTime v) = ph\<lparr>Time := min (max minTime v) maxVerifyTime\<rparr>"
| "apply_pw_option ph (WithMemory v) = ph\<lparr>Memory := min (max minMemory v) maxVerifyMemory\<rparr>"
| "apply_pw_option ph (WithThreads v) = ph\<lparr>Threads := max minThreads v\<rparr>"
| "apply_pw_option ph (WithMinPasswordLength v) = ph\<lparr>minPLen := max minPasswordLength v\<rparr>"
| "apply_pw_option ph (WithMaxPasswordLength v) = ph\<lparr>maxPLen := v\<rparr>"
| "apply_pw_option ph (WithVerifyCostMultiplier v) = ph\<lparr>verifyCostMultiplier := max minVerifyCostMultiplier v\<rparr>"
| "apply_pw_option ph (WithFormat f accept) =
     ph\<lparr>format := normalizeFormat f, acceptedFormats := accepted_formats (normalizeFormat f) accept\<rparr>"

definition adjustMemory :: "32 word \<Rightarrow> 32 word \<Rightarrow> 32 word" where
  "adjustMemory m p = (let block = memBlock * p in max (2 * block) ((m div block) * block))"

definition pw_New :: "pw_Option list \<Rightarrow> Params" where
  "pw_New opts =
     (let ph = foldl apply_pw_option defaultParams opts;
          ph = ph\<lparr>Memory := adjustMemory (Memory ph) (ucast (Threads ph))\<rparr>
      in ph\<lparr>maxPLen := max (maxPLen ph) (minPLen ph)\<rparr>)"

section \<open>Checks\<close>

definition outOfRange :: "64 word \<Rightarrow> 64 word \<Rightarrow> 64 word \<Rightarrow> bool" where
  "outOfRange value minValue maxValue \<longleftrightarrow> value < minValue \<or> value > maxValue"

definition validateHashCostParams :: "Params \<Rightarrow> 'e pw_error + unit" where
  "validateHashCostParams ph =
     (if outOfRange (ucast (Time ph)) (ucast minTime) (ucast maxVerifyTime) then Inl ErrInvalidParams
      else if Threads ph < minThreads then Inl ErrInvalidParams
      else if outOfRange (ucast (KeyLen ph)) (ucast minHashKeyLen) (ucast maxVerifyKeyLen) then Inl ErrInvalidParams
      else if outOfRange (ucast (SaltLen ph)) (ucast minHashSaltLen) (ucast maxVerifySaltLen) then Inl ErrInvalidParams
      else if outOfRange (ucast (Memory ph)) (ucast minMemory) (ucast maxVerifyMemory) then Inl ErrInvalidParams
      else Inr ())"

definition validateHashParams :: "Params \<Rightarrow> 'e pw_error + unit" where
  "validateHashParams ph =
     (if rnd ph = None then Inl ErrInvalidParams
      else if maxPLen ph < minPLen ph then Inl ErrInvalidParams
      else if Algo ph \<noteq> DefaultAlgo then Inl ErrInvalidParams
      else if Version ph \<noteq> argon2_Version then Inl ErrInvalidParams
      else validateHashCostParams ph)"

definition verifyTimeCeiling :: "Params \<Rightarrow> 64 word" where
  "verifyTimeCeiling ph = min (ucast (verifyCostMultiplier ph) * ucast (Time ph)) (ucast maxVerifyTime)"

definition verifyMemoryCeiling :: "Params \<Rightarrow> 64 word" where
  "verifyMemoryCeiling ph = min (ucast (verifyCostMultiplier ph) * ucast (Memory ph)) (ucast maxVerifyMemory)"

definition validateStoredParamBounds :: "Params \<Rightarrow> Params \<Rightarrow> 'e pw_error + unit" where
  "validateStoredParamBounds ph p =
     (if outOfRange (ucast (Time p)) (ucast minTime) (verifyTimeCeiling ph) then Inl ErrInvalidHashData
      else if outOfRange (ucast (Memory p)) (ucast minMemory) (verifyMemoryCeiling ph) then Inl ErrInvalidHashData
      else if Threads p < minThreads then Inl ErrInvalidHashData
      else if outOfRange (ucast (KeyLen p)) minKeyLen (ucast maxVerifyKeyLen) then Inl ErrInvalidHashData
      else if outOfRange (ucast (SaltLen p)) minSaltLen (ucast maxVerifySaltLen) then Inl ErrInvalidHashData
      else Inr ())"

definition validateStoredLengths :: "Params \<Rightarrow> Hashed \<Rightarrow> 'e pw_error + unit" where
  "validateStoredLengths p data =
     (if length (Key data) \<noteq> unat (KeyLen p) then Inl ErrInvalidHashData
      else if length (Salt data) \<noteq> unat (SaltLen p) then Inl ErrInvalidHashData
      else Inr ())"

text \<open>The data is never the nil pointer where the code calls this.\<close>

definition validateVerifyData :: "Params \<Rightarrow> Hashed \<Rightarrow> 'e pw_error + unit" where
  "validateVerifyData ph data =
     (case HParams data of
        None \<Rightarrow> Inl ErrInvalidHashData
      | Some p \<Rightarrow> ok_then (validateStoredParamBounds ph p) (\<lambda>_. validateStoredLengths p data))"

definition validateHashLen :: "bytes \<Rightarrow> 'e pw_error + unit" where
  "validateHashLen hash = (if maxHashLen < length hash then Inl ErrInvalidHashData else Inr ())"

definition validatePepperKey :: "bytes \<Rightarrow> 'e pw_error + unit" where
  "validatePepperKey key =
     (if length key = 16 \<or> length key = 24 \<or> length key = 32 then Inr () else Inl ErrInvalidPepperKey)"

section \<open>Configurations from \<open>New\<close>\<close>

text \<open>Words are compared by their values.\<close>

lemma unat_min: "unat (min a b) = min (unat a) (unat b)" for a b :: "'a :: len word"
  by (simp add: min_def word_le_nat_alt)

lemma unat_max: "unat (max a b) = max (unat a) (unat b)" for a b :: "'a :: len word"
  by (simp add: max_def word_le_nat_alt)

lemma unat_ucast64: "unat (ucast (w :: 32 word) :: 64 word) = unat w"
  using unsigned_less [of w, where 'a = nat] by (simp add: unsigned_ucast_eq take_bit_nat_eq_self_iff)

lemma unat32_less: "unat (w :: 32 word) < 4294967296"
  using unsigned_less [of w, where 'a = nat] by simp

lemma outOfRange_nat: "outOfRange v lo hi \<longleftrightarrow> unat v < unat lo \<or> unat hi < unat v"
  by (auto simp: outOfRange_def word_less_nat_alt)

lemma unat_product: "unat (ucast (a :: 32 word) * ucast (b :: 32 word) :: 64 word) = unat a * unat b"
proof -
  have "unat a * unat b \<le> 4294967295 * 4294967295"
    using unat32_less [of a] unat32_less [of b] by (intro mult_le_mono) simp_all
  then show ?thesis by (simp add: unat_word_ariths unat_ucast64)
qed

lemma verifyTimeCeiling_nat: "unat (verifyTimeCeiling ph) = min (unat (verifyCostMultiplier ph) * unat (Time ph)) 1024"
  by (simp add: verifyTimeCeiling_def unat_min unat_product pw_constants)

lemma verifyMemoryCeiling_nat:
  "unat (verifyMemoryCeiling ph) = min (unat (verifyCostMultiplier ph) * unat (Memory ph)) 4194304"
  by (simp add: verifyMemoryCeiling_def unat_min unat_product pw_constants)

text \<open>The invariant that options keep and \<^verbatim>\<open>New\<close> completes.\<close>

definition configured :: "Params \<Rightarrow> bool" where
  "configured ph \<longleftrightarrow>
     Algo ph = DefaultAlgo \<and> Version ph = argon2_Version
     \<and> 16 \<le> unat (KeyLen ph) \<and> unat (KeyLen ph) \<le> 1024 \<and> 8 \<le> unat (SaltLen ph) \<and> unat (SaltLen ph) \<le> 1024
     \<and> 1 \<le> unat (Time ph) \<and> unat (Time ph) \<le> 1024 \<and> 8 \<le> unat (Memory ph) \<and> unat (Memory ph) \<le> 4194304
     \<and> 1 \<le> unat (Threads ph) \<and> 1 \<le> unat (minPLen ph) \<and> 1 \<le> unat (verifyCostMultiplier ph) \<and> rnd ph \<noteq> None
     \<and> (format ph = FormatJSON \<or> format ph = FormatPHC) \<and> acceptedFormats ph AND formatBit (format ph) \<noteq> 0"

lemma formatBit_values: "formatBit FormatJSON = 1" "formatBit FormatPHC = 2"
  by (simp_all add: formatBit_def FormatJSON_def FormatPHC_def)

lemma or_and_absorb: "f OR (x AND f) = f" for f x :: "8 word"
  by (rule bit_word_eqI) (auto simp: bit_simps)

lemma accepted_formats_self: "accepted_formats f accept AND formatBit f = formatBit f"
proof -
  have "foldl (\<lambda>m a. if a = FormatJSON \<or> a = FormatPHC then m OR formatBit a else m) m accept AND formatBit f = formatBit f"
    if "m AND formatBit f = formatBit f" for m
    using that
  proof (induction accept arbitrary: m)
    case (Cons a accept)
    have "(m OR x) AND formatBit f = formatBit f" for x
      unfolding bit.conj_disj_distrib2 Cons.prems by (rule or_and_absorb)
    then show ?case using Cons by simp
  qed simp
  then show ?thesis by (simp add: accepted_formats_def)
qed

lemma configured_option: "configured ph \<Longrightarrow> configured (apply_pw_option ph opt)"
proof (cases opt)
  case (WithFormat f accept)
  assume "configured ph"
  moreover have "normalizeFormat f = FormatJSON \<or> normalizeFormat f = FormatPHC" by (simp add: normalizeFormat_def)
  moreover from this have "formatBit (normalizeFormat f) \<noteq> 0" using formatBit_values by auto
  ultimately show ?thesis by (simp add: WithFormat configured_def accepted_formats_self)
qed (auto simp: configured_def unat_min unat_max pw_constants)

lemma configured_options: "configured ph \<Longrightarrow> configured (foldl apply_pw_option ph opts)"
  by (induction opts arbitrary: ph) (simp_all add: configured_option)

lemma configured_default: "configured defaultParams"
  by (simp add: configured_def defaultParams_def pw_constants formatBit_values)

lemma unat_round_down: "unat ((m div k) * k) = unat m div unat k * unat k" for m k :: "32 word"
proof -
  have "unat m div unat k * unat k \<le> unat m" by (rule div_times_less_eq_dividend)
  also have "\<dots> < 4294967296" by (rule unat32_less)
  finally show ?thesis using unat_word_ariths(2) [of "m div k" k] by (simp add: unat_div_distrib)
qed

lemma adjustMemory_range:
  assumes "8 \<le> unat m" "unat m \<le> 4194304" "1 \<le> unat (p :: 8 word)"
  shows "8 \<le> unat (adjustMemory m (ucast p)) \<and> unat (adjustMemory m (ucast p)) \<le> 4194304"
proof -
  define b where "b = 4 * unat p"
  have p: "unat p < 256" by (rule byte_word_less)
  have up: "unat (ucast p :: 32 word) = unat p" using p by (simp add: unsigned_ucast_eq take_bit_nat_eq_self_iff)
  have ub: "unat (memBlock * ucast p) = b" using p by (simp add: memBlock_def unat_word_ariths up b_def)
  have u2: "unat (2 * (memBlock * ucast p)) = 2 * b" using p ub
    unat_word_ariths(2) [of 2 "memBlock * ucast p"] by (simp add: b_def)
  have d: "unat m div b * b \<le> unat m" by (rule div_times_less_eq_dividend)
  have um: "unat ((m div (memBlock * ucast p)) * (memBlock * ucast p)) = unat m div b * b"
    unfolding unat_round_down ub ..
  have "unat (adjustMemory m (ucast p)) = max (2 * b) (unat m div b * b)"
    by (simp only: adjustMemory_def Let_def unat_max u2 um)
  moreover have "4 \<le> b" "b \<le> 1020" using assms(3) p by (simp_all add: b_def)
  ultimately show ?thesis using d assms(2) by linarith
qed

lemma configured_New: "configured (pw_New opts) \<and> minPLen (pw_New opts) \<le> maxPLen (pw_New opts)"
proof -
  define ph where "ph = foldl apply_pw_option defaultParams opts"
  have c: "configured ph" unfolding ph_def by (rule configured_options [OF configured_default])
  then have "8 \<le> unat (adjustMemory (Memory ph) (ucast (Threads ph)))
      \<and> unat (adjustMemory (Memory ph) (ucast (Threads ph))) \<le> 4194304"
    using adjustMemory_range unfolding configured_def by blast
  then show ?thesis using c by (simp add: pw_New_def ph_def [symmetric] Let_def configured_def)
qed

lemma validateHashParams_ok:
  "configured ph \<Longrightarrow> minPLen ph \<le> maxPLen ph \<Longrightarrow> validateHashParams ph = Inr ()"
  by (auto simp: configured_def validateHashParams_def validateHashCostParams_def outOfRange_nat unat_ucast64
      word_less_nat_alt word_le_nat_alt pw_constants)

end
