(* ===== verification/PW_Base64.thy ===== *)
theory PW_Base64
  imports Go_Format
begin

text \<open>
  \<^verbatim>\<open>encoding/base64\<close> with the standard alphabet, padded (\<^verbatim>\<open>StdEncoding\<close>) or not (\<^verbatim>\<open>RawStdEncoding\<close>), and
  decoding with or without the check of the trailing bits (\<^verbatim>\<open>Strict\<close>). The decoder skips line breaks.
  Shown: what was encoded is decoded, and the strict decoder accepts nothing else.
\<close>

section \<open>The alphabet\<close>

definition b64_char :: "nat \<Rightarrow> char" where
  "b64_char n = char_of (if n < 26 then 65 + n else if n < 52 then 71 + n else if n < 62 then n - 4
                         else if n = 62 then 43 else (47::nat))"

definition b64_val :: "char \<Rightarrow> nat option" where
  "b64_val c =
     (let x = byte_val c
      in if 65 \<le> x \<and> x \<le> 90 then Some (x - 65) else if 97 \<le> x \<and> x \<le> 122 then Some (x - 71)
         else if 48 \<le> x \<and> x \<le> 57 then Some (x + 4) else if x = 43 then Some 62
         else if x = 47 then Some 63 else None)"

lemma byte_val_b64: "n < 64 \<Longrightarrow> byte_val (b64_char n) =
    (if n < 26 then 65 + n else if n < 52 then 71 + n else if n < 62 then n - 4 else if n = 62 then 43 else 47)"
  by (auto simp: b64_char_def)

lemma b64_val_char [simp]: "n < 64 \<Longrightarrow> b64_val (b64_char n) = Some n"
  by (auto simp: b64_val_def byte_val_b64 Let_def)

lemma char_of_byte: "byte_val c = n \<Longrightarrow> c = char_of n"
  by (metis char_of_char)

lemma b64_val_Some: "b64_val c = Some v \<Longrightarrow> v < 64 \<and> c = b64_char v"
  by (auto simp: b64_val_def Let_def b64_char_def split: if_splits intro: char_of_byte)

definition b64_alphabet :: "char \<Rightarrow> bool" where
  "b64_alphabet c \<longleftrightarrow> b64_val c \<noteq> None"

lemma b64_alphabet_char: "n < 64 \<Longrightarrow> b64_alphabet (b64_char n)"
  by (simp add: b64_alphabet_def)

lemma b64_alphabet_specials:
  "\<not> b64_alphabet (CHR ''$'')" "\<not> b64_alphabet (CHR ''='')" "\<not> b64_alphabet (CHR 0x0A)" "\<not> b64_alphabet (CHR 0x0D)"
  by (simp_all add: b64_alphabet_def b64_val_def)

section \<open>Encoding\<close>

definition quantum_chars :: "nat \<Rightarrow> bytes" where
  "quantum_chars v =
     [b64_char (v div 262144 mod 64), b64_char (v div 4096 mod 64), b64_char (v div 64 mod 64), b64_char (v mod 64)]"

fun b64_encode :: "bool \<Rightarrow> bytes \<Rightarrow> bytes" where
  "b64_encode pad [] = []"
| "b64_encode pad [a] =
     take 2 (quantum_chars (byte_val a * 65536)) @ (if pad then ''=='' else [])"
| "b64_encode pad [a, b] =
     take 3 (quantum_chars (byte_val a * 65536 + byte_val b * 256)) @ (if pad then ''='' else [])"
| "b64_encode pad (a # b # c # s) =
     quantum_chars (byte_val a * 65536 + byte_val b * 256 + byte_val c) @ b64_encode pad s"

section \<open>Decoding\<close>

text \<open>The bytes of a quantum of \<open>dlen\<close> characters with the values \<open>v\<close>.\<close>

definition quantum_bytes :: "bool \<Rightarrow> nat \<Rightarrow> nat \<Rightarrow> bytes option" where
  "quantum_bytes strict dlen v =
     (let x0 = v div 65536 mod 256; x1 = v div 256 mod 256; x2 = v mod 256
      in if dlen = 4 then Some [char_of x0, char_of x1, char_of x2]
         else if dlen = 3 then if strict \<and> x2 \<noteq> 0 then None else Some [char_of x0, char_of x1]
         else if strict \<and> (x1 \<noteq> 0 \<or> x2 \<noteq> 0) then None else Some [char_of x0])"

definition quantum2 :: "bool \<Rightarrow> char \<Rightarrow> char \<Rightarrow> bytes option" where
  "quantum2 strict c1 c2 =
     do { v1 \<leftarrow> b64_val c1; v2 \<leftarrow> b64_val c2; quantum_bytes strict 2 (v1 * 262144 + v2 * 4096) }"

definition quantum3 :: "bool \<Rightarrow> char \<Rightarrow> char \<Rightarrow> char \<Rightarrow> bytes option" where
  "quantum3 strict c1 c2 c3 =
     do { v1 \<leftarrow> b64_val c1; v2 \<leftarrow> b64_val c2; v3 \<leftarrow> b64_val c3;
          quantum_bytes strict 3 (v1 * 262144 + v2 * 4096 + v3 * 64) }"

definition quantum4 :: "bool \<Rightarrow> char \<Rightarrow> char \<Rightarrow> char \<Rightarrow> char \<Rightarrow> bytes option" where
  "quantum4 strict c1 c2 c3 c4 =
     do { v1 \<leftarrow> b64_val c1; v2 \<leftarrow> b64_val c2; v3 \<leftarrow> b64_val c3; v4 \<leftarrow> b64_val c4;
          quantum_bytes strict 4 (v1 * 262144 + v2 * 4096 + v3 * 64 + v4) }"

fun b64_quanta :: "bool \<Rightarrow> bool \<Rightarrow> bytes \<Rightarrow> bytes option" where
  "b64_quanta pad strict [] = Some []"
| "b64_quanta pad strict [c1] = None"
| "b64_quanta pad strict [c1, c2] = (if pad then None else quantum2 strict c1 c2)"
| "b64_quanta pad strict [c1, c2, c3] = (if pad then None else quantum3 strict c1 c2 c3)"
| "b64_quanta pad strict (c1 # c2 # c3 # c4 # s) =
     (if pad \<and> c4 = CHR ''='' \<and> s = []
      then if c3 = CHR ''='' then quantum2 strict c1 c2 else quantum3 strict c1 c2 c3
      else do { q \<leftarrow> quantum4 strict c1 c2 c3 c4; r \<leftarrow> b64_quanta pad strict s; Some (q @ r) })"

definition is_newline :: "char \<Rightarrow> bool" where
  "is_newline c \<longleftrightarrow> c = CHR 0x0A \<or> c = CHR 0x0D"

definition b64_decode :: "bool \<Rightarrow> bool \<Rightarrow> bytes \<Rightarrow> bytes option" where
  "b64_decode pad strict s = b64_quanta pad strict (List.filter (\<lambda>c. \<not> is_newline c) s)"

section \<open>Round trips\<close>

lemma horner: "b < k \<Longrightarrow> ((a::nat) * k + b) div k = a \<and> (a * k + b) mod k = b"
  by simp

lemma horner_div: "(v::nat) div (k * m) * m + v div k mod m = v div k"
  by (simp add: div_mult2_eq)

lemma quantum_split:
  assumes "(v::nat) < 16777216"
  shows "v div 262144 mod 64 * 262144 + v div 4096 mod 64 * 4096 + v div 64 mod 64 * 64 + v mod 64 = v"
proof -
  define q1 q2 q3 where "q1 = v div 64" and "q2 = v div 4096" and "q3 = v div 262144"
  have "q3 mod 64 = q3" using assms by (simp add: q3_def less_mult_imp_div_less)
  moreover have "q3 * 64 + q2 mod 64 = q2" using horner_div [of v 4096 64] by (simp add: q2_def q3_def)
  moreover have "q2 * 64 + q1 mod 64 = q1" using horner_div [of v 64 64] by (simp add: q1_def q2_def)
  moreover have "q1 * 64 + v mod 64 = v" unfolding q1_def by (rule div_mult_mod_eq)
  ultimately show ?thesis unfolding q1_def [symmetric] q2_def [symmetric] q3_def [symmetric] by linarith
qed

lemma byte_parts:
  fixes a b c :: nat
  assumes "a < 256" "b < 256" "c < 256"
  defines "v \<equiv> a * 65536 + b * 256 + c"
  shows "v < 16777216" "v div 65536 mod 256 = a" "v div 256 mod 256 = b" "v mod 256 = c"
proof -
  have v: "v = (a * 256 + b) * 256 + c" by (simp add: v_def)
  have m: "v div 256 = a * 256 + b" "v mod 256 = c" unfolding v using horner assms(3) by blast+
  have n: "v div 65536 = v div 256 div 256" by (simp add: div_mult2_eq [symmetric])
  show "v < 16777216" using assms by (simp add: v_def)
  show "v div 65536 mod 256 = a" "v div 256 mod 256 = b" "v mod 256 = c"
    unfolding n m using horner [OF assms(2)] assms(1) by simp_all
qed

lemma quantum4_chars:
  "v < 16777216 \<Longrightarrow> quantum_chars v = [c1, c2, c3, c4] \<Longrightarrow> quantum4 strict c1 c2 c3 c4 = quantum_bytes strict 4 v"
  using quantum_split [of v] by (auto simp: quantum4_def quantum_chars_def)

lemma low_chars: "v mod 64 = 0 \<Longrightarrow> (v::nat) < 16777216 \<Longrightarrow>
    v div 262144 mod 64 * 262144 + v div 4096 mod 64 * 4096 + v div 64 mod 64 * 64 = v"
  using quantum_split [of v] by simp

lemma lower_chars:
  assumes "v mod 4096 = 0" "(v::nat) < 16777216"
  shows "v div 262144 mod 64 * 262144 + v div 4096 mod 64 * 4096 = v"
proof -
  obtain k where "v = 4096 * k" using assms(1) by (auto simp: mod_eq_0_iff_dvd elim: dvdE)
  then have "v = 64 * (64 * k)" by simp
  then have "v div 64 mod 64 = 0" "v mod 64 = 0" by simp_all
  then show ?thesis using low_chars [OF _ assms(2)] by linarith
qed

lemma b64_quanta_encode [simp]: "b64_quanta pad strict (b64_encode pad s) = Some s"
proof (induction pad s rule: b64_encode.induct)
  case (2 pad a)
  define v where "v = byte_val a * 65536"
  have v: "v < 16777216" "v div 65536 mod 256 = byte_val a" "v div 256 mod 256 = 0" "v mod 256 = 0"
    using byte_parts [of "byte_val a" 0 0] by (simp_all add: v_def)
  have "v mod 4096 = 0" by (simp add: v_def mod_eq_0_iff_dvd)
  then have "quantum2 strict (b64_char (v div 262144 mod 64)) (b64_char (v div 4096 mod 64)) = quantum_bytes strict 2 v"
    using v(1) lower_chars [of v] by (simp add: quantum2_def)
  then have "quantum2 strict (b64_char (v div 262144 mod 64)) (b64_char (v div 4096 mod 64)) = Some [a]"
    using v by (simp add: quantum_bytes_def Let_def)
  then show ?case by (simp add: v_def [symmetric] quantum_chars_def)
next
  case (3 pad a b)
  define v where "v = byte_val a * 65536 + byte_val b * 256"
  have v: "v < 16777216" "v div 65536 mod 256 = byte_val a" "v div 256 mod 256 = byte_val b" "v mod 256 = 0"
    using byte_parts [of "byte_val a" "byte_val b" 0] by (simp_all add: v_def)
  have "v mod 64 = 0" by (simp add: v_def mod_eq_0_iff_dvd dvd_add)
  then have "quantum3 strict (b64_char (v div 262144 mod 64)) (b64_char (v div 4096 mod 64))
      (b64_char (v div 64 mod 64)) = Some [a, b]"
    using v low_chars [of v] by (simp add: quantum3_def quantum_bytes_def Let_def)
  moreover have "b64_char (v div 64 mod 64) \<noteq> CHR ''=''"
    using b64_alphabet_char [of "v div 64 mod 64"] b64_alphabet_specials(2) by force
  ultimately show ?case by (simp add: v_def [symmetric] quantum_chars_def)
next
  case (4 pad a b c s)
  define v where "v = byte_val a * 65536 + byte_val b * 256 + byte_val c"
  have v: "v < 16777216" "v div 65536 mod 256 = byte_val a" "v div 256 mod 256 = byte_val b" "v mod 256 = byte_val c"
    using byte_parts [of "byte_val a" "byte_val b" "byte_val c"] by (simp_all add: v_def)
  have "quantum4 strict (b64_char (v div 262144 mod 64)) (b64_char (v div 4096 mod 64))
      (b64_char (v div 64 mod 64)) (b64_char (v mod 64)) = Some [a, b, c]"
    using v quantum4_chars [OF v(1)] by (simp add: quantum_chars_def quantum_bytes_def Let_def)
  moreover have "b64_char (v mod 64) \<noteq> CHR ''=''"
    using b64_alphabet_char [of "v mod 64"] b64_alphabet_specials(2) by force
  ultimately show ?case using 4 by (simp add: v_def [symmetric] quantum_chars_def)
qed simp

lemma quantum_chars_alphabet: "c \<in> set (quantum_chars v) \<Longrightarrow> b64_alphabet c"
  by (auto simp: quantum_chars_def b64_alphabet_char)

lemma b64_encode_chars: "c \<in> set (b64_encode pad s) \<Longrightarrow> b64_alphabet c \<or> c = CHR ''=''"
  by (induction pad s rule: b64_encode.induct) (auto dest!: in_set_takeD quantum_chars_alphabet split: if_splits)

lemma b64_encode_raw_chars: "c \<in> set (b64_encode False s) \<Longrightarrow> b64_alphabet c"
  by (induction False s rule: b64_encode.induct) (auto dest!: in_set_takeD quantum_chars_alphabet)

lemma b64_encode_no_newline: "c \<in> set (b64_encode pad s) \<Longrightarrow> \<not> is_newline c"
  using b64_encode_chars [of c pad s] b64_alphabet_specials by (auto simp: is_newline_def)

lemma b64_roundtrip [simp]: "b64_decode pad strict (b64_encode pad s) = Some s"
proof -
  have "List.filter (\<lambda>c. \<not> is_newline c) (b64_encode pad s) = b64_encode pad s"
    using b64_encode_no_newline by (simp add: filter_id_conv)
  then show ?thesis by (simp add: b64_decode_def)
qed

lemma b64_encode_length: "3 * length (b64_encode pad s) \<le> 4 * length s + 8"
  by (induction pad s rule: b64_encode.induct) (auto simp: quantum_chars_def)

section \<open>The strict decoder accepts encodings only\<close>

lemma quantum_join:
  fixes v1 v2 v3 v4 :: nat
  assumes "v1 < 64" "v2 < 64" "v3 < 64" "v4 < 64"
  defines "v \<equiv> v1 * 262144 + v2 * 4096 + v3 * 64 + v4"
  shows "v < 16777216" "quantum_chars v = [b64_char v1, b64_char v2, b64_char v3, b64_char v4]"
proof -
  have v: "v = ((v1 * 64 + v2) * 64 + v3) * 64 + v4" by (simp add: v_def)
  have a: "v div 64 = (v1 * 64 + v2) * 64 + v3" "v mod 64 = v4" unfolding v using horner assms(4) by blast+
  have n: "v div 4096 = v div 64 div 64" "v div 262144 = v div 64 div 64 div 64"
    by (simp_all add: div_mult2_eq [symmetric])
  have b: "v div 64 div 64 = v1 * 64 + v2" "v div 64 mod 64 = v3" unfolding a using horner assms(3) by blast+
  have c: "v div 64 div 64 div 64 = v1" "v div 64 div 64 mod 64 = v2" unfolding b using horner assms(2) by blast+
  show "v < 16777216" using assms by (simp add: v_def)
  show "quantum_chars v = [b64_char v1, b64_char v2, b64_char v3, b64_char v4]"
    unfolding quantum_chars_def n c b(2) a(2) using assms(1) by simp
qed

lemma bytes_join:
  assumes "(v::nat) < 16777216"
  shows "v div 65536 mod 256 * 65536 + v div 256 mod 256 * 256 + v mod 256 = v"
proof -
  define q1 q2 where "q1 = v div 256" and "q2 = v div 65536"
  have "q2 mod 256 = q2" using assms by (simp add: q2_def less_mult_imp_div_less)
  moreover have "q2 * 256 + q1 mod 256 = q1" using horner_div [of v 256 256] by (simp add: q1_def q2_def)
  moreover have "q1 * 256 + v mod 256 = v" unfolding q1_def by (rule div_mult_mod_eq)
  ultimately show ?thesis unfolding q1_def [symmetric] q2_def [symmetric] by linarith
qed

lemma strict_inverse: "b64_quanta False True s = Some x \<Longrightarrow> s = b64_encode False x"
proof (induction False True s arbitrary: x rule: b64_quanta.induct)
  case (3 c1 c2)
  then obtain v1 v2 where v: "b64_val c1 = Some v1" "b64_val c2 = Some v2"
    and q: "quantum_bytes True 2 (v1 * 262144 + v2 * 4096) = Some x"
    by (auto simp: quantum2_def bind_eq_Some_conv)
  define w where "w = v1 * 262144 + v2 * 4096"
  have w: "w < 16777216" "quantum_chars w = [c1, c2, b64_char 0, b64_char 0]"
    using quantum_join [of v1 v2 0 0] b64_val_Some v by (auto simp: w_def)
  have x: "x = [char_of (w div 65536 mod 256)]" "w div 256 mod 256 = 0" "w mod 256 = 0"
    using q by (auto simp: quantum_bytes_def Let_def w_def split: if_splits)
  have "w div 65536 mod 256 * 65536 = w" using bytes_join [OF w(1)] x(2,3) by simp
  then have "byte_val (char_of (w div 65536 mod 256)) * 65536 = w" unfolding of_char_of mod_mod_trivial .
  then show ?case unfolding x(1) b64_encode.simps by (simp only: w(2)) simp
next
  case (4 c1 c2 c3)
  then obtain v1 v2 v3 where v: "b64_val c1 = Some v1" "b64_val c2 = Some v2" "b64_val c3 = Some v3"
    and q: "quantum_bytes True 3 (v1 * 262144 + v2 * 4096 + v3 * 64) = Some x"
    by (auto simp: quantum3_def bind_eq_Some_conv)
  define w where "w = v1 * 262144 + v2 * 4096 + v3 * 64"
  have w: "w < 16777216" "quantum_chars w = [c1, c2, c3, b64_char 0]"
    using quantum_join [of v1 v2 v3 0] b64_val_Some v by (auto simp: w_def)
  have x: "x = [char_of (w div 65536 mod 256), char_of (w div 256 mod 256)]" "w mod 256 = 0"
    using q by (auto simp: quantum_bytes_def Let_def w_def split: if_splits)
  have "w div 65536 mod 256 * 65536 + w div 256 mod 256 * 256 = w" using bytes_join [OF w(1)] x(2) by (simp only: add_0_right)
  then have "byte_val (char_of (w div 65536 mod 256)) * 65536 + byte_val (char_of (w div 256 mod 256)) * 256 = w"
    unfolding of_char_of mod_mod_trivial .
  then show ?case unfolding x(1) b64_encode.simps by (simp only: w(2)) simp
next
  case (5 c1 c2 c3 c4 s)
  then obtain q r where q4: "quantum4 True c1 c2 c3 c4 = Some q" and r: "b64_quanta False True s = Some r" "x = q @ r"
    by (auto simp: bind_eq_Some_conv)
  then obtain v1 v2 v3 v4 where v: "b64_val c1 = Some v1" "b64_val c2 = Some v2" "b64_val c3 = Some v3" "b64_val c4 = Some v4"
    and q: "quantum_bytes True 4 (v1 * 262144 + v2 * 4096 + v3 * 64 + v4) = Some q"
    by (auto simp: quantum4_def bind_eq_Some_conv)
  define w where "w = v1 * 262144 + v2 * 4096 + v3 * 64 + v4"
  have w: "w < 16777216" "quantum_chars w = [c1, c2, c3, c4]"
    using quantum_join [of v1 v2 v3 v4] b64_val_Some v by (auto simp: w_def)
  have x: "q = [char_of (w div 65536 mod 256), char_of (w div 256 mod 256), char_of (w mod 256)]"
    using q by (auto simp: quantum_bytes_def Let_def w_def split: if_splits)
  have "s = b64_encode False r" using 5 q4 r(1) by simp
  moreover have "byte_val (char_of (w div 65536 mod 256)) * 65536 + byte_val (char_of (w div 256 mod 256)) * 256
      + byte_val (char_of (w mod 256)) = w"
    unfolding of_char_of mod_mod_trivial by (rule bytes_join [OF w(1)])
  ultimately show ?case unfolding r(2) x append.simps b64_encode.simps by (simp only: w(2)) simp
qed auto

lemma strict_decode_inverse:
  "b64_decode False True s = Some x \<Longrightarrow> \<forall>c \<in> set s. \<not> is_newline c \<Longrightarrow> s = b64_encode False x"
  using strict_inverse by (simp add: b64_decode_def)

end
