(* ===== verification/PW_Phc.thy ===== *)
theory PW_Phc
  imports PW_Params PW_Base64
begin

text \<open>
  \<^verbatim>\<open>pkg/passwordhash/phc.go\<close>: the PHC string format. Shown: a string is parsed to the data it was printed from, and
  the strings that parse to some data are the printed one with any number of zeros before its numbers.
\<close>

section \<open>The code\<close>

definition phcSeparator :: char where "phcSeparator = CHR ''$''"
definition phcCostSeparator :: char where "phcCostSeparator = CHR '',''"
definition phcSegments :: nat where "phcSegments = 6"
definition phcCostFields :: nat where "phcCostFields = 3"
definition phcVersionPrefix :: bytes where "phcVersionPrefix = ''v=''"
definition phcMemoryPrefix :: bytes where "phcMemoryPrefix = ''m=''"
definition phcTimePrefix :: bytes where "phcTimePrefix = ''t=''"
definition phcThreadsPrefix :: bytes where "phcThreadsPrefix = ''p=''"

lemmas phc_constants =
  phcSeparator_def phcCostSeparator_def phcSegments_def phcCostFields_def phcVersionPrefix_def phcMemoryPrefix_def
  phcTimePrefix_def phcThreadsPrefix_def

text \<open>\<open>None\<close> is the panic on the nil pointer of missing parameters.\<close>

definition marshalPHC :: "Hashed \<Rightarrow> bytes option" where
  "marshalPHC data =
     (case HParams data of
        None \<Rightarrow> None
      | Some prm \<Rightarrow>
          Some (''$'' @ Algo prm @ ''$v='' @ FormatUint 10 (unat (Version prm))
                @ ''$m='' @ FormatUint 10 (unat (Memory prm)) @ '',t='' @ FormatUint 10 (unat (Time prm))
                @ '',p='' @ FormatUint 10 (unat (Threads prm))
                @ ''$'' @ b64_encode False (Salt data) @ ''$'' @ b64_encode False (Key data)))"

definition decodePHCBytes :: "bytes \<Rightarrow> 'e pw_error + bytes" where
  "decodePHCBytes segment =
     (case b64_decode False True segment of None \<Rightarrow> Inl ErrInvalidHashData | Some b \<Rightarrow> Inr b)"

definition parsePHCUint :: "bytes \<Rightarrow> bytes \<Rightarrow> nat \<Rightarrow> 'e pw_error + nat" where
  "parsePHCUint segment pre bitSize =
     (case CutPrefix segment pre of
        None \<Rightarrow> Inl ErrInvalidHashData
      | Some rest \<Rightarrow> (case ParseUintBits bitSize rest of None \<Rightarrow> Inl ErrInvalidHashData | Some v \<Rightarrow> Inr v))"

definition parsePHCParams :: "bytes \<Rightarrow> bytes \<Rightarrow> bytes \<Rightarrow> 'e pw_error + Params" where
  "parsePHCParams algo versionSeg costSeg =
     ok_then (parsePHCUint versionSeg phcVersionPrefix 8) (\<lambda>version.
       let cost = SplitN phcCostSeparator (phcCostFields + 1) costSeg
       in if length cost \<noteq> phcCostFields then Inl ErrInvalidHashData
          else
            ok_then (parsePHCUint (cost ! 0) phcMemoryPrefix 32) (\<lambda>memory.
            ok_then (parsePHCUint (cost ! 1) phcTimePrefix 32) (\<lambda>time.
            ok_then (parsePHCUint (cost ! 2) phcThreadsPrefix 8) (\<lambda>threads.
              Inr (zero_Params\<lparr>Algo := algo, Version := word_of_nat version, Time := word_of_nat time,
                     Memory := word_of_nat memory, Threads := word_of_nat threads\<rparr>)))))"

definition unmarshalPHC :: "bytes \<Rightarrow> 'e pw_error + Hashed" where
  "unmarshalPHC hash =
     (if \<exists>c \<in> set hash. is_newline c then Inl ErrInvalidHashData
      else
        let parts = SplitN phcSeparator (phcSegments + 1) hash
        in if length parts \<noteq> phcSegments then Inl ErrInvalidHashData
           else
             ok_then (parsePHCParams (parts ! 1) (parts ! 2) (parts ! 3)) (\<lambda>params.
             ok_then (decodePHCBytes (parts ! 4)) (\<lambda>salt.
             ok_then (decodePHCBytes (parts ! 5)) (\<lambda>key.
               Inr \<lparr>HParams = Some (params\<lparr>SaltLen := word_of_nat (length salt), KeyLen := word_of_nat (length key)\<rparr>),
                     Salt = salt, Key = key\<rparr>))))"

section \<open>The strings that parse to some data\<close>

text \<open>
  The general form of a PHC string: its six segments, with the numerals as they stand. The printed string has no
  leading zeros in them.
\<close>

definition phc_string :: "bytes \<Rightarrow> bytes \<Rightarrow> bytes \<Rightarrow> bytes \<Rightarrow> bytes \<Rightarrow> bytes \<Rightarrow> bytes \<Rightarrow> bytes" where
  "phc_string algo v m t p salt key =
     join_parts (CHR ''$'') [[], algo, ''v='' @ v, join_parts (CHR '','') [''m='' @ m, ''t='' @ t, ''p='' @ p], salt, key]"

lemma marshal_phc_string:
  "HParams d = Some prm \<Longrightarrow> marshalPHC d = Some (phc_string (Algo prm) (FormatUint 10 (unat (Version prm)))
     (FormatUint 10 (unat (Memory prm))) (FormatUint 10 (unat (Time prm))) (FormatUint 10 (unat (Threads prm)))
     (b64_encode False (Salt d)) (b64_encode False (Key d)))"
  by (simp add: marshalPHC_def phc_string_def)

definition is_numeral :: "bytes \<Rightarrow> bool" where
  "is_numeral s \<longleftrightarrow> (\<forall>c \<in> set s. 48 \<le> byte_val c \<and> byte_val c \<le> 57)"

lemma numeral_no_special:
  "is_numeral s \<Longrightarrow> CHR ''$'' \<notin> set s \<and> CHR '','' \<notin> set s \<and> (\<forall>c \<in> set s. \<not> is_newline c)"
  by (auto simp: is_numeral_def is_newline_def)

lemma numeral_zeros: "is_numeral (replicate k (CHR ''0'') @ FormatUint 10 n)"
  using format_digits by (auto simp: is_numeral_def)

lemma b64_no_special: "CHR ''$'' \<notin> set (b64_encode False s) \<and> (\<forall>c \<in> set (b64_encode False s). \<not> is_newline c)"
  using b64_encode_raw_chars b64_alphabet_specials(1) b64_encode_no_newline by blast

definition clean_algo :: "bytes \<Rightarrow> bool" where
  "clean_algo a \<longleftrightarrow> CHR ''$'' \<notin> set a \<and> (\<forall>c \<in> set a. \<not> is_newline c)"

lemma plain_chars:
  "\<not> is_newline (CHR ''$'')" "\<not> is_newline (CHR '','')" "\<not> is_newline (CHR ''='')" "\<not> is_newline (CHR ''v'')"
  "\<not> is_newline (CHR ''m'')" "\<not> is_newline (CHR ''t'')" "\<not> is_newline (CHR ''p'')"
  by (simp_all add: is_newline_def)

text \<open>Splitting finds the segments again.\<close>

lemma split_phc_string:
  assumes "clean_algo algo" "is_numeral v" "is_numeral m" "is_numeral t" "is_numeral p"
  shows "SplitN (CHR ''$'') 7 (phc_string algo v m t p (b64_encode False salt) (b64_encode False key)) =
      [[], algo, ''v='' @ v, join_parts (CHR '','') [''m='' @ m, ''t='' @ t, ''p='' @ p], b64_encode False salt, b64_encode False key]"
    "SplitN (CHR '','') 4 (join_parts (CHR '','') [''m='' @ m, ''t='' @ t, ''p='' @ p]) = [''m='' @ m, ''t='' @ t, ''p='' @ p]"
    "\<forall>c \<in> set (phc_string algo v m t p (b64_encode False salt) (b64_encode False key)). \<not> is_newline c"
proof -
  show "SplitN (CHR '','') 4 (join_parts (CHR '','') [''m='' @ m, ''t='' @ t, ''p='' @ p]) = [''m='' @ m, ''t='' @ t, ''p='' @ p]"
    by (rule SplitN_join) (use assms numeral_no_special in auto)
  show "SplitN (CHR ''$'') 7 (phc_string algo v m t p (b64_encode False salt) (b64_encode False key)) =
      [[], algo, ''v='' @ v, join_parts (CHR '','') [''m='' @ m, ''t='' @ t, ''p='' @ p], b64_encode False salt, b64_encode False key]"
    unfolding phc_string_def
    by (rule SplitN_join) (use assms numeral_no_special b64_no_special in \<open>auto simp: clean_algo_def\<close>)
  show "\<forall>c \<in> set (phc_string algo v m t p (b64_encode False salt) (b64_encode False key)). \<not> is_newline c"
    using assms(1) numeral_no_special [OF assms(2)] numeral_no_special [OF assms(3)] numeral_no_special [OF assms(4)]
      numeral_no_special [OF assms(5)] b64_no_special [of salt] b64_no_special [of key]
    by (simp add: clean_algo_def phc_string_def plain_chars ball_Un)
qed

lemma parsePHCUint_zeros:
  "n < 2 ^ bits \<Longrightarrow> parsePHCUint (pre @ replicate k (CHR ''0'') @ FormatUint 10 n) pre bits = Inr n"
  by (simp add: parsePHCUint_def CutPrefix_def parse_zeros)

lemma parsePHCUint_inverse:
  "parsePHCUint s pre bits = Inr n \<Longrightarrow> n < 2 ^ bits \<and> (\<exists>k. s = pre @ replicate k (CHR ''0'') @ FormatUint 10 n)"
  by (auto simp: parsePHCUint_def CutPrefix_Some split: option.splits dest!: parse_inverse)

definition stored :: "Hashed \<Rightarrow> bool" where
  "stored d \<longleftrightarrow> (\<exists>p. HParams d = Some p \<and> clean_algo (Algo p)
     \<and> p = zero_Params\<lparr>Algo := Algo p, Version := Version p, Time := Time p, Memory := Memory p, Threads := Threads p,
         SaltLen := word_of_nat (length (Salt d)), KeyLen := word_of_nat (length (Key d))\<rparr>)"

lemma word_values [simp]: "unat (w :: 8 word) < 256" "unat (u :: 32 word) < 4294967296"
  using byte_word_less unat32_less by simp_all

lemma unmarshal_zeros:
  assumes "stored d" "HParams d = Some p"
  shows "unmarshalPHC (phc_string (Algo p) (replicate k1 (CHR ''0'') @ FormatUint 10 (unat (Version p)))
     (replicate k2 (CHR ''0'') @ FormatUint 10 (unat (Memory p))) (replicate k3 (CHR ''0'') @ FormatUint 10 (unat (Time p)))
     (replicate k4 (CHR ''0'') @ FormatUint 10 (unat (Threads p))) (b64_encode False (Salt d)) (b64_encode False (Key d))) = (Inr d :: 'e pw_error + Hashed)"
proof -
  have a: "clean_algo (Algo p)" and p: "p = zero_Params\<lparr>Algo := Algo p, Version := Version p, Time := Time p,
      Memory := Memory p, Threads := Threads p, SaltLen := word_of_nat (length (Salt d)), KeyLen := word_of_nat (length (Key d))\<rparr>"
    using assms by (auto simp: stored_def)
  note split = split_phc_string [OF a numeral_zeros numeral_zeros numeral_zeros numeral_zeros]
  have seg: "phcSegments + 1 = 7" "phcCostFields + 1 = 4" by (simp_all add: phc_constants)
  define q where "q = zero_Params\<lparr>Algo := Algo p, Version := Version p, Time := Time p, Memory := Memory p, Threads := Threads p\<rparr>"
  have pp: "parsePHCParams (Algo p) (''v='' @ replicate k1 (CHR ''0'') @ FormatUint 10 (unat (Version p)))
      (join_parts (CHR '','') [''m='' @ replicate k2 (CHR ''0'') @ FormatUint 10 (unat (Memory p)),
         ''t='' @ replicate k3 (CHR ''0'') @ FormatUint 10 (unat (Time p)),
         ''p='' @ replicate k4 (CHR ''0'') @ FormatUint 10 (unat (Threads p))]) = (Inr q :: 'e pw_error + Params)"
    unfolding parsePHCParams_def Let_def seg phcCostSeparator_def split(2)
    by (simp add: phc_constants parsePHCUint_zeros [of _ 8, simplified] parsePHCUint_zeros [of _ 32, simplified] q_def
        del: append_Cons)
  have d: "d = \<lparr>HParams = Some (q\<lparr>SaltLen := word_of_nat (length (Salt d)), KeyLen := word_of_nat (length (Key d))\<rparr>),
      Salt = Salt d, Key = Key d\<rparr>"
    using assms(2) p by (simp add: q_def)
  then show ?thesis
    unfolding unmarshalPHC_def Let_def seg phcSeparator_def split(1)
    using split(3) pp d by (simp add: phcSegments_def decodePHCBytes_def del: append_Cons)
qed

lemma unmarshal_inverse:
  assumes "unmarshalPHC hash = Inr d" "take 1 hash = ''$''"
  shows "stored d \<and> (\<exists>p k1 k2 k3 k4. HParams d = Some p
     \<and> hash = phc_string (Algo p) (replicate k1 (CHR ''0'') @ FormatUint 10 (unat (Version p)))
         (replicate k2 (CHR ''0'') @ FormatUint 10 (unat (Memory p))) (replicate k3 (CHR ''0'') @ FormatUint 10 (unat (Time p)))
         (replicate k4 (CHR ''0'') @ FormatUint 10 (unat (Threads p))) (b64_encode False (Salt d)) (b64_encode False (Key d)))"
proof -
  define parts where "parts = SplitN (CHR ''$'') 7 hash"
  have nl: "\<forall>c \<in> set hash. \<not> is_newline c" and len: "length parts = 6"
    using assms(1) by (auto simp: unmarshalPHC_def Let_def parts_def phc_constants split: if_splits)
  obtain a0 a1 a2 a3 a4 a5 where ps: "parts = [a0, a1, a2, a3, a4, a5]"
    using len by (auto simp: numeral_eq_Suc length_Suc_list)
  obtain q salt key where q: "parsePHCParams a1 a2 a3 = (Inr q :: 'a pw_error + Params)"
    and salt: "decodePHCBytes a4 = (Inr salt :: 'a pw_error + bytes)" and key: "decodePHCBytes a5 = (Inr key :: 'a pw_error + bytes)"
    and d: "d = \<lparr>HParams = Some (q\<lparr>SaltLen := word_of_nat (length salt), KeyLen := word_of_nat (length key)\<rparr>), Salt = salt, Key = key\<rparr>"
    using assms(1) nl ps by (auto simp: unmarshalPHC_def Let_def parts_def phc_constants ok_then_Inr)
  have join: "hash = join_parts (CHR ''$'') [a0, a1, a2, a3, a4, a5]"
    using join_SplitN [of 7 "CHR ''$''" hash] ps by (simp add: parts_def)
  have nosep: "CHR ''$'' \<notin> set a" if "a \<in> {a0, a1, a2, a3, a4, a5}" for a
    using SplitN_parts [of "CHR ''$''" 7 hash] ps that by (auto simp: parts_def)
  have a0: "a0 = []" using join assms(2) nosep [of a0] by (cases a0) auto
  have nls: "\<forall>c \<in> set a. \<not> is_newline c" if "a \<in> {a1, a4, a5}" for a using nl join that by auto
  have s: "a4 = b64_encode False salt" "a5 = b64_encode False key"
    using salt key nls by (auto simp: decodePHCBytes_def intro!: strict_decode_inverse split: option.splits)
  define cost where "cost = SplitN (CHR '','') 4 a3"
  obtain v m t p where v: "parsePHCUint a2 ''v='' 8 = (Inr v :: 'a pw_error + nat)" and c: "length cost = 3"
    and m: "parsePHCUint (cost ! 0) ''m='' 32 = (Inr m :: 'a pw_error + nat)"
    and t: "parsePHCUint (cost ! 1) ''t='' 32 = (Inr t :: 'a pw_error + nat)"
    and p: "parsePHCUint (cost ! 2) ''p='' 8 = (Inr p :: 'a pw_error + nat)"
    and q': "q = zero_Params\<lparr>Algo := a1, Version := word_of_nat v, Time := word_of_nat t, Memory := word_of_nat m, Threads := word_of_nat p\<rparr>"
    using q by (auto simp: parsePHCParams_def Let_def cost_def phc_constants ok_then_Inr split: if_splits)
  obtain c0 c1 c2 where cs: "cost = [c0, c1, c2]" using c by (auto simp: numeral_eq_Suc length_Suc_list)
  have a3: "a3 = join_parts (CHR '','') [c0, c1, c2]" using join_SplitN [of 4 "CHR '',''" a3] cs by (simp add: cost_def)
  obtain k1 k2 k3 k4 where k: "a2 = ''v='' @ replicate k1 (CHR ''0'') @ FormatUint 10 v"
    "c0 = ''m='' @ replicate k2 (CHR ''0'') @ FormatUint 10 m" "c1 = ''t='' @ replicate k3 (CHR ''0'') @ FormatUint 10 t"
    "c2 = ''p='' @ replicate k4 (CHR ''0'') @ FormatUint 10 p"
    using parsePHCUint_inverse [OF v] parsePHCUint_inverse [OF m] parsePHCUint_inverse [OF t] parsePHCUint_inverse [OF p] cs
    by auto
  have vals: "unat (word_of_nat v :: 8 word) = v" "unat (word_of_nat m :: 32 word) = m" "unat (word_of_nat t :: 32 word) = t"
    "unat (word_of_nat p :: 8 word) = p"
    using parsePHCUint_inverse [OF v] parsePHCUint_inverse [OF m] parsePHCUint_inverse [OF t] parsePHCUint_inverse [OF p]
    by (simp_all add: unsigned_of_nat take_bit_nat_eq_self_iff)
  have "clean_algo a1" using nosep [of a1] nls [of a1] by (simp add: clean_algo_def)
  then have "stored d" unfolding stored_def d q' by simp
  moreover have "hash = phc_string a1 (replicate k1 (CHR ''0'') @ FormatUint 10 v) (replicate k2 (CHR ''0'') @ FormatUint 10 m)
      (replicate k3 (CHR ''0'') @ FormatUint 10 t) (replicate k4 (CHR ''0'') @ FormatUint 10 p) a4 a5"
    using join a0 a3 k by (simp add: phc_string_def)
  ultimately show ?thesis using d q' vals s by auto
qed

end
