(* ===== verification/PW_Hash.thy ===== *)
theory PW_Hash
  imports PW_Phc
begin

text \<open>
  \<^verbatim>\<open>pkg/passwordhash\<close>: hashing, verification and the check for rehashing, with the encryption of \<^verbatim>\<open>pkg/encrypt\<close> for
  the peppered variants. Arguments of the model are Argon2 (\<open>idkey\<close>), AES-GCM (\<open>seal\<close>, \<open>unseal\<close>), the writer and the
  reader of JSON values of this type (\<open>jsonlib\<close>), and the random readers. A result is \<open>None\<close> where the code would
  panic. Wiping key material after use (\<^verbatim>\<open>clear\<close>) has no counterpart.
\<close>

section \<open>What the packages call\<close>

text \<open>
  \<open>json_encode\<close> is \<^verbatim>\<open>json.NewEncoder(w).Encode\<close>, \<open>json_decode\<close> is \<^verbatim>\<open>json.NewDecoder(r).Decode\<close> on a reader of these
  bytes; \<open>json_decode64\<close> is the same with \<^verbatim>\<open>base64.NewDecoder\<close> in between.
\<close>

record ('d, 'e) jsonlib =
  json_encode :: "'d \<Rightarrow> 'e + bytes"
  json_decode :: "bytes \<Rightarrow> 'e + 'd"
  json_decode64 :: "bytes \<Rightarrow> 'e + 'd"

text \<open>\<open>seal key nonce msg aad\<close> is the ciphertext with its tag; \<open>unseal key nonce ct aad\<close> fails on anything else.\<close>

record aead =
  seal :: "bytes \<Rightarrow> bytes \<Rightarrow> bytes \<Rightarrow> bytes \<Rightarrow> bytes"
  unseal :: "bytes \<Rightarrow> bytes \<Rightarrow> bytes \<Rightarrow> bytes \<Rightarrow> bytes option"

type_synonym argon2 = "bytes \<Rightarrow> bytes \<Rightarrow> 32 word \<Rightarrow> 32 word \<Rightarrow> 8 word \<Rightarrow> 32 word \<Rightarrow> bytes"

text \<open>\<^verbatim>\<open>argon2.IDKey\<close> panics without a pass or a thread.\<close>

definition argon2_IDKey :: "argon2 \<Rightarrow> bytes \<Rightarrow> bytes \<Rightarrow> 32 word \<Rightarrow> 32 word \<Rightarrow> 8 word \<Rightarrow> 32 word \<Rightarrow> bytes option" where
  "argon2_IDKey idkey password salt time memory threads keyLen =
     (if time < 1 \<or> threads < 1 then None else Some (idkey password salt time memory threads keyLen))"

section \<open>Package encode\<close>

definition Serialize :: "('d, 'e) jsonlib \<Rightarrow> 'd \<Rightarrow> 'e + bytes" where
  "Serialize J data = (case json_encode J data of Inl e \<Rightarrow> Inl e | Inr b \<Rightarrow> Inr (b64_encode True b))"

definition Deserialize :: "('d, 'e) jsonlib \<Rightarrow> bytes \<Rightarrow> 'e + 'd" where
  "Deserialize J msg = json_decode64 J msg"

section \<open>Package encrypt\<close>

datatype 'e enc_error = ErrKeySize | ErrNonce "'e rnd_error" | ErrInvalidInputSize | ErrOpen | ErrBase64 | ErrJSON 'e

definition nonceSize :: nat where "nonceSize = 12"

definition newAESGCM :: "bytes \<Rightarrow> 'e enc_error + unit" where
  "newAESGCM key = (if length key \<in> {16, 24, 32} then Inr () else Inl ErrKeySize)"

text \<open>\<open>rd\<close> is the reader of the options, or \<^verbatim>\<open>crypto/rand.Reader\<close>; \<open>aad\<close> the additional data, empty by default.\<close>

definition EncryptWith ::
  "aead \<Rightarrow> ('r, 'e) reader \<Rightarrow> bytes \<Rightarrow> bytes \<Rightarrow> bytes \<Rightarrow> 'r \<Rightarrow> ('e enc_error + bytes) \<times> 'r" where
  "EncryptWith A rd key msg aad r =
     (case newAESGCM key of
        Inl e \<Rightarrow> (Inl e, r)
      | Inr _ \<Rightarrow>
          (case readFull rd nonceSize r of
             (Inl e, r') \<Rightarrow> (Inl (ErrNonce e), r')
           | (Inr nonce, r') \<Rightarrow> (Inr (nonce @ seal A key nonce msg aad), r')))"

definition Encrypt :: "aead \<Rightarrow> ('r, 'e) reader \<Rightarrow> bytes \<Rightarrow> bytes \<Rightarrow> 'r \<Rightarrow> ('e enc_error + bytes) \<times> 'r" where
  "Encrypt A rd key msg r = EncryptWith A rd key msg [] r"

definition DecryptWith :: "aead \<Rightarrow> bytes \<Rightarrow> bytes \<Rightarrow> bytes \<Rightarrow> 'e enc_error + bytes" where
  "DecryptWith A key msg aad =
     ok_then (newAESGCM key) (\<lambda>_.
       if length msg < nonceSize then Inl ErrInvalidInputSize
       else (case unseal A key (take nonceSize msg) (drop nonceSize msg) aad of None \<Rightarrow> Inl ErrOpen | Some p \<Rightarrow> Inr p))"

definition Decrypt :: "aead \<Rightarrow> bytes \<Rightarrow> bytes \<Rightarrow> 'e enc_error + bytes" where
  "Decrypt A key msg = DecryptWith A key msg []"

definition byteEncryptEncoded :: "aead \<Rightarrow> ('r, 'e) reader \<Rightarrow> bytes \<Rightarrow> bytes \<Rightarrow> 'r \<Rightarrow> ('e enc_error + bytes) \<times> 'r" where
  "byteEncryptEncoded A rd key data r =
     (case Encrypt A rd key data r of (Inl e, r') \<Rightarrow> (Inl e, r') | (Inr msg, r') \<Rightarrow> (Inr (b64_encode True msg), r'))"

definition byteDecryptEncoded :: "aead \<Rightarrow> bytes \<Rightarrow> bytes \<Rightarrow> 'e enc_error + bytes" where
  "byteDecryptEncoded A key msg =
     (case b64_decode True False msg of None \<Rightarrow> Inl ErrBase64 | Some dst \<Rightarrow> Decrypt A key dst)"

definition ByteEncryptSerializeAny ::
  "aead \<Rightarrow> ('d, 'e) jsonlib \<Rightarrow> ('r, 'e) reader \<Rightarrow> bytes \<Rightarrow> 'd \<Rightarrow> 'r \<Rightarrow> ('e enc_error + bytes) \<times> 'r" where
  "ByteEncryptSerializeAny A J rd key data r =
     (case json_encode J data of Inl e \<Rightarrow> (Inl (ErrJSON e), r) | Inr b \<Rightarrow> byteEncryptEncoded A rd key b r)"

definition ByteDecryptSerializeAny :: "aead \<Rightarrow> ('d, 'e) jsonlib \<Rightarrow> bytes \<Rightarrow> bytes \<Rightarrow> 'e enc_error + 'd" where
  "ByteDecryptSerializeAny A J key msg =
     ok_then (byteDecryptEncoded A key msg) (\<lambda>dec.
       case json_decode J dec of Inl e \<Rightarrow> Inl (ErrJSON e) | Inr d \<Rightarrow> Inr d)"

definition EncryptSerializeAny ::
  "aead \<Rightarrow> ('d, 'e) jsonlib \<Rightarrow> ('r, 'e) reader \<Rightarrow> bytes \<Rightarrow> 'd \<Rightarrow> 'r \<Rightarrow> ('e enc_error + bytes) \<times> 'r" where
  "EncryptSerializeAny A J rd key data r = ByteEncryptSerializeAny A J rd key data r"

definition DecryptSerializeAny :: "aead \<Rightarrow> ('d, 'e) jsonlib \<Rightarrow> bytes \<Rightarrow> bytes \<Rightarrow> 'e enc_error + 'd" where
  "DecryptSerializeAny A J key msg = ByteDecryptSerializeAny A J key msg"

section \<open>Formats of stored hashes\<close>

definition detectFormat :: "bytes \<Rightarrow> Format" where
  "detectFormat hash = (if take 1 hash = [phcSeparator] then FormatPHC else FormatJSON)"

definition decodeHash :: "(Hashed, 'e) jsonlib \<Rightarrow> bytes \<Rightarrow> 'e pw_error + Hashed" where
  "decodeHash J hash =
     (if detectFormat hash = FormatPHC then unmarshalPHC hash
      else (case Deserialize J hash of Inl _ \<Rightarrow> Inl ErrInvalidHashData | Inr d \<Rightarrow> Inr d))"

definition serialize :: "(Hashed, 'e) jsonlib \<Rightarrow> Params \<Rightarrow> Hashed \<Rightarrow> ('e pw_error + bytes) option" where
  "serialize J ph data =
     (if format ph = FormatPHC then map_option Inr (marshalPHC data)
      else Some (case Serialize J data of Inl e \<Rightarrow> Inl (ErrEncoding e) | Inr s \<Rightarrow> Inr s))"

definition acceptsFormat :: "Params \<Rightarrow> Format \<Rightarrow> bool" where
  "acceptsFormat ph f \<longleftrightarrow> acceptedFormats ph AND formatBit f \<noteq> 0"

section \<open>Hashing\<close>

text \<open>\<open>rd\<close> reads the source of the generator of the parameters.\<close>

definition passwordHashData ::
  "argon2 \<Rightarrow> ('r, 'e) reader \<Rightarrow> Params \<Rightarrow> bytes \<Rightarrow> 'r \<Rightarrow> ('e pw_error + Hashed) option \<times> 'r" where
  "passwordHashData idkey rd ph password r =
     (case validateHashParams ph of
        Inl e \<Rightarrow> (Some (Inl e), r)
      | Inr _ \<Rightarrow>
          if length password < unat (minPLen ph) then (Some (Inl ErrPasswordTooShort), r)
          else if unat (maxPLen ph) < length password then (Some (Inl ErrPasswordTooLong), r)
          else
            (case RandomBytes rd (int (unat (SaltLen ph))) r of
               (Inl e, r') \<Rightarrow> (Some (Inl (ErrRandom e)), r')
             | (Inr salt, r') \<Rightarrow>
                 (map_option (\<lambda>key. Inr \<lparr>HParams = Some (zero_Params\<lparr>Algo := Algo ph, Version := Version ph,
                        KeyLen := KeyLen ph, SaltLen := SaltLen ph, Time := Time ph, Memory := Memory ph,
                        Threads := Threads ph\<rparr>), Salt = salt, Key = key\<rparr>)
                    (argon2_IDKey idkey password salt (Time ph) (Memory ph) (Threads ph) (KeyLen ph)), r')))"

definition PasswordHash ::
  "(Hashed, 'e) jsonlib \<Rightarrow> argon2 \<Rightarrow> ('r, 'e) reader \<Rightarrow> Params \<Rightarrow> bytes \<Rightarrow> 'r \<Rightarrow> ('e pw_error + bytes) option \<times> 'r" where
  "PasswordHash J idkey rd ph password r =
     (case passwordHashData idkey rd ph password r of
        (None, r') \<Rightarrow> (None, r')
      | (Some (Inl e), r') \<Rightarrow> (Some (Inl e), r')
      | (Some (Inr data), r') \<Rightarrow> (serialize J ph data, r'))"

section \<open>Verification\<close>

text \<open>\<^verbatim>\<open>subtle.ConstantTimeCompare(x, y) == 1\<close> is equality of the slices.\<close>

definition passwordVerifyData :: "argon2 \<Rightarrow> Params \<Rightarrow> bytes \<Rightarrow> Hashed \<Rightarrow> ('e pw_error + bool) option" where
  "passwordVerifyData idkey ph password data =
     (if maxPLen ph = 0 then Some (Inl ErrInvalidParams)
      else if unat (maxPLen ph) < length password then Some (Inl ErrPasswordTooLong)
      else
        case (validateVerifyData ph data, HParams data) of
          (Inl e, _) \<Rightarrow> Some (Inl e)
        | (Inr _, None) \<Rightarrow> None
        | (Inr _, Some p) \<Rightarrow>
            if Algo p \<noteq> Algo ph then Some (Inl ErrAlgoMismatch)
            else if Version p \<noteq> Version ph then Some (Inl ErrVersionMismatch)
            else map_option (\<lambda>newkey. Inr (newkey = Key data))
                   (argon2_IDKey idkey password (Salt data) (Time p) (Memory p) (Threads p) (KeyLen p)))"

definition PasswordVerify ::
  "(Hashed, 'e) jsonlib \<Rightarrow> argon2 \<Rightarrow> Params \<Rightarrow> bytes \<Rightarrow> bytes \<Rightarrow> ('e pw_error + bool) option" where
  "PasswordVerify J idkey ph password hash =
     (case ok_then (validateHashLen hash) (\<lambda>_. decodeHash J hash) of
        Inl e \<Rightarrow> Some (Inl e)
      | Inr data \<Rightarrow> passwordVerifyData idkey ph password data)"

definition needsRehashData :: "Params \<Rightarrow> Hashed \<Rightarrow> ('e pw_error + bool) option" where
  "needsRehashData ph data =
     (if maxPLen ph = 0 then Some (Inl ErrInvalidParams)
      else
        case (validateVerifyData ph data, HParams data) of
          (Inl e, _) \<Rightarrow> Some (Inl e)
        | (Inr _, None) \<Rightarrow> None
        | (Inr _, Some p) \<Rightarrow>
            Some (Inr (Algo p \<noteq> Algo ph \<or> Version p \<noteq> Version ph \<or> KeyLen p \<noteq> KeyLen ph \<or> SaltLen p \<noteq> SaltLen ph
                \<or> Time p \<noteq> Time ph \<or> Memory p \<noteq> Memory ph \<or> Threads p \<noteq> Threads ph)))"

definition PasswordNeedsRehash ::
  "(Hashed, 'e) jsonlib \<Rightarrow> Params \<Rightarrow> bytes \<Rightarrow> ('e pw_error + bool) option" where
  "PasswordNeedsRehash J ph hash =
     (case ok_then (validateHashLen hash) (\<lambda>_. decodeHash J hash) of
        Inl e \<Rightarrow> Some (Inl e)
      | Inr data \<Rightarrow>
          map_option (\<lambda>r. case r of Inl e \<Rightarrow> Inl e | Inr need \<Rightarrow> Inr (need \<or> \<not> acceptsFormat ph (detectFormat hash)))
            (needsRehashData ph data))"

section \<open>With a pepper\<close>

definition EncryptPasswordHash ::
  "aead \<Rightarrow> (Hashed, 'e) jsonlib \<Rightarrow> argon2 \<Rightarrow> ('r, 'e) reader \<Rightarrow> ('n, 'e) reader \<Rightarrow> Params \<Rightarrow> bytes \<Rightarrow> bytes
     \<Rightarrow> 'r \<Rightarrow> 'n \<Rightarrow> ('e pw_error + 'e enc_error + bytes) option" where
  "EncryptPasswordHash A J idkey rd nrd ph key password r n =
     (case validatePepperKey key of
        Inl e \<Rightarrow> Some (Inl e)
      | Inr _ \<Rightarrow>
          (case fst (passwordHashData idkey rd ph password r) of
             None \<Rightarrow> None
           | Some (Inl e) \<Rightarrow> Some (Inl e)
           | Some (Inr data) \<Rightarrow> Some (Inr (fst (EncryptSerializeAny A J nrd key data n)))))"

definition EncryptPasswordVerify ::
  "aead \<Rightarrow> (Hashed, 'e) jsonlib \<Rightarrow> argon2 \<Rightarrow> Params \<Rightarrow> bytes \<Rightarrow> bytes \<Rightarrow> bytes \<Rightarrow> ('e pw_error + bool) option" where
  "EncryptPasswordVerify A J idkey ph key password hash =
     (case ok_then (validatePepperKey key) (\<lambda>_. ok_then (validateHashLen hash) (\<lambda>_.
             case DecryptSerializeAny A J key hash of Inl _ \<Rightarrow> Inl ErrInvalidHashData | Inr d \<Rightarrow> Inr d)) of
        Inl e \<Rightarrow> Some (Inl e)
      | Inr data \<Rightarrow> passwordVerifyData idkey ph password data)"

definition EncryptPasswordNeedsRehash ::
  "aead \<Rightarrow> (Hashed, 'e) jsonlib \<Rightarrow> Params \<Rightarrow> bytes \<Rightarrow> bytes \<Rightarrow> ('e pw_error + bool) option" where
  "EncryptPasswordNeedsRehash A J ph key hash =
     (case ok_then (validatePepperKey key) (\<lambda>_. ok_then (validateHashLen hash) (\<lambda>_.
             case DecryptSerializeAny A J key hash of Inl _ \<Rightarrow> Inl ErrInvalidHashData | Inr d \<Rightarrow> Inr d)) of
        Inl e \<Rightarrow> Some (Inl e)
      | Inr data \<Rightarrow> needsRehashData ph data)"

section \<open>Decryption undoes encryption\<close>

text \<open>
  What is relied on: opening with the same key, nonce and additional data undoes sealing, which appends a tag of
  16 bytes.
\<close>

definition aead_law :: "aead \<Rightarrow> bool" where
  "aead_law A \<longleftrightarrow> (\<forall>key nonce msg aad. unseal A key nonce (seal A key nonce msg aad) aad = Some msg
     \<and> length (seal A key nonce msg aad) = length msg + 16)"

lemma decrypt_encrypt:
  fixes rd :: "('r, 'e) reader"
  assumes "aead_law A" "EncryptWith A rd key msg aad r = (Inr ct, r')"
  shows "DecryptWith A key ct aad = (Inr msg :: 'e enc_error + bytes)"
proof -
  obtain nonce where n: "readFull rd nonceSize r = (Inr nonce, r')" and ct: "ct = nonce @ seal A key nonce msg aad"
    and k: "newAESGCM key = (Inr () :: 'e enc_error + unit)"
    using assms(2) by (auto simp: EncryptWith_def split: sum.splits prod.splits)
  have "length nonce = nonceSize" using readFull_length [OF n] .
  then show ?thesis using assms(1) by (simp add: DecryptWith_def k ct aead_law_def)
qed

lemma decrypt_serialized:
  fixes rd :: "('r, 'e) reader"
  assumes "aead_law A" "EncryptSerializeAny A J rd key data r = (Inr ct, r')"
    and law: "\<And>b. json_encode J data = Inr b \<Longrightarrow> json_decode J b = Inr data"
  shows "DecryptSerializeAny A J key ct = (Inr data :: 'e enc_error + 'd)
    \<and> (\<exists>b. json_encode J data = Inr b \<and> 3 * length ct \<le> 4 * length b + 120)"
proof -
  obtain b c where b: "json_encode J data = Inr b" and c: "EncryptWith A rd key b [] r = (Inr c, r')" and ct: "ct = b64_encode True c"
    using assms(2)
    by (auto simp: EncryptSerializeAny_def ByteEncryptSerializeAny_def byteEncryptEncoded_def Encrypt_def
        split: sum.splits prod.splits)
  have "DecryptWith A key c [] = (Inr b :: 'e enc_error + bytes)" by (rule decrypt_encrypt [OF assms(1) c])
  moreover have "length c = length b + 28"
  proof -
    obtain nonce where "readFull rd nonceSize r = (Inr nonce, r')" "c = nonce @ seal A key nonce b []"
      using c by (auto simp: EncryptWith_def split: sum.splits prod.splits)
    then show ?thesis using assms(1) readFull_length [of rd nonceSize r nonce r'] by (simp add: aead_law_def nonceSize_def)
  qed
  then have "3 * length ct \<le> 4 * length b + 120" using b64_encode_length [of True c] by (simp add: ct)
  ultimately show ?thesis
    using law [OF b] b by (simp add: DecryptSerializeAny_def ByteDecryptSerializeAny_def byteDecryptEncoded_def Decrypt_def ct)
qed

end
