(* ===== verification/PW_Props.thy ===== *)
theory PW_Props
  imports PW_Hash
begin

text \<open>The properties of \<^verbatim>\<open>pkg/passwordhash\<close>.\<close>

section \<open>The PHC format\<close>

text \<open>The PHC string of \<open>d\<close> with zeros before its four numbers.\<close>

definition phc_with_zeros :: "nat \<Rightarrow> nat \<Rightarrow> nat \<Rightarrow> nat \<Rightarrow> Params \<Rightarrow> Hashed \<Rightarrow> bytes" where
  "phc_with_zeros k1 k2 k3 k4 p d =
     phc_string (Algo p) (replicate k1 (CHR ''0'') @ FormatUint 10 (unat (Version p)))
       (replicate k2 (CHR ''0'') @ FormatUint 10 (unat (Memory p))) (replicate k3 (CHR ''0'') @ FormatUint 10 (unat (Time p)))
       (replicate k4 (CHR ''0'') @ FormatUint 10 (unat (Threads p))) (b64_encode False (Salt d)) (b64_encode False (Key d))"

lemma phc_starts: "take 1 (phc_with_zeros k1 k2 k3 k4 p d) = ''$''"
  by (simp add: phc_with_zeros_def phc_string_def)

text \<open>
  C33. The parser of PHC strings and the printer are inverse to each other up to leading zeros: the strings that parse
  to \<open>d\<close> are exactly the printed string of \<open>d\<close> with any numbers of zeros put before its version, memory, time and
  threads; salt, key and algorithm have one spelling only. What is parsed is always well-formed data. (The code's comment says
  that distinct strings never decode to the same salt and key.)
\<close>

theorem phc_roundtrip:
  assumes "detectFormat h = FormatPHC"
  shows "(unmarshalPHC h = (Inr d :: 'e pw_error + Hashed))
     = (stored d \<and> (\<exists>k1 k2 k3 k4 p. HParams d = Some p \<and> h = phc_with_zeros k1 k2 k3 k4 p d))
     \<and> (stored d \<longrightarrow> (\<exists>p. HParams d = Some p \<and> marshalPHC d = Some (phc_with_zeros 0 0 0 0 p d)))"
proof -
  have start: "take 1 h = ''$''"
    using assms by (auto simp: detectFormat_def phcSeparator_def FormatJSON_def FormatPHC_def split: if_splits)
  have "stored d \<and> (\<exists>k1 k2 k3 k4 p. HParams d = Some p \<and> h = phc_with_zeros k1 k2 k3 k4 p d)"
    if "unmarshalPHC h = (Inr d :: 'e pw_error + Hashed)"
    using unmarshal_inverse [OF that start] unfolding phc_with_zeros_def by blast
  moreover have "unmarshalPHC h = (Inr d :: 'e pw_error + Hashed)"
    if "stored d" "HParams d = Some p" "h = phc_with_zeros k1 k2 k3 k4 p d" for k1 k2 k3 k4 p
    unfolding that(3) phc_with_zeros_def by (rule unmarshal_zeros [OF that(1,2)])
  moreover have "\<exists>p. HParams d = Some p \<and> marshalPHC d = Some (phc_with_zeros 0 0 0 0 p d)" if "stored d"
    using that marshal_phc_string by (auto simp: stored_def phc_with_zeros_def)
  ultimately show ?thesis by blast
qed

definition demo_phc :: bytes where
  "demo_phc = ''$argon2id$v=0019$m=65536,t=3,p=4$c2FsdHNhbHQ$a2V5a2V5a2V5a2V5a2V5a2V5''"

text \<open>The same salt and key under another spelling of the version.\<close>

theorem phc_roundtrip_witness:
  "\<exists>d p. (unmarshalPHC demo_phc = (Inr d :: unit pw_error + Hashed)) \<and> Salt d = ''saltsalt'' \<and> stored d
     \<and> marshalPHC d = Some (phc_with_zeros 0 0 0 0 p d) \<and> phc_with_zeros 0 0 0 0 p d \<noteq> demo_phc"
proof -
  define p where "p = zero_Params\<lparr>Algo := ''argon2id'', Version := 19, Time := 3, Memory := 65536, Threads := 4,
    SaltLen := 8, KeyLen := 18\<rparr>"
  define d where "d = \<lparr>HParams = Some p, Salt = ''saltsalt'', Key = ''keykeykeykeykeykey''\<rparr>"
  have s: "stored d" by (simp add: stored_def d_def p_def clean_algo_def is_newline_def)
  have f: "FormatUint 10 19 = ''19''" "FormatUint 10 65536 = ''65536''" "FormatUint 10 3 = ''3''" "FormatUint 10 4 = ''4''"
    by (simp_all add: FormatUint.simps [of 10] digit_char_def char_of_eq_iff)
  have b: "b64_encode False ''saltsalt'' = ''c2FsdHNhbHQ''" "b64_encode False ''keykeykeykeykeykey'' = ''a2V5a2V5a2V5a2V5a2V5a2V5''"
    by (simp_all add: quantum_chars_def b64_char_def char_of_eq_iff)
  have r: "replicate 2 (CHR ''0'') = ''00''" by (simp add: numeral_2_eq_2)
  have h: "demo_phc = phc_with_zeros 2 0 0 0 p d"
    by (simp add: demo_phc_def phc_with_zeros_def phc_string_def p_def d_def f b r del: b64_encode.simps)
  have n: "phc_with_zeros 0 0 0 0 p d \<noteq> demo_phc"
    by (simp add: demo_phc_def phc_with_zeros_def phc_string_def p_def d_def f b del: b64_encode.simps)
  have "detectFormat demo_phc = FormatPHC" by (simp add: detectFormat_def demo_phc_def phcSeparator_def)
  from phc_roundtrip [OF this, of d, where 'e = unit]
  have "unmarshalPHC demo_phc = (Inr d :: unit pw_error + Hashed)" "marshalPHC d = Some (phc_with_zeros 0 0 0 0 p d)"
    using s h by (auto simp: d_def)
  then show ?thesis using s n by (intro exI [of _ d] exI [of _ p]) (simp add: d_def)
qed

section \<open>Verification is cheap and total\<close>







text \<open>Two functions that differ only beyond four GiB.\<close>

definition demo_argon2 :: argon2 where
  "demo_argon2 password salt t m p k = take (unat k) (password @ replicate (unat k) (CHR 0x00))"


definition demo_aead :: aead where
  "demo_aead = \<lparr>seal = (\<lambda>key nonce msg aad. msg @ replicate 16 (CHR ''t'')),
     unseal = (\<lambda>key nonce ct aad. if length ct < 16 then None else Some (take (length ct - 16) ct))\<rparr>"

text \<open>A writer and a reader of stored data, by way of PHC strings.\<close>

definition demo_json :: "(Hashed, unit) jsonlib" where
  "demo_json =
     \<lparr>json_encode = (\<lambda>d. case marshalPHC d of None \<Rightarrow> Inl () | Some s \<Rightarrow> Inr s),
      json_decode = (\<lambda>b. case (unmarshalPHC b :: unit pw_error + Hashed) of Inl _ \<Rightarrow> Inl () | Inr d \<Rightarrow> Inr d),
      json_decode64 = (\<lambda>s. case b64_decode True False s of None \<Rightarrow> Inl ()
        | Some b \<Rightarrow> (case (unmarshalPHC b :: unit pw_error + Hashed) of Inl _ \<Rightarrow> Inl () | Inr d \<Rightarrow> Inr d))\<rparr>"


section \<open>What is hashed verifies\<close>

text \<open>The data that hashing produces, and what is relied on of JSON for it.\<close>

definition minted :: "Hashed \<Rightarrow> bool" where
  "minted d \<longleftrightarrow> stored d \<and> (\<exists>p. HParams d = Some p \<and> Algo p = DefaultAlgo) \<and> length (Salt d) \<le> 1024 \<and> length (Key d) \<le> 1024"

definition json_law :: "(Hashed, 'e) jsonlib \<Rightarrow> bool" where
  "json_law J \<longleftrightarrow> (\<forall>d b. minted d \<longrightarrow> json_encode J d = Inr b \<longrightarrow>
     json_decode J b = Inr d \<and> json_decode64 J (b64_encode True b) = Inr d \<and> length b \<le> 8192)"

definition idkey_law :: "argon2 \<Rightarrow> bool" where
  "idkey_law idkey \<longleftrightarrow> (\<forall>password salt t m p k. length (idkey password salt t m p k) = unat k)"

definition hashed_with :: "argon2 \<Rightarrow> Params \<Rightarrow> bytes \<Rightarrow> bytes \<Rightarrow> Hashed" where
  "hashed_with idkey ph password salt =
     \<lparr>HParams = Some (zero_Params\<lparr>Algo := Algo ph, Version := Version ph, KeyLen := KeyLen ph, SaltLen := SaltLen ph,
        Time := Time ph, Memory := Memory ph, Threads := Threads ph\<rparr>), Salt = salt,
      Key = idkey password salt (Time ph) (Memory ph) (Threads ph) (KeyLen ph)\<rparr>"

lemma configured_argon2:
  "configured ph \<Longrightarrow> argon2_IDKey idkey password salt (Time ph) (Memory ph) (Threads ph) (KeyLen ph)
     = Some (idkey password salt (Time ph) (Memory ph) (Threads ph) (KeyLen ph))"
  by (auto simp: configured_def argon2_IDKey_def word_less_nat_alt)

lemma hashed_with_minted:
  assumes "configured ph" "idkey_law idkey" "length salt = unat (SaltLen ph)"
  shows "minted (hashed_with idkey ph password salt)"
  using assms by (auto simp: minted_def stored_def hashed_with_def configured_def idkey_law_def clean_algo_def DefaultAlgo_def
      is_newline_def)

lemma verify_hashed:
  assumes "configured ph" "minPLen ph \<le> maxPLen ph" "idkey_law idkey" "length salt = unat (SaltLen ph)"
  shows "(length pw' \<le> unat (maxPLen ph) \<longrightarrow> passwordVerifyData idkey ph pw' (hashed_with idkey ph password salt)
      = (Some (Inr (Key (hashed_with idkey ph pw' salt) = Key (hashed_with idkey ph password salt))) :: ('e pw_error + bool) option))
    \<and> needsRehashData ph (hashed_with idkey ph password salt) = (Some (Inr False) :: ('e pw_error + bool) option)"
proof -
  have t: "unat (Time ph) \<le> unat (verifyCostMultiplier ph) * unat (Time ph)"
    and m: "unat (Memory ph) \<le> unat (verifyCostMultiplier ph) * unat (Memory ph)"
    using assms(1) by (simp_all add: configured_def)
  have v: "validateVerifyData ph (hashed_with idkey ph password salt) = (Inr () :: 'e pw_error + unit)"
    using assms(1,3,4) t m
    by (simp add: validateVerifyData_def hashed_with_def validateStoredParamBounds_def validateStoredLengths_def
        outOfRange_nat verifyTimeCeiling_nat verifyMemoryCeiling_nat unat_ucast64 configured_def idkey_law_def
        pw_constants word_less_nat_alt not_less)
  have z: "maxPLen ph \<noteq> 0" using assms(1,2) by (auto simp: configured_def word_le_nat_alt)
  show ?thesis
    using z v configured_argon2 [OF assms(1)]
    by (simp add: passwordVerifyData_def needsRehashData_def) (simp add: hashed_with_def)
qed

lemma phc_length:
  assumes "minted d" "HParams d = Some p"
  shows "length (phc_with_zeros 0 0 0 0 p d) \<le> 4096"
proof -
  have d: "length (FormatUint 10 (unat (w :: 8 word))) \<le> 3" for w
    using format_length [of 3 "unat w"] word_values(1) [of w] by simp
  have e: "length (FormatUint 10 (unat (w :: 32 word))) \<le> 10" for w
    using format_length [of 10 "unat w"] word_values(2) [of w] by simp
  have b: "length (b64_encode False (Salt d)) \<le> 1368" "length (b64_encode False (Key d)) \<le> 1368"
    using assms(1) b64_encode_length [of False "Salt d"] b64_encode_length [of False "Key d"] by (auto simp: minted_def)
  have a: "length (Algo p) = 8" using assms by (auto simp: minted_def DefaultAlgo_def)
  show ?thesis
    using a b d [of "Version p"] d [of "Threads p"] e [of "Memory p"] e [of "Time p"]
    by (simp add: phc_with_zeros_def phc_string_def)
qed

lemma serialized_hash:
  fixes J :: "(Hashed, 'e) jsonlib"
  assumes "json_law J" "minted d" "format ph = FormatJSON \<or> format ph = FormatPHC" "serialize J ph d = Some (Inr h)"
  shows "length h \<le> maxHashLen \<and> decodeHash J h = (Inr d :: 'e pw_error + Hashed) \<and> detectFormat h = format ph"
proof (cases "format ph = FormatPHC")
  case True
  obtain p where p: "HParams d = Some p" using assms(2) by (auto simp: minted_def)
  have s: "stored d" using assms(2) by (simp add: minted_def)
  have h: "h = phc_with_zeros 0 0 0 0 p d"
    using assms(4) True marshal_phc_string [OF p] by (simp add: serialize_def phc_with_zeros_def)
  have f: "detectFormat h = FormatPHC" using phc_starts by (simp add: h detectFormat_def phcSeparator_def)
  have "unmarshalPHC h = (Inr d :: 'e pw_error + Hashed)"
    using unmarshal_zeros [OF s p, of 0 0 0 0] by (simp add: h phc_with_zeros_def)
  then show ?thesis using f True phc_length [OF assms(2) p] by (simp add: decodeHash_def h maxHashLen_def)
next
  case False
  then obtain b where b: "json_encode J d = Inr b" "h = b64_encode True b"
    using assms(4) by (auto simp: serialize_def Serialize_def split: sum.splits)
  have "take 1 h \<noteq> ''$''"
  proof
    assume "take 1 h = ''$''"
    then have "CHR ''$'' \<in> set h" by (metis in_set_takeD list.set_intros(1))
    then show False using b64_encode_chars b(2) b64_alphabet_specials(1) by fastforce
  qed
  then have f: "detectFormat h = FormatJSON" by (simp add: detectFormat_def phcSeparator_def)
  have "length b \<le> 8192" "json_decode64 J h = Inr d" using assms(1,2) b by (auto simp: json_law_def)
  then show ?thesis using f False assms(3) b64_encode_length [of True b]
    by (simp add: decodeHash_def Deserialize_def FormatJSON_def FormatPHC_def maxHashLen_def b(2))
qed

lemma passwordHashData_exact:
  assumes "configured ph" "minPLen ph \<le> maxPLen ph"
  shows "passwordHashData idkey rd ph password r =
     (if length password < unat (minPLen ph) then (Some (Inl ErrPasswordTooShort), r)
      else if unat (maxPLen ph) < length password then (Some (Inl ErrPasswordTooLong), r)
      else (case RandomBytes rd (int (unat (SaltLen ph))) r of
              (Inl e, r') \<Rightarrow> (Some (Inl (ErrRandom e)), r')
            | (Inr salt, r') \<Rightarrow> (Some (Inr (hashed_with idkey ph password salt)), r')))"
  using assms by (simp add: passwordHashData_def validateHashParams_ok configured_argon2 hashed_with_def
      split: sum.split prod.split)

text \<open>
  What a stored hash answers: \<open>verify\<close> accepts the password it was made from, and of the other
  passwords of admitted length those which Argon2 maps to the same key under its salt.
\<close>

definition answers :: "argon2 \<Rightarrow> Params \<Rightarrow> bytes \<Rightarrow> bytes \<Rightarrow> (bytes \<Rightarrow> ('e pw_error + bool) option) \<Rightarrow> bool" where
  "answers idkey ph password salt verify \<longleftrightarrow> verify password = Some (Inr True)
     \<and> (\<forall>pw'. length pw' \<le> unat (maxPLen ph) \<longrightarrow>
          verify pw' = Some (Inr (Key (hashed_with idkey ph pw' salt) = Key (hashed_with idkey ph password salt))))"

lemma plain_answers:
  fixes J :: "(Hashed, 'e) jsonlib"
  assumes cf: "configured ph" "minPLen ph \<le> maxPLen ph" and J: "json_law J" and K: "idkey_law idkey"
    and salt: "length salt = unat (SaltLen ph)" and len: "length password \<le> unat (maxPLen ph)"
    and h: "serialize J ph (hashed_with idkey ph password salt) = Some (Inr h)"
  shows "answers idkey ph password salt (\<lambda>pw'. PasswordVerify J idkey ph pw' h)
     \<and> PasswordNeedsRehash J ph h = Some (Inr False)"
proof -
  let ?d = "hashed_with idkey ph password salt"
  have ff: "format ph = FormatJSON \<or> format ph = FormatPHC" using cf by (simp add: configured_def)
  have sh: "length h \<le> maxHashLen" "decodeHash J h = (Inr ?d :: 'e pw_error + Hashed)" "detectFormat h = format ph"
    using serialized_hash [OF J hashed_with_minted [OF cf(1) K salt] ff h] by blast+
  have acc: "acceptsFormat ph (format ph)" using cf by (simp add: configured_def acceptsFormat_def)
  note vh = verify_hashed [OF cf K salt, of _ password, where 'e = 'e]
  have pv: "PasswordVerify J idkey ph pw' h = passwordVerifyData idkey ph pw' ?d" for pw'
    using sh by (simp add: PasswordVerify_def validateHashLen_def)
  show ?thesis
    using vh len sh acc by (simp add: answers_def pv PasswordNeedsRehash_def validateHashLen_def)
qed

lemma peppered_answers:
  fixes J :: "(Hashed, 'e) jsonlib"
  assumes cf: "configured ph" "minPLen ph \<le> maxPLen ph" and J: "json_law J" and A: "aead_law A" and K: "idkey_law idkey"
    and salt: "length salt = unat (SaltLen ph)" and len: "length password \<le> unat (maxPLen ph)"
    and key: "length key \<in> {16, 24, 32}"
    and c: "fst (EncryptSerializeAny A J nrd key (hashed_with idkey ph password salt) n) = Inr c"
  shows "answers idkey ph password salt (\<lambda>pw'. EncryptPasswordVerify A J idkey ph key pw' c)
     \<and> EncryptPasswordNeedsRehash A J ph key c = Some (Inr False)"
proof -
  let ?d = "hashed_with idkey ph password salt"
  obtain n' where c': "EncryptSerializeAny A J nrd key ?d n = (Inr c, n')" using c by (metis prod.collapse)
  have law: "json_encode J ?d = Inr b \<Longrightarrow> json_decode J b = Inr ?d \<and> length b \<le> 8192" for b
    using J hashed_with_minted [OF cf(1) K salt] by (auto simp: json_law_def)
  have dec: "DecryptSerializeAny A J key c = (Inr ?d :: 'e enc_error + Hashed)" and cl: "length c \<le> maxHashLen"
    using decrypt_serialized [OF A c'] law by (fastforce simp: maxHashLen_def)+
  have k: "validatePepperKey key = (Inr () :: 'e pw_error + unit)" using key by (auto simp: validatePepperKey_def)
  note vh = verify_hashed [OF cf K salt, of _ password, where 'e = 'e]
  have ev: "EncryptPasswordVerify A J idkey ph key pw' c = passwordVerifyData idkey ph pw' ?d" for pw'
    using k dec cl by (simp add: EncryptPasswordVerify_def validateHashLen_def)
  show ?thesis
    using vh len k dec cl by (simp add: answers_def ev EncryptPasswordNeedsRehash_def validateHashLen_def)
qed

text \<open>When serializing data fails.\<close>

lemma serialize_fails:
  assumes "HParams d \<noteq> None"
  shows "\<exists>q. serialize J ph d = Some q
     \<and> (\<forall>e. q = Inl e \<longrightarrow> format ph \<noteq> FormatPHC \<and> (\<exists>x. json_encode J d = Inl x \<and> e = ErrEncoding x))"
  using assms by (auto simp: serialize_def Serialize_def marshalPHC_def split: sum.splits)

lemma encrypt_fails:
  assumes "length key \<in> {16, 24, 32}" and "fst (EncryptSerializeAny A J nrd key d n) = Inl e"
  shows "(\<exists>x. json_encode J d = Inl x) \<or> (\<exists>x. fst (readFull nrd nonceSize n) = Inl x)"
  using assms by (auto simp: EncryptSerializeAny_def ByteEncryptSerializeAny_def byteEncryptEncoded_def Encrypt_def
      EncryptWith_def newAESGCM_def split: sum.splits prod.splits if_splits)

lemma plain_outcome:
  fixes J :: "(Hashed, 'e) jsonlib"
  assumes cf: "configured ph" "minPLen ph \<le> maxPLen ph" and J: "json_law J" and K: "idkey_law idkey"
    and salt: "length salt = unat (SaltLen ph)" and len: "length password \<le> unat (maxPLen ph)"
  shows "case serialize J ph (hashed_with idkey ph password salt) of
      Some (Inr h) \<Rightarrow> answers idkey ph password salt (\<lambda>pw'. PasswordVerify J idkey ph pw' h)
        \<and> PasswordNeedsRehash J ph h = Some (Inr False)
    | Some (Inl e) \<Rightarrow> format ph \<noteq> FormatPHC
        \<and> (\<exists>x. json_encode J (hashed_with idkey ph password salt) = Inl x \<and> e = ErrEncoding x)
    | None \<Rightarrow> False"
  using plain_answers [OF cf J K salt len] serialize_fails [of "hashed_with idkey ph password salt" J ph]
  by (auto simp: hashed_with_def split: option.split sum.split)

lemma peppered_outcome:
  fixes J :: "(Hashed, 'e) jsonlib"
  assumes cf: "configured ph" "minPLen ph \<le> maxPLen ph" and J: "json_law J" and A: "aead_law A" and K: "idkey_law idkey"
    and salt: "length salt = unat (SaltLen ph)" and len: "length password \<le> unat (maxPLen ph)"
    and key: "length key \<in> {16, 24, 32}"
  shows "case fst (EncryptSerializeAny A J nrd key (hashed_with idkey ph password salt) n) of
      Inr c \<Rightarrow> answers idkey ph password salt (\<lambda>pw'. EncryptPasswordVerify A J idkey ph key pw' c)
        \<and> EncryptPasswordNeedsRehash A J ph key c = Some (Inr False)
    | Inl e \<Rightarrow> (\<exists>x. json_encode J (hashed_with idkey ph password salt) = Inl x)
        \<or> (\<exists>x. fst (readFull nrd nonceSize n) = Inl x)"
proof (cases "fst (EncryptSerializeAny A J nrd key (hashed_with idkey ph password salt) n)")
  case (Inl e)
  then show ?thesis using encrypt_fails [OF key Inl] by simp
next
  case (Inr c)
  then show ?thesis using peppered_answers [OF cf J A K salt len key Inr] by simp
qed

text \<open>
  C21. With every configuration that \<^verbatim>\<open>New\<close> can build, in both formats and with or without a pepper, for every
  password and reader of random bytes: hashing never panics, and its result is this. A password that is too short or
  too long and a pepper key of a wrong length are refused with their own errors, the configuration never is, and a
  failing reader is reported. Otherwise the salt drawn has the length configured; the hash is refused only when JSON
  encoding fails (never in the PHC format) or, with a pepper, the nonce cannot be read; and the hash that is returned
  verifies with the password, does not ask for rehashing, and verifies with another password of admitted length exactly
  when Argon2 maps both to the same key under that salt. What is relied on: JSON reads back what it wrote, AES-GCM
  opens what it sealed, Argon2 returns keys of the length asked for.
\<close>

theorem hash_verifies:
  fixes J :: "(Hashed, 'e) jsonlib" and rd :: "('r, 'e) reader" and nrd :: "('n, 'e) reader"
  assumes "json_law J" "aead_law A" "idkey_law idkey"
  shows "let ph = pw_New opts; key_ok = (length key \<in> {16, 24, 32});
       plain = fst (PasswordHash J idkey rd ph password r);
       peppered = EncryptPasswordHash A J idkey rd nrd ph key password r n
     in (\<not> key_ok \<longrightarrow> peppered = Some (Inl ErrInvalidPepperKey))
      \<and> (if length password < unat (minPLen ph)
         then plain = Some (Inl ErrPasswordTooShort) \<and> (key_ok \<longrightarrow> peppered = Some (Inl ErrPasswordTooShort))
         else if unat (maxPLen ph) < length password
         then plain = Some (Inl ErrPasswordTooLong) \<and> (key_ok \<longrightarrow> peppered = Some (Inl ErrPasswordTooLong))
         else (case fst (RandomBytes rd (int (unat (SaltLen ph))) r) of
             Inl e \<Rightarrow> plain = Some (Inl (ErrRandom e)) \<and> (key_ok \<longrightarrow> peppered = Some (Inl (ErrRandom e)))
           | Inr salt \<Rightarrow> length salt = unat (SaltLen ph)
               \<and> (case plain of
                    Some (Inr h) \<Rightarrow> answers idkey ph password salt (\<lambda>pw'. PasswordVerify J idkey ph pw' h)
                      \<and> PasswordNeedsRehash J ph h = Some (Inr False)
                  | Some (Inl e) \<Rightarrow> format ph \<noteq> FormatPHC
                      \<and> (\<exists>x. json_encode J (hashed_with idkey ph password salt) = Inl x \<and> e = ErrEncoding x)
                  | None \<Rightarrow> False)
               \<and> (key_ok \<longrightarrow>
                    (case peppered of
                       Some (Inr (Inr c)) \<Rightarrow> answers idkey ph password salt (\<lambda>pw'. EncryptPasswordVerify A J idkey ph key pw' c)
                         \<and> EncryptPasswordNeedsRehash A J ph key c = Some (Inr False)
                     | Some (Inr (Inl e)) \<Rightarrow> (\<exists>x. json_encode J (hashed_with idkey ph password salt) = Inl x)
                         \<or> (\<exists>x. fst (readFull nrd nonceSize n) = Inl x)
                     | _ \<Rightarrow> False))))"
proof -
  define ph where "ph = pw_New opts"
  have cf: "configured ph" "minPLen ph \<le> maxPLen ph" using configured_New by (simp_all add: ph_def)
  note exact = passwordHashData_exact [OF cf, of idkey rd password r]
  have key: "validatePepperKey key = (if length key \<in> {16, 24, 32} then Inr () else Inl ErrInvalidPepperKey :: 'e pw_error + unit)"
    by (auto simp: validatePepperKey_def)
  obtain q r' where rb: "RandomBytes rd (int (unat (SaltLen ph))) r = (q, r')" by fastforce
  show ?thesis
  proof (cases q)
    case (Inl e)
    then show ?thesis
      unfolding Let_def ph_def [symmetric]
      using exact key rb by (simp add: PasswordHash_def EncryptPasswordHash_def del: insert_iff)
  next
    case (Inr salt)
    have salt: "length salt = unat (SaltLen ph)" using RandomBytes_length [of rd _ r salt r'] rb Inr by simp
    note out = plain_outcome [OF cf assms(1,3) salt, of password] peppered_outcome [OF cf assms salt, of password key nrd n]
    show ?thesis
      unfolding Let_def ph_def [symmetric]
      using exact key rb Inr salt out by (simp add: PasswordHash_def EncryptPasswordHash_def not_less del: insert_iff)
  qed
qed

definition zeros_reader :: "(unit, unit) reader" where
  "zeros_reader r n = (replicate n (CHR ''s''), None, r)"

lemma zeros_readFull: "readFull zeros_reader n () = (Inr (replicate n (CHR ''s'')), ())"
  by (simp add: readFull_def zeros_reader_def readFull_loop.simps)

lemma demo_json_law: "json_law demo_json"
proof -
  have "json_decode demo_json b = Inr d \<and> json_decode64 demo_json (b64_encode True b) = Inr d \<and> length b \<le> 8192"
    if d: "minted d" and b: "json_encode demo_json d = Inr b" for d b
  proof -
    obtain p where p: "HParams d = Some p" and s: "stored d" using d by (auto simp: minted_def)
    have h: "b = phc_with_zeros 0 0 0 0 p d"
      using b marshal_phc_string [OF p] by (simp add: demo_json_def phc_with_zeros_def)
    have "unmarshalPHC b = (Inr d :: unit pw_error + Hashed)"
      using unmarshal_zeros [OF s p, of 0 0 0 0, where 'e = unit] by (simp add: h phc_with_zeros_def)
    then show ?thesis using phc_length [OF d p] by (simp add: demo_json_def h)
  qed
  then show ?thesis unfolding json_law_def by blast
qed

theorem hash_verifies_witness:
  "\<exists>h c. fst (PasswordHash demo_json demo_argon2 zeros_reader (pw_New []) ''correct horse'' ()) = Some (Inr h)
     \<and> PasswordVerify demo_json demo_argon2 (pw_New []) ''correct horse'' h = Some (Inr True)
     \<and> PasswordNeedsRehash demo_json (pw_New []) h = Some (Inr False)
     \<and> EncryptPasswordHash demo_aead demo_json demo_argon2 zeros_reader zeros_reader (pw_New []) (replicate 16 (CHR ''k''))
         ''correct horse'' () () = Some (Inr (Inr c))
     \<and> EncryptPasswordVerify demo_aead demo_json demo_argon2 (pw_New []) (replicate 16 (CHR ''k'')) ''correct horse'' c
         = Some (Inr True)
     \<and> EncryptPasswordHash demo_aead demo_json demo_argon2 zeros_reader zeros_reader (pw_New []) (replicate 16 (CHR ''k''))
         ''horse'' () () = Some (Inl ErrPasswordTooShort)"
proof -
  have A: "aead_law demo_aead" by (simp add: aead_law_def demo_aead_def)
  have K: "idkey_law demo_argon2" by (auto simp: idkey_law_def demo_argon2_def min_def)
  define ph where "ph = pw_New []"
  have cf: "configured ph" "minPLen ph \<le> maxPLen ph" using configured_New by (simp_all add: ph_def)
  have len: "minPLen ph = 8" "maxPLen ph = 4096" "format ph = FormatJSON"
    by (simp_all add: ph_def pw_New_def defaultParams_def pw_constants Let_def)
  have "RandomBytes zeros_reader (int (unat (SaltLen ph))) () = (Inr (replicate (unat (SaltLen ph)) (CHR ''s'')), ())"
    by (simp add: RandomBytes_def zeros_readFull)
  then have d: "passwordHashData demo_argon2 zeros_reader ph ''correct horse'' ()
      = (Some (Inr (hashed_with demo_argon2 ph ''correct horse'' (replicate (unat (SaltLen ph)) (CHR ''s'')))), ())"
    using len by (simp add: passwordHashData_def validateHashParams_ok [OF cf] configured_argon2 [OF cf(1)] hashed_with_def)
  have "\<exists>h. fst (PasswordHash demo_json demo_argon2 zeros_reader ph ''correct horse'' ()) = Some (Inr h)"
    by (simp add: PasswordHash_def d serialize_def len FormatJSON_def FormatPHC_def Serialize_def demo_json_def
        marshalPHC_def hashed_with_def)
  then obtain h where h: "fst (PasswordHash demo_json demo_argon2 zeros_reader (pw_New []) ''correct horse'' ()) = Some (Inr h)"
    unfolding ph_def by blast
  have "\<exists>c. EncryptPasswordHash demo_aead demo_json demo_argon2 zeros_reader zeros_reader ph (replicate 16 (CHR ''k''))
      ''correct horse'' () () = Some (Inr (Inr c))"
    by (simp add: EncryptPasswordHash_def validatePepperKey_def d EncryptSerializeAny_def ByteEncryptSerializeAny_def
        demo_json_def marshalPHC_def hashed_with_def byteEncryptEncoded_def Encrypt_def EncryptWith_def newAESGCM_def zeros_readFull)
  then obtain c where c: "EncryptPasswordHash demo_aead demo_json demo_argon2 zeros_reader zeros_reader (pw_New [])
      (replicate 16 (CHR ''k'')) ''correct horse'' () () = Some (Inr (Inr c))" unfolding ph_def by blast
  have salt: "fst (RandomBytes zeros_reader (int (unat (SaltLen (pw_New [])))) ()) = Inr (replicate (unat (SaltLen ph)) (CHR ''s''))"
    by (simp add: RandomBytes_def zeros_readFull ph_def)
  note main = hash_verifies [OF demo_json_law A K, where opts = "[]" and rd = zeros_reader and r = "()"
      and nrd = zeros_reader and n = "()" and key = "replicate 16 (CHR ''k'')"]
  have "answers demo_argon2 (pw_New []) ''correct horse'' (replicate (unat (SaltLen ph)) (CHR ''s''))
        (\<lambda>pw'. PasswordVerify demo_json demo_argon2 (pw_New []) pw' h) \<and> PasswordNeedsRehash demo_json (pw_New []) h = Some (Inr False)
      \<and> answers demo_argon2 (pw_New []) ''correct horse'' (replicate (unat (SaltLen ph)) (CHR ''s''))
        (\<lambda>pw'. EncryptPasswordVerify demo_aead demo_json demo_argon2 (pw_New []) (replicate 16 (CHR ''k'')) pw' c)"
    using main [where password = "''correct horse''", unfolded Let_def salt] len [unfolded ph_def] by (simp add: h c ph_def)
  moreover have "EncryptPasswordHash demo_aead demo_json demo_argon2 zeros_reader zeros_reader (pw_New []) (replicate 16 (CHR ''k''))
      ''horse'' () () = Some (Inl ErrPasswordTooShort)"
    using main [where password = "''horse''"] len [unfolded ph_def] by (simp add: Let_def)
  ultimately show ?thesis using h c by (auto simp: answers_def)
qed

end
