(* ===== verification/EN_Enum.thy ===== *)
theory EN_Enum
  imports Go_Prelude "HOL-Library.List_Lexorder" "HOL-Library.Multiset"
begin

unbundle bit_operations_syntax

text \<open>
  \<^verbatim>\<open>pkg/enumbitmap\<close> and \<^verbatim>\<open>pkg/enumcache\<close>: names of an enumeration and their numbers, as two maps that are kept
  inverse to each other, and sets of names as bitmaps. The read-write lock makes every operation atomic; the
  order in which Go visits a map that is loaded is the order of a list of its entries.
\<close>

section \<open>Bitmaps\<close>

definition maxBit :: nat where "maxBit = 32"

datatype bitmap_error = ErrUnknownBitValues "int list" | ErrUnknownStringValues "bytes list"

definition bit_step :: "(int, bytes) fmap \<Rightarrow> int \<Rightarrow> bytes list \<times> int list \<Rightarrow> nat \<Rightarrow> bytes list \<times> int list" where
  "bit_step enum v = (\<lambda>(s, errBits) bit.
     let mask = push_bit bit 1
     in if v AND mask = 0 then (s, errBits)
        else (case fmlookup enum mask of Some name \<Rightarrow> (s @ [name], errBits) | None \<Rightarrow> (s, errBits @ [mask])))"

definition BitMapToStrings :: "(int, bytes) fmap \<Rightarrow> int \<Rightarrow> bytes list \<times> bitmap_error option" where
  "BitMapToStrings enum v =
     (if v = 0 then ([], None)
      else
        let (s, errBits) = foldl (bit_step enum v) ([], []) [0 ..< maxBit]
        in (s, if errBits \<noteq> [] then Some (ErrUnknownBitValues errBits) else None))"

definition string_step :: "(bytes, int) fmap \<Rightarrow> int \<times> bytes list \<Rightarrow> bytes \<Rightarrow> int \<times> bytes list" where
  "string_step enum = (\<lambda>(v, errStrings) key.
     case fmlookup enum key of Some i \<Rightarrow> (v OR i, errStrings) | None \<Rightarrow> (v, errStrings @ [key]))"

definition StringsToBitMap :: "(bytes, int) fmap \<Rightarrow> bytes list \<Rightarrow> int \<times> bitmap_error option" where
  "StringsToBitMap enum s =
     (let (v, errStrings) = foldl (string_step enum) (0, []) s
      in (v, if errStrings \<noteq> [] then Some (ErrUnknownStringValues errStrings) else None))"

section \<open>The cache\<close>

record EnumCache =
  ids :: "(bytes, int) fmap"
  names :: "(int, bytes) fmap"

datatype enum_error = ErrNameNotFound bytes | ErrIDNotFound int

definition enum_New :: EnumCache where
  "enum_New = \<lparr>ids = fmempty, names = fmempty\<rparr>"

definition enum_set :: "int \<Rightarrow> bytes \<Rightarrow> EnumCache \<Rightarrow> EnumCache" where
  "enum_set i n ec =
     (let ec = (case fmlookup (names ec) i of
                  Some oldName \<Rightarrow> if oldName \<noteq> n then ec\<lparr>ids := fmdrop oldName (ids ec)\<rparr> else ec
                | None \<Rightarrow> ec);
          ec = (case fmlookup (ids ec) n of
                  Some oldID \<Rightarrow> if oldID \<noteq> i then ec\<lparr>names := fmdrop oldID (names ec)\<rparr> else ec
                | None \<Rightarrow> ec)
      in ec\<lparr>names := fmupd i n (names ec), ids := fmupd n i (ids ec)\<rparr>)"

definition Set :: "int \<Rightarrow> bytes \<Rightarrow> EnumCache \<Rightarrow> EnumCache" where
  "Set i n ec = enum_set i n ec"

definition Delete :: "int \<Rightarrow> EnumCache \<Rightarrow> EnumCache" where
  "Delete i ec =
     (case fmlookup (names ec) i of
        None \<Rightarrow> ec
      | Some n \<Rightarrow> ec\<lparr>names := fmdrop i (names ec), ids := fmdrop n (ids ec)\<rparr>)"

definition SetAllIDByName :: "(bytes \<times> int) list \<Rightarrow> EnumCache \<Rightarrow> EnumCache" where
  "SetAllIDByName enum ec = foldl (\<lambda>c (n, i). enum_set i n c) ec enum"

definition SetAllNameByID :: "(int \<times> bytes) list \<Rightarrow> EnumCache \<Rightarrow> EnumCache" where
  "SetAllNameByID enum ec = foldl (\<lambda>c (i, n). enum_set i n c) ec enum"

definition ID :: "bytes \<Rightarrow> EnumCache \<Rightarrow> enum_error + int" where
  "ID n ec = (case fmlookup (ids ec) n of None \<Rightarrow> Inl (ErrNameNotFound n) | Some i \<Rightarrow> Inr i)"

definition Name :: "int \<Rightarrow> EnumCache \<Rightarrow> enum_error + bytes" where
  "Name i ec = (case fmlookup (names ec) i of None \<Rightarrow> Inl (ErrIDNotFound i) | Some n \<Rightarrow> Inr n)"

definition SortNames :: "EnumCache \<Rightarrow> bytes list" where
  "SortNames ec = sorted_list_of_fset (fmdom (ids ec))"

definition SortIDs :: "EnumCache \<Rightarrow> int list" where
  "SortIDs ec = sorted_list_of_fset (fmdom (names ec))"

definition enum_Len :: "EnumCache \<Rightarrow> nat" where
  "enum_Len ec = maplen (ids ec)"

definition Has :: "bytes \<Rightarrow> EnumCache \<Rightarrow> bool" where
  "Has n ec \<longleftrightarrow> fmlookup (ids ec) n \<noteq> None"

definition HasID :: "int \<Rightarrow> EnumCache \<Rightarrow> bool" where
  "HasID i ec \<longleftrightarrow> fmlookup (names ec) i \<noteq> None"

definition DecodeBinaryMap :: "int \<Rightarrow> EnumCache \<Rightarrow> bytes list \<times> bitmap_error option" where
  "DecodeBinaryMap v ec = BitMapToStrings (names ec) v"

definition EncodeBinaryMap :: "bytes list \<Rightarrow> EnumCache \<Rightarrow> int \<times> bitmap_error option" where
  "EncodeBinaryMap s ec = StringsToBitMap (ids ec) s"

section \<open>The two maps are inverse\<close>

definition inverse_maps :: "EnumCache \<Rightarrow> bool" where
  "inverse_maps ec \<longleftrightarrow> (\<forall>i n. fmlookup (names ec) i = Some n \<longleftrightarrow> fmlookup (ids ec) n = Some i)"

lemma inverse_New: "inverse_maps enum_New"
  by (simp add: inverse_maps_def enum_New_def)

text \<open>What storing a pair does to the map of names: both its old partners lose theirs.\<close>

lemma names_set: "names (enum_set i n ec) = fmupd i n (case fmlookup (ids ec) n of
     Some oldID \<Rightarrow> if oldID \<noteq> i then fmdrop oldID (names ec) else names ec | None \<Rightarrow> names ec)"
  by (simp add: enum_set_def Let_def split: option.split)

lemma ids_set: "ids (enum_set i n ec) = fmupd n i (case fmlookup (names ec) i of
     Some oldName \<Rightarrow> if oldName \<noteq> n then fmdrop oldName (ids ec) else ids ec | None \<Rightarrow> ids ec)"
  by (simp add: enum_set_def Let_def split: option.split)

lemma enum_set_names:
  assumes "inverse_maps ec"
  shows "fmlookup (names (enum_set i n ec)) j =
     (if j = i then Some n else if fmlookup (names ec) j = Some n then None else fmlookup (names ec) j)"
proof (cases "fmlookup (ids ec) n")
  case None
  then have "fmlookup (names ec) j \<noteq> Some n" using assms by (simp add: inverse_maps_def)
  then show ?thesis using None by (simp add: names_set)
next
  case (Some k)
  then have "fmlookup (names ec) j = Some n \<longleftrightarrow> j = k" using assms by (auto simp: inverse_maps_def)
  then show ?thesis using Some by (auto simp: names_set)
qed

lemma enum_set_ids:
  assumes "inverse_maps ec"
  shows "fmlookup (ids (enum_set i n ec)) m =
     (if m = n then Some i else if fmlookup (ids ec) m = Some i then None else fmlookup (ids ec) m)"
proof (cases "fmlookup (names ec) i")
  case None
  then have "fmlookup (ids ec) m \<noteq> Some i" using assms by (metis inverse_maps_def option.distinct(1))
  then show ?thesis using None by (simp add: ids_set)
next
  case (Some k)
  then have "fmlookup (ids ec) m = Some i \<longleftrightarrow> m = k" using assms by (metis inverse_maps_def option.inject)
  then show ?thesis using Some by (auto simp: ids_set)
qed

lemma inverse_iff: "inverse_maps ec \<Longrightarrow> fmlookup (names ec) i = Some n \<longleftrightarrow> fmlookup (ids ec) n = Some i"
  by (simp add: inverse_maps_def)

lemma inverse_maps_inj:
  "inverse_maps ec \<Longrightarrow> fmlookup (names ec) i = Some n \<Longrightarrow> fmlookup (names ec) j = Some n \<Longrightarrow> i = j"
  using inverse_iff [of ec i n] inverse_iff [of ec j n] by simp

lemma inverse_ids_inj:
  "inverse_maps ec \<Longrightarrow> fmlookup (ids ec) m = Some i \<Longrightarrow> fmlookup (ids ec) n = Some i \<Longrightarrow> m = n"
  using inverse_iff [of ec i n] inverse_iff [of ec i m] by simp

lemma inverse_set:
  assumes "inverse_maps ec"
  shows "inverse_maps (enum_set i n ec)"
proof -
  have "fmlookup (names (enum_set i n ec)) j = Some m \<longleftrightarrow> fmlookup (ids (enum_set i n ec)) m = Some j" for j m
    using inverse_iff [OF assms, of j m] unfolding enum_set_names [OF assms] enum_set_ids [OF assms] by auto
  then show ?thesis by (simp add: inverse_maps_def)
qed

lemma inverse_Delete:
  assumes "inverse_maps ec"
  shows "inverse_maps (Delete i ec)"
proof (cases "fmlookup (names ec) i")
  case (Some n)
  have n: "fmlookup (ids ec) n = Some i" using inverse_iff [OF assms] Some by simp
  have "fmlookup (names (Delete i ec)) j = Some m \<longleftrightarrow> fmlookup (ids (Delete i ec)) m = Some j" for j m
    using inverse_iff [OF assms, of j m] n inverse_ids_inj [OF assms, of m i n] Some
    by (cases "j = i"; cases "m = n") (simp_all add: Delete_def)
  then show ?thesis by (simp add: inverse_maps_def)
qed (use assms in \<open>simp add: Delete_def\<close>)

lemma inverse_load:
  "inverse_maps ec \<Longrightarrow> inverse_maps (SetAllIDByName es ec)"
  "inverse_maps ec \<Longrightarrow> inverse_maps (SetAllNameByID fs ec)"
proof -
  show "inverse_maps ec \<Longrightarrow> inverse_maps (SetAllIDByName es ec)"
    unfolding SetAllIDByName_def by (induction es arbitrary: ec) (auto simp: inverse_set split: prod.splits)
  show "inverse_maps ec \<Longrightarrow> inverse_maps (SetAllNameByID fs ec)"
    unfolding SetAllNameByID_def by (induction fs arbitrary: ec) (auto simp: inverse_set split: prod.splits)
qed

lemma inverse_len:
  assumes "inverse_maps ec"
  shows "maplen (names ec) = maplen (ids ec)"
proof -
  have "fmdom' (ids ec) = (\<lambda>i. the (fmlookup (names ec) i)) ` fmdom' (names ec)"
  proof (intro set_eqI iffI)
    fix m assume "m \<in> fmdom' (ids ec)"
    then obtain i where "fmlookup (names ec) i = Some m" using inverse_iff [OF assms] by (auto simp: fmlookup_dom'_iff)
    then show "m \<in> (\<lambda>i. the (fmlookup (names ec) i)) ` fmdom' (names ec)"
      by (intro image_eqI [of _ _ i]) (simp_all add: fmlookup_dom'_iff)
  next
    fix m assume "m \<in> (\<lambda>i. the (fmlookup (names ec) i)) ` fmdom' (names ec)"
    then obtain i where "fmlookup (names ec) i = Some m" by (auto simp: fmlookup_dom'_iff)
    then show "m \<in> fmdom' (ids ec)" using inverse_iff [OF assms] by (auto simp: fmlookup_dom'_iff)
  qed
  moreover have "inj_on (\<lambda>i. the (fmlookup (names ec) i)) (fmdom' (names ec))"
  proof (rule inj_onI)
    fix i j assume "i \<in> fmdom' (names ec)" "j \<in> fmdom' (names ec)"
      "the (fmlookup (names ec) i) = the (fmlookup (names ec) j)"
    then obtain n where "fmlookup (names ec) i = Some n" "fmlookup (names ec) j = Some n"
      by (metis fmlookup_dom'_iff option.sel)
    then show "i = j" by (rule inverse_maps_inj [OF assms])
  qed
  ultimately have "card (fmdom' (ids ec)) = card (fmdom' (names ec))" by (simp add: card_image)
  then show ?thesis by (simp add: maplen_def fcard.rep_eq fmdom'_alt_def)
qed

section \<open>Decoding and encoding\<close>

definition or_all :: "int list \<Rightarrow> int" where
  "or_all xs = foldl (\<lambda>v x. v OR x) 0 xs"

lemma or_all_simps [simp]: "or_all [] = 0" "or_all (xs @ [x]) = or_all xs OR x"
  by (simp_all add: or_all_def)

lemma take_bit_next: "take_bit (Suc k) v = (if bit v k then take_bit k v OR 2 ^ k else take_bit k v)" for v :: int
  by (rule bit_eqI) (auto simp: bit_simps less_Suc_eq)

lemma mask_test: "v AND 2 ^ k = 0 \<longleftrightarrow> \<not> bit v k" for v :: int
  by (rule and_exp_eq_0_iff_not_bit)

text \<open>The masks below \<open>k\<close> that are set in \<open>v\<close> and unknown to the cache.\<close>

definition unknown_masks :: "EnumCache \<Rightarrow> int \<Rightarrow> nat \<Rightarrow> int list" where
  "unknown_masks ec v k = map (\<lambda>b. 2 ^ b) (List.filter (\<lambda>b. bit v b \<and> fmlookup (names ec) (2 ^ b) = None) [0 ..< k])"

definition known_names :: "EnumCache \<Rightarrow> int \<Rightarrow> nat \<Rightarrow> bytes list" where
  "known_names ec v k = List.map_filter (\<lambda>b. if bit v b then fmlookup (names ec) (2 ^ b) else None) [0 ..< k]"

lemma decode_fold: "foldl (bit_step (names ec) v) ([], []) [0 ..< k] = (known_names ec v k, unknown_masks ec v k)"
proof (induction k)
  case (Suc k)
  have "known_names ec v (Suc k) = known_names ec v k
      @ (if bit v k then (case fmlookup (names ec) (2 ^ k) of None \<Rightarrow> [] | Some n \<Rightarrow> [n]) else [])"
    by (simp add: known_names_def List.map_filter_def split: option.split)
  moreover have "unknown_masks ec v (Suc k) = unknown_masks ec v k
      @ (if bit v k \<and> fmlookup (names ec) (2 ^ k) = None then [2 ^ k] else [])"
    by (simp add: unknown_masks_def)
  ultimately show ?case using Suc by (simp add: bit_step_def Let_def mask_test split: option.split)
qed (simp add: known_names_def unknown_masks_def List.map_filter_def)

lemma encode_fold:
  assumes "inverse_maps ec"
  shows "snd (foldl (string_step (ids ec)) (0, []) (known_names ec v k)) = []
     \<and> fst (foldl (string_step (ids ec)) (0, []) (known_names ec v k)) OR or_all (unknown_masks ec v k) = take_bit k v"
proof (induction k)
  case (Suc k)
  define p where "p = foldl (string_step (ids ec)) (0, []) (known_names ec v k)"
  obtain w where p: "p = (w, [])" using Suc by (cases p) (simp add: p_def [symmetric])
  have w: "w OR or_all (unknown_masks ec v k) = take_bit k v" using Suc p by (simp add: p_def [symmetric])
  have kn: "known_names ec v (Suc k) = known_names ec v k
      @ (if bit v k then (case fmlookup (names ec) (2 ^ k) of None \<Rightarrow> [] | Some n \<Rightarrow> [n]) else [])"
    by (simp add: known_names_def List.map_filter_def split: option.split)
  have um: "unknown_masks ec v (Suc k) = unknown_masks ec v k
      @ (if bit v k \<and> fmlookup (names ec) (2 ^ k) = None then [2 ^ k] else [])"
    by (simp add: unknown_masks_def)
  show ?case
  proof (cases "bit v k")
    case False
    then show ?thesis using kn um w p by (simp add: p_def [symmetric] take_bit_next)
  next
    case True
    show ?thesis
    proof (cases "fmlookup (names ec) (2 ^ k)")
      case None
      then show ?thesis using kn um w p True
        by (simp add: p_def [symmetric] take_bit_next or.assoc [symmetric])
    next
      case (Some n)
      then have "fmlookup (ids ec) n = Some (2 ^ k)" using assms by (simp add: inverse_maps_def)
      then have "foldl (string_step (ids ec)) (0, []) (known_names ec v (Suc k)) = (w OR 2 ^ k, [])"
        using kn True Some p by (simp add: p_def [symmetric]) (simp add: string_step_def)
      moreover have "(w OR 2 ^ k) OR or_all (unknown_masks ec v k) = take_bit k v OR 2 ^ k"
        by (simp only: w [symmetric] or.assoc or.commute or.left_commute)
      ultimately show ?thesis using um True Some by (simp add: take_bit_next)
    qed
  qed
qed (simp add: known_names_def unknown_masks_def List.map_filter_def)

end
