(* ===== verification/EN_Props.thy ===== *)
theory EN_Props
  imports EN_Enum
begin

unbundle bit_operations_syntax

text \<open>The properties of \<^verbatim>\<open>pkg/enumcache\<close> and \<^verbatim>\<open>pkg/enumbitmap\<close>.\<close>

section \<open>Sequences of operations\<close>

datatype enum_op =
    OpSet int bytes
  | OpDelete int
  | OpLoadIDs "(bytes \<times> int) list"
  | OpLoadNames "(int \<times> bytes) list"

fun run_op :: "EnumCache \<Rightarrow> enum_op \<Rightarrow> EnumCache" where
  "run_op ec (OpSet i n) = Set i n ec"
| "run_op ec (OpDelete i) = Delete i ec"
| "run_op ec (OpLoadIDs es) = SetAllIDByName es ec"
| "run_op ec (OpLoadNames es) = SetAllNameByID es ec"

definition run_ops :: "enum_op list \<Rightarrow> EnumCache" where
  "run_ops ops = foldl run_op enum_New ops"

lemma run_ops_inverse: "inverse_maps (run_ops ops)"
proof -
  have "inverse_maps (run_op ec opn)" if "inverse_maps ec" for ec opn
    using that by (cases opn) (simp_all add: Set_def inverse_set inverse_Delete inverse_load)
  then have "inverse_maps ec \<Longrightarrow> inverse_maps (foldl run_op ec ops)" for ec
    by (induction ops arbitrary: ec) simp_all
  then show ?thesis by (simp add: run_ops_def inverse_New)
qed

lemma decode_parts:
  "v \<noteq> 0 \<Longrightarrow> DecodeBinaryMap v ec = (known_names ec v 32,
     if unknown_masks ec v 32 \<noteq> [] then Some (ErrUnknownBitValues (unknown_masks ec v 32)) else None)"
  by (simp add: DecodeBinaryMap_def BitMapToStrings_def maxBit_def decode_fold)

definition unknown_of :: "bitmap_error option \<Rightarrow> int list" where
  "unknown_of e = (case e of Some (ErrUnknownBitValues ms) \<Rightarrow> ms | _ \<Rightarrow> [])"

lemma encode_parts:
  "EncodeBinaryMap s ec = (let p = foldl (string_step (ids ec)) (0, []) s
     in (fst p, if snd p \<noteq> [] then Some (ErrUnknownStringValues (snd p)) else None))"
  by (simp add: EncodeBinaryMap_def StringsToBitMap_def Let_def split: prod.split)

text \<open>
  C22. After any sequence of storing, deleting and loading, in any order of the loaded maps, the two maps of the cache
  are inverse to each other: a name has a number exactly when the number has that name, and both have as many
  entries as \<^verbatim>\<open>Len\<close> says. Storing a pair makes it found in both directions and removes exactly the pairs that share its
  number or its name. Decoding a bitmap and encoding the names gives back its low 32 bits, up to the masks that the
  error lists, which are exactly the set bits without a name; the names themselves are always known.
\<close>

theorem enum_cache_consistent:
  "(let ec = run_ops ops in (Name i ec = Inr n \<longleftrightarrow> ID n ec = Inr i)
    \<and> length (SortNames ec) = enum_Len ec \<and> length (SortIDs ec) = enum_Len ec
    \<and> Name j (Set i n ec) = (if j = i then Inr n else if Name j ec = Inr n then Inl (ErrIDNotFound j) else Name j ec)
    \<and> ID m (Set i n ec) = (if m = n then Inr i else if ID m ec = Inr i then Inl (ErrNameNotFound m) else ID m ec)
    \<and> (let (ns, e) = DecodeBinaryMap v ec; (w, e') = EncodeBinaryMap ns ec
       in e' = None \<and> w OR or_all (unknown_of e) = take_bit 32 v
          \<and> set (unknown_of e) = {2 ^ k | k. k < 32 \<and> bit v k \<and> \<not> HasID (2 ^ k) ec}))"
proof -
  define ec where "ec = run_ops ops"
  have inv: "inverse_maps ec" unfolding ec_def by (rule run_ops_inverse)
  have 1: "Name i ec = Inr n \<longleftrightarrow> ID n ec = Inr i"
    using inverse_iff [OF inv, of i n]
    by (cases "fmlookup (names ec) i"; cases "fmlookup (ids ec) n") (simp_all add: Name_def ID_def)
  have len: "length (sorted_list_of_fset xs) = fcard xs" for xs :: "'x :: linorder fset"
    by (simp add: sorted_list_of_fset.rep_eq fcard.rep_eq)
  have 2: "length (SortNames ec) = enum_Len ec" "length (SortIDs ec) = enum_Len ec"
    using inverse_len [OF inv] by (simp_all add: SortNames_def SortIDs_def enum_Len_def maplen_def len)
  have 3: "Name j (Set i n ec) = (if j = i then Inr n else if Name j ec = Inr n then Inl (ErrIDNotFound j) else Name j ec)"
    using enum_set_names [OF inv, of i n j] by (simp add: Name_def Set_def split: option.split)
  have 4: "ID m (Set i n ec) = (if m = n then Inr i else if ID m ec = Inr i then Inl (ErrNameNotFound m) else ID m ec)"
    using enum_set_ids [OF inv, of i n m] by (simp add: ID_def Set_def split: option.split)
  have 5: "let (ns, e) = DecodeBinaryMap v ec; (w, e') = EncodeBinaryMap ns ec
     in e' = None \<and> w OR or_all (unknown_of e) = take_bit 32 v
        \<and> set (unknown_of e) = {2 ^ k | k. k < 32 \<and> bit v k \<and> \<not> HasID (2 ^ k) ec}"
  proof (cases "v = 0")
    case True
    then show ?thesis by (simp add: DecodeBinaryMap_def BitMapToStrings_def encode_parts unknown_of_def)
  next
    case False
    have u: "unknown_of (if unknown_masks ec v 32 \<noteq> [] then Some (ErrUnknownBitValues (unknown_masks ec v 32)) else None)
        = unknown_masks ec v 32" by (simp add: unknown_of_def)
    have "set (unknown_masks ec v 32) = {2 ^ k | k. k < 32 \<and> bit v k \<and> \<not> HasID (2 ^ k) ec}"
      by (auto simp: unknown_masks_def HasID_def)
    then show ?thesis using encode_fold [OF inv, of v 32]
      by (simp only: decode_parts [OF False] encode_parts Let_def split u) (simp only: prod.case simp_thms if_False)
  qed
  show ?thesis unfolding ec_def [symmetric] by (subst Let_def) (use 1 2 3 4 5 in blast)
qed

text \<open>Three flags, one renamed and one deleted; the last bit of the bitmap has no name.\<close>

lemma enum_cache_example:
  "(let ec = run_ops [OpLoadNames [(1, ''read''), (2, ''write''), (4, ''admin'')], OpSet 2 ''append'', OpDelete 4]
    in DecodeBinaryMap 7 ec = ([''read'', ''append''], Some (ErrUnknownBitValues [4]))
       \<and> EncodeBinaryMap [''append'', ''write''] ec = (2, Some (ErrUnknownStringValues [''write''])))"
  by code_simp

end
