(* ===== verification/ST_Utf8.thy ===== *)
theory ST_Utf8
  imports Go_Utf8
begin

text \<open>
  What \<^verbatim>\<open>strings\<close> and \<^verbatim>\<open>unicode/utf8\<close> do from the end of a string: decoding the last rune, searching backwards, and
  trimming white space. Shown: trimming removes white space only, and what it leaves does not start or end with it.
\<close>

section \<open>Definitions\<close>

definition RuneStart :: "char \<Rightarrow> bool" where
  "RuneStart c \<longleftrightarrow> \<not> (128 \<le> byte_val c \<and> byte_val c < 192)"

definition last_start :: "bytes \<Rightarrow> nat" where
  "last_start s =
     (let lim = length s - 4
      in case List.find (\<lambda>i. RuneStart (s ! i)) (rev [lim ..< length s - 1]) of Some i \<Rightarrow> i | None \<Rightarrow> lim - 1)"

definition DecodeLastRune :: "bytes \<Rightarrow> nat \<times> nat" where
  "DecodeLastRune s =
     (if s = [] then (0xFFFD, 0)
      else if byte_val (last s) < 0x80 then (byte_val (last s), 1)
      else let start = last_start s; (r, size) = DecodeRune (drop start s)
           in if start + size \<noteq> length s then (0xFFFD, 1) else (r, size))"

text \<open>\<^verbatim>\<open>unicode.IsSpace\<close>.\<close>

definition IsSpace :: "nat \<Rightarrow> bool" where
  "IsSpace r \<longleftrightarrow> r \<in> {0x09, 0x0A, 0x0B, 0x0C, 0x0D, 0x20, 0x85, 0xA0, 0x1680, 0x2028, 0x2029, 0x202F, 0x205F, 0x3000}
     \<or> (0x2000 \<le> r \<and> r \<le> 0x200A)"

lemma DecodeRune_width: "s \<noteq> [] \<Longrightarrow> snd (DecodeRune s) \<le> length s \<and> snd (DecodeRune s) \<le> 4"
  by (cases s) (auto simp: Let_def split: list.splits)

lemma last_start_less: "s \<noteq> [] \<Longrightarrow> last_start s < length s"
proof (cases "List.find (\<lambda>i. RuneStart (s ! i)) (rev [length s - 4 ..< length s - 1])")
  case (Some i)
  then have "i \<in> set [length s - 4 ..< length s - 1]" by (metis find_Some_iff nth_mem set_rev)
  then have "i < length s" by (simp, arith)
  then show ?thesis using Some by (simp add: last_start_def Let_def)
next
  case None
  assume "s \<noteq> []"
  then have "0 < length s" by simp
  then show ?thesis using None by (simp add: last_start_def Let_def)
qed

lemma DecodeLastRune_spec:
  assumes "s \<noteq> []" "DecodeLastRune s = (r, sz)"
  shows "1 \<le> sz \<and> sz \<le> length s \<and> (r = 0xFFFD \<and> sz = 1 \<or> DecodeRune (drop (length s - sz) s) = (r, sz))"
proof (cases "byte_val (last s) < 0x80")
  case True
  have "drop (length s - 1) s = [last s]" using assms(1) by (metis append_butlast_last_id append_eq_conv_conj length_butlast)
  then show ?thesis using assms True by (auto simp: DecodeLastRune_def Let_def Suc_le_eq)
next
  case False
  obtain q w where d: "DecodeRune (drop (last_start s) s) = (q, w)" by (metis prod.exhaust)
  have l: "last_start s < length s" using assms(1) by (rule last_start_less)
  then have "drop (last_start s) s \<noteq> []" by simp
  then have w: "1 \<le> w" "last_start s + w \<le> length s"
    using DecodeRune_size [of "drop (last_start s) s"] DecodeRune_width [of "drop (last_start s) s"] d l by auto
  show ?thesis
  proof (cases "last_start s + w = length s")
    case True
    then have "r = q" "sz = w" using assms False d by (simp_all add: DecodeLastRune_def Let_def)
    moreover have "length s - w = last_start s" using True by simp
    ultimately show ?thesis using d w by simp
  qed (use assms False d w in \<open>auto simp: DecodeLastRune_def Let_def Suc_le_eq\<close>)
qed

text \<open>\<^verbatim>\<open>strings.LastIndexFunc(s[:i], f)\<close>, or the last rune where \<open>f\<close> does not hold.\<close>

function last_index :: "(nat \<Rightarrow> bool) \<Rightarrow> bool \<Rightarrow> bytes \<Rightarrow> nat \<Rightarrow> nat option" where
  "last_index f truth s i =
     (if i = 0 \<or> length s < i then None
      else let (r, size) = DecodeLastRune (take i s)
           in if f r = truth then Some (i - size) else last_index f truth s (i - size))"
  by pat_completeness auto
termination
proof (relation "measure (\<lambda>(f, truth, s, i). i)", goal_cases)
  case (2 f truth s i x r size)
  then have "take i s \<noteq> []" by (cases s) auto
  then have "1 \<le> size" using DecodeLastRune_spec [of "take i s" r size] 2 by auto
  then show ?case using 2 by auto
qed simp

declare last_index.simps [simp del]

lemma last_index_0 [simp]: "last_index f truth s 0 = None"
  by (simp add: last_index.simps)

definition LastIndexFunc :: "(nat \<Rightarrow> bool) \<Rightarrow> bytes \<Rightarrow> nat option" where
  "LastIndexFunc f s = last_index f True s (length s)"

function TrimLeftSpace :: "bytes \<Rightarrow> bytes" where
  "TrimLeftSpace s =
     (if s = [] then [] else if IsSpace (fst (DecodeRune s)) then TrimLeftSpace (drop (snd (DecodeRune s)) s) else s)"
  by pat_completeness auto
termination
  by (relation "measure length") (use DecodeRune_size in \<open>fastforce\<close>)+

declare TrimLeftSpace.simps [simp del]

definition TrimRightSpace :: "bytes \<Rightarrow> bytes" where
  "TrimRightSpace s =
     (case last_index IsSpace False s (length s) of
        None \<Rightarrow> []
      | Some i \<Rightarrow> take (i + snd (DecodeRune (drop i s))) s)"

definition TrimSpace :: "bytes \<Rightarrow> bytes" where
  "TrimSpace s = TrimRightSpace (TrimLeftSpace s)"

section \<open>White space\<close>

text \<open>A string that is one rune.\<close>

definition one_rune :: "bytes \<Rightarrow> nat \<Rightarrow> bool" where
  "one_rune e r \<longleftrightarrow> e \<noteq> [] \<and> DecodeRune e = (r, length e)"

definition white :: "bytes \<Rightarrow> bool" where
  "white w \<longleftrightarrow> (\<exists>es. w = concat es \<and> (\<forall>e \<in> set es. \<exists>r. one_rune e r \<and> IsSpace r))"

lemma white_Nil [simp]: "white []"
  unfolding white_def by (rule exI [of _ "[]"]) simp

lemma white_append: "white v \<Longrightarrow> white w \<Longrightarrow> white (v @ w)"
  unfolding white_def by (metis concat_append set_append Un_iff)

lemma white_rune: "one_rune e r \<Longrightarrow> IsSpace r \<Longrightarrow> white e"
  unfolding white_def by (rule exI [of _ "[e]"]) auto

lemma not_space_error [simp]: "\<not> IsSpace 0xFFFD"
  by (simp add: IsSpace_def)

text \<open>The five ways to decode a rune.\<close>

lemma DecodeRune_1: "byte_val a < 0x80 \<Longrightarrow> DecodeRune (a # t) = (byte_val a, 1)"
  by simp

lemma DecodeRune_2:
  "0xC2 \<le> byte_val a \<Longrightarrow> byte_val a < 0xE0 \<Longrightarrow> in_range 0x80 0xBF b
     \<Longrightarrow> DecodeRune (a # b # t) = (byte_val a mod 32 * 64 + cont b, 2)"
  by simp

definition second_ok :: "nat \<Rightarrow> char \<Rightarrow> bool" where
  "second_ok x b \<longleftrightarrow> in_range (if x = 0xE0 then 0xA0 else if x = 0xF0 then 0x90 else 0x80)
     (if x = 0xED then 0x9F else if x = 0xF4 then 0x8F else 0xBF) b"

lemma DecodeRune_3:
  "0xE0 \<le> byte_val a \<Longrightarrow> byte_val a < 0xF0 \<Longrightarrow> second_ok (byte_val a) b \<Longrightarrow> in_range 0x80 0xBF c
     \<Longrightarrow> DecodeRune (a # b # c # t) = (byte_val a mod 16 * 4096 + cont b * 64 + cont c, 3)"
  by (simp add: second_ok_def Let_def del: One_nat_def)

lemma DecodeRune_4:
  "0xF0 \<le> byte_val a \<Longrightarrow> byte_val a \<le> 0xF4 \<Longrightarrow> second_ok (byte_val a) b \<Longrightarrow> in_range 0x80 0xBF c \<Longrightarrow> in_range 0x80 0xBF d
     \<Longrightarrow> DecodeRune (a # b # c # d # t) = (byte_val a mod 8 * 262144 + cont b * 4096 + cont c * 64 + cont d, 4)"
  by (simp add: second_ok_def Let_def del: One_nat_def)

lemma DecodeRune_cases:
  assumes "DecodeRune s = (r, w)" "s \<noteq> []"
  obtains (error) a t where "s = a # t" "0x80 \<le> byte_val a" "r = 0xFFFD" "w = 1"
  | (one) a t where "s = a # t" "byte_val a < 0x80" "w = 1"
  | (two) a b t where "s = a # b # t" "0xC2 \<le> byte_val a" "byte_val a < 0xE0" "in_range 0x80 0xBF b" "w = 2"
  | (three) a b c t where "s = a # b # c # t" "0xE0 \<le> byte_val a" "byte_val a < 0xF0" "second_ok (byte_val a) b"
      "in_range 0x80 0xBF c" "w = 3"
  | (four) a b c d t where "s = a # b # c # d # t" "0xF0 \<le> byte_val a" "byte_val a \<le> 0xF4" "second_ok (byte_val a) b"
      "in_range 0x80 0xBF c" "in_range 0x80 0xBF d" "w = 4"
proof -
  obtain a s' where s: "s = a # s'" using assms(2) by (cases s) auto
  define x where "x = byte_val a"
  consider "x < 0x80" | "0x80 \<le> x \<and> x < 0xC2 \<or> 0xF4 < x" | "0xC2 \<le> x \<and> x < 0xE0" | "0xE0 \<le> x \<and> x < 0xF0"
    | "0xF0 \<le> x \<and> x \<le> 0xF4" by linarith
  then show thesis
  proof cases
    case 1
    then show thesis using assms(1) s one [OF s] by (simp add: x_def)
  next
    case 2
    then show thesis using assms(1) s error [OF s] by (auto simp: x_def Let_def)
  next
    case 3
    show thesis
    proof (cases "\<exists>b t. s' = b # t \<and> in_range 0x80 0xBF b")
      case True
      then obtain b t where b: "s' = b # t" "in_range 0x80 0xBF b" by blast
      show thesis by (rule two [of a b t]) (use s b 3 DecodeRune_2 [of a b t] assms(1) in \<open>simp_all add: x_def\<close>)
    next
      case False
      then have "DecodeRune s = (0xFFFD, 1)" using 3 s by (cases s') (simp_all add: x_def)
      then show thesis using assms(1) error [OF s] 3 by (simp add: x_def)
    qed
  next
    case 4
    show thesis
    proof (cases "\<exists>b c t. s' = b # c # t \<and> second_ok x b \<and> in_range 0x80 0xBF c")
      case True
      then obtain b c t where b: "s' = b # c # t" "second_ok x b" "in_range 0x80 0xBF c" by blast
      show thesis
        by (rule three [of a b c t]) (use s b 4 DecodeRune_3 [of a b c t] assms(1) in \<open>simp_all add: x_def\<close>)
    next
      case False
      then have "DecodeRune s = (0xFFFD, 1)" using 4 s
        by (cases s' rule: remdups_adj.cases) (auto simp: x_def second_ok_def Let_def)
      then show thesis using assms(1) error [OF s] 4 by (simp add: x_def)
    qed
  next
    case 5
    show thesis
    proof (cases "\<exists>b c d t. s' = b # c # d # t \<and> second_ok x b \<and> in_range 0x80 0xBF c \<and> in_range 0x80 0xBF d")
      case True
      then obtain b c d t where b: "s' = b # c # d # t" "second_ok x b" "in_range 0x80 0xBF c" "in_range 0x80 0xBF d"
        by blast
      show thesis
        by (rule four [of a b c d t]) (use s b 5 DecodeRune_4 [of a b c d t] assms(1) in \<open>simp_all add: x_def\<close>)
    next
      case False
      have sp: "s' = [] \<or> (\<exists>b. s' = [b]) \<or> (\<exists>b c. s' = [b, c]) \<or> (\<exists>b c d t. s' = b # c # d # t)"
        by (metis list.exhaust)
      have x: "\<not> x < 0x80" "\<not> (x < 0xC2 \<or> 0xF4 < x)" "\<not> x < 0xE0" "\<not> x < 0xF0" using 5 by auto
      have "DecodeRune s = (0xFFFD, 1)" using sp
      proof (elim disjE exE)
        fix b c d t assume b: "s' = b # c # d # t"
        then have "\<not> (second_ok x b \<and> in_range 0x80 0xBF c \<and> in_range 0x80 0xBF d)" using False by blast
        then show ?thesis using s b x by (auto simp: x_def [symmetric] second_ok_def Let_def)
      qed (use s x in \<open>auto simp: x_def [symmetric] Let_def\<close>)
      then show thesis using assms(1) error [OF s] 5 by (simp add: x_def)
    qed
  qed
qed

lemma second_ok_cont: "second_ok x b \<Longrightarrow> in_range 0x80 0xBF b"
  by (auto simp: second_ok_def in_range_def split: if_splits)

text \<open>A complete valid rune is decoded the same whatever follows; an erroneous byte when a rune starts next.\<close>

lemma DecodeRune_append:
  assumes "e \<noteq> []" "snd (DecodeRune e) = length e" "fst (DecodeRune e) \<noteq> 0xFFFD"
  shows "DecodeRune (e @ t) = DecodeRune e"
proof -
  obtain r w where d: "DecodeRune e = (r, w)" by (cases "DecodeRune e")
  show ?thesis
    using d assms(1)
  proof (cases rule: DecodeRune_cases)
    case (three a b c t')
    then have "e = [a, b, c]" using assms(2) d by simp
    then show ?thesis using three DecodeRune_3 [of a b c] by simp
  next
    case (four a b c x t')
    then have "e = [a, b, c, x]" using assms(2) d by simp
    then show ?thesis using four DecodeRune_4 [of a b c x] by simp
  qed (use assms d in auto)
qed

lemma DecodeRune_lone:
  assumes "0x80 \<le> byte_val a" "t = [] \<or> RuneStart (hd t)"
  shows "DecodeRune (a # t) = (0xFFFD, 1)"
proof -
  obtain r w where d: "DecodeRune (a # t) = (r, w)" by (cases "DecodeRune (a # t)")
  have nc: "\<not> in_range 0x80 0xBF b" if "t = b # t'" for b t'
    using assms(2) that by (auto simp: RuneStart_def in_range_def)
  from d show ?thesis
    by (cases rule: DecodeRune_cases) (use assms(1) d nc second_ok_cont in auto)
qed

lemma DecodeRune_append_start:
  assumes "e \<noteq> []" "snd (DecodeRune e) = length e" "t = [] \<or> RuneStart (hd t)"
  shows "DecodeRune (e @ t) = DecodeRune e"
proof (cases "fst (DecodeRune e) = 0xFFFD \<and> length e = 1")
  case True
  then obtain a where a: "e = [a]" by (cases e) auto
  then have "0x80 \<le> byte_val a" using True by (cases "byte_val a < 0x80") auto
  then show ?thesis using DecodeRune_lone [of a t] DecodeRune_lone [of a "[]"] assms(3) a by simp
next
  case False
  obtain r w where d: "DecodeRune e = (r, w)" by (cases "DecodeRune e")
  show ?thesis
    using d assms(1)
  proof (cases rule: DecodeRune_cases)
    case (error a t')
    then show ?thesis using False assms(2) d by simp
  next
    case (three a b c t')
    then have "e = [a, b, c]" using assms(2) d by simp
    then show ?thesis using three DecodeRune_3 [of a b c] by simp
  next
    case (four a b c x t')
    then have "e = [a, b, c, x]" using assms(2) d by simp
    then show ?thesis using four DecodeRune_4 [of a b c x] by simp
  qed (use assms d in auto)
qed

lemma DecodeRune_take:
  assumes "s \<noteq> []"
  shows "DecodeRune (take (snd (DecodeRune s)) s) = DecodeRune s"
proof -
  obtain r w where d: "DecodeRune s = (r, w)" by (cases "DecodeRune s")
  show ?thesis
    using d assms(1)
  proof (cases rule: DecodeRune_cases)
    case (error a t')
    then show ?thesis using d DecodeRune_lone [of a "[]"] by simp
  next
    case (three a b c t')
    then show ?thesis using d DecodeRune_3 [of a b c] by (simp add: numeral_3_eq_3)
  next
    case (four a b c x t')
    then have "take w s = [a, b, c, x]" by simp
    then show ?thesis using four d DecodeRune_4 [of a b c x] by simp
  qed (use assms d in \<open>auto simp: numeral_2_eq_2\<close>)
qed

lemma one_rune_start: "one_rune e r \<Longrightarrow> r \<noteq> 0xFFFD \<Longrightarrow> RuneStart (hd e)"
proof -
  assume a: "one_rune e r" "r \<noteq> 0xFFFD"
  then have "DecodeRune e = (r, length e)" "e \<noteq> []" by (simp_all add: one_rune_def)
  then show "RuneStart (hd e)"
    by (cases rule: DecodeRune_cases) (use a in \<open>auto simp: RuneStart_def\<close>)
qed

lemma white_start: "white w \<Longrightarrow> w = [] \<or> RuneStart (hd w)"
proof -
  assume "white w"
  then obtain es where w: "w = concat es" and es: "\<And>e. e \<in> set es \<Longrightarrow> \<exists>r. one_rune e r \<and> IsSpace r"
    unfolding white_def by blast
  show ?thesis
  proof (cases es)
    case (Cons e es')
    then obtain r where r: "one_rune e r" "IsSpace r" using es by auto
    then have "r \<noteq> 0xFFFD" using not_space_error by metis
    then have "RuneStart (hd e)" "e \<noteq> []" using r(1) one_rune_start by (auto simp: one_rune_def)
    then show ?thesis using w Cons by simp
  qed (simp add: w)
qed

section \<open>Trimming\<close>

lemma TrimLeftSpace_spec:
  "\<exists>w. s = w @ TrimLeftSpace s \<and> white w \<and> (TrimLeftSpace s \<noteq> [] \<longrightarrow> \<not> IsSpace (fst (DecodeRune (TrimLeftSpace s))))"
proof (induction s rule: TrimLeftSpace.induct)
  case (1 s)
  show ?case
  proof (cases "s \<noteq> [] \<and> IsSpace (fst (DecodeRune s))")
    case True
    define e where "e = take (snd (DecodeRune s)) s"
    have sz: "1 \<le> snd (DecodeRune s)" "snd (DecodeRune s) \<le> length s" using True DecodeRune_size DecodeRune_width by blast+
    have "one_rune e (fst (DecodeRune s))"
      using True sz DecodeRune_take [of s] by (auto simp: one_rune_def e_def prod_eq_iff)
    then have e: "white e" using True white_rune by blast
    obtain w where w: "drop (snd (DecodeRune s)) s = w @ TrimLeftSpace (drop (snd (DecodeRune s)) s)" "white w"
      "TrimLeftSpace (drop (snd (DecodeRune s)) s) \<noteq> [] \<longrightarrow>
         \<not> IsSpace (fst (DecodeRune (TrimLeftSpace (drop (snd (DecodeRune s)) s))))"
      using 1 True by blast
    have t: "TrimLeftSpace s = TrimLeftSpace (drop (snd (DecodeRune s)) s)" using True by (subst TrimLeftSpace.simps) simp
    have "s = (e @ w) @ TrimLeftSpace s" using w(1) [symmetric] by (simp add: e_def t)
    then show ?thesis using white_append [OF e w(2)] w(3) t by metis
  next
    case False
    then have "TrimLeftSpace s = s" by (subst TrimLeftSpace.simps) auto
    then show ?thesis using False by (intro exI [of _ "[]"]) auto
  qed
qed

lemma last_index_spec:
  "last_index f truth s i = Some j \<Longrightarrow> \<exists>r sz. 1 \<le> sz \<and> j + sz \<le> i \<and> i \<le> length s \<and> f r = truth
     \<and> DecodeLastRune (take (j + sz) s) = (r, sz)
     \<and> (r = 0xFFFD \<and> sz = 1 \<or> one_rune (take sz (drop j s)) r)"
proof (induction f truth s i rule: last_index.induct)
  case (1 f truth s i)
  have i: "i \<noteq> 0" "i \<le> length s" using 1(2) by (auto simp: last_index.simps [of f truth s i] split: if_splits)
  have ne: "take i s \<noteq> []" using i by (cases s) auto
  obtain r size where d: "DecodeLastRune (take i s) = (r, size)" by (metis prod.exhaust)
  have sp: "1 \<le> size" "size \<le> i" "r = 0xFFFD \<and> size = 1 \<or> DecodeRune (drop (i - size) (take i s)) = (r, size)"
    using DecodeLastRune_spec [OF ne d] i by auto
  show ?case
  proof (cases "f r = truth")
    case True
    then have j: "j = i - size" using 1(2) i d by (simp add: last_index.simps [of f truth s i])
    have "drop (i - size) (take i s) = take size (drop j s)" using sp(1,2) by (simp add: j drop_take)
    then have "r = 0xFFFD \<and> size = 1 \<or> one_rune (take size (drop j s)) r"
      using sp i j by (auto simp: one_rune_def)
    moreover have "i - size + size = i" using sp(2) by simp
    ultimately show ?thesis using d sp(1,2) i j True by (intro exI [of _ r] exI [of _ size]) simp
  next
    case False
    then have "last_index f truth s (i - size) = Some j" using 1(2) i d by (simp add: last_index.simps [of f truth s i])
    then show ?thesis using 1(1) [OF _ d [symmetric] refl False] i sp by fastforce
  qed
qed

text \<open>Everything behind the last rune that is not white space is white space.\<close>

lemma last_index_rest:
  "i \<le> length s \<Longrightarrow> white (drop i s) \<Longrightarrow>
     (case last_index IsSpace False s i of
        None \<Rightarrow> white s
      | Some j \<Rightarrow> white (drop (j + snd (DecodeRune (drop j s))) s)
          \<and> \<not> IsSpace (fst (DecodeLastRune (take (j + snd (DecodeRune (drop j s))) s))))"
proof (induction IsSpace False s i rule: last_index.induct)
  case (1 s i)
  show ?case
  proof (cases "i = 0")
    case True
    then show ?thesis using 1(3) by (simp add: last_index.simps [of IsSpace False s i])
  next
    case False
    have ne: "take i s \<noteq> []" using False 1(2) by (cases s) auto
    obtain r size where d: "DecodeLastRune (take i s) = (r, size)" by (metis prod.exhaust)
    have sp: "1 \<le> size" "size \<le> i" "r = 0xFFFD \<and> size = 1 \<or> DecodeRune (drop (i - size) (take i s)) = (r, size)"
      using DecodeLastRune_spec [OF ne d] False 1(2) by auto
    define e where "e = drop (i - size) (take i s)"
    have de: "drop (i - size) s = e @ drop i s"
      using sp(2) 1(2) by (simp add: e_def) (metis append_take_drop_id diff_le_self drop_append drop_take length_take min.absorb2
          drop_eq_Nil diff_is_0_eq append_Nil2 drop0)
    have le: "length e = size" "e \<noteq> []" using sp 1(2) by (auto simp: e_def)
    show ?thesis
    proof (cases "IsSpace r")
      case True
      then have "r \<noteq> 0xFFFD" using not_space_error by metis
      then have "one_rune e r" using sp(3) le by (simp add: one_rune_def e_def)
      then have "white (drop (i - size) s)" using de True white_rune white_append 1(3) by metis
      then have ih: "case last_index IsSpace False s (i - size) of
        None \<Rightarrow> white s
      | Some j \<Rightarrow> white (drop (j + snd (DecodeRune (drop j s))) s)
          \<and> \<not> IsSpace (fst (DecodeLastRune (take (j + snd (DecodeRune (drop j s))) s)))"
        using 1(1) [OF _ d [symmetric] refl] True False 1(2) by simp
      have "last_index IsSpace False s i = last_index IsSpace False s (i - size)"
        using True False 1(2) d by (simp add: last_index.simps [of IsSpace False s i])
      then show ?thesis using ih by simp
    next
      case no: False
      have j: "last_index IsSpace False s i = Some (i - size)"
        using no False 1(2) d by (simp add: last_index.simps [of IsSpace False s i])
      have st: "drop i s = [] \<or> RuneStart (hd (drop i s))" by (rule white_start [OF 1(3)])
      have w: "snd (DecodeRune (drop (i - size) s)) = size"
      proof (cases "snd (DecodeRune e) = size")
        case True
        then show ?thesis using DecodeRune_append_start [OF le(2) _ st] le(1) de by simp
      next
        case err: False
        then have "size = 1" using sp(3) by (auto simp: e_def)
        moreover obtain b where "e = [b]" using le \<open>size = 1\<close> by (cases e) auto
        ultimately show ?thesis using err by (auto simp: Let_def split: if_splits)
      qed
      have k: "i - size + size = i" using sp(2) by simp
      show ?thesis using j w 1(3) d no k by simp
    qed
  qed
qed

lemma TrimRightSpace_spec:
  "\<exists>w. s = TrimRightSpace s @ w \<and> white w
     \<and> (TrimRightSpace s \<noteq> [] \<longrightarrow> \<not> IsSpace (fst (DecodeLastRune (TrimRightSpace s))))"
proof (cases "last_index IsSpace False s (length s)")
  case None
  then show ?thesis using last_index_rest [of "length s" s] by (simp add: TrimRightSpace_def)
next
  case (Some j)
  have "white (drop (j + snd (DecodeRune (drop j s))) s)
      \<and> \<not> IsSpace (fst (DecodeLastRune (take (j + snd (DecodeRune (drop j s))) s)))"
    using last_index_rest [of "length s" s] Some by simp
  then show ?thesis using Some by (intro exI [of _ "drop (j + snd (DecodeRune (drop j s))) s"]) (simp add: TrimRightSpace_def)
qed

text \<open>Trimming takes white space off both ends and leaves none there.\<close>

lemma TrimSpace_spec:
  "\<exists>v w. s = v @ TrimSpace s @ w \<and> white v \<and> white w
     \<and> (TrimSpace s \<noteq> [] \<longrightarrow> \<not> IsSpace (fst (DecodeRune (TrimSpace s))) \<and> \<not> IsSpace (fst (DecodeLastRune (TrimSpace s))))"
proof -
  obtain v where v: "s = v @ TrimLeftSpace s" "white v"
    "TrimLeftSpace s \<noteq> [] \<longrightarrow> \<not> IsSpace (fst (DecodeRune (TrimLeftSpace s)))" using TrimLeftSpace_spec by blast
  obtain w where w: "TrimLeftSpace s = TrimSpace s @ w" "white w"
    "TrimSpace s \<noteq> [] \<longrightarrow> \<not> IsSpace (fst (DecodeLastRune (TrimSpace s)))"
    using TrimRightSpace_spec [of "TrimLeftSpace s"] unfolding TrimSpace_def by blast
  have "\<not> IsSpace (fst (DecodeRune (TrimSpace s)))" if ne: "TrimSpace s \<noteq> []"
  proof
    assume sp: "IsSpace (fst (DecodeRune (TrimSpace s)))"
    define e where "e = take (snd (DecodeRune (TrimSpace s))) (TrimSpace s)"
    have e: "e \<noteq> []" "DecodeRune e = DecodeRune (TrimSpace s)" "snd (DecodeRune e) = length e"
      using ne DecodeRune_size [OF ne] DecodeRune_width [OF ne] DecodeRune_take [OF ne] by (auto simp: e_def)
    have "fst (DecodeRune e) \<noteq> 0xFFFD" using sp e(2) not_space_error by metis
    moreover have "TrimLeftSpace s = e @ drop (snd (DecodeRune (TrimSpace s))) (TrimSpace s) @ w"
      using w(1) by (simp add: e_def)
    ultimately have "DecodeRune (TrimLeftSpace s) = DecodeRune e" using DecodeRune_append [OF e(1,3)] by metis
    then show False using v(3) sp e w(1) ne by auto
  qed
  then show ?thesis using v w by (intro exI [of _ v] exI [of _ w]) auto
qed

lemma TrimSpace_length: "length (TrimSpace s) \<le> length s"
proof -
  obtain v w where "s = v @ TrimSpace s @ w" using TrimSpace_spec by blast
  then have "length s = length v + length (TrimSpace s) + length w" by (metis add.assoc length_append)
  then show ?thesis by simp
qed

text \<open>White space in front makes the result shorter.\<close>

lemma TrimSpace_shorter: "s \<noteq> [] \<Longrightarrow> IsSpace (fst (DecodeRune s)) \<Longrightarrow> length (TrimSpace s) < length s"
proof -
  assume a: "s \<noteq> []" "IsSpace (fst (DecodeRune s))"
  have "TrimSpace s \<noteq> s" using TrimSpace_spec [of s] a by metis
  moreover obtain v w where v: "s = v @ TrimSpace s @ w" using TrimSpace_spec by blast
  moreover have "length s = length v + length (TrimSpace s) + length w" using v by (metis add.assoc length_append)
  ultimately show ?thesis by (cases "v = [] \<and> w = []") auto
qed

section \<open>Valid text\<close>

text \<open>A rune that is encoded: U+FFFD counts when its own encoding is there, not an invalid byte.\<close>

definition whole_rune :: "bytes \<Rightarrow> bool" where
  "whole_rune e \<longleftrightarrow> e \<noteq> [] \<and> snd (DecodeRune e) = length e \<and> (fst (DecodeRune e) = 0xFFFD \<longrightarrow> 1 < length e)"

definition valid_utf8 :: "bytes \<Rightarrow> bool" where
  "valid_utf8 s \<longleftrightarrow> (\<exists>es. s = concat es \<and> (\<forall>e \<in> set es. whole_rune e))"

lemma valid_Nil [simp]: "valid_utf8 []"
  unfolding valid_utf8_def by (rule exI [of _ "[]"]) simp

lemma valid_append: "valid_utf8 v \<Longrightarrow> valid_utf8 w \<Longrightarrow> valid_utf8 (v @ w)"
  unfolding valid_utf8_def by (metis concat_append set_append Un_iff)

lemma valid_rune: "whole_rune e \<Longrightarrow> valid_utf8 e"
  unfolding valid_utf8_def by (rule exI [of _ "[e]"]) simp

lemma space_whole: "one_rune e r \<Longrightarrow> IsSpace r \<Longrightarrow> whole_rune e"
  using not_space_error by (auto simp: one_rune_def whole_rune_def)

lemma whole_rune_append: "whole_rune e \<Longrightarrow> DecodeRune (e @ t) = DecodeRune e"
proof -
  assume a: "whole_rune e"
  obtain r w where d: "DecodeRune e = (r, w)" by (cases "DecodeRune e")
  have e: "e \<noteq> []" "w = length e" using a d by (auto simp: whole_rune_def)
  show ?thesis
    using d e(1)
  proof (cases rule: DecodeRune_cases)
    case (error x t')
    then show ?thesis using a d e by (auto simp: whole_rune_def)
  next
    case (three x b c t')
    then have "e = [x, b, c]" using e by simp
    then show ?thesis using three DecodeRune_3 [of x b c] by simp
  next
    case (four x b c y t')
    then have "e = [x, b, c, y]" using e by simp
    then show ?thesis using four DecodeRune_4 [of x b c y] by simp
  qed (use e d in auto)
qed

text \<open>In a whole rune only the first byte is one that starts a rune.\<close>

lemma in_range_not_start: "in_range 0x80 0xBF c \<Longrightarrow> \<not> RuneStart c"
  by (auto simp: in_range_def RuneStart_def)

lemma whole_rune_starts: "whole_rune e \<Longrightarrow> RuneStart (hd e) \<and> (\<forall>c \<in> set (tl e). \<not> RuneStart c)"
proof -
  assume a: "whole_rune e"
  obtain r w where d: "DecodeRune e = (r, w)" by (cases "DecodeRune e")
  have e: "e \<noteq> []" "w = length e" using a d by (auto simp: whole_rune_def)
  show ?thesis
    using d e(1)
  proof (cases rule: DecodeRune_cases)
    case (error x t')
    then show ?thesis using a d e by (auto simp: whole_rune_def)
  next
    case (three x b c t')
    then have "e = [x, b, c]" using e by simp
    then show ?thesis using three second_ok_cont in_range_not_start by (auto simp: RuneStart_def)
  next
    case (four x b c y t')
    then have "e = [x, b, c, y]" using e by simp
    then show ?thesis using four second_ok_cont in_range_not_start by (auto simp: RuneStart_def)
  qed (use e d in_range_not_start in \<open>auto simp: RuneStart_def\<close>)
qed

lemma valid_cases:
  assumes "valid_utf8 s" "s \<noteq> []"
  obtains e t where "s = e @ t" "whole_rune e" "valid_utf8 t"
proof -
  obtain es where es: "s = concat es" "\<forall>e \<in> set es. whole_rune e" using assms(1) by (auto simp: valid_utf8_def)
  obtain e es' where "es = e # es'" using es(1) assms(2) by (cases es) auto
  then show thesis using es by (intro that [of e "concat es'"]) (auto simp: valid_utf8_def)
qed

lemma valid_start: "valid_utf8 s \<Longrightarrow> s = [] \<or> RuneStart (hd s)"
  by (metis valid_cases whole_rune_starts whole_rune_def hd_append2)

text \<open>Valid text can be cut where a rune starts, and nowhere else inside.\<close>

lemma valid_cut:
  "valid_utf8 (a @ b) \<Longrightarrow> b = [] \<or> RuneStart (hd b) \<Longrightarrow> valid_utf8 a \<and> valid_utf8 b"
proof (induction "length a" arbitrary: a rule: less_induct)
  case less
  show ?case
  proof (cases "a = []")
    case True
    then show ?thesis using less.prems by simp
  next
    case ne: False
    obtain e t where e: "a @ b = e @ t" "whole_rune e" "valid_utf8 t"
      using valid_cases [OF less.prems(1)] ne by (metis append_is_Nil_conv)
    have st: "RuneStart (hd e)" "\<forall>c \<in> set (tl e). \<not> RuneStart c" using whole_rune_starts [OF e(2)] by auto
    consider u where "a = e @ u" "t = u @ b" | u where "e = a @ u" "b = u @ t" "u \<noteq> []"
      using e(1) by (metis append_eq_append_conv2 append_Nil2 append_Nil)
    then show ?thesis
    proof cases
      case 1
      then have "length u < length a" using e(2) by (simp add: whole_rune_def)
      then have "valid_utf8 u \<and> valid_utf8 b" using less.hyps [of u] e(3) 1 less.prems(2) by simp
      then show ?thesis using 1 valid_append [OF valid_rune [OF e(2)]] by simp
    next
      case 2
      then have "hd u \<in> set (tl e)" using ne by (cases a) auto
      moreover have "RuneStart (hd u)" using less.prems(2) 2 by (simp add: hd_append2)
      ultimately show ?thesis using st by blast
    qed
  qed
qed

lemma white_valid: "white w \<Longrightarrow> valid_utf8 w"
  unfolding white_def valid_utf8_def using space_whole by blast

lemma valid_strip: "valid_utf8 (v @ t) \<Longrightarrow> valid_utf8 v \<Longrightarrow> valid_utf8 t"
proof (induction "length v" arbitrary: v rule: less_induct)
  case less
  show ?case
  proof (cases "v = []")
    case False
    obtain e u where e: "v = e @ u" "whole_rune e" "valid_utf8 u" using valid_cases [OF less.prems(2) False] by blast
    obtain f x where f: "v @ t = f @ x" "whole_rune f" "valid_utf8 x"
      using valid_cases [OF less.prems(1)] False by (metis append_is_Nil_conv)
    have "DecodeRune e = DecodeRune f" using whole_rune_append [OF e(2), of "u @ t"] whole_rune_append [OF f(2), of x] e f by simp
    then have "length e = length f" using e(2) f(2) by (simp add: whole_rune_def)
    then have "x = u @ t" using e(1) f(1) by simp
    then show ?thesis using less.hyps [of u] e f by (simp add: whole_rune_def)
  qed (use less in simp)
qed

lemma valid_TrimSpace: "valid_utf8 s \<Longrightarrow> valid_utf8 (TrimSpace s)"
proof -
  assume s: "valid_utf8 s"
  obtain v w where t: "s = v @ TrimSpace s @ w" "white v" "white w" using TrimSpace_spec by blast
  have "valid_utf8 (TrimSpace s @ w)" using valid_strip [of v] s t white_valid by metis
  then show ?thesis using valid_cut white_start [OF t(3)] by blast
qed

text \<open>The rune in front of valid text.\<close>

lemma valid_first: "valid_utf8 s \<Longrightarrow> s \<noteq> [] \<Longrightarrow> whole_rune (take (snd (DecodeRune s)) s) \<and> valid_utf8 (drop (snd (DecodeRune s)) s)"
proof -
  assume a: "valid_utf8 s" "s \<noteq> []"
  obtain e t where e: "s = e @ t" "whole_rune e" "valid_utf8 t" using valid_cases [OF a] .
  have "snd (DecodeRune s) = length e" using whole_rune_append [OF e(2), of t] e by (simp add: whole_rune_def)
  then show ?thesis using e by simp
qed

end
