(* ===== verification/ST_Split.thy ===== *)
theory ST_Split
  imports ST_Utf8
begin

text \<open>
  \<^verbatim>\<open>pkg/strsplit\<close>: texts cut into chunks of a bounded number of bytes, at line ends, white space and
  punctuation, never inside a rune. \<open>None\<close> is the nil slice. The table of \<^verbatim>\<open>unicode.IsPunct\<close> is an argument;
  U+FFFD, which stands for an invalid byte, is not in it.
\<close>

section \<open>Definitions\<close>

definition limitReached :: "int \<Rightarrow> nat \<Rightarrow> bool" where
  "limitReached n count \<longleftrightarrow> n > 0 \<and> int count \<ge> n"

fun back_to_start :: "bytes \<Rightarrow> nat \<Rightarrow> nat" where
  "back_to_start s e = (if 0 < e \<and> \<not> RuneStart (s ! e) then back_to_start s (e - 1) else e)"

declare back_to_start.simps [simp del]

definition runeSafeEnd :: "bytes \<Rightarrow> nat \<Rightarrow> nat" where
  "runeSafeEnd s sz = (let e = back_to_start s sz in if e = 0 then snd (DecodeRune s) else e)"

definition separatorEnd :: "(nat \<Rightarrow> bool) \<Rightarrow> bytes \<Rightarrow> nat \<Rightarrow> nat" where
  "separatorEnd isPunct s e =
     (case LastIndexFunc IsSpace (take e s) of
        Some i \<Rightarrow> i
      | None \<Rightarrow>
          (case LastIndexFunc isPunct (take e s) of
             Some i \<Rightarrow> i + snd (DecodeRune (drop i s))
           | None \<Rightarrow> e))"

definition appendChunk :: "bytes list \<Rightarrow> bytes \<Rightarrow> bytes list" where
  "appendChunk ret s = (let chunk = TrimSpace s in if chunk \<noteq> [] then ret @ [chunk] else ret)"

text \<open>Where the line is cut, and what is known of it.\<close>

definition cut_at :: "(nat \<Rightarrow> bool) \<Rightarrow> bytes \<Rightarrow> nat \<Rightarrow> nat" where
  "cut_at isPunct s sz = separatorEnd isPunct s (runeSafeEnd s sz)"

lemma back_le: "back_to_start s e \<le> e"
proof (induction s e rule: back_to_start.induct)
  case (1 s e)
  then show ?case by (subst back_to_start.simps) auto
qed

lemma back_start: "back_to_start s e = 0 \<or> RuneStart (s ! back_to_start s e)"
proof (induction s e rule: back_to_start.induct)
  case (1 s e)
  have "back_to_start s e = (if 0 < e \<and> \<not> RuneStart (s ! e) then back_to_start s (e - 1) else e)"
    by (rule back_to_start.simps)
  then show ?case using 1 by (cases "0 < e \<and> \<not> RuneStart (s ! e)") auto
qed

lemma runeSafeEnd_bounds:
  assumes "sz < length s"
  shows "1 \<le> runeSafeEnd s sz \<and> runeSafeEnd s sz \<le> length s
     \<and> (runeSafeEnd s sz \<le> sz \<or> runeSafeEnd s sz = snd (DecodeRune s))"
proof -
  have "s \<noteq> []" using assms by auto
  then show ?thesis using DecodeRune_size [of s] DecodeRune_width [of s] back_le [of s sz] assms
    by (auto simp: runeSafeEnd_def Let_def)
qed

text \<open>A position that a search from the end finds.\<close>

lemma LastIndex_at:
  assumes "LastIndexFunc f (take e s) = Some i" "\<not> f 0xFFFD" "e \<le> length s"
  shows "i + snd (DecodeRune (drop i s)) \<le> e \<and> i < e \<and> f (fst (DecodeRune (drop i s)))
     \<and> whole_rune (take (snd (DecodeRune (drop i s))) (drop i s))"
proof -
  obtain r sz where r: "1 \<le> sz" "i + sz \<le> e" "f r" "r = 0xFFFD \<and> sz = 1 \<or> one_rune (take sz (drop i (take e s))) r"
    using last_index_spec [of f True "take e s" e i] assms(1,3) unfolding LastIndexFunc_def by (auto simp: min_absorb2)
  have "r \<noteq> 0xFFFD" using assms(2) r(3) by metis
  moreover have "take sz (drop i (take e s)) = take sz (drop i s)" using r(2) by (simp add: drop_take)
  ultimately have o1: "one_rune (take sz (drop i s)) r" using r(4) by simp
  define x where "x = take sz (drop i s)"
  have l: "length x = sz" using r(2) assms(3) by (simp add: x_def)
  have x: "x \<noteq> []" "DecodeRune x = (r, sz)" using o1 l by (auto simp: one_rune_def x_def)
  have w: "whole_rune x" using x l \<open>r \<noteq> 0xFFFD\<close> by (simp add: whole_rune_def)
  have "drop i s = x @ drop sz (drop i s)" unfolding x_def by (rule append_take_drop_id [symmetric])
  then have "DecodeRune (drop i s) = (r, sz)" using whole_rune_append [OF w] x(2) by metis
  then show ?thesis using r w by (simp add: x_def)
qed

lemma separatorEnd_bounds:
  assumes "e \<le> length s" "\<not> isPunct 0xFFFD"
  shows "separatorEnd isPunct s e \<le> e
     \<and> (separatorEnd isPunct s e = 0 \<longrightarrow> e = 0 \<or> s \<noteq> [] \<and> IsSpace (fst (DecodeRune s)))"
proof (cases "LastIndexFunc IsSpace (take e s)")
  case (Some i)
  then have "i < e \<and> IsSpace (fst (DecodeRune (drop i s)))" using LastIndex_at [OF Some not_space_error assms(1)] by simp
  then show ?thesis using Some assms(1) by (auto simp: separatorEnd_def)
next
  case None
  show ?thesis
  proof (cases "LastIndexFunc isPunct (take e s)")
    case (Some i)
    then have i: "i + snd (DecodeRune (drop i s)) \<le> e" "i < e" using LastIndex_at [OF Some assms(2,1)] by simp_all
    then have "1 \<le> snd (DecodeRune (drop i s))" using assms(1) by (intro DecodeRune_size) simp
    then show ?thesis using None Some i by (simp add: separatorEnd_def)
  qed (use None in \<open>simp add: separatorEnd_def\<close>)
qed

text \<open>What the loop needs whatever the table of punctuation says.\<close>

lemma cut_progress:
  assumes "sz < length s"
  shows "length (TrimSpace (drop (cut_at isPunct s sz) s)) < length s"
proof (cases "cut_at isPunct s sz = 0")
  case False
  then show ?thesis using TrimSpace_length [of "drop (cut_at isPunct s sz) s"] assms by simp
next
  case True
  have e: "1 \<le> runeSafeEnd s sz" "runeSafeEnd s sz \<le> length s" using runeSafeEnd_bounds [OF assms] by auto
  have "IsSpace (fst (DecodeRune s))"
  proof (cases "LastIndexFunc IsSpace (take (runeSafeEnd s sz) s)")
    case (Some i)
    then show ?thesis using LastIndex_at [OF Some not_space_error e(2)] True by (auto simp: cut_at_def separatorEnd_def)
  next
    case None
    show ?thesis
    proof (cases "LastIndexFunc isPunct (take (runeSafeEnd s sz) s)")
      case (Some i)
      then have "i < length s" using last_index_spec [of isPunct True _ _ i] e(2) unfolding LastIndexFunc_def by fastforce
      then have "1 \<le> snd (DecodeRune (drop i s))" by (intro DecodeRune_size) simp
      then show ?thesis using True None Some by (simp add: cut_at_def separatorEnd_def)
    qed (use True None e in \<open>simp add: cut_at_def separatorEnd_def\<close>)
  qed
  then show ?thesis using TrimSpace_shorter [of s] True assms by (cases s) auto
qed

function ChunkLine_loop :: "(nat \<Rightarrow> bool) \<Rightarrow> nat \<Rightarrow> int \<Rightarrow> bytes list \<Rightarrow> bytes \<Rightarrow> bytes list \<times> bytes" where
  "ChunkLine_loop isPunct sz n ret s =
     (if length s > sz \<and> \<not> limitReached n (length ret)
      then let e = separatorEnd isPunct s (runeSafeEnd s sz)
           in ChunkLine_loop isPunct sz n (appendChunk ret (take e s)) (TrimSpace (drop e s))
      else (ret, s))"
  by pat_completeness auto
termination
  by (relation "measure (\<lambda>(p, z, n, ret, s). length s)") (use cut_progress in \<open>auto simp: cut_at_def\<close>)

declare ChunkLine_loop.simps [simp del]

definition ChunkLine :: "(nat \<Rightarrow> bool) \<Rightarrow> bytes \<Rightarrow> int \<Rightarrow> int \<Rightarrow> bytes list option" where
  "ChunkLine isPunct s sz n =
     (if sz < 1 \<or> n = 0 then None
      else
        let (ret, s) = ChunkLine_loop isPunct (nat sz) n [] s
        in Some (if \<not> limitReached n (length ret) then appendChunk ret s else ret))"

definition appendLine :: "(nat \<Rightarrow> bool) \<Rightarrow> bytes list \<Rightarrow> bytes \<Rightarrow> int \<Rightarrow> int \<Rightarrow> bytes list" where
  "appendLine isPunct ret line sz n =
     (if line = [] then ret
      else if int (length line) \<le> sz then ret @ [line]
      else
        let ns = (if n > 0 then n - int (length ret) else n)
        in ret @ (case ChunkLine isPunct line sz ns of None \<Rightarrow> [] | Some cs \<Rightarrow> cs))"

text \<open>\<^verbatim>\<open>strings.SplitSeq(s, "\n")\<close>.\<close>

fun split_newlines :: "bytes \<Rightarrow> bytes list" where
  "split_newlines [] = [[]]"
| "split_newlines (c # s) =
     (if c = CHR 0x0A then [] # split_newlines s
      else (case split_newlines s of [] \<Rightarrow> [[c]] | l # ls \<Rightarrow> (c # l) # ls))"

fun Chunk_loop :: "(nat \<Rightarrow> bool) \<Rightarrow> int \<Rightarrow> int \<Rightarrow> bytes list \<Rightarrow> bytes list \<Rightarrow> bytes list" where
  "Chunk_loop isPunct sz n ret [] = ret"
| "Chunk_loop isPunct sz n ret (line # lines) =
     (if limitReached n (length ret) then ret
      else Chunk_loop isPunct sz n (appendLine isPunct ret (TrimSpace line) sz n) lines)"

definition Chunk :: "(nat \<Rightarrow> bool) \<Rightarrow> bytes \<Rightarrow> int \<Rightarrow> int \<Rightarrow> bytes list option" where
  "Chunk isPunct s sz n =
     (if sz < 1 \<or> n = 0 then None else Some (Chunk_loop isPunct sz n [] (split_newlines s)))"

end
