(* ===== verification/ST_Props.thy ===== *)
theory ST_Props
  imports ST_Split
begin

text \<open>The chunks of \<^verbatim>\<open>pkg/strsplit\<close>: what they contain, what they cover, and that no rune is cut.\<close>

section \<open>Whole runes are not cut\<close>

lemma whole_rune_indivisible:
  "whole_rune (a @ b) \<Longrightarrow> b \<noteq> [] \<Longrightarrow> RuneStart (hd b) \<Longrightarrow> a = []"
proof (rule ccontr)
  assume a: "whole_rune (a @ b)" "b \<noteq> []" "RuneStart (hd b)" "a \<noteq> []"
  have "hd b \<in> set b" using a(2) by simp
  then have "hd b \<in> set (tl (a @ b))" using a(4) by simp
  then show False using whole_rune_starts [OF a(1)] a(3) by blast
qed

lemma TrimSpace_whole:
  assumes "whole_rune x" "TrimSpace x \<noteq> []"
  shows "TrimSpace x = x"
proof -
  obtain v w where t: "x = v @ TrimSpace x @ w" "white v" "white w" using TrimSpace_spec by blast
  have "RuneStart (hd (TrimSpace x))" using valid_start valid_TrimSpace [OF valid_rune [OF assms(1)]] assms(2) by blast
  then have v: "v = []" using whole_rune_indivisible [of v "TrimSpace x @ w"] assms t(1) by simp
  have "w = []" using whole_rune_indivisible [of "TrimSpace x" w] white_start [OF t(3)] assms t(1) v by auto
  then show ?thesis using t(1) v by simp
qed

lemma LastIndex_start:
  assumes "LastIndexFunc f (take e s) = Some i" "\<not> f 0xFFFD" "e \<le> length s"
  shows "i < length s \<and> RuneStart (s ! i)"
proof -
  have l: "i < length s" "whole_rune (take (snd (DecodeRune (drop i s))) (drop i s))" using LastIndex_at [OF assms] assms(3) by auto
  then have "1 \<le> snd (DecodeRune (drop i s))" by (intro DecodeRune_size) simp
  then have "hd (take (snd (DecodeRune (drop i s))) (drop i s)) = s ! i" using l(1) by (simp add: hd_drop_conv_nth)
  then show ?thesis using whole_rune_starts [OF l(2)] l(1) by metis
qed

text \<open>When the first rune is wider than the limit, it is a chunk of its own or skipped white space.\<close>

lemma cut_wide:
  assumes "sz < length s" "1 \<le> sz" "sz < runeSafeEnd s sz" "\<not> isPunct 0xFFFD"
  shows "cut_at isPunct s sz = 0
     \<or> cut_at isPunct s sz = snd (DecodeRune s) \<and> whole_rune (take (snd (DecodeRune s)) s)"
proof -
  define w where "w = snd (DecodeRune s)"
  have w: "runeSafeEnd s sz = w" "w \<le> length s" "sz < w" using runeSafeEnd_bounds [OF assms(1)] assms(3) by (auto simp: w_def)
  have ne: "s \<noteq> []" using assms(1) by auto
  have x: "whole_rune (take w s)"
    using w assms(2) ne DecodeRune_take [OF ne] by (auto simp: whole_rune_def w_def)
  have first: "i = 0" if "LastIndexFunc f (take w s) = Some i" "\<not> f 0xFFFD" for f i
  proof -
    have i: "i < w" "RuneStart (s ! i)" using LastIndex_at [OF that w(2)] LastIndex_start [OF that w(2)] by auto
    have "whole_rune (take i (take w s) @ drop i (take w s))" using x by (simp only: append_take_drop_id)
    then have "take i (take w s) = []"
      by (rule whole_rune_indivisible) (use i w in \<open>simp_all add: hd_drop_conv_nth\<close>)
    then show "i = 0" using i w by (cases s) auto
  qed
  show ?thesis
  proof (cases "LastIndexFunc IsSpace (take w s)")
    case (Some i)
    then show ?thesis using first [OF Some not_space_error] w by (simp add: cut_at_def separatorEnd_def)
  next
    case None
    then show ?thesis
      using x first [of isPunct] assms(4) w by (auto simp: cut_at_def separatorEnd_def w_def split: option.split)
  qed
qed

text \<open>Cutting valid text.\<close>

lemma valid_cut_nth: "valid_utf8 s \<Longrightarrow> e < length s \<Longrightarrow> RuneStart (s ! e) \<Longrightarrow> valid_utf8 (take e s) \<and> valid_utf8 (drop e s)"
  by (rule valid_cut) (simp_all add: hd_drop_conv_nth)

lemma safe_valid:
  assumes "valid_utf8 s" "sz < length s"
  shows "valid_utf8 (take (runeSafeEnd s sz) s) \<and> valid_utf8 (drop (runeSafeEnd s sz) s)"
proof (cases "back_to_start s sz = 0")
  case True
  have "s \<noteq> []" using assms(2) by auto
  then show ?thesis using valid_first [OF assms(1)] valid_rune True by (simp add: runeSafeEnd_def)
next
  case False
  then show ?thesis using valid_cut_nth [OF assms(1)] back_start [of s sz] back_le [of s sz] assms(2) by (simp add: runeSafeEnd_def Let_def)
qed

lemma cut_valid:
  assumes "valid_utf8 s" "sz < length s" "\<not> isPunct 0xFFFD"
  shows "valid_utf8 (take (cut_at isPunct s sz) s) \<and> valid_utf8 (drop (cut_at isPunct s sz) s)"
proof -
  define e where "e = runeSafeEnd s sz"
  have e: "e \<le> length s" using runeSafeEnd_bounds [OF assms(2)] by (simp add: e_def)
  show ?thesis
  proof (cases "LastIndexFunc IsSpace (take e s)")
    case (Some i)
    then show ?thesis using valid_cut_nth [OF assms(1)] LastIndex_start [OF Some not_space_error e]
      by (simp add: cut_at_def separatorEnd_def e_def [symmetric])
  next
    case none: None
    show ?thesis
    proof (cases "LastIndexFunc isPunct (take e s)")
      case None
      then show ?thesis using none safe_valid [OF assms(1,2)] by (simp add: cut_at_def separatorEnd_def e_def [symmetric])
    next
      case (Some i)
      have i: "valid_utf8 (take i s)" "valid_utf8 (drop i s)" "drop i s \<noteq> []"
        using valid_cut_nth [OF assms(1)] LastIndex_start [OF Some assms(3) e] by auto
      have f: "whole_rune (take (snd (DecodeRune (drop i s))) (drop i s))" "valid_utf8 (drop (snd (DecodeRune (drop i s))) (drop i s))"
        using valid_first [OF i(2,3)] by auto
      have c: "cut_at isPunct s sz = i + snd (DecodeRune (drop i s))"
        using none Some by (simp add: cut_at_def separatorEnd_def e_def [symmetric])
      show ?thesis
        using valid_append [OF i(1) valid_rune [OF f(1)]] f(2) by (simp add: c take_add add.commute)
    qed
  qed
qed

section \<open>What the chunks cover\<close>

inductive cover :: "bytes \<Rightarrow> bytes list \<Rightarrow> bool" where
  cover_end: "white w \<Longrightarrow> cover w []"
| cover_step: "white w \<Longrightarrow> cover t cs \<Longrightarrow> cover (w @ c @ t) (c # cs)"

lemma cover_white: "cover p cs \<Longrightarrow> white w \<Longrightarrow> cover (w @ p) cs"
proof (induction rule: cover.cases)
  case (cover_step v t cs' c)
  then show ?case using cover.cover_step [OF white_append [of w v]] by auto
qed (auto intro: cover.cover_end white_append)

lemma cover_append: "cover p cs \<Longrightarrow> cover q ds \<Longrightarrow> cover (p @ q) (cs @ ds)"
proof (induction rule: cover.induct)
  case (cover_step w t cs c)
  then show ?case using cover.cover_step [of w "t @ q" "cs @ ds" c] by simp
qed (simp add: cover_white)

lemma cover_one: "white v \<Longrightarrow> white w \<Longrightarrow> cover (v @ c @ w) [c]"
  by (intro cover.intros)

lemma cover_trailing: "cover p cs \<Longrightarrow> white w \<Longrightarrow> cover (p @ w) cs"
  using cover_append [OF _ cover_end] by fastforce

lemma cover_appendChunk: "cover p ret \<Longrightarrow> cover (p @ x) (appendChunk ret x)"
proof -
  assume p: "cover p ret"
  obtain v w where t: "x = v @ TrimSpace x @ w" "white v" "white w" using TrimSpace_spec by blast
  show ?thesis
  proof (cases "TrimSpace x = []")
    case True
    then show ?thesis using cover_trailing [OF p white_append [OF t(2,3)]] t(1) by (simp add: appendChunk_def)
  next
    case False
    then show ?thesis using cover_append [OF p cover_one [OF t(2,3), of "TrimSpace x"]] t(1) by (simp add: appendChunk_def)
  qed
qed

definition chunk_ok :: "nat \<Rightarrow> bytes \<Rightarrow> bool" where
  "chunk_ok sz c \<longleftrightarrow> c \<noteq> [] \<and> \<not> IsSpace (fst (DecodeRune c)) \<and> \<not> IsSpace (fst (DecodeLastRune c))
     \<and> (length c \<le> sz \<or> length c = snd (DecodeRune c))"

lemma chunk_ok_short: "length s \<le> sz \<Longrightarrow> TrimSpace s \<noteq> [] \<Longrightarrow> chunk_ok sz (TrimSpace s)"
  using TrimSpace_spec [of s] TrimSpace_length [of s] by (auto simp: chunk_ok_def)

lemma chunk_ok_cut:
  assumes "sz < length s" "1 \<le> sz" "\<not> isPunct 0xFFFD" "TrimSpace (take (cut_at isPunct s sz) s) \<noteq> []"
  shows "chunk_ok sz (TrimSpace (take (cut_at isPunct s sz) s))"
proof (cases "sz < runeSafeEnd s sz")
  case True
  define x where "x = take (cut_at isPunct s sz) s"
  have "cut_at isPunct s sz \<noteq> 0"
    using assms(4) TrimSpace_length [of "[]"] by (metis le_zero_eq length_0_conv list.size(3) take0)
  then have c: "cut_at isPunct s sz = snd (DecodeRune s)" "whole_rune x" using cut_wide [of sz s isPunct, OF assms(1,2) True assms(3)] by (auto simp: x_def)
  then have "TrimSpace x = x" using TrimSpace_whole assms(4) by (simp add: x_def)
  moreover have "snd (DecodeRune x) = length x" using c(2) by (simp add: whole_rune_def)
  ultimately show ?thesis using TrimSpace_spec [of x] assms(4) by (auto simp: chunk_ok_def x_def [symmetric])
next
  case False
  have "cut_at isPunct s sz \<le> sz"
    using separatorEnd_bounds [of "runeSafeEnd s sz" s isPunct] runeSafeEnd_bounds [OF assms(1)] assms(3) False by (simp add: cut_at_def)
  then show ?thesis using chunk_ok_short assms(4) by simp
qed

section \<open>One line\<close>

lemma appendChunk_ok:
  "\<forall>c \<in> set ret. P c \<Longrightarrow> (TrimSpace x \<noteq> [] \<Longrightarrow> P (TrimSpace x)) \<Longrightarrow> \<forall>c \<in> set (appendChunk ret x). P c"
  by (auto simp: appendChunk_def Let_def)

lemma appendChunk_length: "length (appendChunk ret x) \<le> Suc (length ret)"
  by (simp add: appendChunk_def Let_def)

definition below :: "int \<Rightarrow> nat \<Rightarrow> bool" where
  "below n k \<longleftrightarrow> 0 < n \<longrightarrow> int k \<le> n"

lemma below_appendChunk: "\<not> limitReached n (length ret) \<Longrightarrow> below n (length (appendChunk ret x))"
  using appendChunk_length [of ret x] by (auto simp: limitReached_def below_def)

lemma ChunkLine_loop_spec:
  assumes "1 \<le> sz" "\<not> isPunct 0xFFFD"
  shows "cover p ret \<Longrightarrow> \<forall>c \<in> set ret. chunk_ok sz c \<Longrightarrow> below n (length ret) \<Longrightarrow>
     (case ChunkLine_loop isPunct sz n ret s of (ret', s') \<Rightarrow>
        (\<exists>p' w. p @ s = p' @ s' @ w \<and> white w \<and> cover p' ret') \<and> (\<forall>c \<in> set ret'. chunk_ok sz c) \<and> below n (length ret')
        \<and> (limitReached n (length ret') \<or> length s' \<le> sz)
        \<and> (valid_utf8 s \<longrightarrow> (\<forall>c \<in> set ret. valid_utf8 c) \<longrightarrow> valid_utf8 s' \<and> (\<forall>c \<in> set ret'. valid_utf8 c)))"
proof (induction "length s" arbitrary: s p ret rule: less_induct)
  case less
  show ?case
  proof (cases "length s > sz \<and> \<not> limitReached n (length ret)")
    case False
    then have "ChunkLine_loop isPunct sz n ret s = (ret, s)" by (subst ChunkLine_loop.simps) auto
    moreover have "\<exists>p' w. p @ s = p' @ s @ w \<and> white w \<and> cover p' ret"
      using less.prems(1) by (intro exI [of _ p] exI [of _ "[]"]) simp
    ultimately show ?thesis using less.prems(2,3) False by (simp only: prod.case) (auto simp: not_less)
  next
    case True
    define e where "e = cut_at isPunct s sz"
    define ret1 where "ret1 = appendChunk ret (take e s)"
    obtain v w where t: "drop e s = v @ TrimSpace (drop e s) @ w" "white v" "white w" using TrimSpace_spec by blast
    have step: "ChunkLine_loop isPunct sz n ret s = ChunkLine_loop isPunct sz n ret1 (TrimSpace (drop e s))"
      using True by (subst ChunkLine_loop.simps) (simp add: e_def ret1_def cut_at_def Let_def)
    obtain ret' s' where r: "ChunkLine_loop isPunct sz n ret1 (TrimSpace (drop e s)) = (ret', s')" by (metis prod.exhaust)
    have c1: "cover ((p @ take e s) @ v) ret1" using cover_trailing [OF cover_appendChunk [OF less.prems(1)] t(2)] by (simp add: ret1_def)
    have ok1: "\<forall>c \<in> set ret1. chunk_ok sz c"
      unfolding ret1_def by (rule appendChunk_ok [OF less.prems(2)]) (use chunk_ok_cut True assms in \<open>simp add: e_def\<close>)
    have b1: "below n (length ret1)" using below_appendChunk True by (simp add: ret1_def)
    have less: "length (TrimSpace (drop e s)) < length s" using cut_progress True by (simp add: e_def)
    note ih = less.hyps [OF less c1 ok1 b1, unfolded r prod.case]
    obtain p' w' where q: "((p @ take e s) @ v) @ TrimSpace (drop e s) = p' @ s' @ w'" "white w'" "cover p' ret'" using ih by blast
    have s: "s = take e s @ v @ TrimSpace (drop e s) @ w" using t(1) by (metis append_take_drop_id)
    have "p @ s = (((p @ take e s) @ v) @ TrimSpace (drop e s)) @ w" by (subst s) simp
    also have "\<dots> = p' @ s' @ (w' @ w)" by (subst q(1)) simp
    finally have "p @ s = p' @ s' @ (w' @ w)" .
    then have 1: "\<exists>p' w. p @ s = p' @ s' @ w \<and> white w \<and> cover p' ret'" using q(2,3) white_append t(3) by blast
    have "valid_utf8 (TrimSpace (drop e s)) \<and> (\<forall>c \<in> set ret1. valid_utf8 c)"
      if "valid_utf8 s" "\<forall>c \<in> set ret. valid_utf8 c"
      using cut_valid [of s sz isPunct, OF that(1) _ assms(2)] True valid_TrimSpace that(2) by (auto simp: ret1_def appendChunk_def Let_def e_def)
    then show ?thesis using ih 1 unfolding step r prod.case by blast
  qed
qed

lemma ChunkLine_spec:
  assumes "1 \<le> sz" "n \<noteq> 0" "\<not> isPunct 0xFFFD"
  shows "\<exists>cs p q. ChunkLine isPunct s sz n = Some cs \<and> s = p @ q \<and> cover p cs \<and> (q = [] \<or> limitReached n (length cs))
     \<and> (\<forall>c \<in> set cs. chunk_ok (nat sz) c) \<and> below n (length cs) \<and> (valid_utf8 s \<longrightarrow> (\<forall>c \<in> set cs. valid_utf8 c))"
proof -
  obtain ret s' where r: "ChunkLine_loop isPunct (nat sz) n [] s = (ret, s')" by (metis prod.exhaust)
  have c: "cover [] []" by (simp add: cover_end)
  note l = ChunkLine_loop_spec [of "nat sz" isPunct "[]" "[]" n s, OF _ assms(3) c, unfolded r prod.case]
  have sz: "1 \<le> nat sz" using assms(1) by simp
  have l: "(\<exists>p' w. s = p' @ s' @ w \<and> white w \<and> cover p' ret)" "\<forall>c \<in> set ret. chunk_ok (nat sz) c" "below n (length ret)"
    "limitReached n (length ret) \<or> length s' \<le> nat sz"
    "valid_utf8 s \<Longrightarrow> valid_utf8 s' \<and> (\<forall>c \<in> set ret. valid_utf8 c)"
    using l [OF sz] by (auto simp: below_def)
  obtain p w where p: "s = p @ s' @ w" "white w" "cover p ret" using l(1) by blast
  show ?thesis
  proof (cases "limitReached n (length ret)")
    case True
    then show ?thesis using l p assms(1,2) r by (intro exI [of _ ret] exI [of _ p] exI [of _ "s' @ w"]) (auto simp: ChunkLine_def)
  next
    case False
    have "cover s (appendChunk ret s')" using cover_trailing [OF cover_appendChunk [OF p(3), of s'] p(2)] p(1) by simp
    moreover have "\<forall>c \<in> set (appendChunk ret s'). chunk_ok (nat sz) c"
      using appendChunk_ok [OF l(2)] chunk_ok_short l(4) False by blast
    moreover have "valid_utf8 s \<Longrightarrow> \<forall>c \<in> set (appendChunk ret s'). valid_utf8 c"
      using l(5) valid_TrimSpace by (auto simp: appendChunk_def Let_def)
    ultimately show ?thesis using below_appendChunk [OF False] False assms(1,2) r
      by (intro exI [of _ "appendChunk ret s'"] exI [of _ s] exI [of _ "[]"]) (auto simp: ChunkLine_def)
  qed
qed

section \<open>A text\<close>

definition later_lines :: "bytes list \<Rightarrow> bytes" where
  "later_lines ls = concat (map (\<lambda>l. CHR 0x0A # l) ls)"

lemma split_newlines_text: "\<exists>l ls. split_newlines s = l # ls \<and> s = l @ later_lines ls"
  by (induction s) (auto simp: later_lines_def)

lemma white_newline: "white [CHR 0x0A]"
  by (rule white_rune [of _ 10]) (simp_all add: one_rune_def IsSpace_def)

lemma whole_newline: "whole_rune [CHR 0x0A]"
  by (simp add: whole_rune_def)

lemma later_lines_start: "later_lines ls = [] \<or> RuneStart (hd (later_lines ls))"
  by (cases ls) (simp_all add: later_lines_def RuneStart_def)

lemma later_lines_valid: "valid_utf8 (later_lines ls) \<Longrightarrow> \<forall>l \<in> set ls. valid_utf8 l"
proof (induction ls)
  case (Cons l ls)
  have "valid_utf8 ((CHR 0x0A # l) @ later_lines ls)" using Cons.prems by (simp add: later_lines_def)
  then have a: "valid_utf8 (CHR 0x0A # l)" "valid_utf8 (later_lines ls)" using valid_cut later_lines_start by blast+
  have "valid_utf8 l" using valid_strip [of "[CHR 0x0A]" l] a(1) valid_rune [OF whole_newline] by simp
  then show ?case using Cons.IH a(2) by simp
qed simp

lemma split_newlines_valid: "valid_utf8 s \<Longrightarrow> \<forall>l \<in> set (split_newlines s). valid_utf8 l"
proof -
  assume s: "valid_utf8 s"
  obtain l ls where l: "split_newlines s = l # ls" "s = l @ later_lines ls" using split_newlines_text by blast
  then have "valid_utf8 l \<and> valid_utf8 (later_lines ls)" using valid_cut [of l] s later_lines_start by simp
  then show ?thesis using l(1) later_lines_valid [of ls] by simp
qed

definition good_chunks :: "nat \<Rightarrow> int \<Rightarrow> bytes list \<Rightarrow> bool" where
  "good_chunks sz n cs \<longleftrightarrow> (\<forall>c \<in> set cs. chunk_ok sz c) \<and> below n (length cs)"

text \<open>One line more: the part of it behind the chunks is not empty only when there are enough of them.\<close>

lemma appendLine_spec:
  assumes "1 \<le> sz" "n \<noteq> 0" "\<not> isPunct 0xFFFD" "\<not> limitReached n (length ret)"
    "cover p ret" "good_chunks (nat sz) n ret"
  shows "\<exists>q r. line = q @ r \<and> cover (p @ q) (appendLine isPunct ret (TrimSpace line) sz n)
     \<and> (r = [] \<or> limitReached n (length (appendLine isPunct ret (TrimSpace line) sz n)))
     \<and> good_chunks (nat sz) n (appendLine isPunct ret (TrimSpace line) sz n)
     \<and> (valid_utf8 line \<longrightarrow> (\<forall>c \<in> set ret. valid_utf8 c)
          \<longrightarrow> (\<forall>c \<in> set (appendLine isPunct ret (TrimSpace line) sz n). valid_utf8 c))"
proof -
  obtain v w where t: "line = v @ TrimSpace line @ w" "white v" "white w" using TrimSpace_spec by blast
  consider "TrimSpace line = []" | "TrimSpace line \<noteq> []" "int (length (TrimSpace line)) \<le> sz"
    | "sz < int (length (TrimSpace line))" by linarith
  then show ?thesis
  proof cases
    case 1
    then have e: "appendLine isPunct ret (TrimSpace line) sz n = ret" by (simp add: appendLine_def)
    have "cover (p @ line) ret" using cover_trailing [OF assms(5) white_append [OF t(2,3)]] t(1) 1 by simp
    then show ?thesis using e assms(6) by (intro exI [of _ line] exI [of _ "[]"]) simp
  next
    case 2
    then have e: "appendLine isPunct ret (TrimSpace line) sz n = ret @ [TrimSpace line]" by (simp add: appendLine_def)
    have "cover (p @ line) (ret @ [TrimSpace line])" using cover_append [OF assms(5) cover_one [OF t(2,3)]] t(1) by metis
    moreover have "chunk_ok (nat sz) (TrimSpace line)"
      using TrimSpace_spec [of line] 2 by (auto simp: chunk_ok_def)
    ultimately show ?thesis using e assms(4,6) valid_TrimSpace [of line]
      by (intro exI [of _ line] exI [of _ "[]"]) (auto simp: good_chunks_def below_def limitReached_def)
  next
    case 3
    define ns where "ns = (if n > 0 then n - int (length ret) else n)"
    have "ns \<noteq> 0" using assms(2,4) by (auto simp: ns_def limitReached_def)
    then obtain cs q r where c: "ChunkLine isPunct (TrimSpace line) sz ns = Some cs" "TrimSpace line = q @ r" "cover q cs"
      "r = [] \<or> limitReached ns (length cs)" "\<forall>c \<in> set cs. chunk_ok (nat sz) c" "below ns (length cs)"
      "valid_utf8 (TrimSpace line) \<Longrightarrow> \<forall>c \<in> set cs. valid_utf8 c"
      using ChunkLine_spec [of sz ns isPunct, OF assms(1) _ assms(3), of "TrimSpace line"] by blast
    have e: "appendLine isPunct ret (TrimSpace line) sz n = ret @ cs"
      using 3 assms(1) c(1) by (auto simp: appendLine_def ns_def Let_def)
    have lim: "limitReached ns (length cs) \<longleftrightarrow> limitReached n (length (ret @ cs))"
      "below ns (length cs) \<longleftrightarrow> below n (length (ret @ cs))"
      using assms(2,4) by (auto simp: limitReached_def below_def ns_def)
    have g: "good_chunks (nat sz) n (ret @ cs)" using assms(6) c(5,6) lim(2) by (auto simp: good_chunks_def)
    have v: "valid_utf8 line \<Longrightarrow> \<forall>c \<in> set ret. valid_utf8 c \<Longrightarrow> \<forall>c \<in> set (ret @ cs). valid_utf8 c"
      using c(7) valid_TrimSpace [of line] unfolding set_append by blast
    have cv: "cover (p @ v @ q) (ret @ cs)" using cover_append [OF assms(5) cover_white [OF c(3) t(2)]] .
    show ?thesis
    proof (cases "r = []")
      case True
      have "cover (p @ line) (ret @ cs)" using cover_trailing [OF cv t(3)] t(1) c(2) True by simp
      then show ?thesis using e g v by (intro exI [of _ line] exI [of _ "[]"]) simp
    next
      case False
      have "line = (v @ q) @ (r @ w)" using t(1) c(2) by simp
      then show ?thesis using e g v cv c(4) lim(1) False by (intro exI [of _ "v @ q"] exI [of _ "r @ w"]) simp
    qed
  qed
qed

lemma Chunk_loop_limit: "limitReached n (length ret) \<Longrightarrow> Chunk_loop isPunct sz n ret lines = ret"
  by (cases lines) simp_all

lemma Chunk_loop_spec:
  assumes "1 \<le> sz" "n \<noteq> 0" "\<not> isPunct 0xFFFD"
  shows "cover p ret \<Longrightarrow> good_chunks (nat sz) n ret \<Longrightarrow>
     \<exists>q r. later_lines ls = q @ r \<and> cover (p @ q) (Chunk_loop isPunct sz n ret ls)
       \<and> (r = [] \<or> limitReached n (length (Chunk_loop isPunct sz n ret ls)))
       \<and> good_chunks (nat sz) n (Chunk_loop isPunct sz n ret ls)
       \<and> ((\<forall>l \<in> set ls. valid_utf8 l) \<longrightarrow> (\<forall>c \<in> set ret. valid_utf8 c)
            \<longrightarrow> (\<forall>c \<in> set (Chunk_loop isPunct sz n ret ls). valid_utf8 c))"
proof (induction ls arbitrary: p ret)
  case Nil
  then show ?case by (intro exI [of _ "[]"]) (simp add: later_lines_def)
next
  case (Cons l ls)
  show ?case
  proof (cases "limitReached n (length ret)")
    case True
    then show ?thesis using Cons.prems by (intro exI [of _ "[]"] exI [of _ "later_lines (l # ls)"]) simp
  next
    case False
    define ret1 where "ret1 = appendLine isPunct ret (TrimSpace l) sz n"
    have nl: "cover (p @ [CHR 0x0A]) ret" by (rule cover_trailing [OF Cons.prems(1) white_newline])
    obtain q r where q: "l = q @ r" "cover ((p @ [CHR 0x0A]) @ q) ret1" "r = [] \<or> limitReached n (length ret1)"
      "good_chunks (nat sz) n ret1" "valid_utf8 l \<Longrightarrow> \<forall>c \<in> set ret. valid_utf8 c \<Longrightarrow> \<forall>c \<in> set ret1. valid_utf8 c"
      using appendLine_spec [of sz n isPunct, OF assms False nl Cons.prems(2), of l] unfolding ret1_def by blast
    have step: "Chunk_loop isPunct sz n ret (l # ls) = Chunk_loop isPunct sz n ret1 ls" using False by (simp add: ret1_def)
    show ?thesis
    proof (cases "r = []")
      case True
      obtain q' r' where ih: "later_lines ls = q' @ r'" "cover (((p @ [CHR 0x0A]) @ q) @ q') (Chunk_loop isPunct sz n ret1 ls)"
        "r' = [] \<or> limitReached n (length (Chunk_loop isPunct sz n ret1 ls))"
        "good_chunks (nat sz) n (Chunk_loop isPunct sz n ret1 ls)"
        "\<forall>l \<in> set ls. valid_utf8 l \<Longrightarrow> \<forall>c \<in> set ret1. valid_utf8 c \<Longrightarrow> \<forall>c \<in> set (Chunk_loop isPunct sz n ret1 ls). valid_utf8 c"
        using Cons.IH [OF q(2,4)] by blast
      have a: "later_lines (l # ls) = (CHR 0x0A # q @ q') @ r'" using ih(1) q(1) True by (simp add: later_lines_def)
      have b: "cover (p @ (CHR 0x0A # q @ q')) (Chunk_loop isPunct sz n ret1 ls)" using ih(2) by simp
      have v: "(\<forall>l \<in> set (l # ls). valid_utf8 l) \<longrightarrow> (\<forall>c \<in> set ret. valid_utf8 c)
          \<longrightarrow> (\<forall>c \<in> set (Chunk_loop isPunct sz n ret1 ls). valid_utf8 c)" using ih(5) q(5) unfolding list.set by blast
      show ?thesis unfolding step by (intro exI conjI) (rule a b ih(3) ih(4) v)+
    next
      case ne: False
      then have e: "Chunk_loop isPunct sz n ret1 ls = ret1" using Chunk_loop_limit q(3) by blast
      have a: "later_lines (l # ls) = (CHR 0x0A # q) @ (r @ later_lines ls)" using q(1) by (simp add: later_lines_def)
      have b: "cover (p @ (CHR 0x0A # q)) ret1" using q(2) by simp
      have v: "(\<forall>l \<in> set (l # ls). valid_utf8 l) \<longrightarrow> (\<forall>c \<in> set ret. valid_utf8 c) \<longrightarrow> (\<forall>c \<in> set ret1. valid_utf8 c)"
        using q(5) unfolding list.set by blast
      have c: "r @ later_lines ls = [] \<or> limitReached n (length ret1)" using q(3) ne by blast
      show ?thesis unfolding step e by (intro exI conjI) (rule a b c q(4) v)+
    qed
  qed
qed

text \<open>
  C26. \<^verbatim>\<open>Chunk\<close> returns nil exactly for a size below one or a limit of zero. Otherwise its chunks stand in the text in
  this order with nothing but white space before, between and behind them, up to the place where a positive limit
  ends the work, and there are never more chunks than that limit; without one they cover the whole text. Every chunk is
  not empty, begins and ends with something that is not white space, and has at most \<^verbatim>\<open>size\<close> bytes unless it is a
  single rune that is wider. When the text is valid UTF-8, every chunk is. U+FFFD, as which an invalid byte is
  read, must not count as punctuation.
\<close>

theorem chunk_covers_text:
  assumes "\<not> isPunct 0xFFFD"
  shows "case Chunk isPunct s sz n of
       None \<Rightarrow> sz < 1 \<or> n = 0
     | Some cs \<Rightarrow> 1 \<le> sz \<and> n \<noteq> 0
         \<and> (\<exists>p q. s = p @ q \<and> cover p cs \<and> (q = [] \<or> limitReached n (length cs)))
         \<and> (\<forall>c \<in> set cs. chunk_ok (nat sz) c \<and> (valid_utf8 s \<longrightarrow> valid_utf8 c)) \<and> (0 < n \<longrightarrow> int (length cs) \<le> n)"
proof (cases "sz < 1 \<or> n = 0")
  case True
  then show ?thesis by (simp add: Chunk_def)
next
  case False
  then have h: "1 \<le> sz" "n \<noteq> 0" by auto
  obtain l ls where l: "split_newlines s = l # ls" "s = l @ later_lines ls" using split_newlines_text by blast
  have c0: "cover [] []" "good_chunks (nat sz) n []" by (simp_all add: cover_end good_chunks_def below_def)
  have nl: "\<not> limitReached n (length [])" using h by (simp add: limitReached_def)
  define ret where "ret = appendLine isPunct [] (TrimSpace l) sz n"
  define cs where "cs = Chunk_loop isPunct sz n ret ls"
  have C: "Chunk isPunct s sz n = Some cs" using False nl l(1) by (simp add: Chunk_def cs_def ret_def)
  obtain q r where q: "l = q @ r" "cover q ret" "r = [] \<or> limitReached n (length ret)" "good_chunks (nat sz) n ret"
    "valid_utf8 l \<Longrightarrow> \<forall>c \<in> set ret. valid_utf8 c"
    using appendLine_spec [of sz n isPunct, OF h assms nl c0, of l] unfolding ret_def by auto
  obtain q' r' where ih: "later_lines ls = q' @ r'" "cover (q @ q') cs" "r' = [] \<or> limitReached n (length cs)"
    "good_chunks (nat sz) n cs"
    "\<forall>l \<in> set ls. valid_utf8 l \<Longrightarrow> \<forall>c \<in> set ret. valid_utf8 c \<Longrightarrow> \<forall>c \<in> set cs. valid_utf8 c"
    using Chunk_loop_spec [of sz n isPunct, OF h assms q(2,4), of ls] unfolding cs_def by blast
  have "\<exists>p q. s = p @ q \<and> cover p cs \<and> (q = [] \<or> limitReached n (length cs))"
  proof (cases "r = []")
    case True
    then show ?thesis using l(2) q(1) ih by (intro exI [of _ "q @ q'"] exI [of _ r']) simp
  next
    case ne: False
    then have "cs = ret" using Chunk_loop_limit q(3) by (auto simp: cs_def)
    then show ?thesis using l(2) q ne by (intro exI [of _ q] exI [of _ "r @ later_lines ls"]) simp
  qed
  moreover have "valid_utf8 s \<Longrightarrow> \<forall>c \<in> set cs. valid_utf8 c"
    using split_newlines_valid [of s] q(5) ih(5) unfolding l(1) list.set by blast
  moreover have "\<forall>c \<in> set cs. chunk_ok (nat sz) c" "0 < n \<longrightarrow> int (length cs) \<le> n"
    using ih(4) unfolding good_chunks_def below_def by blast+
  ultimately show ?thesis unfolding C option.case using h by blast
qed

text \<open>A text of two lines and the first of its chunks: the line is cut behind the full stop.\<close>

theorem chunk_covers_text_witness:
  "\<exists>cs. Chunk (\<lambda>r. r = 46) (''ab.cd'' @ [CHR 0x0A, CHR 0x41]) 3 (- 1) = Some cs
     \<and> cover (''ab.cd'' @ [CHR 0x0A, CHR 0x41]) cs"
proof -
  note t = chunk_covers_text [where isPunct = "\<lambda>r. r = 46" and s = "''ab.cd'' @ [CHR 0x0A, CHR 0x41]" and sz = 3 and n = "- 1"]
  obtain cs where "Chunk (\<lambda>r. r = 46) (''ab.cd'' @ [CHR 0x0A, CHR 0x41]) 3 (- 1) = Some cs" by (auto simp: Chunk_def)
  then show ?thesis using t by (auto simp: limitReached_def)
qed

end
