(* ===== verification/SQ_Util.thy ===== *)
theory SQ_Util
  imports Go_Format
begin

text \<open>
  \<^verbatim>\<open>pkg/sqlutil\<close>: quoting of identifiers and values, and \<^verbatim>\<open>IN\<close> clauses. A quoting function that is not set is
  \<open>None\<close>, and calling it panics (\<open>None\<close>). The reader of MySQL's default mode, with which the texts are
  compared, is at the end.
\<close>

section \<open>Configuration\<close>

datatype sql_error = ErrNilQuoteIDFunc | ErrNilQuoteValueFunc

record SQLUtil =
  quoteIDFunc :: "(bytes \<Rightarrow> bytes) option"
  quoteValueFunc :: "(bytes \<Rightarrow> bytes) option"

datatype sql_Option = WithQuoteIDFunc "(bytes \<Rightarrow> bytes) option" | WithQuoteValueFunc "(bytes \<Rightarrow> bytes) option"

fun apply_sql_option :: "sql_Option \<Rightarrow> SQLUtil \<Rightarrow> SQLUtil" where
  "apply_sql_option (WithQuoteIDFunc fn) c = c\<lparr>quoteIDFunc := fn\<rparr>"
| "apply_sql_option (WithQuoteValueFunc fn) c = c\<lparr>quoteValueFunc := fn\<rparr>"

section \<open>The default quoting\<close>

text \<open>\<^verbatim>\<open>strings.Split\<close> and \<^verbatim>\<open>strings.ReplaceAll\<close> for one byte.\<close>

fun Split :: "char \<Rightarrow> bytes \<Rightarrow> bytes list" where
  "Split sep [] = [[]]"
| "Split sep (c # s) =
     (if c = sep then [] # Split sep s
      else (case Split sep s of [] \<Rightarrow> [[c]] | p # ps \<Rightarrow> (c # p) # ps))"

definition ReplaceAll :: "char \<Rightarrow> bytes \<Rightarrow> bytes \<Rightarrow> bytes" where
  "ReplaceAll old new s = concat (map (\<lambda>c. if c = old then new else [c]) s)"

abbreviation backtick :: char where "backtick \<equiv> CHR 0x60"
abbreviation quote :: char where "quote \<equiv> CHR 0x27"
abbreviation backslash :: char where "backslash \<equiv> CHR 0x5C"

definition defaultQuoteID :: "bytes \<Rightarrow> bytes" where
  "defaultQuoteID s =
     (if s = [] then s
      else join_parts (CHR ''.'') (map (\<lambda>v. [backtick] @ ReplaceAll backtick [backtick, backtick] v @ [backtick])
             (Split (CHR ''.'') s)))"

definition escape_byte :: "char \<Rightarrow> bytes" where
  "escape_byte c =
     (if c = CHR 0x00 then [backslash, CHR ''0'']
      else if c = CHR 0x0A then [backslash, CHR ''n'']
      else if c = CHR 0x0D then [backslash, CHR ''r'']
      else if c = backslash then [backslash, backslash]
      else if c = CHR 0x1A then [backslash, CHR ''Z'']
      else if c = quote then [quote, quote]
      else [c])"

definition special_bytes :: bytes where
  "special_bytes = [quote, CHR 0x00, CHR 0x0A, CHR 0x0D, backslash, CHR 0x1A]"

definition escapeValue :: "bytes \<Rightarrow> bytes" where
  "escapeValue s =
     (if \<not> list_ex (\<lambda>c. c \<in> set special_bytes) s then s else foldl (\<lambda>dest c. dest @ escape_byte c) [] s)"

definition defaultQuoteValue :: "bytes \<Rightarrow> bytes" where
  "defaultQuoteValue s = [quote] @ escapeValue s @ [quote]"

definition defaultSQLUtil :: SQLUtil where
  "defaultSQLUtil = \<lparr>quoteIDFunc = Some defaultQuoteID, quoteValueFunc = Some defaultQuoteValue\<rparr>"

definition sql_validate :: "SQLUtil \<Rightarrow> sql_error option" where
  "sql_validate c =
     (if quoteIDFunc c = None then Some ErrNilQuoteIDFunc
      else if quoteValueFunc c = None then Some ErrNilQuoteValueFunc
      else None)"

definition sql_New :: "sql_Option list \<Rightarrow> sql_error + SQLUtil" where
  "sql_New opts =
     (let c = foldl (\<lambda>c applyOpt. apply_sql_option applyOpt c) defaultSQLUtil opts
      in case sql_validate c of Some err \<Rightarrow> Inl err | None \<Rightarrow> Inr c)"

definition QuoteID :: "SQLUtil \<Rightarrow> bytes \<Rightarrow> bytes option" where
  "QuoteID c s = map_option (\<lambda>f. f s) (quoteIDFunc c)"

definition QuoteValue :: "SQLUtil \<Rightarrow> bytes \<Rightarrow> bytes option" where
  "QuoteValue c s = map_option (\<lambda>f. f s) (quoteValueFunc c)"

section \<open>Clauses\<close>

definition sqlConditionIn :: bytes where "sqlConditionIn = ''IN''"
definition sqlConditionNotIn :: bytes where "sqlConditionNotIn = ''NOT IN''"
definition sqlMatchNone :: bytes where "sqlMatchNone = ''1 = 0''"
definition sqlMatchAll :: bytes where "sqlMatchAll = ''1 = 1''"

definition composeInClause :: "SQLUtil \<Rightarrow> bytes \<Rightarrow> bytes \<Rightarrow> bytes list \<Rightarrow> bytes option" where
  "composeInClause c cond field vs =
     (if length vs = 0 then Some (if cond = sqlConditionNotIn then sqlMatchAll else sqlMatchNone)
      else do {
        fd \<leftarrow> QuoteID c field;
        Some (fd @ '' '' @ cond @ '' ('' @ join_parts (CHR '','') vs @ '')'')
      })"

fun formatStrings :: "SQLUtil \<Rightarrow> bytes list \<Rightarrow> bytes list option" where
  "formatStrings c [] = Some []"
| "formatStrings c (v # vs) = do { x \<leftarrow> QuoteValue c v; xs \<leftarrow> formatStrings c vs; Some (x # xs) }"

text \<open>\<^verbatim>\<open>strconv.FormatInt(v, 10)\<close>.\<close>

definition FormatInt :: "int \<Rightarrow> bytes" where
  "FormatInt v = (if v < 0 then ''-'' @ FormatUint 10 (nat (- v)) else FormatUint 10 (nat v))"

definition formatInts :: "int list \<Rightarrow> bytes list" where
  "formatInts vs = map FormatInt vs"

definition formatInt64s :: "int list \<Rightarrow> bytes list" where
  "formatInt64s vs = map FormatInt vs"

definition formatUints :: "nat list \<Rightarrow> bytes list" where
  "formatUints vs = map (FormatUint 10) vs"

definition BuildInClauseString :: "SQLUtil \<Rightarrow> bytes \<Rightarrow> bytes list \<Rightarrow> bytes option" where
  "BuildInClauseString c field vs = do { xs \<leftarrow> formatStrings c vs; composeInClause c sqlConditionIn field xs }"

definition BuildNotInClauseString :: "SQLUtil \<Rightarrow> bytes \<Rightarrow> bytes list \<Rightarrow> bytes option" where
  "BuildNotInClauseString c field vs = do { xs \<leftarrow> formatStrings c vs; composeInClause c sqlConditionNotIn field xs }"

definition BuildInClauseInt :: "SQLUtil \<Rightarrow> bytes \<Rightarrow> int list \<Rightarrow> bytes option" where
  "BuildInClauseInt c field vs = composeInClause c sqlConditionIn field (formatInts vs)"

definition BuildNotInClauseInt :: "SQLUtil \<Rightarrow> bytes \<Rightarrow> int list \<Rightarrow> bytes option" where
  "BuildNotInClauseInt c field vs = composeInClause c sqlConditionNotIn field (formatInts vs)"

definition BuildInClauseInt64 :: "SQLUtil \<Rightarrow> bytes \<Rightarrow> int list \<Rightarrow> bytes option" where
  "BuildInClauseInt64 c field vs = composeInClause c sqlConditionIn field (formatInt64s vs)"

definition BuildNotInClauseInt64 :: "SQLUtil \<Rightarrow> bytes \<Rightarrow> int list \<Rightarrow> bytes option" where
  "BuildNotInClauseInt64 c field vs = composeInClause c sqlConditionNotIn field (formatInt64s vs)"

definition BuildInClauseUint :: "SQLUtil \<Rightarrow> bytes \<Rightarrow> nat list \<Rightarrow> bytes option" where
  "BuildInClauseUint c field vs = composeInClause c sqlConditionIn field (formatUints vs)"

definition BuildNotInClauseUint :: "SQLUtil \<Rightarrow> bytes \<Rightarrow> nat list \<Rightarrow> bytes option" where
  "BuildNotInClauseUint c field vs = composeInClause c sqlConditionNotIn field (formatUints vs)"

section \<open>The reader\<close>

text \<open>
  MySQL reads a string literal behind its opening quote: a doubled quote is a quote, a backslash takes the next byte,
  \<^verbatim>\<open>\%\<close> and \<^verbatim>\<open>\_\<close> stay as they are. The value and the text behind the closing quote; \<open>None\<close> for an
  open literal.
\<close>

definition unescape :: "char \<Rightarrow> bytes" where
  "unescape c =
     (if c = CHR ''0'' then [CHR 0x00]
      else if c = CHR ''b'' then [CHR 0x08]
      else if c = CHR ''t'' then [CHR 0x09]
      else if c = CHR ''n'' then [CHR 0x0A]
      else if c = CHR ''r'' then [CHR 0x0D]
      else if c = CHR ''Z'' then [CHR 0x1A]
      else if c = CHR ''%'' \<or> c = CHR ''_'' then [backslash, c]
      else [c])"

fun read_literal :: "bytes \<Rightarrow> (bytes \<times> bytes) option" where
  "read_literal [] = None"
| "read_literal [c] = (if c = quote then Some ([], []) else None)"
| "read_literal (c # d # s) =
     (if c = quote then
        (if d = quote then map_option (\<lambda>(v, r). (quote # v, r)) (read_literal s) else Some ([], d # s))
      else if c = backslash then map_option (\<lambda>(v, r). (unescape d @ v, r)) (read_literal s)
      else map_option (\<lambda>(v, r). (c # v, r)) (read_literal (d # s)))"

text \<open>The same for a name behind its opening backtick, where only the backtick is special.\<close>

fun read_name :: "bytes \<Rightarrow> (bytes \<times> bytes) option" where
  "read_name [] = None"
| "read_name [c] = (if c = backtick then Some ([], []) else None)"
| "read_name (c # d # s) =
     (if c = backtick then
        (if d = backtick then map_option (\<lambda>(v, r). (backtick # v, r)) (read_name s) else Some ([], d # s))
      else map_option (\<lambda>(v, r). (c # v, r)) (read_name (d # s)))"

lemma read_name_shorter: "read_name s = Some (v, r) \<Longrightarrow> length r < length s"
  by (induction s arbitrary: v r rule: read_name.induct) (auto split: if_splits)

lemma read_literal_shorter: "read_literal s = Some (v, r) \<Longrightarrow> length r < length s"
  by (induction s arbitrary: v r rule: read_literal.induct) (auto split: if_splits)

text \<open>Names separated by dots, and literals separated by commas up to a closing parenthesis.\<close>

function read_path :: "bytes \<Rightarrow> (bytes list \<times> bytes) option" where
  "read_path s =
     (if s = [] \<or> hd s \<noteq> backtick then None
      else case read_name (tl s) of
             None \<Rightarrow> None
           | Some (v, r) \<Rightarrow>
               if r \<noteq> [] \<and> hd r = CHR ''.'' then map_option (\<lambda>(vs, r). (v # vs, r)) (read_path (tl r))
               else Some ([v], r))"
  by pat_completeness auto
termination
  by (relation "measure length") (use read_name_shorter in fastforce)+

function read_values :: "bytes \<Rightarrow> (bytes list \<times> bytes) option" where
  "read_values s =
     (if s = [] \<or> hd s \<noteq> quote then None
      else case read_literal (tl s) of
             None \<Rightarrow> None
           | Some (v, r) \<Rightarrow>
               if r \<noteq> [] \<and> hd r = CHR '','' then map_option (\<lambda>(vs, r). (v # vs, r)) (read_values (tl r))
               else if r \<noteq> [] \<and> hd r = CHR '')'' then Some ([v], tl r)
               else None)"
  by pat_completeness auto
termination
  by (relation "measure length") (use read_literal_shorter in fastforce)+

declare read_path.simps [simp del] read_values.simps [simp del]

definition read_clause :: "bytes \<Rightarrow> (bytes list \<times> bool \<times> bytes list) option" where
  "read_clause s =
     do {
       (path, r) \<leftarrow> read_path s;
       (neg, r) \<leftarrow> (case CutPrefix r '' NOT IN ('' of Some r \<Rightarrow> Some (True, r)
                     | None \<Rightarrow> map_option (\<lambda>r. (False, r)) (CutPrefix r '' IN (''));
       (vs, r) \<leftarrow> read_values r;
       if r = [] then Some (path, neg, vs) else None
     }"

section \<open>What is quoted is read back\<close>

lemma escape_fold: "foldl (\<lambda>dest c. dest @ escape_byte c) d s = d @ concat (map escape_byte s)"
  by (induction s arbitrary: d) simp_all

lemma escape_plain: "c \<notin> set special_bytes \<Longrightarrow> escape_byte c = [c]"
  by (simp add: escape_byte_def special_bytes_def)

text \<open>The fast path is the slow one.\<close>

lemma escapeValue_eq: "escapeValue s = concat (map escape_byte s)"
proof (cases "list_ex (\<lambda>c. c \<in> set special_bytes) s")
  case False
  then have "map escape_byte s = map (\<lambda>c. [c]) s" by (auto simp: list_ex_iff escape_plain)
  moreover have "concat (map (\<lambda>c. [c]) s) = s" by simp
  ultimately have "concat (map escape_byte s) = s" by metis
  then show ?thesis using False by (simp add: escapeValue_def)
qed (simp add: escapeValue_def escape_fold)

definition follows :: "char \<Rightarrow> bytes \<Rightarrow> bool" where
  "follows c r \<longleftrightarrow> r = [] \<or> hd r \<noteq> c"

lemma read_end: "follows quote r \<Longrightarrow> read_literal (quote # r) = Some ([], r)"
  by (cases r) (simp_all add: follows_def)

lemma read_escaped: "read_literal (escape_byte c @ x) = map_option (\<lambda>(v, r). (c # v, r)) (read_literal x)"
proof -
  have "read_literal (c # x) = map_option (\<lambda>(v, r). (c # v, r)) (read_literal x)" if "c \<noteq> quote" "c \<noteq> backslash"
    using that by (cases x) simp_all
  then show ?thesis by (simp add: escape_byte_def unescape_def)
qed

lemma read_quoted: "follows quote r \<Longrightarrow> read_literal (escapeValue s @ quote # r) = Some (s, r)"
proof (induction s)
  case Nil
  then show ?case by (simp add: escapeValue_eq read_end)
next
  case (Cons c s)
  then show ?case by (simp add: escapeValue_eq read_escaped)
qed

lemma read_quoted_name:
  "follows backtick r \<Longrightarrow> read_name (ReplaceAll backtick [backtick, backtick] v @ backtick # r) = Some (v, r)"
proof (induction v)
  case Nil
  then show ?case by (cases r) (simp_all add: ReplaceAll_def follows_def)
next
  case (Cons c v)
  have "read_name (c # x) = map_option (\<lambda>(v, r). (c # v, r)) (read_name x)" if "c \<noteq> backtick" for x
    using that by (cases x) simp_all
  then show ?case using Cons by (simp add: ReplaceAll_def)
qed

definition quoted_name :: "bytes \<Rightarrow> bytes" where
  "quoted_name v = [backtick] @ ReplaceAll backtick [backtick, backtick] v @ [backtick]"

lemma read_quoted_path:
  "ps \<noteq> [] \<Longrightarrow> follows backtick r \<Longrightarrow> follows (CHR ''.'') r
     \<Longrightarrow> read_path (join_parts (CHR ''.'') (map quoted_name ps) @ r) = Some (ps, r)"
proof (induction ps)
  case (Cons p ps)
  show ?case
  proof (cases ps)
    case Nil
    have "read_name (ReplaceAll backtick [backtick, backtick] p @ backtick # r) = Some (p, r)"
      by (rule read_quoted_name [OF Cons.prems(2)])
    then show ?thesis using Nil Cons.prems(3)
      by (subst read_path.simps) (auto simp: quoted_name_def follows_def)
  next
    case (Cons q qs)
    define t where "t = join_parts (CHR ''.'') (map quoted_name ps) @ r"
    have "follows backtick (CHR ''.'' # t)" by (simp add: follows_def)
    then have "read_name (ReplaceAll backtick [backtick, backtick] p @ backtick # CHR ''.'' # t) = Some (p, CHR ''.'' # t)"
      by (rule read_quoted_name)
    moreover have "read_path t = Some (ps, r)" using Cons.IH Cons.prems Cons by (simp add: t_def)
    moreover have "join_parts (CHR ''.'') (map quoted_name (p # ps)) @ r
        = backtick # ReplaceAll backtick [backtick, backtick] p @ backtick # CHR ''.'' # t"
      using Cons by (simp add: t_def quoted_name_def)
    ultimately show ?thesis by (subst read_path.simps) simp
  qed
qed simp

lemma read_quoted_values:
  "vs \<noteq> [] \<Longrightarrow> read_values (join_parts (CHR '','') (map defaultQuoteValue vs) @ CHR '')'' # r) = Some (vs, r)"
proof (induction vs)
  case (Cons v vs)
  show ?case
  proof (cases vs)
    case Nil
    have "read_literal (escapeValue v @ quote # CHR '')'' # r) = Some (v, CHR '')'' # r)"
      by (rule read_quoted) (simp add: follows_def)
    then show ?thesis using Nil by (subst read_values.simps) (simp add: defaultQuoteValue_def)
  next
    case (Cons w ws)
    define t where "t = join_parts (CHR '','') (map defaultQuoteValue vs) @ CHR '')'' # r"
    have "read_literal (escapeValue v @ quote # CHR '','' # t) = Some (v, CHR '','' # t)"
      by (rule read_quoted) (simp add: follows_def)
    moreover have "read_values t = Some (vs, r)" using Cons.IH Cons by (simp add: t_def)
    moreover have "join_parts (CHR '','') (map defaultQuoteValue (v # vs)) @ CHR '')'' # r
        = quote # escapeValue v @ quote # CHR '','' # t"
      using Cons by (simp add: t_def defaultQuoteValue_def)
    ultimately show ?thesis by (subst read_values.simps) simp
  qed
qed simp

lemma Split_not_empty: "Split sep s \<noteq> []"
  by (cases s) (simp_all split: list.split)

lemma defaultQuoteID_eq: "s \<noteq> [] \<Longrightarrow> defaultQuoteID s = join_parts (CHR ''.'') (map quoted_name (Split (CHR ''.'') s))"
  by (simp add: defaultQuoteID_def quoted_name_def [abs_def])

lemma formatStrings_default: "quoteValueFunc c = Some f \<Longrightarrow> formatStrings c vs = Some (map f vs)"
  by (induction vs) (simp_all add: QuoteValue_def)

end
