(* ===== verification/SQ_Props.thy ===== *)
theory SQ_Props
  imports SQ_Util
begin

text \<open>The texts of \<^verbatim>\<open>pkg/sqlutil\<close> are read by MySQL as what was quoted.\<close>

section \<open>Configuration\<close>

lemma sql_New_default: "sql_New [] = Inr defaultSQLUtil"
  by (simp add: sql_New_def sql_validate_def defaultSQLUtil_def)

text \<open>What \<^verbatim>\<open>New\<close> returns has both functions, so that no method panics; a nil function is an error.\<close>

lemma sql_New_complete:
  "case sql_New opts of
     Inr c \<Rightarrow> quoteIDFunc c \<noteq> None \<and> quoteValueFunc c \<noteq> None
   | Inl _ \<Rightarrow> WithQuoteIDFunc None \<in> set opts \<or> WithQuoteValueFunc None \<in> set opts"
proof -
  let ?run = "foldl (\<lambda>c applyOpt. apply_sql_option applyOpt c)"
  have step: "quoteIDFunc c0 \<noteq> None \<Longrightarrow> quoteValueFunc c0 \<noteq> None
      \<Longrightarrow> (quoteIDFunc (?run c0 opts) \<noteq> None \<and> quoteValueFunc (?run c0 opts) \<noteq> None)
        \<or> WithQuoteIDFunc None \<in> set opts \<or> WithQuoteValueFunc None \<in> set opts" for c0
  proof (induction opts arbitrary: c0)
    case (Cons a opts)
    show ?case
    proof (cases "a = WithQuoteIDFunc None \<or> a = WithQuoteValueFunc None")
      case False
      then have "quoteIDFunc (apply_sql_option a c0) \<noteq> None" "quoteValueFunc (apply_sql_option a c0) \<noteq> None"
        using Cons.prems by (cases a; auto)+
      then show ?thesis using Cons.IH [of "apply_sql_option a c0"] by auto
    qed auto
  qed simp
  define c where "c = ?run defaultSQLUtil opts"
  have "(quoteIDFunc c \<noteq> None \<and> quoteValueFunc c \<noteq> None)
      \<or> WithQuoteIDFunc None \<in> set opts \<or> WithQuoteValueFunc None \<in> set opts"
    unfolding c_def by (rule step) (simp_all add: defaultSQLUtil_def)
  then show ?thesis
    by (auto simp: sql_New_def Let_def sql_validate_def c_def [symmetric] split: option.split)
qed

section \<open>Reading back\<close>

lemma clause_path: "CutPrefix ('' NOT IN ('' @ x) '' NOT IN ('' = Some x" "CutPrefix ('' IN ('' @ x) '' NOT IN ('' = None"
    "CutPrefix ('' IN ('' @ x) '' IN ('' = Some x"
  by (simp_all add: CutPrefix_def numeral_eq_Suc)

lemma read_clauseI:
  "read_path t = Some (path, r) \<Longrightarrow>
     (case CutPrefix r '' NOT IN ('' of Some r \<Rightarrow> Some (True, r)
      | None \<Rightarrow> map_option (\<lambda>r. (False, r)) (CutPrefix r '' IN ('')) = Some (neg, r')
     \<Longrightarrow> read_values r' = Some (vs, []) \<Longrightarrow> read_clause t = Some (path, neg, vs)"
  by (simp add: read_clause_def)

text \<open>
  C8. With the default configuration, the text that quotes a value is one string literal of MySQL, whatever
  bytes the value has and also when more text follows, and its value is the value that was quoted. An \<^verbatim>\<open>IN\<close> clause over strings is read as the names
  between the dots of the field, the kind of the clause and exactly the given values, with nothing left over; for no
  values it is a condition that is never true, or always for \<^verbatim>\<open>NOT IN\<close>. So nothing that is quoted becomes part of the
  statement around it. No call panics.
\<close>

theorem quoted_values_contained:
  "case sql_New [] of Inl _ \<Rightarrow> False | Inr c \<Rightarrow>
     (\<exists>t. QuoteValue c s = Some (quote # t) \<and> read_literal t = Some (s, [])
        \<and> read_literal (t @ CHR '' '' # rest) = Some (s, CHR '' '' # rest))
     \<and> (if field = [] then QuoteID c field = Some []
        else \<exists>t. QuoteID c field = Some t \<and> read_path t = Some (Split (CHR ''.'') field, []))
     \<and> (if vs = [] then BuildInClauseString c field vs = Some ''1 = 0'' \<and> BuildNotInClauseString c field vs = Some ''1 = 1''
        else if field = [] then BuildInClauseString c field vs \<noteq> None \<and> BuildNotInClauseString c field vs \<noteq> None
        else (\<exists>t. BuildInClauseString c field vs = Some t \<and> read_clause t = Some (Split (CHR ''.'') field, False, vs))
           \<and> (\<exists>t. BuildNotInClauseString c field vs = Some t \<and> read_clause t = Some (Split (CHR ''.'') field, True, vs)))"
proof -
  let ?c = defaultSQLUtil
  have q: "QuoteValue ?c s = Some (quote # escapeValue s @ [quote])"
    by (simp add: QuoteValue_def defaultSQLUtil_def defaultQuoteValue_def)
  have l: "read_literal (escapeValue s @ [quote]) = Some (s, [])"
      "read_literal ((escapeValue s @ [quote]) @ CHR '' '' # rest) = Some (s, CHR '' '' # rest)"
    using read_quoted [of "CHR '' '' # rest" s] read_quoted [of "[]" s] by (simp_all add: follows_def)
  have i: "QuoteID ?c field = Some (defaultQuoteID field)" by (simp add: QuoteID_def defaultSQLUtil_def)
  have p: "read_path (defaultQuoteID field @ r) = Some (Split (CHR ''.'') field, r)"
    if "field \<noteq> []" "follows backtick r" "follows (CHR ''.'') r" for r
    unfolding defaultQuoteID_eq [OF that(1)] by (rule read_quoted_path [OF Split_not_empty that(2,3)])
  have f: "formatStrings ?c vs = Some (map defaultQuoteValue vs)"
    by (rule formatStrings_default) (simp add: defaultSQLUtil_def)
  have b: "BuildInClauseString ?c field vs = Some (defaultQuoteID field @ '' IN ('' @ join_parts (CHR '','') (map defaultQuoteValue vs) @ '')'')"
      "BuildNotInClauseString ?c field vs = Some (defaultQuoteID field @ '' NOT IN ('' @ join_parts (CHR '','') (map defaultQuoteValue vs) @ '')'')"
    if "vs \<noteq> []"
    using that by (simp_all add: BuildInClauseString_def BuildNotInClauseString_def composeInClause_def f i
        sqlConditionIn_def sqlConditionNotIn_def)
  have v: "read_values (join_parts (CHR '','') (map defaultQuoteValue vs) @ '')'') = Some (vs, [])" if "vs \<noteq> []"
    using read_quoted_values [OF that, of "[]"] by simp
  have rc: "read_clause (defaultQuoteID field @ '' IN ('' @ join_parts (CHR '','') (map defaultQuoteValue vs) @ '')'')
        = Some (Split (CHR ''.'') field, False, vs)"
      "read_clause (defaultQuoteID field @ '' NOT IN ('' @ join_parts (CHR '','') (map defaultQuoteValue vs) @ '')'')
        = Some (Split (CHR ''.'') field, True, vs)" if "vs \<noteq> []" "field \<noteq> []"
    by (rule read_clauseI [OF p]; use that v [OF that(1)] clause_path in \<open>simp add: follows_def\<close>)+
  have e: "BuildInClauseString ?c field [] = Some ''1 = 0''" "BuildNotInClauseString ?c field [] = Some ''1 = 1''"
    by (simp_all add: BuildInClauseString_def BuildNotInClauseString_def composeInClause_def sqlConditionIn_def
        sqlConditionNotIn_def sqlMatchNone_def sqlMatchAll_def)
  have "if field = [] then QuoteID ?c field = Some []
        else \<exists>t. QuoteID ?c field = Some t \<and> read_path t = Some (Split (CHR ''.'') field, [])"
    using p [of "[]"] i by (cases "field = []") (simp_all add: follows_def, simp add: defaultQuoteID_def)
  moreover have "if vs = [] then BuildInClauseString ?c field vs = Some ''1 = 0'' \<and> BuildNotInClauseString ?c field vs = Some ''1 = 1''
        else if field = [] then BuildInClauseString ?c field vs \<noteq> None \<and> BuildNotInClauseString ?c field vs \<noteq> None
        else (\<exists>t. BuildInClauseString ?c field vs = Some t \<and> read_clause t = Some (Split (CHR ''.'') field, False, vs))
           \<and> (\<exists>t. BuildNotInClauseString ?c field vs = Some t \<and> read_clause t = Some (Split (CHR ''.'') field, True, vs))"
    using b rc e by auto
  ultimately show ?thesis unfolding sql_New_default sum.case using q l by blast
qed

text \<open>Numbers need no quoting: their texts are digits behind at most one sign.\<close>

lemma formatInt_chars: "c \<in> set (FormatInt v) \<Longrightarrow> c = CHR ''-'' \<or> (48 \<le> byte_val c \<and> byte_val c \<le> 57)"
  by (auto simp: FormatInt_def dest: format_digits split: if_splits)

end
