(* ===== verification/DI_Decint.thy ===== *)
theory DI_Decint
  imports Go_Format Go_Float "HOL-Library.Word"
begin

text \<open>
  \<^verbatim>\<open>pkg/decint\<close>: decimal numbers with six places as integers, converted from and to \<^verbatim>\<open>float64\<close> and text. The
  parser of floating-point numerals, \<^verbatim>\<open>strconv.ParseFloat\<close>, is an argument; \<open>None\<close> as the result of a
  conversion to an integer is a value that Go leaves open.
\<close>

section \<open>Floating point\<close>

fun float_div :: "float64 \<Rightarrow> float64 \<Rightarrow> float64" where
  "float_div (Fin a) (Fin b) = (if b = 0 then (if a = 0 then NaN else Inf (a < 0)) else fround (a / b))"
| "float_div (Inf s) (Fin b) = Inf (s \<noteq> (b < 0))"
| "float_div (Fin a) (Inf s) = Fin 0"
| "float_div _ _ = NaN"

definition float_le :: "float64 \<Rightarrow> float64 \<Rightarrow> bool" where
  "float_le x y \<longleftrightarrow> float_less x y \<or> (x = y \<and> x \<noteq> NaN)"

text \<open>\<^verbatim>\<open>math.Round\<close>: to the nearest integer, halves away from zero.\<close>

fun math_Round :: "float64 \<Rightarrow> float64" where
  "math_Round (Fin a) = Fin (sgn a * of_int \<lfloor>\<bar>a\<bar> + 1 / 2\<rfloor>)"
| "math_Round x = x"

section \<open>Definitions\<close>

definition precision :: float64 where "precision = Fin 1000000"
definition scale :: "64 word" where "scale = 1000000"
definition MaxInt :: int where "MaxInt = 8589934592000000"
definition MaxFloat :: rat where "MaxFloat = 8589934592"

datatype dec_error = ErrInvalidNumber | ErrOutOfRange

definition IsInf :: "float64 \<Rightarrow> bool" where
  "IsInf v = (case v of Inf _ \<Rightarrow> True | _ \<Rightarrow> False)"

definition FloatToInt :: "float64 \<Rightarrow> int option" where
  "FloatToInt v =
     (if IsNaN v then Some 0
      else if float_le (Fin MaxFloat) v then Some MaxInt
      else if float_le v (Fin (- MaxFloat)) then Some (- MaxInt)
      else float_trunc (math_Round (float_mul v precision)))"

definition IntToFloat :: "int \<Rightarrow> float64" where
  "IntToFloat v = float_div (float_of_int v) precision"

definition StringToInt :: "(bytes \<Rightarrow> float64 option) \<Rightarrow> bytes \<Rightarrow> dec_error + int option" where
  "StringToInt ParseFloat s =
     (case ParseFloat s of
        None \<Rightarrow> Inl ErrInvalidNumber
      | Some v \<Rightarrow>
          if IsNaN v \<or> IsInf v then Inl ErrInvalidNumber
          else if float_less (Fin MaxFloat) v \<or> float_less v (Fin (- MaxFloat)) then Inl ErrOutOfRange
          else Inr (FloatToInt v))"

text \<open>\<^verbatim>\<open>%d.%06d\<close>.\<close>

definition pad6 :: "bytes \<Rightarrow> bytes" where
  "pad6 s = replicate (6 - length s) (CHR ''0'') @ s"

definition IntToString :: "int \<Rightarrow> bytes" where
  "IntToString v =
     (let u = (word_of_int v :: 64 word);
          (sign, u) = (if v < 0 then (''-'', - u) else ([], u))
      in sign @ FormatUint 10 (unat (u div scale)) @ ''.'' @ pad6 (FormatUint 10 (unat (u mod scale))))"

definition FloatToUint :: "float64 \<Rightarrow> int option" where
  "FloatToUint v =
     (if IsNaN v then Some 0
      else if float_le v (Fin 0) then Some 0
      else if float_le (Fin MaxFloat) v then Some MaxInt
      else float_trunc (math_Round (float_mul v precision)))"

definition UintToFloat :: "64 word \<Rightarrow> float64" where
  "UintToFloat v = float_div (float_of_int (uint v)) precision"

definition StringToUint :: "(bytes \<Rightarrow> float64 option) \<Rightarrow> bytes \<Rightarrow> dec_error + int option" where
  "StringToUint ParseFloat s =
     (case ParseFloat s of
        None \<Rightarrow> Inl ErrInvalidNumber
      | Some v \<Rightarrow>
          if IsNaN v \<or> IsInf v then Inl ErrInvalidNumber
          else if float_less (Fin MaxFloat) v then Inl ErrOutOfRange
          else Inr (FloatToUint v))"

definition UintToString :: "64 word \<Rightarrow> bytes" where
  "UintToString v = FormatUint 10 (unat (v div scale)) @ ''.'' @ pad6 (FormatUint 10 (unat (v mod scale)))"

section \<open>How far rounding moves a value\<close>

lemma half_even_near: "\<bar>of_int (half_even q) - q\<bar> \<le> 1 / 2" for q :: rat
proof -
  have "of_int \<lfloor>q\<rfloor> \<le> q" "q < of_int \<lfloor>q\<rfloor> + 1" by linarith+
  then show ?thesis by (simp add: half_even_def Let_def abs_le_iff)
qed

lemma round_pos_near:
  assumes "0 < x"
  shows "\<bar>round_pos x - x\<bar> \<le> 2 powi last_place x / 2"
proof -
  let ?u = "2 powi last_place x :: rat"
  have "round_pos x - x = (of_int (half_even (x / ?u)) - x / ?u) * ?u" by (simp add: round_pos_def field_simps)
  then have "\<bar>round_pos x - x\<bar> = \<bar>of_int (half_even (x / ?u)) - x / ?u\<bar> * ?u" by (simp add: abs_mult)
  also have "\<dots> \<le> 1 / 2 * ?u" by (rule mult_right_mono [OF half_even_near]) simp
  finally show ?thesis by simp
qed

lemma last_place_le:
  assumes "0 < x" "x < 2 powi (m + 53)" "- 1074 \<le> m"
  shows "last_place x \<le> m"
proof -
  have "(2 :: rat) powi lead x < 2 powi (m + 53)" using lead_bounds(1) [OF assms(1)] assms(2) by (rule le_less_trans)
  then have "lead x < m + 53" by (simp add: powi_le_iff flip: not_le)
  then show ?thesis using assms(3) by (simp add: last_place_def)
qed

lemma round_pos_error:
  assumes "0 < x" "x < 2 powi (m + 53)" "- 1074 \<le> m"
  shows "\<bar>round_pos x - x\<bar> \<le> 2 powi m / 2"
proof -
  have "(2 :: rat) powi last_place x \<le> 2 powi m" using last_place_le [OF assms] by (simp add: powi_le_iff)
  then show ?thesis using round_pos_near [OF assms(1)] by linarith
qed

text \<open>At 52 bits and more the rounded value is an integer, the nearest one.\<close>

lemma round_pos_integer:
  assumes "2 ^ 52 \<le> x" "x < 2 ^ 53" "\<bar>x - of_int n\<bar> < 1 / 2"
  shows "round_pos x = of_int n"
proof -
  have "(2 :: rat) powi 52 \<le> x" "x < 2 powi (52 + 1)" using assms(1,2) by simp_all
  then have "lead x = 52" by (rule lead_eq)
  then have r: "round_pos x = of_int (half_even x)" by (simp add: round_pos_def last_place_def)
  have "\<bar>of_int (half_even x) - of_int n\<bar> < (1 :: rat)" using half_even_near [of x] assms(3) by linarith
  then have "(of_int \<bar>half_even x - n\<bar> :: rat) < of_int 1" by simp
  then have "half_even x = n" by (simp only: of_int_less_iff)
  then show ?thesis using r by simp
qed

lemma fround_pos: "0 < x \<Longrightarrow> round_pos x < 2 ^ 1024 \<Longrightarrow> fround x = Fin (round_pos x)"
  by (simp add: fround_def)

lemma fround_neg: "0 < x \<Longrightarrow> round_pos x < 2 ^ 1024 \<Longrightarrow> fround (- x) = Fin (- round_pos x)"
  by (simp add: fround_def)

lemma big: "x \<le> 2 ^ 60 \<Longrightarrow> x < (2 :: rat) ^ 1024"
proof -
  have "(2 :: rat) ^ 60 < 2 ^ 1024" by (rule power_strict_increasing) simp_all
  then show "x \<le> 2 ^ 60 \<Longrightarrow> x < (2 :: rat) ^ 1024" by (rule le_less_trans [rotated])
qed

section \<open>There and back\<close>

text \<open>The value in the middle and the one before the last rounding.\<close>

abbreviation as_float :: "int \<Rightarrow> rat" where "as_float v \<equiv> round_pos (of_int v / 1000000)"
abbreviation scaled :: "int \<Rightarrow> rat" where "scaled v \<equiv> round_pos (as_float v * 1000000)"

lemma as_float_error:
  assumes "0 < v" "of_int v / 1000000 < (2 :: rat) powi (m + 53)" "- 1074 \<le> m"
  shows "\<bar>as_float v * 1000000 - of_int v\<bar> \<le> 1000000 * (2 powi m / 2)"
proof -
  have "\<bar>as_float v - of_int v / 1000000\<bar> \<le> 2 powi m / 2" using assms by (intro round_pos_error) simp_all
  moreover have e: "as_float v * 1000000 - of_int v = (as_float v - of_int v / 1000000) * 1000000" by (simp add: field_simps)
  moreover have "\<bar>as_float v * 1000000 - of_int v\<bar> = \<bar>as_float v - of_int v / 1000000\<bar> * 1000000" by (simp only: e abs_mult abs_numeral)
  ultimately show ?thesis by linarith
qed

lemma scaled_low:
  assumes "0 < v" "v < 2 ^ 32 * 1000000"
  shows "\<bar>scaled v - of_int v\<bar> < 1 / 2 \<and> 0 < as_float v \<and> as_float v < 2 ^ 33"
proof -
  have "(of_int v :: rat) < of_int (2 ^ 32 * 1000000)" using assms(2) by (simp only: of_int_less_iff)
  then have v: "(1 :: rat) \<le> of_int v" "(of_int v :: rat) < 4294967296000000" using assms(1) by simp_all
  have "(of_int v / 1000000 :: rat) < 2 powi (- 21 + 53)" using v by simp
  then have e: "\<bar>as_float v * 1000000 - of_int v\<bar> \<le> 1000000 * (2 powi (- 21) / 2)" by (rule as_float_error [OF assms(1)]) simp
  have "(2 :: rat) powi (- 21) = 1 / 2097152" by (simp add: power_int_minus)
  then have e: "\<bar>as_float v * 1000000 - of_int v\<bar> \<le> 1000000 / 4194304" using e by simp
  have "0 < as_float v * 1000000" "as_float v * 1000000 < 4503599627370496" using e v by linarith+
  then have p: "0 < as_float v * 1000000" "as_float v * 1000000 < 2 powi (- 1 + 53)" by simp_all
  have "\<bar>scaled v - as_float v * 1000000\<bar> \<le> 2 powi (- 1) / 2" by (rule round_pos_error [OF p]) simp
  then have z: "\<bar>scaled v - as_float v * 1000000\<bar> \<le> 1 / 4" by simp
  have "\<bar>scaled v - of_int v\<bar> < 1 / 2" using z e by linarith
  moreover have "as_float v < 8589934592" using e v(2) by linarith
  moreover have "0 < as_float v" using p(1) by simp
  ultimately show ?thesis by simp
qed

lemma scaled_high:
  assumes "2 ^ 52 < v" "v < MaxInt"
  shows "scaled v = of_int v \<and> 0 < as_float v \<and> as_float v < 2 ^ 33"
proof -
  have "(of_int (2 ^ 52 + 1) :: rat) \<le> of_int v" "(of_int v :: rat) \<le> of_int (MaxInt - 1)"
    using assms by (simp_all only: of_int_le_iff)
  then have v: "(4503599627370497 :: rat) \<le> of_int v" "(of_int v :: rat) \<le> 8589934591999999" by (simp_all add: MaxInt_def)
  have "(of_int v / 1000000 :: rat) < 2 powi (- 20 + 53)" using v by simp
  then have e: "\<bar>as_float v * 1000000 - of_int v\<bar> \<le> 1000000 * (2 powi (- 20) / 2)" by (rule as_float_error [rotated]) (use assms(1) in simp_all)
  have "(2 :: rat) powi (- 20) = 1 / 1048576" by (simp add: power_int_minus)
  then have e: "\<bar>as_float v * 1000000 - of_int v\<bar> \<le> 1000000 / 2097152" using e by simp
  then have p: "as_float v * 1000000 \<le> of_int v + 1 / 2" "of_int v - 1 / 2 \<le> as_float v * 1000000"
    by linarith+
  have "scaled v = of_int v"
  proof (rule round_pos_integer)
    show "2 ^ 52 \<le> as_float v * 1000000" using p(2) v(1) by simp
    show "as_float v * 1000000 < 2 ^ 53" using p(1) v(2) by simp
    show "\<bar>as_float v * 1000000 - of_int v\<bar> < 1 / 2" using e by linarith
  qed
  moreover have "0 < as_float v" using p(2) v(1) by simp
  moreover have "as_float v * 1000000 < 2 ^ 33 * 1000000" using p(1) v(2) by simp
  ultimately show ?thesis by simp
qed

lemma IntToFloat_pos: "0 < v \<Longrightarrow> v \<le> 2 ^ 53 \<Longrightarrow> as_float v \<le> 2 ^ 33 \<Longrightarrow> IntToFloat v = Fin (as_float v)"
  by (simp add: IntToFloat_def float_of_int_small precision_def fround_pos big)

lemma IntToFloat_neg: "0 < v \<Longrightarrow> v \<le> 2 ^ 53 \<Longrightarrow> as_float v \<le> 2 ^ 33 \<Longrightarrow> IntToFloat (- v) = Fin (- as_float v)"
  using fround_neg [of "of_int v / 1000000"] by (simp add: IntToFloat_def float_of_int_small precision_def big)

lemma as_float_range: "0 < v \<Longrightarrow> v \<le> MaxInt \<Longrightarrow> 0 \<le> as_float v \<and> as_float v \<le> 2 ^ 33"
proof -
  assume v: "0 < v" "v \<le> MaxInt"
  have "(of_int v :: rat) \<le> of_int MaxInt" using v(2) by (simp only: of_int_le_iff)
  then have "of_int v / 1000000 \<le> (2 :: rat) ^ 33" by (simp add: MaxInt_def)
  then have "as_float v \<le> 2 ^ 33" by (rule round_pos_le [OF representable_power]) (use v(1) in simp)
  moreover have "0 \<le> as_float v" using v(1) by (auto simp: round_pos_def half_even_def Let_def)
  ultimately show ?thesis by simp
qed

text \<open>The last conversion, for a value inside the range.\<close>

lemma round_near: "\<bar>z - of_int v\<bar> < 1 / 2 \<Longrightarrow> \<lfloor>z + 1 / 2\<rfloor> = v" for z :: rat
  by (rule floor_unique; linarith)

lemma FloatToInt_inside:
  assumes "0 < a" "a < MaxFloat"
  defines "n \<equiv> \<lfloor>round_pos (a * 1000000) + 1 / 2\<rfloor>"
  shows "FloatToInt (Fin a) = Some n \<and> FloatToInt (Fin (- a)) = Some (- n) \<and> 0 \<le> n \<and> n \<le> MaxInt"
proof -
  let ?z = "round_pos (a * 1000000)"
  have pos: "0 < a * 1000000" using assms(1) by simp
  have "a * 1000000 \<le> of_int MaxInt" using assms(2) by (simp add: MaxFloat_def MaxInt_def)
  then have z: "?z \<le> of_int MaxInt" by (rule round_pos_le [OF representable_of_int _ pos, rotated]) (simp add: MaxInt_def)
  have z0: "0 \<le> ?z" using assms(1) by (auto simp: round_pos_def half_even_def Let_def)
  have "?z < 2 ^ 1024" using z by (intro big) (simp add: MaxInt_def)
  then have f: "fround (a * 1000000) = Fin ?z" "fround (- (a * 1000000)) = Fin (- ?z)"
    using fround_pos [OF pos] fround_neg [OF pos] by auto
  have "n \<le> \<lfloor>of_int MaxInt + 1 / 2 :: rat\<rfloor>" unfolding n_def by (rule floor_mono) (use z in simp)
  moreover have "\<lfloor>of_int MaxInt + 1 / 2 :: rat\<rfloor> = MaxInt" by (rule floor_unique) simp_all
  ultimately have n: "0 \<le> n" "n \<le> MaxInt" using z0 by (simp_all add: n_def)
  have r: "math_Round (Fin ?z) = Fin (of_int n)" "math_Round (Fin (- ?z)) = Fin (of_int (- n))"
  proof -
    have "\<lfloor>1 / 2 :: rat\<rfloor> = 0" by (rule floor_unique) simp_all
    then have "?z = 0 \<Longrightarrow> n = 0" by (simp add: n_def)
    then show "math_Round (Fin ?z) = Fin (of_int n)" "math_Round (Fin (- ?z)) = Fin (of_int (- n))"
      using z0 by (cases "?z = 0"; simp add: n_def [symmetric] sgn_if)+
  qed
  have t: "float_trunc (Fin (of_int n)) = Some n" "float_trunc (Fin (of_int (- n))) = Some (- n)"
    using n by (auto simp: MaxInt_def Let_def)
  have c: "\<not> float_le (Fin MaxFloat) (Fin a)" "\<not> float_le (Fin a) (Fin (- MaxFloat))"
      "\<not> float_le (Fin MaxFloat) (Fin (- a))" "\<not> float_le (Fin (- a)) (Fin (- MaxFloat))"
    using assms(1,2) by (auto simp: float_le_def MaxFloat_def)
  show ?thesis using n f r t c by (simp add: FloatToInt_def IsNaN_def precision_def)
qed

text \<open>Every value converts, to an integer of the safe range.\<close>

lemma FloatToInt_total: "\<exists>n. FloatToInt v = Some n \<and> \<bar>n\<bar> \<le> MaxInt"
proof -
  have M: "0 \<le> MaxInt" by (simp add: MaxInt_def)
  consider "IsNaN v" | "float_le (Fin MaxFloat) v" | "float_le v (Fin (- MaxFloat))"
    | a where "v = Fin a" "\<bar>a\<bar> < MaxFloat"
  proof (cases v)
    case (Fin a)
    have "MaxFloat < a \<or> MaxFloat = a \<or> a < - MaxFloat \<or> a = - MaxFloat \<or> \<bar>a\<bar> < MaxFloat" by linarith
    then show thesis using that Fin by (auto simp: float_le_def)
  next
    case (Inf s)
    then show thesis using that(2,3) by (cases s) (simp_all add: float_le_def)
  qed (use that in \<open>simp add: IsNaN_def\<close>)
  then show ?thesis
  proof cases
    case (4 a)
    consider "a = 0" | "0 < a" | "0 < - a" by linarith
    then show ?thesis
    proof cases
      case 1
      then show ?thesis using 4 M by (simp add: FloatToInt_def IsNaN_def float_le_def MaxFloat_def precision_def fround_def)
    next
      case 2
      then show ?thesis using FloatToInt_inside [of a] 4 by auto
    next
      case 3
      then show ?thesis using FloatToInt_inside [of "- a"] 4 by auto
    qed
  qed (use M in \<open>auto simp: FloatToInt_def\<close>)
qed

lemma roundtrip_pos:
  assumes "0 < v" "v < 2 ^ 32 * 1000000 \<or> 2 ^ 52 < v \<and> v \<le> MaxInt"
  shows "FloatToInt (IntToFloat v) = Some v \<and> FloatToInt (IntToFloat (- v)) = Some (- v)"
proof (cases "v = MaxInt")
  case True
  have "as_float MaxInt = 2 ^ 33"
    using round_pos_exact [OF representable_power [of 33]] by (simp add: MaxInt_def)
  then show ?thesis using IntToFloat_pos [of MaxInt] IntToFloat_neg [of MaxInt]
    unfolding True by (simp add: MaxInt_def FloatToInt_def IsNaN_def float_le_def MaxFloat_def)
next
  case False
  have h: "\<bar>scaled v - of_int v\<bar> < 1 / 2" "0 < as_float v" "as_float v < 2 ^ 33"
    using scaled_low [OF assms(1)] scaled_high [of v] assms(2) False by auto
  have "v \<le> 2 ^ 53" using assms(2) by (auto simp: MaxInt_def)
  then have i: "IntToFloat v = Fin (as_float v)" "IntToFloat (- v) = Fin (- as_float v)"
    using IntToFloat_pos IntToFloat_neg assms(1) h(3) by simp_all
  have "as_float v < MaxFloat" using h(3) by (simp add: MaxFloat_def)
  then show ?thesis using FloatToInt_inside [OF h(2)] round_near [OF h(1)] i by simp
qed

section \<open>Text\<close>

text \<open>The value of a plain decimal numeral.\<close>

definition plain_decimal :: "bytes \<Rightarrow> rat option" where
  "plain_decimal s =
     (let neg = (s \<noteq> [] \<and> hd s = CHR ''-''); body = (if neg then tl s else s)
      in case SplitN (CHR ''.'') 2 body of
           [a, b] \<Rightarrow>
             (case (digits_val a 0, digits_val b 0) of
                (Some x, Some y) \<Rightarrow>
                  if a = [] \<or> b = [] then None
                  else Some ((if neg then - 1 else 1) * (of_nat x + of_nat y / 10 ^ length b))
              | _ \<Rightarrow> None)
         | _ \<Rightarrow> None)"

lemma digits_no_dot: "CHR ''.'' \<notin> set (FormatUint 10 n)" "CHR ''-'' \<notin> set (FormatUint 10 n)"
  using format_digits [of _ n] by force+

lemma plain_decimal_fields:
  assumes "m < 1000000"
  shows "plain_decimal (FormatUint 10 k @ ''.'' @ pad6 (FormatUint 10 m)) = Some (of_nat k + of_nat m / 1000000)"
    and "plain_decimal (''-'' @ FormatUint 10 k @ ''.'' @ pad6 (FormatUint 10 m)) = Some (- (of_nat k + of_nat m / 1000000))"
proof -
  let ?s = "FormatUint 10 k @ ''.'' @ pad6 (FormatUint 10 m)"
  have l: "length (pad6 (FormatUint 10 m)) = 6" using format_length [of 6 m] assms by (simp add: pad6_def)
  have d: "digits_val (pad6 (FormatUint 10 m)) 0 = Some m" by (simp add: pad6_def digits_val_zeros)
  have "CHR ''.'' \<notin> set (pad6 (FormatUint 10 m))" using digits_no_dot by (auto simp: pad6_def)
  then have "SplitN (CHR ''.'') 2 (join_parts (CHR ''.'') [FormatUint 10 k, pad6 (FormatUint 10 m)])
      = [FormatUint 10 k, pad6 (FormatUint 10 m)]"
    using digits_no_dot by (intro SplitN_join) auto
  then have sp: "SplitN (CHR ''.'') 2 ?s = [FormatUint 10 k, pad6 (FormatUint 10 m)]" by simp
  have h: "hd ?s \<noteq> CHR ''-''" using digits_no_dot(2) [of k] by (cases "FormatUint 10 k") auto
  have ne: "pad6 (FormatUint 10 m) \<noteq> []" by (simp add: pad6_def)
  show "plain_decimal ?s = Some (of_nat k + of_nat m / 1000000)"
    unfolding plain_decimal_def Let_def using h sp d l ne by simp
  show "plain_decimal (''-'' @ ?s) = Some (- (of_nat k + of_nat m / 1000000))"
    unfolding plain_decimal_def Let_def using sp d l ne by simp
qed

lemma magnitude:
  assumes "- (2 ^ 63) \<le> v" "v < 2 ^ 63"
  shows "unat (if v < 0 then - (word_of_int v :: 64 word) else word_of_int v) = nat \<bar>v\<bar>"
proof -
  have u: "uint (word_of_int k :: 64 word) = k" if "0 \<le> k" "k < 2 ^ 64" for k
    using that by (simp add: uint_word_of_int)
  have n: "- (word_of_int v :: 64 word) = word_of_int (- v)" by simp
  show ?thesis using u [of v] u [of "- v"] assms
    by (cases "v < 0") (simp_all only: n if_True if_False unat_eq_nat_uint, simp_all)
qed

lemma IntToString_value:
  assumes "- (2 ^ 63) \<le> v" "v < 2 ^ 63"
  shows "plain_decimal (IntToString v) = Some (of_int v / 1000000)"
proof -
  define n where "n = nat \<bar>v\<bar>"
  have s: "unat scale = 1000000" by (simp add: scale_def)
  have e: "IntToString v = (if v < 0 then ''-'' else []) @ FormatUint 10 (n div 1000000) @ ''.'' @ pad6 (FormatUint 10 (n mod 1000000))"
    using magnitude [OF assms] s by (cases "v < 0") (simp_all add: IntToString_def Let_def n_def unat_div unat_mod)
  have "(of_nat n :: rat) = of_nat (n div 1000000 * 1000000 + n mod 1000000)" by (simp only: div_mult_mod_eq)
  then have "(of_nat n :: rat) = of_nat (n div 1000000) * 1000000 + of_nat (n mod 1000000)"
    by (simp only: of_nat_add of_nat_mult of_nat_numeral)
  moreover have "(of_nat n :: rat) = \<bar>of_int v\<bar>" by (simp add: n_def)
  ultimately have r: "(of_nat (n div 1000000) + of_nat (n mod 1000000) / 1000000 :: rat) = \<bar>of_int v\<bar> / 1000000" by linarith
  show ?thesis unfolding e using plain_decimal_fields [of "n mod 1000000" "n div 1000000"] r
    by (cases "v < 0") simp_all
qed

text \<open>\<^verbatim>\<open>ParseFloat\<close> returns the nearest value of the numeral that it reads.\<close>

definition ParseFloat_nearest :: "(bytes \<Rightarrow> float64 option) \<Rightarrow> bool" where
  "ParseFloat_nearest ParseFloat \<longleftrightarrow>
     (\<forall>s q. plain_decimal s = Some q \<longrightarrow> \<bar>q\<bar> < 2 ^ 1000 \<longrightarrow> ParseFloat s = Some (fround q))"

end
