(* ===== verification/DI_Props.thy ===== *)
theory DI_Props
  imports DI_Decint
begin

text \<open>The conversions of \<^verbatim>\<open>pkg/decint\<close>, there and back: where they are exact and where they are not.\<close>

lemma parse_printed:
  assumes "ParseFloat_nearest ParseFloat" "\<bar>v\<bar> \<le> MaxInt"
  shows "StringToInt ParseFloat (IntToString v)
     = (if IntToFloat v = NaN \<or> IsInf (IntToFloat v) then Inl ErrInvalidNumber
        else if float_less (Fin MaxFloat) (IntToFloat v) \<or> float_less (IntToFloat v) (Fin (- MaxFloat)) then Inl ErrOutOfRange
        else Inr (FloatToInt (IntToFloat v)))"
proof -
  have v: "- (2 ^ 63) \<le> v" "v < 2 ^ 63" "\<bar>v\<bar> \<le> 2 ^ 53" using assms(2) by (simp_all add: MaxInt_def abs_le_iff)
  have "(\<bar>of_int v\<bar> :: rat) \<le> of_int MaxInt" using assms(2) by (simp only: of_int_le_iff flip: of_int_abs)
  then have "\<bar>of_int v / 1000000 :: rat\<bar> \<le> 2 ^ 60" by (simp add: MaxInt_def)
  also have "(2 :: rat) ^ 60 < 2 ^ 1000" by (rule power_strict_increasing) simp_all
  finally have "ParseFloat (IntToString v) = Some (fround (of_int v / 1000000))"
    using assms(1) IntToString_value [OF v(1,2)] unfolding ParseFloat_nearest_def by blast
  moreover have "fround (of_int v / 1000000) = IntToFloat v"
    using float_of_int_small [OF v(3)] by (simp add: IntToFloat_def precision_def)
  ultimately show ?thesis by (simp add: StringToInt_def IsNaN_def)
qed

text \<open>
  C31. Six decimal places survive the way through \<^verbatim>\<open>float64\<close> and through text: an integer below \<open>2 ^ 32\<close> units, or
  from \<open>2 ^ 52\<close> millionths to the end of the safe range, of either sign, is converted to a float and back
  unchanged, and its text, for every 64-bit integer the exact decimal numeral, is parsed back to it. Every float, also
  infinities and NaN, converts to an integer of the safe range. \<^verbatim>\<open>strconv.ParseFloat\<close> is relied on to return the
  nearest float.
\<close>

theorem decint_roundtrip:
  assumes "ParseFloat_nearest ParseFloat"
    and "\<bar>v\<bar> < 2 ^ 32 * 1000000 \<or> 2 ^ 52 < \<bar>v\<bar> \<and> \<bar>v\<bar> \<le> MaxInt" and "- (2 ^ 63) \<le> w" and "w < 2 ^ 63"
  shows "FloatToInt (IntToFloat v) = Some v \<and> StringToInt ParseFloat (IntToString v) = Inr (Some v)
     \<and> plain_decimal (IntToString w) = Some (of_int w / 1000000)
     \<and> (\<exists>n. FloatToInt x = Some n \<and> \<bar>n\<bar> \<le> MaxInt)"
proof -
  have le: "\<bar>v\<bar> \<le> MaxInt" using assms(2) by (auto simp: MaxInt_def)
  have f: "FloatToInt (IntToFloat v) = Some v \<and> (\<exists>a. IntToFloat v = Fin a \<and> \<bar>a\<bar> \<le> MaxFloat)"
  proof -
    consider "v = 0" | "0 < v" | "0 < - v" by linarith
    then show ?thesis
    proof cases
      case 1
      then show ?thesis
        by (simp add: IntToFloat_def float_of_int_def fround_def precision_def FloatToInt_def IsNaN_def float_le_def MaxFloat_def)
    next
      case 2
      then show ?thesis using roundtrip_pos [of v] as_float_range [of v] IntToFloat_pos [of v] assms(2) le
        by (auto simp: MaxFloat_def MaxInt_def)
    next
      case 3
      then show ?thesis using roundtrip_pos [of "- v"] as_float_range [of "- v"] IntToFloat_neg [of "- v"] assms(2) le
        by (auto simp: MaxFloat_def MaxInt_def)
    qed
  qed
  then obtain a where a: "IntToFloat v = Fin a" "\<bar>a\<bar> \<le> MaxFloat" by blast
  have "StringToInt ParseFloat (IntToString v) = Inr (FloatToInt (IntToFloat v))"
    unfolding parse_printed [OF assms(1) le] using a by (auto simp: IsInf_def abs_le_iff)
  then show ?thesis using f IntToString_value [OF assms(3,4)] FloatToInt_total by simp
qed

text \<open>A parser that is right on plain numerals.\<close>

definition plain_parser :: "bytes \<Rightarrow> float64 option" where
  "plain_parser s = map_option fround (plain_decimal s)"

lemma plain_parser_nearest: "ParseFloat_nearest plain_parser"
  by (simp add: ParseFloat_nearest_def plain_parser_def)

theorem decint_roundtrip_witness:
  "ParseFloat_nearest plain_parser \<and> FloatToInt (IntToFloat (- 1234567)) = Some (- 1234567)
     \<and> StringToInt plain_parser (IntToString (- 1234567)) = Inr (Some (- 1234567))
     \<and> plain_decimal (IntToString (- (2 ^ 63))) = Some (of_int (- (2 ^ 63)) / 1000000)"
  using decint_roundtrip [OF plain_parser_nearest, of "- 1234567" "- (2 ^ 63)"] plain_parser_nearest by simp

section \<open>Where the sixth place is lost\<close>

lemma half_even_floor:
  "of_int n < q - 1 / 2 \<Longrightarrow> q < of_int n + 1 + 1 / 2 \<Longrightarrow> half_even q = n + 1" for q :: rat
proof -
  assume a: "of_int n < q - 1 / 2" "q < of_int n + 1 + 1 / 2"
  have "\<bar>of_int (half_even q) - (of_int n + 1)\<bar> < (1 :: rat)" using half_even_near [of q] a by linarith
  then have "(of_int \<bar>half_even q - (n + 1)\<bar> :: rat) < of_int 1" by simp
  then show ?thesis by (simp only: of_int_less_iff)
qed

lemma lost_float: "as_float 4294967296000011 = 4503599627370508 / 1048576"
proof -
  define x :: rat where "x = of_int 4294967296000011 / 1000000"
  have "(2 :: rat) powi 32 \<le> x" "x < 2 powi (32 + 1)" by (simp_all add: x_def)
  then have "lead x = 32" by (rule lead_eq)
  then have l: "2 powi last_place x = (1 / 1048576 :: rat)" by (simp add: last_place_def power_int_minus)
  have "half_even (x / (1 / 1048576)) = 4503599627370507 + 1"
    by (rule half_even_floor) (simp_all add: x_def)
  then show ?thesis unfolding x_def [symmetric] round_pos_def l by simp
qed

lemma lost_scaled: "scaled 4294967296000011 = 8589934592000023 / 2"
proof -
  define p :: rat where "p = 4503599627370508 / 1048576 * 1000000"
  have "(2 :: rat) powi 51 \<le> p" "p < 2 powi (51 + 1)" by (simp_all add: p_def)
  then have "lead p = 51" by (rule lead_eq)
  then have l: "2 powi last_place p = (1 / 2 :: rat)" by (simp add: last_place_def)
  have "half_even (p / (1 / 2)) = 8589934592000022 + 1"
    by (rule half_even_floor) (simp_all add: p_def)
  then have "round_pos p = 8589934592000023 / 2" unfolding round_pos_def l by simp
  then show ?thesis unfolding lost_float p_def .
qed

lemma lost_text: "IntToString 4294967296000011 = ''4294967296.000011''"
proof -
  have "FormatUint 10 4294967296 = ''4294967296''" "FormatUint 10 11 = ''11''"
    by (simp_all add: FormatUint.simps digit_char_def char_of_eq_iff)
  moreover have "pad6 ''11'' = ''000011''" by (simp add: pad6_def numeral_eq_Suc)
  moreover have "unat ((word_of_int 4294967296000011 :: 64 word) div scale) = 4294967296"
    "unat ((word_of_int 4294967296000011 :: 64 word) mod scale) = 11" by (simp_all add: scale_def)
  ultimately show ?thesis by (simp add: IntToString_def)
qed

text \<open>
  C19. Between these two ranges the sixth place is not always kept: 4294967296.000011 becomes
  4294967296.000012, from the integer through a float as well as from its own text, although it is well below the documented
  safe range of \<open>2 ^ 33\<close>. The product with a million falls on a half there, which is then rounded up.
\<close>

theorem decint_roundtrip_fails:
  assumes "ParseFloat_nearest ParseFloat"
  shows "FloatToInt (IntToFloat 4294967296000011) = Some 4294967296000012
     \<and> IntToString 4294967296000011 = ''4294967296.000011''
     \<and> StringToInt ParseFloat ''4294967296.000011'' = Inr (Some 4294967296000012)"
proof -
  have i: "IntToFloat 4294967296000011 = Fin (4503599627370508 / 1048576)"
    using IntToFloat_pos [of 4294967296000011] unfolding lost_float by simp
  have "\<lfloor>8589934592000023 / 2 + 1 / 2 :: rat\<rfloor> = 4294967296000012" by (rule floor_unique) simp_all
  then have f: "FloatToInt (IntToFloat 4294967296000011) = Some 4294967296000012"
    using FloatToInt_inside [of "as_float 4294967296000011"] unfolding i lost_scaled unfolding lost_float by (simp add: MaxFloat_def)
  have "StringToInt ParseFloat (IntToString 4294967296000011) = Inr (FloatToInt (IntToFloat 4294967296000011))"
    unfolding parse_printed [of ParseFloat 4294967296000011, OF assms, unfolded MaxInt_def, simplified] i
    by (simp add: IsInf_def MaxFloat_def)
  then show ?thesis using f lost_text by simp
qed

theorem decint_roundtrip_fails_witness:
  "ParseFloat_nearest plain_parser \<and> StringToInt plain_parser ''4294967296.000011'' = Inr (Some 4294967296000012)"
  using decint_roundtrip_fails [OF plain_parser_nearest] plain_parser_nearest by simp

end
