(* ===== verification/Spec2Isabelle.thy ===== *)
theory Spec2Isabelle
  imports SF_Props RD_Props NT_Props FL_Props RT_Props DN_Props CC_Props MY_Props SM_Props
    RN_Props PW_Props EN_Props ST_Props SQ_Props DI_Props
begin

text \<open>
  A verification of the packages of nurago, a library of Go packages for services, that carry
  algorithms and state of their own. Packages are under \<^verbatim>\<open>src/pkg\<close>; they are independent of each
  other but for the imports named below.

  \<^bold>\<open>Theories and the code they model.\<close>

  \<^item> \<^verbatim>\<open>Go_Prelude\<close>, \<^verbatim>\<open>Go_Utf8\<close>, \<^verbatim>\<open>Go_Strconv\<close>, \<^verbatim>\<open>Go_Format\<close>, \<^verbatim>\<open>Go_Float\<close>: what the packages use of Go. Byte strings
    are lists of 8-bit characters, maps are finite maps, durations and instants integers, a
    panic is \<open>None\<close> or a constructor of its own, \<^verbatim>\<open>float64\<close> is a rational, an infinity or NaN with
    every result rounded to 53 bits. Shown: rounding is exact on representable values and never
    crosses one.
  \<^item> \<^verbatim>\<open>SF_Pqueue\<close>, \<^verbatim>\<open>SF_Cache\<close>, \<^verbatim>\<open>SF_Capacity\<close>, \<^verbatim>\<open>SF_Flight\<close>, \<^verbatim>\<open>SF_System\<close>, \<^verbatim>\<open>SF_Props\<close>:
    \<^verbatim>\<open>sfcache\<close>, a cache with single flight lookups. Entries live in an explicit store, since the
    heap writes positions into them (\<^verbatim>\<open>entry.go\<close>, \<^verbatim>\<open>pqueue.go\<close>: \<^verbatim>\<open>SF_Pqueue\<close>; \<^verbatim>\<open>evict.go\<close>,
    \<^verbatim>\<open>capacity.go\<close>, \<^verbatim>\<open>stale.go\<close>, \<^verbatim>\<open>sfcache.go\<close>: \<^verbatim>\<open>SF_Cache\<close>). Goroutines are program counters of a
    step relation in which a critical section is one step (\<^verbatim>\<open>flight.go\<close>, \<^verbatim>\<open>lookup.go\<close>:
    \<^verbatim>\<open>SF_Flight\<close>). The heap interprets the interface of a priority queue over a multiset. Shown, for
    every interleaving: one producer per key, only looked-up outcomes are served, the capacity
    bounds, every operation returns and no waiter is lost, what eviction may take, what a failed
    refresh serves and until when, purging.
  \<^item> \<^verbatim>\<open>RD_Scan\<close>, \<^verbatim>\<open>RD_Keys\<close>, \<^verbatim>\<open>RD_Rules\<close>, \<^verbatim>\<open>RD_Json\<close>, \<^verbatim>\<open>RD_Engine\<close> with \<^verbatim>\<open>RD_Ref\<close>, \<^verbatim>\<open>RD_Fast\<close>,
    \<^verbatim>\<open>RD_Secrecy\<close>, \<^verbatim>\<open>RD_Props\<close>: \<^verbatim>\<open>redact\<close>, the masking of secrets in byte streams. Every rule is a
    function of the text and a position that returns where to resume. Shown: the engine with its
    bulk copy equals a byte-at-a-time reference, the fast key classifier and the memo agree with
    the slow one, which values never reach the output, and that a truncated document makes the labelled JSON
    rule panic.
  \<^item> \<^verbatim>\<open>NT_Trie\<close>, \<^verbatim>\<open>NT_Phone\<close>, \<^verbatim>\<open>NT_Data\<close>, \<^verbatim>\<open>NT_Props\<close>: \<^verbatim>\<open>phonekeypad\<close>, \<^verbatim>\<open>numtrie\<close> and
    \<^verbatim>\<open>countryphone\<close> with its embedded table. The trie interprets the interface of a map from digit
    sequences; \<^verbatim>\<open>countryphone\<close> is its client. Shown: lookup is longest-prefix lookup with exact
    status bits, and loading in any order of the Go map gives the same answers up to the order of
    shared areas, with the same type of number where the entries of each prefix agree on it.
  \<^item> \<^verbatim>\<open>FL_Value\<close>, \<^verbatim>\<open>FL_Filter\<close>, \<^verbatim>\<open>FL_Proofs\<close>, \<^verbatim>\<open>FL_Props\<close>: \<^verbatim>\<open>filter\<close>, rule-based filtering of
    slices by reflection. Values are trees that carry the identity of their type, and a value read
    from a field carries the flags that make \<^verbatim>\<open>reflect.Value.Interface\<close> panic. Shown: the
    window of matches that is left, no panic on well-typed elements (which rests on unexported
    fields being refused), exact comparison of numbers, the errors, and the transparency of the
    path cache.
  \<^item> \<^verbatim>\<open>RT_Backoff\<close>, \<^verbatim>\<open>RT_Loop\<close>, \<^verbatim>\<open>RT_Retrier\<close>, \<^verbatim>\<open>RT_Http\<close>, \<^verbatim>\<open>RT_Periodic\<close>, \<^verbatim>\<open>RT_Props\<close>: \<^verbatim>\<open>backoff\<close>
    and its clients \<^verbatim>\<open>retrier\<close>, \<^verbatim>\<open>httpretrier\<close> and \<^verbatim>\<open>periodic\<close>. The two retry loops interpret one
    locale, a loop of attempts over \<^verbatim>\<open>select\<close>; the scheduler is a step relation. Shown: every delay
    is in range for every configuration and the delays are the exponential sequence; both loops
    always return; no response body leaks and no consumed request body is sent again; nothing
    runs after \<^verbatim>\<open>Stop\<close> has returned.
  \<^item> \<^verbatim>\<open>DN_Cache\<close>, \<^verbatim>\<open>DN_Props\<close>: \<^verbatim>\<open>dnscache\<close>, the client of \<^verbatim>\<open>sfcache\<close>. Shown: what is dialed, in which
    order, when dialing stops and with which result, and that the addresses were resolved for that
    host.

  \<^item> \<^verbatim>\<open>CC_Key\<close>, \<^verbatim>\<open>CC_Country\<close>, \<^verbatim>\<open>CC_Data\<close>, \<^verbatim>\<open>CC_Index\<close>, \<^verbatim>\<open>CC_Load\<close>, \<^verbatim>\<open>CC_Check\<close>, \<^verbatim>\<open>CC_Default\<close>,
    \<^verbatim>\<open>CC_Props\<close>: \<^verbatim>\<open>countrycode\<close>. Keys are 64-bit words (\<^verbatim>\<open>countrykey.go\<close>: \<^verbatim>\<open>CC_Key\<close>); loading, the
    catalogs, the indexes and the queries are \<^verbatim>\<open>CC_Country\<close>, the embedded dataset is \<^verbatim>\<open>CC_Data\<close>. The
    order in which Go visits the map of keys is an argument, and the upper-case mapping of runes
    outside ASCII is one. Shown: keys and codes are decoded to what was encoded; every record of a
    custom dataset is returned unchanged; the grouped queries are exact; the embedded dataset is
    complete, by evaluation of its rows (\<^verbatim>\<open>CC_Check\<close>, with a search tree for distinctness).
  \<^item> \<^verbatim>\<open>MY_Lock\<close>, \<^verbatim>\<open>MY_Proofs\<close>, \<^verbatim>\<open>MY_Props\<close>: \<^verbatim>\<open>mysqllock\<close>. \<^verbatim>\<open>Acquire\<close> is a function of the answers of the
    database; a held lock is a step relation over the keep-alive goroutine and the callers of its
    release function. Shown: queries never overlap on the connection, one release, one result for all
    callers, no report of a loss without a failed ping, and no caller waits for ever.
  \<^item> \<^verbatim>\<open>SM_Metric\<close>, \<^verbatim>\<open>SM_Props\<close>: \<^verbatim>\<open>stringmetric\<close>. Shown: the flattened matrix holds the values of the
    recursive distance, which is symmetric, bounded, and zero exactly for equal runes.

  \<^item> \<^verbatim>\<open>RN_Hex\<close>, \<^verbatim>\<open>RN_Random\<close>, \<^verbatim>\<open>RN_Uuid\<close>, \<^verbatim>\<open>RN_Props\<close>: \<^verbatim>\<open>uhex\<close> and its client \<^verbatim>\<open>random\<close>. Encoders store
    into a byte list; a reader of random bytes is any function on a state, and the clock, the calendar
    and the draws that replace a failed reader are arguments. Shown: every read ends, hexadecimal text
    reads back as the number, random strings have their length and alphabet and no letter is favoured,
    and the text of a UUID has its shape and orders by time.
  \<^item> \<^verbatim>\<open>PW_Params\<close>, \<^verbatim>\<open>PW_Base64\<close>, \<^verbatim>\<open>PW_Phc\<close>, \<^verbatim>\<open>PW_Hash\<close>, \<^verbatim>\<open>PW_Props\<close>: \<^verbatim>\<open>passwordhash\<close>, a client of \<^verbatim>\<open>random\<close>,
    with what it uses of \<^verbatim>\<open>encrypt\<close> and \<^verbatim>\<open>encode\<close>. \<^verbatim>\<open>PW_Base64\<close> is the base64 codec of the standard library,
    strict and lax. Shown: the parser of stored strings and the printer are inverse up to leading zeros,
    hashed passwords verify in both formats and with a pepper, and verification consults Argon2 only
    within the budget of the configuration, whatever is stored.
  \<^item> \<^verbatim>\<open>EN_Enum\<close>, \<^verbatim>\<open>EN_Props\<close>: \<^verbatim>\<open>enumbitmap\<close> and its client \<^verbatim>\<open>enumcache\<close>. Shown: the two maps of the cache
    stay inverse to each other, and bitmaps decode to names that encode back.

  \<^item> \<^verbatim>\<open>ST_Utf8\<close>, \<^verbatim>\<open>ST_Split\<close>, \<^verbatim>\<open>ST_Props\<close>: \<^verbatim>\<open>strsplit\<close>, over what \<^verbatim>\<open>strings\<close> and \<^verbatim>\<open>unicode/utf8\<close> do from the
    end of a string. The loop ends because trimming never lengthens and a cut at zero is white space.
    Shown: the chunks cover the text up to white space, have bounded size, and no rune is cut.
  \<^item> \<^verbatim>\<open>SQ_Util\<close>, \<^verbatim>\<open>SQ_Props\<close>: \<^verbatim>\<open>sqlutil\<close>, with a reader of MySQL's literals and names in its default mode as the
    specification. Shown: what is quoted is read back as the value that was quoted, whatever bytes it has.
  \<^item> \<^verbatim>\<open>DI_Decint\<close>, \<^verbatim>\<open>DI_Props\<close>: \<^verbatim>\<open>decint\<close> over \<^verbatim>\<open>Go_Float\<close>, with bounds on how far rounding moves a value. Shown:
    printing is exact, six decimals survive below \<open>2 ^ 32\<close> and above \<open>2 ^ 52\<close> millionths, and a value in
    between that does not survive.

  \<^bold>\<open>Parameters.\<close> Code that is not in the repository, and the tables and engines of the standard
  library, are arguments of the definitions: the functions a caller supplies (lookups, tasks,
  HTTP clients, dialers), the clock, random draws, the Unicode tables, regular expressions, the
  type graph of reflection, JSON decoding, the parsers of IP addresses and HTTP dates,
  Argon2, AES-GCM, readers of random bytes, the table of punctuation, and the parser of
  floating-point numerals. What a
  theorem needs of them is one of its hypotheses.

  \<^bold>\<open>Loops and bounds.\<close> Loops over positions, budgets and counters are total functions with a
  measure; no fuel is chosen anywhere. The retry loops terminate by the attempts left, also for a
  counter that starts at zero and wraps. Words keep their width where the code relies on it:
  attempt counters, the dial offset, status bits, 64-bit comparison, saturating jitter.

  \<^bold>\<open>Not modelled.\<close> Of \<^verbatim>\<open>redact\<close>, the choice of destination buffers and their pool, and the panics of
  slice and index accesses other than the one of \<^verbatim>\<open>json.go:110\<close>: access is total there, behind the
  guards of the code; of \<^verbatim>\<open>encrypt\<close> and
  \<^verbatim>\<open>encode\<close>, the gob variants, which are the same code over another codec. The remaining packages are
  clients of external services, HTTP and logging glue, where the content is the behaviour of other
  code; and a group of small packages of pure helpers (\<^verbatim>\<open>paging\<close>, \<^verbatim>\<open>stringkey\<close>,
  \<^verbatim>\<open>sliceutil\<close>, \<^verbatim>\<open>maputil\<close>, \<^verbatim>\<open>timeutil\<close>, \<^verbatim>\<open>errutil\<close>, the thread-safe containers).
\<close>

end
